(* ===== verification/Prelude.thy ===== *)
theory Prelude
  imports Complex_Main "HOL-Library.Word"
begin

text \<open>
  Shared vocabulary of the development: machine-integer names, the faults that stand
  for the undefined behaviour and the failed assertions of the C code, byte-level access
  to packet buffers in network byte order, C memory copies, and the few list and word
  lemmas that several components use.
\<close>

unbundle bit_operations_syntax

named_theorems wire_simps \<open>reading and writing fields of a packet buffer\<close>
named_theorems fault_simps \<open>sequencing of fallible operations\<close>

section \<open>Machine integers\<close>

type_synonym u8 = "8 word"
type_synonym u16 = "16 word"
type_synonym u32 = "32 word"
type_synonym u64 = "64 word"

type_synonym bytes = "u8 list"

section \<open>Faults and fallible results\<close>

text \<open>
  What stops a run of the C code: a false \<open>assert\<close>, an access outside an array, the use
  of a null pointer, the use of freed memory, (no error) a call that has to wait for
  another thread, and a recursion that is deeper than the fuel it is given.
\<close>

datatype fault =
    Assertion_Failure | Out_Of_Bounds | Null_Dereference | Use_After_Free | Would_Block | Out_Of_Fuel

type_synonym 'a result = "fault + 'a"

definition rbind :: "'a result \<Rightarrow> ('a \<Rightarrow> 'b result) \<Rightarrow> 'b result" where
  "rbind m k = (case m of Inl e \<Rightarrow> Inl e | Inr a \<Rightarrow> k a)"

lemma rbind_simps [simp, fault_simps]:
  "rbind (Inl e) k = Inl e"
  "rbind (Inr a) k = k a"
  by (simp_all add: rbind_def)

lemma rbind_eq_Inr_iff [fault_simps]:
  "rbind m k = Inr b \<longleftrightarrow> (\<exists>a. m = Inr a \<and> k a = Inr b)"
  by (cases m) simp_all

definition c_assert :: "bool \<Rightarrow> unit result" where
  "c_assert b = (if b then Inr () else Inl Assertion_Failure)"

lemma c_assert_simps [simp, fault_simps]:
  "c_assert True = Inr ()"
  "c_assert False = Inl Assertion_Failure"
  "c_assert b = Inr u \<longleftrightarrow> b"
  by (simp_all add: c_assert_def)

text \<open>\<open>memcpy_from src len\<close>: the bytes that \<open>memcpy\<close> copies out of the memory
  readable at a pointer (a pointer into a buffer is the rest of the buffer).\<close>

definition memcpy_from :: "bytes \<Rightarrow> nat \<Rightarrow> bytes result" where
  "memcpy_from src len = (if len \<le> length src then Inr (take len src) else Inl Out_Of_Bounds)"

section \<open>Network byte order\<close>

text \<open>
  A field of a packed header is read with \<open>ntohs\<close>/\<open>ntohl\<close> and written with
  \<open>htons\<close>/\<open>htonl\<close>: in the buffer its bytes are big-endian. The model names the
  field by its host-order value.
\<close>

definition bytes16 :: "u16 \<Rightarrow> bytes" where
  "bytes16 w = [ucast (drop_bit 8 w), ucast w]"

definition bytes32 :: "u32 \<Rightarrow> bytes" where
  "bytes32 w = [ucast (drop_bit 24 w), ucast (drop_bit 16 w), ucast (drop_bit 8 w), ucast w]"

definition get16 :: "bytes \<Rightarrow> nat \<Rightarrow> u16" where
  "get16 b i = (push_bit 8 (ucast (b ! i)) OR ucast (b ! (i + 1)))"

definition get32 :: "bytes \<Rightarrow> nat \<Rightarrow> u32" where
  "get32 b i = (push_bit 24 (ucast (b ! i)) OR push_bit 16 (ucast (b ! (i + 1)))
     OR push_bit 8 (ucast (b ! (i + 2))) OR ucast (b ! (i + 3)))"

text \<open>Overwriting a run of bytes in place (a store or a \<open>memcpy\<close> into a buffer that
  is long enough).\<close>

definition put :: "nat \<Rightarrow> bytes \<Rightarrow> bytes \<Rightarrow> bytes" where
  "put i v b = take i b @ v @ drop (i + length v) b"

lemma length_bytes16 [simp]: "length (bytes16 w) = 2"
  by (simp add: bytes16_def)

lemma length_bytes32 [simp]: "length (bytes32 w) = 4"
  by (simp add: bytes32_def)

lemma join16: "push_bit 8 (ucast (ucast (drop_bit 8 w) :: u8)) OR ucast (ucast w :: u8) = (w :: u16)"
  by (rule bit_word_eqI) (auto simp: bit_simps)

lemma join32:
  "push_bit 24 (ucast (ucast (drop_bit 24 w) :: u8)) OR push_bit 16 (ucast (ucast (drop_bit 16 w) :: u8))
     OR push_bit 8 (ucast (ucast (drop_bit 8 w) :: u8)) OR ucast (ucast w :: u8) = (w :: u32)"
  (is "?joined = _")
proof (rule bit_word_eqI)
  fix n assume "n < LENGTH(32)"
  then consider "n < 8" | "8 \<le> n \<and> n < 16" | "16 \<le> n \<and> n < 24" | "24 \<le> n \<and> n < 32"
    by fastforce
  then show "bit ?joined n = bit w n"
    by cases (auto simp: bit_simps)
qed

lemma get16_append [wire_simps]:
  "length xs = i \<Longrightarrow> get16 (xs @ bytes16 w @ ys) i = w"
  by (simp add: get16_def bytes16_def nth_append join16)

lemma get32_append [wire_simps]:
  "length xs = i \<Longrightarrow> get32 (xs @ bytes32 w @ ys) i = w"
  using join32 [of w] by (simp add: get32_def bytes32_def nth_append)

lemma length_put [simp]: "i + length v \<le> length b \<Longrightarrow> length (put i v b) = length b"
  by (simp add: put_def)

lemma put_past: "length a = n \<Longrightarrow> put n v (a @ b) = a @ v @ drop (length v) b"
  by (simp add: put_def)

lemma nth_put [wire_simps]:
  "i + length v \<le> length b \<Longrightarrow> k < length b \<Longrightarrow>
     put i v b ! k = (if i \<le> k \<and> k < i + length v then v ! (k - i) else b ! k)"
  by (auto simp: put_def nth_append)

section \<open>Words\<close>

lemma unat_ucast_32_64 [simp]: "unat (ucast (w :: u32) :: u64) = unat w"
proof -
  have "unat w < 2 ^ 32" using unsigned_less [of w, where ?'a = nat] by simp
  then show ?thesis by (simp add: unsigned_ucast_eq take_bit_nat_eq_self)
qed
lemma unat_of_bool [simp]: "unat (of_bool b :: 'a::len word) = of_bool b" by (cases b) simp_all


section \<open>Text\<close>

definition ascii :: "string \<Rightarrow> bytes" where
  "ascii cs = map of_char cs"

text \<open>A number as \<open>printf\<close> writes it in decimal.\<close>

fun dec :: "nat \<Rightarrow> bytes" where
  "dec n = (if n < 10 then [0x30 + of_nat n] else dec (n div 10) @ [0x30 + of_nat (n mod 10)])"

declare dec.simps [simp del]

lemma length_ascii [simp]: "length (ascii cs) = length cs"
  by (simp add: ascii_def)

lemma length_dec: "0 < k \<Longrightarrow> n < 10 ^ k \<Longrightarrow> length (dec n) \<le> k"
proof (induction n arbitrary: k rule: dec.induct)
  case (1 n)
  show ?case
  proof (cases "n < 10")
    case False
    moreover obtain j where "k = Suc j" using 1(2) by (cases k) auto
    ultimately have k: "k = Suc j" "0 < j" using 1(3) by (auto intro: Nat.gr0I)
    then have "n div 10 < 10 ^ j" using 1(3) by (simp add: less_mult_imp_div_less mult.commute)
    then show ?thesis using 1(1) [OF False] k False by (simp add: dec.simps [of n])
  qed (use 1(2) in \<open>simp add: dec.simps [of n]\<close>)
qed

end
