(* ===== verification/Stcp_Wire.thy ===== *)
theory Stcp_Wire
  imports Prelude
begin

text \<open>
  The STCP packet on the wire: the 20-byte header of \<^verbatim>\<open>hw3/transport.h\<close>, its
  construction by \<open>build_header\<close> of \<^verbatim>\<open>transport.c\<close>, and the TCP checksum of
  \<^verbatim>\<open>hw3/tcp_sum.c\<close>. The machine is little-endian, as the build for Linux assumes:
  the checksum adds the 16-bit words of the buffer as little-endian numbers and stores its
  result the same way, all other fields are big-endian. The lemmas give the round trips
  (fields, checksum) and the one's complement law of the checksum.
\<close>

section \<open>The header\<close>

definition TH_FIN :: u8 where "TH_FIN = 0x01"
definition TH_SYN :: u8 where "TH_SYN = 0x02"
definition TH_ACK :: u8 where "TH_ACK = 0x10"

record tcphdr =
  th_sport :: u16
  th_dport :: u16
  th_seq :: u32
  th_ack :: u32
  th_x2 :: "4 word"
  th_off :: "4 word"
  th_flags :: u8
  th_win :: u16
  th_sum :: u16
  th_urp :: u16

definition STCP_HEADER_LEN :: nat where
  "STCP_HEADER_LEN = 20"

definition DEFAULT_WIN_SIZE :: u32 where
  "DEFAULT_WIN_SIZE = 3072"

text \<open>The bytes of the packed struct. \<open>th_x2\<close> is the low, \<open>th_off\<close> the high
  nibble of byte 12 (the little-endian layout of the bit fields).\<close>

definition le_bytes16 :: "u16 \<Rightarrow> bytes" where
  "le_bytes16 w = [ucast w, ucast (drop_bit 8 w)]"

definition hdr_bytes :: "tcphdr \<Rightarrow> bytes" where
  "hdr_bytes h =
     bytes16 (th_sport h) @ bytes16 (th_dport h) @ bytes32 (th_seq h) @ bytes32 (th_ack h) @
     [push_bit 4 (ucast (th_off h)) OR ucast (th_x2 h), th_flags h] @
     bytes16 (th_win h) @ le_bytes16 (th_sum h) @ bytes16 (th_urp h)"

text \<open>The field reads of a received packet.\<close>

definition pkt_seq :: "bytes \<Rightarrow> u32" where "pkt_seq b = get32 b 4"
definition pkt_ack :: "bytes \<Rightarrow> u32" where "pkt_ack b = get32 b 8"
definition pkt_off :: "bytes \<Rightarrow> 4 word" where "pkt_off b = ucast (drop_bit 4 (b ! 12))"
definition pkt_flags :: "bytes \<Rightarrow> u8" where "pkt_flags b = b ! 13"
definition pkt_win :: "bytes \<Rightarrow> u16" where "pkt_win b = get16 b 14"

definition build_header :: "u32 \<Rightarrow> u32 \<Rightarrow> u8 \<Rightarrow> tcphdr" where
  "build_header sq ack flags =
     \<lparr>th_sport = 0, th_dport = 0, th_seq = sq, th_ack = ack, th_x2 = 0,
      th_off = of_nat (STCP_HEADER_LEN div 4), th_flags = flags,
      th_win = ucast DEFAULT_WIN_SIZE, th_sum = 0, th_urp = 0\<rparr>"

definition is_valid_seg_len_and_flags :: "bytes \<Rightarrow> int \<Rightarrow> u8 \<Rightarrow> bool" where
  "is_valid_seg_len_and_flags hdr len expected_flags =
     (if len < int STCP_HEADER_LEN then False
      else if (pkt_flags hdr AND expected_flags) \<noteq> expected_flags then False
      else True)"

section \<open>The checksum\<close>

definition le16 :: "bytes \<Rightarrow> nat \<Rightarrow> nat" where
  "le16 b k = unat (b ! (2 * k)) + 256 * unat (b ! (2 * k + 1))"

definition IPPROTO_TCP :: u8 where "IPPROTO_TCP = 6"

definition pseudo_header :: "u32 \<Rightarrow> u32 \<Rightarrow> nat \<Rightarrow> bytes" where
  "pseudo_header src_addr dst_addr len =
     bytes32 src_addr @ bytes32 dst_addr @ [0, IPPROTO_TCP] @ bytes16 (of_nat len)"

text \<open>Word 8 of the packet is the checksum field itself; the sum is an \<open>int32_t\<close> in
  the code (\<open>tcp_sum_no_overflow\<close> below: it stays in range).\<close>

definition tcp_raw_sum :: "u32 \<Rightarrow> u32 \<Rightarrow> bytes \<Rightarrow> nat" where
  "tcp_raw_sum src_addr dst_addr packet =
     (let len = length packet; pseudo = pseudo_header src_addr dst_addr len
      in (\<Sum>k\<leftarrow>[0..<6]. le16 pseudo k)
       + (\<Sum>k\<leftarrow>[0..<len div 2]. if k = 8 then 0 else le16 packet k)
       + (if odd len then unat (packet ! (len - 1)) else 0))"

definition fold_sum :: "nat \<Rightarrow> nat" where
  "fold_sum acc = (let s = acc div 2 ^ 16 + acc mod 2 ^ 16 in s + s div 2 ^ 16)"

definition mysock_tcp_checksum :: "u32 \<Rightarrow> u32 \<Rightarrow> bytes \<Rightarrow> u16 result" where
  "mysock_tcp_checksum src_addr dst_addr packet =
     rbind (c_assert (STCP_HEADER_LEN \<le> length packet)) (\<lambda>_.
     rbind (c_assert (0 < src_addr)) (\<lambda>_.
     rbind (c_assert (0 < dst_addr)) (\<lambda>_.
       Inr (NOT (of_nat (fold_sum (tcp_raw_sum src_addr dst_addr packet)))))))"

definition pkt_sum :: "bytes \<Rightarrow> u16" where
  "pkt_sum b = ucast (b ! 16) OR push_bit 8 (ucast (b ! 17))"

definition mysock_set_checksum :: "u32 \<Rightarrow> u32 \<Rightarrow> bytes \<Rightarrow> bytes result" where
  "mysock_set_checksum local_addr peer_addr packet =
     rbind (c_assert (STCP_HEADER_LEN \<le> length packet)) (\<lambda>_.
     rbind (mysock_tcp_checksum local_addr peer_addr packet) (\<lambda>my_sum.
       Inr (put 16 (le_bytes16 my_sum) packet)))"

definition mysock_verify_checksum :: "u32 \<Rightarrow> u32 \<Rightarrow> bytes \<Rightarrow> bool result" where
  "mysock_verify_checksum peer_addr local_addr packet =
     rbind (c_assert (STCP_HEADER_LEN \<le> length packet)) (\<lambda>_.
     rbind (mysock_tcp_checksum peer_addr local_addr packet) (\<lambda>my_sum.
       Inr (my_sum = pkt_sum packet)))"

section \<open>Reading what was written\<close>

lemma length_le_bytes16 [simp]: "length (le_bytes16 w) = 2"
  by (simp add: le_bytes16_def)

lemma length_hdr_bytes [simp]: "length (hdr_bytes h) = STCP_HEADER_LEN"
  by (simp add: hdr_bytes_def STCP_HEADER_LEN_def)

lemma nibbles: "ucast (drop_bit 4 (push_bit 4 (ucast hi) OR ucast (lo :: 4 word) :: u8)) = (hi :: 4 word)"
  by (rule bit_word_eqI) (auto simp: bit_simps dest: bit_imp_le_length)

lemma hdr_fields [wire_simps]:
  "pkt_seq (hdr_bytes h @ p) = th_seq h"
  "pkt_ack (hdr_bytes h @ p) = th_ack h"
  "pkt_off (hdr_bytes h @ p) = th_off h"
  "pkt_flags (hdr_bytes h @ p) = th_flags h"
  "pkt_win (hdr_bytes h @ p) = th_win h"
proof -
  show "pkt_seq (hdr_bytes h @ p) = th_seq h"
    unfolding pkt_seq_def hdr_bytes_def
    using get32_append [of "bytes16 (th_sport h) @ bytes16 (th_dport h)" 4 "th_seq h"] by simp
  show "pkt_ack (hdr_bytes h @ p) = th_ack h"
    unfolding pkt_ack_def hdr_bytes_def
    using get32_append [of "bytes16 (th_sport h) @ bytes16 (th_dport h) @ bytes32 (th_seq h)" 8 "th_ack h"]
    by simp
  show "pkt_win (hdr_bytes h @ p) = th_win h"
    unfolding pkt_win_def hdr_bytes_def
    using get16_append [of "bytes16 (th_sport h) @ bytes16 (th_dport h) @ bytes32 (th_seq h) @
        bytes32 (th_ack h) @ [push_bit 4 (ucast (th_off h)) OR ucast (th_x2 h), th_flags h]" 14 "th_win h"]
    by simp
  show "pkt_off (hdr_bytes h @ p) = th_off h" "pkt_flags (hdr_bytes h @ p) = th_flags h"
    unfolding pkt_off_def pkt_flags_def using nibbles [of "th_off h" "th_x2 h"]
    by (simp_all add: hdr_bytes_def nth_append)
qed

lemma pkt_sum_le_bytes16: "pkt_sum (put 16 (le_bytes16 w) b) = w" if "18 \<le> length b"
proof -
  have "ucast (ucast w :: u8) OR push_bit 8 (ucast (ucast (drop_bit 8 w) :: u8)) = w"
    by (rule bit_word_eqI) (auto simp: bit_simps)
  with that show ?thesis
    by (simp add: pkt_sum_def nth_put le_bytes16_def)
qed

section \<open>Checksum laws\<close>

lemma le16_bound: "le16 b k \<le> 65535"
proof -
  have "unat (x :: u8) < 256" for x using unsigned_less [of x, where ?'a = nat] by simp
  from this [of "b ! (2 * k)"] this [of "b ! (2 * k + 1)"] show ?thesis
    unfolding le16_def by linarith
qed

lemma sum_list_le_bound: "(\<And>k. f k \<le> c) \<Longrightarrow> (\<Sum>k\<leftarrow>ks. f k) \<le> c * length ks" for f :: "'a \<Rightarrow> nat"
  by (induction ks) (auto simp: add_mono)

lemma tcp_sum_no_overflow:
  assumes "length packet \<le> 1500"
  shows "tcp_raw_sum src dst packet < 2 ^ 31"
proof -
  have "(\<Sum>k\<leftarrow>[0..<6]. le16 (pseudo_header src dst (length packet)) k) \<le> 65535 * length [0..<6::nat]"
    by (rule sum_list_le_bound) (rule le16_bound)
  moreover have "(\<Sum>k\<leftarrow>[0..<length packet div 2]. if k = 8 then 0 else le16 packet k)
      \<le> 65535 * length [0..<length packet div 2]"
    by (rule sum_list_le_bound) (simp add: le16_bound)
  moreover have "unat (packet ! (length packet - 1)) < 256"
    using unsigned_less [of "packet ! (length packet - 1)", where ?'a = nat] by simp
  moreover have "length packet div 2 \<le> 750" using assms by simp
  ultimately show ?thesis
    unfolding tcp_raw_sum_def Let_def by (auto split: if_splits)
qed

lemma raw_sum_ignores_field:
  assumes "18 \<le> length packet" "length v = 2"
  shows "tcp_raw_sum src dst (put 16 v packet) = tcp_raw_sum src dst packet"
proof -
  have "le16 (put 16 v packet) k = le16 packet k" if "k \<noteq> 8" "k < length packet div 2" for k
  proof -
    have "2 * k + 1 < length packet" using that by linarith
    with assms that show ?thesis by (simp add: le16_def nth_put)
  qed
  then have "(\<Sum>k\<leftarrow>[0..<length packet div 2]. if k = 8 then 0 else le16 (put 16 v packet) k)
      = (\<Sum>k\<leftarrow>[0..<length packet div 2]. if k = 8 then 0 else le16 packet k)"
    by (intro arg_cong [where f = sum_list] map_cong) auto
  moreover have "put 16 v packet ! (length packet - 1) = packet ! (length packet - 1)" if "odd (length packet)"
  proof -
    from that have "length packet \<noteq> 18" by auto
    with assms(1) have "18 \<le> length packet - 1" by linarith
    with assms show ?thesis by (simp add: nth_put)
  qed
  ultimately show ?thesis using assms by (simp add: tcp_raw_sum_def Let_def)
qed

lemma set_then_verify:
  assumes "mysock_set_checksum a b packet = Inr packet'"
  shows "mysock_verify_checksum a b packet' = Inr True"
  using assms raw_sum_ignores_field [of packet _ a b] pkt_sum_le_bytes16 [of packet]
  by (auto simp: mysock_set_checksum_def mysock_verify_checksum_def mysock_tcp_checksum_def
      rbind_eq_Inr_iff STCP_HEADER_LEN_def)

section \<open>Error detection\<close>

text \<open>The folded sum is the one's complement sum: the residue modulo 65535, with 65535 for a
  positive multiple.\<close>

lemma fold_sum_residue:
  assumes "0 < s" "s < 2 ^ 31"
  shows "fold_sum s mod 2 ^ 16 = (s - 1) mod 65535 + 1"
proof -
  define q r where "q = s div 65536" and "r = s mod 65536"
  have s: "s = 65536 * q + r" "r < 65536" "q < 32768"
    using assms by (simp_all add: q_def r_def less_mult_imp_div_less)
  define t where "t = q + r"
  have t: "0 < t" "t < 98304" using assms(1) s by (auto simp: t_def)
  have fold: "fold_sum s = t + t div 65536"
    by (simp add: fold_sum_def t_def q_def r_def Let_def)
  show ?thesis
  proof (cases "t < 65536")
    case True
    have "s - 1 = (t - 1) + q * 65535" using s t by (simp add: t_def)
    then have "(s - 1) mod 65535 = (t - 1) mod 65535" by (simp only: mod_mult_self1)
    also have "\<dots> = t - 1" using True t by simp
    finally have "(s - 1) mod 65535 = t - 1" .
    with True t fold show ?thesis by simp
  next
    case False
    then have "t div 65536 = 1" using t by simp
    then have "fold_sum s mod 2 ^ 16 = t - 65535" using fold False t by (simp add: mod_if)
    moreover have "s - 1 = (t - 65536) + (q + 1) * 65535" using s False by (simp add: t_def)
    then have "(s - 1) mod 65535 = (t - 65536) mod 65535" by (simp only: mod_mult_self1)
    then have "(s - 1) mod 65535 = t - 65536" using t False by simp
    ultimately show ?thesis using False by simp
  qed
qed

text \<open>The sum weighs each byte, those of the checksum field with 0.\<close>

definition weight :: "nat \<Rightarrow> nat" where
  "weight i = (if i = 16 \<or> i = 17 then 0 else if even i then 1 else 256)"

lemma words_as_bytes:
  "(\<Sum>k\<leftarrow>[0..<n]. if k = 8 then 0 else le16 b k) = (\<Sum>i<2 * n. weight i * unat (b ! i))"
  by (induction n) (auto simp: weight_def le16_def)

lemma raw_sum_as_bytes:
  assumes "18 \<le> length b"
  shows "tcp_raw_sum src dst b =
     (\<Sum>k\<leftarrow>[0..<6]. le16 (pseudo_header src dst (length b)) k) + (\<Sum>i<length b. weight i * unat (b ! i))"
proof (cases "even (length b)")
  case True
  then show ?thesis using words_as_bytes [of b "length b div 2"] by (simp add: tcp_raw_sum_def Let_def)
next
  case False
  then obtain m where m: "length b = Suc (2 * m)" by (metis oddE Suc_eq_plus1)
  have "m \<noteq> 8" using assms m by (cases "m = 8") auto
  moreover have "2 * m \<noteq> 17" by presburger
  ultimately have "weight (2 * m) = 1" by (simp add: weight_def)
  then show ?thesis
    using words_as_bytes [of b m] m by (simp add: tcp_raw_sum_def Let_def)
qed

lemma raw_sum_update:
  assumes "i < length b" "18 \<le> length b"
  shows "tcp_raw_sum src dst (b[i := x]) + weight i * unat (b ! i) = tcp_raw_sum src dst b + weight i * unat x"
proof -
  have split: "(\<Sum>j<length b. weight j * unat (c ! j)) =
      weight i * unat (c ! i) + (\<Sum>j \<in> {..<length b} - {i}. weight j * unat (c ! j))" for c
    using assms by (simp add: sum.remove)
  have "(\<Sum>j \<in> {..<length b} - {i}. weight j * unat (b[i := x] ! j)) =
      (\<Sum>j \<in> {..<length b} - {i}. weight j * unat (b ! j))"
    by (rule sum.cong) auto
  then have "(\<Sum>j<length b. weight j * unat (b[i := x] ! j)) + weight i * unat (b ! i) =
      (\<Sum>j<length b. weight j * unat (b ! j)) + weight i * unat x"
    using split [of b] split [of "b[i := x]"] assms(1) by simp
  then show ?thesis using assms by (simp add: raw_sum_as_bytes)
qed

lemma raw_sum_pos: "0 < src \<Longrightarrow> 18 \<le> length b \<Longrightarrow> 0 < tcp_raw_sum src dst b"
proof -
  assume "0 < src" "18 \<le> length b"
  have "0 < (\<Sum>k\<leftarrow>[0..<6]. le16 (pseudo_header src dst (length b)) k)"
    by (simp add: upt_rec le16_def pseudo_header_def bytes32_def IPPROTO_TCP_def)
  then show ?thesis using \<open>18 \<le> length b\<close> by (simp add: raw_sum_as_bytes)
qed

lemma checksum_eq_iff:
  assumes "0 < s" "s < 2 ^ 31" "0 < s'" "s' < 2 ^ 31"
  shows "(NOT (of_nat (fold_sum s)) :: u16) = NOT (of_nat (fold_sum s')) \<longleftrightarrow> s mod 65535 = s' mod 65535"
proof -
  have "(NOT (of_nat (fold_sum s)) :: u16) = NOT (of_nat (fold_sum s')) \<longleftrightarrow>
      (of_nat (fold_sum s) :: u16) = of_nat (fold_sum s')" by simp
  also have "\<dots> \<longleftrightarrow> fold_sum s mod 2 ^ 16 = fold_sum s' mod 2 ^ 16"
    by (simp add: word_unat_eq_iff unat_of_nat take_bit_eq_mod)
  also have "\<dots> \<longleftrightarrow> (s - 1) mod 65535 = (s' - 1) mod 65535"
    using fold_sum_residue assms by simp
  also have "\<dots> \<longleftrightarrow> s mod 65535 = s' mod 65535"
    using assms(1,3) by (cases s; cases s') (simp_all add: mod_Suc split: if_splits)
  finally show ?thesis .
qed

lemma pkt_sum_bytes: "ucast (pkt_sum b) = b ! 16" "ucast (drop_bit 8 (pkt_sum b)) = b ! 17"
  unfolding pkt_sum_def by (rule bit_word_eqI; auto simp: bit_simps dest: bit_imp_le_length)+

lemma weighted_change:
  assumes "weight i \<noteq> 0" "x \<noteq> (y :: u8)"
  shows "(s + weight i * unat x) mod 65535 \<noteq> (s + weight i * unat y) mod 65535"
proof
  assume eq: "(s + weight i * unat x) mod 65535 = (s + weight i * unat y) mod 65535"
  have b: "unat z \<le> 255" for z :: u8 using unsigned_less [of z, where ?'a = nat] by simp
  have "weight i = 1 \<or> weight i = 256" using assms(1) by (auto simp: weight_def split: if_splits)
  moreover have "unat x \<noteq> unat y" using assms(2) word_unat_eq_iff by blast
  moreover have "weight i * unat x < 65535" "weight i * unat y < 65535"
    using calculation(1) b [of x] b [of y] by auto
  moreover have "u = v" if "(s + u) mod 65535 = (s + v) mod 65535" "u < 65535" "v < 65535" for u v :: nat
  proof -
    have "int (s + u) mod int 65535 = int (s + v) mod int 65535"
      unfolding zmod_int [symmetric] that(1) ..
    then have "int 65535 dvd int (s + u) - int (s + v)" by (simp only: mod_eq_dvd_iff)
    moreover have "int (s + u) - int (s + v) = int u - int v" by simp
    ultimately have d: "int 65535 dvd int u - int v" by (simp only:)
    show "u = v"
    proof (rule ccontr)
      assume "u \<noteq> v"
      then have "int u - int v \<noteq> 0" by simp
      from dvd_imp_le_int [OF this d] that(2,3) show False by linarith
    qed
  qed
  ultimately have "weight i * unat x = weight i * unat y" using eq by blast
  then show False using \<open>unat x \<noteq> unat y\<close> assms(1) by simp
qed

section \<open>Properties\<close>

text \<open>What \<open>build_header\<close> puts in a header is what the receiver reads from the packet,
  whatever payload follows: sequence number, acknowledgement, data offset, flags, window.\<close>

lemma header_roundtrip:
  "pkt_seq (hdr_bytes (build_header sq ack fl) @ p) = sq \<and>
   pkt_ack (hdr_bytes (build_header sq ack fl) @ p) = ack \<and>
   unat (pkt_off (hdr_bytes (build_header sq ack fl) @ p)) * 4 = length (hdr_bytes (build_header sq ack fl)) \<and>
   pkt_flags (hdr_bytes (build_header sq ack fl) @ p) = fl \<and>
   pkt_win (hdr_bytes (build_header sq ack fl) @ p) = 3072"
  by (simp add: hdr_fields) (simp add: build_header_def STCP_HEADER_LEN_def DEFAULT_WIN_SIZE_def)

text \<open>A packet whose checksum was set by the sender passes the receiver's verification, and
  the two packets differ in the checksum field only.\<close>

lemma checksum_roundtrip:
  assumes "mysock_set_checksum src dst packet = Inr packet'"
  shows "mysock_verify_checksum src dst packet' = Inr True \<and> length packet' = length packet \<and>
    (\<forall>k < length packet. k \<noteq> 16 \<longrightarrow> k \<noteq> 17 \<longrightarrow> packet' ! k = packet ! k)"
proof -
  obtain c where "packet' = put 16 (le_bytes16 c) packet" "18 \<le> length packet"
    using assms by (auto simp: mysock_set_checksum_def rbind_eq_Inr_iff STCP_HEADER_LEN_def)
  then show ?thesis
    using set_then_verify [OF assms] by (auto simp: nth_put)
qed

text \<open>A damaged byte is detected: when one byte of an accepted packet is changed, in the
  header, the payload or the checksum field itself, the verification fails.\<close>

lemma checksum_detects_byte_error:
  assumes ok: "mysock_verify_checksum src dst packet = Inr True"
    and len: "length packet \<le> 1500" and i: "i < length packet" "x \<noteq> packet ! i"
  shows "mysock_verify_checksum src dst (packet[i := x]) = Inr False"
proof -
  let ?s = "tcp_raw_sum src dst packet" and ?q = "packet[i := x]"
  let ?s' = "tcp_raw_sum src dst ?q"
  have pre: "20 \<le> length packet" "0 < src" "0 < dst"
    and sum: "NOT (of_nat (fold_sum ?s)) = pkt_sum packet"
    using ok by (auto simp: mysock_verify_checksum_def mysock_tcp_checksum_def rbind_eq_Inr_iff STCP_HEADER_LEN_def)
  have verify: "mysock_verify_checksum src dst ?q = Inr (NOT (of_nat (fold_sum ?s')) = pkt_sum ?q)"
    using pre by (simp add: mysock_verify_checksum_def mysock_tcp_checksum_def STCP_HEADER_LEN_def)
  have upd: "?s' + weight i * unat (packet ! i) = ?s + weight i * unat x"
    by (rule raw_sum_update) (use i pre in simp_all)
  show ?thesis
  proof (cases "weight i = 0")
    case True
    then have "i = 16 \<or> i = 17" by (auto simp: weight_def split: if_splits)
    then have "pkt_sum ?q \<noteq> pkt_sum packet"
      using pkt_sum_bytes [of ?q] pkt_sum_bytes [of packet] i pre by (metis nth_list_update_eq)
    with True upd sum verify show ?thesis by simp
  next
    case False
    then have "i \<noteq> 16" "i \<noteq> 17" by (auto simp: weight_def)
    then have "pkt_sum ?q = pkt_sum packet" by (simp add: pkt_sum_def)
    moreover have "?s' mod 65535 \<noteq> ?s mod 65535"
    proof
      assume "?s' mod 65535 = ?s mod 65535"
      then have "(?s + weight i * unat (packet ! i)) mod 65535 = (?s + weight i * unat x) mod 65535"
        unfolding upd [symmetric] by (metis mod_add_cong)
      with weighted_change [OF False i(2)] show False by metis
    qed
    then have "(NOT (of_nat (fold_sum ?s')) :: u16) \<noteq> NOT (of_nat (fold_sum ?s))"
      using checksum_eq_iff [of ?s' ?s] raw_sum_pos pre tcp_sum_no_overflow len by simp
    ultimately show ?thesis using sum verify by simp
  qed
qed

text \<open>An acknowledgement of position 2 that carries two bytes from position 2 on, before and
  after the checksum is set.\<close>

definition sample_unsummed :: bytes where
  "sample_unsummed = [0, 80, 0, 80, 0, 0, 0, 2, 0, 0, 0, 2, 80, 16, 12, 0, 0, 0, 0, 0, 104, 105]"

definition sample_packet :: bytes where
  "sample_packet = projr (mysock_set_checksum 1 2 sample_unsummed)"

lemma sample_packet: "mysock_set_checksum 1 2 sample_unsummed = Inr sample_packet"
  by (simp add: sample_packet_def mysock_set_checksum_def mysock_tcp_checksum_def STCP_HEADER_LEN_def
      sample_unsummed_def)

end
