(* ===== verification/Mysock.thy ===== *)
theory Mysock
  imports Stcp_Wire
begin

text \<open>
  The socket layer below and above STCP: the packet queues of \<^verbatim>\<open>hw3/mysock.c\<close>, the
  transport's interface \<^verbatim>\<open>hw3/stcp_api.c\<close> (waiting for events, receiving and sending
  packets, passing data to and from the application) and the unreliable sending of
  \<^verbatim>\<open>hw3/network.c\<close>. One record holds what the C code keeps per mysocket; the operating
  system's part (clock, interface address, \<open>rand_r\<close>, the socket the packets go to) are
  fields that the operations only read or append to.
\<close>

section \<open>Time\<close>

datatype timespec = Timespec (tv_sec: int) (tv_nsec: int)

instantiation timespec :: linorder
begin

definition less_eq_timespec :: "timespec \<Rightarrow> timespec \<Rightarrow> bool" where
  "a \<le> b \<longleftrightarrow> tv_sec a < tv_sec b \<or> tv_sec a = tv_sec b \<and> tv_nsec a \<le> tv_nsec b"

definition less_timespec :: "timespec \<Rightarrow> timespec \<Rightarrow> bool" where
  "a < b \<longleftrightarrow> tv_sec a < tv_sec b \<or> tv_sec a = tv_sec b \<and> tv_nsec a < tv_nsec b"

instance
  by standard (auto simp: less_eq_timespec_def less_timespec_def timespec.expand)

end

section \<open>State\<close>

definition MAX_IP_PAYLOAD_LEN :: nat where "MAX_IP_PAYLOAD_LEN = 1500"
definition AF_INET :: int where "AF_INET = 2"

record sockaddr =
  sa_family :: int
  sin_addr :: u32
  sin_port :: u16

text \<open>\<open>local_ip\<close> and \<open>local_port\<close> are what \<open>gethostbyname\<close> and \<open>getsockname\<close>
  answer, \<open>randoms\<close> the results of the successive calls of \<open>rand_r\<close>, \<open>wire_out\<close>
  the packets handed to \<open>_network_send_packet\<close>, oldest first.\<close>

record network_context =
  is_reliable :: bool
  local_addr :: sockaddr
  peer_addr :: sockaddr
  peer_addr_len :: nat
  peer_addr_valid :: bool
  copied :: bool
  copy_buffer :: bytes
  local_ip :: u32
  local_port :: u16
  randoms :: "nat \<Rightarrow> u32"
  rand_calls :: nat
  wire_out :: "bytes list"

text \<open>A packet queue is the list of the data of its nodes from \<open>head\<close> to \<open>tail\<close>.\<close>

type_synonym packet_queue = "bytes list"

record mysock_context =
  is_active :: bool
  network_state :: network_context
  bound :: bool
  listening :: bool
  my_sd :: int
  listen_sd :: int
  blocking :: bool
  stcp_errno :: int
  transport_thread_started :: bool
  close_requested :: bool
  eof :: bool
  network_recv_queue :: packet_queue
  app_send_queue :: packet_queue
  app_recv_queue :: packet_queue
  clock :: timespec
  thread_errno :: int

section \<open>Packet queues (\<^verbatim>\<open>mysock.c\<close>)\<close>

definition mysock_enqueue_buffer :: "packet_queue \<Rightarrow> bytes \<Rightarrow> packet_queue" where
  "mysock_enqueue_buffer pq packet = pq @ [packet]"

text \<open>The result: the number returned, the bytes copied to the destination, the queue.
  \<open>Would_Block\<close> is the wait on \<open>data_ready_cond\<close> for another thread to enqueue.\<close>

fun mysock_dequeue_buffer :: "packet_queue \<Rightarrow> nat \<Rightarrow> bool \<Rightarrow> (nat \<times> bytes \<times> packet_queue) result" where
  "mysock_dequeue_buffer [] max_len remove_partial = Inl Would_Block"
| "mysock_dequeue_buffer (node # rest) max_len remove_partial =
     (if max_len < length node \<and> remove_partial
      then Inr (max_len, take max_len node, drop max_len node # rest)
      else Inr (length node, take (min max_len (length node)) node, rest))"

definition mysock_free_queue :: "packet_queue \<Rightarrow> bool \<times> packet_queue" where
  "mysock_free_queue pq = (pq \<noteq> [], [])"

section \<open>Waiting for events (\<^verbatim>\<open>stcp_api.c\<close>)\<close>

definition TIMEOUT :: u32 where "TIMEOUT = 0"
definition APP_DATA :: u32 where "APP_DATA = 1"
definition NETWORK_DATA :: u32 where "NETWORK_DATA = 2"
definition APP_CLOSE_REQUESTED :: u32 where "APP_CLOSE_REQUESTED = 4"

lemmas event_defs = TIMEOUT_def APP_DATA_def NETWORK_DATA_def APP_CLOSE_REQUESTED_def

text \<open>One pass of the loop of \<open>stcp_wait_for_event\<close> before it waits. The close event does
  not depend on the flags, and it is passed on once only.\<close>

definition wait_poll :: "u32 \<Rightarrow> mysock_context \<Rightarrow> u32 \<times> mysock_context" where
  "wait_poll flags sd =
     (let rc_app = (if flags AND APP_DATA \<noteq> 0 \<and> app_recv_queue sd \<noteq> [] then APP_DATA else 0);
          rc_net = (if flags AND NETWORK_DATA \<noteq> 0 \<and> network_recv_queue sd \<noteq> [] then NETWORK_DATA else 0)
      in if close_requested sd \<and> app_recv_queue sd = []
         then (rc_app OR rc_net OR APP_CLOSE_REQUESTED, sd\<lparr>close_requested := False\<rparr>)
         else (rc_app OR rc_net, sd))"

text \<open>\<open>Would_Block\<close>: the thread keeps waiting on the condition variable, until another
  thread changes the state or, with a deadline, until the clock reaches it.\<close>

definition stcp_wait_for_event ::
  "mysock_context \<Rightarrow> u32 \<Rightarrow> timespec option \<Rightarrow> (u32 \<times> mysock_context) result" where
  "stcp_wait_for_event sd flags abstime =
     (case wait_poll flags sd of (rc, sd') \<Rightarrow>
        if rc \<noteq> 0 then Inr (rc, sd')
        else case abstime of
          None \<Rightarrow> Inl Would_Block
        | Some t \<Rightarrow> if t \<le> clock sd then Inr (TIMEOUT, sd') else Inl Would_Block)"

section \<open>Unreliable sending (\<^verbatim>\<open>network.c\<close>)\<close>

definition network_send_packet :: "network_context \<Rightarrow> bytes \<Rightarrow> network_context" where
  "network_send_packet net buf = net\<lparr>wire_out := wire_out net @ [buf]\<rparr>"

definition network_send :: "network_context \<Rightarrow> bytes \<Rightarrow> network_context result" where
  "network_send net buf =
     (if is_reliable net then Inr (network_send_packet net buf)
      else let choice = randoms net (rand_calls net) AND 0x1f;
               net' = net\<lparr>rand_calls := Suc (rand_calls net)\<rparr>
        in if choice = 0 then Inr net'
           else if choice = 1 then Inr (network_send_packet (network_send_packet net' buf) buf)
           else if choice = 2 then
             rbind (c_assert (length buf \<le> MAX_IP_PAYLOAD_LEN))
               (\<lambda>_. Inr (net'\<lparr>copy_buffer := buf, copied := True\<rparr>))
           else if choice = 3 then
             (if copied net' then Inr (network_send_packet net' (copy_buffer net'))
              else Inr (network_send_packet net' buf))
           else Inr (network_send_packet net' buf))"

section \<open>The transport's interface (\<^verbatim>\<open>stcp_api.c\<close>)\<close>

text \<open>\<open>stcp_network_recv sd max_len\<close>: the packet's bytes (as many as the returned length),
  whose checksum the code asserts. A packet longer than the destination is returned with
  its full length, and reading that many bytes of the destination leaves the buffer.\<close>

definition stcp_network_recv :: "mysock_context \<Rightarrow> nat \<Rightarrow> (bytes \<times> mysock_context) result" where
  "stcp_network_recv sd max_len =
     rbind (mysock_dequeue_buffer (network_recv_queue sd) max_len False) (\<lambda>(len, dst, pq).
     let sd' = sd\<lparr>network_recv_queue := pq\<rparr>; net = network_state sd
     in if length dst < len then Inl Out_Of_Bounds
        else rbind (if len \<le> 0 then Inr True
               else rbind (c_assert (sa_family (peer_addr net) = AF_INET))
                 (\<lambda>_. mysock_verify_checksum (sin_addr (peer_addr net)) (local_ip net) dst)) (\<lambda>valid.
          rbind (c_assert valid) (\<lambda>_.
          rbind (c_assert (sa_family (peer_addr net) = AF_INET)) (\<lambda>_.
          rbind (c_assert (0 < sin_port (peer_addr net))) (\<lambda>_. Inr (dst, sd'))))))"

text \<open>The packet built from the header and the following buffers.\<close>

definition stcp_packet :: "mysock_context \<Rightarrow> bytes \<Rightarrow> bytes \<Rightarrow> bytes result" where
  "stcp_packet sd hdr payload =
     rbind (c_assert (length hdr \<le> MAX_IP_PAYLOAD_LEN)) (\<lambda>_.
     rbind (c_assert (length hdr + length payload \<le> MAX_IP_PAYLOAD_LEN)) (\<lambda>_.
     let packet = hdr @ payload; net = network_state sd
     in rbind (c_assert (STCP_HEADER_LEN \<le> length packet)) (\<lambda>_.
        rbind (c_assert (sa_family (peer_addr net) = AF_INET)) (\<lambda>_.
        rbind (c_assert (0 < sin_port (peer_addr net))) (\<lambda>_.
          mysock_set_checksum (local_ip net) (sin_addr (peer_addr net))
            (put 18 [0, 0] (put 16 [0, 0]
               (put 2 (bytes16 (sin_port (peer_addr net))) (put 0 (bytes16 (local_port net)) packet)))))))))"

definition stcp_network_send :: "mysock_context \<Rightarrow> tcphdr \<Rightarrow> bytes \<Rightarrow> mysock_context result" where
  "stcp_network_send sd hdr payload =
     rbind (stcp_packet sd (hdr_bytes hdr) payload) (\<lambda>packet.
     rbind (network_send (network_state sd) packet) (\<lambda>net. Inr (sd\<lparr>network_state := net\<rparr>)))"

definition stcp_app_recv :: "mysock_context \<Rightarrow> nat \<Rightarrow> (bytes \<times> mysock_context) result" where
  "stcp_app_recv sd max_len =
     rbind (mysock_dequeue_buffer (app_recv_queue sd) max_len True)
       (\<lambda>(len, dst, pq). Inr (dst, sd\<lparr>app_recv_queue := pq\<rparr>))"

definition stcp_app_send :: "mysock_context \<Rightarrow> bytes \<Rightarrow> mysock_context" where
  "stcp_app_send sd src =
     (if 0 < length src
      then sd\<lparr>app_send_queue := mysock_enqueue_buffer (app_send_queue sd) src\<rparr> else sd)"

definition stcp_fin_received :: "mysock_context \<Rightarrow> mysock_context" where
  "stcp_fin_received sd = sd\<lparr>app_send_queue := mysock_enqueue_buffer (app_send_queue sd) []\<rparr>"

section \<open>What is sent\<close>

text \<open>The addresses a connected socket has; the transport never changes them.\<close>

definition sock_ok :: "mysock_context \<Rightarrow> bool" where
  "sock_ok sd \<longleftrightarrow>
     sa_family (peer_addr (network_state sd)) = AF_INET \<and> 0 < sin_port (peer_addr (network_state sd)) \<and>
     0 < sin_addr (peer_addr (network_state sd)) \<and> 0 < local_ip (network_state sd)"

text \<open>What \<open>stcp_network_send\<close> and \<open>stcp_network_recv\<close> leave alone.\<close>

definition same_addrs :: "network_context \<Rightarrow> network_context \<Rightarrow> bool" where
  "same_addrs net net' \<longleftrightarrow>
     net' = net\<lparr>rand_calls := rand_calls net', wire_out := wire_out net',
                copied := copied net', copy_buffer := copy_buffer net'\<rparr>"

lemma same_addrs_refl [simp]: "same_addrs net net"
  by (simp add: same_addrs_def)

lemma network_send_same: "network_send net buf = Inr net' \<Longrightarrow> same_addrs net net'"
  by (auto simp: network_send_def network_send_packet_def same_addrs_def Let_def rbind_eq_Inr_iff
      split: if_splits)

lemma network_send_total: "length buf \<le> MAX_IP_PAYLOAD_LEN \<Longrightarrow> \<exists>net'. network_send net buf = Inr net'"
  by (auto simp: network_send_def Let_def)

lemma stcp_network_send_frame:
  assumes "stcp_network_send sd hdr p = Inr sd'"
  obtains net' where "sd' = sd\<lparr>network_state := net'\<rparr>" "same_addrs (network_state sd) net'"
  using assms network_send_same by (auto simp: stcp_network_send_def rbind_eq_Inr_iff)

lemma stcp_packet_total:
  assumes "sock_ok sd" "length hdr = STCP_HEADER_LEN" "length p \<le> MAX_IP_PAYLOAD_LEN - STCP_HEADER_LEN"
  shows "\<exists>packet. stcp_packet sd hdr p = Inr packet \<and> length packet = length hdr + length p"
  using assms
  by (auto simp: stcp_packet_def Let_def sock_ok_def mysock_set_checksum_def mysock_tcp_checksum_def
      MAX_IP_PAYLOAD_LEN_def STCP_HEADER_LEN_def)

lemma stcp_network_send_total:
  assumes "sock_ok sd" "length p \<le> MAX_IP_PAYLOAD_LEN - STCP_HEADER_LEN"
  shows "\<exists>sd'. stcp_network_send sd hdr p = Inr sd'"
proof -
  obtain packet where "stcp_packet sd (hdr_bytes hdr) p = Inr packet"
    "length packet = length (hdr_bytes hdr) + length p"
    using stcp_packet_total [OF assms(1) length_hdr_bytes assms(2)] by blast
  moreover have "length packet \<le> MAX_IP_PAYLOAD_LEN"
    using calculation(2) assms(2) by (simp add: MAX_IP_PAYLOAD_LEN_def STCP_HEADER_LEN_def)
  ultimately show ?thesis
    using network_send_total [of packet "network_state sd"]
    by (auto simp: stcp_network_send_def)
qed

lemma drop_put [simp]: "i + length v \<le> n \<Longrightarrow> n \<le> length b \<Longrightarrow> drop n (put i v b) = drop n b"
  by (simp add: put_def)

text \<open>The layer below the transport fills in the ports, the checksum and the urgent
  pointer only: the receiver reads the transport's fields and payload.\<close>

lemma stcp_packet_fields:
  assumes "stcp_packet sd (hdr_bytes h) p = Inr packet"
  shows "pkt_seq packet = th_seq h" "pkt_ack packet = th_ack h" "pkt_off packet = th_off h"
    "pkt_flags packet = th_flags h" "drop STCP_HEADER_LEN packet = p"
    "length packet = STCP_HEADER_LEN + length p"
proof -
  let ?b = "hdr_bytes h @ p"
  obtain c where packet: "packet = put 16 (le_bytes16 c) (put 18 [0, 0] (put 16 [0, 0]
      (put 2 (bytes16 (sin_port (peer_addr (network_state sd))))
        (put 0 (bytes16 (local_port (network_state sd))) ?b))))"
    using assms by (auto simp: stcp_packet_def Let_def rbind_eq_Inr_iff mysock_set_checksum_def)
  have len: "length ?b = 20 + length p" by (simp add: STCP_HEADER_LEN_def)
  have same: "packet ! k = ?b ! k" if "4 \<le> k" "k < 16" for k
    unfolding packet using that len by (simp add: nth_put)
  have idx: "get32 packet i = get32 ?b i" if "4 \<le> i" "i + 3 < 16" for i
    using that same [of i] same [of "i + 1"] same [of "i + 2"] same [of "i + 3"]
    unfolding get32_def by (simp add: add.assoc)
  show "pkt_seq packet = th_seq h" "pkt_ack packet = th_ack h"
    using idx [of 4] idx [of 8] hdr_fields(1,2) [of h p] by (simp_all add: pkt_seq_def pkt_ack_def)
  show "pkt_off packet = th_off h" "pkt_flags packet = th_flags h"
    using same [of 12] same [of 13] hdr_fields(3,4) [of h p]
    by (simp_all add: pkt_off_def pkt_flags_def)
  show "drop STCP_HEADER_LEN packet = p" "length packet = STCP_HEADER_LEN + length p"
    unfolding packet using len by (simp_all add: STCP_HEADER_LEN_def)
qed

text \<open>A sent packet passes the receiver's checksum test (the receiver's peer is the sender).\<close>

lemma stcp_packet_verifies:
  assumes "stcp_packet sd hdr p = Inr packet"
  shows "mysock_verify_checksum (local_ip (network_state sd)) (sin_addr (peer_addr (network_state sd)))
    packet = Inr True"
  using assms set_then_verify by (auto simp: stcp_packet_def Let_def rbind_eq_Inr_iff)

section \<open>Byte queues\<close>

text \<open>A schedule of writes (\<open>Inl p\<close>) and reads (\<open>Inr n\<close>) on a queue with the operations
  \<open>add\<close> and \<open>take_some\<close>; a read that would block leaves the queue as it is. The result: all
  bytes read, and the queue.\<close>

fun queue_run :: "('q \<Rightarrow> bytes \<Rightarrow> 'q) \<Rightarrow> ('q \<Rightarrow> nat \<Rightarrow> (bytes \<times> 'q) result) \<Rightarrow>
    'q \<Rightarrow> (bytes + nat) list \<Rightarrow> bytes \<times> 'q" where
  "queue_run add take_some q [] = ([], q)"
| "queue_run add take_some q (Inl p # ops) = queue_run add take_some (add q p) ops"
| "queue_run add take_some q (Inr n # ops) =
     (case take_some q n of
        Inl _ \<Rightarrow> queue_run add take_some q ops
      | Inr (bs, q') \<Rightarrow>
          (case queue_run add take_some q' ops of (rest, q'') \<Rightarrow> (bs @ rest, q'')))"

definition queue_written :: "(bytes + nat) list \<Rightarrow> bytes" where
  "queue_written ops = concat (map (\<lambda>opn. case opn of Inl p \<Rightarrow> p | Inr n \<Rightarrow> []) ops)"

locale byte_queue =
  fixes content :: "'q \<Rightarrow> bytes"
    and add :: "'q \<Rightarrow> bytes \<Rightarrow> 'q"
    and take_some :: "'q \<Rightarrow> nat \<Rightarrow> (bytes \<times> 'q) result"
  assumes content_add: "content (add q p) = content q @ p"
    and take_some_content: "take_some q n = Inr (bs, q') \<Longrightarrow> content q = bs @ content q'"
    and take_some_length: "take_some q n = Inr (bs, q') \<Longrightarrow> length bs \<le> n"
begin

lemma run_conserves:
  "queue_run add take_some q ops = (out, q') \<Longrightarrow> content q @ queue_written ops = out @ content q'"
proof (induction ops arbitrary: q out q')
  case Nil
  then show ?case by (simp add: queue_written_def)
next
  case (Cons opn ops)
  show ?case
  proof (cases opn)
    case (Inl p)
    with Cons.prems have "queue_run add take_some (add q p) ops = (out, q')" by simp
    from Cons.IH [OF this] show ?thesis by (simp add: Inl queue_written_def content_add)
  next
    case n: (Inr n)
    show ?thesis
    proof (cases "take_some q n")
      case (Inl e)
      with Cons n show ?thesis by (simp add: queue_written_def)
    next
      case (Inr r)
      obtain bs q1 where r: "r = (bs, q1)" by (cases r)
      obtain rest q2 where "queue_run add take_some q1 ops = (rest, q2)"
        by (cases "queue_run add take_some q1 ops")
      with Cons n Inr r take_some_content [of q n bs q1] show ?thesis
        by (auto simp: queue_written_def)
    qed
  qed
qed

end

definition dequeue_partial :: "packet_queue \<Rightarrow> nat \<Rightarrow> (bytes \<times> packet_queue) result" where
  "dequeue_partial pq max_len =
     rbind (mysock_dequeue_buffer pq max_len True) (\<lambda>(len, dst, pq'). Inr (dst, pq'))"

lemma dequeue_partial_cases:
  "dequeue_partial pq n = Inr (bs, pq') \<longleftrightarrow>
     (\<exists>node rest. pq = node # rest \<and>
       (if n < length node then bs = take n node \<and> pq' = drop n node # rest
        else bs = node \<and> pq' = rest))"
  by (cases pq) (auto simp: dequeue_partial_def)

interpretation appq: byte_queue concat mysock_enqueue_buffer dequeue_partial
  by unfold_locales (auto simp: mysock_enqueue_buffer_def dequeue_partial_cases split: if_splits)

section \<open>Properties\<close>

text \<open>The queues between the application and the transport conserve bytes: for any schedule of
  writes of any size and partial reads of any size, the bytes read followed by the bytes still
  queued are the bytes queued before followed by the bytes written.\<close>

lemma queue_conserves_bytes:
  assumes "queue_run mysock_enqueue_buffer dequeue_partial q ops = (out, q')"
  shows "concat q @ queue_written ops = out @ concat q'"
  by (rule appq.run_conserves [OF assms])

fun send_all :: "network_context \<Rightarrow> bytes list \<Rightarrow> network_context result" where
  "send_all net [] = Inr net"
| "send_all net (p # ps) = rbind (network_send net p) (\<lambda>net'. send_all net' ps)"

text \<open>The unreliable network drops, duplicates, delays and reorders, but it does not make up
  packets: whatever the random numbers are, everything put on the wire was handed over to be
  sent, now or earlier, no send puts more than two packets on the wire, and a reliable network
  sends each packet once, in order.\<close>

lemma network_never_fabricates:
  assumes "send_all net ps = Inr net'" "\<not> copied net"
  shows "set (wire_out net') \<subseteq> set (wire_out net) \<union> set ps \<and>
    length (wire_out net') \<le> length (wire_out net) + 2 * length ps \<and>
    (is_reliable net \<longrightarrow> wire_out net' = wire_out net @ ps)"
proof -
  have "set (wire_out net') \<subseteq> set (wire_out net) \<union> set ps \<union> (if copied net then {copy_buffer net} else {}) \<and>
    length (wire_out net') \<le> length (wire_out net) + 2 * length ps \<and>
    (is_reliable net \<longrightarrow> wire_out net' = wire_out net @ ps)"
    using assms(1)
  proof (induction net ps rule: send_all.induct)
    case (2 net p ps)
    then obtain net1 where n: "network_send net p = Inr net1" "send_all net1 ps = Inr net'"
      by (auto simp: rbind_eq_Inr_iff)
    have one: "set (wire_out net1) \<subseteq> set (wire_out net) \<union> {p} \<union> (if copied net then {copy_buffer net} else {})"
      "length (wire_out net1) \<le> length (wire_out net) + 2"
      "copied net1 \<longrightarrow> copy_buffer net1 = p \<or> copied net \<and> copy_buffer net1 = copy_buffer net"
      "is_reliable net1 = is_reliable net" "is_reliable net \<longrightarrow> wire_out net1 = wire_out net @ [p]"
      using n(1) by (auto simp: network_send_def network_send_packet_def Let_def rbind_eq_Inr_iff split: if_splits)
    note ih = "2.IH" [OF n(2)]
    have "set (wire_out net') \<subseteq> set (wire_out net) \<union> set (p # ps) \<union> (if copied net then {copy_buffer net} else {})"
      using ih one(1,3) by (fastforce split: if_splits)
    then show ?case using ih one(2,4,5) by simp
  qed simp
  with assms(2) show ?thesis by simp
qed


text \<open>A segment handed to \<open>stcp_network_send\<close> reaches the peer's \<open>stcp_network_recv\<close>
  unchanged: the packet built for it passes the checksum test of the socket at the other end,
  fits its buffer, and carries the sender's sequence number, acknowledgement, flags and payload
  behind a header of the announced length.\<close>

lemma segment_transfer:
  assumes "stcp_packet sd (hdr_bytes (build_header sq ack fl)) p = Inr packet" "length p \<le> 536"
    and "sock_ok sdr" "network_recv_queue sdr = packet # rest"
    and "sin_addr (peer_addr (network_state sdr)) = local_ip (network_state sd)"
    and "local_ip (network_state sdr) = sin_addr (peer_addr (network_state sd))"
  shows "stcp_network_recv sdr 556 = Inr (packet, sdr\<lparr>network_recv_queue := rest\<rparr>) \<and>
    pkt_seq packet = sq \<and> pkt_ack packet = ack \<and> pkt_flags packet = fl \<and>
    drop (unat (pkt_off packet) * 4) packet = p"
proof -
  note f = stcp_packet_fields [OF assms(1)]
  have "mysock_verify_checksum (sin_addr (peer_addr (network_state sdr))) (local_ip (network_state sdr)) packet = Inr True"
    using stcp_packet_verifies [OF assms(1)] assms(5,6) by simp
  moreover have "length packet = 20 + length p" using f(6) by (simp add: STCP_HEADER_LEN_def)
  ultimately have "stcp_network_recv sdr 556 = Inr (packet, sdr\<lparr>network_recv_queue := rest\<rparr>)"
    using assms(2,3,4) by (simp add: stcp_network_recv_def Let_def sock_ok_def)
  moreover have "pkt_off packet = 5" using f(3) by (simp add: build_header_def STCP_HEADER_LEN_def)
  ultimately show ?thesis using f(1,2,4,5) by (simp add: build_header_def STCP_HEADER_LEN_def)
qed


end
