(* ===== verification/Stcp_Segments.thy ===== *)
theory Stcp_Segments
  imports Prelude
begin

text \<open>
  The segment lists of the STCP transport layer (\<^verbatim>\<open>hw3/transport.c\<close>): the node type,
  the linked-list primitives, the robust (interval-merging) and the simple insertion into
  the receive buffer, and the enqueueing and dequeueing of the send buffer. A linked list
  is the HOL list of its nodes from \<open>head\<close> on, and a pointer to a node of the list is
  the suffix that starts at this node (\<open>[]\<close> for \<^verbatim>\<open>NULL\<close>). The last part gives the
  abstract view of a buffer, a partial map from sequence positions to cells, and shows
  that robust insertion adds exactly the positions that were missing.
\<close>

section \<open>Nodes\<close>

definition STCP_MSS :: nat where
  "STCP_MSS = 536"

text \<open>\<open>seg_data\<close> holds the first \<open>payload_len\<close> bytes of the node's array
  \<open>data[STCP_MSS]\<close>; the field \<open>payload_len\<close> is the length of the list.\<close>

record segment =
  seg_seq :: u32
  seg_data :: bytes
  seg_fin :: bool

definition payload_len :: "segment \<Rightarrow> nat" where
  "payload_len g = length (seg_data g)"

definition node_end :: "segment \<Rightarrow> u32" where
  "node_end g = seg_seq g + of_nat (payload_len g) + of_bool (seg_fin g)"

text \<open>The \<open>malloc\<close> and the field assignments that every insertion starts with. The
  \<open>memcpy\<close> of \<open>len\<close> bytes must stay inside the array of the node and inside the
  memory readable at \<open>data\<close>.\<close>

definition new_segment :: "u32 \<Rightarrow> bytes \<Rightarrow> u64 \<Rightarrow> bool \<Rightarrow> segment result" where
  "new_segment sq data len fin =
     (if STCP_MSS < unat len then Inl Out_Of_Bounds
      else rbind (memcpy_from data (unat len))
        (\<lambda>bs. Inr \<lparr>seg_seq = sq, seg_data = bs, seg_fin = fin\<rparr>))"

section \<open>List primitives\<close>

definition segment_list_init :: "segment list" where
  "segment_list_init = []"

text \<open>\<open>segment_list_clear\<close> frees node after node until the list is empty.\<close>

fun segment_list_clear :: "segment list \<Rightarrow> segment list" where
  "segment_list_clear [] = []"
| "segment_list_clear (cur # next_nodes) = segment_list_clear next_nodes"

text \<open>Linking a node before \<open>target\<close>: at the head, or behind the node whose
  \<open>next\<close> is the target.\<close>

fun link_before :: "segment list \<Rightarrow> segment list \<Rightarrow> segment \<Rightarrow> segment list" where
  "link_before [] target node = (if target = [] then [node] else [])"
| "link_before (p # rest) target node =
     (if p # rest = target then node # target else p # link_before rest target node)"

definition insert_before_node ::
  "segment list \<Rightarrow> segment list \<Rightarrow> u32 \<Rightarrow> bytes \<Rightarrow> u64 \<Rightarrow> bool \<Rightarrow> segment list result" where
  "insert_before_node buf target sq data len fin =
     rbind (new_segment sq data len fin) (\<lambda>node. Inr (link_before buf target node))"

fun link_tail :: "segment list \<Rightarrow> segment \<Rightarrow> segment list" where
  "link_tail [] node = [node]"
| "link_tail (cur # rest) node = cur # link_tail rest node"

definition insert_tail ::
  "segment list \<Rightarrow> u32 \<Rightarrow> bytes \<Rightarrow> u64 \<Rightarrow> bool \<Rightarrow> segment list result" where
  "insert_tail buf sq data len fin =
     rbind (new_segment sq data len fin) (\<lambda>node. Inr (link_tail buf node))"

definition enqueue_send_buffer ::
  "segment list \<Rightarrow> u32 \<Rightarrow> bytes \<Rightarrow> u64 \<Rightarrow> bool \<Rightarrow> segment list result" where
  "enqueue_send_buffer buf sq data len fin =
     rbind (new_segment sq data len fin)
       (\<lambda>node. if buf = [] then Inr [node] else Inr (link_tail buf node))"

text \<open>In \<open>dequeue_send_buffer\<close> the sum is computed in \<open>size_t\<close>, so it does not wrap
  at 32 bits.\<close>

fun dequeue_send_buffer :: "segment list \<Rightarrow> u32 \<Rightarrow> segment list" where
  "dequeue_send_buffer [] ack = []"
| "dequeue_send_buffer (node # rest) ack =
     (if (ucast (seg_seq node) :: u64) + of_nat (payload_len node) + of_bool (seg_fin node) \<le> ucast ack
      then dequeue_send_buffer rest ack else node # rest)"

section \<open>Insertion into the receive buffer\<close>

text \<open>The loop of \<open>insert_segment_to_receive_buffer_robust\<close>: \<open>buf\<close> is the list,
  \<open>cur\<close> the current node, \<open>pos\<close> the first position not yet handled. It gives the
  list and the position with which the loop is left.\<close>

fun robust_loop ::
  "u32 \<Rightarrow> u32 \<Rightarrow> bytes \<Rightarrow> bool \<Rightarrow> segment list \<Rightarrow> segment list \<Rightarrow> u32 \<Rightarrow> (segment list \<times> u32) result"
where
  "robust_loop seg_start seg_end data is_fin buf [] pos = Inr (buf, pos)"
| "robust_loop seg_start seg_end data is_fin buf (cur # rest) pos =
     (if pos < seg_end then
        (let skip = (\<lambda>q. if q < node_end cur
                     then (if node_end cur < seg_end then node_end cur else seg_end) else q)
         in if pos < seg_seq cur then
              (let insert_end = (if seg_seq cur < seg_end then seg_seq cur else seg_end);
                   seq_gap = (ucast (insert_end - pos) :: u64);
                   fin_here = (insert_end = seg_end \<and> is_fin)
               in rbind (insert_before_node buf (cur # rest) pos
                          (drop (unat (pos - seg_start)) data) (seq_gap - of_bool fin_here) fin_here)
                    (\<lambda>buf'. if seg_end \<le> insert_end then Inr (buf', insert_end)
                       else robust_loop seg_start seg_end data is_fin buf' rest (skip insert_end)))
            else robust_loop seg_start seg_end data is_fin buf rest (skip pos))
      else Inr (buf, pos))"

definition robust_rest ::
  "u32 \<Rightarrow> u32 \<Rightarrow> bytes \<Rightarrow> bool \<Rightarrow> segment list \<times> u32 \<Rightarrow> segment list result" where
  "robust_rest seg_start seg_end data is_fin bp =
     (case bp of (buf, pos) \<Rightarrow>
        if pos < seg_end
        then insert_tail buf pos (drop (unat (pos - seg_start)) data)
               ((ucast (seg_end - pos) :: u64) - of_bool is_fin) is_fin
        else Inr buf)"

definition insert_segment_to_receive_buffer_robust ::
  "segment list \<Rightarrow> u32 \<Rightarrow> bytes \<Rightarrow> u64 \<Rightarrow> bool \<Rightarrow> segment list result" where
  "insert_segment_to_receive_buffer_robust buf sq data len is_fin =
     rbind (c_assert (0 < len \<or> is_fin)) (\<lambda>_.
       let seg_start = sq;
           seg_end = seg_start + ucast len + of_bool is_fin
       in rbind (robust_loop seg_start seg_end data is_fin buf buf seg_start)
            (robust_rest seg_start seg_end data is_fin))"

text \<open>The simple insertion (kept in the file beside the robust one): the walk stops at
  the first node whose sequence number is not smaller, and an equal one is a duplicate.\<close>

definition insert_segment_to_receive_buffer ::
  "segment list \<Rightarrow> u32 \<Rightarrow> bytes \<Rightarrow> u64 \<Rightarrow> bool \<Rightarrow> segment list result" where
  "insert_segment_to_receive_buffer buf sq data len is_fin =
     rbind (c_assert (0 < len \<or> is_fin)) (\<lambda>_.
       let prevs = takeWhile (\<lambda>g. seg_seq g < sq) buf;
           cur = dropWhile (\<lambda>g. seg_seq g < sq) buf
       in if cur \<noteq> [] \<and> seg_seq (hd cur) = sq then Inr buf
          else rbind (new_segment sq data len is_fin) (\<lambda>node. Inr (prevs @ node # cur)))"

section \<open>The abstract view of a buffer\<close>

text \<open>A position of the sequence space holds a payload byte or the FIN. A segment is the
  map of its positions, a buffer the union of its segments.\<close>

datatype cell = Byte u8 | Fin

definition seg_lo :: "segment \<Rightarrow> nat" where
  "seg_lo g = unat (seg_seq g)"

definition seg_hi :: "segment \<Rightarrow> nat" where
  "seg_hi g = seg_lo g + payload_len g + of_bool (seg_fin g)"

definition seg_map :: "segment \<Rightarrow> nat \<Rightarrow> cell option" where
  "seg_map g p =
     (if seg_lo g \<le> p \<and> p < seg_lo g + payload_len g
      then Some (Byte (seg_data g ! (p - seg_lo g)))
      else if seg_fin g \<and> p = seg_lo g + payload_len g then Some Fin
      else None)"

fun buf_map :: "segment list \<Rightarrow> nat \<Rightarrow> cell option" where
  "buf_map [] = Map.empty"
| "buf_map (g # gs) = seg_map g ++ buf_map gs"

text \<open>Well-formed: segments are not empty, do not wrap around and fit their array; the list
  is sorted and its segments do not overlap.\<close>

definition seg_ok :: "segment \<Rightarrow> bool" where
  "seg_ok g \<longleftrightarrow> seg_lo g < seg_hi g \<and> seg_hi g < 2 ^ 32 \<and> payload_len g \<le> STCP_MSS"

definition buf_ok :: "segment list \<Rightarrow> bool" where
  "buf_ok buf \<longleftrightarrow> (\<forall>g \<in> set buf. seg_ok g) \<and> sorted_wrt (\<lambda>a b. seg_hi a \<le> seg_lo b) buf"

lemma dom_seg_map [simp]: "dom (seg_map g) = {seg_lo g ..< seg_hi g}"
  by (auto simp: seg_map_def seg_hi_def dom_def split: if_splits)

lemma buf_map_append [simp]: "buf_map (xs @ ys) = buf_map xs ++ buf_map ys"
  by (induction xs) (simp_all add: map_add_assoc)

lemma dom_buf_map: "dom (buf_map gs) = (\<Union>g \<in> set gs. {seg_lo g ..< seg_hi g})"
  by (induction gs) auto

lemma buf_ok_Nil [simp]: "buf_ok []"
  by (simp add: buf_ok_def)

lemma buf_ok_Cons [simp]:
  "buf_ok (g # gs) \<longleftrightarrow> seg_ok g \<and> (\<forall>h \<in> set gs. seg_hi g \<le> seg_lo h) \<and> buf_ok gs"
  by (auto simp: buf_ok_def)

lemma buf_ok_append:
  "buf_ok (xs @ ys) \<longleftrightarrow>
     buf_ok xs \<and> buf_ok ys \<and> (\<forall>g \<in> set xs. \<forall>h \<in> set ys. seg_hi g \<le> seg_lo h)"
  by (auto simp: buf_ok_def sorted_wrt_append)

lemma unat_node_end: "seg_ok g \<Longrightarrow> unat (node_end g) = seg_hi g"
  by (cases "seg_fin g")
    (simp_all add: node_end_def seg_ok_def seg_hi_def seg_lo_def unat_word_ariths unat_of_nat
      take_bit_eq_mod)

lemma link_tail_eq [simp]: "link_tail buf node = buf @ [node]"
  by (induction buf) simp_all

lemma link_before_suffix: "link_before (pre @ target) target node = pre @ node # target"
proof (induction pre)
  case Nil
  show ?case by (cases target) simp_all
next
  case (Cons p pre)
  have "length (p # pre @ target) \<noteq> length target" by simp
  then have "p # pre @ target \<noteq> target" by metis
  with Cons.IH show ?case by simp
qed

lemma new_segment_ok:
  "unat len \<le> STCP_MSS \<Longrightarrow> unat len \<le> length data \<Longrightarrow>
     new_segment sq data len fin =
       Inr \<lparr>seg_seq = sq, seg_data = take (unat len) data, seg_fin = fin\<rparr>"
  by (simp add: new_segment_def memcpy_from_def)

end
