(* ===== verification/Stcp_Context.thy ===== *)
theory Stcp_Context
  imports Mysock Stcp_Segments
begin

text \<open>
  The per-connection context of \<^verbatim>\<open>hw3/transport.c\<close> with its connection state machine,
  the retransmission-timeout estimator (\<open>update_rto\<close>) and the timer
  (\<open>log_time_and_calculate_timeout\<close>). The C \<open>double\<close>s are real numbers here: the
  rounding of floating-point operations is not modelled. The clock is read from the
  mysocket's \<open>clock\<close>, which stands still while a handler runs.
\<close>

section \<open>Types\<close>

datatype stcp_event = EVENT_SEND_FIN | EVENT_RECV_FIN | EVENT_RECV_ACK

datatype stcp_state =
    CSTATE_ESTABLISHED
  | CSTATE_FIN_WAIT_1
  | CSTATE_FIN_WAIT_2
  | CSTATE_CLOSING
  | CSTATE_CLOSE_WAIT
  | CSTATE_LAST_ACK
  | CSTATE_CLOSED

record context_t =
  ctx_done :: bool
  connection_state :: stcp_state
  is_APP_CLOSE_QUEUED :: bool
  is_FIN_SENT :: bool
  is_FIN_RECEIVED :: bool
  initial_sequence_num :: u32
  peer_initial_seq :: u32
  next_seq_num :: u32
  send_base :: u32
  send_buffer :: "segment list"
  receive_next :: u32
  receive_buffer :: "segment list"
  last_sent_time :: timespec
  retransmission_count :: int
  est_rtt :: real
  dev_rtt :: real
  rto :: real
  timeout :: timespec

section \<open>The connection state machine\<close>

fun transition_state :: "stcp_state \<Rightarrow> stcp_event \<Rightarrow> stcp_state" where
  "transition_state CSTATE_ESTABLISHED EVENT_SEND_FIN = CSTATE_FIN_WAIT_1"
| "transition_state CSTATE_ESTABLISHED EVENT_RECV_FIN = CSTATE_CLOSE_WAIT"
| "transition_state CSTATE_FIN_WAIT_1 EVENT_RECV_ACK = CSTATE_FIN_WAIT_2"
| "transition_state CSTATE_FIN_WAIT_1 EVENT_RECV_FIN = CSTATE_CLOSING"
| "transition_state CSTATE_FIN_WAIT_2 EVENT_RECV_FIN = CSTATE_CLOSED"
| "transition_state CSTATE_CLOSING EVENT_RECV_ACK = CSTATE_CLOSED"
| "transition_state CSTATE_CLOSE_WAIT EVENT_SEND_FIN = CSTATE_LAST_ACK"
| "transition_state CSTATE_LAST_ACK EVENT_RECV_ACK = CSTATE_CLOSED"
| "transition_state state event = state"

section \<open>Retransmission timeout\<close>

definition MIN_RTO :: real where "MIN_RTO = 1 / 10"
definition MAX_RTO :: real where "MAX_RTO = 30"
definition MAX_RETRANSMISSION_COUNT :: int where "MAX_RETRANSMISSION_COUNT = 5"

definition sample_rtt :: "timespec \<Rightarrow> timespec \<Rightarrow> real" where
  "sample_rtt now sent =
     of_int (tv_sec now - tv_sec sent) + of_int (tv_nsec now - tv_nsec sent) / 10 ^ 9"

definition update_rto :: "timespec \<Rightarrow> context_t \<Rightarrow> bool \<Rightarrow> context_t" where
  "update_rto now ctx is_timeout =
     (if is_timeout then ctx\<lparr>rto := rto ctx * 2\<rparr>
      else let sample = sample_rtt now (last_sent_time ctx);
               ctx1 = (if est_rtt ctx < 0
                 then ctx\<lparr>est_rtt := sample, dev_rtt := sample / 2\<rparr>
                 else ctx\<lparr>dev_rtt := (1 - 1 / 4) * dev_rtt ctx + 1 / 4 * \<bar>sample - est_rtt ctx\<bar>,
                          est_rtt := (1 - 1 / 8) * est_rtt ctx + 1 / 8 * sample\<rparr>);
               ctx2 = ctx1\<lparr>rto := est_rtt ctx1 + 4 * dev_rtt ctx1\<rparr>;
               ctx3 = (if rto ctx2 < MIN_RTO then ctx2\<lparr>rto := MIN_RTO\<rparr> else ctx2)
           in if MAX_RTO < rto ctx3 then ctx3\<lparr>rto := MAX_RTO\<rparr> else ctx3)"

text \<open>Conversion of a \<open>double\<close> to an integer type truncates towards zero.\<close>

definition c_trunc :: "real \<Rightarrow> int" where
  "c_trunc x = (if 0 \<le> x then \<lfloor>x\<rfloor> else \<lceil>x\<rceil>)"

definition log_time_and_calculate_timeout :: "timespec \<Rightarrow> context_t \<Rightarrow> context_t" where
  "log_time_and_calculate_timeout now ctx =
     (let sec = tv_sec now + c_trunc (rto ctx);
          nsec = c_trunc (of_int (tv_nsec now) + (rto ctx - of_int (c_trunc (rto ctx))) * 10 ^ 9);
          deadline = (if 10 ^ 9 \<le> nsec then Timespec (sec + 1) (nsec - 10 ^ 9) else Timespec sec nsec)
      in ctx\<lparr>last_sent_time := now, timeout := deadline\<rparr>)"

section \<open>Creating the context\<close>

definition generate_initial_seq_num :: "context_t \<Rightarrow> context_t" where
  "generate_initial_seq_num ctx = ctx\<lparr>initial_sequence_num := 1\<rparr>"

text \<open>\<open>calloc\<close> gives a context of zeros, then \<open>transport_init\<close> sets the rest.\<close>

definition zero_context :: context_t where
  "zero_context =
     \<lparr>ctx_done = False, connection_state = CSTATE_ESTABLISHED, is_APP_CLOSE_QUEUED = False,
      is_FIN_SENT = False, is_FIN_RECEIVED = False, initial_sequence_num = 0, peer_initial_seq = 0,
      next_seq_num = 0, send_base = 0, send_buffer = [], receive_next = 0, receive_buffer = [],
      last_sent_time = Timespec 0 0, retransmission_count = 0, est_rtt = 0, dev_rtt = 0, rto = 0,
      timeout = Timespec 0 0\<rparr>"

definition init_context :: context_t where
  "init_context =
     (let ctx = generate_initial_seq_num zero_context;
          ctx = ctx\<lparr>send_buffer := segment_list_init, receive_buffer := segment_list_init\<rparr>
      in ctx\<lparr>next_seq_num := initial_sequence_num ctx, send_base := initial_sequence_num ctx,
             rto := 1, est_rtt := -1, dev_rtt := 0, ctx_done := False\<rparr>)"

section \<open>Lemmas\<close>

text \<open>\<open>CSTATE_CLOSED\<close> is final.\<close>

lemma transition_closed [simp]: "transition_state CSTATE_CLOSED ev = CSTATE_CLOSED"
  by (cases ev) simp_all

lemma transition_to_closed:
  "transition_state s ev = CSTATE_CLOSED \<longleftrightarrow>
     s = CSTATE_CLOSED \<or> s = CSTATE_FIN_WAIT_2 \<and> ev = EVENT_RECV_FIN \<or>
     s = CSTATE_CLOSING \<and> ev = EVENT_RECV_ACK \<or> s = CSTATE_LAST_ACK \<and> ev = EVENT_RECV_ACK"
  by (cases s; cases ev) simp_all

text \<open>The estimator and the timer touch their own fields only.\<close>

lemma update_rto_frame:
  "update_rto now ctx b =
     ctx\<lparr>rto := rto (update_rto now ctx b), est_rtt := est_rtt (update_rto now ctx b),
        dev_rtt := dev_rtt (update_rto now ctx b)\<rparr>"
  by (simp add: update_rto_def Let_def)

lemma update_rto_simps [simp]:
  "connection_state (update_rto now ctx b) = connection_state ctx"
  "is_APP_CLOSE_QUEUED (update_rto now ctx b) = is_APP_CLOSE_QUEUED ctx"
  "is_FIN_SENT (update_rto now ctx b) = is_FIN_SENT ctx"
  "is_FIN_RECEIVED (update_rto now ctx b) = is_FIN_RECEIVED ctx"
  "initial_sequence_num (update_rto now ctx b) = initial_sequence_num ctx"
  "peer_initial_seq (update_rto now ctx b) = peer_initial_seq ctx"
  "next_seq_num (update_rto now ctx b) = next_seq_num ctx"
  "send_base (update_rto now ctx b) = send_base ctx"
  "send_buffer (update_rto now ctx b) = send_buffer ctx"
  "receive_next (update_rto now ctx b) = receive_next ctx"
  "receive_buffer (update_rto now ctx b) = receive_buffer ctx"
  "retransmission_count (update_rto now ctx b) = retransmission_count ctx"
  "last_sent_time (update_rto now ctx b) = last_sent_time ctx"
  "timeout (update_rto now ctx b) = timeout ctx"
  "ctx_done (update_rto now ctx b) = ctx_done ctx"
  by (simp_all add: update_rto_def Let_def)

lemma log_time_simps [simp]:
  "connection_state (log_time_and_calculate_timeout now ctx) = connection_state ctx"
  "is_APP_CLOSE_QUEUED (log_time_and_calculate_timeout now ctx) = is_APP_CLOSE_QUEUED ctx"
  "is_FIN_SENT (log_time_and_calculate_timeout now ctx) = is_FIN_SENT ctx"
  "is_FIN_RECEIVED (log_time_and_calculate_timeout now ctx) = is_FIN_RECEIVED ctx"
  "initial_sequence_num (log_time_and_calculate_timeout now ctx) = initial_sequence_num ctx"
  "peer_initial_seq (log_time_and_calculate_timeout now ctx) = peer_initial_seq ctx"
  "next_seq_num (log_time_and_calculate_timeout now ctx) = next_seq_num ctx"
  "send_base (log_time_and_calculate_timeout now ctx) = send_base ctx"
  "send_buffer (log_time_and_calculate_timeout now ctx) = send_buffer ctx"
  "receive_next (log_time_and_calculate_timeout now ctx) = receive_next ctx"
  "receive_buffer (log_time_and_calculate_timeout now ctx) = receive_buffer ctx"
  "retransmission_count (log_time_and_calculate_timeout now ctx) = retransmission_count ctx"
  "rto (log_time_and_calculate_timeout now ctx) = rto ctx"
  "est_rtt (log_time_and_calculate_timeout now ctx) = est_rtt ctx"
  "dev_rtt (log_time_and_calculate_timeout now ctx) = dev_rtt ctx"
  "last_sent_time (log_time_and_calculate_timeout now ctx) = now"
  "ctx_done (log_time_and_calculate_timeout now ctx) = ctx_done ctx"
  by (simp_all add: log_time_and_calculate_timeout_def Let_def)

lemma update_rto_range: "MIN_RTO \<le> rto (update_rto now ctx False) \<and> rto (update_rto now ctx False) \<le> MAX_RTO"
  by (simp add: update_rto_def Let_def MIN_RTO_def MAX_RTO_def)

lemma c_trunc_nonneg: "0 \<le> x \<Longrightarrow> c_trunc x = \<lfloor>x\<rfloor>"
  by (simp add: c_trunc_def)

definition nanoseconds :: "timespec \<Rightarrow> int" where
  "nanoseconds t = tv_sec t * 10 ^ 9 + tv_nsec t"

lemma deadline_carry:
  assumes "0 \<le> n" "n < 10 ^ 9" "0 \<le> f" "f < (10 ^ 9 :: int)"
  shows "0 \<le> tv_nsec (if 10 ^ 9 \<le> n + f then Timespec (s + 1) (n + f - 10 ^ 9) else Timespec s (n + f))"
    "tv_nsec (if 10 ^ 9 \<le> n + f then Timespec (s + 1) (n + f - 10 ^ 9) else Timespec s (n + f)) < 10 ^ 9"
  using assms by auto

lemma deadline_nanoseconds:
  assumes "0 \<le> rto ctx" "0 \<le> tv_nsec now" "tv_nsec now < 10 ^ 9"
  defines "t \<equiv> timeout (log_time_and_calculate_timeout now ctx)"
  shows "nanoseconds t = nanoseconds now + \<lfloor>rto ctx * 10 ^ 9\<rfloor>" "0 \<le> tv_nsec t" "tv_nsec t < 10 ^ 9"
proof -
  let ?r = "rto ctx" and ?s = "\<lfloor>rto ctx\<rfloor>"
  let ?f = "\<lfloor>(?r - of_int ?s) * 10 ^ 9\<rfloor>"
  have frac: "0 \<le> ?r - of_int ?s" "?r - of_int ?s < 1" by linarith+
  then have f: "0 \<le> ?f" "?f < 10 ^ 9" by (auto simp: floor_less_iff)
  have pos: "0 \<le> of_int (tv_nsec now) + (?r - of_int ?s) * 10 ^ 9"
    using assms(2) frac(1) by simp
  have "\<lfloor>of_int (tv_nsec now) + (?r - of_int ?s) * 10 ^ 9\<rfloor> = tv_nsec now + ?f"
    by (rule int_add_floor [symmetric])
  then have nsec: "c_trunc (of_int (tv_nsec now) + (?r - of_int (c_trunc ?r)) * 10 ^ 9) = tv_nsec now + ?f"
    using pos by (simp add: c_trunc_nonneg assms(1))
  have t: "t = (if 10 ^ 9 \<le> tv_nsec now + ?f
      then Timespec (tv_sec now + ?s + 1) (tv_nsec now + ?f - 10 ^ 9)
      else Timespec (tv_sec now + ?s) (tv_nsec now + ?f))"
    unfolding t_def log_time_and_calculate_timeout_def Let_def nsec
    by (simp add: c_trunc_nonneg assms(1))
  have "?r * 10 ^ 9 = (?r - of_int ?s) * 10 ^ 9 + of_int (?s * 10 ^ 9)"
    by (simp add: algebra_simps)
  then have "\<lfloor>?r * 10 ^ 9\<rfloor> = ?f + ?s * 10 ^ 9"
    by (simp only: floor_add_int)
  then show "nanoseconds t = nanoseconds now + \<lfloor>?r * 10 ^ 9\<rfloor>"
    by (simp add: t nanoseconds_def algebra_simps)
  show "0 \<le> tv_nsec t" "tv_nsec t < 10 ^ 9"
    unfolding t by (rule deadline_carry [OF assms(2,3) f])+
qed

section \<open>Properties\<close>

text \<open>A history of the estimator: for each event the time and whether it is a timeout.\<close>

definition estimate :: "context_t \<Rightarrow> (timespec \<times> bool) list \<Rightarrow> context_t" where
  "estimate ctx evs = foldl (\<lambda>c (now, is_timeout). update_rto now c is_timeout) ctx evs"

lemma estimate_snoc: "estimate ctx (evs @ [(now, b)]) = update_rto now (estimate ctx evs) b"
  by (simp add: estimate_def)

text \<open>The retransmission timeout. Whatever round-trip times are sampled and however often the
  timer expires, the timeout is at least \<open>MIN_RTO\<close>, and at most \<open>MAX_RTO\<close> doubled
  once for each timeout since the last sample.\<close>

lemma rto_bounds:
  "MIN_RTO \<le> rto (estimate init_context evs) \<and>
   rto (estimate init_context evs) \<le> MAX_RTO * 2 ^ length (takeWhile snd (rev evs))"
proof (induction evs rule: rev_induct)
  case Nil
  show ?case by (simp add: estimate_def init_context_def Let_def MIN_RTO_def MAX_RTO_def)
next
  case (snoc ev evs)
  obtain now b where ev: "ev = (now, b)" by (metis surj_pair)
  show ?case
  proof (cases b)
    case True
    then have "rto (estimate init_context (evs @ [ev])) = 2 * rto (estimate init_context evs)"
      by (simp add: ev estimate_snoc update_rto_def)
    moreover have "0 \<le> MIN_RTO" by (simp add: MIN_RTO_def)
    ultimately show ?thesis using snoc True by (simp add: ev)
  next
    case False
    then show ?thesis using update_rto_range by (simp add: ev estimate_snoc)
  qed
qed

text \<open>The timer. Started at a valid time, it is set to a valid time that lies exactly the
  retransmission timeout later (to the nanosecond, rounded down), carry included.\<close>

lemma deadline_exact:
  assumes "0 \<le> rto ctx" "0 \<le> tv_nsec now" "tv_nsec now < 10 ^ 9"
  shows "nanoseconds (timeout (log_time_and_calculate_timeout now ctx))
      = nanoseconds now + \<lfloor>rto ctx * 10 ^ 9\<rfloor> \<and>
    0 \<le> tv_nsec (timeout (log_time_and_calculate_timeout now ctx)) \<and>
    tv_nsec (timeout (log_time_and_calculate_timeout now ctx)) < 10 ^ 9"
  using deadline_nanoseconds [OF assms] by simp

end
