(* ===== verification/Stcp_Reassembly.thy ===== *)
theory Stcp_Reassembly
  imports Stcp_Segments
begin

text \<open>
  Correctness of the robust insertion into the receive buffer. The arriving segment is cut
  into pieces; the loop links a piece wherever the buffer has a gap. The result: the view
  of the buffer becomes the old view, extended by the arriving segment at the positions
  that were still missing. The locale \<open>reassembly\<close> states this contract and draws the
  consequences for whole sequences of arrivals (any loss, duplication, overlap and
  order); it is interpreted on the insertion of \<^verbatim>\<open>transport.c\<close>.
\<close>

section \<open>Pieces of an arriving segment\<close>

text \<open>The part of the segment with payload \<open>data\<close>, positions \<open>s..<e\<close> and FIN flag
  \<open>fin\<close> that covers the positions from \<open>p\<close> up to \<open>q\<close>.\<close>

definition piece :: "nat \<Rightarrow> nat \<Rightarrow> bytes \<Rightarrow> bool \<Rightarrow> nat \<Rightarrow> nat \<Rightarrow> segment" where
  "piece s e data fin p q =
     \<lparr>seg_seq = of_nat p,
      seg_data = take (q - p - of_bool (q = e \<and> fin)) (drop (p - s) data),
      seg_fin = (q = e \<and> fin)\<rparr>"

definition covers :: "nat \<Rightarrow> nat \<Rightarrow> bytes \<Rightarrow> bool \<Rightarrow> bool" where
  "covers s e data fin \<longleftrightarrow>
     e < 2 ^ 32 \<and> s + of_bool fin \<le> e \<and> e - s - of_bool fin \<le> length data \<and> e - s - of_bool fin \<le> STCP_MSS"

lemma piece_payload_len:
  assumes "covers s e data fin" "s \<le> p" "p < q" "q \<le> e"
  shows "payload_len (piece s e data fin p q) = q - p - of_bool (q = e \<and> fin)"
  using assms by (cases "q = e"; cases fin) (auto simp: payload_len_def piece_def covers_def)

lemma piece_lo:
  assumes "covers s e data fin" "p < q" "q \<le> e"
  shows "seg_lo (piece s e data fin p q) = p"
  using assms by (simp add: seg_lo_def piece_def unat_of_nat take_bit_eq_mod covers_def)

lemma piece_hi:
  assumes "covers s e data fin" "s \<le> p" "p < q" "q \<le> e"
  shows "seg_hi (piece s e data fin p q) = q"
  using assms piece_lo [OF assms(1,3,4)] piece_payload_len [OF assms]
  by (auto simp: seg_hi_def) (auto simp: piece_def)

lemma piece_ok:
  assumes "covers s e data fin" "s \<le> p" "p < q" "q \<le> e"
  shows "seg_ok (piece s e data fin p q)"
proof -
  have "q - p - of_bool (q = e \<and> fin) \<le> STCP_MSS"
    using assms by (cases "q = e"; cases fin) (auto simp: covers_def)
  then show ?thesis
    using assms piece_lo [OF assms(1,3,4)] piece_hi [OF assms] piece_payload_len [OF assms]
    by (simp add: seg_ok_def covers_def)
qed

text \<open>The cells of the arriving segment at the positions from \<open>p\<close> up to \<open>q\<close>.\<close>

definition cells :: "nat \<Rightarrow> nat \<Rightarrow> bytes \<Rightarrow> bool \<Rightarrow> nat \<Rightarrow> nat \<Rightarrow> nat \<Rightarrow> cell option" where
  "cells s e data fin p q x =
    (if p \<le> x \<and> x < q
     then (if fin \<and> x + 1 = e then Some Fin else Some (Byte (data ! (x - s)))) else None)"

lemma seg_map_piece:
  assumes "covers s e data fin" "s \<le> p" "p < q" "q \<le> e"
  shows "seg_map (piece s e data fin p q) = cells s e data fin p q"
proof
  fix x
  show "seg_map (piece s e data fin p q) x = cells s e data fin p q x"
  proof (cases "p \<le> x \<and> x < q")
  case False
  then have "x \<notin> dom (seg_map (piece s e data fin p q))"
    using piece_lo [OF assms(1,3,4)] piece_hi [OF assms] by auto
  then have "seg_map (piece s e data fin p q) x = None" by (simp only: domIff not_not)
  with False show ?thesis by (simp add: cells_def)
next
  case True
  show ?thesis
  proof (cases "fin \<and> x + 1 = e")
    case True
    then have "q = e" using \<open>p \<le> x \<and> x < q\<close> assms(4) by auto
    with True \<open>p \<le> x \<and> x < q\<close> show ?thesis
      using piece_lo [OF assms(1,3,4)] piece_payload_len [OF assms]
      by (auto simp: seg_map_def cells_def) (auto simp: piece_def)
  next
    case False
    then have less: "x < p + (q - p - of_bool (q = e \<and> fin))"
      using \<open>p \<le> x \<and> x < q\<close> by (cases "q = e"; cases fin) auto
    then have "seg_data (piece s e data fin p q) ! (x - p) = data ! (x - s)"
      using \<open>p \<le> x \<and> x < q\<close> assms(2) piece_payload_len [OF assms]
      by (auto simp: piece_def payload_len_def)
    with less False True show ?thesis
      using piece_lo [OF assms(1,3,4)] piece_payload_len [OF assms]
      by (simp add: seg_map_def cells_def)
  qed
qed
qed



lemma dom_buf_map_below: "\<forall>g \<in> set buf. seg_hi g \<le> n \<Longrightarrow> dom (buf_map buf) \<subseteq> {..<n}"
  by (induction buf) auto

lemma dom_buf_map_above: "\<forall>g \<in> set buf. n \<le> seg_lo g \<Longrightarrow> dom (buf_map buf) \<subseteq> {n..}"
  by (induction buf) auto

lemma cells_extend:
  assumes "p \<le> q" "q \<le> r" "r \<le> e" "{q..<r} \<subseteq> dom m"
  shows "cells s e data fin r e ++ (cells s e data fin p q ++ m) = cells s e data fin p e ++ m"
proof
  fix x
  show "(cells s e data fin r e ++ (cells s e data fin p q ++ m)) x = (cells s e data fin p e ++ m) x"
  proof (cases "m x")
    case None
    then have "x \<notin> {q..<r}" using assms(4) by (metis domIff subsetD)
    then have "x < q \<or> r \<le> x" by auto
    with None assms(1-3) show ?thesis by (elim disjE) (simp_all add: map_add_def cells_def)
  next
    case (Some c)
    then show ?thesis by (simp add: map_add_def)
  qed
qed

lemma insert_before_node_piece:
  assumes "covers (unat s) (unat e) data fin" "s \<le> p" "p < q" "q \<le> e"
  shows "insert_before_node (pre @ cur) cur p (drop (unat (p - s)) data)
      ((ucast (q - p) :: u64) - of_bool (q = e \<and> fin)) (q = e \<and> fin) =
    Inr (pre @ piece (unat s) (unat e) data fin (unat p) (unat q) # cur)"
proof -
  let ?len = "(ucast (q - p) :: u64) - of_bool (q = e \<and> fin)"
  have le: "unat s \<le> unat p" "unat p < unat q" "unat q \<le> unat e" "unat (p - s) = unat p - unat s"
    using assms by (simp_all add: word_le_nat_alt word_less_nat_alt unat_sub)
  have qp: "unat (ucast (q - p) :: u64) = unat q - unat p"
    using assms(3) by (simp add: unat_sub order_less_imp_le)
  have len: "unat ?len = unat q - unat p - of_bool (q = e \<and> fin)"
  proof (cases "q = e \<and> fin")
    case True
    have "(1 :: u64) \<le> ucast (q - p)" using le qp by (simp add: word_le_nat_alt)
    with True show ?thesis using qp by (simp add: unat_sub)
  next
    case False
    then show ?thesis using qp by (simp only: of_bool_eq(1) diff_zero)
  qed
  have q_e: "unat q = unat e \<longleftrightarrow> q = e" by (simp add: word_unat_eq_iff)
  have fin_part: "unat q - unat p - of_bool (q = e \<and> fin) \<le> unat e - unat p - of_bool fin"
  proof (cases "q = e")
    case False
    with le q_e have "unat q < unat e" by linarith
    with False le show ?thesis by (cases fin) auto
  qed simp
  have "unat ?len \<le> STCP_MSS"
    using assms(1) le fin_part unfolding len covers_def by linarith
  moreover have "unat ?len \<le> length (drop (unat (p - s)) data)"
    using assms(1) le fin_part unfolding len covers_def length_drop by linarith
  ultimately show ?thesis
    unfolding insert_before_node_def
    by (simp add: new_segment_ok link_before_suffix piece_def len le(4) q_e)
qed
lemma insert_tail_piece:
  assumes "covers (unat s) (unat e) data fin" "s \<le> p" "p < e"
  shows "insert_tail buf p (drop (unat (p - s)) data)
      ((ucast (e - p) :: u64) - of_bool fin) fin =
    Inr (buf @ [piece (unat s) (unat e) data fin (unat p) (unat e)])"
proof -
  have "link_before buf [] node = buf @ [node]" for node
    using link_before_suffix [of buf "[]"] by simp
  then show ?thesis
    using insert_before_node_piece [OF assms order_refl, of buf "[]"]
    by (simp add: insert_before_node_def insert_tail_def)
qed

text \<open>The invariant of the loop, stated for the loop and the rest of the function
  together: whatever lies before the current node ends at or before the position.\<close>

definition adds_missing :: "(nat \<Rightarrow> cell option) \<Rightarrow> segment list \<Rightarrow> segment list result \<Rightarrow> bool" where
  "adds_missing new buf r \<longleftrightarrow>
     (\<exists>buf'. r = Inr buf' \<and> buf_ok buf' \<and> buf_map buf' = new ++ buf_map buf)"

lemma robust_end:
  assumes cov: "covers (unat s) (unat e) data fin" and pos: "s \<le> p" "p \<le> e"
    and ok: "buf_ok buf" and before: "p < e \<longrightarrow> (\<forall>g \<in> set buf. seg_hi g \<le> unat p)"
  shows "adds_missing (cells (unat s) (unat e) data fin (unat p) (unat e)) buf
      (robust_rest s e data fin (buf, p))"
proof (cases "p < e")
  case False
  with pos have "cells (unat s) (unat e) data fin (unat p) (unat e) = Map.empty"
    by (auto simp: cells_def fun_eq_iff)
  with False ok show ?thesis by (simp add: adds_missing_def robust_rest_def)
next
  case True
  then have less: "unat s \<le> unat p" "unat p < unat e"
    using pos by (simp_all add: word_le_nat_alt word_less_nat_alt)
  let ?n = "piece (unat s) (unat e) data fin (unat p) (unat e)"
  note n = piece_ok [OF cov less order_refl] piece_lo [OF cov less(2) order_refl]
    seg_map_piece [OF cov less order_refl]
  have "buf_ok (buf @ [?n])"
    using ok before True n(1,2) by (simp add: buf_ok_append)
  moreover have "buf_map (buf @ [?n]) = seg_map ?n ++ buf_map buf"
  proof -
    have "dom (buf_map buf) \<subseteq> {..< unat p}"
      using before True by (intro dom_buf_map_below) simp
    then have "dom (buf_map buf) \<inter> dom (seg_map ?n) = {}"
      using n(2) by auto
    from map_add_comm [OF this] show ?thesis by simp
  qed
  ultimately show ?thesis
    using True n(3) insert_tail_piece [OF cov pos(1) True]
    by (simp add: adds_missing_def robust_rest_def)
qed
lemma buf_map_insert:
  assumes "buf_ok (pre @ cur)" "seg_ok n"
    "\<forall>g \<in> set pre. seg_hi g \<le> seg_lo n" "\<forall>g \<in> set cur. seg_hi n \<le> seg_lo g"
  shows "buf_ok (pre @ n # cur)" "buf_map (pre @ n # cur) = seg_map n ++ buf_map (pre @ cur)"
proof -
  show "buf_ok (pre @ n # cur)"
    using assms by (auto simp: buf_ok_append)
  have "dom (buf_map pre) \<inter> dom (seg_map n) = {}"
    using dom_buf_map_below [OF assms(3)] by auto
  from map_add_comm [OF this] show "buf_map (pre @ n # cur) = seg_map n ++ buf_map (pre @ cur)"
    by simp
qed

lemma adds_missing_step:
  assumes "adds_missing (cells s e data fin r e) (pre @ n # cur) res"
    and "buf_map (pre @ n # cur) = cells s e data fin p q ++ buf_map (pre @ cur)"
    and "p \<le> q" "q \<le> r" "r \<le> e" "{q..<r} \<subseteq> dom (buf_map (pre @ cur))"
  shows "adds_missing (cells s e data fin p e) (pre @ cur) res"
  using assms(1) cells_extend [OF assms(3-6)] unfolding adds_missing_def assms(2) by auto

lemma cells_skip:
  assumes "adds_missing (cells s e data fin r e) buf res"
    and "p \<le> r" "r \<le> e" "{p..<r} \<subseteq> dom (buf_map buf)"
  shows "adds_missing (cells s e data fin p e) buf res"
proof -
  have "cells s e data fin p p = Map.empty" by (auto simp: cells_def)
  with assms(1) cells_extend [OF order_refl assms(2-4), of s data fin] show ?thesis
    unfolding adds_missing_def by simp
qed

lemma robust_loop_adds_missing:
  assumes cov: "covers (unat s) (unat e) data fin"
    and "s \<le> p" "p \<le> e" "buf_ok (pre @ cur)" "p < e \<longrightarrow> (\<forall>g \<in> set pre. seg_hi g \<le> unat p)"
  shows "adds_missing (cells (unat s) (unat e) data fin (unat p) (unat e)) (pre @ cur)
      (rbind (robust_loop s e data fin (pre @ cur) cur p) (robust_rest s e data fin))"
  using assms(2-)
proof (induction cur arbitrary: pre p)
  case Nil
  then show ?case using robust_end [OF cov] by simp
next
  case (Cons c cur)
  show ?case
  proof (cases "p < e")
    case False
    with Cons.prems show ?thesis using robust_end [OF cov Cons.prems(1-3)] by simp
  next
    case True
    have c: "seg_ok c" "\<forall>g \<in> set pre. seg_hi g \<le> seg_lo c" "\<forall>g \<in> set cur. seg_hi c \<le> seg_lo g"
      using Cons.prems(3) by (auto simp: buf_ok_append)
    define r where "r q = (if q < node_end c then (if node_end c < e then node_end c else e) else q)" for q
    note hi = unat_node_end [OF c(1)]
    have r: "q \<le> r q" "r q \<le> e" "r q < e \<longrightarrow> seg_hi c \<le> unat (r q)"
      "{unat q..<unat (r q)} \<subseteq> {seg_lo c..<seg_hi c}"
      if "q \<le> e" "seg_seq c \<le> q" for q
      using that hi by (auto simp: r_def seg_lo_def word_le_nat_alt word_less_nat_alt)
    have c_dom: "{seg_lo c..<seg_hi c} \<subseteq> dom (buf_map (pre' @ c # cur))" for pre'
      by (auto simp: dom_buf_map)
    have next_node: "adds_missing (cells (unat s) (unat e) data fin (unat (r q)) (unat e)) ((pre' @ [c]) @ cur)
        (rbind (robust_loop s e data fin ((pre' @ [c]) @ cur) cur (r q)) (robust_rest s e data fin))"
      if "s \<le> q" "q \<le> e" "seg_seq c \<le> q" "buf_ok (pre' @ c # cur)" 
        for pre' q
    proof (rule Cons.IH)
      have "\<forall>g \<in> set pre'. seg_hi g \<le> seg_hi c"
        using that(4) by (auto simp: buf_ok_append seg_ok_def intro: order_trans less_imp_le)
      then show "r q < e \<longrightarrow> (\<forall>g \<in> set (pre' @ [c]). seg_hi g \<le> unat (r q))"
        using r(3) [OF that(2,3)] by (auto intro: order_trans)
      show "s \<le> r q" "r q \<le> e" using that(1) r(1,2) [OF that(2,3)] by auto
    qed (use that(4) in simp)
    show ?thesis
    proof (cases "p < seg_seq c")
      case False
      then have le: "seg_seq c \<le> p" by simp
      have "adds_missing (cells (unat s) (unat e) data fin (unat p) (unat e)) (pre @ c # cur)
        (rbind (robust_loop s e data fin (pre @ c # cur) cur (r p)) (robust_rest s e data fin))"
      proof (rule cells_skip)
        show "adds_missing (cells (unat s) (unat e) data fin (unat (r p)) (unat e)) (pre @ c # cur)
          (rbind (robust_loop s e data fin (pre @ c # cur) cur (r p)) (robust_rest s e data fin))"
          using next_node [OF Cons.prems(1,2) le Cons.prems(3)] by simp
      qed (use r [OF Cons.prems(2) le] c_dom in \<open>auto simp: word_le_nat_alt\<close>)
      with False True show ?thesis by (simp add: r_def)
    next
      case less: True
      define q where "q = (if seg_seq c < e then seg_seq c else e)"
      have q: "p < q" "q \<le> e" "unat q \<le> seg_lo c"
        using True less by (auto simp: q_def seg_lo_def word_le_nat_alt word_less_nat_alt)
      let ?n = "piece (unat s) (unat e) data fin (unat p) (unat q)"
      have un: "unat s \<le> unat p" "unat p < unat q" "unat q \<le> unat e"
        using Cons.prems(1) q(1,2) by (simp_all add: word_le_nat_alt word_less_nat_alt)
      note n = piece_ok [OF cov un] piece_lo [OF cov un(2,3)] piece_hi [OF cov un]
        seg_map_piece [OF cov un]
      have after: "\<forall>g \<in> set (c # cur). seg_hi ?n \<le> seg_lo g"
        using q(3) n(3) c by (auto simp: seg_ok_def)
      have ins: "buf_ok (pre @ ?n # c # cur)"
        "buf_map (pre @ ?n # c # cur) =
           cells (unat s) (unat e) data fin (unat p) (unat q) ++ buf_map (pre @ c # cur)"
        using buf_map_insert [OF Cons.prems(3) n(1) _ after] Cons.prems(4) True n(2,4) by simp_all
      have "adds_missing (cells (unat s) (unat e) data fin (unat p) (unat e)) (pre @ c # cur)
        (rbind (if e \<le> q then Inr (pre @ ?n # c # cur, q)
                else robust_loop s e data fin (pre @ ?n # c # cur) cur (r q)) (robust_rest s e data fin))"
      proof (cases "e \<le> q")
        case True
        with q(2) have "q = e" by simp
        with ins show ?thesis by (simp add: adds_missing_def robust_rest_def)
      next
        case False
        then have le: "seg_seq c \<le> q" by (auto simp: q_def split: if_splits)
        from Cons.prems(1) q(1) have "s \<le> q" by simp
        from next_node [OF this q(2) le, of "pre @ [?n]"] ins(1)
        have "adds_missing (cells (unat s) (unat e) data fin (unat (r q)) (unat e)) (pre @ ?n # c # cur)
          (rbind (robust_loop s e data fin (pre @ ?n # c # cur) cur (r q)) (robust_rest s e data fin))"
          by simp
        then have "adds_missing (cells (unat s) (unat e) data fin (unat p) (unat e)) (pre @ c # cur)
          (rbind (robust_loop s e data fin (pre @ ?n # c # cur) cur (r q)) (robust_rest s e data fin))"
          by (rule adds_missing_step [OF _ ins(2)])
            (use r [OF q(2) le] q(1) c_dom in \<open>auto simp: word_le_nat_alt word_less_nat_alt\<close>)
        with False show ?thesis by simp
      qed
      then show ?thesis
        using True less insert_before_node_piece [OF cov Cons.prems(1) q(1,2), of pre "c # cur"]
        by (simp add: Let_def flip: q_def r_def)
    qed
  qed
qed

section \<open>The contract of the insertion\<close>

definition arriving :: "u32 \<Rightarrow> bytes \<Rightarrow> u64 \<Rightarrow> bool \<Rightarrow> segment" where
  "arriving sq data len fin = \<lparr>seg_seq = sq, seg_data = take (unat len) data, seg_fin = fin\<rparr>"

lemma robust_insert_adds:
  assumes ok: "buf_ok buf" and g: "seg_ok (arriving sq data len fin)" and len: "unat len \<le> length data"
  shows "\<exists>buf'. insert_segment_to_receive_buffer_robust buf sq data len fin = Inr buf' \<and> buf_ok buf' \<and>
      buf_map buf' = seg_map (arriving sq data len fin) ++ buf_map buf"
proof -
  let ?e = "sq + ucast len + of_bool fin"
  have hi: "unat sq + unat len + of_bool fin < 2 ^ 32" and mss: "unat len \<le> STCP_MSS"
    and nonempty: "0 < unat len + of_bool fin"
    using g len by (auto simp: seg_ok_def seg_hi_def seg_lo_def arriving_def payload_len_def)
  have "unat (ucast len :: u32) = unat len"
    using hi by (simp add: unsigned_ucast_eq take_bit_nat_eq_self)
  then have e: "unat ?e = unat sq + unat len + of_bool fin"
    using hi by (cases fin) (simp_all add: unat_word_ariths)
  have cov: "covers (unat sq) (unat ?e) data fin"
    using hi mss len by (simp add: covers_def e)
  have less: "unat sq < unat ?e" using nonempty by (simp add: e)
  have "arriving sq data len fin = piece (unat sq) (unat ?e) data fin (unat sq) (unat ?e)"
    by (simp add: arriving_def piece_def e)
  then have m: "seg_map (arriving sq data len fin) =
      cells (unat sq) (unat ?e) data fin (unat sq) (unat ?e)"
    using seg_map_piece [OF cov order_refl less order_refl] by simp
  have "0 < len \<or> fin" using nonempty by (cases fin) (auto simp: word_less_nat_alt)
  then show ?thesis
    using robust_loop_adds_missing [OF cov order_refl, of "[]" buf] ok less
    by (simp add: insert_segment_to_receive_buffer_robust_def adds_missing_def m
        word_le_nat_alt Let_def)
qed

definition insert_arrival :: "segment list \<Rightarrow> segment \<Rightarrow> segment list result" where
  "insert_arrival buf g = insert_segment_to_receive_buffer_robust buf (seg_seq g) (seg_data g)
     (of_nat (payload_len g)) (seg_fin g)"

lemma insert_arrival_adds:
  assumes "buf_ok buf" "seg_ok g"
  shows "\<exists>buf'. insert_arrival buf g = Inr buf' \<and> buf_ok buf' \<and> buf_map buf' = seg_map g ++ buf_map buf"
proof -
  have "unat (of_nat (payload_len g) :: u64) = payload_len g"
    using assms(2) by (simp add: seg_ok_def STCP_MSS_def unat_of_nat take_bit_nat_eq_self)
  then have "arriving (seg_seq g) (seg_data g) (of_nat (payload_len g)) (seg_fin g) = g"
    and "unat (of_nat (payload_len g) :: u64) \<le> length (seg_data g)"
    by (simp_all add: arriving_def payload_len_def)
  then show ?thesis
    using robust_insert_adds [OF assms(1)] assms(2) unfolding insert_arrival_def by metis
qed

section \<open>Sequences of arrivals\<close>

locale reassembly =
  fixes ok :: "'b \<Rightarrow> bool"
    and view :: "'b \<Rightarrow> nat \<Rightarrow> cell option"
    and insert :: "'b \<Rightarrow> segment \<Rightarrow> 'b result"
    and fits :: "segment \<Rightarrow> bool"
  assumes insert_adds:
    "ok b \<Longrightarrow> fits g \<Longrightarrow> \<exists>b'. insert b g = Inr b' \<and> ok b' \<and> view b' = seg_map g ++ view b"
begin

fun insert_all :: "'b \<Rightarrow> segment list \<Rightarrow> 'b result" where
  "insert_all b [] = Inr b"
| "insert_all b (g # gs) = rbind (insert b g) (\<lambda>b'. insert_all b' gs)"

text \<open>Everything that arrived is in the view, the first arrival of a position wins, and
  nothing else is added.\<close>

lemma insert_all_view:
  assumes "ok b" "\<forall>g \<in> set gs. fits g"
  shows "\<exists>b'. insert_all b gs = Inr b' \<and> ok b' \<and>
    view b' = foldl (\<lambda>m g. seg_map g ++ m) (view b) gs"
  using assms
proof (induction gs arbitrary: b)
  case Nil
  then show ?case by simp
next
  case (Cons g gs)
  then obtain b' where b': "insert b g = Inr b'" "ok b'" "view b' = seg_map g ++ view b"
    using insert_adds by fastforce
  from Cons.IH [OF b'(2)] Cons.prems(2) b' show ?case by simp
qed

text \<open>When all arrivals are cut from one stream, so is the view.\<close>

lemma foldl_submap:
  "m \<subseteq>\<^sub>m stream \<Longrightarrow> \<forall>g \<in> set gs. seg_map g \<subseteq>\<^sub>m stream \<Longrightarrow>
     foldl (\<lambda>m g. seg_map g ++ m) m gs \<subseteq>\<^sub>m stream"
  by (induction gs arbitrary: m) (simp_all add: map_add_le_mapI)

lemma foldl_dom: "dom (foldl (\<lambda>m g. seg_map g ++ m) m gs) = dom m \<union> (\<Union>g \<in> set gs. dom (seg_map g))"
  by (induction gs arbitrary: m) (auto simp del: dom_seg_map)

lemma submap_same_dom: "m \<subseteq>\<^sub>m stream \<Longrightarrow> m' \<subseteq>\<^sub>m stream \<Longrightarrow> dom m = dom m' \<Longrightarrow> m = m'"
  by (rule ext) (metis domIff map_le_def)

text \<open>The order of the arrivals and the number of copies of each do not matter.\<close>

lemma insert_all_order:
  assumes "ok b" "view b \<subseteq>\<^sub>m stream"
    and "\<forall>g \<in> set gs. fits g \<and> seg_map g \<subseteq>\<^sub>m stream" and "set gs' = set gs"
  shows "\<exists>c c'. insert_all b gs = Inr c \<and> insert_all b gs' = Inr c' \<and> view c = view c' \<and>
    view c \<subseteq>\<^sub>m stream"
proof -
  from assms obtain c c' where c: "insert_all b gs = Inr c" "view c = foldl (\<lambda>m g. seg_map g ++ m) (view b) gs"
    "insert_all b gs' = Inr c'" "view c' = foldl (\<lambda>m g. seg_map g ++ m) (view b) gs'"
    using insert_all_view [of b gs] insert_all_view [of b gs'] by auto
  have "view c \<subseteq>\<^sub>m stream" "view c' \<subseteq>\<^sub>m stream"
    unfolding c using assms by (auto intro: foldl_submap)
  moreover have "dom (view c) = dom (view c')"
    unfolding c foldl_dom assms(4) ..
  ultimately show ?thesis using submap_same_dom c by blast
qed

end

interpretation rx: reassembly buf_ok buf_map insert_arrival seg_ok
  by unfold_locales (rule insert_arrival_adds)

section \<open>Properties\<close>

text \<open>C17. Robust insertion. Into a well-formed receive buffer, any segment that fits can be
  inserted, however it overlaps the buffered ones: no assertion fails, no array is overrun,
  the buffer stays sorted and free of overlaps, what was buffered keeps its bytes, and
  exactly the missing positions of the segment are added with its bytes.\<close>

theorem robust_insertion_correct:
  assumes "buf_ok buf" "seg_ok (arriving sq data len fin)" "unat len \<le> length data"
  shows "\<exists>buf'. insert_segment_to_receive_buffer_robust buf sq data len fin = Inr buf' \<and> buf_ok buf' \<and>
    (\<forall>p. buf_map buf' p = (if p \<in> dom (buf_map buf) then buf_map buf p
       else seg_map (arriving sq data len fin) p))"
proof -
  obtain buf' where "insert_segment_to_receive_buffer_robust buf sq data len fin = Inr buf'" "buf_ok buf'"
    "buf_map buf' = seg_map (arriving sq data len fin) ++ buf_map buf"
    using robust_insert_adds [OF assms] by blast
  then show ?thesis by (auto simp: map_add_def split: option.splits)
qed

definition sample_buffer :: "segment list" where
  "sample_buffer = [\<lparr>seg_seq = 12, seg_data = [3, 4], seg_fin = False\<rparr>]"

lemma sample_buffer_ok: "buf_ok sample_buffer"
  by (simp add: sample_buffer_def seg_ok_def seg_lo_def seg_hi_def payload_len_def STCP_MSS_def)

theorem robust_insertion_correct_witness:
  "\<exists>buf'. insert_segment_to_receive_buffer_robust sample_buffer 10 [1, 2, 9, 9, 5] 5 True = Inr buf' \<and>
     buf_map buf' 10 = Some (Byte 1) \<and> buf_map buf' 12 = Some (Byte 3) \<and> buf_map buf' 15 = Some Fin"
proof -
  have "seg_ok (arriving 10 [1, 2, 9, 9, 5] 5 True)" "unat (5 :: u64) \<le> length [1, 2, 9, 9, 5 :: u8]"
    by (simp_all add: arriving_def seg_ok_def seg_lo_def seg_hi_def payload_len_def STCP_MSS_def)
  from robust_insertion_correct [OF sample_buffer_ok this] obtain buf' where
    b: "insert_segment_to_receive_buffer_robust sample_buffer 10 [1, 2, 9, 9, 5] 5 True = Inr buf'"
    "\<forall>p. buf_map buf' p = (if p \<in> dom (buf_map sample_buffer) then buf_map sample_buffer p
       else seg_map (arriving 10 [1, 2, 9, 9, 5] 5 True) p)" by blast
  have "dom (buf_map sample_buffer) = {12..<14}"
    by (simp add: sample_buffer_def seg_lo_def seg_hi_def payload_len_def)
  then show ?thesis
    using b by (auto simp: sample_buffer_def arriving_def seg_map_def seg_lo_def payload_len_def)
qed

text \<open>The order in which segments of one stream arrive, and how often each is duplicated, does
  not matter: two arrival sequences with the same segments lead to buffers with the same
  contents, both of them part of the stream.\<close>

lemma arrival_order_irrelevant:
  assumes "buf_ok buf" "buf_map buf \<subseteq>\<^sub>m stream" "set gs' = set gs"
    and "\<forall>g \<in> set gs. seg_ok g \<and> seg_map g \<subseteq>\<^sub>m stream"
  shows "\<exists>c c'. rx.insert_all buf gs = Inr c \<and> rx.insert_all buf gs' = Inr c' \<and> buf_map c = buf_map c' \<and>
    buf_map c \<subseteq>\<^sub>m stream"
  by (rule rx.insert_all_order [OF assms(1,2,4,3)])

end
