(* ===== verification/Stcp_Transport.thy ===== *)
theory Stcp_Transport
  imports Stcp_Context Stcp_Reassembly
begin

text \<open>
  The established connection of \<^verbatim>\<open>hw3/transport.c\<close>: flushing the receive buffer,
  resending the send buffer, the event handlers and one iteration of \<open>control_loop\<close>.
  Every handler takes the mysocket and the context and gives both back; \<open>sd\<close> carries the
  queues, the clock and the packets sent.
\<close>

type_synonym conn = "mysock_context \<times> context_t"

section \<open>Sending\<close>

text \<open>A header without payload: \<open>stcp_network_send (sd, &hdr, sizeof (STCPHeader), NULL)\<close>.\<close>

definition send_control :: "mysock_context \<Rightarrow> context_t \<Rightarrow> u8 \<Rightarrow> mysock_context result" where
  "send_control sd ctx flags =
     stcp_network_send sd (build_header (next_seq_num ctx) (receive_next ctx) flags) []"

fun resend_send_buffer :: "mysock_context \<Rightarrow> segment list \<Rightarrow> u32 \<Rightarrow> mysock_context result" where
  "resend_send_buffer sd [] rnext = Inr sd"
| "resend_send_buffer sd (cur # rest) rnext =
     rbind (stcp_network_send sd
         (build_header (seg_seq cur) rnext (TH_ACK OR (if seg_fin cur then TH_FIN else 0))) (seg_data cur))
       (\<lambda>sd'. resend_send_buffer sd' rest rnext)"

text \<open>The window space as the \<^verbatim>\<open>int\<close> the code computes from unsigned arithmetic.\<close>

definition win_remain :: "context_t \<Rightarrow> int" where
  "win_remain ctx = sint ((send_base ctx + DEFAULT_WIN_SIZE) - next_seq_num ctx)"

section \<open>Flushing the receive buffer\<close>

fun flush_loop :: "mysock_context \<Rightarrow> context_t \<Rightarrow> segment list \<Rightarrow> conn" where
  "flush_loop sd ctx [] = (sd, ctx\<lparr>receive_buffer := []\<rparr>)"
| "flush_loop sd ctx (node # rest) =
     (if seg_seq node = receive_next ctx then
        (let sd1 = (if 0 < payload_len node then stcp_app_send sd (seg_data node) else sd);
             ctx1 = (if 0 < payload_len node
               then ctx\<lparr>receive_next := receive_next ctx + of_nat (payload_len node)\<rparr> else ctx)
         in if seg_fin node then
              (stcp_fin_received sd1,
               ctx1\<lparr>receive_next := receive_next ctx1 + 1,
                    connection_state := transition_state (connection_state ctx1) EVENT_RECV_FIN,
                    is_FIN_RECEIVED := True, receive_buffer := rest\<rparr>)
            else flush_loop sd1 ctx1 rest)
      else (sd, ctx\<lparr>receive_buffer := node # rest\<rparr>))"

definition flush_in_order_segments_from_receive_buffer :: "mysock_context \<Rightarrow> context_t \<Rightarrow> conn" where
  "flush_in_order_segments_from_receive_buffer sd ctx = flush_loop sd ctx (receive_buffer ctx)"

section \<open>Handlers for network data\<close>

text \<open>Sending (and buffering) the FIN, as in \<open>handle_ack_from_peer\<close> and
  \<open>handle_app_close\<close>.\<close>

definition send_fin :: "conn \<Rightarrow> conn result" where
  "send_fin c =
     (case c of (sd, ctx) \<Rightarrow>
        rbind (send_control sd ctx (TH_ACK OR TH_FIN)) (\<lambda>sd'.
        rbind (enqueue_send_buffer (send_buffer ctx) (next_seq_num ctx) [] 0 True) (\<lambda>buf.
          let ctx1 = ctx\<lparr>send_buffer := buf\<rparr>;
              ctx2 = (if send_base ctx1 = next_seq_num ctx1
                then log_time_and_calculate_timeout (clock sd) ctx1 else ctx1)
          in Inr (sd', ctx2\<lparr>next_seq_num := next_seq_num ctx2 + 1\<rparr>))))"

definition handle_ack_from_peer :: "mysock_context \<Rightarrow> context_t \<Rightarrow> u32 \<Rightarrow> conn result" where
  "handle_ack_from_peer sd ctx ack =
     (if ack \<le> send_base ctx \<or> next_seq_num ctx < ack then Inr (sd, ctx)
      else
        let ctx1 = (if retransmission_count ctx = 0 then update_rto (clock sd) ctx False else ctx);
            ctx2 = ctx1\<lparr>send_buffer := dequeue_send_buffer (send_buffer ctx1) ack, send_base := ack,
                        retransmission_count := 0\<rparr>;
            ctx3 = (if send_base ctx2 \<noteq> next_seq_num ctx2
              then log_time_and_calculate_timeout (clock sd) ctx2 else ctx2)
        in rbind (if is_APP_CLOSE_QUEUED ctx3
             then rbind (c_assert (0 < win_remain ctx3)) (\<lambda>_.
                  rbind (send_fin (sd, ctx3)) (\<lambda>(sd', ctx'). Inr (sd', ctx'\<lparr>is_APP_CLOSE_QUEUED := False\<rparr>)))
             else Inr (sd, ctx3))
           (\<lambda>(sd', ctx4).
             Inr (sd', if is_FIN_SENT ctx4 \<and> send_base ctx4 = next_seq_num ctx4
               then ctx4\<lparr>connection_state := transition_state (connection_state ctx4) EVENT_RECV_ACK\<rparr>
               else ctx4)))"

text \<open>The part of a segment inside the receive window: start, payload, its length and the
  FIN bit. The cuts are \<open>size_t\<close> values of 32-bit differences.\<close>

definition cut_front :: "u32 \<Rightarrow> u32 \<Rightarrow> bytes \<Rightarrow> u64 \<Rightarrow> u32 \<times> bytes \<times> u64" where
  "cut_front win_start seq_start payload len =
     (if seq_start < win_start then
        (let cut = (ucast (win_start - seq_start) :: u64)
         in if cut < len then (seq_start + ucast cut, drop (unat cut) payload, len - cut)
            else (seq_start + ucast cut, payload, 0))
      else (seq_start, payload, len))"

definition cut_back :: "u32 \<Rightarrow> u32 \<Rightarrow> u64 \<Rightarrow> bool \<Rightarrow> u64 \<times> bool" where
  "cut_back win_end seq_end len is_fin =
     (if win_end < seq_end then
        (let cut = (ucast (seq_end - win_end) :: u64)
         in if is_fin then (len - (cut - 1), False) else (len - cut, False))
      else (len, is_fin))"

definition handle_incoming_segment ::
  "mysock_context \<Rightarrow> context_t \<Rightarrow> u32 \<Rightarrow> bytes \<Rightarrow> u64 \<Rightarrow> bool \<Rightarrow> conn result" where
  "handle_incoming_segment sd ctx sq payload len is_fin =
     (if is_FIN_RECEIVED ctx then Inr (sd, ctx)
      else
        let seq_start = sq;
            seq_end = sq + ucast len + of_bool is_fin;
            win_start = receive_next ctx;
            win_end = win_start + DEFAULT_WIN_SIZE
        in if seq_end \<le> win_start
           then rbind (send_control sd ctx TH_ACK) (\<lambda>sd'. Inr (sd', ctx))
           else if win_end \<le> seq_start then Inr (sd, ctx)
           else
             case cut_front win_start seq_start payload len of (seq_start', payload', len') \<Rightarrow>
             case cut_back win_end seq_end len' is_fin of (len'', is_fin') \<Rightarrow>
             rbind (insert_segment_to_receive_buffer_robust (receive_buffer ctx) seq_start' payload' len'' is_fin')
               (\<lambda>buf.
                 case flush_in_order_segments_from_receive_buffer sd (ctx\<lparr>receive_buffer := buf\<rparr>) of (sd', ctx') \<Rightarrow>
                 rbind (send_control sd' ctx' TH_ACK) (\<lambda>sd''. Inr (sd'', ctx'))))"

text \<open>The local buffer holds a header and \<open>STCP_MSS\<close> bytes. The bytes readable behind
  the header are those received; \<open>payload_len\<close> is an \<^verbatim>\<open>int\<close>, passed as a \<open>size_t\<close>.\<close>

definition handle_network_data :: "mysock_context \<Rightarrow> context_t \<Rightarrow> conn result" where
  "handle_network_data sd ctx =
     rbind (stcp_network_recv sd (STCP_HEADER_LEN + STCP_MSS)) (\<lambda>(buf, sd1).
     let n = int (length buf)
     in if \<not> is_valid_seg_len_and_flags buf n 0 then Inr (sd1, ctx)
        else
          let header_len = unat (pkt_off buf) * 4;
              plen = n - int header_len;
              payload = drop header_len buf;
              flags = pkt_flags buf;
              is_fin = (flags AND TH_FIN \<noteq> 0)
          in rbind (if flags AND TH_ACK \<noteq> 0 then handle_ack_from_peer sd1 ctx (pkt_ack buf)
               else Inr (sd1, ctx))
             (\<lambda>(sd2, ctx2).
               if 0 < plen \<or> is_fin
               then handle_incoming_segment sd2 ctx2 (pkt_seq buf) payload (of_int plen) is_fin
               else Inr (sd2, ctx2)))"

section \<open>Handlers for the application\<close>

definition handle_app_data :: "mysock_context \<Rightarrow> context_t \<Rightarrow> conn result" where
  "handle_app_data sd ctx =
     (if is_FIN_SENT ctx then Inr (sd, ctx)
      else
        let len_to_read = (of_int (if win_remain ctx < int STCP_MSS then win_remain ctx else int STCP_MSS) :: u64)
        in if len_to_read = 0 then Inr (sd, ctx)
           else rbind (stcp_app_recv sd (unat len_to_read)) (\<lambda>(payload, sd1).
             if STCP_MSS < length payload then Inl Out_Of_Bounds
             else if length payload = 0 then Inr (sd1, ctx)
             else
               rbind (stcp_network_send sd1
                   (build_header (next_seq_num ctx) (receive_next ctx) TH_ACK) payload) (\<lambda>sd2.
               rbind (enqueue_send_buffer (send_buffer ctx) (next_seq_num ctx) payload
                   (of_nat (length payload)) False) (\<lambda>buf.
                 let ctx1 = ctx\<lparr>send_buffer := buf\<rparr>;
                     ctx2 = (if send_base ctx1 = next_seq_num ctx1
                       then log_time_and_calculate_timeout (clock sd) ctx1 else ctx1)
                 in Inr (sd2, ctx2\<lparr>next_seq_num := next_seq_num ctx2 + of_nat (length payload)\<rparr>)))))"

definition handle_app_close :: "mysock_context \<Rightarrow> context_t \<Rightarrow> conn result" where
  "handle_app_close sd ctx =
     (if is_FIN_SENT ctx then Inr (sd, ctx)
      else rbind (if 0 < win_remain ctx then send_fin (sd, ctx)
             else Inr (sd, ctx\<lparr>is_APP_CLOSE_QUEUED := True\<rparr>))
        (\<lambda>(sd', ctx'). Inr (sd',
           ctx'\<lparr>is_FIN_SENT := True,
                connection_state := transition_state (connection_state ctx') EVENT_SEND_FIN\<rparr>)))"

section \<open>Timeout\<close>

definition ECONNABORTED :: int where "ECONNABORTED = 103"
definition ECONNREFUSED :: int where "ECONNREFUSED = 111"

definition handle_timeout :: "mysock_context \<Rightarrow> context_t \<Rightarrow> conn result" where
  "handle_timeout sd ctx =
     (if retransmission_count ctx = 5
      then Inr (sd\<lparr>thread_errno := ECONNABORTED\<rparr>, ctx\<lparr>connection_state := CSTATE_CLOSED\<rparr>)
      else rbind (resend_send_buffer sd (send_buffer ctx) (receive_next ctx)) (\<lambda>sd'.
        let ctx1 = log_time_and_calculate_timeout (clock sd) (update_rto (clock sd) ctx True)
        in Inr (sd', ctx1\<lparr>retransmission_count := retransmission_count ctx1 + 1\<rparr>)))"

section \<open>The control loop\<close>

definition wait_flags :: "context_t \<Rightarrow> u32" where
  "wait_flags ctx =
     (if 0 < win_remain ctx then NETWORK_DATA OR (APP_DATA OR APP_CLOSE_REQUESTED) else NETWORK_DATA)"

text \<open>The handlers called for an event word, in the order of the loop body.\<close>

definition dispatch :: "u32 \<Rightarrow> conn \<Rightarrow> conn result" where
  "dispatch event c0 =
     rbind (if event AND APP_DATA \<noteq> 0 then handle_app_data (fst c0) (snd c0) else Inr c0) (\<lambda>c1.
     rbind (if event AND NETWORK_DATA \<noteq> 0 then handle_network_data (fst c1) (snd c1) else Inr c1) (\<lambda>c2.
     rbind (if event AND APP_CLOSE_REQUESTED \<noteq> 0 then handle_app_close (fst c2) (snd c2) else Inr c2) (\<lambda>c3.
     if event = TIMEOUT then handle_timeout (fst c3) (snd c3) else Inr c3)))"

definition control_iteration :: "conn \<Rightarrow> conn result" where
  "control_iteration c =
     (case c of (sd, ctx) \<Rightarrow>
        let waiting_for_ack = (send_base ctx \<noteq> next_seq_num ctx)
        in rbind (stcp_wait_for_event sd (wait_flags ctx) (if waiting_for_ack then Some (timeout ctx) else None))
             (\<lambda>(event, sd1).
               rbind (dispatch event (sd1, ctx)) (\<lambda>(sd2, ctx2).
                 Inr (sd2, ctx2\<lparr>ctx_done := (connection_state ctx2 = CSTATE_CLOSED)\<rparr>))))"

end
