(* ===== verification/Stcp_Invariant.thy ===== *)
theory Stcp_Invariant
  imports Stcp_Transport
begin

text \<open>
  The invariants of an established STCP connection. \<open>stream_map base bs fin\<close> is the
  abstract byte stream of one direction (the bytes the application wrote, then the FIN).
  The sender's invariant ties the window, the send buffer and the application's queue to
  the stream it sends; the receiver's ties \<open>receive_next\<close>, the receive buffer and what was
  delivered to the stream it receives; the wire invariant says what every packet handed to
  the network carries.
\<close>

section \<open>Streams\<close>

definition stream_map :: "nat \<Rightarrow> bytes \<Rightarrow> bool \<Rightarrow> nat \<Rightarrow> cell option" where
  "stream_map base bs fin p =
     (if base \<le> p \<and> p < base + length bs then Some (Byte (bs ! (p - base)))
      else if fin \<and> p = base + length bs then Some Fin else None)"

lemma stream_map_grow: "stream_map base bs False \<subseteq>\<^sub>m stream_map base (bs @ cs) fin"
  by (auto simp: map_le_def stream_map_def nth_append dom_def)

lemma stream_map_fin: "stream_map base bs f \<subseteq>\<^sub>m stream_map base bs (f \<or> f')"
  by (auto simp: map_le_def stream_map_def dom_def)

text \<open>A segment is part of a stream when its bytes are a sublist of the stream's bytes at
  the right place.\<close>

lemma seg_map_stream_data:
  assumes "seg_lo g = base + k" "seg_data g = take n (drop k bs)" "\<not> seg_fin g"
  shows "seg_map g \<subseteq>\<^sub>m stream_map base bs fin"
  using assms by (auto simp: map_le_def seg_map_def stream_map_def dom_def payload_len_def)

lemma seg_map_stream_fin:
  assumes "seg_lo g = base + length bs" "seg_data g = []" "seg_fin g"
  shows "seg_map g \<subseteq>\<^sub>m stream_map base bs True"
  using assms by (auto simp: map_le_def seg_map_def stream_map_def dom_def payload_len_def)

section \<open>The wire\<close>

text \<open>The segment a packet carries, and a packet that a correct sender of the stream \<open>S\<close>
  with \<open>receive_next\<close> at most \<open>R\<close> may have sent from \<open>src\<close> to \<open>dst\<close>.\<close>

definition pkt_segment :: "bytes \<Rightarrow> segment" where
  "pkt_segment pkt =
     \<lparr>seg_seq = pkt_seq pkt, seg_data = drop STCP_HEADER_LEN pkt, seg_fin = (pkt_flags pkt AND TH_FIN \<noteq> 0)\<rparr>"

definition carries :: "(nat \<Rightarrow> cell option) \<Rightarrow> segment \<Rightarrow> bool" where
  "carries S g \<longleftrightarrow> seg_lo g < seg_hi g \<longrightarrow> seg_ok g \<and> seg_map g \<subseteq>\<^sub>m S"

definition genuine :: "u32 \<Rightarrow> u32 \<Rightarrow> (nat \<Rightarrow> cell option) \<Rightarrow> nat \<Rightarrow> bytes \<Rightarrow> bool" where
  "genuine src dst S R pkt \<longleftrightarrow>
     STCP_HEADER_LEN \<le> length pkt \<and> length pkt \<le> STCP_HEADER_LEN + STCP_MSS \<and>
     mysock_verify_checksum src dst pkt = Inr True \<and> pkt_off pkt = 5 \<and>
     unat (pkt_ack pkt) \<le> R \<and> carries S (pkt_segment pkt)"

definition wire_ok :: "network_context \<Rightarrow> (nat \<Rightarrow> cell option) \<Rightarrow> nat \<Rightarrow> bool" where
  "wire_ok net S R \<longleftrightarrow>
     (\<forall>pkt \<in> set (wire_out net). genuine (local_ip net) (sin_addr (peer_addr net)) S R pkt) \<and>
     (copied net \<longrightarrow> genuine (local_ip net) (sin_addr (peer_addr net)) S R (copy_buffer net))"

lemma carries_mono: "carries S g \<Longrightarrow> S \<subseteq>\<^sub>m S' \<Longrightarrow> carries S' g"
  by (auto simp: carries_def intro: map_le_trans)

lemma genuine_mono: "genuine src dst S R pkt \<Longrightarrow> S \<subseteq>\<^sub>m S' \<Longrightarrow> R \<le> R' \<Longrightarrow> genuine src dst S' R' pkt"
  by (auto simp: genuine_def intro: carries_mono)

lemma wire_ok_mono: "wire_ok net S R \<Longrightarrow> S \<subseteq>\<^sub>m S' \<Longrightarrow> R \<le> R' \<Longrightarrow> wire_ok net S' R'"
  by (auto simp: wire_ok_def intro: genuine_mono)

text \<open>What a call that only sends does to the mysocket.\<close>

definition sent_by :: "mysock_context \<Rightarrow> mysock_context \<Rightarrow> bool" where
  "sent_by sd sd' \<longleftrightarrow>
     sd' = sd\<lparr>network_state := network_state sd'\<rparr> \<and> same_addrs (network_state sd) (network_state sd')"

lemma same_addrs_fields:
  assumes "same_addrs net net'"
  shows "local_ip net' = local_ip net" "peer_addr net' = peer_addr net"
proof -
  obtain rc wo cp cb where n: "net' = net\<lparr>rand_calls := rc, wire_out := wo, copied := cp, copy_buffer := cb\<rparr>"
    using assms unfolding same_addrs_def by blast
  show "local_ip net' = local_ip net" "peer_addr net' = peer_addr net" by (simp_all add: n)
qed

lemma same_addrs_trans:
  assumes "same_addrs a b" "same_addrs b c"
  shows "same_addrs a c"
proof -
  obtain r w p q where b: "b = a\<lparr>rand_calls := r, wire_out := w, copied := p, copy_buffer := q\<rparr>"
    using assms(1) unfolding same_addrs_def by blast
  obtain r' w' p' q' where c: "c = b\<lparr>rand_calls := r', wire_out := w', copied := p', copy_buffer := q'\<rparr>"
    using assms(2) unfolding same_addrs_def by blast
  show ?thesis unfolding same_addrs_def c b by simp
qed

lemma sent_by_refl [simp]: "sent_by sd sd"
  by (simp add: sent_by_def)

lemma sent_by_net: "same_addrs (network_state sd) net' \<Longrightarrow> sent_by sd (sd\<lparr>network_state := net'\<rparr>)"
  by (simp add: sent_by_def)

lemma sent_by_fields:
  assumes "sent_by sd sd'"
  shows "app_recv_queue sd' = app_recv_queue sd" "app_send_queue sd' = app_send_queue sd"
    "network_recv_queue sd' = network_recv_queue sd" "clock sd' = clock sd"
    "close_requested sd' = close_requested sd" "thread_errno sd' = thread_errno sd"
    "sock_ok sd' = sock_ok sd" "local_ip (network_state sd') = local_ip (network_state sd)"
    "peer_addr (network_state sd') = peer_addr (network_state sd)"
proof -
  obtain net where n: "sd' = sd\<lparr>network_state := net\<rparr>" "same_addrs (network_state sd) net"
    using assms unfolding sent_by_def by metis
  note a = same_addrs_fields [OF n(2)]
  show "app_recv_queue sd' = app_recv_queue sd" "app_send_queue sd' = app_send_queue sd"
    "network_recv_queue sd' = network_recv_queue sd" "clock sd' = clock sd"
    "close_requested sd' = close_requested sd" "thread_errno sd' = thread_errno sd"
    "sock_ok sd' = sock_ok sd" "local_ip (network_state sd') = local_ip (network_state sd)"
    "peer_addr (network_state sd') = peer_addr (network_state sd)"
    using a by (simp_all add: n(1) sock_ok_def)
qed

lemma sent_by_trans:
  assumes "sent_by a b" "sent_by b c"
  shows "sent_by a c"
proof -
  obtain n where b: "b = a\<lparr>network_state := n\<rparr>" "same_addrs (network_state a) n"
    using assms(1) unfolding sent_by_def by metis
  obtain m where c: "c = b\<lparr>network_state := m\<rparr>" "same_addrs (network_state b) m"
    using assms(2) unfolding sent_by_def by metis
  show ?thesis
    using same_addrs_trans [OF b(2)] c b by (simp add: sent_by_def)
qed

lemma network_send_wire:
  assumes "genuine (local_ip net) (sin_addr (peer_addr net)) S R pkt" "wire_ok net S R"
    "network_send net pkt = Inr net'"
  shows "wire_ok net' S R"
  using assms by (auto simp: network_send_def network_send_packet_def wire_ok_def Let_def
      rbind_eq_Inr_iff split: if_splits)

text \<open>Sending a genuine segment succeeds and keeps the wire invariant.\<close>

lemma stcp_send_genuine:
  assumes "sock_ok sd" "wire_ok (network_state sd) S R" "length p \<le> STCP_MSS"
    "unat ack \<le> R" "carries S \<lparr>seg_seq = sq, seg_data = p, seg_fin = (fl AND TH_FIN \<noteq> 0)\<rparr>"
  shows "\<exists>sd'. stcp_network_send sd (build_header sq ack fl) p = Inr sd' \<and> sent_by sd sd' \<and>
    wire_ok (network_state sd') S R"
proof -
  let ?h = "build_header sq ack fl"
  have "length p \<le> MAX_IP_PAYLOAD_LEN - STCP_HEADER_LEN"
    using assms(3) by (simp add: STCP_MSS_def MAX_IP_PAYLOAD_LEN_def STCP_HEADER_LEN_def)
  then obtain sd' where send: "stcp_network_send sd ?h p = Inr sd'"
    using stcp_network_send_total [OF assms(1)] by blast
  then obtain packet net' where packet: "stcp_packet sd (hdr_bytes ?h) p = Inr packet"
    and net': "network_send (network_state sd) packet = Inr net'" "sd' = sd\<lparr>network_state := net'\<rparr>"
    by (auto simp: stcp_network_send_def rbind_eq_Inr_iff)
  note f = stcp_packet_fields [OF packet]
  have "genuine (local_ip (network_state sd)) (sin_addr (peer_addr (network_state sd))) S R packet"
    unfolding genuine_def pkt_segment_def
    using f assms(3,4,5) stcp_packet_verifies [OF packet] by (simp add: build_header_def STCP_HEADER_LEN_def)
  from network_send_wire [OF this assms(2) net'(1)] network_send_same [OF net'(1)] send net'(2)
  show ?thesis by (auto intro: sent_by_net)
qed

lemma send_control_genuine:
  assumes "sock_ok sd" "wire_ok (network_state sd) S (unat (receive_next ctx))" "fl AND TH_FIN = 0"
  shows "\<exists>sd'. send_control sd ctx fl = Inr sd' \<and> sent_by sd sd' \<and>
    wire_ok (network_state sd') S (unat (receive_next ctx))"
  unfolding send_control_def
  using assms by (intro stcp_send_genuine) (auto simp: carries_def seg_hi_def payload_len_def)

section \<open>The sender\<close>

fun chained :: "nat \<Rightarrow> segment list \<Rightarrow> nat \<Rightarrow> bool" where
  "chained lo [] hi \<longleftrightarrow> lo = hi"
| "chained lo (g # gs) hi \<longleftrightarrow> seg_lo g = lo \<and> seg_ok g \<and> chained (seg_hi g) gs hi"

definition buf_lo :: "segment list \<Rightarrow> nat \<Rightarrow> nat" where
  "buf_lo buf hi = (case buf of [] \<Rightarrow> hi | g # _ \<Rightarrow> seg_lo g)"

definition fin_in_flight :: "context_t \<Rightarrow> bool" where
  "fin_in_flight ctx \<longleftrightarrow> is_FIN_SENT ctx \<and> \<not> is_APP_CLOSE_QUEUED ctx"

text \<open>\<open>base\<close> is the position of the first byte of the stream, \<open>W\<close> all the application has
  written, \<open>Q\<close> how far the peer has received.\<close>

definition MAX_STREAM :: nat where "MAX_STREAM = 2 ^ 32 - 4096"

definition sent_part :: "nat \<Rightarrow> bytes \<Rightarrow> packet_queue \<Rightarrow> context_t \<Rightarrow> bool" where
  "sent_part base W q ctx \<longleftrightarrow>
     W = take (unat (next_seq_num ctx) - of_bool (fin_in_flight ctx) - base) W @ concat q \<and>
     unat (next_seq_num ctx) + length (concat q) = base + length W + of_bool (fin_in_flight ctx) \<and>
     (is_FIN_SENT ctx \<longrightarrow> q = []) \<and> base + length W < MAX_STREAM"

definition window_ok :: "nat \<Rightarrow> nat \<Rightarrow> context_t \<Rightarrow> bool" where
  "window_ok base Q ctx \<longleftrightarrow>
     base \<le> unat (send_base ctx) \<and> send_base ctx \<le> next_seq_num ctx \<and>
     unat (next_seq_num ctx) \<le> unat (send_base ctx) + 3072 \<and> unat (send_base ctx) \<le> Q \<and>
     0 \<le> retransmission_count ctx \<and> retransmission_count ctx \<le> 5"

text \<open>A queued FIN waits for an acknowledgement that opens the window.\<close>

definition queued_ok :: "context_t \<Rightarrow> bool" where
  "queued_ok ctx \<longleftrightarrow> (is_APP_CLOSE_QUEUED ctx \<longrightarrow> is_FIN_SENT ctx \<and> send_base ctx < next_seq_num ctx)"

definition send_buffer_ok :: "nat \<Rightarrow> bytes \<Rightarrow> context_t \<Rightarrow> bool" where
  "send_buffer_ok base W ctx \<longleftrightarrow>
     (let hi = unat (next_seq_num ctx); buf = send_buffer ctx
      in chained (buf_lo buf hi) buf hi \<and> buf_lo buf hi \<le> unat (send_base ctx) \<and>
         (buf \<noteq> [] \<longrightarrow> unat (send_base ctx) < seg_hi (hd buf)) \<and>
         (\<forall>g \<in> set buf. seg_map g \<subseteq>\<^sub>m stream_map base W (is_FIN_SENT ctx)))"

definition snd_ok :: "nat \<Rightarrow> bytes \<Rightarrow> nat \<Rightarrow> packet_queue \<Rightarrow> context_t \<Rightarrow> bool" where
  "snd_ok base W Q q ctx \<longleftrightarrow> sent_part base W q ctx \<and> window_ok base Q ctx \<and> send_buffer_ok base W ctx \<and>
     queued_ok ctx"

section \<open>The receiver\<close>

text \<open>\<open>D\<close> is all that was delivered to the application's queue.\<close>

definition rcv_ok :: "nat \<Rightarrow> (nat \<Rightarrow> cell option) \<Rightarrow> bytes \<Rightarrow> context_t \<Rightarrow> bool" where
  "rcv_ok pbase P D ctx \<longleftrightarrow>
     unat (receive_next ctx) = pbase + length D + of_bool (is_FIN_RECEIVED ctx) \<and>
     stream_map pbase D (is_FIN_RECEIVED ctx) \<subseteq>\<^sub>m P \<and>
     buf_ok (receive_buffer ctx) \<and> buf_map (receive_buffer ctx) \<subseteq>\<^sub>m P \<and>
     (\<forall>g \<in> set (receive_buffer ctx). unat (receive_next ctx) < seg_lo g)"

section \<open>Flags and state\<close>

definition fin_acked :: "context_t \<Rightarrow> bool" where
  "fin_acked ctx \<longleftrightarrow> is_FIN_SENT ctx \<and> send_base ctx = next_seq_num ctx"

definition aborted :: "mysock_context \<Rightarrow> context_t \<Rightarrow> bool" where
  "aborted sd ctx \<longleftrightarrow>
     connection_state ctx = CSTATE_CLOSED \<and> retransmission_count ctx = 5 \<and> thread_errno sd = ECONNABORTED"

fun flags_of :: "stcp_state \<Rightarrow> bool \<times> bool \<times> bool" where
  "flags_of CSTATE_ESTABLISHED = (False, False, False)"
| "flags_of CSTATE_FIN_WAIT_1 = (True, False, False)"
| "flags_of CSTATE_FIN_WAIT_2 = (True, True, False)"
| "flags_of CSTATE_CLOSING = (True, False, True)"
| "flags_of CSTATE_CLOSE_WAIT = (False, False, True)"
| "flags_of CSTATE_LAST_ACK = (True, False, True)"
| "flags_of CSTATE_CLOSED = (True, True, True)"

definition flags_ok :: "context_t \<Rightarrow> bool" where
  "flags_ok ctx \<longleftrightarrow>
     flags_of (connection_state ctx) = (is_FIN_SENT ctx, fin_acked ctx, is_FIN_RECEIVED ctx)"

definition state_ok :: "mysock_context \<Rightarrow> context_t \<Rightarrow> bool" where
  "state_ok sd ctx \<longleftrightarrow> aborted sd ctx \<or> flags_ok ctx"

section \<open>An endpoint\<close>

text \<open>\<open>V\<close> and \<open>fv\<close> are what the peer's application has written and whether it has
  closed, \<open>Rd\<close> what the application here has read.\<close>

definition ep_ok ::
  "nat \<Rightarrow> bytes \<Rightarrow> nat \<Rightarrow> nat \<Rightarrow> bytes \<Rightarrow> bool \<Rightarrow> bytes \<Rightarrow> conn \<Rightarrow> bool" where
  "ep_ok base W Q pbase V fv Rd c \<longleftrightarrow>
     (case c of (sd, ctx) \<Rightarrow> let P = stream_map pbase V fv in
        sock_ok sd \<and> snd_ok base W Q (app_recv_queue sd) ctx \<and>
        rcv_ok pbase P (Rd @ concat (app_send_queue sd)) ctx \<and>
        wire_ok (network_state sd) (stream_map base W (is_FIN_SENT ctx)) (unat (receive_next ctx)) \<and>
        (\<forall>pkt \<in> set (network_recv_queue sd).
           genuine (sin_addr (peer_addr (network_state sd))) (local_ip (network_state sd)) P Q pkt) \<and>
        pbase + length V < MAX_STREAM \<and> state_ok sd ctx)"

end
