(* ===== verification/Stcp_Sender.thy ===== *)
theory Stcp_Sender
  imports Stcp_Invariant
begin

text \<open>
  The sending half of the transport: the handlers for application data, close requests,
  acknowledgements and timeouts never fail in a state that satisfies the invariant, and
  keep the sender's invariant, the wire invariant and the flags in step.
\<close>

section \<open>Arithmetic\<close>

lemma sint_small: "unat (w :: u32) < 2 ^ 31 \<Longrightarrow> sint w = int (unat w)"
proof -
  assume "unat w < 2 ^ 31"
  then have "int (unat w) < int (2 ^ 31)" by (simp only: of_nat_less_iff)
  then have "uint w < 2 ^ 31" by simp
  then have "signed_take_bit 31 (uint w) = uint w"
    using uint_ge_0 [of w] by (intro signed_take_bit_int_eq_self) linarith+
  then show ?thesis by (simp add: sint_uint)
qed

lemma unat_add_small: "unat (a :: u32) + n < 2 ^ 32 \<Longrightarrow> unat (a + of_nat n) = unat a + n"
  by (simp add: unat_word_ariths unat_of_nat take_bit_eq_mod)

lemma window_bounds:
  assumes "sent_part base W q ctx" "window_ok base Q ctx"
  shows "unat (next_seq_num ctx) \<le> MAX_STREAM" "unat (send_base ctx) \<le> unat (next_seq_num ctx)"
    "unat (send_base ctx) + 3072 < 2 ^ 32"
  using assms by (cases "fin_in_flight ctx"; simp add: sent_part_def window_ok_def word_le_nat_alt MAX_STREAM_def)+

lemma win_remain_eq:
  assumes "sent_part base W q ctx" "window_ok base Q ctx"
  shows "win_remain ctx = 3072 - int (unat (next_seq_num ctx) - unat (send_base ctx))"
proof -
  note b = window_bounds [OF assms]
  have n: "unat (next_seq_num ctx) \<le> unat (send_base ctx) + 3072"
    using assms(2) by (simp add: window_ok_def)
  have s: "unat (send_base ctx + DEFAULT_WIN_SIZE) = unat (send_base ctx) + 3072"
    using unat_add_small [of "send_base ctx" 3072] b by (simp add: DEFAULT_WIN_SIZE_def)
  have "unat (send_base ctx + DEFAULT_WIN_SIZE - next_seq_num ctx)
      = unat (send_base ctx) + 3072 - unat (next_seq_num ctx)"
    using n s by (subst unat_sub) (simp_all add: word_le_nat_alt)
  with b n show ?thesis by (simp add: win_remain_def sint_small)
qed

section \<open>The send buffer\<close>

lemma chained_append: "chained lo (xs @ ys) hi \<longleftrightarrow> (\<exists>m. chained lo xs m \<and> chained m ys hi)"
  by (induction xs arbitrary: lo) auto

lemma chained_le: "chained lo xs hi \<Longrightarrow> lo \<le> hi \<and> (\<forall>g \<in> set xs. lo \<le> seg_lo g \<and> seg_hi g \<le> hi \<and> seg_ok g)"
proof (induction xs arbitrary: lo)
  case Nil
  then show ?case by simp
next
  case (Cons g gs)
  then have "seg_lo g < seg_hi g" "seg_lo g = lo" by (simp_all add: seg_ok_def)
  with Cons show ?case by fastforce
qed

lemma seg_hi_u64:
  "seg_ok g \<Longrightarrow>
     unat ((ucast (seg_seq g) :: u64) + of_nat (payload_len g) + of_bool (seg_fin g)) = seg_hi g"
  by (cases "seg_fin g")
    (simp_all add: seg_ok_def seg_hi_def seg_lo_def unat_word_ariths unat_of_nat take_bit_eq_mod)

lemma dequeue_chained:
  assumes "chained lo buf hi" "lo \<le> unat ack" "unat ack \<le> hi"
  shows "let buf' = dequeue_send_buffer buf ack
    in chained (buf_lo buf' hi) buf' hi \<and> buf_lo buf' hi \<le> unat ack \<and>
       (buf' \<noteq> [] \<longrightarrow> unat ack < seg_hi (hd buf')) \<and> set buf' \<subseteq> set buf"
  using assms
proof (induction buf ack arbitrary: lo rule: dequeue_send_buffer.induct)
  case (1 ack)
  then show ?case by (simp add: buf_lo_def)
next
  case (2 node rest ack)
  then have ok: "seg_ok node" "seg_lo node = lo" "chained (seg_hi node) rest hi" by simp_all
  let ?w = "(ucast (seg_seq node) :: u64) + of_nat (payload_len node) + of_bool (seg_fin node)"
  have cmp: "?w \<le> ucast ack \<longleftrightarrow> seg_hi node \<le> unat ack"
    using seg_hi_u64 [OF ok(1)] by (simp add: word_le_nat_alt)
  show ?case
  proof (cases "seg_hi node \<le> unat ack")
    case True
    from "2.IH" [of "seg_hi node"] cmp ok True "2.prems"(3) show ?thesis
      by (auto simp: Let_def)
  next
    case False
    with cmp ok "2.prems" show ?thesis by (simp add: Let_def buf_lo_def)
  qed
qed

lemma chained_snoc:
  assumes "chained lo buf (seg_lo g)" "seg_ok g"
  shows "chained lo (buf @ [g]) (seg_hi g)"
  using assms by (auto simp: chained_append)

section \<open>Frames\<close>

text \<open>The fields of the timer and the estimator play no part in the invariants.\<close>

definition untimed :: "context_t \<Rightarrow> context_t" where
  "untimed ctx = ctx\<lparr>last_sent_time := Timespec 0 0, timeout := Timespec 0 0, rto := 0, est_rtt := 0, dev_rtt := 0\<rparr>"

lemma untimed_log_time [simp]: "untimed (log_time_and_calculate_timeout now ctx) = untimed ctx"
  by (simp add: untimed_def log_time_and_calculate_timeout_def Let_def)

lemma untimed_update_rto [simp]: "untimed (update_rto now ctx b) = untimed ctx"
  unfolding untimed_def by (subst update_rto_frame) simp

lemma untimed_eq_fields:
  assumes "untimed a = untimed b"
  shows "connection_state a = connection_state b" "is_APP_CLOSE_QUEUED a = is_APP_CLOSE_QUEUED b"
    "is_FIN_SENT a = is_FIN_SENT b" "is_FIN_RECEIVED a = is_FIN_RECEIVED b"
    "next_seq_num a = next_seq_num b" "send_base a = send_base b" "send_buffer a = send_buffer b"
    "receive_next a = receive_next b" "receive_buffer a = receive_buffer b"
    "retransmission_count a = retransmission_count b"
proof -
  have *: "connection_state c = connection_state (untimed c)" "is_APP_CLOSE_QUEUED c = is_APP_CLOSE_QUEUED (untimed c)"
    "is_FIN_SENT c = is_FIN_SENT (untimed c)" "is_FIN_RECEIVED c = is_FIN_RECEIVED (untimed c)"
    "next_seq_num c = next_seq_num (untimed c)" "send_base c = send_base (untimed c)"
    "send_buffer c = send_buffer (untimed c)"
    "receive_next c = receive_next (untimed c)" "receive_buffer c = receive_buffer (untimed c)"
    "retransmission_count c = retransmission_count (untimed c)" for c
    by (simp_all add: untimed_def)
  show "connection_state a = connection_state b" "is_APP_CLOSE_QUEUED a = is_APP_CLOSE_QUEUED b"
    "is_FIN_SENT a = is_FIN_SENT b" "is_FIN_RECEIVED a = is_FIN_RECEIVED b"
    "next_seq_num a = next_seq_num b" "send_base a = send_base b" "send_buffer a = send_buffer b"
    "receive_next a = receive_next b" "receive_buffer a = receive_buffer b"
    "retransmission_count a = retransmission_count b"
    using * [of a] * [of b] assms by simp_all
qed

lemma untimed_cong:
  assumes "untimed a = untimed b"
  shows "snd_ok base W Q q a = snd_ok base W Q q b" "rcv_ok pbase P D a = rcv_ok pbase P D b"
    "flags_ok a = flags_ok b" "state_ok sd a = state_ok sd b" "aborted sd a = aborted sd b" "fin_acked a = fin_acked b"
    "win_remain a = win_remain b"
  using untimed_eq_fields [OF assms]
  by (simp_all add: snd_ok_def sent_part_def window_ok_def send_buffer_ok_def queued_ok_def fin_in_flight_def
      rcv_ok_def flags_ok_def state_ok_def aborted_def fin_acked_def win_remain_def)

lemma snd_ok_state [simp]:
  "snd_ok base W Q q (ctx\<lparr>connection_state := st\<rparr>) = snd_ok base W Q q ctx"
  by (simp add: snd_ok_def sent_part_def window_ok_def send_buffer_ok_def queued_ok_def fin_in_flight_def)

section \<open>Growing and shrinking the window\<close>

lemma snd_add_data:
  assumes snd: "snd_ok base W Q q ctx" and nofin: "\<not> is_FIN_SENT ctx"
    and p: "concat q = p @ concat q'" "p \<noteq> []" "length p \<le> STCP_MSS" "int (length p) \<le> win_remain ctx"
    and g: "g = \<lparr>seg_seq = next_seq_num ctx, seg_data = p, seg_fin = False\<rparr>"
    and new: "send_buffer ctx' = send_buffer ctx @ [g]"
      "next_seq_num ctx' = next_seq_num ctx + of_nat (length p)" "send_base ctx' = send_base ctx"
      "is_FIN_SENT ctx' = is_FIN_SENT ctx" "is_APP_CLOSE_QUEUED ctx' = is_APP_CLOSE_QUEUED ctx"
      "retransmission_count ctx' = retransmission_count ctx"
  shows "snd_ok base W Q q' ctx'" "seg_ok g" "seg_map g \<subseteq>\<^sub>m stream_map base W fin"
proof -
  let ?n = "unat (next_seq_num ctx)" and ?s = "unat (send_base ctx)"
  from snd have parts: "sent_part base W q ctx" "window_ok base Q ctx" "send_buffer_ok base W ctx" "queued_ok ctx"
    by (simp_all add: snd_ok_def)
  have noq: "\<not> is_APP_CLOSE_QUEUED ctx" using parts(4) nofin by (simp add: queued_ok_def)
  have nof: "\<not> fin_in_flight ctx" "\<not> fin_in_flight ctx'"
    using nofin new by (simp_all add: fin_in_flight_def)
  have W: "W = take (?n - base) W @ p @ concat q'" "?n + length p + length (concat q') = base + length W"
    "base + length W < MAX_STREAM"
    using parts(1) nof(1) p(1) by (simp_all add: sent_part_def)
  have base: "base \<le> ?n" "?s \<le> ?n" "base \<le> ?s"
    using parts(2) by (simp_all add: window_ok_def word_le_nat_alt)
  have "?n + length p < 2 ^ 32" using W by (simp add: MAX_STREAM_def)
  then have n': "unat (next_seq_num ctx') = ?n + length p"
    using unat_add_small new(2) by simp
  have data: "p = take (length p) (drop (?n - base) W)"
    by (subst W(1)) (use W(2) base in simp)
  show ok: "seg_ok g"
    using p W by (simp add: g seg_ok_def seg_lo_def seg_hi_def payload_len_def MAX_STREAM_def)
  show sub: "seg_map g \<subseteq>\<^sub>m stream_map base W fin" for fin
    by (rule seg_map_stream_data [where k = "?n - base" and n = "length p"])
      (use base data in \<open>simp_all add: g seg_lo_def\<close>)
  have lo: "seg_lo g = ?n" "seg_hi g = ?n + length p"
    by (simp_all add: g seg_lo_def seg_hi_def payload_len_def)
  have buf: "chained (buf_lo (send_buffer ctx) ?n) (send_buffer ctx) ?n"
    "buf_lo (send_buffer ctx) ?n \<le> ?s" "send_buffer ctx \<noteq> [] \<longrightarrow> ?s < seg_hi (hd (send_buffer ctx))"
    "\<forall>g \<in> set (send_buffer ctx). seg_map g \<subseteq>\<^sub>m stream_map base W (is_FIN_SENT ctx)"
    using parts(3) by (simp_all add: send_buffer_ok_def Let_def)
  have same_lo: "buf_lo (send_buffer ctx @ [g]) (?n + length p) = buf_lo (send_buffer ctx) ?n"
    by (simp add: buf_lo_def lo split: list.split)
  have "take (?n - base) W @ p = take (?n + length p - base) W"
    using data base by (metis Nat.add_diff_assoc2 take_add)
  then have "W = take (?n + length p - base) W @ concat q'" using W(1) by (metis append_assoc)
  then have "sent_part base W q' ctx'"
    using W(2,3) nof nofin new(4) n' by (simp add: sent_part_def)
  moreover have fits: "?n + length p \<le> ?s + 3072"
    using win_remain_eq [OF parts(1,2)] p(4) base(2) by linarith
  then have "window_ok base Q ctx'"
    using parts(2) new(3-6) n' base(2)
    by (simp add: window_ok_def word_le_nat_alt)
  moreover have "send_buffer_ok base W ctx'"
    unfolding send_buffer_ok_def Let_def new(1,3,4) n' same_lo
    using buf chained_snoc [of _ "send_buffer ctx" g] lo ok sub p(2) base(2)
    by (cases "send_buffer ctx") (auto simp: buf_lo_def)
  moreover have "queued_ok ctx'" using new noq by (simp add: queued_ok_def)
  ultimately show "snd_ok base W Q q' ctx'" by (simp add: snd_ok_def)
qed

text \<open>Either the FIN was not yet asked for, or it was queued.\<close>

lemma snd_add_fin:
  assumes parts: "sent_part base W [] ctx" "window_ok base Q ctx" "send_buffer_ok base W ctx"
    and nof: "\<not> fin_in_flight ctx" and room: "0 < win_remain ctx"
    and g: "g = \<lparr>seg_seq = next_seq_num ctx, seg_data = [], seg_fin = True\<rparr>"
    and new: "send_buffer ctx' = send_buffer ctx @ [g]"
      "next_seq_num ctx' = next_seq_num ctx + 1" "send_base ctx' = send_base ctx"
      "is_FIN_SENT ctx'" "\<not> is_APP_CLOSE_QUEUED ctx'"
      "retransmission_count ctx' = retransmission_count ctx"
  shows "snd_ok base W Q [] ctx'" "seg_ok g" "seg_map g \<subseteq>\<^sub>m stream_map base W True"
proof -
  let ?n = "unat (next_seq_num ctx)" and ?s = "unat (send_base ctx)"
  have nof': "fin_in_flight ctx'" using new by (simp add: fin_in_flight_def)
  have W: "?n = base + length W" "base + length W < MAX_STREAM"
    using parts(1) nof by (simp_all add: sent_part_def)
  have base: "?s \<le> ?n" "base \<le> ?s"
    using parts(2) by (simp_all add: window_ok_def word_le_nat_alt)
  have "?n + 1 < 2 ^ 32" using W by (simp add: MAX_STREAM_def)
  then have n': "unat (next_seq_num ctx') = ?n + 1"
    using unat_add_small [of "next_seq_num ctx" 1] new(2) by simp
  show ok: "seg_ok g"
    using W by (simp add: g seg_ok_def seg_lo_def seg_hi_def payload_len_def MAX_STREAM_def)
  show sub: "seg_map g \<subseteq>\<^sub>m stream_map base W True"
    by (rule seg_map_stream_fin) (use W in \<open>simp_all add: g seg_lo_def\<close>)
  have lo: "seg_lo g = ?n" "seg_hi g = ?n + 1"
    by (simp_all add: g seg_lo_def seg_hi_def payload_len_def)
  have buf: "chained (buf_lo (send_buffer ctx) ?n) (send_buffer ctx) ?n"
    "buf_lo (send_buffer ctx) ?n \<le> ?s" "send_buffer ctx \<noteq> [] \<longrightarrow> ?s < seg_hi (hd (send_buffer ctx))"
    "\<forall>h \<in> set (send_buffer ctx). seg_map h \<subseteq>\<^sub>m stream_map base W (is_FIN_SENT ctx)"
    using parts(3) by (simp_all add: send_buffer_ok_def Let_def)
  then have maps: "\<forall>h \<in> set (send_buffer ctx). seg_map h \<subseteq>\<^sub>m stream_map base W True"
    using stream_map_fin [of base W "is_FIN_SENT ctx" True] by (auto intro: map_le_trans)
  have same_lo: "buf_lo (send_buffer ctx @ [g]) (?n + 1) = buf_lo (send_buffer ctx) ?n"
    by (simp add: buf_lo_def lo split: list.split)
  have "sent_part base W [] ctx'"
    using W nof' n' by (simp add: sent_part_def)
  moreover have "?n < ?s + 3072"
    using win_remain_eq [OF parts(1,2)] room base by linarith
  then have "window_ok base Q ctx'"
    using parts(2) new n' base by (simp add: window_ok_def word_le_nat_alt)
  moreover have "send_buffer_ok base W ctx'"
    unfolding send_buffer_ok_def Let_def new(1,3) n' same_lo
    using buf(1-3) maps chained_snoc [of _ "send_buffer ctx" g] lo ok sub base new(4)
    by (cases "send_buffer ctx") (auto simp: buf_lo_def)
  moreover have "queued_ok ctx'" using new by (simp add: queued_ok_def)
  ultimately show "snd_ok base W Q [] ctx'" by (simp add: snd_ok_def)
qed

lemma snd_ack:
  assumes parts: "sent_part base W q ctx" "window_ok base Q ctx" "send_buffer_ok base W ctx"
    and ack: "send_base ctx < ack" "ack \<le> next_seq_num ctx" "unat ack \<le> Q"
    and new: "send_buffer ctx' = dequeue_send_buffer (send_buffer ctx) ack"
      "next_seq_num ctx' = next_seq_num ctx" "send_base ctx' = ack"
      "is_FIN_SENT ctx' = is_FIN_SENT ctx" "is_APP_CLOSE_QUEUED ctx' = is_APP_CLOSE_QUEUED ctx"
      "retransmission_count ctx' = 0"
  shows "sent_part base W q ctx' \<and> window_ok base Q ctx' \<and> send_buffer_ok base W ctx'"
proof -
  let ?n = "unat (next_seq_num ctx)" and ?b = "dequeue_send_buffer (send_buffer ctx) ack"
  have a: "unat (send_base ctx) < unat ack" "unat ack \<le> ?n"
    using ack by (simp_all add: word_less_nat_alt word_le_nat_alt)
  have buf: "chained (buf_lo (send_buffer ctx) ?n) (send_buffer ctx) ?n"
    "buf_lo (send_buffer ctx) ?n \<le> unat (send_base ctx)"
    "\<forall>h \<in> set (send_buffer ctx). seg_map h \<subseteq>\<^sub>m stream_map base W (is_FIN_SENT ctx)"
    using parts(3) by (simp_all add: send_buffer_ok_def Let_def)
  have deq: "chained (buf_lo ?b ?n) ?b ?n \<and> buf_lo ?b ?n \<le> unat ack \<and>
      (?b \<noteq> [] \<longrightarrow> unat ack < seg_hi (hd ?b)) \<and> set ?b \<subseteq> set (send_buffer ctx)"
    using dequeue_chained [OF buf(1) _ a(2)] a(1) buf(2) by (simp add: Let_def)
  have "send_buffer_ok base W ctx'"
    unfolding send_buffer_ok_def Let_def new using deq buf(3) by blast
  moreover have "fin_in_flight ctx' = fin_in_flight ctx" using new by (simp add: fin_in_flight_def)
  ultimately show ?thesis
    using parts(1,2) new ack(3) a by (simp add: sent_part_def window_ok_def word_le_nat_alt)
qed

section \<open>The handlers\<close>

lemma fin_bits [simp]:
  "TH_ACK AND TH_FIN = 0" "(TH_ACK OR TH_FIN) AND TH_FIN \<noteq> 0" "TH_FIN \<noteq> 0"
  by (simp_all add: TH_ACK_def TH_FIN_def)

lemma enqueue_send_buffer_eq:
  assumes "length p \<le> STCP_MSS"
  shows "enqueue_send_buffer buf sq p (of_nat (length p)) fin =
    Inr (buf @ [\<lparr>seg_seq = sq, seg_data = p, seg_fin = fin\<rparr>])"
proof -
  have "unat (of_nat (length p) :: u64) = length p"
    using assms by (simp add: STCP_MSS_def unat_of_nat take_bit_eq_mod)
  with assms show ?thesis by (simp add: enqueue_send_buffer_def new_segment_ok)
qed

lemma send_fin_ok:
  assumes sock: "sock_ok sd" "wire_ok (network_state sd) (stream_map base W True) (unat (receive_next ctx))"
    and parts: "sent_part base W [] ctx" "window_ok base Q ctx" "send_buffer_ok base W ctx"
      "\<not> fin_in_flight ctx" "0 < win_remain ctx"
    and g: "g = \<lparr>seg_seq = next_seq_num ctx, seg_data = [], seg_fin = True\<rparr>"
  obtains sd' ctx' where "send_fin (sd, ctx) = Inr (sd', ctx')" "sent_by sd sd'"
    "wire_ok (network_state sd') (stream_map base W True) (unat (receive_next ctx))"
    "untimed ctx' = untimed (ctx\<lparr>send_buffer := send_buffer ctx @ [g], next_seq_num := next_seq_num ctx + 1\<rparr>)"
proof -
  let ?ctx1 = "ctx\<lparr>send_buffer := send_buffer ctx @ [g], next_seq_num := next_seq_num ctx + 1,
    is_FIN_SENT := True, is_APP_CLOSE_QUEUED := False\<rparr>"
  have "seg_ok g" "seg_map g \<subseteq>\<^sub>m stream_map base W True"
    using snd_add_fin [OF parts g, of ?ctx1] by simp_all
  then have "carries (stream_map base W True) \<lparr>seg_seq = next_seq_num ctx, seg_data = [],
      seg_fin = ((TH_ACK OR TH_FIN) AND TH_FIN \<noteq> 0)\<rparr>"
    by (simp add: carries_def g)
  from stcp_send_genuine [OF sock, of "[]" "receive_next ctx" "next_seq_num ctx" "TH_ACK OR TH_FIN"] this
  obtain sd' where sd': "send_control sd ctx (TH_ACK OR TH_FIN) = Inr sd'" "sent_by sd sd'"
    "wire_ok (network_state sd') (stream_map base W True) (unat (receive_next ctx))"
    by (auto simp: send_control_def)
  have enq: "enqueue_send_buffer (send_buffer ctx) (next_seq_num ctx) [] 0 True = Inr (send_buffer ctx @ [g])"
    using enqueue_send_buffer_eq [of "[]" "send_buffer ctx" "next_seq_num ctx" True] by (simp add: g)
  define ctx' where "ctx' = (let ctx1 = ctx\<lparr>send_buffer := send_buffer ctx @ [g]\<rparr>;
      ctx2 = (if send_base ctx1 = next_seq_num ctx1
        then log_time_and_calculate_timeout (clock sd) ctx1 else ctx1)
    in ctx2\<lparr>next_seq_num := next_seq_num ctx2 + 1\<rparr>)"
  have "send_fin (sd, ctx) = Inr (sd', ctx')"
    by (simp add: send_fin_def sd' enq ctx'_def Let_def)
  moreover have "untimed ctx' =
      untimed (ctx\<lparr>send_buffer := send_buffer ctx @ [g], next_seq_num := next_seq_num ctx + 1\<rparr>)"
    unfolding ctx'_def Let_def by (simp add: untimed_def log_time_and_calculate_timeout_def Let_def)
  ultimately show thesis using that sd' by blast
qed

lemma flags_transitions:
  "flags_of st = (fs, False, fr) \<Longrightarrow>
     flags_of (if fs \<and> a then transition_state st EVENT_RECV_ACK else st) = (fs, fs \<and> a, fr)"
  "flags_of st = (False, False, fr) \<Longrightarrow> flags_of (transition_state st EVENT_SEND_FIN) = (True, False, fr)"
  "flags_of st = (fs, a, False) \<Longrightarrow> flags_of (transition_state st EVENT_RECV_FIN) = (fs, a, True)"
  by (cases st; auto)+

text \<open>What the sending handlers leave to the receiving half.\<close>

definition same_rcv :: "context_t \<Rightarrow> context_t \<Rightarrow> bool" where
  "same_rcv ctx ctx' \<longleftrightarrow>
     receive_next ctx' = receive_next ctx \<and> receive_buffer ctx' = receive_buffer ctx \<and>
     is_FIN_RECEIVED ctx' = is_FIN_RECEIVED ctx"

text \<open>The invariant of the sending half, with the mysocket it sends on.\<close>

definition sender_inv :: "nat \<Rightarrow> bytes \<Rightarrow> nat \<Rightarrow> packet_queue \<Rightarrow> conn \<Rightarrow> bool" where
  "sender_inv base W Q q c \<longleftrightarrow>
     (case c of (sd, ctx) \<Rightarrow>
        sock_ok sd \<and> snd_ok base W Q q ctx \<and> flags_ok ctx \<and>
        wire_ok (network_state sd) (stream_map base W (is_FIN_SENT ctx)) (unat (receive_next ctx)))"

text \<open>Processing the acknowledged part, before a queued FIN is sent.\<close>

lemma ack_no_queue:
  assumes "sender_inv base W Q q (sd, ctx)" "send_base ctx < ack" "ack \<le> next_seq_num ctx" "unat ack \<le> Q"
    and new: "send_buffer ctx' = dequeue_send_buffer (send_buffer ctx) ack"
      "next_seq_num ctx' = next_seq_num ctx" "send_base ctx' = ack"
      "is_FIN_SENT ctx' = is_FIN_SENT ctx" "is_APP_CLOSE_QUEUED ctx' = is_APP_CLOSE_QUEUED ctx"
      "retransmission_count ctx' = 0"
  shows "sent_part base W q ctx'" "window_ok base Q ctx'" "send_buffer_ok base W ctx'"
    "flags_of (connection_state ctx) = (is_FIN_SENT ctx, False, is_FIN_RECEIVED ctx)"
proof -
  have "sent_part base W q ctx" "window_ok base Q ctx" "send_buffer_ok base W ctx" "flags_ok ctx"
    using assms(1) by (simp_all add: sender_inv_def snd_ok_def)
  moreover have "send_base ctx \<noteq> next_seq_num ctx" using assms(2,3) by auto
  ultimately
  show "sent_part base W q ctx'" "window_ok base Q ctx'" "send_buffer_ok base W ctx'"
    "flags_of (connection_state ctx) = (is_FIN_SENT ctx, False, is_FIN_RECEIVED ctx)"
    using snd_ack [OF _ _ _ assms(2-4) new] by (simp_all add: flags_ok_def fin_acked_def)
qed

lemma handle_ack_ok:
  assumes inv: "sender_inv base W Q q (sd, ctx)" and Q: "unat ack \<le> Q"
  obtains sd' ctx' where "handle_ack_from_peer sd ctx ack = Inr (sd', ctx')" "sent_by sd sd'"
    "sender_inv base W Q q (sd', ctx')" "same_rcv ctx ctx'" "is_FIN_SENT ctx' = is_FIN_SENT ctx"
proof (cases "ack \<le> send_base ctx \<or> next_seq_num ctx < ack")
  case True
  then show thesis
    using that [of sd ctx] inv by (simp add: handle_ack_from_peer_def same_rcv_def)
next
  case False
  then have ack: "send_base ctx < ack" "ack \<le> next_seq_num ctx" by auto
  define ctx1 where "ctx1 = (if retransmission_count ctx = 0 then update_rto (clock sd) ctx False else ctx)"
  define ctx2 where "ctx2 = ctx1\<lparr>send_buffer := dequeue_send_buffer (send_buffer ctx1) ack, send_base := ack,
      retransmission_count := 0\<rparr>"
  define ctx3 where "ctx3 = (if send_base ctx2 \<noteq> next_seq_num ctx2
      then log_time_and_calculate_timeout (clock sd) ctx2 else ctx2)"
  define fin where "fin = (\<lambda>c :: context_t. if is_FIN_SENT c \<and> send_base c = next_seq_num c
      then c\<lparr>connection_state := transition_state (connection_state c) EVENT_RECV_ACK\<rparr> else c)"
  define queued where "queued = (if is_APP_CLOSE_QUEUED ctx3
      then rbind (c_assert (0 < win_remain ctx3)) (\<lambda>_.
           rbind (send_fin (sd, ctx3)) (\<lambda>(sd', ctx'). Inr (sd', ctx'\<lparr>is_APP_CLOSE_QUEUED := False\<rparr>)))
      else Inr (sd, ctx3))"
  have handler: "handle_ack_from_peer sd ctx ack = rbind queued (\<lambda>(sd', ctx4). Inr (sd', fin ctx4))"
    using ack by (simp add: handle_ack_from_peer_def Let_def ctx1_def ctx2_def ctx3_def queued_def fin_def
        linorder_not_le linorder_not_less [symmetric])
  have f1: "connection_state ctx1 = connection_state ctx" "is_APP_CLOSE_QUEUED ctx1 = is_APP_CLOSE_QUEUED ctx"
    "is_FIN_SENT ctx1 = is_FIN_SENT ctx" "is_FIN_RECEIVED ctx1 = is_FIN_RECEIVED ctx"
    "next_seq_num ctx1 = next_seq_num ctx" "send_buffer ctx1 = send_buffer ctx"
    "receive_next ctx1 = receive_next ctx" "receive_buffer ctx1 = receive_buffer ctx"
    by (simp_all add: ctx1_def)
  have f3: "connection_state ctx3 = connection_state ctx" "is_APP_CLOSE_QUEUED ctx3 = is_APP_CLOSE_QUEUED ctx"
    "is_FIN_SENT ctx3 = is_FIN_SENT ctx" "is_FIN_RECEIVED ctx3 = is_FIN_RECEIVED ctx"
    "next_seq_num ctx3 = next_seq_num ctx" "send_buffer ctx3 = dequeue_send_buffer (send_buffer ctx) ack"
    "send_base ctx3 = ack" "retransmission_count ctx3 = 0"
    "receive_next ctx3 = receive_next ctx" "receive_buffer ctx3 = receive_buffer ctx"
    by (simp_all add: ctx3_def ctx2_def f1)
  note parts = ack_no_queue [OF inv ack Q f3(6) f3(5) f3(7) f3(3) f3(2) f3(8)]
  have sock: "sock_ok sd" "wire_ok (network_state sd) (stream_map base W (is_FIN_SENT ctx)) (unat (receive_next ctx))"
    "queued_ok ctx" "sent_part base W q ctx"
    using inv by (simp_all add: sender_inv_def snd_ok_def)
  show thesis
  proof (cases "is_APP_CLOSE_QUEUED ctx")
    case False
    let ?c = "fin ctx3"
    have "flags_ok ?c"
      using flags_transitions(1) [OF parts(4), of "ack = next_seq_num ctx"] f3
      by (auto simp: flags_ok_def fin_def fin_acked_def split: if_splits)
    moreover have "snd_ok base W Q q ctx3"
      using parts(1-3) False f3(2) by (simp add: snd_ok_def queued_ok_def)
    then have "snd_ok base W Q q ?c" by (simp add: fin_def)
    moreover have c: "receive_next ?c = receive_next ctx" "receive_buffer ?c = receive_buffer ctx"
      "is_FIN_RECEIVED ?c = is_FIN_RECEIVED ctx" "is_FIN_SENT ?c = is_FIN_SENT ctx"
      by (simp_all add: fin_def f3)
    ultimately show thesis
      using that [of sd ?c] handler False f3(2) sock
      by (simp add: queued_def sender_inv_def same_rcv_def)
  next
    case True
    then have fs: "is_FIN_SENT ctx" "q = []" using sock by (simp_all add: queued_ok_def sent_part_def)
    have nof: "\<not> fin_in_flight ctx3" using True f3 by (simp add: fin_in_flight_def)
    have room: "0 < win_remain ctx3"
    proof -
      have "unat (next_seq_num ctx) \<le> unat (send_base ctx) + 3072"
        using inv by (simp add: sender_inv_def snd_ok_def window_ok_def)
      then have "unat (next_seq_num ctx) < unat ack + 3072" using ack(1) by (simp add: word_less_nat_alt)
      moreover have "win_remain ctx3 = 3072 - int (unat (next_seq_num ctx) - unat ack)"
        using win_remain_eq [OF parts(1,2)] by (simp only: f3)
      ultimately show ?thesis by linarith
    qed
    define g where "g = \<lparr>seg_seq = next_seq_num ctx3, seg_data = [], seg_fin = True\<rparr>"
    note p3 = parts(1) [unfolded fs(2)] parts(2,3) nof room
    obtain sd' ctx4 where send: "send_fin (sd, ctx3) = Inr (sd', ctx4)" "sent_by sd sd'"
      "wire_ok (network_state sd') (stream_map base W True) (unat (receive_next ctx3))"
      "untimed ctx4 = untimed (ctx3\<lparr>send_buffer := send_buffer ctx3 @ [g], next_seq_num := next_seq_num ctx3 + 1\<rparr>)"
      using send_fin_ok [OF sock(1) _ p3 g_def] sock(2) fs(1) f3 by auto
    let ?c = "ctx4\<lparr>is_APP_CLOSE_QUEUED := False\<rparr>"
    have c: "send_buffer ?c = send_buffer ctx3 @ [g]" "next_seq_num ?c = next_seq_num ctx3 + 1"
      "send_base ?c = send_base ctx3" "is_FIN_SENT ?c" "\<not> is_APP_CLOSE_QUEUED ?c"
      "retransmission_count ?c = retransmission_count ctx3"
      using untimed_eq_fields [OF send(4)] fs(1) f3 by simp_all
    note add = snd_add_fin [OF p3 g_def c]
    have "next_seq_num ctx3 < next_seq_num ctx3 + 1"
    proof -
      have "unat (next_seq_num ctx3) < 2 ^ 32 - 1"
        using window_bounds(1) [OF parts(1,2)] by (simp add: MAX_STREAM_def)
      then show ?thesis using unat_add_small [of "next_seq_num ctx3" 1] by (simp add: word_less_nat_alt)
    qed
    moreover have "ack \<le> next_seq_num ctx3" using ack(2) f3 by simp
    ultimately have ne: "send_base ?c \<noteq> next_seq_num ?c" using c f3 by auto
    have d: "connection_state ?c = connection_state ctx" "receive_next ?c = receive_next ctx"
      "receive_buffer ?c = receive_buffer ctx" "is_FIN_RECEIVED ?c = is_FIN_RECEIVED ctx"
      using untimed_eq_fields [OF send(4)] f3 by simp_all
    have "flags_ok ?c" using parts(4) fs(1) ne c(4) d by (simp add: flags_ok_def fin_acked_def)
    moreover have "fin ?c = ?c" using ne by (simp add: fin_def)
    moreover have "queued = Inr (sd', ?c)" using True f3(2) room send(1) by (simp add: queued_def)
    ultimately show thesis
      using that [of sd' ?c] handler add(1) send(2,3) sent_by_fields(7) [OF send(2)] sock(1) c(4) d f3 fs
      by (simp add: sender_inv_def same_rcv_def)
  qed
qed

text \<open>Application data.\<close>

lemma unat_of_int_small: "0 \<le> k \<Longrightarrow> k \<le> 4096 \<Longrightarrow> unat (of_int k :: u64) = nat k"
proof -
  assume "0 \<le> k" "k \<le> 4096"
  then obtain n where "k = int n" "n \<le> 4096" using zero_le_imp_eq_int by force
  then show ?thesis by (simp add: unat_of_nat take_bit_eq_mod)
qed

lemma stcp_app_recv_cases:
  assumes "app_recv_queue sd \<noteq> []"
  obtains p q' where "stcp_app_recv sd n = Inr (p, sd\<lparr>app_recv_queue := q'\<rparr>)"
    "concat (app_recv_queue sd) = p @ concat q'" "length p \<le> n"
proof (cases "app_recv_queue sd")
  case (Cons node rest)
  show thesis
  proof (cases "n < length node")
    case True
    with that [of "take n node" "drop n node # rest"] Cons show ?thesis
      by (simp add: stcp_app_recv_def append_assoc [symmetric])
  next
    case False
    with that [of node rest] Cons show ?thesis by (simp add: stcp_app_recv_def)
  qed
qed (use assms in simp)

lemma handle_app_data_ok:
  assumes inv: "sender_inv base W Q (app_recv_queue sd) (sd, ctx)" and q: "app_recv_queue sd \<noteq> []"
  obtains sd' ctx' q' where "handle_app_data sd ctx = Inr (sd', ctx')"
    "sent_by (sd\<lparr>app_recv_queue := q'\<rparr>) sd'" "sender_inv base W Q q' (sd', ctx')" "same_rcv ctx ctx'"
    "is_FIN_SENT ctx' = is_FIN_SENT ctx"
proof -
  have snd: "snd_ok base W Q (app_recv_queue sd) ctx" and sock: "sock_ok sd" and fl: "flags_ok ctx"
    and wire: "wire_ok (network_state sd) (stream_map base W (is_FIN_SENT ctx)) (unat (receive_next ctx))"
    using inv by (simp_all add: sender_inv_def)
  have parts: "sent_part base W (app_recv_queue sd) ctx" "window_ok base Q ctx"
    using snd by (simp_all add: snd_ok_def)
  define m where "m = (if win_remain ctx < int STCP_MSS then win_remain ctx else int STCP_MSS)"
  have w: "0 \<le> win_remain ctx"
    using win_remain_eq [OF parts] parts(2) unfolding window_ok_def by linarith
  then have m: "0 \<le> m" "m \<le> 536" "m \<le> win_remain ctx" by (auto simp: m_def STCP_MSS_def)
  then have um: "unat (of_int m :: u64) = nat m" by (intro unat_of_int_small) simp_all
  show thesis
  proof (cases "is_FIN_SENT ctx \<or> (of_int m :: u64) = 0")
    case True
    then have "handle_app_data sd ctx = Inr (sd, ctx)"
      by (auto simp: handle_app_data_def m_def Let_def)
    with that [of sd ctx "app_recv_queue sd"] inv show ?thesis by (simp add: same_rcv_def)
  next
    case False
    obtain p q' where rcv: "stcp_app_recv sd (nat m) = Inr (p, sd\<lparr>app_recv_queue := q'\<rparr>)"
      "concat (app_recv_queue sd) = p @ concat q'" "length p \<le> nat m"
      by (rule stcp_app_recv_cases [OF q])
    let ?sd1 = "sd\<lparr>app_recv_queue := q'\<rparr>"
    have plen: "length p \<le> STCP_MSS" "int (length p) \<le> win_remain ctx"
      using rcv(3) m by (simp_all add: STCP_MSS_def)
    have unfold1: "handle_app_data sd ctx =
      (if STCP_MSS < length p then Inl Out_Of_Bounds
       else if length p = 0 then Inr (?sd1, ctx)
       else rbind (stcp_network_send ?sd1
               (build_header (next_seq_num ctx) (receive_next ctx) TH_ACK) p) (\<lambda>sd2.
            rbind (enqueue_send_buffer (send_buffer ctx) (next_seq_num ctx) p (of_nat (length p)) False) (\<lambda>buf.
              let ctx1 = ctx\<lparr>send_buffer := buf\<rparr>;
                  ctx2 = (if send_base ctx1 = next_seq_num ctx1
                    then log_time_and_calculate_timeout (clock sd) ctx1 else ctx1)
              in Inr (sd2, ctx2\<lparr>next_seq_num := next_seq_num ctx2 + of_nat (length p)\<rparr>))))"
      unfolding handle_app_data_def Let_def m_def [symmetric] um using False rcv(1)
      by (simp only: de_Morgan_disj if_False simp_thms rbind_simps prod.case)
    show ?thesis
    proof (cases "p = []")
      case True
      have "snd_ok base W Q q' ctx"
        using snd rcv(2) True False by (simp add: snd_ok_def sent_part_def)
      then have "sender_inv base W Q q' (?sd1, ctx)"
        using sock fl wire by (simp add: sender_inv_def sock_ok_def)
      with that [of ?sd1 ctx q'] unfold1 True show ?thesis by (simp add: same_rcv_def)
    next
      case pne: False
      define g where "g = \<lparr>seg_seq = next_seq_num ctx, seg_data = p, seg_fin = False\<rparr>"
      define ctx' where "ctx' = (let ctx1 = ctx\<lparr>send_buffer := send_buffer ctx @ [g]\<rparr>;
          ctx2 = (if send_base ctx1 = next_seq_num ctx1
            then log_time_and_calculate_timeout (clock sd) ctx1 else ctx1)
        in ctx2\<lparr>next_seq_num := next_seq_num ctx2 + of_nat (length p)\<rparr>)"
      have f: "send_buffer ctx' = send_buffer ctx @ [g]"
        "next_seq_num ctx' = next_seq_num ctx + of_nat (length p)" "send_base ctx' = send_base ctx"
        "is_FIN_SENT ctx' = is_FIN_SENT ctx" "is_APP_CLOSE_QUEUED ctx' = is_APP_CLOSE_QUEUED ctx"
        "retransmission_count ctx' = retransmission_count ctx"
        "connection_state ctx' = connection_state ctx" "receive_next ctx' = receive_next ctx"
        "receive_buffer ctx' = receive_buffer ctx" "is_FIN_RECEIVED ctx' = is_FIN_RECEIVED ctx"
        by (simp_all add: ctx'_def Let_def)
      have nf: "\<not> is_FIN_SENT ctx" using False by simp
      note add = snd_add_data [OF snd nf rcv(2) pne plen g_def f(1-6)]
      have "carries (stream_map base W (is_FIN_SENT ctx))
          \<lparr>seg_seq = next_seq_num ctx, seg_data = p, seg_fin = (TH_ACK AND TH_FIN \<noteq> 0)\<rparr>"
        using add(2) add(3) [of "is_FIN_SENT ctx"] by (simp add: carries_def g_def)
      moreover have "sock_ok ?sd1" "wire_ok (network_state ?sd1) (stream_map base W (is_FIN_SENT ctx))
          (unat (receive_next ctx))"
        using sock wire by (simp_all add: sock_ok_def)
      ultimately obtain sd' where send:
        "stcp_network_send ?sd1 (build_header (next_seq_num ctx) (receive_next ctx) TH_ACK) p = Inr sd'"
        "sent_by ?sd1 sd'"
        "wire_ok (network_state sd') (stream_map base W (is_FIN_SENT ctx)) (unat (receive_next ctx))"
        using stcp_send_genuine [OF _ _ plen(1) order_refl] by blast
      have "handle_app_data sd ctx = Inr (sd', ctx')"
        using unfold1 send(1) pne plen(1)
        by (simp add: enqueue_send_buffer_eq g_def ctx'_def Let_def)
      moreover have "flags_ok ctx'" using fl f nf by (simp add: flags_ok_def fin_acked_def)
      ultimately show ?thesis
        using that [of sd' ctx' q'] send add(1) f \<open>sock_ok ?sd1\<close> sent_by_fields(7) [OF send(2)]
        by (simp add: sender_inv_def same_rcv_def)
    qed
  qed
qed

text \<open>The close request comes when the application's queue is empty.\<close>

lemma handle_app_close_ok:
  assumes inv: "sender_inv base W Q [] (sd, ctx)"
  obtains sd' ctx' where "handle_app_close sd ctx = Inr (sd', ctx')" "sent_by sd sd'"
    "sender_inv base W Q [] (sd', ctx')" "same_rcv ctx ctx'" "is_FIN_SENT ctx'"
proof (cases "is_FIN_SENT ctx")
  case True
  with that [of sd ctx] inv show thesis by (simp add: handle_app_close_def same_rcv_def)
next
  case nf: False
  have snd: "snd_ok base W Q [] ctx" and sock: "sock_ok sd" and fl: "flags_ok ctx"
    and wire: "wire_ok (network_state sd) (stream_map base W True) (unat (receive_next ctx))"
    using inv nf stream_map_fin [of base W False True] by (auto simp: sender_inv_def intro: wire_ok_mono)
  have parts: "sent_part base W [] ctx" "window_ok base Q ctx" "send_buffer_ok base W ctx"
    and noq: "\<not> is_APP_CLOSE_QUEUED ctx"
    using snd nf by (simp_all add: snd_ok_def queued_ok_def)
  have st: "flags_of (connection_state ctx) = (False, False, is_FIN_RECEIVED ctx)"
    using fl nf by (simp add: flags_ok_def fin_acked_def)
  have nof: "\<not> fin_in_flight ctx" using nf by (simp add: fin_in_flight_def)
  define close where "close = (\<lambda>c :: context_t. c\<lparr>is_FIN_SENT := True,
      connection_state := transition_state (connection_state c) EVENT_SEND_FIN\<rparr>)"
  show thesis
  proof (cases "0 < win_remain ctx")
    case True
    define g where "g = \<lparr>seg_seq = next_seq_num ctx, seg_data = [], seg_fin = True\<rparr>"
    obtain sd' ctx1 where send: "send_fin (sd, ctx) = Inr (sd', ctx1)" "sent_by sd sd'"
      "wire_ok (network_state sd') (stream_map base W True) (unat (receive_next ctx))"
      "untimed ctx1 = untimed (ctx\<lparr>send_buffer := send_buffer ctx @ [g], next_seq_num := next_seq_num ctx + 1\<rparr>)"
      using send_fin_ok [OF sock wire parts nof True g_def] by blast
    let ?c = "close ctx1"
    have f: "send_buffer ?c = send_buffer ctx @ [g]" "next_seq_num ?c = next_seq_num ctx + 1"
      "send_base ?c = send_base ctx" "is_FIN_SENT ?c" "\<not> is_APP_CLOSE_QUEUED ?c"
      "retransmission_count ?c = retransmission_count ctx"
      using untimed_eq_fields [OF send(4)] noq by (simp_all add: close_def)
    have d: "connection_state ?c = transition_state (connection_state ctx) EVENT_SEND_FIN"
      "receive_next ?c = receive_next ctx"
      "receive_buffer ?c = receive_buffer ctx" "is_FIN_RECEIVED ?c = is_FIN_RECEIVED ctx"
      using untimed_eq_fields [OF send(4)] by (simp_all add: close_def)
    note add = snd_add_fin [OF parts nof True g_def f]
    have "unat (next_seq_num ctx) < 2 ^ 32 - 1" "send_base ctx \<le> next_seq_num ctx"
      using window_bounds(1) [OF parts(1,2)] parts(2) by (simp_all add: MAX_STREAM_def window_ok_def)
    then have "send_base ctx < next_seq_num ctx + 1"
      using unat_add_small [of "next_seq_num ctx" 1] by (simp add: word_less_nat_alt word_le_nat_alt)
    then have "flags_ok ?c"
      using flags_transitions(2) [OF st] f d by (auto simp: flags_ok_def fin_acked_def)
    moreover have "handle_app_close sd ctx = Inr (sd', ?c)"
      using nf True send(1) by (simp add: handle_app_close_def close_def)
    ultimately show thesis
      using that [of sd' ?c] send(2,3) add(1) f d sock nf sent_by_fields(7) [OF send(2)]
      by (simp add: sender_inv_def same_rcv_def)
  next
    case False
    let ?c = "close (ctx\<lparr>is_APP_CLOSE_QUEUED := True\<rparr>)"
    have "unat (next_seq_num ctx) - unat (send_base ctx) \<ge> 3072"
      using False win_remain_eq [OF parts(1,2)] by linarith
    then have lt: "send_base ctx < next_seq_num ctx" by (simp add: word_less_nat_alt)
    have sub: "stream_map base W False \<subseteq>\<^sub>m stream_map base W True"
      using stream_map_fin [of base W False True] by simp
    have "snd_ok base W Q [] ?c"
      using parts lt nf noq map_le_trans [OF _ sub]
      by (auto simp: snd_ok_def sent_part_def window_ok_def send_buffer_ok_def queued_ok_def
          fin_in_flight_def close_def Let_def)
    moreover have "flags_ok ?c"
      using flags_transitions(2) [OF st] lt by (auto simp: flags_ok_def fin_acked_def close_def)
    moreover have "handle_app_close sd ctx = Inr (sd, ?c)"
      using nf False by (simp add: handle_app_close_def close_def)
    ultimately show thesis
      using that [of sd ?c] wire sock nf by (simp add: sender_inv_def same_rcv_def close_def)
  qed
qed

text \<open>Go-Back-N: every buffered segment is sent again.\<close>

lemma resend_ok:
  assumes "sock_ok sd" "wire_ok (network_state sd) S (unat rnext)"
    "\<forall>g \<in> set buf. seg_ok g \<and> seg_map g \<subseteq>\<^sub>m S"
  shows "\<exists>sd'. resend_send_buffer sd buf rnext = Inr sd' \<and> sent_by sd sd' \<and> wire_ok (network_state sd') S (unat rnext)"
  using assms
proof (induction sd buf rnext rule: resend_send_buffer.induct)
  case (1 sd rnext)
  then show ?case by simp
next
  case (2 sd g rest rnext)
  let ?fl = "TH_ACK OR (if seg_fin g then TH_FIN else 0)"
  have "(?fl AND TH_FIN \<noteq> 0) = seg_fin g" by (simp add: TH_ACK_def TH_FIN_def)
  then have eq: "\<lparr>seg_seq = seg_seq g, seg_data = seg_data g, seg_fin = (?fl AND TH_FIN \<noteq> 0)\<rparr> = g" by simp
  have "carries S g" and len: "length (seg_data g) \<le> STCP_MSS"
    using "2.prems"(3) by (simp_all add: carries_def seg_ok_def payload_len_def)
  then have "carries S \<lparr>seg_seq = seg_seq g, seg_data = seg_data g, seg_fin = (?fl AND TH_FIN \<noteq> 0)\<rparr>"
    unfolding eq by simp
  then obtain sd1 where send: "stcp_network_send sd (build_header (seg_seq g) rnext ?fl) (seg_data g) = Inr sd1"
    "sent_by sd sd1" "wire_ok (network_state sd1) S (unat rnext)"
    using stcp_send_genuine [OF "2.prems"(1,2) len order_refl] by blast
  moreover have "sock_ok sd1" using sent_by_fields(7) [OF send(2)] "2.prems"(1) by simp
  ultimately obtain sd' where "resend_send_buffer sd1 rest rnext = Inr sd'" "sent_by sd1 sd'"
    "wire_ok (network_state sd') S (unat rnext)"
    using "2.IH" [of sd1] "2.prems"(3) by auto
  with send show ?case by (auto intro: sent_by_trans)
qed

lemma handle_timeout_ok:
  assumes inv: "sender_inv base W Q q (sd, ctx)"
  obtains (abort) "handle_timeout sd ctx =
      Inr (sd\<lparr>thread_errno := ECONNABORTED\<rparr>, ctx\<lparr>connection_state := CSTATE_CLOSED\<rparr>)"
      "retransmission_count ctx = 5"
  | (resend) sd' ctx' where "handle_timeout sd ctx = Inr (sd', ctx')" "sent_by sd sd'"
    "sender_inv base W Q q (sd', ctx')" "same_rcv ctx ctx'" "is_FIN_SENT ctx' = is_FIN_SENT ctx"
proof (cases "retransmission_count ctx = 5")
  case True
  with abort show thesis by (simp add: handle_timeout_def)
next
  case False
  have snd: "snd_ok base W Q q ctx" and sock: "sock_ok sd" and fl: "flags_ok ctx"
    and wire: "wire_ok (network_state sd) (stream_map base W (is_FIN_SENT ctx)) (unat (receive_next ctx))"
    using inv by (simp_all add: sender_inv_def)
  then have "\<forall>g \<in> set (send_buffer ctx). seg_ok g \<and> seg_map g \<subseteq>\<^sub>m stream_map base W (is_FIN_SENT ctx)"
    using chained_le by (auto simp: snd_ok_def send_buffer_ok_def Let_def)
  then obtain sd' where send: "resend_send_buffer sd (send_buffer ctx) (receive_next ctx) = Inr sd'"
    "sent_by sd sd'" "wire_ok (network_state sd') (stream_map base W (is_FIN_SENT ctx)) (unat (receive_next ctx))"
    using resend_ok [OF sock wire] by blast
  let ?c1 = "log_time_and_calculate_timeout (clock sd) (update_rto (clock sd) ctx True)"
  let ?c = "?c1\<lparr>retransmission_count := retransmission_count ?c1 + 1\<rparr>"
  have "snd_ok base W Q q ?c"
    using snd False by (simp add: snd_ok_def sent_part_def window_ok_def send_buffer_ok_def queued_ok_def
        fin_in_flight_def)
  moreover have "flags_ok ?c" using fl by (simp add: flags_ok_def fin_acked_def)
  moreover have "handle_timeout sd ctx = Inr (sd', ?c)"
    using False send(1) by (simp add: handle_timeout_def Let_def)
  ultimately show thesis
    using resend [of sd' ?c] send sock sent_by_fields(7) [OF send(2)]
    by (simp add: sender_inv_def same_rcv_def)
qed

section \<open>Properties\<close>

lemma resend_wire:
  assumes "resend_send_buffer sd buf rnext = Inr sd'" "is_reliable (network_state sd)"
  shows "\<exists>pkts. wire_out (network_state sd') = wire_out (network_state sd) @ pkts \<and>
    map pkt_segment pkts = buf \<and> (\<forall>p \<in> set pkts. pkt_ack p = rnext)"
  using assms
proof (induction sd buf rnext rule: resend_send_buffer.induct)
  case (2 sd g rest rnext)
  let ?h = "build_header (seg_seq g) rnext (TH_ACK OR (if seg_fin g then TH_FIN else 0))"
  obtain sd1 where s: "stcp_network_send sd ?h (seg_data g) = Inr sd1" "resend_send_buffer sd1 rest rnext = Inr sd'"
    using "2.prems"(1) by (auto simp: rbind_eq_Inr_iff)
  then obtain pkt where pkt: "stcp_packet sd (hdr_bytes ?h) (seg_data g) = Inr pkt"
    "network_state sd1 = network_send_packet (network_state sd) pkt"
    using "2.prems"(2) by (auto simp: stcp_network_send_def rbind_eq_Inr_iff network_send_def)
  note f = stcp_packet_fields [OF pkt(1)]
  have fin: "((TH_ACK OR (if seg_fin g then TH_FIN else 0)) AND TH_FIN \<noteq> 0) = seg_fin g"
    by (simp add: TH_ACK_def TH_FIN_def)
  have "pkt_segment pkt = \<lparr>seg_seq = seg_seq g, seg_data = seg_data g, seg_fin = seg_fin g\<rparr>"
    unfolding pkt_segment_def f(1,4,5) by (simp only: build_header_def tcphdr.simps fin)
  then have g: "pkt_segment pkt = g" by simp
  have "is_reliable (network_state sd1)" using pkt(2) "2.prems"(2) by (simp add: network_send_packet_def)
  from "2.IH" [OF s(2) this] obtain pkts where
    "wire_out (network_state sd') = wire_out (network_state sd1) @ pkts" "map pkt_segment pkts = rest"
    "\<forall>p \<in> set pkts. pkt_ack p = rnext" by blast
  then show ?case
    using pkt(2) g f(2) by (intro exI [of _ "pkt # pkts"]) (simp add: network_send_packet_def build_header_def)
qed simp

text \<open>C30. Go-Back-N. On a timeout with retries left, every segment of the send buffer is sent
  again, in order, with its bytes, its FIN bit and the current acknowledgement; the timeout is
  doubled, the timer restarted and the retransmission counted. After five retries the
  connection is closed with \<open>ECONNABORTED\<close> and nothing is sent.\<close>

theorem timeout_resends_everything:
  assumes "handle_timeout sd ctx = Inr (sd', ctx')" "is_reliable (network_state sd)"
  shows "if retransmission_count ctx = 5
    then connection_state ctx' = CSTATE_CLOSED \<and> thread_errno sd' = ECONNABORTED \<and>
      network_state sd' = network_state sd
    else \<exists>pkts. wire_out (network_state sd') = wire_out (network_state sd) @ pkts \<and>
      map pkt_segment pkts = send_buffer ctx \<and> (\<forall>p \<in> set pkts. pkt_ack p = receive_next ctx) \<and>
      rto ctx' = 2 * rto ctx \<and> retransmission_count ctx' = retransmission_count ctx + 1 \<and>
      last_sent_time ctx' = clock sd \<and> send_buffer ctx' = send_buffer ctx"
proof (cases "retransmission_count ctx = 5")
  case True
  then show ?thesis using assms(1) by (auto simp: handle_timeout_def)
next
  case False
  obtain sd1 where "resend_send_buffer sd (send_buffer ctx) (receive_next ctx) = Inr sd1"
    using assms(1) False by (auto simp: handle_timeout_def rbind_eq_Inr_iff)
  then show ?thesis
    using resend_wire [OF _ assms(2)] assms(1) False
    by (auto simp: handle_timeout_def Let_def update_rto_def [of _ _ True])
qed


end
