(* ===== verification/Stcp_Receiver.thy ===== *)
theory Stcp_Receiver
  imports Stcp_Sender
begin

text \<open>
  The receiving half of the transport: trimming a segment to the receive window, robust
  insertion and in-order delivery. A segment of the peer's stream never makes the handler
  fail, and what is delivered stays a prefix of that stream.
\<close>

section \<open>Trimming to the window\<close>

lemma unat_diff_u64:
  assumes "a \<le> (b :: u32)"
  shows "unat (ucast (b - a) :: u64) = unat b - unat a"
  using assms by (simp add: unat_sub)

lemma ucast_back: "ucast (ucast w :: u64) = (w :: u32)"
  by (rule bit_word_eqI) (auto simp: bit_simps)

lemma cut_front_spec:
  assumes "cut_front ws sq payload len = (sq', payload', len')"
    and "unat len \<le> length payload" "unat ws \<le> unat sq + unat len"
  defines "lo' \<equiv> max (unat sq) (unat ws)"
  shows "unat sq' = lo'" "unat len' = unat sq + unat len - lo'" "unat len' \<le> length payload'"
    "take (unat len') payload' = take (unat sq + unat len - lo') (drop (lo' - unat sq) payload)"
proof -
  consider (front) "sq < ws" "unat ws - unat sq < unat len" | (all) "sq < ws" "\<not> unat ws - unat sq < unat len"
    | (none) "\<not> sq < ws" by blast
  then have *: "unat sq' = lo' \<and> unat len' = unat sq + unat len - lo' \<and> unat len' \<le> length payload' \<and>
    take (unat len') payload' = take (unat sq + unat len - lo') (drop (lo' - unat sq) payload)"
  proof cases
    case front
    let ?cut = "ucast (ws - sq) :: u64"
    have cut: "unat ?cut = unat ws - unat sq" using front by (intro unat_diff_u64) simp
    have "sq + ucast ?cut = ws" by (simp add: ucast_back)
    moreover have lt: "?cut < len" using front cut by (simp add: word_less_nat_alt)
    moreover have "unat (len - ?cut) = unat len - (unat ws - unat sq)"
      using lt cut by (subst unat_sub) (simp_all add: less_imp_le)
    moreover have "lo' = unat ws" using front by (simp add: lo'_def word_less_nat_alt)
    ultimately show ?thesis
      using assms(1,2) front cut by (auto simp: cut_front_def Let_def word_less_nat_alt add.commute)
  next
    case all
    let ?cut = "ucast (ws - sq) :: u64"
    have cut: "unat ?cut = unat ws - unat sq" using all by (intro unat_diff_u64) simp
    have "sq + ucast ?cut = ws" by (simp add: ucast_back)
    moreover have "\<not> ?cut < len" using all cut by (simp add: word_less_nat_alt)
    moreover have "lo' = unat ws" using all by (simp add: lo'_def word_less_nat_alt)
    ultimately show ?thesis
      using assms(1,2,3) all by (auto simp: cut_front_def Let_def word_less_nat_alt)
  next
    case none
    then have "lo' = unat sq" by (simp add: lo'_def word_less_nat_alt)
    with none assms(1,2) show ?thesis by (simp add: cut_front_def)
  qed
  then show "unat sq' = lo'" "unat len' = unat sq + unat len - lo'" "unat len' \<le> length payload'"
    "take (unat len') payload' = take (unat sq + unat len - lo') (drop (lo' - unat sq) payload)"
    by blast+
qed

lemma cut_back_spec:
  assumes "cut_back we se len fin = (len', fin')" "lo < unat we"
    and "unat se = lo + unat len + of_bool fin"
  shows "unat len' = min (lo + unat len) (unat we) - lo" "fin' \<longleftrightarrow> fin \<and> lo + unat len < unat we"
proof -
  have *: "unat len' = min (lo + unat len) (unat we) - lo \<and> (fin' \<longleftrightarrow> fin \<and> lo + unat len < unat we)"
  proof (cases "we < se")
    case True
    let ?cut = "ucast (se - we) :: u64"
    have cut: "unat ?cut = unat se - unat we" using True by (intro unat_diff_u64) simp
    have gt: "unat we < unat se" using True by (simp add: word_less_nat_alt)
    show ?thesis
    proof (cases fin)
      case True
      have "1 \<le> ?cut" using cut gt by (simp add: word_le_nat_alt)
      then have c1: "unat (?cut - 1) = unat se - unat we - 1" using cut by (subst unat_sub) simp_all
      then have "unat (len - (?cut - 1)) = unat len - (unat se - unat we - 1)"
        using gt assms(2,3) True by (subst unat_sub) (simp_all add: word_le_nat_alt)
      with assms True \<open>we < se\<close> gt show ?thesis by (auto simp: cut_back_def Let_def)
    next
      case False
      have "unat (len - ?cut) = unat len - (unat se - unat we)"
        using gt assms(2,3) False cut by (subst unat_sub) (simp_all add: word_le_nat_alt)
      with assms False \<open>we < se\<close> gt show ?thesis by (auto simp: cut_back_def Let_def)
    qed
  next
    case False
    then have "unat se \<le> unat we" by (simp add: word_less_nat_alt)
    with False assms show ?thesis by (cases fin) (auto simp: cut_back_def)
  qed
  then show "unat len' = min (lo + unat len) (unat we) - lo" "fin' \<longleftrightarrow> fin \<and> lo + unat len < unat we"
    by blast+
qed

text \<open>What the two cuts leave is the part of the segment inside the window.\<close>

lemma trimmed:
  assumes front: "cut_front ws sq payload len = (sq', payload', len')"
    and bk: "cut_back we (sq + ucast len + of_bool fin) len' fin = (len'', fin')"
    and g: "g = arriving sq payload len fin" "seg_ok g" "unat len \<le> length payload"
    and win: "unat ws < seg_hi g" "seg_lo g < unat we" "unat ws < unat we"
  defines "h \<equiv> arriving sq' payload' len'' fin'"
  shows "seg_ok h" "unat len'' \<le> length payload'" "seg_map h = seg_map g |` {unat ws..<unat we}"
    "unat ws \<le> seg_lo h"
proof -
  let ?lo = "max (unat sq) (unat ws)"
  have lo: "seg_lo g = unat sq" "seg_hi g = unat sq + unat len + of_bool fin" "payload_len g = unat len"
    using g by (simp_all add: arriving_def seg_lo_def seg_hi_def payload_len_def)
  have hi: "unat sq + unat len + of_bool fin < 2 ^ 32" "unat len \<le> STCP_MSS"
    using g(2) lo by (simp_all add: seg_ok_def)
  have "unat (ucast len :: u32) = unat len"
    using hi by (simp add: unsigned_ucast_eq take_bit_nat_eq_self)
  then have se: "unat (sq + ucast len + of_bool fin) = unat sq + unat len + of_bool fin"
    using hi by (cases fin) (simp_all add: unat_word_ariths)
  have ws: "unat ws \<le> unat sq + unat len" using win(1) lo(2) by (cases fin) simp_all
  note f = cut_front_spec [OF front g(3) ws]
  have "unat (sq + ucast len + of_bool fin) = ?lo + unat len' + of_bool fin"
    using se f(2) ws by simp
  note b = cut_back_spec [OF bk _ this]
  have low: "?lo < unat we" using win lo by simp
  have end_eq: "?lo + unat len' = unat sq + unat len" using f(2) ws by simp
  have len'': "unat len'' = min (unat sq + unat len) (unat we) - ?lo"
    using b(1) [OF low] by (simp only: end_eq)
  have fin': "fin' \<longleftrightarrow> fin \<and> unat sq + unat len < unat we"
    using b(2) [OF low] by (simp only: end_eq)
  have le: "unat len'' \<le> unat len'" unfolding len'' f(2) by (rule diff_le_mono) simp
  show len_ok: "unat len'' \<le> length payload'" using le f(3) by linarith
  have h: "seg_lo h = ?lo" "payload_len h = unat len''" "seg_fin h = fin'"
    using f(1) len_ok by (simp_all add: h_def arriving_def seg_lo_def payload_len_def)
  have data: "seg_data h ! i = payload ! (?lo - unat sq + i)" if "i < unat len''" for i
  proof -
    have "payload' ! i = take (unat len') payload' ! i" using that le by simp
    also have "\<dots> = take (unat sq + unat len - ?lo) (drop (?lo - unat sq) payload) ! i"
      by (simp only: f(4))
    also have "\<dots> = payload ! (?lo - unat sq + i)"
      using that le g(3) f(2) ws by simp
    finally show ?thesis using that by (simp add: h_def arriving_def)
  qed
  show "unat ws \<le> seg_lo h" using h by simp
  have "0 < unat len'' + of_bool fin'"
    using len'' fin' low win(1) lo g(2) by (cases fin) (auto simp: seg_ok_def)
  moreover have "unat len'' \<le> STCP_MSS" using len'' hi(2) by linarith
  moreover have "?lo + unat len'' + of_bool fin' < 2 ^ 32"
    using len'' hi(1) ws low fin' unsigned_less [of we, where ?'a = nat] by (cases fin) auto
  moreover have "seg_hi h = seg_lo h + (unat len'' + of_bool fin')" by (simp add: seg_hi_def h(2,3))
  ultimately show "seg_ok h" unfolding seg_ok_def h(2) using h(1) by (intro conjI; linarith)
  have gd: "seg_data g ! i = payload ! i" if "i < unat len" for i
    using that g(1) by (simp add: arriving_def)
  have gf: "seg_fin g = fin" using g(1) by (simp add: arriving_def)
  show "seg_map h = seg_map g |` {unat ws..<unat we}"
  proof (rule ext)
    fix p
    consider "p < ?lo" | "?lo \<le> p \<and> p < ?lo + unat len''" | "?lo + unat len'' \<le> p" by linarith
    then show "seg_map h p = (seg_map g |` {unat ws..<unat we}) p"
    proof cases
      case 1
      then show ?thesis by (auto simp: seg_map_def restrict_map_def h lo)
    next
      case 2
      then have "p < unat sq + unat len" "p < unat we" using len'' by linarith+
      moreover have "?lo - unat sq + (p - ?lo) = p - unat sq" using 2 by linarith
      moreover have "p - ?lo < unat len''" using 2 by linarith
      ultimately show ?thesis
        using 2 data [of "p - ?lo"] gd [of "p - unat sq"]
        by (auto simp: seg_map_def restrict_map_def h lo)
    next
      case 3
      then show ?thesis
        using len'' fin' low ws gf by (auto simp: seg_map_def restrict_map_def h lo)
    qed
  qed
qed

section \<open>In-order delivery\<close>

lemma stream_map_append:
  assumes "seg_lo g = base + length D"
  shows "stream_map base (D @ seg_data g) (seg_fin g) = stream_map base D False ++ seg_map g"
  using assms by (auto simp: fun_eq_iff stream_map_def seg_map_def map_add_def nth_append payload_len_def)

lemma map_add_sub: "m \<subseteq>\<^sub>m s \<Longrightarrow> n \<subseteq>\<^sub>m s \<Longrightarrow> m ++ n \<subseteq>\<^sub>m s"
  by (auto simp: map_le_def map_add_def split: option.splits) force

text \<open>Nothing comes behind the FIN of a stream.\<close>

lemma fin_is_last:
  assumes "stream_map base V fv p = Some Fin" "p < q"
  shows "q \<notin> dom (stream_map base V fv)"
  using assms by (auto simp: stream_map_def split: if_splits)

lemma map_le_Some: "m \<subseteq>\<^sub>m m' \<Longrightarrow> m a = Some b \<Longrightarrow> m' a = Some b"
  by (metis domI map_le_def)

lemma stream_prefix:
  assumes "stream_map base D f \<subseteq>\<^sub>m stream_map base V fv"
  shows "D = take (length D) V" "length D + of_bool f \<le> length V + of_bool fv" "f \<Longrightarrow> fv \<and> D = V"
proof -
  have at: "stream_map base V fv (base + i) = Some (Byte (D ! i))" if "i < length D" for i
    by (rule map_le_Some [OF assms]) (use that in \<open>simp add: stream_map_def\<close>)
  have in_V: "i < length V \<and> V ! i = D ! i" if "i < length D" for i
    using at [OF that] by (auto simp: stream_map_def split: if_splits)
  have len: "length D \<le> length V" using in_V by (metis le_refl not_le)
  then show pre: "D = take (length D) V" by (intro nth_equalityI) (simp_all add: in_V)
  have fin: "fv \<and> length D = length V" if f
  proof -
    have "stream_map base V fv (base + length D) = Some Fin"
      by (rule map_le_Some [OF assms]) (use that in \<open>simp add: stream_map_def\<close>)
    then show ?thesis by (auto simp: stream_map_def split: if_splits)
  qed
  show "length D + of_bool f \<le> length V + of_bool fv" using len fin by (cases f) auto
  show "f \<Longrightarrow> fv \<and> D = V" using fin pre by auto
qed

lemma concat_app_send [simp]:
  "concat (app_send_queue (stcp_app_send sd bs)) = concat (app_send_queue sd) @ bs"
  "concat (app_send_queue (stcp_fin_received sd)) = concat (app_send_queue sd)"
  by (simp_all add: stcp_app_send_def stcp_fin_received_def mysock_enqueue_buffer_def)

text \<open>What flushing changes.\<close>

definition flushed :: "mysock_context \<Rightarrow> context_t \<Rightarrow> mysock_context \<Rightarrow> context_t \<Rightarrow> bool" where
  "flushed sd ctx sd' ctx' \<longleftrightarrow>
     (\<exists>q rn buf fr. sd' = sd\<lparr>app_send_queue := q\<rparr> \<and>
        ctx' = ctx\<lparr>receive_next := rn, receive_buffer := buf, is_FIN_RECEIVED := fr,
          connection_state := (if fr \<and> \<not> is_FIN_RECEIVED ctx
            then transition_state (connection_state ctx) EVENT_RECV_FIN else connection_state ctx)\<rparr> \<and>
        receive_next ctx \<le> rn \<and> (is_FIN_RECEIVED ctx \<longrightarrow> fr))"

lemma flushedI:
  assumes "sd' = sd\<lparr>app_send_queue := q\<rparr>"
    "ctx' = ctx\<lparr>receive_next := rn, receive_buffer := buf, is_FIN_RECEIVED := fr,
          connection_state := (if fr \<and> \<not> is_FIN_RECEIVED ctx
            then transition_state (connection_state ctx) EVENT_RECV_FIN else connection_state ctx)\<rparr>"
    "receive_next ctx \<le> rn" "is_FIN_RECEIVED ctx \<longrightarrow> fr"
  shows "flushed sd ctx sd' ctx'"
  unfolding flushed_def using assms by blast

lemma flushed_step:
  assumes "flushed sd1 ctx1 sd' ctx'" "sd1 = sd\<lparr>app_send_queue := q\<rparr>"
    "ctx1 = ctx\<lparr>receive_next := r\<rparr>" "receive_next ctx \<le> r"
  shows "flushed sd ctx sd' ctx'"
proof -
  obtain q' rn buf fr where "sd' = sd1\<lparr>app_send_queue := q'\<rparr>"
    "ctx' = ctx1\<lparr>receive_next := rn, receive_buffer := buf, is_FIN_RECEIVED := fr,
          connection_state := (if fr \<and> \<not> is_FIN_RECEIVED ctx1
            then transition_state (connection_state ctx1) EVENT_RECV_FIN else connection_state ctx1)\<rparr>"
    "receive_next ctx1 \<le> rn" "is_FIN_RECEIVED ctx1 \<longrightarrow> fr"
    using assms(1) unfolding flushed_def by blast
  with assms(2-4) show ?thesis
    by (intro flushedI [where q = q' and rn = rn and buf = buf and fr = fr]) auto
qed

lemma flush_loop_ok:
  assumes "flush_loop sd ctx buf = (sd', ctx')"
    and "buf_ok buf" "buf_map buf \<subseteq>\<^sub>m stream_map pbase V fv" "\<forall>g \<in> set buf. unat (receive_next ctx) \<le> seg_lo g"
    and "\<not> is_FIN_RECEIVED ctx" "unat (receive_next ctx) = pbase + length (Rd @ concat (app_send_queue sd))"
    and "stream_map pbase (Rd @ concat (app_send_queue sd)) False \<subseteq>\<^sub>m stream_map pbase V fv"
  shows "rcv_ok pbase (stream_map pbase V fv) (Rd @ concat (app_send_queue sd')) ctx' \<and> flushed sd ctx sd' ctx'"
  using assms
proof (induction sd ctx buf rule: flush_loop.induct)
  case (1 sd ctx)
  then have "sd' = sd" "ctx' = ctx\<lparr>receive_buffer := []\<rparr>" by simp_all
  moreover have "flushed sd ctx sd (ctx\<lparr>receive_buffer := []\<rparr>)"
    by (rule flushedI [where q = "app_send_queue sd" and rn = "receive_next ctx" and buf = "[]"
          and fr = "is_FIN_RECEIVED ctx"]) simp_all
  ultimately show ?case using 1 by (simp add: rcv_ok_def)
next
  case (2 sd ctx node rest)
  let ?D = "Rd @ concat (app_send_queue sd)" and ?P = "stream_map pbase V fv"
  have ok: "seg_ok node" "\<forall>h \<in> set rest. seg_hi node \<le> seg_lo h" "buf_ok rest" using "2.prems"(2) by simp_all
  have maps: "seg_map node \<subseteq>\<^sub>m ?P" "buf_map rest \<subseteq>\<^sub>m ?P"
  proof -
    have dis: "dom (seg_map node) \<inter> dom (buf_map rest) = {}"
      using dom_buf_map_above [OF ok(2)] by auto
    have "buf_map rest \<subseteq>\<^sub>m buf_map (node # rest)" by simp
    then show "buf_map rest \<subseteq>\<^sub>m ?P" using "2.prems"(3) by (rule map_le_trans)
    have "seg_map node \<subseteq>\<^sub>m buf_map (node # rest)"
      using map_add_comm [OF dis] by simp
    then show "seg_map node \<subseteq>\<^sub>m ?P" using "2.prems"(3) by (rule map_le_trans)
  qed
  show ?case
  proof (cases "seg_seq node = receive_next ctx")
    case False
    then have "sd' = sd" "ctx' = ctx\<lparr>receive_buffer := node # rest\<rparr>" using "2.prems"(1) by simp_all
    moreover have "unat (receive_next ctx) < seg_lo h" if "h \<in> set (node # rest)" for h
    proof -
      have "unat (receive_next ctx) \<noteq> seg_lo node" using False word_unat_eq_iff [of "seg_seq node"] by (metis seg_lo_def)
      then have "unat (receive_next ctx) < seg_lo node" using "2.prems"(4) by fastforce
      moreover have "seg_lo node < seg_hi node" using ok(1) by (simp add: seg_ok_def)
      ultimately show ?thesis using that ok(2) by fastforce
    qed
    moreover have "flushed sd ctx sd (ctx\<lparr>receive_buffer := node # rest\<rparr>)"
      by (rule flushedI [where q = "app_send_queue sd" and rn = "receive_next ctx" and buf = "node # rest"
            and fr = "is_FIN_RECEIVED ctx"]) simp_all
    ultimately show ?thesis using "2.prems" by (simp add: rcv_ok_def)
  next
    case True
    define sd1 where "sd1 = (if 0 < payload_len node then stcp_app_send sd (seg_data node) else sd)"
    define ctx1 where "ctx1 = (if 0 < payload_len node
        then ctx\<lparr>receive_next := receive_next ctx + of_nat (payload_len node)\<rparr> else ctx)"
    have D1: "concat (app_send_queue sd1) = concat (app_send_queue sd) @ seg_data node"
      by (simp add: sd1_def payload_len_def)
    have c1: "receive_next ctx1 = receive_next ctx + of_nat (payload_len node)"
      "is_FIN_RECEIVED ctx1 = is_FIN_RECEIVED ctx" "connection_state ctx1 = connection_state ctx"
      by (simp_all add: ctx1_def)
    obtain q1 where s1: "sd1 = sd\<lparr>app_send_queue := q1\<rparr>"
    proof (cases "0 < payload_len node")
      case True
      then show ?thesis using that by (simp add: sd1_def stcp_app_send_def payload_len_def)
    next
      case False
      then show ?thesis using that [of "app_send_queue sd"] by (simp add: sd1_def)
    qed
    have c2: "ctx1 = ctx\<lparr>receive_next := receive_next ctx + of_nat (payload_len node)\<rparr>"
      by (simp add: ctx1_def)
    have lo: "seg_lo node = pbase + length ?D" using True "2.prems"(6) by (simp add: seg_lo_def)
    have hi32: "seg_lo node + payload_len node + of_bool (seg_fin node) < 2 ^ 32"
      using ok(1) by (simp add: seg_ok_def seg_hi_def)
    then have "unat (receive_next ctx) + payload_len node < 2 ^ 32" using True by (simp add: seg_lo_def)
    then have n1: "unat (receive_next ctx1) = unat (receive_next ctx) + payload_len node"
      using unat_add_small c1(1) by simp
    have sub: "stream_map pbase (?D @ seg_data node) (seg_fin node) \<subseteq>\<^sub>m ?P"
      unfolding stream_map_append [OF lo] by (rule map_add_sub [OF "2.prems"(7) maps(1)])
    show ?thesis
    proof (cases "seg_fin node")
      case fin: True
      have n2: "unat (receive_next ctx1 + 1) = unat (receive_next ctx) + payload_len node + 1"
        using unat_add_small [of "receive_next ctx1" 1] n1 hi32 fin True by (simp add: seg_lo_def)
      have "rest = []"
      proof (rule ccontr)
        assume "rest \<noteq> []"
        then obtain h where h: "h \<in> set rest" by (cases rest) auto
        have okh: "seg_lo h < seg_hi h" using ok(3) h by (auto simp: buf_ok_def seg_ok_def)
        have "seg_map node (seg_lo node + payload_len node) = Some Fin" using fin by (simp add: seg_map_def)
        then have "?P (seg_lo node + payload_len node) = Some Fin"
          by (rule map_le_Some [OF maps(1)])
        moreover have "seg_lo node + payload_len node < seg_lo h" using ok(2) h fin by (auto simp: seg_hi_def)
        ultimately have "seg_lo h \<notin> dom ?P" by (rule fin_is_last)
        moreover have "seg_lo h \<in> dom (buf_map rest)" using h okh by (auto simp: dom_buf_map)
        ultimately show False using maps(2) by (auto simp: map_le_def dom_def)
      qed
      moreover have res: "sd' = stcp_fin_received sd1" "ctx' = ctx1\<lparr>receive_next := receive_next ctx1 + 1,
          connection_state := transition_state (connection_state ctx1) EVENT_RECV_FIN,
          is_FIN_RECEIVED := True, receive_buffer := rest\<rparr>"
        using "2.prems"(1) True fin by (simp_all add: sd1_def ctx1_def Let_def)
      ultimately have "rcv_ok pbase ?P (Rd @ concat (app_send_queue sd')) ctx'"
        using sub fin D1 n2 "2.prems"(6) by (simp add: rcv_ok_def payload_len_def)
      moreover have "receive_next ctx \<le> receive_next ctx1 + 1" using n2 by (simp add: word_le_nat_alt)
      then have "flushed sd ctx sd' ctx'"
        using "2.prems"(5)
        by (intro flushedI [where q = "mysock_enqueue_buffer (app_send_queue sd1) []"
              and rn = "receive_next ctx1 + 1" and buf = rest and fr = True])
          (simp_all add: res s1 c2 stcp_fin_received_def)
      ultimately show ?thesis by blast
    next
      case nofin: False
      have run: "flush_loop sd1 ctx1 rest = (sd', ctx')"
        using "2.prems"(1) True nofin by (simp add: sd1_def ctx1_def Let_def)
      have above: "\<forall>h \<in> set rest. unat (receive_next ctx1) \<le> seg_lo h"
        using ok(2) n1 True nofin by (simp add: seg_hi_def seg_lo_def)
      have *: "rcv_ok pbase ?P (Rd @ concat (app_send_queue sd')) ctx' \<and> flushed sd1 ctx1 sd' ctx'"
        using "2.IH" [OF True refl refl nofin, folded sd1_def ctx1_def, OF run ok(3) maps(2) above]
          sub nofin D1 n1 c1(2) "2.prems"(5,6) by (simp add: payload_len_def)
      have "receive_next ctx \<le> receive_next ctx + of_nat (payload_len node)"
        using n1 c1(1) by (simp add: word_le_nat_alt)
      with * flushed_step [OF _ s1 c2] show ?thesis by blast
    qed
  qed
qed

text \<open>What is flushed is the run of segments that starts at \<open>receive_next\<close>.\<close>

lemma flush_consumed:
  assumes "flush_loop sd ctx buf = (sd', ctx')" "\<forall>g \<in> set buf. seg_ok g"
  shows "\<exists>pre. buf = pre @ receive_buffer ctx' \<and> chained (unat (receive_next ctx)) pre (unat (receive_next ctx'))"
  using assms
proof (induction sd ctx buf rule: flush_loop.induct)
  case (1 sd ctx)
  then show ?case by auto
next
  case (2 sd ctx node rest)
  show ?case
  proof (cases "seg_seq node = receive_next ctx")
    case False
    then have "ctx' = ctx\<lparr>receive_buffer := node # rest\<rparr>" using "2.prems"(1) by simp
    then show ?thesis by simp
  next
    case True
    define sd1 where "sd1 = (if 0 < payload_len node then stcp_app_send sd (seg_data node) else sd)"
    define ctx1 where "ctx1 = (if 0 < payload_len node
        then ctx\<lparr>receive_next := receive_next ctx + of_nat (payload_len node)\<rparr> else ctx)"
    have ok: "seg_ok node" "\<forall>g \<in> set rest. seg_ok g" using "2.prems"(2) by simp_all
    have rn: "receive_next ctx1 = receive_next ctx + of_nat (payload_len node)" by (simp add: ctx1_def)
    have lo: "seg_lo node = unat (receive_next ctx)" using True by (simp add: seg_lo_def)
    have hi: "unat (receive_next ctx1 + of_bool (seg_fin node)) = seg_hi node"
      using unat_node_end [OF ok(1)] True rn by (simp add: node_end_def)
    show ?thesis
    proof (cases "seg_fin node")
      case fin: True
      then have "receive_next ctx' = receive_next ctx1 + 1" "receive_buffer ctx' = rest"
        using "2.prems"(1) True by (auto simp: ctx1_def Let_def)
      then show ?thesis using hi fin ok lo by (intro exI [of _ "[node]"]) simp
    next
      case False
      then have "flush_loop sd1 ctx1 rest = (sd', ctx')"
        using "2.prems"(1) True by (simp add: sd1_def ctx1_def Let_def)
      then obtain pre where "rest = pre @ receive_buffer ctx'"
        "chained (unat (receive_next ctx1)) pre (unat (receive_next ctx'))"
        using "2.IH" [OF True refl refl False, folded sd1_def ctx1_def] ok(2) by blast
      then show ?thesis using hi False ok lo by (intro exI [of _ "node # pre"]) simp
    qed
  qed
qed

lemma chained_dom: "chained lo gs hi \<Longrightarrow> dom (buf_map gs) = {lo..<hi}"
proof (induction lo gs hi rule: chained.induct)
  case (2 lo g gs hi)
  then have "seg_lo g < seg_hi g" "seg_hi g \<le> hi" using chained_le by (auto simp: seg_ok_def)
  then have "{seg_lo g..<seg_hi g} \<union> {seg_hi g..<hi} = {seg_lo g..<hi}" by auto
  with 2 show ?case by auto
qed simp

text \<open>\<open>b\<close> is the first position from \<open>a\<close> on that is not in \<open>S\<close>.\<close>

definition first_missing :: "nat set \<Rightarrow> nat \<Rightarrow> nat \<Rightarrow> bool" where
  "first_missing S a b \<longleftrightarrow> a \<le> b \<and> {a..<b} \<subseteq> S \<and> b \<notin> S"

lemma flush_first_missing:
  assumes "flush_loop sd ctx buf = (sd', ctx')" "\<forall>g \<in> set buf. seg_ok g"
    "\<forall>g \<in> set (receive_buffer ctx'). unat (receive_next ctx') < seg_lo g"
  shows "first_missing (dom (buf_map buf)) (unat (receive_next ctx)) (unat (receive_next ctx'))"
proof -
  obtain pre where pre: "buf = pre @ receive_buffer ctx'" "chained (unat (receive_next ctx)) pre (unat (receive_next ctx'))"
    using flush_consumed [OF assms(1,2)] by blast
  have "dom (buf_map buf) = dom (buf_map (receive_buffer ctx')) \<union> {unat (receive_next ctx)..<unat (receive_next ctx')}"
    using chained_dom [OF pre(2)] by (subst pre(1)) simp
  moreover have "unat (receive_next ctx') \<notin> dom (buf_map (receive_buffer ctx'))"
    using assms(3) by (auto simp: dom_buf_map)
  ultimately show ?thesis using chained_le [OF pre(2)] by (auto simp: first_missing_def)
qed

section \<open>The handler\<close>

lemma rnext_bound:
  assumes "rcv_ok pbase (stream_map pbase V fv) D ctx" "pbase + length V < MAX_STREAM"
  shows "unat (receive_next ctx) \<le> MAX_STREAM"
  using assms stream_prefix(2) [of pbase D "is_FIN_RECEIVED ctx" V fv]
  by (cases fv) (simp_all add: rcv_ok_def)

lemma buf_lo_above:
  assumes "buf_ok buf" "dom (buf_map buf) \<subseteq> {n..}"
  shows "\<forall>g \<in> set buf. n \<le> seg_lo g"
proof
  fix g assume g: "g \<in> set buf"
  then have "seg_lo g < seg_hi g" using assms(1) by (auto simp: buf_ok_def seg_ok_def)
  then have "seg_lo g \<in> dom (buf_map buf)" using g by (auto simp: dom_buf_map)
  then show "n \<le> seg_lo g" using assms(2) by auto
qed

definition same_snd :: "context_t \<Rightarrow> context_t \<Rightarrow> bool" where
  "same_snd ctx ctx' \<longleftrightarrow>
     (\<exists>rn buf fr st. ctx' = ctx\<lparr>receive_next := rn, receive_buffer := buf, is_FIN_RECEIVED := fr,
        connection_state := st\<rparr>)"

lemma same_snd_refl [simp]: "same_snd ctx ctx"
proof -
  have "ctx = ctx\<lparr>receive_next := receive_next ctx, receive_buffer := receive_buffer ctx,
      is_FIN_RECEIVED := is_FIN_RECEIVED ctx, connection_state := connection_state ctx\<rparr>" by simp
  then show ?thesis unfolding same_snd_def by blast
qed

lemma flushed_flags: "flushed sd ctx sd' ctx' \<Longrightarrow> flags_ok ctx \<Longrightarrow> flags_ok ctx'"
  using flags_transitions(3) by (auto simp: flushed_def flags_ok_def fin_acked_def)

lemma flushed_same_snd: "flushed sd ctx sd' ctx' \<Longrightarrow> same_snd ctx ctx'"
  unfolding flushed_def same_snd_def by blast

lemma handle_incoming_ok:
  assumes sock: "sock_ok sd" "wire_ok (network_state sd) S (unat (receive_next ctx))"
    and rcv: "rcv_ok pbase (stream_map pbase V fv) (Rd @ concat (app_send_queue sd)) ctx"
    and V: "pbase + length V < MAX_STREAM" and fl: "flags_ok ctx"
    and g: "g = arriving sq payload len fin" "seg_ok g" "seg_map g \<subseteq>\<^sub>m stream_map pbase V fv"
      "unat len \<le> length payload"
  obtains sd' ctx' q where "handle_incoming_segment sd ctx sq payload len fin = Inr (sd', ctx')"
    "sent_by (sd\<lparr>app_send_queue := q\<rparr>) sd'" "same_snd ctx ctx'" "flags_ok ctx'"
    "rcv_ok pbase (stream_map pbase V fv) (Rd @ concat q) ctx'"
    "wire_ok (network_state sd') S (unat (receive_next ctx'))"
    "receive_next ctx \<le> receive_next ctx'"
    "\<not> is_FIN_RECEIVED ctx \<longrightarrow> first_missing
       (dom (buf_map (receive_buffer ctx)) \<union> {seg_lo g..<seg_hi g} \<inter> {..<unat (receive_next ctx) + 3072})
       (unat (receive_next ctx)) (unat (receive_next ctx'))"
proof -
  let ?P = "stream_map pbase V fv" and ?se = "sq + ucast len + of_bool fin"
    and ?ws = "receive_next ctx" and ?we = "receive_next ctx + DEFAULT_WIN_SIZE"
    and ?D = "Rd @ concat (app_send_queue sd)"
  have lo: "seg_lo g = unat sq" "seg_hi g = unat sq + unat len + of_bool fin"
    using g(1,4) by (simp_all add: arriving_def seg_lo_def seg_hi_def payload_len_def)
  have hi: "unat sq + unat len + of_bool fin < 2 ^ 32" using g(2) lo by (simp add: seg_ok_def)
  then have "unat (ucast len :: u32) = unat len"
    by (simp add: unsigned_ucast_eq take_bit_nat_eq_self)
  then have se: "unat ?se = seg_hi g"
    using hi lo(2) by (cases fin) (simp_all add: unat_word_ariths)
  have we: "unat ?we = unat ?ws + 3072"
    using unat_add_small [of ?ws 3072] rnext_bound [OF rcv V] by (simp add: DEFAULT_WIN_SIZE_def MAX_STREAM_def)
  have fresh: "unat ?ws \<notin> dom (buf_map (receive_buffer ctx))"
    using rcv by (auto simp: rcv_ok_def dom_buf_map)
  consider (ignored) "is_FIN_RECEIVED ctx \<or> \<not> ?se \<le> ?ws \<and> ?we \<le> sq"
    | (old) "\<not> is_FIN_RECEIVED ctx" "?se \<le> ?ws"
    | (inside) "\<not> is_FIN_RECEIVED ctx" "\<not> ?se \<le> ?ws" "\<not> ?we \<le> sq" by blast
  then show thesis
  proof cases
    case ignored
    then have "handle_incoming_segment sd ctx sq payload len fin = Inr (sd, ctx)"
      by (auto simp: handle_incoming_segment_def Let_def)
    moreover have "\<not> is_FIN_RECEIVED ctx \<longrightarrow> first_missing (dom (buf_map (receive_buffer ctx)) \<union>
        {seg_lo g..<seg_hi g} \<inter> {..<unat ?ws + 3072}) (unat ?ws) (unat ?ws)"
      using ignored fresh lo we by (auto simp: first_missing_def word_le_nat_alt)
    ultimately show thesis using that [of sd ctx "app_send_queue sd"] sock rcv fl by simp
  next
    case old
    obtain sd' where sd': "send_control sd ctx TH_ACK = Inr sd'" "sent_by sd sd'"
      "wire_ok (network_state sd') S (unat (receive_next ctx))"
      using send_control_genuine [OF sock fin_bits(1)] by blast
    have "handle_incoming_segment sd ctx sq payload len fin = Inr (sd', ctx)"
      using old sd'(1) by (simp add: handle_incoming_segment_def Let_def)
    moreover have "first_missing (dom (buf_map (receive_buffer ctx)) \<union>
        {seg_lo g..<seg_hi g} \<inter> {..<unat ?ws + 3072}) (unat ?ws) (unat ?ws)"
      using old fresh se by (auto simp: first_missing_def word_le_nat_alt)
    ultimately show thesis using that [of sd' ctx "app_send_queue sd"] sd' rcv fl by simp
  next
    case inside
    obtain sq' payload' len' where f: "cut_front ?ws sq payload len = (sq', payload', len')"
      by (metis prod_cases3)
    obtain len'' fin' where b: "cut_back ?we ?se len' fin = (len'', fin')" by (metis surj_pair)
    have win: "unat ?ws < seg_hi g" "seg_lo g < unat ?we" "unat ?ws < unat ?we"
      using inside(2,3) se lo we by (simp_all add: word_le_nat_alt)
    define h where "h = arriving sq' payload' len'' fin'"
    note t = trimmed [OF f b g(1,2,4) win, folded h_def]
    have buf: "buf_ok (receive_buffer ctx)" "buf_map (receive_buffer ctx) \<subseteq>\<^sub>m ?P"
      "\<forall>g \<in> set (receive_buffer ctx). unat ?ws \<le> seg_lo g"
      using rcv by (auto simp: rcv_ok_def less_imp_le)
    obtain buf' where ins: "insert_segment_to_receive_buffer_robust (receive_buffer ctx) sq' payload' len'' fin' = Inr buf'"
      "buf_ok buf'" "buf_map buf' = seg_map h ++ buf_map (receive_buffer ctx)"
      using robust_insert_adds [OF buf(1) t(1) [unfolded h_def] t(2)] by (auto simp: h_def)
    have "seg_map h \<subseteq>\<^sub>m ?P"
      using g(3) unfolding t(3) by (auto simp: map_le_def dom_def restrict_map_def)
    then have maps: "buf_map buf' \<subseteq>\<^sub>m ?P" unfolding ins(3) using buf(2) by (rule map_add_sub)
    have "dom (buf_map buf') \<subseteq> {unat ?ws..}"
      unfolding ins(3) using t(4) dom_buf_map_above [OF buf(3)] by auto
    then have above: "\<forall>g \<in> set buf'. unat ?ws \<le> seg_lo g" by (rule buf_lo_above [OF ins(2)])
    let ?c = "ctx\<lparr>receive_buffer := buf'\<rparr>"
    obtain sd1 ctx' where fl1: "flush_loop sd ?c buf' = (sd1, ctx')" by (metis surj_pair)
    have res: "rcv_ok pbase ?P (Rd @ concat (app_send_queue sd1)) ctx'" "flushed sd ?c sd1 ctx'"
    proof -
      have pre: "\<forall>g \<in> set buf'. unat (receive_next ?c) \<le> seg_lo g" "\<not> is_FIN_RECEIVED ?c"
        "unat (receive_next ?c) = pbase + length ?D" "stream_map pbase ?D False \<subseteq>\<^sub>m ?P"
        using above inside(1) rcv by (simp_all add: rcv_ok_def)
      show "rcv_ok pbase ?P (Rd @ concat (app_send_queue sd1)) ctx'" "flushed sd ?c sd1 ctx'"
        using flush_loop_ok [OF fl1 ins(2) maps pre] by blast+
    qed
    obtain q where q: "sd1 = sd\<lparr>app_send_queue := q\<rparr>" "receive_next ctx \<le> receive_next ctx'"
      using res(2) by (auto simp: flushed_def)
    have sock1: "sock_ok sd1" "wire_ok (network_state sd1) S (unat (receive_next ctx'))"
      using sock q by (auto simp: sock_ok_def word_le_nat_alt intro: wire_ok_mono)
    obtain sd' where sd': "send_control sd1 ctx' TH_ACK = Inr sd'" "sent_by sd1 sd'"
      "wire_ok (network_state sd') S (unat (receive_next ctx'))"
      using send_control_genuine [OF sock1 fin_bits(1)] by blast
    have "handle_incoming_segment sd ctx sq payload len fin = Inr (sd', ctx')"
      using inside f b ins(1) fl1 sd'(1)
      by (simp add: handle_incoming_segment_def Let_def flush_in_order_segments_from_receive_buffer_def)
    moreover have "flags_ok ?c" using fl by (simp add: flags_ok_def fin_acked_def)
    then have "flags_ok ctx'" by (rule flushed_flags [OF res(2)])
    moreover have "same_snd ctx ctx'"
      using flushed_same_snd [OF res(2)] by (auto simp: same_snd_def)
    moreover have above': "\<forall>g \<in> set (receive_buffer ctx'). unat (receive_next ctx') < seg_lo g"
      using res(1) unfolding rcv_ok_def by blast
    have "\<forall>g \<in> set buf'. seg_ok g" using ins(2) by (simp add: buf_ok_def)
    from flush_first_missing [OF fl1 this above']
    have "first_missing (dom (buf_map buf')) (unat ?ws) (unat (receive_next ctx'))" by simp
    then have "first_missing (dom (buf_map (receive_buffer ctx)) \<union>
        {seg_lo g..<seg_hi g} \<inter> {..<unat ?ws + 3072}) (unat ?ws) (unat (receive_next ctx'))"
      unfolding first_missing_def ins(3) dom_map_add t(3) dom_restrict dom_seg_map we by auto
    ultimately show thesis
      using that [of sd' ctx' q] sd' q res(1) by simp
  qed
qed

section \<open>Properties\<close>

text \<open>Trimming. For a segment that overlaps the receive window at all, the two cuts of
  \<open>handle_incoming_segment\<close> leave a non-empty, well-formed segment whose positions and bytes
  are exactly those of the original inside the window; a FIN outside the window is dropped.\<close>

lemma trimming_exact:
  assumes "cut_front ws sq payload len = (sq', payload', len')"
    and "cut_back we (sq + ucast len + of_bool fin) len' fin = (len'', fin')"
    and "seg_ok (arriving sq payload len fin)" "unat len \<le> length payload"
    and "unat ws < seg_hi (arriving sq payload len fin)" "seg_lo (arriving sq payload len fin) < unat we"
    and "unat ws < unat we"
  shows "seg_ok (arriving sq' payload' len'' fin') \<and> unat len'' \<le> length payload' \<and>
    seg_map (arriving sq' payload' len'' fin') = seg_map (arriving sq payload len fin) |` {unat ws..<unat we}"
  using trimmed [OF assms(1,2) refl assms(3-7)] by blast

end
