(* ===== verification/Stcp_Loop.thy ===== *)
theory Stcp_Loop
  imports Stcp_Receiver
begin

text \<open>
  One iteration of the control loop, built from the handlers: in a state that satisfies the
  endpoint invariant it either waits or ends in such a state again. No assertion fails, no
  buffer is overrun.
\<close>

section \<open>Handling a packet\<close>

definition advances :: "context_t \<Rightarrow> context_t \<Rightarrow> bool" where
  "advances ctx ctx' \<longleftrightarrow>
     receive_next ctx \<le> receive_next ctx' \<and> (is_FIN_SENT ctx \<longrightarrow> is_FIN_SENT ctx')"

lemma advances_refl [simp]: "advances ctx ctx"
  by (simp add: advances_def)

lemma advances_trans: "advances a b \<Longrightarrow> advances b c \<Longrightarrow> advances a c"
  by (auto simp: advances_def)

lemma network_recv_genuine:
  assumes "sock_ok sd" "network_recv_queue sd = pkt # rest"
    "genuine (sin_addr (peer_addr (network_state sd))) (local_ip (network_state sd)) P Q pkt"
  shows "stcp_network_recv sd (STCP_HEADER_LEN + STCP_MSS) = Inr (pkt, sd\<lparr>network_recv_queue := rest\<rparr>)"
  using assms by (auto simp: stcp_network_recv_def genuine_def sock_ok_def Let_def)

text \<open>The endpoint invariant during an iteration: the connection is not aborted.\<close>

definition running :: "nat \<Rightarrow> bytes \<Rightarrow> nat \<Rightarrow> nat \<Rightarrow> bytes \<Rightarrow> bool \<Rightarrow> bytes \<Rightarrow> conn \<Rightarrow> bool" where
  "running base W Q pbase V fv Rd c \<longleftrightarrow> ep_ok base W Q pbase V fv Rd c \<and> flags_ok (snd c)"

lemma running_parts:
  "running base W Q pbase V fv Rd (sd, ctx) \<longleftrightarrow>
     sender_inv base W Q (app_recv_queue sd) (sd, ctx) \<and>
     rcv_ok pbase (stream_map pbase V fv) (Rd @ concat (app_send_queue sd)) ctx \<and>
     (\<forall>pkt \<in> set (network_recv_queue sd).
        genuine (sin_addr (peer_addr (network_state sd))) (local_ip (network_state sd))
          (stream_map pbase V fv) Q pkt) \<and>
     pbase + length V < MAX_STREAM"
  by (auto simp: running_def ep_ok_def sender_inv_def Let_def state_ok_def)

lemma rcv_ok_same: "same_rcv ctx ctx' \<Longrightarrow> rcv_ok pbase P D ctx' = rcv_ok pbase P D ctx"
  by (simp add: same_rcv_def rcv_ok_def)

lemma snd_ok_same: "same_snd ctx ctx' \<Longrightarrow> snd_ok base W Q q ctx \<Longrightarrow> snd_ok base W Q q ctx'"
  by (auto simp: same_snd_def snd_ok_def sent_part_def window_ok_def send_buffer_ok_def queued_ok_def
      fin_in_flight_def)

lemma same_rcv_advances:
  "same_rcv ctx ctx' \<Longrightarrow> (is_FIN_SENT ctx \<longrightarrow> is_FIN_SENT ctx') \<Longrightarrow> advances ctx ctx'"
  by (simp add: same_rcv_def advances_def)

text \<open>A handler that only sends keeps the receiving half.\<close>

lemma running_sent:
  assumes "running base W Q pbase V fv Rd (sd, ctx)" "sent_by (sd\<lparr>app_recv_queue := q\<rparr>) sd'"
    "sender_inv base W Q q (sd', ctx')" "same_rcv ctx ctx'"
  shows "running base W Q pbase V fv Rd (sd', ctx')"
  using assms(1,3,4) sent_by_fields [OF assms(2)] rcv_ok_same [OF assms(4)]
  unfolding running_parts by simp

lemma app_recv_queue_same [simp]: "sd\<lparr>app_recv_queue := app_recv_queue sd\<rparr> = sd"
  by simp

lemma handle_network_data_ok:
  assumes run: "running base W Q pbase V fv Rd (sd, ctx)" and q: "network_recv_queue sd \<noteq> []"
  obtains sd' ctx' where "handle_network_data sd ctx = Inr (sd', ctx')"
    "running base W Q pbase V fv Rd (sd', ctx')" "advances ctx ctx'"
    "is_FIN_SENT ctx' = is_FIN_SENT ctx" "app_recv_queue sd' = app_recv_queue sd"
    "close_requested sd' = close_requested sd"
    "local_ip (network_state sd') = local_ip (network_state sd)"
    "peer_addr (network_state sd') = peer_addr (network_state sd)"
proof -
  let ?P = "stream_map pbase V fv"
  obtain pkt rest where pr: "network_recv_queue sd = pkt # rest" using q by (cases "network_recv_queue sd") auto
  let ?sd1 = "sd\<lparr>network_recv_queue := rest\<rparr>"
  have gen: "genuine (sin_addr (peer_addr (network_state sd))) (local_ip (network_state sd)) ?P Q pkt"
    and sock: "sock_ok sd"
    using run pr by (simp_all add: running_parts sender_inv_def)
  note recv = network_recv_genuine [OF sock pr gen]
  have run1: "running base W Q pbase V fv Rd (?sd1, ctx)"
    using run pr by (simp add: running_parts sender_inv_def sock_ok_def)
  have len: "STCP_HEADER_LEN \<le> length pkt" "length pkt \<le> STCP_HEADER_LEN + STCP_MSS" "pkt_off pkt = 5"
    and ack: "unat (pkt_ack pkt) \<le> Q" and carry: "carries ?P (pkt_segment pkt)"
    using gen by (simp_all add: genuine_def)
  define fin where "fin = (pkt_flags pkt AND TH_FIN \<noteq> 0)"
  define plen where "plen = int (length pkt) - 20"
  have handler: "handle_network_data sd ctx =
    rbind (if pkt_flags pkt AND TH_ACK \<noteq> 0 then handle_ack_from_peer ?sd1 ctx (pkt_ack pkt) else Inr (?sd1, ctx))
      (\<lambda>(sd2, ctx2). if 0 < plen \<or> fin
         then handle_incoming_segment sd2 ctx2 (pkt_seq pkt) (drop STCP_HEADER_LEN pkt) (of_int plen) fin
         else Inr (sd2, ctx2))"
    using len recv by (simp add: handle_network_data_def is_valid_seg_len_and_flags_def Let_def
        fin_def plen_def STCP_HEADER_LEN_def)
  obtain sd2 ctx2 where a: "(if pkt_flags pkt AND TH_ACK \<noteq> 0 then handle_ack_from_peer ?sd1 ctx (pkt_ack pkt)
      else Inr (?sd1, ctx)) = Inr (sd2, ctx2)" "sent_by ?sd1 sd2"
    "sender_inv base W Q (app_recv_queue sd) (sd2, ctx2)" "same_rcv ctx ctx2"
    "is_FIN_SENT ctx2 = is_FIN_SENT ctx"
  proof (cases "pkt_flags pkt AND TH_ACK \<noteq> 0")
    case True
    obtain sd2 ctx2 where "handle_ack_from_peer ?sd1 ctx (pkt_ack pkt) = Inr (sd2, ctx2)" "sent_by ?sd1 sd2"
      "sender_inv base W Q (app_recv_queue sd) (sd2, ctx2)" "same_rcv ctx ctx2" "is_FIN_SENT ctx2 = is_FIN_SENT ctx"
      using handle_ack_ok [OF _ ack, of base W "app_recv_queue sd" ?sd1 ctx] run1
      by (auto simp: running_parts)
    then show thesis using that True by simp
  next
    case False
    then show thesis using that [of ?sd1 ctx] run1 by (simp add: running_parts same_rcv_def)
  qed
  have "sock_ok sd2" "flags_ok ctx2" "snd_ok base W Q (app_recv_queue sd) ctx2"
    "wire_ok (network_state sd2) (stream_map base W (is_FIN_SENT ctx2)) (unat (receive_next ctx2))"
    using a(3) by (simp_all add: sender_inv_def)
  note f2 = sent_by_fields [OF a(2)]
  have rcv2: "rcv_ok pbase ?P (Rd @ concat (app_send_queue sd2)) ctx2" and V: "pbase + length V < MAX_STREAM"
    using run1 rcv_ok_same [OF a(4)] f2 by (simp_all add: running_parts)
  have run2: "running base W Q pbase V fv Rd (sd2, ctx2)"
    using run1 a(3) rcv2 f2 by (simp add: running_parts)
  show thesis
  proof (cases "0 < plen \<or> fin")
    case False
    then have "handle_network_data sd ctx = Inr (sd2, ctx2)" using handler a(1) by simp
    with that [of sd2 ctx2] run2 same_rcv_advances [OF a(4)] a(5) f2 show thesis by simp
  next
    case True
    define g where "g = pkt_segment pkt"
    have ulen: "unat (of_int plen :: u64) = length pkt - 20"
      using len by (subst unat_of_int_small) (simp_all add: plen_def STCP_HEADER_LEN_def STCP_MSS_def nat_diff_distrib)
    have g: "g = arriving (pkt_seq pkt) (drop STCP_HEADER_LEN pkt) (of_int plen) fin"
      using ulen by (simp add: g_def pkt_segment_def arriving_def fin_def STCP_HEADER_LEN_def)
    have "seg_lo g < seg_hi g"
      using True len(1) by (auto simp: g_def pkt_segment_def fin_def plen_def seg_hi_def payload_len_def STCP_HEADER_LEN_def)
    then have ok: "seg_ok g" "seg_map g \<subseteq>\<^sub>m ?P" using carry by (simp_all add: carries_def g_def)
    have l: "unat (of_int plen :: u64) \<le> length (drop STCP_HEADER_LEN pkt)"
      using ulen by (simp add: STCP_HEADER_LEN_def)
    obtain sd' ctx' q where h:
      "handle_incoming_segment sd2 ctx2 (pkt_seq pkt) (drop STCP_HEADER_LEN pkt) (of_int plen) fin = Inr (sd', ctx')"
      "sent_by (sd2\<lparr>app_send_queue := q\<rparr>) sd'" "same_snd ctx2 ctx'" "flags_ok ctx'"
      "rcv_ok pbase ?P (Rd @ concat q) ctx'"
      "wire_ok (network_state sd') (stream_map base W (is_FIN_SENT ctx2)) (unat (receive_next ctx'))"
      "receive_next ctx2 \<le> receive_next ctx'"
      by (rule handle_incoming_ok [OF \<open>sock_ok sd2\<close> \<open>wire_ok _ _ _\<close> rcv2 V \<open>flags_ok ctx2\<close> g ok l])
    have fs: "is_FIN_SENT ctx' = is_FIN_SENT ctx2" using h(3) by (auto simp: same_snd_def)
    note f3 = sent_by_fields [OF h(2)]
    have "sender_inv base W Q (app_recv_queue sd) (sd', ctx')"
      using h(4,6) f3(7) snd_ok_same [OF h(3)] \<open>snd_ok _ _ _ _ _\<close> \<open>sock_ok sd2\<close> fs
      by (simp add: sender_inv_def sock_ok_def)
    then have "running base W Q pbase V fv Rd (sd', ctx')"
      using run2 h(5) f2 f3 by (simp add: running_parts)
    moreover have "handle_network_data sd ctx = Inr (sd', ctx')" using handler a(1) True h(1) by simp
    moreover have "advances ctx ctx'"
      using same_rcv_advances [OF a(4)] a(5) h(7) fs by (simp add: advances_def)
    ultimately show thesis using that [of sd' ctx'] a(5) fs f2 f3 by simp
  qed
qed

section \<open>The other handlers\<close>

text \<open>What a step of the loop leaves alone, and how flags move.\<close>

definition loop_frame :: "conn \<Rightarrow> conn \<Rightarrow> bool" where
  "loop_frame c c' \<longleftrightarrow>
     (case (c, c') of ((sd, ctx), (sd', ctx')) \<Rightarrow>
        advances ctx ctx' \<and> close_requested sd' = close_requested sd \<and>
        local_ip (network_state sd') = local_ip (network_state sd) \<and>
        peer_addr (network_state sd') = peer_addr (network_state sd))"

lemma loop_frame_refl [simp]: "loop_frame c c"
  by (cases c) (simp add: loop_frame_def)

lemma loop_frame_trans: "loop_frame a b \<Longrightarrow> loop_frame b c \<Longrightarrow> loop_frame a c"
  by (cases a; cases b; cases c) (auto simp: loop_frame_def intro: advances_trans)

lemma app_data_running:
  assumes "running base W Q pbase V fv Rd (sd, ctx)" "app_recv_queue sd \<noteq> []"
  obtains c' where "handle_app_data sd ctx = Inr c'" "running base W Q pbase V fv Rd c'"
    "loop_frame (sd, ctx) c'" "network_recv_queue (fst c') = network_recv_queue sd"
    "is_FIN_SENT (snd c') = is_FIN_SENT ctx"
proof -
  have "sender_inv base W Q (app_recv_queue sd) (sd, ctx)" using assms(1) by (simp add: running_parts)
  then obtain sd' ctx' q' where h: "handle_app_data sd ctx = Inr (sd', ctx')"
    "sent_by (sd\<lparr>app_recv_queue := q'\<rparr>) sd'" "sender_inv base W Q q' (sd', ctx')" "same_rcv ctx ctx'"
    "is_FIN_SENT ctx' = is_FIN_SENT ctx"
    using handle_app_data_ok [OF _ assms(2)] by blast
  have "advances ctx ctx'" using same_rcv_advances [OF h(4)] h(5) by simp
  with that [of "(sd', ctx')"] h running_sent [OF assms(1) h(2-4)] sent_by_fields [OF h(2)]
  show thesis by (simp add: loop_frame_def)
qed

lemma network_data_running:
  assumes "running base W Q pbase V fv Rd c" "network_recv_queue (fst c) \<noteq> []"
  obtains c' where "handle_network_data (fst c) (snd c) = Inr c'" "running base W Q pbase V fv Rd c'"
    "loop_frame c c'" "app_recv_queue (fst c') = app_recv_queue (fst c)"
    "is_FIN_SENT (snd c') = is_FIN_SENT (snd c)"
proof (cases c)
  case (Pair sd ctx)
  then have "running base W Q pbase V fv Rd (sd, ctx)" "network_recv_queue sd \<noteq> []" using assms by simp_all
  then obtain sd' ctx' where "handle_network_data sd ctx = Inr (sd', ctx')"
    "running base W Q pbase V fv Rd (sd', ctx')" "advances ctx ctx'"
    "is_FIN_SENT ctx' = is_FIN_SENT ctx" "app_recv_queue sd' = app_recv_queue sd"
    "close_requested sd' = close_requested sd"
    "local_ip (network_state sd') = local_ip (network_state sd)"
    "peer_addr (network_state sd') = peer_addr (network_state sd)"
    by (rule handle_network_data_ok)
  with that [of "(sd', ctx')"] Pair show thesis by (simp add: loop_frame_def)
qed

lemma app_close_running:
  assumes "running base W Q pbase V fv Rd c" "app_recv_queue (fst c) = []"
  obtains c' where "handle_app_close (fst c) (snd c) = Inr c'" "running base W Q pbase V fv Rd c'"
    "loop_frame c c'" "is_FIN_SENT (snd c')"
proof (cases c)
  case (Pair sd ctx)
  then have run: "running base W Q pbase V fv Rd (sd, ctx)" and q: "app_recv_queue sd = []" using assms by simp_all
  then have "sender_inv base W Q [] (sd, ctx)" by (simp add: running_parts)
  then obtain sd' ctx' where h: "handle_app_close sd ctx = Inr (sd', ctx')" "sent_by sd sd'"
    "sender_inv base W Q [] (sd', ctx')" "same_rcv ctx ctx'" "is_FIN_SENT ctx'"
    by (rule handle_app_close_ok)
  have "sd\<lparr>app_recv_queue := []\<rparr> = sd" using q by (metis app_recv_queue_same)
  then have "running base W Q pbase V fv Rd (sd', ctx')"
    using running_sent [OF run _ h(3,4)] h(2) by simp
  moreover have "advances ctx ctx'" using same_rcv_advances [OF h(4)] h(5) by simp
  ultimately show thesis using that [of "(sd', ctx')"] Pair h sent_by_fields [OF h(2)] by (simp add: loop_frame_def)
qed

lemma timeout_ok:
  assumes "running base W Q pbase V fv Rd c"
  obtains c' where "handle_timeout (fst c) (snd c) = Inr c'" "ep_ok base W Q pbase V fv Rd c'"
    "loop_frame c c'" "is_FIN_SENT (snd c') = is_FIN_SENT (snd c)"
    "flags_ok (snd c') \<or> retransmission_count (snd c) = 5 \<and> aborted (fst c') (snd c')"
proof (cases c)
  case (Pair sd ctx)
  then have run: "running base W Q pbase V fv Rd (sd, ctx)" using assms by simp
  then have "sender_inv base W Q (app_recv_queue sd) (sd, ctx)" by (simp add: running_parts)
  then show thesis
  proof (cases rule: handle_timeout_ok)
    case abort
    let ?c = "(sd\<lparr>thread_errno := ECONNABORTED\<rparr>, ctx\<lparr>connection_state := CSTATE_CLOSED\<rparr>)"
    have "ep_ok base W Q pbase V fv Rd ?c"
      using run abort(2) by (simp add: running_def ep_ok_def Let_def state_ok_def aborted_def rcv_ok_def
          sock_ok_def cong: conj_cong)
    moreover have "aborted (fst ?c) (snd ?c)" using abort(2) by (simp add: aborted_def)
    ultimately show thesis using that [of ?c] Pair abort by (simp add: loop_frame_def advances_def)
  next
    case (resend sd' ctx')
    have "sent_by (sd\<lparr>app_recv_queue := app_recv_queue sd\<rparr>) sd'" using resend(2) by simp
    from running_sent [OF run this resend(3,4)]
    have r: "running base W Q pbase V fv Rd (sd', ctx')" .
    have "advances ctx ctx'" using same_rcv_advances [OF resend(4)] resend(5) by simp
    with that [of "(sd', ctx')"] Pair resend r sent_by_fields [OF resend(2)]
    show thesis by (simp add: loop_frame_def running_def)
  qed
qed

section \<open>Dispatching events\<close>

lemma dispatch_ok:
  assumes run: "running base W Q pbase V fv Rd c"
    and app: "event AND APP_DATA \<noteq> 0 \<Longrightarrow> app_recv_queue (fst c) \<noteq> []"
    and net: "event AND NETWORK_DATA \<noteq> 0 \<Longrightarrow> network_recv_queue (fst c) \<noteq> []"
    and cls: "event AND APP_CLOSE_REQUESTED \<noteq> 0 \<Longrightarrow> app_recv_queue (fst c) = []"
  obtains c' where "dispatch event c = Inr c'" "ep_ok base W Q pbase V fv Rd c'" "loop_frame c c'"
    "is_FIN_SENT (snd c') \<longleftrightarrow> is_FIN_SENT (snd c) \<or> event AND APP_CLOSE_REQUESTED \<noteq> 0"
    "flags_ok (snd c') \<or> aborted (fst c') (snd c') \<and> event = TIMEOUT \<and> retransmission_count (snd c) = 5"
proof -
  obtain c1 where c1: "(if event AND APP_DATA \<noteq> 0 then handle_app_data (fst c) (snd c) else Inr c) = Inr c1"
    "running base W Q pbase V fv Rd c1" "loop_frame c c1"
    "network_recv_queue (fst c1) = network_recv_queue (fst c)" "is_FIN_SENT (snd c1) = is_FIN_SENT (snd c)"
    "event AND APP_DATA = 0 \<longrightarrow> c1 = c"
  proof (cases "event AND APP_DATA = 0")
    case False
    have "running base W Q pbase V fv Rd (fst c, snd c)" "app_recv_queue (fst c) \<noteq> []" using run app False by simp_all
    then show thesis by (rule app_data_running) (use that False in auto)
  qed (use that [of c] run in auto)
  obtain c2 where c2: "(if event AND NETWORK_DATA \<noteq> 0 then handle_network_data (fst c1) (snd c1) else Inr c1) = Inr c2"
    "running base W Q pbase V fv Rd c2" "loop_frame c1 c2"
    "app_recv_queue (fst c2) = app_recv_queue (fst c1)" "is_FIN_SENT (snd c2) = is_FIN_SENT (snd c1)"
    "event AND NETWORK_DATA = 0 \<longrightarrow> c2 = c1"
  proof (cases "event AND NETWORK_DATA = 0")
    case False
    have "network_recv_queue (fst c1) \<noteq> []" using net False c1(4) by simp
    with c1(2) show thesis by (rule network_data_running) (use that False in auto)
  qed (use that [of c1] c1 in auto)
  obtain c3 where c3: "(if event AND APP_CLOSE_REQUESTED \<noteq> 0 then handle_app_close (fst c2) (snd c2) else Inr c2) = Inr c3"
    "running base W Q pbase V fv Rd c3" "loop_frame c2 c3"
    "is_FIN_SENT (snd c3) \<longleftrightarrow> is_FIN_SENT (snd c2) \<or> event AND APP_CLOSE_REQUESTED \<noteq> 0"
    "event AND APP_CLOSE_REQUESTED = 0 \<longrightarrow> c3 = c2"
  proof (cases "event AND APP_CLOSE_REQUESTED = 0")
    case False
    then have "event AND APP_DATA = 0" using app cls by blast
    then have "app_recv_queue (fst c2) = []" using cls False c1(6) c2(4) by simp
    with c2(2) show thesis by (rule app_close_running) (use that False in auto)
  qed (use that [of c2] c2 in auto)
  have d: "dispatch event c = (if event = TIMEOUT then handle_timeout (fst c3) (snd c3) else Inr c3)"
    using c1(1) c2(1) c3(1) by (simp only: dispatch_def rbind_simps)
  have frame: "loop_frame c c3" using c1(3) c2(3) c3(3) loop_frame_trans by blast
  have fin: "is_FIN_SENT (snd c3) \<longleftrightarrow> is_FIN_SENT (snd c) \<or> event AND APP_CLOSE_REQUESTED \<noteq> 0"
    using c1(5) c2(5) c3(4) by simp
  show thesis
  proof (cases "event = TIMEOUT")
    case True
    then have "c3 = c" using c1(6) c2(6) c3(5) by (simp add: TIMEOUT_def)
    obtain c' where "handle_timeout (fst c3) (snd c3) = Inr c'" "ep_ok base W Q pbase V fv Rd c'"
      "loop_frame c3 c'" "is_FIN_SENT (snd c') = is_FIN_SENT (snd c3)"
      "flags_ok (snd c') \<or> retransmission_count (snd c3) = 5 \<and> aborted (fst c') (snd c')"
      using c3(2) by (rule timeout_ok)
    with that [of c'] True d frame fin loop_frame_trans [OF frame] \<open>c3 = c\<close> show thesis by auto
  next
    case False
    with that [of c3] d c3(2) frame fin show thesis by (simp add: running_def)
  qed
qed

section \<open>An iteration\<close>

lemma event_bits [simp]:
  "APP_DATA AND NETWORK_DATA = 0" "APP_DATA AND APP_CLOSE_REQUESTED = 0"
  "NETWORK_DATA AND APP_DATA = 0" "NETWORK_DATA AND APP_CLOSE_REQUESTED = 0"
  "APP_CLOSE_REQUESTED AND APP_DATA = 0" "APP_CLOSE_REQUESTED AND NETWORK_DATA = 0"
  "APP_DATA \<noteq> 0" "NETWORK_DATA \<noteq> 0" "APP_CLOSE_REQUESTED \<noteq> 0"
  by (simp_all add: event_defs)

lemma wait_poll_event:
  assumes "wait_poll flags sd = (ev, sd1)"
  shows "ev AND APP_DATA \<noteq> 0 \<longleftrightarrow> flags AND APP_DATA \<noteq> 0 \<and> app_recv_queue sd \<noteq> []"
    "ev AND NETWORK_DATA \<noteq> 0 \<longleftrightarrow> flags AND NETWORK_DATA \<noteq> 0 \<and> network_recv_queue sd \<noteq> []"
    "ev AND APP_CLOSE_REQUESTED \<noteq> 0 \<longleftrightarrow> close_requested sd \<and> app_recv_queue sd = []"
    "sd1 = sd\<lparr>close_requested := close_requested sd \<and> app_recv_queue sd \<noteq> []\<rparr>"
  using assms by (auto simp: wait_poll_def Let_def bit.conj_disj_distrib2 split: if_splits)

lemma wait_event:
  assumes "stcp_wait_for_event sd flags t = Inr (ev, sd1)"
  shows "wait_poll flags sd = (ev, sd1) \<or>
    ev = TIMEOUT \<and> wait_poll flags sd = (0, sd1) \<and> (\<exists>d. t = Some d \<and> d \<le> clock sd)"
  using assms by (auto simp: stcp_wait_for_event_def split: prod.splits if_splits option.splits)

lemma wait_fault: "stcp_wait_for_event sd flags t = Inl f \<Longrightarrow> f = Would_Block"
  by (auto simp: stcp_wait_for_event_def split: prod.splits if_splits option.splits)

lemma wait_timeout:
  assumes "stcp_wait_for_event sd flags t = Inr (TIMEOUT, sd1)"
  obtains d where "t = Some d" "d \<le> clock sd" "sd1 = sd" "app_recv_queue sd = [] \<longrightarrow> \<not> close_requested sd"
proof -
  obtain rc sd' where p: "wait_poll flags sd = (rc, sd')" by (metis surj_pair)
  then have "rc = 0" "sd' = sd1" and d: "\<exists>d. t = Some d \<and> d \<le> clock sd"
    using assms by (auto simp: stcp_wait_for_event_def TIMEOUT_def split: if_splits option.splits)
  note pe = wait_poll_event [OF p]
  have nc: "\<not> (close_requested sd \<and> app_recv_queue sd = [])" using pe(3) \<open>rc = 0\<close> by simp
  then have "(close_requested sd \<and> app_recv_queue sd \<noteq> []) = close_requested sd" by blast
  with pe(4) \<open>sd' = sd1\<close> have "sd1 = sd" by simp
  with d that nc show thesis by blast
qed

lemma ep_ok_close_requested [simp]:
  "ep_ok base W Q pbase V fv Rd (sd\<lparr>close_requested := b\<rparr>, ctx) = ep_ok base W Q pbase V fv Rd (sd, ctx)"
  by (simp add: ep_ok_def Let_def sock_ok_def state_ok_def aborted_def)

lemma ep_ok_done [simp]:
  "ep_ok base W Q pbase V fv Rd (sd, ctx\<lparr>ctx_done := b\<rparr>) = ep_ok base W Q pbase V fv Rd (sd, ctx)"
  by (simp add: ep_ok_def Let_def snd_ok_def sent_part_def window_ok_def send_buffer_ok_def queued_ok_def
      fin_in_flight_def rcv_ok_def state_ok_def aborted_def flags_ok_def fin_acked_def)

lemma iteration_ok:
  assumes ok: "ep_ok base W Q pbase V fv Rd (sd, ctx)" "flags_ok ctx"
  shows "control_iteration (sd, ctx) = Inl Would_Block \<and>
      (\<exists>f. stcp_wait_for_event sd (wait_flags ctx)
        (if send_base ctx \<noteq> next_seq_num ctx then Some (timeout ctx) else None) = Inl f) \<or>
    (\<exists>sd' ctx'. control_iteration (sd, ctx) = Inr (sd', ctx') \<and> ep_ok base W Q pbase V fv Rd (sd', ctx') \<and>
       advances ctx ctx' \<and> (ctx_done ctx' \<longleftrightarrow> connection_state ctx' = CSTATE_CLOSED) \<and>
       (is_FIN_SENT ctx' \<longrightarrow> is_FIN_SENT ctx \<or> close_requested sd) \<and>
       (close_requested sd' \<longrightarrow> close_requested sd) \<and>
       local_ip (network_state sd') = local_ip (network_state sd) \<and>
       peer_addr (network_state sd') = peer_addr (network_state sd) \<and>
       (flags_ok ctx' \<or> aborted sd' ctx' \<and> retransmission_count ctx = 5 \<and> timeout ctx \<le> clock sd \<and>
          send_base ctx \<noteq> next_seq_num ctx))"
proof (cases "stcp_wait_for_event sd (wait_flags ctx)
    (if send_base ctx \<noteq> next_seq_num ctx then Some (timeout ctx) else None)")
  case (Inl f)
  with wait_fault [OF Inl] have "control_iteration (sd, ctx) = Inl Would_Block"
    by (simp add: control_iteration_def Let_def)
  with Inl show ?thesis by blast
next
  case (Inr r)
  obtain ev sd1 where r: "r = (ev, sd1)" by (metis surj_pair)
  note w = Inr [unfolded r]
  obtain ev0 where poll: "wait_poll (wait_flags ctx) sd = (ev0, sd1)" "ev = ev0 \<or> ev = TIMEOUT \<and> ev0 = 0"
    using wait_event [OF w] by blast
  note pe = wait_poll_event [OF poll(1)]
  have bits: "ev AND m = ev0 AND m" for m using poll(2) by (auto simp: TIMEOUT_def)
  have run: "running base W Q pbase V fv Rd (sd1, ctx)"
    using ok unfolding pe(4) by (simp add: running_def)
  have pre: "ev AND APP_DATA \<noteq> 0 \<Longrightarrow> app_recv_queue (fst (sd1, ctx)) \<noteq> []"
    "ev AND NETWORK_DATA \<noteq> 0 \<Longrightarrow> network_recv_queue (fst (sd1, ctx)) \<noteq> []"
    "ev AND APP_CLOSE_REQUESTED \<noteq> 0 \<Longrightarrow> app_recv_queue (fst (sd1, ctx)) = []"
    unfolding bits pe(1-3) by (simp_all add: pe(4))
  obtain c' where "dispatch ev (sd1, ctx) = Inr c'" "ep_ok base W Q pbase V fv Rd c'" "loop_frame (sd1, ctx) c'"
    "is_FIN_SENT (snd c') \<longleftrightarrow> is_FIN_SENT (snd (sd1, ctx)) \<or> ev AND APP_CLOSE_REQUESTED \<noteq> 0"
    "flags_ok (snd c') \<or> aborted (fst c') (snd c') \<and> ev = TIMEOUT \<and>
       retransmission_count (snd (sd1, ctx)) = 5"
    by (rule dispatch_ok [OF run pre])
  then have c': "dispatch ev (sd1, ctx) = Inr c'" "ep_ok base W Q pbase V fv Rd c'" "loop_frame (sd1, ctx) c'"
    "is_FIN_SENT (snd c') \<longleftrightarrow> is_FIN_SENT ctx \<or> ev AND APP_CLOSE_REQUESTED \<noteq> 0"
    "flags_ok (snd c') \<or> aborted (fst c') (snd c') \<and> ev = TIMEOUT \<and> retransmission_count ctx = 5"
    by simp_all
  obtain sd2 ctx2 where c2: "c' = (sd2, ctx2)" by (metis surj_pair)
  let ?ctx' = "ctx2\<lparr>ctx_done := (connection_state ctx2 = CSTATE_CLOSED)\<rparr>"
  have it: "control_iteration (sd, ctx) = Inr (sd2, ?ctx')"
    unfolding control_iteration_def Let_def prod.case using w c'(1) c2 by simp
  have deadline: "timeout ctx \<le> clock sd \<and> send_base ctx \<noteq> next_seq_num ctx" if "ev = TIMEOUT"
    by (rule wait_timeout [OF w [unfolded that]]) (simp split: if_splits)
  have m: "advances ctx ?ctx'" "ctx_done ?ctx' \<longleftrightarrow> connection_state ?ctx' = CSTATE_CLOSED"
    "close_requested sd2 \<longrightarrow> close_requested sd"
    "local_ip (network_state sd2) = local_ip (network_state sd)"
    "peer_addr (network_state sd2) = peer_addr (network_state sd)"
    using c'(3) pe(4) by (simp_all add: c2 loop_frame_def advances_def)
  have fin: "is_FIN_SENT ?ctx' \<longrightarrow> is_FIN_SENT ctx \<or> close_requested sd"
    using c'(4) pe(3) unfolding bits c2 by simp
  have fl: "flags_ok ?ctx' \<or> aborted sd2 ?ctx' \<and> retransmission_count ctx = 5 \<and> timeout ctx \<le> clock sd \<and>
      send_base ctx \<noteq> next_seq_num ctx"
    using c'(5) deadline unfolding c2 by (simp add: flags_ok_def aborted_def fin_acked_def) blast
  have ep: "ep_ok base W Q pbase V fv Rd (sd2, ?ctx')" using c'(2) by (simp add: c2)
  show ?thesis
    apply (rule disjI2, rule exI [of _ sd2], rule exI [of _ ?ctx'])
    using it ep m fin fl by (intro conjI)
qed

section \<open>Properties\<close>

text \<open>The receiver's progress. After a segment of the peer's stream was handled,
  \<open>receive_next\<close> is the first position, from the old \<open>receive_next\<close> on, that neither the
  receive buffer nor the part of the segment inside the window holds: everything in order is
  passed on at once, and nothing is skipped.\<close>

lemma receiver_advances_to_first_missing:
  assumes "running base W Q pbase V fv Rd (sd, ctx)" "\<not> is_FIN_RECEIVED ctx"
    and "g = arriving sq payload len fin" "seg_ok g" "seg_map g \<subseteq>\<^sub>m stream_map pbase V fv"
    and "unat len \<le> length payload"
  shows "\<exists>sd' ctx'. handle_incoming_segment sd ctx sq payload len fin = Inr (sd', ctx') \<and>
    first_missing (dom (buf_map (receive_buffer ctx)) \<union>
        dom (seg_map g) \<inter> {..<unat (receive_next ctx) + unat DEFAULT_WIN_SIZE})
      (unat (receive_next ctx)) (unat (receive_next ctx'))"
proof -
  have r: "sock_ok sd" "wire_ok (network_state sd) (stream_map base W (is_FIN_SENT ctx)) (unat (receive_next ctx))"
    "rcv_ok pbase (stream_map pbase V fv) (Rd @ concat (app_send_queue sd)) ctx"
    "pbase + length V < MAX_STREAM" "flags_ok ctx"
    using assms(1) by (simp_all add: running_parts sender_inv_def)
  show ?thesis
  proof (rule handle_incoming_ok [OF r assms(3-6)])
    fix sd' ctx' q
    assume "handle_incoming_segment sd ctx sq payload len fin = Inr (sd', ctx')"
      "\<not> is_FIN_RECEIVED ctx \<longrightarrow> first_missing
         (dom (buf_map (receive_buffer ctx)) \<union> {seg_lo g..<seg_hi g} \<inter> {..<unat (receive_next ctx) + 3072})
         (unat (receive_next ctx)) (unat (receive_next ctx'))"
    then show ?thesis using assms(2) by (simp add: DEFAULT_WIN_SIZE_def)
  qed
qed


end
