(* ===== verification/Stcp_System.thy ===== *)
theory Stcp_System
  imports Stcp_Loop
begin

text \<open>
  Two connected mysockets and the network between them. An endpoint runs its control loop
  while its application writes, reads and closes; the network delivers any packet that was
  ever handed to it, any number of times, in any order, or never. The invariant of every
  reachable state gives the contract of the transport: what one application reads is a
  prefix of what the other wrote, no step fails, and a connection that closes gracefully
  has delivered everything.
\<close>

section \<open>Endpoints\<close>

text \<open>The last three fields are history: all bytes the application has written and read,
  and whether it has called \<open>myclose\<close>.\<close>

record endpoint =
  esock :: mysock_context
  econn :: context_t
  written :: bytes
  has_read :: bytes
  app_closed :: bool

text \<open>Sequence numbers 0 and 1 are not used by data: the initial number is 1, the SYN's.\<close>

definition first_byte :: nat where "first_byte = 2"

inductive ep_step :: "endpoint \<Rightarrow> endpoint \<Rightarrow> bool" where
  loop: "\<not> ctx_done (econn e) \<Longrightarrow> control_iteration (esock e, econn e) = Inr (sd', ctx') \<Longrightarrow>
      ep_step e (e\<lparr>esock := sd', econn := ctx'\<rparr>)"
| app_write: "\<not> app_closed e \<Longrightarrow> first_byte + length (written e @ bs) < MAX_STREAM \<Longrightarrow>
      ep_step e (e\<lparr>esock := esock e\<lparr>app_recv_queue := mysock_enqueue_buffer (app_recv_queue (esock e)) bs\<rparr>,
                 written := written e @ bs\<rparr>)"
| app_close: "ep_step e (e\<lparr>esock := esock e\<lparr>close_requested := True\<rparr>, app_closed := True\<rparr>)"
| app_read: "dequeue_partial (app_send_queue (esock e)) n = Inr (bs, q) \<Longrightarrow>
      ep_step e (e\<lparr>esock := esock e\<lparr>app_send_queue := q\<rparr>, has_read := has_read e @ bs\<rparr>)"
| tick: "clock (esock e) \<le> t \<Longrightarrow> ep_step e (e\<lparr>esock := esock e\<lparr>clock := t\<rparr>\<rparr>)"

definition deliver :: "bytes \<Rightarrow> endpoint \<Rightarrow> endpoint" where
  "deliver pkt e = e\<lparr>esock := esock e\<lparr>network_recv_queue :=
     mysock_enqueue_buffer (network_recv_queue (esock e)) pkt\<rparr>\<rparr>"

type_synonym system = "endpoint \<times> endpoint"

inductive sys_step :: "system \<Rightarrow> system \<Rightarrow> bool" where
  left: "ep_step a a' \<Longrightarrow> sys_step (a, b) (a', b)"
| right: "ep_step b b' \<Longrightarrow> sys_step (a, b) (a, b')"
| to_right: "pkt \<in> set (wire_out (network_state (esock a))) \<Longrightarrow> sys_step (a, b) (a, deliver pkt b)"
| to_left: "pkt \<in> set (wire_out (network_state (esock b))) \<Longrightarrow> sys_step (a, b) (deliver pkt a, b)"

inductive_cases ep_stepE: "ep_step e e'"
inductive_cases sys_stepE: "sys_step s s'"

inductive reachable :: "system \<Rightarrow> system \<Rightarrow> bool" for s0 where
  start: "reachable s0 s0"
| step: "reachable s0 s \<Longrightarrow> sys_step s s' \<Longrightarrow> reachable s0 s'"

section \<open>The start\<close>

text \<open>An endpoint right after the handshake: both initial sequence numbers are 1, nothing
  was written, and the packets of the handshake may still be on the wire.\<close>

definition fresh_conn :: "context_t \<Rightarrow> bool" where
  "fresh_conn c \<longleftrightarrow>
     \<not> ctx_done c \<and> connection_state c = CSTATE_ESTABLISHED \<and> \<not> is_APP_CLOSE_QUEUED c \<and> \<not> is_FIN_SENT c \<and>
     \<not> is_FIN_RECEIVED c \<and> next_seq_num c = 2 \<and> send_base c = 2 \<and> send_buffer c = [] \<and>
     receive_next c = 2 \<and> receive_buffer c = [] \<and> retransmission_count c = 0"

definition fresh :: "endpoint \<Rightarrow> bool" where
  "fresh e \<longleftrightarrow>
     fresh_conn (econn e) \<and> written e = [] \<and> has_read e = [] \<and> \<not> app_closed e \<and> sock_ok (esock e) \<and>
     \<not> close_requested (esock e) \<and> app_send_queue (esock e) = [] \<and> app_recv_queue (esock e) = [] \<and>
     wire_ok (network_state (esock e)) Map.empty first_byte \<and>
     (\<forall>pkt \<in> set (network_recv_queue (esock e)).
        genuine (sin_addr (peer_addr (network_state (esock e)))) (local_ip (network_state (esock e)))
          Map.empty first_byte pkt)"

definition connected :: "endpoint \<Rightarrow> endpoint \<Rightarrow> bool" where
  "connected a b \<longleftrightarrow>
     sin_addr (peer_addr (network_state (esock a))) = local_ip (network_state (esock b)) \<and>
     sin_addr (peer_addr (network_state (esock b))) = local_ip (network_state (esock a))"

definition sys_start :: "system \<Rightarrow> bool" where
  "sys_start s \<longleftrightarrow> (case s of (a, b) \<Rightarrow> fresh a \<and> fresh b \<and> connected a b)"

section \<open>The invariant\<close>

definition endpoint_ok :: "endpoint \<Rightarrow> endpoint \<Rightarrow> bool" where
  "endpoint_ok e p \<longleftrightarrow>
     ep_ok first_byte (written e) (unat (receive_next (econn p))) first_byte (written p)
       (is_FIN_SENT (econn p)) (has_read e) (esock e, econn e) \<and>
     (is_FIN_SENT (econn e) \<longrightarrow> app_closed e) \<and> (close_requested (esock e) \<longrightarrow> app_closed e) \<and>
     (ctx_done (econn e) \<longleftrightarrow> connection_state (econn e) = CSTATE_CLOSED)"

definition sys_ok :: "system \<Rightarrow> bool" where
  "sys_ok s \<longleftrightarrow> (case s of (a, b) \<Rightarrow> endpoint_ok a b \<and> endpoint_ok b a \<and> connected a b)"

lemma stream_map_empty: "stream_map base [] False = Map.empty"
  by (auto simp: stream_map_def)

lemma start_ok: "sys_start s \<Longrightarrow> sys_ok s"
  by (auto simp: stream_map_empty sys_start_def sys_ok_def endpoint_ok_def fresh_def fresh_conn_def ep_ok_def Let_def
      snd_ok_def sent_part_def window_ok_def send_buffer_ok_def queued_ok_def fin_in_flight_def
      rcv_ok_def state_ok_def flags_ok_def fin_acked_def first_byte_def MAX_STREAM_def
      buf_lo_def map_le_def)

text \<open>Only these parts of the peer matter.\<close>

lemma endpoint_ok_peer:
  assumes "endpoint_ok e p" "receive_next (econn p) \<le> receive_next (econn p')"
    "stream_map first_byte (written p) (is_FIN_SENT (econn p))
       \<subseteq>\<^sub>m stream_map first_byte (written p') (is_FIN_SENT (econn p'))"
    "first_byte + length (written p') < MAX_STREAM"
  shows "endpoint_ok e p'"
proof -
  let ?Q = "unat (receive_next (econn p))" and ?Q' = "unat (receive_next (econn p'))"
  have Q: "?Q \<le> ?Q'" using assms(2) by (simp add: word_le_nat_alt)
  have "snd_ok b W ?Q q c \<Longrightarrow> snd_ok b W ?Q' q c" for b W q c
    using Q by (auto simp: snd_ok_def window_ok_def)
  moreover have "rcv_ok b (stream_map first_byte (written p) (is_FIN_SENT (econn p))) D c \<Longrightarrow>
      rcv_ok b (stream_map first_byte (written p') (is_FIN_SENT (econn p'))) D c" for b D c
    using assms(3) by (auto simp: rcv_ok_def intro: map_le_trans)
  ultimately show ?thesis
    using assms(1,4) genuine_mono [OF _ assms(3) Q]
    unfolding endpoint_ok_def ep_ok_def Let_def prod.case by blast
qed

text \<open>What a peer may rely on when an endpoint moves.\<close>

definition ep_grows :: "endpoint \<Rightarrow> endpoint \<Rightarrow> bool" where
  "ep_grows e e' \<longleftrightarrow>
     receive_next (econn e) \<le> receive_next (econn e') \<and>
     stream_map first_byte (written e) (is_FIN_SENT (econn e))
       \<subseteq>\<^sub>m stream_map first_byte (written e') (is_FIN_SENT (econn e')) \<and>
     local_ip (network_state (esock e')) = local_ip (network_state (esock e)) \<and>
     peer_addr (network_state (esock e')) = peer_addr (network_state (esock e))"

lemma snd_ok_write:
  assumes "snd_ok base W Q q ctx" "\<not> is_FIN_SENT ctx" "base + length (W @ bs) < MAX_STREAM"
  shows "snd_ok base (W @ bs) Q (q @ [bs]) ctx"
proof -
  have sub: "stream_map base W False \<subseteq>\<^sub>m stream_map base (W @ bs) False" by (rule stream_map_grow)
  have nof: "\<not> fin_in_flight ctx" using assms(2) by (simp add: fin_in_flight_def)
  define n where "n = unat (next_seq_num ctx)"
  have W: "W = take (n - base) W @ concat q" "n + length (concat q) = base + length W"
    using assms(1) nof by (simp_all add: snd_ok_def sent_part_def n_def)
  have "W @ bs = take (n - base) (W @ bs) @ concat (q @ [bs])"
  proof -
    have "n - base \<le> length W" using W(2) by linarith
    then have "take (n - base) (W @ bs) = take (n - base) W" by simp
    then show ?thesis using W(1) by (metis append_assoc concat.simps concat_append append_Nil2)
  qed
  then have "sent_part base (W @ bs) (q @ [bs]) ctx"
    using W(2) nof assms(2,3) by (simp add: sent_part_def n_def [symmetric])
  moreover have "send_buffer_ok base (W @ bs) ctx"
    using assms(1,2) map_le_trans [OF _ sub] by (auto simp: snd_ok_def send_buffer_ok_def Let_def)
  ultimately show ?thesis using assms(1) by (simp add: snd_ok_def)
qed

lemma loop_step_ok:
  assumes ok: "endpoint_ok e p" and run: "\<not> ctx_done (econn e)" "control_iteration (esock e, econn e) = Inr (sd', ctx')"
  shows "endpoint_ok (e\<lparr>esock := sd', econn := ctx'\<rparr>) p \<and> ep_grows e (e\<lparr>esock := sd', econn := ctx'\<rparr>)"
proof -
  have ep: "ep_ok first_byte (written e) (unat (receive_next (econn p))) first_byte (written p)
      (is_FIN_SENT (econn p)) (has_read e) (esock e, econn e)"
    using ok by (simp add: endpoint_ok_def)
  have "connection_state (econn e) \<noteq> CSTATE_CLOSED" using ok run(1) by (simp add: endpoint_ok_def)
  then have "flags_ok (econn e)" using ep by (simp add: ep_ok_def Let_def state_ok_def aborted_def)
  from iteration_ok [OF ep this] run(2) have r:
    "ep_ok first_byte (written e) (unat (receive_next (econn p))) first_byte (written p)
      (is_FIN_SENT (econn p)) (has_read e) (sd', ctx')"
    "advances (econn e) ctx'" "ctx_done ctx' \<longleftrightarrow> connection_state ctx' = CSTATE_CLOSED"
    "is_FIN_SENT ctx' \<longrightarrow> is_FIN_SENT (econn e) \<or> close_requested (esock e)"
    "close_requested sd' \<longrightarrow> close_requested (esock e)"
    "local_ip (network_state sd') = local_ip (network_state (esock e))"
    "peer_addr (network_state sd') = peer_addr (network_state (esock e))"
    by auto
  have "stream_map first_byte (written e) (is_FIN_SENT (econn e))
      \<subseteq>\<^sub>m stream_map first_byte (written e) (is_FIN_SENT ctx')"
    using r(2) stream_map_fin [of first_byte "written e" "is_FIN_SENT (econn e)" "is_FIN_SENT ctx'"]
    by (cases "is_FIN_SENT (econn e)") (simp_all add: advances_def)
  with r ok show ?thesis by (auto simp: endpoint_ok_def ep_grows_def advances_def)
qed

lemma ep_step_ok:
  assumes "ep_step e e'" "endpoint_ok e p"
  shows "endpoint_ok e' p \<and> ep_grows e e'"
  using assms
proof (induction rule: ep_step.induct)
  case (loop e sd' ctx')
  then show ?case using loop_step_ok by blast
next
  case (app_write e bs)
  have nof: "\<not> is_FIN_SENT (econn e)" using app_write by (auto simp: endpoint_ok_def)
  have sub: "stream_map first_byte (written e) False \<subseteq>\<^sub>m stream_map first_byte (written e @ bs) False"
    by (rule stream_map_grow)
  have "snd_ok first_byte (written e) Q (app_recv_queue (esock e)) (econn e) \<Longrightarrow>
      snd_ok first_byte (written e @ bs) Q (app_recv_queue (esock e) @ [bs]) (econn e)" for Q
    using snd_ok_write nof app_write(2) by blast
  with app_write nof wire_ok_mono [OF _ sub order_refl] sub show ?case
    by (auto simp: endpoint_ok_def ep_ok_def Let_def sock_ok_def state_ok_def aborted_def
        mysock_enqueue_buffer_def ep_grows_def)
next
  case (app_close e)
  then show ?case
    by (auto simp: endpoint_ok_def ep_grows_def)
next
  case (app_read e n bs q)
  then have "concat (app_send_queue (esock e)) = bs @ concat q"
    using appq.take_some_content by blast
  with app_read show ?case
    by (auto simp: endpoint_ok_def ep_ok_def Let_def sock_ok_def state_ok_def aborted_def ep_grows_def)
next
  case (tick e t)
  then show ?case
    by (auto simp: endpoint_ok_def ep_ok_def Let_def sock_ok_def state_ok_def aborted_def ep_grows_def)
qed

lemma endpoint_grows_peer:
  assumes "endpoint_ok e p" "endpoint_ok p' e'" "ep_grows p p'"
  shows "endpoint_ok e p'"
proof (rule endpoint_ok_peer [OF assms(1)])
  show "receive_next (econn p) \<le> receive_next (econn p')"
    "stream_map first_byte (written p) (is_FIN_SENT (econn p))
       \<subseteq>\<^sub>m stream_map first_byte (written p') (is_FIN_SENT (econn p'))"
    using assms(3) by (simp_all add: ep_grows_def)
  show "first_byte + length (written p') < MAX_STREAM"
    using assms(2) by (simp add: endpoint_ok_def ep_ok_def Let_def snd_ok_def sent_part_def)
qed

lemma deliver_ok:
  assumes "endpoint_ok e p" "endpoint_ok p e" "connected p e"
    "pkt \<in> set (wire_out (network_state (esock p)))"
  shows "endpoint_ok (deliver pkt e) p" "ep_grows e (deliver pkt e)"
proof -
  have "wire_ok (network_state (esock p)) (stream_map first_byte (written p) (is_FIN_SENT (econn p)))
      (unat (receive_next (econn p)))"
    using assms(2) by (simp add: endpoint_ok_def ep_ok_def Let_def)
  then have "genuine (sin_addr (peer_addr (network_state (esock e)))) (local_ip (network_state (esock e)))
      (stream_map first_byte (written p) (is_FIN_SENT (econn p))) (unat (receive_next (econn p))) pkt"
    using assms(3,4) by (simp add: wire_ok_def connected_def)
  with assms(1) show "endpoint_ok (deliver pkt e) p"
    by (auto simp: endpoint_ok_def ep_ok_def Let_def sock_ok_def state_ok_def aborted_def deliver_def
        mysock_enqueue_buffer_def)
  show "ep_grows e (deliver pkt e)" by (simp add: ep_grows_def deliver_def)
qed

lemma connected_grows: "connected a b \<Longrightarrow> ep_grows a a' \<Longrightarrow> connected a' b"
  by (auto simp: connected_def ep_grows_def)

lemma connected_sym: "connected a b = connected b a"
  by (auto simp: connected_def)

lemma sys_step_ok:
  assumes "sys_step s s'" "sys_ok s"
  shows "sys_ok s'"
  using assms
proof (induction rule: sys_step.induct)
  case (left a a' b)
  then have "endpoint_ok a' b \<and> ep_grows a a'" using ep_step_ok by (auto simp: sys_ok_def)
  with left show ?case
    using endpoint_grows_peer [of b a a' b] connected_grows by (auto simp: sys_ok_def)
next
  case (right b b' a)
  then have "endpoint_ok b' a \<and> ep_grows b b'" using ep_step_ok by (auto simp: sys_ok_def)
  with right show ?case
    using endpoint_grows_peer [of a b b' a] connected_grows [of b a b'] connected_sym
    by (auto simp: sys_ok_def)
next
  case (to_right pkt a b)
  then have "endpoint_ok (deliver pkt b) a \<and> ep_grows b (deliver pkt b)"
    using deliver_ok [of b a pkt] by (auto simp: sys_ok_def)
  with to_right show ?case
    using endpoint_grows_peer [of a b "deliver pkt b" a] connected_grows [of b a "deliver pkt b"] connected_sym
    by (auto simp: sys_ok_def)
next
  case (to_left pkt b a)
  then have "endpoint_ok (deliver pkt a) b \<and> ep_grows a (deliver pkt a)"
    using deliver_ok [of a b pkt] connected_sym by (auto simp: sys_ok_def)
  with to_left show ?case
    using endpoint_grows_peer [of b a "deliver pkt a" b] connected_grows [of a b] by (auto simp: sys_ok_def)
qed

lemma reachable_ok: "reachable s0 s \<Longrightarrow> sys_ok s0 \<Longrightarrow> sys_ok s"
  by (induction rule: reachable.induct) (auto intro: sys_step_ok)


section \<open>Consequences\<close>

lemma sys_ok_parts:
  assumes "sys_ok (a, b)"
  shows "endpoint_ok a b" "endpoint_ok b a"
  using assms by (simp_all add: sys_ok_def)

lemma endpoint_rcv:
  assumes "endpoint_ok e p"
  shows "rcv_ok first_byte (stream_map first_byte (written p) (is_FIN_SENT (econn p)))
    (has_read e @ concat (app_send_queue (esock e))) (econn e)"
    "snd_ok first_byte (written e) (unat (receive_next (econn p))) (app_recv_queue (esock e)) (econn e)"
    "state_ok (esock e) (econn e)"
  using assms by (simp_all add: endpoint_ok_def ep_ok_def Let_def)

text \<open>All that was handed to the application's queue, read or not.\<close>

definition delivered :: "endpoint \<Rightarrow> bytes" where
  "delivered e = has_read e @ concat (app_send_queue (esock e))"

lemma delivered_prefix:
  assumes "endpoint_ok e p"
  shows "\<exists>rest. written p = delivered e @ rest"
    "is_FIN_RECEIVED (econn e) \<Longrightarrow> delivered e = written p \<and> is_FIN_SENT (econn p)"
proof -
  have s: "stream_map first_byte (delivered e) (is_FIN_RECEIVED (econn e))
      \<subseteq>\<^sub>m stream_map first_byte (written p) (is_FIN_SENT (econn p))"
    using endpoint_rcv(1) [OF assms] by (simp add: rcv_ok_def delivered_def)
  have "written p = delivered e @ drop (length (delivered e)) (written p)"
    using stream_prefix(1) [OF s] by (metis append_take_drop_id)
  then show "\<exists>rest. written p = delivered e @ rest" by blast
  show "is_FIN_RECEIVED (econn e) \<Longrightarrow> delivered e = written p \<and> is_FIN_SENT (econn p)"
    using stream_prefix(3) [OF s] by blast
qed

text \<open>When a FIN is acknowledged, the peer has everything up to the FIN.\<close>

lemma acked_delivered:
  assumes ok: "endpoint_ok e p" "endpoint_ok p e" and acked: "fin_acked (econn e)"
  shows "is_FIN_RECEIVED (econn p) \<and> delivered p = written e"
proof -
  let ?c = "econn e" and ?r = "unat (receive_next (econn p))"
  have snd: "snd_ok first_byte (written e) ?r (app_recv_queue (esock e)) ?c" using endpoint_rcv(2) [OF ok(1)] .
  have eq: "send_base ?c = next_seq_num ?c" and fs: "is_FIN_SENT ?c" using acked by (simp_all add: fin_acked_def)
  then have "\<not> is_APP_CLOSE_QUEUED ?c" using snd by (auto simp: snd_ok_def queued_ok_def)
  then have "fin_in_flight ?c" using fs by (simp add: fin_in_flight_def)
  then have nxt: "unat (next_seq_num ?c) = first_byte + length (written e) + 1"
    using snd fs by (auto simp: snd_ok_def sent_part_def)
  have "unat (send_base ?c) \<le> ?r" using snd by (simp add: snd_ok_def window_ok_def)
  then have le: "first_byte + length (written e) + 1 \<le> ?r" using nxt eq by simp
  have rcv: "?r = first_byte + length (delivered p) + of_bool (is_FIN_RECEIVED (econn p))"
    "stream_map first_byte (delivered p) (is_FIN_RECEIVED (econn p))
      \<subseteq>\<^sub>m stream_map first_byte (written e) (is_FIN_SENT ?c)"
    using endpoint_rcv(1) [OF ok(2)] by (simp_all add: rcv_ok_def delivered_def)
  have pre: "delivered p = take (length (delivered p)) (written e)" using stream_prefix(1) [OF rcv(2)] .
  then have "length (delivered p) \<le> length (written e)" by (metis length_take min.cobounded1)
  with le rcv(1) have "is_FIN_RECEIVED (econn p)" "length (delivered p) = length (written e)"
    by (cases "is_FIN_RECEIVED (econn p)"; simp)+
  with pre show ?thesis by simp
qed

section \<open>Properties\<close>

text \<open>C1. Reliable in-order delivery. Whatever the network does with the packets of two connected
  mysockets (loss, duplication, reordering, delay), and however the applications write, read
  and close, what an application has read is a prefix of what the other one wrote.\<close>

theorem stcp_delivers_prefix:
  assumes "sys_start s0" "reachable s0 (a, b)"
  shows "(\<exists>rest. written a = has_read b @ rest) \<and> (\<exists>rest. written b = has_read a @ rest)"
proof -
  have "sys_ok (a, b)" using reachable_ok [OF assms(2) start_ok [OF assms(1)]] .
  then have "\<exists>rest. written a = delivered b @ rest" "\<exists>rest. written b = delivered a @ rest"
    using delivered_prefix(1) sys_ok_parts by blast+
  then show ?thesis by (auto simp: delivered_def)
qed

text \<open>C7. No iteration of the control loop of a connected pair faults: no assertion fails, no
  buffer is overrun, whatever packets arrive. A loop that does not wait ends its iteration.\<close>

theorem stcp_never_faults:
  assumes "sys_start s0" "reachable s0 (a, b)" "\<not> ctx_done (econn a)"
  shows "control_iteration (esock a, econn a) = Inl Would_Block \<or>
    (\<exists>c'. control_iteration (esock a, econn a) = Inr c')"
proof -
  have ok: "endpoint_ok a b" using reachable_ok [OF assms(2) start_ok [OF assms(1)]] sys_ok_parts by blast
  then have "flags_ok (econn a)"
    using assms(3) endpoint_rcv(3) [OF ok] by (auto simp: endpoint_ok_def state_ok_def aborted_def)
  then show ?thesis using iteration_ok ok unfolding endpoint_ok_def by blast
qed

text \<open>C6. Graceful close. A connection that reached \<open>CSTATE_CLOSED\<close> without an abort has
  delivered every byte its application wrote to the peer's queue, and every byte the peer's
  application wrote to its own.\<close>

theorem stcp_graceful_close:
  assumes "sys_start s0" "reachable s0 (a, b)"
    and "connection_state (econn a) = CSTATE_CLOSED" "\<not> aborted (esock a) (econn a)"
  shows "delivered b = written a \<and> delivered a = written b \<and> app_closed a \<and> app_closed b"
proof -
  have ok: "endpoint_ok a b" "endpoint_ok b a"
    using reachable_ok [OF assms(2) start_ok [OF assms(1)]] sys_ok_parts by blast+
  have "flags_ok (econn a)" using endpoint_rcv(3) [OF ok(1)] assms(4) by (simp add: state_ok_def)
  then have f: "is_FIN_SENT (econn a)" "fin_acked (econn a)" "is_FIN_RECEIVED (econn a)"
    using assms(3) by (simp_all add: flags_ok_def)
  have "delivered b = written a" using acked_delivered [OF ok f(2)] by blast
  moreover have "delivered a = written b" "is_FIN_SENT (econn b)" using delivered_prefix(2) [OF ok(1) f(3)] by blast+
  ultimately show ?thesis using f(1) ok by (simp add: endpoint_ok_def)
qed

text \<open>C22. The end of the stream is not reported early: when the peer's FIN was processed, the
  peer's application had closed and all it wrote has been delivered.\<close>

theorem stcp_fin_means_complete:
  assumes "sys_start s0" "reachable s0 (a, b)" "is_FIN_RECEIVED (econn b)"
  shows "delivered b = written a \<and> app_closed a"
proof -
  have ok: "endpoint_ok a b" "endpoint_ok b a"
    using reachable_ok [OF assms(2) start_ok [OF assms(1)]] sys_ok_parts by blast+
  with delivered_prefix(2) [OF ok(2) assms(3)] show ?thesis by (simp add: endpoint_ok_def)
qed

text \<open>C28. The sliding window. The unacknowledged bytes never exceed the window, and the send
  buffer holds them all: its segments follow each other without a gap up to \<open>next_seq_num\<close>
  from a segment that starts at or before \<open>send_base\<close>.\<close>

theorem stcp_window:
  assumes "sys_start s0" "reachable s0 (a, b)"
  shows "send_base (econn a) \<le> next_seq_num (econn a) \<and>
    unat (next_seq_num (econn a)) - unat (send_base (econn a)) \<le> unat DEFAULT_WIN_SIZE \<and>
    {unat (send_base (econn a))..<unat (next_seq_num (econn a))} \<subseteq> dom (buf_map (send_buffer (econn a)))"
proof -
  let ?c = "econn a"
  let ?hi = "unat (next_seq_num ?c)"
  have "endpoint_ok a b" using reachable_ok [OF assms(2) start_ok [OF assms(1)]] sys_ok_parts by blast
  then have snd: "snd_ok first_byte (written a) (unat (receive_next (econn b))) (app_recv_queue (esock a)) ?c"
    by (rule endpoint_rcv(2))
  have buf: "chained (buf_lo (send_buffer ?c) ?hi) (send_buffer ?c) ?hi" "buf_lo (send_buffer ?c) ?hi \<le> unat (send_base ?c)"
    using snd by (simp_all add: snd_ok_def send_buffer_ok_def Let_def)
  have cover: "chained lo gs hi \<Longrightarrow> {lo..<hi} \<subseteq> dom (buf_map gs)" for lo gs hi
  proof (induction lo gs hi rule: chained.induct)
    case (2 lo g gs hi)
    then have "{lo..<hi} \<subseteq> {seg_lo g..<seg_hi g} \<union> {seg_hi g..<hi}" by auto
    with 2 show ?case by auto
  qed simp
  have "{unat (send_base ?c)..<?hi} \<subseteq> {buf_lo (send_buffer ?c) ?hi..<?hi}" using buf(2) by auto
  also have "\<dots> \<subseteq> dom (buf_map (send_buffer ?c))" by (rule cover [OF buf(1)])
  finally have "{unat (send_base ?c)..<?hi} \<subseteq> dom (buf_map (send_buffer ?c))" .
  moreover have w: "send_base ?c \<le> next_seq_num ?c" "?hi \<le> unat (send_base ?c) + 3072"
    using snd by (simp_all add: snd_ok_def window_ok_def)
  then have "?hi - unat (send_base ?c) \<le> unat DEFAULT_WIN_SIZE" by (simp only: DEFAULT_WIN_SIZE_def) simp
  ultimately show ?thesis using w(1) by blast
qed

text \<open>The timer is never lost: a connection with bytes in flight whose deadline has passed
  does not keep waiting, whatever else happens.\<close>

lemma stcp_timer_fires:
  assumes "sys_start s0" "reachable s0 (a, b)" "\<not> ctx_done (econn a)"
    and "send_base (econn a) \<noteq> next_seq_num (econn a)" "timeout (econn a) \<le> clock (esock a)"
  shows "\<exists>c'. control_iteration (esock a, econn a) = Inr c'"
proof -
  have ok: "endpoint_ok a b" using reachable_ok [OF assms(2) start_ok [OF assms(1)]] sys_ok_parts by blast
  then have ep: "ep_ok first_byte (written a) (unat (receive_next (econn b))) first_byte (written b)
      (is_FIN_SENT (econn b)) (has_read a) (esock a, econn a)" and fl: "flags_ok (econn a)"
    using assms(3) endpoint_rcv(3) [OF ok] by (auto simp: endpoint_ok_def state_ok_def aborted_def)
  have "\<exists>r. stcp_wait_for_event (esock a) (wait_flags (econn a)) (Some (timeout (econn a))) = Inr r"
    using assms(5) by (simp add: stcp_wait_for_event_def split: prod.split)
  then show ?thesis using iteration_ok [OF ep fl] assms(4) by auto
qed

text \<open>A connection is given up only after five retransmissions: when an iteration ends in
  \<open>CSTATE_CLOSED\<close> and the two FINs were not both exchanged and acknowledged, bytes were in
  flight, five retransmissions had gone unanswered, the deadline had passed once more, and the
  application sees \<open>ECONNABORTED\<close>.\<close>

lemma stcp_aborts_only_after_retries:
  assumes "sys_start s0" "reachable s0 (a, b)" "\<not> ctx_done (econn a)"
    and "control_iteration (esock a, econn a) = Inr (sd', ctx')" "connection_state ctx' = CSTATE_CLOSED"
    and "\<not> (fin_acked ctx' \<and> is_FIN_RECEIVED ctx')"
  shows "retransmission_count (econn a) = MAX_RETRANSMISSION_COUNT \<and> timeout (econn a) \<le> clock (esock a) \<and>
    send_base (econn a) \<noteq> next_seq_num (econn a) \<and> thread_errno sd' = ECONNABORTED"
proof -
  have ok: "endpoint_ok a b" using reachable_ok [OF assms(2) start_ok [OF assms(1)]] sys_ok_parts by blast
  then have ep: "ep_ok first_byte (written a) (unat (receive_next (econn b))) first_byte (written b)
      (is_FIN_SENT (econn b)) (has_read a) (esock a, econn a)" and fl: "flags_ok (econn a)"
    using assms(3) endpoint_rcv(3) [OF ok] by (auto simp: endpoint_ok_def state_ok_def aborted_def)
  have "\<not> flags_ok ctx'" using assms(5,6) by (auto simp: flags_ok_def)
  then show ?thesis
    using iteration_ok [OF ep fl] assms(4) by (auto simp: MAX_RETRANSMISSION_COUNT_def aborted_def)
qed


end
