(* ===== verification/Stcp_Handshake.thy ===== *)
theory Stcp_Handshake
  imports Stcp_System
begin

text \<open>
  Connection set-up of \<^verbatim>\<open>hw3/transport.c\<close>: \<open>do_active_handshake\<close>,
  \<open>do_passive_handshake\<close> and \<open>transport_init\<close>. The loops are cut where the thread waits, so
  that the network and the clock can act there: a phase says where in the code the thread is
  and carries the local header that the loop sends again. Two endpoints that set up a
  connection over a network that loses, duplicates, delays and reorders packets reach the
  start state of \<open>Stcp_System\<close>.
\<close>

section \<open>The handshake\<close>

datatype hs_phase =
    Active_Send tcphdr
  | Active_Wait tcphdr
  | Passive_Listen
  | Passive_Send tcphdr
  | Passive_Wait tcphdr
  | Handshake_Done
  | Handshake_Failed

type_synonym hs = "hs_phase \<times> mysock_context \<times> context_t"

text \<open>The top of the active loop, up to the wait.\<close>

definition active_send :: "tcphdr \<Rightarrow> mysock_context \<Rightarrow> context_t \<Rightarrow> hs result" where
  "active_send syn sd ctx =
     (if retransmission_count ctx \<le> MAX_RETRANSMISSION_COUNT then
        rbind (stcp_network_send sd syn []) (\<lambda>sd1.
          let ctx1 = (if retransmission_count ctx = 0
                then ctx\<lparr>next_seq_num := next_seq_num ctx + 1\<rparr> else ctx)
          in Inr (Active_Wait syn, sd1, log_time_and_calculate_timeout (clock sd1) ctx1))
      else Inr (Handshake_Failed, sd, ctx))"

text \<open>The rest of the active loop, from the wait on.\<close>

definition active_wait :: "tcphdr \<Rightarrow> mysock_context \<Rightarrow> context_t \<Rightarrow> hs result" where
  "active_wait syn sd ctx =
     rbind (stcp_wait_for_event sd NETWORK_DATA (Some (timeout ctx))) (\<lambda>(event, sd1).
       if event = TIMEOUT then
         (let ctx1 = update_rto (clock sd1) ctx True
          in Inr (Active_Send syn, sd1, ctx1\<lparr>retransmission_count := retransmission_count ctx1 + 1\<rparr>))
       else rbind (stcp_network_recv sd1 (STCP_HEADER_LEN + STCP_MSS)) (\<lambda>(buf, sd2).
         if \<not> is_valid_seg_len_and_flags buf (int (length buf)) (TH_SYN OR TH_ACK)
         then Inr (Active_Send syn, sd2, ctx)
         else if pkt_ack buf \<noteq> send_base ctx + 1 then Inr (Active_Send syn, sd2, ctx)
         else
           let ctx1 = (if retransmission_count ctx = 0 then update_rto (clock sd2) ctx False else ctx);
               ctx2 = ctx1\<lparr>send_base := pkt_ack buf, peer_initial_seq := pkt_seq buf,
                           receive_next := pkt_seq buf + 1, retransmission_count := 0\<rparr>
           in rbind (send_control sd2 ctx2 TH_ACK) (\<lambda>sd3. Inr (Handshake_Done, sd3, ctx2))))"

text \<open>The first loop of the passive side: waiting for a SYN, without a deadline.\<close>

definition passive_listen :: "mysock_context \<Rightarrow> context_t \<Rightarrow> hs result" where
  "passive_listen sd ctx =
     rbind (stcp_wait_for_event sd NETWORK_DATA None) (\<lambda>(event, sd1).
     rbind (stcp_network_recv sd1 (STCP_HEADER_LEN + STCP_MSS)) (\<lambda>(buf, sd2).
       if is_valid_seg_len_and_flags buf (int (length buf)) TH_SYN then
         (let ctx1 = ctx\<lparr>peer_initial_seq := pkt_seq buf, receive_next := pkt_seq buf + 1,
                         retransmission_count := 0\<rparr>
          in Inr (Passive_Send (build_header (next_seq_num ctx1) (receive_next ctx1) (TH_SYN OR TH_ACK)),
                  sd2, ctx1))
       else Inr (Passive_Listen, sd2, ctx)))"

definition passive_send :: "tcphdr \<Rightarrow> mysock_context \<Rightarrow> context_t \<Rightarrow> hs result" where
  "passive_send synack sd ctx =
     (if retransmission_count ctx < 6 then
        rbind (stcp_network_send sd synack []) (\<lambda>sd1.
          let ctx1 = log_time_and_calculate_timeout (clock sd1) ctx
          in Inr (Passive_Wait synack, sd1, ctx1\<lparr>next_seq_num := send_base ctx1 + 1\<rparr>))
      else Inr (Handshake_Failed, sd, ctx))"

definition passive_wait :: "tcphdr \<Rightarrow> mysock_context \<Rightarrow> context_t \<Rightarrow> hs result" where
  "passive_wait synack sd ctx =
     rbind (stcp_wait_for_event sd NETWORK_DATA (Some (timeout ctx))) (\<lambda>(event, sd1).
       if event AND NETWORK_DATA = 0 then
         (let ctx1 = update_rto (clock sd1) ctx True
          in Inr (Passive_Send synack, sd1, ctx1\<lparr>retransmission_count := retransmission_count ctx1 + 1\<rparr>))
       else rbind (stcp_network_recv sd1 (STCP_HEADER_LEN + STCP_MSS)) (\<lambda>(buf, sd2).
         if \<not> is_valid_seg_len_and_flags buf (int (length buf)) TH_ACK
         then Inr (Passive_Send synack, sd2, ctx)
         else if pkt_ack buf \<noteq> send_base ctx + 1 then Inr (Passive_Send synack, sd2, ctx)
         else
           let ctx1 = (if retransmission_count ctx = 0 then update_rto (clock sd2) ctx False else ctx);
               header_len = unat (pkt_off buf) * 4;
               plen = int (length buf) - int header_len;
               sd3 = (if 0 < plen then stcp_app_send sd2 (drop header_len buf) else sd2)
           in Inr (Handshake_Done, sd3,
                ctx1\<lparr>send_base := pkt_ack buf, peer_initial_seq := pkt_seq buf,
                     receive_next := pkt_seq buf + of_int plen, retransmission_count := 0\<rparr>)))"

text \<open>One step of the thread between two points where others may act. A finished handshake
  does not step.\<close>

fun handshake_step :: "hs \<Rightarrow> hs result" where
  "handshake_step (Active_Send syn, sd, ctx) = active_send syn sd ctx"
| "handshake_step (Active_Wait syn, sd, ctx) = active_wait syn sd ctx"
| "handshake_step (Passive_Listen, sd, ctx) = passive_listen sd ctx"
| "handshake_step (Passive_Send synack, sd, ctx) = passive_send synack sd ctx"
| "handshake_step (Passive_Wait synack, sd, ctx) = passive_wait synack sd ctx"
| "handshake_step (Handshake_Done, sd, ctx) = Inl Would_Block"
| "handshake_step (Handshake_Failed, sd, ctx) = Inl Would_Block"

text \<open>The code before the loop: the active side builds its SYN and resets the counter.\<close>

definition active_start :: "context_t \<Rightarrow> hs_phase \<times> context_t" where
  "active_start ctx =
     (Active_Send (build_header (next_seq_num ctx) 0 TH_SYN), ctx\<lparr>retransmission_count := 0\<rparr>)"

section \<open>\<open>transport_init\<close>\<close>

text \<open>\<open>transport_init\<close> up to the handshake.\<close>

definition transport_start :: "bool \<Rightarrow> mysock_context \<Rightarrow> hs" where
  "transport_start active sd =
     (if active then (case active_start init_context of (phase, ctx) \<Rightarrow> (phase, sd, ctx))
      else (Passive_Listen, sd, init_context))"

definition EINTR :: int where "EINTR = 4"

definition stcp_unblock_application :: "mysock_context \<Rightarrow> mysock_context result" where
  "stcp_unblock_application sd =
     rbind (c_assert (blocking sd)) (\<lambda>_.
       Inr (sd\<lparr>blocking := False,
              stcp_errno := (if thread_errno sd = EINTR then 0 else thread_errno sd)\<rparr>))"

text \<open>\<open>transport_init\<close> after the handshake: \<open>None\<close> when it returns because the handshake
  failed, else the connection the control loop starts with.\<close>

definition transport_connected :: "hs \<Rightarrow> (mysock_context \<times> context_t option) result" where
  "transport_connected h =
     (case h of (phase, sd, ctx) \<Rightarrow>
        if phase = Handshake_Failed
        then rbind (stcp_unblock_application (sd\<lparr>thread_errno := ECONNREFUSED\<rparr>)) (\<lambda>sd'. Inr (sd', None))
        else rbind (stcp_unblock_application sd)
               (\<lambda>sd'. Inr (sd', Some (ctx\<lparr>connection_state := CSTATE_ESTABLISHED\<rparr>))))"

end
