(* ===== verification/Stcp_Setup.thy ===== *)
theory Stcp_Setup
  imports Stcp_Handshake
begin

text \<open>
  What connection set-up establishes: the invariant of two endpoints in the handshake, the
  start of a session, giving up, and the one packet the passive side should not accept.
\<close>

section \<open>Two endpoints in the handshake\<close>

text \<open>While \<open>transport_init\<close> sets the connection up the application waits in \<open>myconnect\<close>
  or \<open>myaccept\<close>: only the two threads, the network and the clocks act.\<close>

inductive hs_move :: "hs \<Rightarrow> hs \<Rightarrow> bool" where
  run: "handshake_step h = Inr h' \<Longrightarrow> hs_move h h'"
| tick: "clock sd \<le> t \<Longrightarrow> hs_move (ph, sd, ctx) (ph, sd\<lparr>clock := t\<rparr>, ctx)"

definition hs_sock :: "hs \<Rightarrow> mysock_context" where "hs_sock h = fst (snd h)"

definition hs_deliver :: "bytes \<Rightarrow> hs \<Rightarrow> hs" where
  "hs_deliver pkt h = (case h of (ph, sd, ctx) \<Rightarrow>
     (ph, sd\<lparr>network_recv_queue := mysock_enqueue_buffer (network_recv_queue sd) pkt\<rparr>, ctx))"

inductive hs_step :: "hs \<times> hs \<Rightarrow> hs \<times> hs \<Rightarrow> bool" where
  hs_left: "hs_move a a' \<Longrightarrow> hs_step (a, b) (a', b)"
| hs_right: "hs_move b b' \<Longrightarrow> hs_step (a, b) (a, b')"
| hs_to_right: "pkt \<in> set (wire_out (network_state (hs_sock a))) \<Longrightarrow> hs_step (a, b) (a, hs_deliver pkt b)"
| hs_to_left: "pkt \<in> set (wire_out (network_state (hs_sock b))) \<Longrightarrow> hs_step (a, b) (hs_deliver pkt a, b)"

inductive_cases hs_moveE: "hs_move h h'"
inductive_cases hs_stepE: "hs_step s s'"

inductive set_up :: "hs \<times> hs \<Rightarrow> hs \<times> hs \<Rightarrow> bool" for s0 where
  hs_start: "set_up s0 s0"
| hs_next: "set_up s0 s \<Longrightarrow> hs_step s s' \<Longrightarrow> set_up s0 s'"

text \<open>The mysockets as \<open>myconnect\<close> and \<open>myaccept\<close> leave them when the threads start.\<close>

definition idle :: "mysock_context \<Rightarrow> bool" where
  "idle sd \<longleftrightarrow> sock_ok sd \<and> blocking sd \<and> \<not> close_requested sd \<and> network_recv_queue sd = [] \<and>
     app_send_queue sd = [] \<and> app_recv_queue sd = [] \<and> wire_out (network_state sd) = [] \<and>
     \<not> copied (network_state sd)"

definition peers :: "mysock_context \<Rightarrow> mysock_context \<Rightarrow> bool" where
  "peers a b \<longleftrightarrow>
     sin_addr (peer_addr (network_state a)) = local_ip (network_state b) \<and>
     sin_addr (peer_addr (network_state b)) = local_ip (network_state a)"

definition setup_start :: "hs \<times> hs \<Rightarrow> bool" where
  "setup_start s \<longleftrightarrow> (\<exists>sa sb. s = (transport_start True sa, transport_start False sb) \<and>
     idle sa \<and> idle sb \<and> peers sa sb)"

section \<open>The packets of the handshake\<close>

definition control_packet :: "u32 \<Rightarrow> u32 \<Rightarrow> bytes \<Rightarrow> bool" where
  "control_packet src dst pkt \<longleftrightarrow> genuine src dst Map.empty first_byte pkt \<and> length pkt = STCP_HEADER_LEN"

definition active_packet :: "u32 \<Rightarrow> u32 \<Rightarrow> bytes \<Rightarrow> bool" where
  "active_packet src dst pkt \<longleftrightarrow> control_packet src dst pkt \<and>
     (pkt_flags pkt = TH_SYN \<and> pkt_seq pkt = 1 \<and> pkt_ack pkt = 0 \<or>
      pkt_flags pkt = TH_ACK \<and> pkt_seq pkt = 2 \<and> pkt_ack pkt = 2)"

definition passive_packet :: "u32 \<Rightarrow> u32 \<Rightarrow> bytes \<Rightarrow> bool" where
  "passive_packet src dst pkt \<longleftrightarrow> control_packet src dst pkt \<and>
     pkt_flags pkt = (TH_SYN OR TH_ACK) \<and> pkt_seq pkt = 1 \<and> pkt_ack pkt = 2"

definition on_wire :: "(u32 \<Rightarrow> u32 \<Rightarrow> bytes \<Rightarrow> bool) \<Rightarrow> network_context \<Rightarrow> bool" where
  "on_wire P net \<longleftrightarrow> (let ok = P (local_ip net) (sin_addr (peer_addr net))
     in (\<forall>pkt \<in> set (wire_out net). ok pkt) \<and> (copied net \<longrightarrow> ok (copy_buffer net)))"

definition queued :: "(u32 \<Rightarrow> u32 \<Rightarrow> bytes \<Rightarrow> bool) \<Rightarrow> mysock_context \<Rightarrow> bool" where
  "queued P sd \<longleftrightarrow> (\<forall>pkt \<in> set (network_recv_queue sd).
     P (sin_addr (peer_addr (network_state sd))) (local_ip (network_state sd)) pkt)"

lemma network_send_on_wire:
  assumes "P (local_ip net) (sin_addr (peer_addr net)) pkt" "on_wire P net" "network_send net pkt = Inr net'"
  shows "on_wire P net'"
  using assms by (auto simp: network_send_def network_send_packet_def on_wire_def Let_def
      rbind_eq_Inr_iff split: if_splits)

text \<open>Sending a header without data: the packet has the header's fields.\<close>

lemma send_header:
  assumes "sock_ok sd" "on_wire P (network_state sd)" "unat ack \<le> first_byte" "fl AND TH_FIN = 0"
    and P: "\<And>pkt. control_packet (local_ip (network_state sd)) (sin_addr (peer_addr (network_state sd))) pkt \<Longrightarrow>
      pkt_flags pkt = fl \<Longrightarrow> pkt_seq pkt = sq \<Longrightarrow> pkt_ack pkt = ack \<Longrightarrow>
      P (local_ip (network_state sd)) (sin_addr (peer_addr (network_state sd))) pkt"
  shows "\<exists>sd'. stcp_network_send sd (build_header sq ack fl) [] = Inr sd' \<and> sent_by sd sd' \<and>
    on_wire P (network_state sd')"
proof -
  let ?h = "build_header sq ack fl"
  obtain sd' where send: "stcp_network_send sd ?h [] = Inr sd'"
    using stcp_network_send_total [OF assms(1), of "[]" ?h] by auto
  then obtain packet net' where packet: "stcp_packet sd (hdr_bytes ?h) [] = Inr packet"
    and net': "network_send (network_state sd) packet = Inr net'" "sd' = sd\<lparr>network_state := net'\<rparr>"
    by (auto simp: stcp_network_send_def rbind_eq_Inr_iff)
  note f = stcp_packet_fields [OF packet]
  have "control_packet (local_ip (network_state sd)) (sin_addr (peer_addr (network_state sd))) packet"
    unfolding control_packet_def genuine_def pkt_segment_def
    using f assms(3,4) stcp_packet_verifies [OF packet]
    by (simp add: build_header_def STCP_HEADER_LEN_def carries_def seg_hi_def payload_len_def)
  then have "P (local_ip (network_state sd)) (sin_addr (peer_addr (network_state sd))) packet"
    using P f by (simp add: build_header_def)
  from network_send_on_wire [OF this assms(2) net'(1)] network_send_same [OF net'(1)] send net'(2)
  show ?thesis by (auto intro: sent_by_net)
qed

lemma flag_bits:
  "TH_SYN AND TH_FIN = 0" "TH_ACK AND TH_FIN = 0" "(TH_SYN OR TH_ACK) AND TH_FIN = 0"
  "TH_SYN AND TH_ACK = 0" "TH_ACK AND TH_SYN = 0"
  "TH_SYN \<noteq> 0" "TH_ACK \<noteq> 0" "(TH_SYN OR TH_ACK) AND TH_ACK = TH_ACK"
  "(TH_SYN OR TH_ACK) AND TH_SYN = TH_SYN" "TH_SYN AND TH_SYN = TH_SYN" "TH_ACK AND TH_ACK = TH_ACK"
  "(TH_SYN OR TH_ACK) AND (TH_SYN OR TH_ACK) = TH_SYN OR TH_ACK"
  by (simp_all add: TH_SYN_def TH_ACK_def TH_FIN_def)

section \<open>The invariant\<close>

text \<open>The fields that the handshake leaves as \<open>transport_init\<close> set them.\<close>

definition unused :: "context_t \<Rightarrow> bool" where
  "unused c \<longleftrightarrow> \<not> ctx_done c \<and> connection_state c = CSTATE_ESTABLISHED \<and> \<not> is_APP_CLOSE_QUEUED c \<and>
     \<not> is_FIN_SENT c \<and> \<not> is_FIN_RECEIVED c \<and> send_buffer c = [] \<and> receive_buffer c = []"

definition hs_numbers :: "context_t \<Rightarrow> bool" where
  "hs_numbers c \<longleftrightarrow> send_base c = 1 \<and> 0 \<le> retransmission_count c \<and> retransmission_count c \<le> 6 \<and>
     rto c = 2 ^ nat (retransmission_count c)"

definition hs_sockets :: "(u32 \<Rightarrow> u32 \<Rightarrow> bytes \<Rightarrow> bool) \<Rightarrow> (u32 \<Rightarrow> u32 \<Rightarrow> bytes \<Rightarrow> bool) \<Rightarrow>
    mysock_context \<Rightarrow> bool" where
  "hs_sockets P Q sd \<longleftrightarrow> sock_ok sd \<and> blocking sd \<and> \<not> close_requested sd \<and> app_send_queue sd = [] \<and>
     app_recv_queue sd = [] \<and> on_wire P (network_state sd) \<and> queued Q sd"

definition connected_numbers :: "context_t \<Rightarrow> bool" where
  "connected_numbers c \<longleftrightarrow> next_seq_num c = 2 \<and> send_base c = 2 \<and> receive_next c = 2 \<and>
     retransmission_count c = 0"

fun active_ok :: "hs \<Rightarrow> bool" where
  "active_ok (ph, sd, c) \<longleftrightarrow> hs_sockets active_packet passive_packet sd \<and> unused c \<and>
     (case ph of
        Active_Send syn \<Rightarrow> syn = build_header 1 0 TH_SYN \<and> hs_numbers c \<and>
          next_seq_num c = (if retransmission_count c = 0 then 1 else 2)
      | Active_Wait syn \<Rightarrow> syn = build_header 1 0 TH_SYN \<and> hs_numbers c \<and> retransmission_count c \<le> 5 \<and>
          next_seq_num c = 2
      | Handshake_Done \<Rightarrow> connected_numbers c
      | Handshake_Failed \<Rightarrow> hs_numbers c \<and> retransmission_count c = 6
      | _ \<Rightarrow> False)"

fun passive_ok :: "hs \<Rightarrow> bool" where
  "passive_ok (ph, sd, c) \<longleftrightarrow> hs_sockets passive_packet active_packet sd \<and> unused c \<and>
     (case ph of
        Passive_Listen \<Rightarrow> hs_numbers c \<and> retransmission_count c = 0 \<and> next_seq_num c = 1
      | Passive_Send synack \<Rightarrow> synack = build_header 1 2 (TH_SYN OR TH_ACK) \<and> hs_numbers c \<and> receive_next c = 2
      | Passive_Wait synack \<Rightarrow> synack = build_header 1 2 (TH_SYN OR TH_ACK) \<and> hs_numbers c \<and>
          retransmission_count c \<le> 5 \<and> receive_next c = 2 \<and> next_seq_num c = 2
      | Handshake_Done \<Rightarrow> connected_numbers c
      | Handshake_Failed \<Rightarrow> hs_numbers c \<and> retransmission_count c = 6
      | _ \<Rightarrow> False)"

lemma idle_sockets:
  assumes "idle sd"
  shows "hs_sockets P Q sd"
  using assms by (auto simp: idle_def hs_sockets_def on_wire_def queued_def Let_def)

lemma start_ok_hs:
  assumes "idle sd"
  shows "active_ok (transport_start True sd)" "passive_ok (transport_start False sd)"
  using idle_sockets [OF assms]
  by (simp_all add: transport_start_def active_start_def init_context_def zero_context_def
      generate_initial_seq_num_def segment_list_init_def unused_def hs_numbers_def Let_def)

lemma sent_by_sockets:
  assumes "sent_by sd sd'" "hs_sockets P Q sd" "on_wire P (network_state sd')"
  shows "hs_sockets P Q sd'"
proof -
  obtain net where n: "sd' = sd\<lparr>network_state := net\<rparr>"
    using assms(1) unfolding sent_by_def by metis
  show ?thesis using assms(2,3) sent_by_fields [OF assms(1)] n by (simp add: hs_sockets_def queued_def)
qed

lemma update_rto_unused [simp]: "unused (update_rto t c b) = unused c"
  by (simp add: unused_def)

lemma log_time_unused [simp]: "unused (log_time_and_calculate_timeout t c) = unused c"
  by (simp add: unused_def)

lemma wait_network:
  assumes "hs_sockets P Q sd"
  shows "stcp_wait_for_event sd NETWORK_DATA t =
    (if network_recv_queue sd \<noteq> [] then Inr (NETWORK_DATA, sd)
     else case t of None \<Rightarrow> Inl Would_Block
       | Some d \<Rightarrow> if d \<le> clock sd then Inr (TIMEOUT, sd) else Inl Would_Block)"
  using assms by (simp add: stcp_wait_for_event_def wait_poll_def hs_sockets_def event_defs split: option.split)

lemma recv_queued:
  assumes "hs_sockets P Q sd" "network_recv_queue sd = pkt # rest"
    "\<And>src dst p. Q src dst p \<Longrightarrow> control_packet src dst p"
  shows "stcp_network_recv sd (STCP_HEADER_LEN + STCP_MSS) = Inr (pkt, sd\<lparr>network_recv_queue := rest\<rparr>)"
    "Q (sin_addr (peer_addr (network_state sd))) (local_ip (network_state sd)) pkt"
    "hs_sockets P Q (sd\<lparr>network_recv_queue := rest\<rparr>)"
proof -
  show q: "Q (sin_addr (peer_addr (network_state sd))) (local_ip (network_state sd)) pkt"
    using assms(1,2) by (simp add: hs_sockets_def queued_def)
  have "genuine (sin_addr (peer_addr (network_state sd))) (local_ip (network_state sd)) Map.empty first_byte pkt"
    using assms(3) [OF q] by (simp add: control_packet_def)
  then show "stcp_network_recv sd (STCP_HEADER_LEN + STCP_MSS) = Inr (pkt, sd\<lparr>network_recv_queue := rest\<rparr>)"
    using network_recv_genuine assms(1,2) by (simp add: hs_sockets_def)
  show "hs_sockets P Q (sd\<lparr>network_recv_queue := rest\<rparr>)"
    using assms(1,2) by (simp add: hs_sockets_def queued_def sock_ok_def)
qed

lemma active_control: "active_packet src dst p \<Longrightarrow> control_packet src dst p"
  by (simp add: active_packet_def)

lemma passive_control: "passive_packet src dst p \<Longrightarrow> control_packet src dst p"
  by (simp add: passive_packet_def)

lemma control_valid:
  "control_packet src dst p \<Longrightarrow>
     is_valid_seg_len_and_flags p (int (length p)) fl = (pkt_flags p AND fl = fl)"
  by (auto simp: control_packet_def is_valid_seg_len_and_flags_def)

lemma timeout_bits: "TIMEOUT AND NETWORK_DATA = 0"
  by (simp add: event_defs)

lemma rto_doubled: "rto (update_rto t c True) = rto c * 2"
  by (simp add: update_rto_def)

lemma power_next: "0 \<le> n \<Longrightarrow> (2::real) ^ nat (n + 1) = 2 ^ nat n * 2"
  by (simp add: nat_add_distrib)

lemma active_send_ok:
  assumes "active_ok (Active_Send syn, sd, c)"
  shows "\<exists>h. active_send syn sd c = Inr h \<and> active_ok h"
proof (cases "retransmission_count c \<le> 5")
  case True
  have w: "on_wire active_packet (network_state sd)" "sock_ok sd" "syn = build_header 1 0 TH_SYN"
    using assms by (auto simp: hs_sockets_def)
  obtain sd' where sd': "stcp_network_send sd syn [] = Inr sd'" "sent_by sd sd'"
      "on_wire active_packet (network_state sd')"
    using send_header [OF w(2,1), of 0 TH_SYN 1] flag_bits w(3) by (auto simp: active_packet_def first_byte_def)
  have "hs_sockets active_packet passive_packet sd'"
    using sent_by_sockets [OF sd'(2) _ sd'(3)] assms by simp
  then show ?thesis
    using True sd'(1) assms
    by (auto simp: active_send_def MAX_RETRANSMISSION_COUNT_def Let_def hs_numbers_def unused_def)
next
  case False
  then have "retransmission_count c = 6" using assms by (simp add: hs_numbers_def)
  then show ?thesis using assms by (auto simp: active_send_def MAX_RETRANSMISSION_COUNT_def)
qed

lemma active_wait_ok:
  assumes ok: "active_ok (Active_Wait syn, sd, c)"
  shows "(\<exists>h. active_wait syn sd c = Inr h \<and> active_ok h) \<or>
    active_wait syn sd c = Inl Would_Block \<and> network_recv_queue sd = [] \<and> clock sd < timeout c"
proof -
  have s: "hs_sockets active_packet passive_packet sd" using ok by simp
  note w = wait_network [OF s]
  show ?thesis
  proof (cases "network_recv_queue sd")
    case Nil
    show ?thesis
    proof (cases "timeout c \<le> clock sd")
      case True
      have "hs_numbers (update_rto (clock sd) c True\<lparr>retransmission_count := retransmission_count c + 1\<rparr>)"
        using ok by (simp add: hs_numbers_def rto_doubled power_next)
      then show ?thesis
        using True Nil ok by (simp add: active_wait_def w Let_def unused_def) (simp add: hs_numbers_def)
    next
      case False
      then show ?thesis using Nil by (simp add: active_wait_def w)
    qed
  next
    case (Cons pkt rest)
    note r = recv_queued [OF s Cons passive_control]
    have p: "pkt_flags pkt = (TH_SYN OR TH_ACK)" "pkt_seq pkt = 1" "pkt_ack pkt = 2"
      using r(2) by (auto simp: passive_packet_def)
    note v = control_valid [OF passive_control [OF r(2)]]
    let ?sd = "sd\<lparr>network_recv_queue := rest\<rparr>"
    define c2 where "c2 = (if retransmission_count c = 0 then update_rto (clock sd) c False else c)
      \<lparr>send_base := 2, peer_initial_seq := 1, receive_next := 2, retransmission_count := 0\<rparr>"
    have c2: "unused c2" "connected_numbers c2"
      using ok by (simp_all add: c2_def unused_def connected_numbers_def)
    have sw: "sock_ok ?sd" "on_wire active_packet (network_state ?sd)"
      using r(3) by (auto simp: hs_sockets_def)
    obtain sd3 where sd3: "send_control ?sd c2 TH_ACK = Inr sd3" "sent_by ?sd sd3"
        "on_wire active_packet (network_state sd3)"
      using send_header [OF sw, of 2 TH_ACK 2] flag_bits c2(2)
      by (auto simp: send_control_def connected_numbers_def active_packet_def first_byte_def)
    have "active_ok (Handshake_Done, sd3, c2)"
      using sent_by_sockets [OF sd3(2) r(3) sd3(3)] c2 by simp
    moreover have "active_wait syn sd c = Inr (Handshake_Done, sd3, c2)"
      using ok Cons p sd3(1) unfolding active_wait_def w c2_def
      by (cases "retransmission_count c = 0") (simp_all add: r(1) Let_def v flag_bits hs_numbers_def event_defs)
    ultimately show ?thesis by blast
  qed
qed

lemma passive_listen_ok:
  assumes ok: "passive_ok (Passive_Listen, sd, c)"
  shows "(\<exists>h. passive_listen sd c = Inr h \<and> passive_ok h) \<or>
    passive_listen sd c = Inl Would_Block \<and> network_recv_queue sd = []"
proof -
  have s: "hs_sockets passive_packet active_packet sd" using ok by simp
  note w = wait_network [OF s]
  show ?thesis
  proof (cases "network_recv_queue sd")
    case Nil
    then show ?thesis by (simp add: passive_listen_def w)
  next
    case (Cons pkt rest)
    note r = recv_queued [OF s Cons active_control]
    have p: "pkt_flags pkt = TH_SYN \<and> pkt_seq pkt = 1 \<or> pkt_flags pkt = TH_ACK"
      using r(2) by (auto simp: active_packet_def)
    note v = control_valid [OF active_control [OF r(2)]]
    from p show ?thesis
    proof
      assume "pkt_flags pkt = TH_SYN \<and> pkt_seq pkt = 1"
      then show ?thesis
        using ok Cons r(1,3)
        by (simp add: passive_listen_def w v flag_bits unused_def hs_numbers_def Let_def)
    next
      assume "pkt_flags pkt = TH_ACK"
      then show ?thesis
        using ok Cons r(1,3) flag_bits(6)
        by (simp add: passive_listen_def w v flag_bits(5))
    qed
  qed
qed

lemma passive_send_ok:
  assumes "passive_ok (Passive_Send synack, sd, c)"
  shows "\<exists>h. passive_send synack sd c = Inr h \<and> passive_ok h"
proof (cases "retransmission_count c < 6")
  case True
  have w: "on_wire passive_packet (network_state sd)" "sock_ok sd" "synack = build_header 1 2 (TH_SYN OR TH_ACK)"
    using assms by (auto simp: hs_sockets_def)
  obtain sd' where sd': "stcp_network_send sd synack [] = Inr sd'" "sent_by sd sd'"
      "on_wire passive_packet (network_state sd')"
    using send_header [OF w(2,1), of 2 "TH_SYN OR TH_ACK" 1] flag_bits w(3)
    by (auto simp: passive_packet_def first_byte_def)
  have "hs_sockets passive_packet active_packet sd'"
    using sent_by_sockets [OF sd'(2) _ sd'(3)] assms by simp
  then show ?thesis
    using True sd'(1) assms by (auto simp: passive_send_def Let_def hs_numbers_def unused_def)
next
  case False
  then have "retransmission_count c = 6" using assms by (simp add: hs_numbers_def)
  then show ?thesis using assms by (auto simp: passive_send_def)
qed

lemma passive_wait_ok:
  assumes ok: "passive_ok (Passive_Wait synack, sd, c)"
  shows "(\<exists>h. passive_wait synack sd c = Inr h \<and> passive_ok h) \<or>
    passive_wait synack sd c = Inl Would_Block \<and> network_recv_queue sd = [] \<and> clock sd < timeout c"
proof -
  have s: "hs_sockets passive_packet active_packet sd" using ok by simp
  note w = wait_network [OF s]
  show ?thesis
  proof (cases "network_recv_queue sd")
    case Nil
    show ?thesis
    proof (cases "timeout c \<le> clock sd")
      case True
      have "hs_numbers (update_rto (clock sd) c True\<lparr>retransmission_count := retransmission_count c + 1\<rparr>)"
        using ok by (simp add: hs_numbers_def rto_doubled power_next)
      then show ?thesis
        using True Nil ok timeout_bits by (simp add: passive_wait_def w Let_def unused_def)
    next
      case False
      then show ?thesis using Nil by (simp add: passive_wait_def w)
    qed
  next
    case (Cons pkt rest)
    note r = recv_queued [OF s Cons active_control]
    have p: "pkt_flags pkt = TH_SYN \<or> pkt_flags pkt = TH_ACK \<and> pkt_seq pkt = 2 \<and> pkt_ack pkt = 2"
        "length pkt = STCP_HEADER_LEN" "pkt_off pkt = 5"
      using r(2) by (auto simp: active_packet_def control_packet_def genuine_def)
    note v = control_valid [OF active_control [OF r(2)]]
    have nw: "NETWORK_DATA AND NETWORK_DATA \<noteq> 0" by (simp add: event_defs)
    from p(1) show ?thesis
    proof
      assume "pkt_flags pkt = TH_SYN"
      then show ?thesis
        using ok Cons r(1,3) nw flag_bits(7)
        by (simp add: passive_wait_def w v flag_bits(4))
    next
      assume a: "pkt_flags pkt = TH_ACK \<and> pkt_seq pkt = 2 \<and> pkt_ack pkt = 2"
      let ?c = "(if retransmission_count c = 0 then update_rto (clock sd) c False else c)
        \<lparr>send_base := 2, peer_initial_seq := 2, receive_next := 2, retransmission_count := 0\<rparr>"
      have plen: "int (length pkt) = uint (pkt_off pkt) * 4"
        using p(2,3) by (simp add: STCP_HEADER_LEN_def)
      then have valid: "is_valid_seg_len_and_flags pkt (uint (pkt_off pkt) * 4) TH_ACK"
        using v [of TH_ACK] a flag_bits(11) by simp
      from plen have "passive_wait synack sd c = Inr (Handshake_Done, sd\<lparr>network_recv_queue := rest\<rparr>, ?c)"
        using ok Cons r(1) a nw
        by (simp add: passive_wait_def w valid hs_numbers_def Let_def)
      moreover have "unused ?c" "connected_numbers ?c"
        using ok by (simp_all add: unused_def connected_numbers_def)
      ultimately show ?thesis using r(3) by simp
    qed
  qed
qed

section \<open>Every reachable state\<close>

lemma active_step_ok:
  assumes "active_ok h"
  shows "(\<exists>h'. handshake_step h = Inr h' \<and> active_ok h') \<or> handshake_step h = Inl Would_Block"
proof -
  obtain ph sd c where h: "h = (ph, sd, c)" by (cases h)
  show ?thesis
  proof (cases ph)
    case (Active_Send syn)
    then show ?thesis
      using assms active_send_ok [of syn sd c] by (simp add: h del: active_ok.simps)
  next
    case (Active_Wait syn)
    then show ?thesis
      using assms active_wait_ok [of syn sd c] by (simp add: h del: active_ok.simps) blast
  qed (use assms in \<open>simp_all add: h\<close>)
qed

lemma passive_step_ok:
  assumes "passive_ok h"
  shows "(\<exists>h'. handshake_step h = Inr h' \<and> passive_ok h') \<or> handshake_step h = Inl Would_Block"
proof -
  obtain ph sd c where h: "h = (ph, sd, c)" by (cases h)
  show ?thesis
  proof (cases ph)
    case Passive_Listen
    then show ?thesis
      using assms passive_listen_ok [of sd c] by (simp add: h del: passive_ok.simps) blast
  next
    case (Passive_Send synack)
    then show ?thesis
      using assms passive_send_ok [of synack sd c] by (simp add: h del: passive_ok.simps)
  next
    case (Passive_Wait synack)
    then show ?thesis
      using assms passive_wait_ok [of synack sd c] by (simp add: h del: passive_ok.simps) blast
  qed (use assms in \<open>simp_all add: h\<close>)
qed

lemma handshake_frame:
  assumes "handshake_step h = Inr h'"
  shows "local_ip (network_state (hs_sock h')) = local_ip (network_state (hs_sock h)) \<and>
    peer_addr (network_state (hs_sock h')) = peer_addr (network_state (hs_sock h))"
proof -
  have wait: "network_state sd1 = network_state sd"
    if "stcp_wait_for_event sd f t = Inr (ev, sd1)" for sd f t ev sd1
    using that by (auto simp: stcp_wait_for_event_def wait_poll_def Let_def
        split: if_splits option.splits prod.splits)
  have recv: "network_state sd1 = network_state sd" if "stcp_network_recv sd n = Inr (b, sd1)" for sd n b sd1
    using that by (auto simp: stcp_network_recv_def rbind_eq_Inr_iff Let_def split: if_splits)
  have send: "local_ip (network_state sd1) = local_ip (network_state sd) \<and>
      peer_addr (network_state sd1) = peer_addr (network_state sd)"
    if "stcp_network_send sd hd p = Inr sd1" for sd hd p sd1
    using that by (metis stcp_network_send_frame same_addrs_fields mysock_context.select_convs(2)
        mysock_context.surjective mysock_context.update_convs(2))
  have control: "local_ip (network_state sd1) = local_ip (network_state sd) \<and>
      peer_addr (network_state sd1) = peer_addr (network_state sd)"
    if "send_control sd c fl = Inr sd1" for sd c fl sd1
    using that send by (simp add: send_control_def)
  have app: "network_state (stcp_app_send sd p) = network_state sd" for sd p
    by (simp add: stcp_app_send_def)
  obtain ph sd c where h: "h = (ph, sd, c)" by (cases h)
  show ?thesis
  proof (cases ph)
    case (Active_Send syn)
    with assms show ?thesis
      by (auto simp: h hs_sock_def active_send_def rbind_eq_Inr_iff Let_def dest!: send split: if_splits)
  next
    case (Active_Wait syn)
    with assms obtain ev sd1 where "stcp_wait_for_event sd NETWORK_DATA (Some (timeout c)) = Inr (ev, sd1)"
      by (auto simp: h active_wait_def rbind_eq_Inr_iff)
    with Active_Wait assms show ?thesis
      by (auto simp: h hs_sock_def active_wait_def rbind_eq_Inr_iff Let_def dest!: wait recv control
          split: if_splits)
  next
    case Passive_Listen
    with assms show ?thesis
      by (auto simp: h hs_sock_def passive_listen_def rbind_eq_Inr_iff Let_def dest!: wait recv split: if_splits)
  next
    case (Passive_Send synack)
    with assms show ?thesis
      by (auto simp: h hs_sock_def passive_send_def rbind_eq_Inr_iff Let_def dest!: send split: if_splits)
  next
    case (Passive_Wait synack)
    with assms obtain ev sd1 where "stcp_wait_for_event sd NETWORK_DATA (Some (timeout c)) = Inr (ev, sd1)"
      by (auto simp: h passive_wait_def rbind_eq_Inr_iff)
    with Passive_Wait assms show ?thesis
      by (auto simp: h hs_sock_def passive_wait_def rbind_eq_Inr_iff Let_def app dest!: wait recv
          split: if_splits)
  qed (use assms in \<open>simp_all add: h\<close>)
qed

lemma sockets_changes:
  assumes "hs_sockets P Q sd"
  shows "hs_sockets P Q (sd\<lparr>clock := t\<rparr>)"
    "Q (sin_addr (peer_addr (network_state sd))) (local_ip (network_state sd)) pkt \<Longrightarrow>
       hs_sockets P Q (sd\<lparr>network_recv_queue := mysock_enqueue_buffer (network_recv_queue sd) pkt\<rparr>)"
  using assms by (auto simp: hs_sockets_def queued_def sock_ok_def mysock_enqueue_buffer_def)

lemma move_ok:
  assumes "hs_move h h'"
  shows "active_ok h \<Longrightarrow> active_ok h'" "passive_ok h \<Longrightarrow> passive_ok h'"
    "local_ip (network_state (hs_sock h')) = local_ip (network_state (hs_sock h))"
    "peer_addr (network_state (hs_sock h')) = peer_addr (network_state (hs_sock h))"
  using assms active_step_ok [of h] passive_step_ok [of h] handshake_frame [of h h']
  by (auto simp: hs_sock_def dest: sockets_changes elim!: hs_moveE)

definition setup_ok :: "hs \<times> hs \<Rightarrow> bool" where
  "setup_ok s \<longleftrightarrow> (case s of (a, b) \<Rightarrow> active_ok a \<and> passive_ok b \<and> peers (hs_sock a) (hs_sock b))"

lemma wire_packet:
  "active_ok h \<Longrightarrow> pkt \<in> set (wire_out (network_state (hs_sock h))) \<Longrightarrow>
     active_packet (local_ip (network_state (hs_sock h))) (sin_addr (peer_addr (network_state (hs_sock h)))) pkt"
  "passive_ok h \<Longrightarrow> pkt \<in> set (wire_out (network_state (hs_sock h))) \<Longrightarrow>
     passive_packet (local_ip (network_state (hs_sock h))) (sin_addr (peer_addr (network_state (hs_sock h)))) pkt"
  by (cases h, simp add: hs_sock_def hs_sockets_def on_wire_def Let_def)+

lemma deliver_ok_hs:
  "active_ok h \<Longrightarrow>
     passive_packet (sin_addr (peer_addr (network_state (hs_sock h)))) (local_ip (network_state (hs_sock h))) pkt \<Longrightarrow>
     active_ok (hs_deliver pkt h)"
  "passive_ok h \<Longrightarrow>
     active_packet (sin_addr (peer_addr (network_state (hs_sock h)))) (local_ip (network_state (hs_sock h))) pkt \<Longrightarrow>
     passive_ok (hs_deliver pkt h)"
  "network_state (hs_sock (hs_deliver pkt h)) = network_state (hs_sock h)"
  by (cases h; auto simp: hs_sock_def hs_deliver_def dest: sockets_changes(2))+

lemma hs_step_ok:
  assumes "hs_step s s'" "setup_ok s"
  shows "setup_ok s'"
  using assms
proof (cases rule: hs_step.cases)
  case (hs_left a a' b)
  with assms(2) move_ok [of a a'] show ?thesis by (simp add: setup_ok_def peers_def)
next
  case (hs_right b b' a)
  with assms(2) move_ok [of b b'] show ?thesis by (simp add: setup_ok_def peers_def)
next
  case (hs_to_right pkt a b)
  with assms(2) wire_packet(1) [of a pkt] show ?thesis
    by (simp add: setup_ok_def peers_def deliver_ok_hs)
next
  case (hs_to_left pkt b a)
  with assms(2) wire_packet(2) [of b pkt] show ?thesis
    by (simp add: setup_ok_def peers_def deliver_ok_hs)
qed

lemma set_up_ok:
  assumes "set_up s0 s" "setup_start s0"
  shows "setup_ok s"
  using assms
proof (induction rule: set_up.induct)
  case hs_start
  then show ?case using start_ok_hs
    by (auto simp: setup_start_def setup_ok_def hs_sock_def transport_start_def active_start_def peers_def)
next
  case (hs_next s s')
  then show ?case using hs_step_ok by blast
qed

section \<open>The session that follows\<close>

text \<open>The endpoint with which the control loop starts.\<close>

definition session_endpoint :: "hs \<Rightarrow> endpoint option" where
  "session_endpoint h =
     (case transport_connected h of
        Inr (sd, Some ctx) \<Rightarrow>
          Some \<lparr>esock = sd, econn = ctx, written = [], has_read = [], app_closed = False\<rparr>
      | _ \<Rightarrow> None)"

lemma on_wire_ok:
  assumes "on_wire P net" "\<And>src dst p. P src dst p \<Longrightarrow> control_packet src dst p"
  shows "wire_ok net Map.empty first_byte"
  using assms by (auto simp: on_wire_def wire_ok_def Let_def control_packet_def)

lemma session_fresh:
  assumes "hs_sockets P Q sd" "unused c" "connected_numbers c"
    and P: "\<And>src dst p. P src dst p \<Longrightarrow> control_packet src dst p"
    and Q: "\<And>src dst p. Q src dst p \<Longrightarrow> control_packet src dst p"
  obtains e where "session_endpoint (Handshake_Done, sd, c) = Some e" "fresh e"
    "network_state (esock e) = network_state sd" "\<not> blocking (esock e)"
proof
  let ?sd = "sd\<lparr>blocking := False, stcp_errno := (if thread_errno sd = EINTR then 0 else thread_errno sd)\<rparr>"
  let ?e = "\<lparr>esock = ?sd, econn = c\<lparr>connection_state := CSTATE_ESTABLISHED\<rparr>, written = [],
    has_read = [], app_closed = False\<rparr>"
  show "session_endpoint (Handshake_Done, sd, c) = Some ?e"
    using assms(1) by (simp add: session_endpoint_def transport_connected_def stcp_unblock_application_def
        hs_sockets_def)
  show "fresh ?e"
    using assms(1-3) on_wire_ok [of P "network_state sd"] P Q
    by (auto simp: fresh_def fresh_conn_def hs_sockets_def unused_def connected_numbers_def sock_ok_def
        queued_def control_packet_def)
qed simp_all

lemma session_start:
  assumes "set_up s0 ((Handshake_Done, sa, ca), (Handshake_Done, sb, cb))" "setup_start s0"
  obtains a b where "session_endpoint (Handshake_Done, sa, ca) = Some a"
    "session_endpoint (Handshake_Done, sb, cb) = Some b" "sys_start (a, b)"
    "\<not> blocking (esock a)" "\<not> blocking (esock b)"
proof -
  have ok: "active_ok (Handshake_Done, sa, ca)" "passive_ok (Handshake_Done, sb, cb)" "peers sa sb"
    using set_up_ok [OF assms] by (simp_all add: setup_ok_def hs_sock_def)
  obtain a where a: "session_endpoint (Handshake_Done, sa, ca) = Some a" "fresh a"
      "network_state (esock a) = network_state sa" "\<not> blocking (esock a)"
    using session_fresh [of active_packet passive_packet sa ca] ok(1) active_control passive_control by auto
  obtain b where b: "session_endpoint (Handshake_Done, sb, cb) = Some b" "fresh b"
      "network_state (esock b) = network_state sb" "\<not> blocking (esock b)"
    using session_fresh [of passive_packet active_packet sb cb] ok(2) active_control passive_control by auto
  have "sys_start (a, b)"
    using a(2,3) b(2,3) ok(3) by (simp add: sys_start_def connected_def peers_def)
  with a b that show thesis by blast
qed

section \<open>Properties\<close>



text \<open>A handshake fails only after six timeouts have expired, each twice the one before (from
  one second to 32, so that the timeout ends at 64); the application is then unblocked with \<open>ECONNREFUSED\<close> and nothing
  was delivered to it.\<close>

lemma handshake_gives_up:
  assumes "setup_start s0" "set_up s0 (ha, hb)" "(Handshake_Failed, sd, c) \<in> {ha, hb}"
  shows "retransmission_count c = 6 \<and> rto c = 64 \<and>
    (\<exists>sd'. transport_connected (Handshake_Failed, sd, c) = Inr (sd', None) \<and>
       stcp_errno sd' = ECONNREFUSED \<and> \<not> blocking sd' \<and> app_send_queue sd' = [])"
proof -
  have ok: "active_ok ha" "passive_ok hb" using set_up_ok [OF assms(2,1)] by (simp_all add: setup_ok_def)
  then have "hs_numbers c" "retransmission_count c = 6" "blocking sd" "app_send_queue sd = []"
    using assms(3) by (auto simp: hs_sockets_def)
  then show ?thesis
    by (simp add: hs_numbers_def transport_connected_def stcp_unblock_application_def ECONNREFUSED_def
        EINTR_def)
qed

text \<open>C39. No step of a handshake fails an assertion or leaves a buffer, and a thread waits only
  when no packet has arrived and, once something was sent, its deadline has not passed.\<close>

theorem handshake_never_stuck:
  assumes "setup_start s0" "set_up s0 (ha, hb)" "h \<in> {ha, hb}" "fst h \<notin> {Handshake_Done, Handshake_Failed}"
  shows "(\<exists>h'. handshake_step h = Inr h') \<or>
    handshake_step h = Inl Would_Block \<and> network_recv_queue (hs_sock h) = [] \<and>
    (fst h \<noteq> Passive_Listen \<longrightarrow> clock (hs_sock h) < timeout (snd (snd h)))"
proof -
  obtain ph sd c where h: "h = (ph, sd, c)" by (cases h)
  have "active_ok h \<or> passive_ok h"
    using set_up_ok [OF assms(2,1)] assms(3) by (auto simp: setup_ok_def)
  then show ?thesis
  proof
    assume ok: "active_ok h"
    show ?thesis
      using ok assms(4) active_send_ok [of _ sd c] active_wait_ok [of _ sd c]
      by (cases ph; simp add: h hs_sock_def del: active_ok.simps; blast?) (simp_all add: h)
  next
    assume ok: "passive_ok h"
    show ?thesis
      using ok assms(4) passive_send_ok [of _ sd c] passive_wait_ok [of _ sd c] passive_listen_ok [of sd c]
      by (cases ph; simp add: h hs_sock_def del: passive_ok.simps; blast?) (simp_all add: h)
  qed
qed

text \<open>The passive side takes the first packet that acknowledges its SYN as the end of the
  handshake whatever its sequence number: its data goes to the application at once and
  \<open>receive_next\<close> continues behind it, so that data before it, whose packet was lost or
  overtaken, is never received.\<close>

lemma passive_accepts_gap:
  assumes "stcp_wait_for_event sd NETWORK_DATA (Some (timeout c)) = Inr (NETWORK_DATA, sd1)"
    "stcp_network_recv sd1 (STCP_HEADER_LEN + STCP_MSS) = Inr (buf, sd2)"
    "STCP_HEADER_LEN < length buf" "pkt_flags buf = TH_ACK" "pkt_off buf = 5" "pkt_ack buf = send_base c + 1"
  shows "\<exists>c'. passive_wait synack sd c = Inr (Handshake_Done,
      sd2\<lparr>app_send_queue := app_send_queue sd2 @ [drop STCP_HEADER_LEN buf]\<rparr>, c') \<and>
    receive_next c' = pkt_seq buf + of_nat (length buf - STCP_HEADER_LEN)"
proof -
  have off: "unat (pkt_off buf) * 4 = STCP_HEADER_LEN" using assms(5) by (simp add: STCP_HEADER_LEN_def)
  have nw: "NETWORK_DATA AND NETWORK_DATA \<noteq> 0" by (simp add: event_defs)
  have valid: "is_valid_seg_len_and_flags buf (int (length buf)) TH_ACK"
    using assms(3,4) by (simp add: is_valid_seg_len_and_flags_def flag_bits(11))
  have plen: "int (length buf) - int STCP_HEADER_LEN = int (length buf - STCP_HEADER_LEN)"
    "0 < length buf - STCP_HEADER_LEN"
    using assms(3) by simp_all
  show ?thesis
    unfolding passive_wait_def assms(1) rbind_simps prod.case assms(2) off Let_def
    using valid nw assms(3,6) plen by (simp add: stcp_app_send_def mysock_enqueue_buffer_def)
qed

end
