(* ===== verification/Stcp_Scenario.thy ===== *)
theory Stcp_Scenario
  imports Stcp_System
begin

text \<open>
  A concrete run of two endpoints: one application writes two bytes and closes, the FIN
  overtakes the data, the other side delivers, reads and closes, and the first connection
  ends in \<open>CSTATE_CLOSED\<close>. Every state of the run is computed from the handlers; the run
  shows that the hypotheses of the properties of \<open>Stcp_System\<close> can hold.
\<close>

section \<open>The start\<close>

definition ex_net :: "u32 \<Rightarrow> u32 \<Rightarrow> network_context" where
  "ex_net me you =
     \<lparr>is_reliable = True, local_addr = \<lparr>sa_family = AF_INET, sin_addr = me, sin_port = 80\<rparr>,
      peer_addr = \<lparr>sa_family = AF_INET, sin_addr = you, sin_port = 80\<rparr>, peer_addr_len = 16,
      peer_addr_valid = True, copied = False, copy_buffer = [], local_ip = me, local_port = 80,
      randoms = (\<lambda>_. 0), rand_calls = 0, wire_out = []\<rparr>"

definition ex_sock :: "u32 \<Rightarrow> u32 \<Rightarrow> mysock_context" where
  "ex_sock me you =
     \<lparr>is_active = True, network_state = ex_net me you, bound = True, listening = False, my_sd = 3,
      listen_sd = -1, blocking = False, stcp_errno = 0, transport_thread_started = True,
      close_requested = False, eof = False, network_recv_queue = [], app_send_queue = [],
      app_recv_queue = [], clock = Timespec 10 0, thread_errno = 0\<rparr>"

definition ex_conn :: context_t where
  "ex_conn = init_context\<lparr>next_seq_num := 2, send_base := 2, receive_next := 2, peer_initial_seq := 1\<rparr>"

definition ex_endpoint :: "u32 \<Rightarrow> u32 \<Rightarrow> endpoint" where
  "ex_endpoint me you =
     \<lparr>esock = ex_sock me you, econn = ex_conn, written = [], has_read = [], app_closed = False\<rparr>"

lemma ex_net_simps [simp]:
  "is_reliable (ex_net me you)" "peer_addr (ex_net me you) = \<lparr>sa_family = AF_INET, sin_addr = you, sin_port = 80\<rparr>"
  "local_ip (ex_net me you) = me" "local_port (ex_net me you) = 80" "wire_out (ex_net me you) = []"
  "copied (ex_net me you) = False"
  by (simp_all add: ex_net_def)

lemma ex_sock_simps [simp]:
  "network_state (ex_sock me you) = ex_net me you" "close_requested (ex_sock me you) = False"
  "network_recv_queue (ex_sock me you) = []" "app_send_queue (ex_sock me you) = []"
  "app_recv_queue (ex_sock me you) = []" "clock (ex_sock me you) = Timespec 10 0"
  by (simp_all add: ex_sock_def)

lemma ex_conn_simps [simp]:
  "next_seq_num ex_conn = 2" "send_base ex_conn = 2" "receive_next ex_conn = 2" "send_buffer ex_conn = []"
  "receive_buffer ex_conn = []" "connection_state ex_conn = CSTATE_ESTABLISHED" "is_FIN_SENT ex_conn = False"
  "is_FIN_RECEIVED ex_conn = False" "is_APP_CLOSE_QUEUED ex_conn = False" "ctx_done ex_conn = False"
  "retransmission_count ex_conn = 0" "rto ex_conn = 1"
  by (simp_all add: ex_conn_def init_context_def zero_context_def generate_initial_seq_num_def
      segment_list_init_def Let_def)

lemma ex_endpoint_simps [simp]:
  "esock (ex_endpoint me you) = ex_sock me you" "econn (ex_endpoint me you) = ex_conn"
  "written (ex_endpoint me you) = []" "has_read (ex_endpoint me you) = []"
  "app_closed (ex_endpoint me you) = False"
  by (simp_all add: ex_endpoint_def)

definition ex_start :: system where
  "ex_start = (ex_endpoint 1 2, ex_endpoint 2 1)"

lemma ex_start: "sys_start ex_start"
  by (simp add: ex_start_def sys_start_def fresh_def fresh_conn_def connected_def sock_ok_def wire_ok_def)

section \<open>Packets\<close>

definition ex_pkt :: "u32 \<Rightarrow> u32 \<Rightarrow> u32 \<Rightarrow> u32 \<Rightarrow> u8 \<Rightarrow> bytes \<Rightarrow> bytes" where
  "ex_pkt me you sq ack fl p = projr (stcp_packet (ex_sock me you) (hdr_bytes (build_header sq ack fl)) p)"

definition ex_params :: "u32 \<Rightarrow> u32 \<Rightarrow> bytes \<Rightarrow> bool" where
  "ex_params me you p \<longleftrightarrow> 0 < me \<and> 0 < you \<and> length p \<le> STCP_MSS"

lemma ex_packet:
  assumes "ex_params me you p" "network_state sd = (ex_net me you)\<lparr>wire_out := w\<rparr>"
  shows "stcp_packet sd (hdr_bytes (build_header sq ack fl)) p = Inr (ex_pkt me you sq ack fl p)"
proof -
  have "sock_ok (ex_sock me you)" using assms(1) by (simp add: ex_params_def sock_ok_def)
  then obtain pkt where "stcp_packet (ex_sock me you) (hdr_bytes (build_header sq ack fl)) p = Inr pkt"
    using stcp_packet_total [of "ex_sock me you" "hdr_bytes (build_header sq ack fl)" p] assms(1)
    by (auto simp: ex_params_def STCP_MSS_def MAX_IP_PAYLOAD_LEN_def STCP_HEADER_LEN_def)
  moreover have "stcp_packet sd h p = stcp_packet (ex_sock me you) h p" for h
    by (simp add: stcp_packet_def assms(2))
  ultimately show ?thesis by (simp add: ex_pkt_def)
qed

lemma ex_send:
  assumes "ex_params me you p" "network_state sd = (ex_net me you)\<lparr>wire_out := w\<rparr>"
  shows "stcp_network_send sd (build_header sq ack fl) p =
    Inr (sd\<lparr>network_state := (ex_net me you)\<lparr>wire_out := w @ [ex_pkt me you sq ack fl p]\<rparr>\<rparr>)"
  using assms by (simp add: stcp_network_send_def ex_packet network_send_def network_send_packet_def)

lemma ex_fields:
  assumes "ex_params me you p"
  shows "pkt_seq (ex_pkt me you sq ack fl p) = sq" "pkt_ack (ex_pkt me you sq ack fl p) = ack"
    "pkt_off (ex_pkt me you sq ack fl p) = 5" "pkt_flags (ex_pkt me you sq ack fl p) = fl"
    "drop 20 (ex_pkt me you sq ack fl p) = p" "length (ex_pkt me you sq ack fl p) = 20 + length p"
  using stcp_packet_fields [OF ex_packet [OF assms, of "ex_sock me you" "[]"]]
  by (simp_all add: ex_net_def build_header_def STCP_HEADER_LEN_def)

lemma ex_recv:
  assumes "ex_params you me p" "network_state sd = (ex_net me you)\<lparr>wire_out := w\<rparr>"
    "network_recv_queue sd = ex_pkt you me sq ack fl p # rest"
  shows "stcp_network_recv sd (STCP_HEADER_LEN + STCP_MSS) =
    Inr (ex_pkt you me sq ack fl p, sd\<lparr>network_recv_queue := rest\<rparr>)"
proof -
  have "mysock_verify_checksum you me (ex_pkt you me sq ack fl p) = Inr True"
    using stcp_packet_verifies [OF ex_packet [OF assms(1), of "ex_sock you me" "[]"]] by (simp add: ex_net_def)
  then show ?thesis
    using assms ex_fields(6) [OF assms(1), of sq ack fl]
    by (simp add: stcp_network_recv_def Let_def STCP_HEADER_LEN_def ex_params_def)
qed

section \<open>The loop iterations\<close>

definition ex_data :: bytes where "ex_data = [104, 105]"

definition P1 :: bytes where "P1 = ex_pkt 1 2 2 2 TH_ACK ex_data"
definition P2 :: bytes where "P2 = ex_pkt 1 2 4 2 (TH_ACK OR TH_FIN) []"
definition P3 :: bytes where "P3 = ex_pkt 1 2 5 3 TH_ACK []"
definition R1 :: bytes where "R1 = ex_pkt 2 1 2 2 TH_ACK []"
definition R2 :: bytes where "R2 = ex_pkt 2 1 2 5 TH_ACK []"
definition R3 :: bytes where "R3 = ex_pkt 2 1 2 5 (TH_ACK OR TH_FIN) []"

definition ex_seg :: segment where "ex_seg = \<lparr>seg_seq = 2, seg_data = ex_data, seg_fin = False\<rparr>"
definition ex_fin :: "u32 \<Rightarrow> segment" where "ex_fin sq = \<lparr>seg_seq = sq, seg_data = [], seg_fin = True\<rparr>"

lemma ex_timer: "rto c = 1 \<Longrightarrow> log_time_and_calculate_timeout (Timespec 10 0) c =
    c\<lparr>last_sent_time := Timespec 10 0, timeout := Timespec 11 0\<rparr>"
  by (simp add: log_time_and_calculate_timeout_def c_trunc_def)

lemmas event_simps = stcp_wait_for_event_def wait_poll_def event_defs dispatch_def wait_flags_def
  win_remain_def DEFAULT_WIN_SIZE_def

lemma ex_params_data [simp]: "ex_params 1 2 ex_data" "ex_params a b [] = (0 < a \<and> 0 < b)"
  by (simp_all add: ex_params_def ex_data_def STCP_MSS_def)

definition sa1 :: mysock_context where
  "sa1 = (ex_sock 1 2)\<lparr>app_recv_queue := [ex_data], close_requested := True\<rparr>"
definition sa2 :: mysock_context where
  "sa2 = (ex_sock 1 2)\<lparr>close_requested := True, network_state := (ex_net 1 2)\<lparr>wire_out := [P1]\<rparr>\<rparr>"
definition ca2 :: context_t where
  "ca2 = ex_conn\<lparr>send_buffer := [ex_seg], next_seq_num := 4, last_sent_time := Timespec 10 0,
     timeout := Timespec 11 0\<rparr>"

lemma loop_a1: "control_iteration (sa1, ex_conn) = Inr (sa2, ca2)"
proof -
  let ?sd = "sa1\<lparr>app_recv_queue := []\<rparr>"
  have rcv: "stcp_app_recv sa1 536 = Inr (ex_data, ?sd)"
    by (simp add: stcp_app_recv_def sa1_def ex_data_def)
  have snd: "stcp_network_send ?sd (build_header 2 2 TH_ACK) ex_data = Inr sa2"
    using ex_send [of 1 2 ex_data ?sd "[]" 2 2 TH_ACK] by (simp add: sa1_def sa2_def P1_def ex_net_def ex_sock_def)
  have enq: "enqueue_send_buffer [] 2 ex_data 2 False = Inr [ex_seg]"
    by (simp add: enqueue_send_buffer_def new_segment_def memcpy_from_def ex_seg_def ex_data_def STCP_MSS_def)
  have h: "handle_app_data sa1 ex_conn = Inr (sa2, ca2)"
    using rcv snd enq
    by (simp add: handle_app_data_def win_remain_def DEFAULT_WIN_SIZE_def STCP_MSS_def ex_data_def ex_timer
        ca2_def sa1_def [THEN arg_cong [where f = clock]])
  have w: "stcp_wait_for_event sa1 (wait_flags ex_conn) None = Inr (APP_DATA, sa1)"
    by (simp add: event_simps sa1_def)
  have "dispatch APP_DATA (sa1, ex_conn) = Inr (sa2, ca2)" by (simp add: dispatch_def h event_defs)
  then show ?thesis by (simp add: control_iteration_def w ca2_def)
qed

definition sa3 :: mysock_context where
  "sa3 = (ex_sock 1 2)\<lparr>network_state := (ex_net 1 2)\<lparr>wire_out := [P1, P2]\<rparr>\<rparr>"
definition ca3 :: context_t where
  "ca3 = ca2\<lparr>send_buffer := [ex_seg, ex_fin 4], next_seq_num := 5, is_FIN_SENT := True,
     connection_state := CSTATE_FIN_WAIT_1\<rparr>"

lemma ca2_simps [simp]:
  "next_seq_num ca2 = 4" "send_base ca2 = 2" "receive_next ca2 = 2" "send_buffer ca2 = [ex_seg]"
  "receive_buffer ca2 = []" "connection_state ca2 = CSTATE_ESTABLISHED" "is_FIN_SENT ca2 = False"
  "is_FIN_RECEIVED ca2 = False" "is_APP_CLOSE_QUEUED ca2 = False" "ctx_done ca2 = False"
  "retransmission_count ca2 = 0" "rto ca2 = 1" "timeout ca2 = Timespec 11 0"
  by (simp_all add: ca2_def)

lemma enq_fin: "enqueue_send_buffer buf sq [] 0 True = Inr (buf @ [ex_fin sq])"
  by (simp add: enqueue_send_buffer_def new_segment_def memcpy_from_def ex_fin_def)

lemma loop_a2: "control_iteration (sa2, ca2) = Inr (sa3, ca3)"
proof -
  let ?sd = "sa2\<lparr>close_requested := False\<rparr>"
  have snd: "send_control ?sd ca2 (TH_ACK OR TH_FIN) = Inr sa3"
    using ex_send [of 1 2 "[]" ?sd "[P1]" 4 2 "TH_ACK OR TH_FIN"]
    by (simp add: send_control_def sa2_def sa3_def P2_def ex_net_def ex_sock_def)
  have h: "handle_app_close ?sd ca2 = Inr (sa3, ca3)"
    by (simp add: handle_app_close_def win_remain_def DEFAULT_WIN_SIZE_def send_fin_def snd enq_fin ca3_def)
  have w: "stcp_wait_for_event sa2 (wait_flags ca2) (Some (timeout ca2)) = Inr (APP_CLOSE_REQUESTED, ?sd)"
    by (simp add: event_simps sa2_def)
  have "dispatch APP_CLOSE_REQUESTED (?sd, ca2) = Inr (sa3, ca3)" by (simp add: dispatch_def h event_defs)
  then show ?thesis by (simp add: control_iteration_def w ca3_def del: ca2_simps(13))
qed

definition sb1 :: mysock_context where
  "sb1 = (ex_sock 2 1)\<lparr>network_recv_queue := [P2, P1]\<rparr>"
definition sb2 :: mysock_context where
  "sb2 = (ex_sock 2 1)\<lparr>network_recv_queue := [P1], network_state := (ex_net 2 1)\<lparr>wire_out := [R1]\<rparr>\<rparr>"
definition cb2 :: context_t where
  "cb2 = ex_conn\<lparr>receive_buffer := [ex_fin 4]\<rparr>"

lemma wait_net:
  assumes "app_recv_queue sd = []" "network_recv_queue sd \<noteq> []" "\<not> close_requested sd"
  shows "stcp_wait_for_event sd (wait_flags c) t = Inr (NETWORK_DATA, sd)"
  using assms by (simp add: event_simps)

lemma flag_simps [simp]:
  "TH_ACK AND TH_ACK = TH_ACK" "TH_ACK \<noteq> 0" "(TH_ACK OR TH_FIN) AND TH_ACK \<noteq> 0"
  by (simp_all add: TH_ACK_def TH_FIN_def)

lemma net_step:
  assumes "stcp_network_recv sd (STCP_HEADER_LEN + STCP_MSS) = Inr (pkt, sd1)"
    "length pkt = 20 + length p" "pkt_off pkt = 5" "drop 20 pkt = p" "pkt_flags pkt AND TH_ACK \<noteq> 0"
    "handle_ack_from_peer sd1 ctx (pkt_ack pkt) = Inr (sd2, ctx2)" "p \<noteq> [] \<or> pkt_flags pkt AND TH_FIN \<noteq> 0"
  shows "handle_network_data sd ctx = handle_incoming_segment sd2 ctx2 (pkt_seq pkt) p
    (of_nat (length p)) (pkt_flags pkt AND TH_FIN \<noteq> 0)"
  using assms by (auto simp: handle_network_data_def is_valid_seg_len_and_flags_def Let_def STCP_HEADER_LEN_def)

lemma loop_b1: "control_iteration (sb1, ex_conn) = Inr (sb2, cb2)"
proof -
  let ?sd = "sb1\<lparr>network_recv_queue := [P1]\<rparr>"
  have par: "ex_params 1 2 []" by simp
  have rcv: "stcp_network_recv sb1 (STCP_HEADER_LEN + STCP_MSS) = Inr (P2, ?sd)"
    using ex_recv [OF par, of sb1 "[]"] by (simp add: sb1_def P2_def ex_net_def)
  note f = ex_fields [OF par, of 4 2 "TH_ACK OR TH_FIN", folded P2_def]
  have ack: "handle_ack_from_peer ?sd ex_conn (pkt_ack P2) = Inr (?sd, ex_conn)"
    by (simp add: handle_ack_from_peer_def f)
  have ins: "insert_segment_to_receive_buffer_robust [] 4 [] 0 True = Inr [ex_fin 4]"
    by (simp add: insert_segment_to_receive_buffer_robust_def robust_rest_def insert_tail_def
        new_segment_def memcpy_from_def ex_fin_def)
  have snd: "send_control ?sd cb2 TH_ACK = Inr sb2"
    using ex_send [of 2 1 "[]" ?sd "[]" 2 2 TH_ACK]
    by (simp add: send_control_def sb1_def sb2_def R1_def cb2_def ex_net_def ex_sock_def)
  have inc: "handle_incoming_segment ?sd ex_conn 4 [] 0 True = Inr (sb2, cb2)"
    using snd by (simp add: handle_incoming_segment_def DEFAULT_WIN_SIZE_def cut_front_def cut_back_def ins
        flush_in_order_segments_from_receive_buffer_def cb2_def ex_fin_def)
  have h: "handle_network_data sb1 ex_conn = Inr (sb2, cb2)"
    using net_step [OF rcv _ _ _ _ ack, of "[]"] inc f by simp
  have w: "stcp_wait_for_event sb1 (wait_flags ex_conn) None = Inr (NETWORK_DATA, sb1)"
    by (rule wait_net) (simp_all add: sb1_def)
  have "dispatch NETWORK_DATA (sb1, ex_conn) = Inr (sb2, cb2)" by (simp add: dispatch_def h event_defs)
  then show ?thesis by (simp add: control_iteration_def w cb2_def)
qed

definition sb3 :: mysock_context where
  "sb3 = (ex_sock 2 1)\<lparr>app_send_queue := [ex_data, []], network_state := (ex_net 2 1)\<lparr>wire_out := [R1, R2]\<rparr>\<rparr>"
definition cb3 :: context_t where
  "cb3 = ex_conn\<lparr>receive_next := 5, is_FIN_RECEIVED := True, connection_state := CSTATE_CLOSE_WAIT\<rparr>"

lemma loop_b2: "control_iteration (sb2, cb2) = Inr (sb3, cb3)"
proof -
  let ?sd = "sb2\<lparr>network_recv_queue := []\<rparr>" and ?sd' = "sb2\<lparr>network_recv_queue := [], app_send_queue := [ex_data, []]\<rparr>"
  have par: "ex_params 1 2 ex_data" by simp
  have rcv: "stcp_network_recv sb2 (STCP_HEADER_LEN + STCP_MSS) = Inr (P1, ?sd)"
    using ex_recv [OF par, of sb2 "[R1]"] by (simp add: sb2_def P1_def)
  note f = ex_fields [OF par, of 2 2 "TH_ACK", folded P1_def]
  have ack: "handle_ack_from_peer ?sd cb2 (pkt_ack P1) = Inr (?sd, cb2)"
    by (simp add: handle_ack_from_peer_def f cb2_def)
  have ins: "insert_segment_to_receive_buffer_robust [ex_fin 4] 2 ex_data 2 False = Inr [ex_seg, ex_fin 4]"
    by (simp add: insert_segment_to_receive_buffer_robust_def insert_before_node_def robust_rest_def
        new_segment_def memcpy_from_def ex_fin_def ex_seg_def node_end_def payload_len_def ex_data_def STCP_MSS_def)
  have snd: "send_control ?sd' cb3 TH_ACK = Inr sb3"
    using ex_send [of 2 1 "[]" ?sd' "[R1]" 2 5 TH_ACK]
    by (simp add: send_control_def sb2_def sb3_def R2_def cb3_def ex_net_def ex_sock_def)
  have fl: "flush_loop ?sd (cb2\<lparr>receive_buffer := [ex_seg, ex_fin 4]\<rparr>) [ex_seg, ex_fin 4] = (?sd', cb3)"
    by (simp add: ex_seg_def ex_fin_def cb2_def payload_len_def ex_data_def stcp_app_send_def
        stcp_fin_received_def mysock_enqueue_buffer_def sb2_def cb3_def ex_conn_def init_context_def
        generate_initial_seq_num_def segment_list_init_def zero_context_def)
  have inc: "handle_incoming_segment ?sd cb2 2 ex_data 2 False = Inr (sb3, cb3)"
    using snd fl by (simp add: handle_incoming_segment_def DEFAULT_WIN_SIZE_def cut_front_def cut_back_def ins
        flush_in_order_segments_from_receive_buffer_def cb2_def)
  have "length ex_data = 2" "ex_data \<noteq> []" by (simp_all add: ex_data_def)
  then have h: "handle_network_data sb2 cb2 = Inr (sb3, cb3)"
    using net_step [OF rcv _ _ _ _ ack, of ex_data] inc f by simp
  have w: "stcp_wait_for_event sb2 (wait_flags cb2) None = Inr (NETWORK_DATA, sb2)"
    by (rule wait_net) (simp_all add: sb2_def)
  have "dispatch NETWORK_DATA (sb2, cb2) = Inr (sb3, cb3)" by (simp add: dispatch_def h event_defs)
  then show ?thesis by (simp add: control_iteration_def w) (simp add: w cb2_def cb3_def)
qed

text \<open>The application of the second endpoint reads the two bytes and closes.\<close>

definition sb4 :: mysock_context where
  "sb4 = sb3\<lparr>app_send_queue := [[]], close_requested := True\<rparr>"
definition sb5 :: mysock_context where
  "sb5 = (ex_sock 2 1)\<lparr>app_send_queue := [[]], network_state := (ex_net 2 1)\<lparr>wire_out := [R1, R2, R3]\<rparr>\<rparr>"
definition cb5 :: context_t where
  "cb5 = cb3\<lparr>send_buffer := [ex_fin 2], next_seq_num := 3, is_FIN_SENT := True,
     connection_state := CSTATE_LAST_ACK, last_sent_time := Timespec 10 0, timeout := Timespec 11 0\<rparr>"

lemma loop_b3: "control_iteration (sb4, cb3) = Inr (sb5, cb5)"
proof -
  let ?sd = "sb4\<lparr>close_requested := False\<rparr>"
  have snd: "send_control ?sd cb3 (TH_ACK OR TH_FIN) = Inr sb5"
    using ex_send [of 2 1 "[]" ?sd "[R1, R2]" 2 5 "TH_ACK OR TH_FIN"]
    by (simp add: send_control_def sb3_def sb4_def sb5_def cb3_def R3_def ex_net_def ex_sock_def)
  have clk: "clock sb4 = Timespec 10 0" by (simp add: sb4_def sb3_def)
  have h: "handle_app_close ?sd cb3 = Inr (sb5, cb5)"
    using snd by (simp add: handle_app_close_def win_remain_def DEFAULT_WIN_SIZE_def send_fin_def enq_fin clk
        ex_timer cb3_def cb5_def)
  have w: "stcp_wait_for_event sb4 (wait_flags cb3) None = Inr (APP_CLOSE_REQUESTED, ?sd)"
    by (simp add: event_simps sb4_def sb3_def cb3_def)
  have "dispatch APP_CLOSE_REQUESTED (?sd, cb3) = Inr (sb5, cb5)" by (simp add: dispatch_def h event_defs)
  then show ?thesis by (simp add: control_iteration_def w) (simp add: w cb3_def cb5_def)
qed

text \<open>The first endpoint receives the acknowledgement and the FIN in one packet.\<close>

definition sa4 :: mysock_context where "sa4 = sa3\<lparr>network_recv_queue := [R3]\<rparr>"
definition sa5 :: mysock_context where
  "sa5 = (ex_sock 1 2)\<lparr>app_send_queue := [[]], network_state := (ex_net 1 2)\<lparr>wire_out := [P1, P2, P3]\<rparr>\<rparr>"
definition ca4 :: context_t where
  "ca4 = ca3\<lparr>rto := 1 / 10, est_rtt := 0, dev_rtt := 0, send_buffer := [], send_base := 5,
      retransmission_count := 0, connection_state := CSTATE_FIN_WAIT_2\<rparr>"
definition ca5 :: context_t where
  "ca5 = ca4\<lparr>receive_next := 3, is_FIN_RECEIVED := True, connection_state := CSTATE_CLOSED, receive_buffer := []\<rparr>"

lemma ca3_simps [simp]:
  "next_seq_num ca3 = 5" "send_base ca3 = 2" "receive_next ca3 = 2" "send_buffer ca3 = [ex_seg, ex_fin 4]"
  "receive_buffer ca3 = []" "connection_state ca3 = CSTATE_FIN_WAIT_1" "is_FIN_SENT ca3 = True"
  "is_FIN_RECEIVED ca3 = False" "is_APP_CLOSE_QUEUED ca3 = False" "ctx_done ca3 = False"
  "retransmission_count ca3 = 0" "last_sent_time ca3 = Timespec 10 0" "est_rtt ca3 = - 1"
  by (simp_all add: ca3_def ca2_def ex_conn_def init_context_def zero_context_def Let_def
      generate_initial_seq_num_def segment_list_init_def)

lemma ca4_simps [simp]:
  "next_seq_num ca4 = 5" "receive_next ca4 = 2" "receive_buffer ca4 = []"
  "connection_state ca4 = CSTATE_FIN_WAIT_2" "is_FIN_RECEIVED ca4 = False" "ctx_done ca4 = False"
  by (simp_all add: ca4_def)

lemma loop_a3: "control_iteration (sa4, ca3) = Inr (sa5, ca5\<lparr>ctx_done := True\<rparr>)"
proof -
  let ?sd = "sa4\<lparr>network_recv_queue := []\<rparr>" and ?sd' = "sa4\<lparr>network_recv_queue := [], app_send_queue := [[]]\<rparr>"
  have par: "ex_params 2 1 []" by simp
  have rcv: "stcp_network_recv sa4 (STCP_HEADER_LEN + STCP_MSS) = Inr (R3, ?sd)"
    using ex_recv [OF par, of sa4 "[P1, P2]"] by (simp add: sa4_def sa3_def R3_def)
  note f = ex_fields [OF par, of 2 5 "TH_ACK OR TH_FIN", folded R3_def]
  have clk: "clock sa4 = Timespec 10 0" by (simp add: sa4_def sa3_def)
  have rtt: "update_rto (Timespec 10 0) ca3 False = ca3\<lparr>rto := 1 / 10, est_rtt := 0, dev_rtt := 0\<rparr>"
    by (simp add: update_rto_def sample_rtt_def Let_def MIN_RTO_def MAX_RTO_def)
  have ack: "handle_ack_from_peer ?sd ca3 (pkt_ack R3) = Inr (?sd, ca4)"
    by (simp add: handle_ack_from_peer_def f clk rtt ca4_def)
      (simp add: ex_seg_def ex_fin_def payload_len_def ex_data_def)
  have ins: "insert_segment_to_receive_buffer_robust [] 2 [] 0 True = Inr [ex_fin 2]"
    by (simp add: insert_segment_to_receive_buffer_robust_def robust_rest_def insert_tail_def
        new_segment_def memcpy_from_def ex_fin_def)
  have snd: "send_control ?sd' ca5 TH_ACK = Inr sa5"
    using ex_send [of 1 2 "[]" ?sd' "[P1, P2]" 5 3 TH_ACK]
    by (simp add: send_control_def sa4_def sa3_def sa5_def P3_def ca5_def ex_net_def ex_sock_def)
  have fl: "flush_loop ?sd (ca4\<lparr>receive_buffer := [ex_fin 2]\<rparr>) [ex_fin 2] = (?sd', ca5)"
    by (simp add: ex_fin_def payload_len_def stcp_fin_received_def mysock_enqueue_buffer_def sa4_def sa3_def
        ca5_def)
  have inc: "handle_incoming_segment ?sd ca4 2 [] 0 True = Inr (sa5, ca5)"
    using snd fl by (simp add: handle_incoming_segment_def DEFAULT_WIN_SIZE_def cut_front_def cut_back_def ins
        flush_in_order_segments_from_receive_buffer_def)
  have h: "handle_network_data sa4 ca3 = Inr (sa5, ca5)"
    using net_step [OF rcv _ _ _ _ ack, of "[]"] inc f by simp
  have w: "stcp_wait_for_event sa4 (wait_flags ca3) (Some (timeout ca3)) = Inr (NETWORK_DATA, sa4)"
    by (rule wait_net) (simp_all add: sa4_def sa3_def)
  have "dispatch NETWORK_DATA (sa4, ca3) = Inr (sa5, ca5)" by (simp add: dispatch_def h event_defs)
  then show ?thesis using w by (simp add: control_iteration_def) (simp add: ca5_def)
qed

section \<open>The run\<close>

definition ex_a :: "mysock_context \<Rightarrow> context_t \<Rightarrow> endpoint" where
  "ex_a sd c = \<lparr>esock = sd, econn = c, written = ex_data, has_read = [], app_closed = True\<rparr>"

definition ex_b :: "mysock_context \<Rightarrow> context_t \<Rightarrow> bytes \<Rightarrow> bool \<Rightarrow> endpoint" where
  "ex_b sd c r cl = \<lparr>esock = sd, econn = c, written = [], has_read = r, app_closed = cl\<rparr>"

lemma run_written: "reachable ex_start (ex_a sa1 ex_conn, ex_endpoint 2 1)"
proof -
  let ?w = "(ex_endpoint 1 2)\<lparr>esock := (ex_sock 1 2)\<lparr>app_recv_queue := [ex_data]\<rparr>, written := ex_data\<rparr>"
  have "ep_step (ex_endpoint 1 2) ?w"
    using app_write [of "ex_endpoint 1 2" ex_data]
    by (simp add: mysock_enqueue_buffer_def ex_data_def first_byte_def MAX_STREAM_def)
  moreover have "ep_step ?w (ex_a sa1 ex_conn)"
    using app_close [of ?w] by (simp add: ex_a_def sa1_def ex_endpoint_def)
  ultimately show ?thesis
    unfolding ex_start_def by (meson reachable.intros sys_step.left)
qed

lemma run_loop_a: "control_iteration (sd, c) = Inr (sd', c') \<Longrightarrow> \<not> ctx_done c \<Longrightarrow>
    reachable s (ex_a sd c, b) \<Longrightarrow> reachable s (ex_a sd' c', b)"
  using ep_step.loop [of "ex_a sd c" sd' c'] by (auto simp: ex_a_def intro: reachable.step sys_step.left)

lemma run_loop_b: "control_iteration (sd, c) = Inr (sd', c') \<Longrightarrow> \<not> ctx_done c \<Longrightarrow>
    reachable s (a, ex_b sd c r cl) \<Longrightarrow> reachable s (a, ex_b sd' c' r cl)"
  using ep_step.loop [of "ex_b sd c r cl" sd' c'] by (auto simp: ex_b_def intro: reachable.step sys_step.right)

lemma run_sent: "reachable ex_start (ex_a sa3 ca3, ex_b (ex_sock 2 1) ex_conn [] False)"
proof -
  have b: "ex_endpoint 2 1 = ex_b (ex_sock 2 1) ex_conn [] False" by (simp add: ex_b_def ex_endpoint_def)
  show ?thesis
    using run_loop_a [OF loop_a2 _ run_loop_a [OF loop_a1 _ run_written]] b by simp
qed

lemma run_delivered: "reachable ex_start (ex_a sa3 ca3, ex_b sb1 ex_conn [] False)"
proof -
  let ?b = "\<lambda>q. ex_b ((ex_sock 2 1)\<lparr>network_recv_queue := q\<rparr>) ex_conn [] False"
  have p: "P1 \<in> set (wire_out (network_state (esock (ex_a sa3 ca3))))"
    "P2 \<in> set (wire_out (network_state (esock (ex_a sa3 ca3))))"
    by (simp_all add: ex_a_def sa3_def)
  have "sys_step (ex_a sa3 ca3, ex_b (ex_sock 2 1) ex_conn [] False) (ex_a sa3 ca3, ?b [P2])"
    using sys_step.to_right [OF p(2), of "ex_b (ex_sock 2 1) ex_conn [] False"]
    by (simp add: ex_b_def deliver_def mysock_enqueue_buffer_def)
  moreover have "sys_step (ex_a sa3 ca3, ?b [P2]) (ex_a sa3 ca3, ex_b sb1 ex_conn [] False)"
    using sys_step.to_right [OF p(1), of "?b [P2]"]
    by (simp add: ex_b_def sb1_def deliver_def mysock_enqueue_buffer_def)
  ultimately show ?thesis using run_sent by (blast intro: reachable.step)
qed

lemma run_received: "reachable ex_start (ex_a sa3 ca3, ex_b sb3 cb3 [] False)"
  using run_loop_b [OF loop_b2 _ run_loop_b [OF loop_b1 _ run_delivered]] by (simp add: cb2_def)

lemma run_read: "reachable ex_start (ex_a sa3 ca3, ex_b sb4 cb3 ex_data True)"
proof -
  let ?b = "ex_b (sb3\<lparr>app_send_queue := [[]]\<rparr>) cb3 ex_data False"
  have deq: "dequeue_partial (app_send_queue sb3) 2 = Inr (ex_data, [[]])"
    by (simp add: dequeue_partial_cases sb3_def ex_data_def)
  have "ep_step (ex_b sb3 cb3 [] False) ?b"
    using app_read [of "ex_b sb3 cb3 [] False" 2 ex_data "[[]]"] deq by (simp add: ex_b_def)
  moreover have "ep_step ?b (ex_b sb4 cb3 ex_data True)"
    using app_close [of ?b] by (simp add: ex_b_def sb4_def)
  ultimately show ?thesis using run_received by (blast intro: reachable.step sys_step.right)
qed

lemma run_closed: "reachable ex_start (ex_a sa5 (ca5\<lparr>ctx_done := True\<rparr>), ex_b sb5 cb5 ex_data True)"
proof -
  have 1: "reachable ex_start (ex_a sa3 ca3, ex_b sb5 cb5 ex_data True)"
    using run_loop_b [OF loop_b3 _ run_read] by (simp add: cb3_def)
  have "R3 \<in> set (wire_out (network_state (esock (ex_b sb5 cb5 ex_data True))))" by (simp add: ex_b_def sb5_def)
  from sys_step.to_left [OF this, of "ex_a sa3 ca3"]
  have "sys_step (ex_a sa3 ca3, ex_b sb5 cb5 ex_data True) (ex_a sa4 ca3, ex_b sb5 cb5 ex_data True)"
    by (simp add: ex_a_def sa4_def sa3_def deliver_def mysock_enqueue_buffer_def)
  with 1 have "reachable ex_start (ex_a sa4 ca3, ex_b sb5 cb5 ex_data True)" by (rule reachable.step)
  from run_loop_a [OF loop_a3 _ this] show ?thesis by simp
qed

section \<open>The properties on the run\<close>

lemma ex_endpoint_fields [simp]:
  "esock (ex_a sd c) = sd" "econn (ex_a sd c) = c" "written (ex_a sd c) = ex_data"
  "esock (ex_b sd c r cl) = sd" "econn (ex_b sd c r cl) = c" "has_read (ex_b sd c r cl) = r"
  by (simp_all add: ex_a_def ex_b_def)

theorem stcp_delivers_prefix_witness: "\<exists>rest. ex_data = ex_data @ rest"
  using stcp_delivers_prefix [OF ex_start run_read] by simp

theorem stcp_never_faults_witness:
  "control_iteration (sa3, ca3) = Inl Would_Block \<or> (\<exists>c'. control_iteration (sa3, ca3) = Inr c')"
  using stcp_never_faults [OF ex_start run_read] by simp

theorem stcp_graceful_close_witness: "delivered (ex_b sb5 cb5 ex_data True) = ex_data"
proof -
  have "connection_state (econn (ex_a sa5 (ca5\<lparr>ctx_done := True\<rparr>))) = CSTATE_CLOSED"
    "\<not> aborted (esock (ex_a sa5 (ca5\<lparr>ctx_done := True\<rparr>))) (econn (ex_a sa5 (ca5\<lparr>ctx_done := True\<rparr>)))"
    by (simp_all add: ca5_def ca4_def aborted_def)
  from stcp_graceful_close [OF ex_start run_closed this] show ?thesis by simp
qed

theorem stcp_fin_means_complete_witness: "delivered (ex_b sb3 cb3 [] False) = ex_data"
proof -
  have "is_FIN_RECEIVED (econn (ex_b sb3 cb3 [] False))" by (simp add: cb3_def)
  from stcp_fin_means_complete [OF ex_start run_received this] show ?thesis by simp
qed

theorem stcp_window_witness: "{2..<5} \<subseteq> dom (buf_map [ex_seg, ex_fin 4])"
  using stcp_window [OF ex_start run_sent] by simp

lemma resend_run: "resend_send_buffer sa3 [ex_seg, ex_fin 4] 2 =
    Inr (sa3\<lparr>network_state := (ex_net 1 2)\<lparr>wire_out := [P1, P2, P1, P2]\<rparr>\<rparr>)"
proof -
  have 1: "stcp_network_send sa3 (build_header 2 2 TH_ACK) ex_data =
      Inr (sa3\<lparr>network_state := (ex_net 1 2)\<lparr>wire_out := [P1, P2, P1]\<rparr>\<rparr>)"
    using ex_send [of 1 2 ex_data sa3 "[P1, P2]" 2 2 TH_ACK] by (simp add: sa3_def P1_def)
  have 2: "stcp_network_send (sa3\<lparr>network_state := (ex_net 1 2)\<lparr>wire_out := [P1, P2, P1]\<rparr>\<rparr>)
      (build_header 4 2 (TH_ACK OR TH_FIN)) [] =
      Inr (sa3\<lparr>network_state := (ex_net 1 2)\<lparr>wire_out := [P1, P2, P1, P2]\<rparr>\<rparr>)"
    using ex_send [of 1 2 "[]" "sa3\<lparr>network_state := (ex_net 1 2)\<lparr>wire_out := [P1, P2, P1]\<rparr>\<rparr>" "[P1, P2, P1]"
        4 2 "TH_ACK OR TH_FIN"] by (simp add: P2_def)
  show ?thesis using 1 2 by (simp add: ex_seg_def ex_fin_def)
qed

theorem timeout_resends_everything_witness:
  "\<exists>pkts. [P1, P2, P1, P2] = [P1, P2] @ pkts \<and> map pkt_segment pkts = [ex_seg, ex_fin 4]"
proof -
  obtain ctx' where "handle_timeout sa3 ca3 =
      Inr (sa3\<lparr>network_state := (ex_net 1 2)\<lparr>wire_out := [P1, P2, P1, P2]\<rparr>\<rparr>, ctx')"
    by (simp add: handle_timeout_def resend_run Let_def del: resend_send_buffer.simps)
  from timeout_resends_everything [OF this] show ?thesis by (simp add: sa3_def)
qed

end
