(* ===== verification/Stcp_Setup_Run.thy ===== *)
theory Stcp_Setup_Run
  imports Stcp_Setup Stcp_Scenario
begin

text \<open>
  A concrete handshake that succeeds in a single exchange: the hypotheses of the properties of
  \<open>Stcp_Setup\<close> can hold.
\<close>

section \<open>A handshake that succeeds\<close>

definition new_sock :: "u32 \<Rightarrow> u32 \<Rightarrow> mysock_context" where
  "new_sock me you = (ex_sock me you)\<lparr>blocking := True\<rparr>"

definition with_wire :: "u32 \<Rightarrow> u32 \<Rightarrow> bytes list \<Rightarrow> bytes list \<Rightarrow> mysock_context" where
  "with_wire me you w q = (new_sock me you)
     \<lparr>network_state := (ex_net me you)\<lparr>wire_out := w\<rparr>, network_recv_queue := q\<rparr>"

lemma with_wire_simps [simp]:
  "network_state (with_wire me you w q) = (ex_net me you)\<lparr>wire_out := w\<rparr>"
  "network_recv_queue (with_wire me you w q) = q" "app_recv_queue (with_wire me you w q) = []"
  "app_send_queue (with_wire me you w q) = []" "close_requested (with_wire me you w q) = False"
  "blocking (with_wire me you w q) = True" "clock (with_wire me you w q) = Timespec 10 0"
  "(with_wire me you w q)\<lparr>network_state := (ex_net me you)\<lparr>wire_out := w'\<rparr>\<rparr> = with_wire me you w' q"
  "(with_wire me you w q)\<lparr>network_recv_queue := q'\<rparr> = with_wire me you w q'"
  by (simp_all add: with_wire_def new_sock_def)

lemma idle_new: "0 < me \<Longrightarrow> 0 < you \<Longrightarrow> idle (with_wire me you [] [])"
  by (simp add: idle_def sock_ok_def)

definition syn_packet :: bytes where "syn_packet = ex_pkt 1 2 1 0 TH_SYN []"
definition synack_packet :: bytes where "synack_packet = ex_pkt 2 1 1 2 (TH_SYN OR TH_ACK) []"
definition ack_packet :: bytes where "ack_packet = ex_pkt 1 2 2 2 TH_ACK []"

definition syn_header :: tcphdr where "syn_header = build_header 1 0 TH_SYN"
definition synack_header :: tcphdr where "synack_header = build_header 1 2 (TH_SYN OR TH_ACK)"

definition ca_sent :: context_t where
  "ca_sent = log_time_and_calculate_timeout (Timespec 10 0) (init_context\<lparr>retransmission_count := 0,
     next_seq_num := 2\<rparr>)"

definition ca_done :: context_t where
  "ca_done = update_rto (Timespec 10 0) ca_sent False
     \<lparr>send_base := 2, peer_initial_seq := 1, receive_next := 2, retransmission_count := 0\<rparr>"

definition cb_got :: context_t where
  "cb_got = init_context\<lparr>peer_initial_seq := 1, receive_next := 2, retransmission_count := 0\<rparr>"

definition cb_sent :: context_t where
  "cb_sent = (log_time_and_calculate_timeout (Timespec 10 0) cb_got)\<lparr>next_seq_num := 2\<rparr>"

definition cb_done :: context_t where
  "cb_done = update_rto (Timespec 10 0) cb_sent False
     \<lparr>send_base := 2, peer_initial_seq := 2, receive_next := 2, retransmission_count := 0\<rparr>"

lemma init_simps [simp]:
  "next_seq_num init_context = 1" "send_base init_context = 1" "retransmission_count init_context = 0"
  by (simp_all add: init_context_def zero_context_def generate_initial_seq_num_def Let_def)

lemma params: "ex_params 1 2 []" "ex_params 2 1 []"
  by (simp_all add: ex_params_def)

lemma wait_packet: "stcp_wait_for_event (with_wire me you w (p # q)) NETWORK_DATA t =
    Inr (NETWORK_DATA, with_wire me you w (p # q))"
  by (simp add: stcp_wait_for_event_def wait_poll_def event_defs)

lemma valid_packet:
  assumes "ex_params me you []"
  shows "is_valid_seg_len_and_flags (ex_pkt me you sq ack fl []) 20 fl' = (fl AND fl' = fl')"
  using ex_fields [OF assms] by (simp add: is_valid_seg_len_and_flags_def STCP_HEADER_LEN_def)

lemma step_syn: "active_send syn_header (with_wire 1 2 [] []) (init_context\<lparr>retransmission_count := 0\<rparr>) =
    Inr (Active_Wait syn_header, with_wire 1 2 [syn_packet] [], ca_sent)"
  by (simp add: active_send_def MAX_RETRANSMISSION_COUNT_def syn_header_def ex_send [OF params(1), of _ "[]"]
      syn_packet_def ca_sent_def Let_def)

lemma step_listen: "passive_listen (with_wire 2 1 [] [syn_packet]) init_context =
    Inr (Passive_Send synack_header, with_wire 2 1 [] [], cb_got)"
  unfolding passive_listen_def wait_packet rbind_simps prod.case syn_packet_def
  using ex_recv [OF params(1), of "with_wire 2 1 [] [ex_pkt 1 2 1 0 TH_SYN []]" "[]"]
  by (simp add: valid_packet [OF params(1)] flag_bits ex_fields [OF params(1)] cb_got_def synack_header_def Let_def)

lemma step_synack: "passive_send synack_header (with_wire 2 1 [] []) cb_got =
    Inr (Passive_Wait synack_header, with_wire 2 1 [synack_packet] [], cb_sent)"
  by (simp add: passive_send_def synack_header_def ex_send [OF params(2), of _ "[]"] synack_packet_def
      cb_sent_def cb_got_def Let_def)

lemma step_ack: "active_wait syn_header (with_wire 1 2 [syn_packet] [synack_packet]) ca_sent =
    Inr (Handshake_Done, with_wire 1 2 [syn_packet, ack_packet] [], ca_done)"
proof -
  have c: "send_base ca_sent = 1" "retransmission_count ca_sent = 0" "next_seq_num ca_sent = 2"
    by (simp_all add: ca_sent_def)
  have send: "send_control (with_wire 1 2 [syn_packet] []) ca_done TH_ACK =
      Inr (with_wire 1 2 [syn_packet, ack_packet] [])"
    by (simp add: send_control_def ca_done_def c ex_send [OF params(1), of _ "[syn_packet]"] ack_packet_def)
  have nt: "NETWORK_DATA \<noteq> TIMEOUT" by (simp add: event_defs)
  show ?thesis
    unfolding active_wait_def wait_packet rbind_simps prod.case synack_packet_def
    using ex_recv [OF params(2), of "with_wire 1 2 [syn_packet] [ex_pkt 2 1 1 2 (TH_SYN OR TH_ACK) []]"
        "[syn_packet]"] nt send
    by (simp add: valid_packet [OF params(2)] flag_bits ex_fields [OF params(2)] c Let_def ca_done_def)
qed

lemma step_done: "passive_wait synack_header (with_wire 2 1 [synack_packet] [ack_packet]) cb_sent =
    Inr (Handshake_Done, with_wire 2 1 [synack_packet] [], cb_done)"
proof -
  have c: "send_base cb_sent = 1" "retransmission_count cb_sent = 0" by (simp_all add: cb_sent_def cb_got_def)
  have nw: "NETWORK_DATA AND NETWORK_DATA \<noteq> 0" by (simp add: event_defs)
  show ?thesis
    unfolding passive_wait_def wait_packet rbind_simps prod.case ack_packet_def
    using ex_recv [OF params(1), of "with_wire 2 1 [synack_packet] [ex_pkt 1 2 2 2 TH_ACK []]"
        "[synack_packet]"] nw
    by (simp add: valid_packet [OF params(1)] flag_bits ex_fields [OF params(1)] c Let_def cb_done_def)
qed

definition setup_ex :: "hs \<times> hs" where
  "setup_ex = (transport_start True (with_wire 1 2 [] []), transport_start False (with_wire 2 1 [] []))"

lemma setup_ex: "setup_start setup_ex"
proof -
  have "idle (with_wire 1 2 [] [])" "idle (with_wire 2 1 [] [])" using idle_new by simp_all
  moreover have "peers (with_wire 1 2 [] []) (with_wire 2 1 [] [])" by (simp add: peers_def)
  ultimately show ?thesis unfolding setup_start_def setup_ex_def by blast
qed

definition done_a :: hs where
  "done_a = (Handshake_Done, with_wire 1 2 [syn_packet, ack_packet] [], ca_done)"

definition done_b :: hs where
  "done_b = (Handshake_Done, with_wire 2 1 [synack_packet] [], cb_done)"

lemma setup_done: "set_up setup_ex (done_a, done_b)"
proof -
  let ?a0 = "(Active_Send syn_header, with_wire 1 2 [] [], init_context\<lparr>retransmission_count := 0\<rparr>)"
  let ?a1 = "(Active_Wait syn_header, with_wire 1 2 [syn_packet] [], ca_sent)"
  let ?b0 = "(Passive_Listen, with_wire 2 1 [] [], init_context)"
  let ?b2 = "(Passive_Wait synack_header, with_wire 2 1 [synack_packet] [], cb_sent)"
  have "set_up setup_ex (?a0, ?b0)"
    using hs_start [of setup_ex]
    by (simp add: setup_ex_def transport_start_def active_start_def syn_header_def)
  then have "set_up setup_ex (?a1, ?b0)"
    by (rule hs_next) (use step_syn in \<open>auto intro!: hs_step.intros hs_move.intros\<close>)
  then have "set_up setup_ex (?a1, hs_deliver syn_packet ?b0)"
    by (rule hs_next) (rule hs_to_right, simp add: hs_sock_def)
  then have "set_up setup_ex (?a1, (Passive_Send synack_header, with_wire 2 1 [] [], cb_got))"
    by (rule hs_next) (use step_listen in \<open>auto intro!: hs_right hs_move.intros
      simp: hs_deliver_def mysock_enqueue_buffer_def\<close>)
  then have "set_up setup_ex (?a1, ?b2)"
    by (rule hs_next) (use step_synack in \<open>auto intro!: hs_right hs_move.intros\<close>)
  then have "set_up setup_ex (hs_deliver synack_packet ?a1, ?b2)"
    by (rule hs_next) (rule hs_to_left, simp add: hs_sock_def)
  then have "set_up setup_ex (done_a, ?b2)"
    by (rule hs_next) (use step_ack in \<open>auto intro!: hs_left hs_move.intros
      simp: hs_deliver_def mysock_enqueue_buffer_def done_a_def\<close>)
  then have "set_up setup_ex (done_a, hs_deliver ack_packet ?b2)"
    by (rule hs_next) (rule hs_to_right, simp add: hs_sock_def done_a_def)
  then show ?thesis
    by (rule hs_next) (use step_done in \<open>auto intro!: hs_right hs_move.intros
      simp: hs_deliver_def mysock_enqueue_buffer_def done_b_def\<close>)
qed


definition session_a :: endpoint where "session_a = the (session_endpoint done_a)"
definition session_b :: endpoint where "session_b = the (session_endpoint done_b)"

lemma session_ex:
  "session_endpoint done_a = Some session_a" "session_endpoint done_b = Some session_b"
  "written session_a = []" "has_read session_a = []" "has_read session_b = []" "\<not> app_closed session_a"
  by (simp_all add: session_a_def session_b_def session_endpoint_def done_a_def done_b_def
      transport_connected_def stcp_unblock_application_def)

definition session_a1 :: endpoint where
  "session_a1 = session_a
     \<lparr>esock := (esock session_a)\<lparr>app_recv_queue := mysock_enqueue_buffer (app_recv_queue (esock session_a)) [7, 8]\<rparr>,
      written := written session_a @ [7, 8]\<rparr>"

lemma session_wrote: "reachable (session_a, session_b) (session_a1, session_b)"
proof -
  have "ep_step session_a session_a1"
    unfolding session_a1_def
    by (rule ep_step.app_write) (simp_all add: session_ex first_byte_def MAX_STREAM_def)
  then show ?thesis using reachable.start sys_step.left reachable.step by metis
qed


theorem handshake_never_stuck_witness:
  "\<exists>h'. handshake_step (fst setup_ex) = Inr h'"
  using handshake_never_stuck [OF setup_ex, of "fst setup_ex" "snd setup_ex" "fst setup_ex"] hs_start [of setup_ex]
  by (simp add: setup_ex_def transport_start_def active_start_def step_syn [unfolded syn_header_def])

end
