(* ===== verification/Router_Packet.thy ===== *)
theory Router_Packet
  imports Prelude
begin

text \<open>
  The packet formats of \<^verbatim>\<open>hw4/SimpleRouter/router/sr_protocol.h\<close> and the checksum of
  \<^verbatim>\<open>sr_utils.c\<close>. A frame is its bytes; a header field is read and written at its offset, in
  network byte order, and named by its host-order value (the conversions cancel in every
  comparison the code makes).
\<close>

section \<open>Sizes and constants\<close>

definition ETHER_ADDR_LEN :: nat where "ETHER_ADDR_LEN = 6"
definition sizeof_ether :: nat where "sizeof_ether = 14"
definition sizeof_ip :: nat where "sizeof_ip = 20"
definition sizeof_arp :: nat where "sizeof_arp = 28"
definition sizeof_icmp :: nat where "sizeof_icmp = 4"
definition ICMP_DATA_SIZE :: nat where "ICMP_DATA_SIZE = 28"
definition sizeof_icmp_t3 :: nat where "sizeof_icmp_t3 = 8 + ICMP_DATA_SIZE"
definition sizeof_icmp_t11 :: nat where "sizeof_icmp_t11 = 8 + ICMP_DATA_SIZE"

lemmas size_defs = ETHER_ADDR_LEN_def sizeof_ether_def sizeof_ip_def sizeof_arp_def sizeof_icmp_def
  ICMP_DATA_SIZE_def sizeof_icmp_t3_def sizeof_icmp_t11_def

definition ip_protocol_icmp :: u8 where "ip_protocol_icmp = 0x01"
definition ip_protocol_tcp :: u8 where "ip_protocol_tcp = 0x06"
definition ip_protocol_udp :: u8 where "ip_protocol_udp = 0x11"
definition ethertype_arp :: u16 where "ethertype_arp = 0x0806"
definition ethertype_ip :: u16 where "ethertype_ip = 0x0800"
definition arp_op_request :: u16 where "arp_op_request = 1"
definition arp_op_reply :: u16 where "arp_op_reply = 2"
definition arp_hrd_ethernet :: u16 where "arp_hrd_ethernet = 1"
definition INIT_TTL :: u8 where "INIT_TTL = 255"

section \<open>Fields\<close>

text \<open>The Ethernet header.\<close>

definition ether_dhost :: "bytes \<Rightarrow> bytes" where "ether_dhost f = take 6 f"
definition ether_shost :: "bytes \<Rightarrow> bytes" where "ether_shost f = take 6 (drop 6 f)"
definition ether_type :: "bytes \<Rightarrow> u16" where "ether_type f = get16 f 12"

text \<open>The IP header behind it.\<close>

definition ip_v :: "bytes \<Rightarrow> u8" where "ip_v f = drop_bit 4 (f ! 14)"
definition ip_ttl :: "bytes \<Rightarrow> u8" where "ip_ttl f = f ! 22"
definition ip_p :: "bytes \<Rightarrow> u8" where "ip_p f = f ! 23"
definition ip_sum :: "bytes \<Rightarrow> u16" where "ip_sum f = get16 f 24"
definition ip_src :: "bytes \<Rightarrow> u32" where "ip_src f = get32 f 26"
definition ip_dst :: "bytes \<Rightarrow> u32" where "ip_dst f = get32 f 30"

text \<open>The ICMP header behind that.\<close>

definition icmp_type :: "bytes \<Rightarrow> u8" where "icmp_type f = f ! 34"
definition icmp_code :: "bytes \<Rightarrow> u8" where "icmp_code f = f ! 35"
definition icmp_sum :: "bytes \<Rightarrow> u16" where "icmp_sum f = get16 f 36"

text \<open>The ARP header behind the Ethernet header.\<close>

definition ar_op :: "bytes \<Rightarrow> u16" where "ar_op f = get16 f 20"
definition ar_sha :: "bytes \<Rightarrow> bytes" where "ar_sha f = take 6 (drop 22 f)"
definition ar_sip :: "bytes \<Rightarrow> u32" where "ar_sip f = get32 f 28"
definition ar_tip :: "bytes \<Rightarrow> u32" where "ar_tip f = get32 f 38"

lemmas field_defs = ether_dhost_def ether_shost_def ether_type_def ip_v_def ip_ttl_def ip_p_def ip_sum_def
  ip_src_def ip_dst_def icmp_type_def icmp_code_def icmp_sum_def ar_op_def ar_sha_def ar_sip_def ar_tip_def

section \<open>The checksum\<close>

fun cksum_sum :: "u32 \<Rightarrow> bytes \<Rightarrow> u32" where
  "cksum_sum sm (a # b # rest) = cksum_sum (sm + (push_bit 8 (ucast a) OR ucast b)) rest"
| "cksum_sum sm [a] = sm + push_bit 8 (ucast a)"
| "cksum_sum sm [] = sm"

lemma unat_plus_u32:
  fixes a b :: u32
  assumes "unat a + unat b < 2 ^ 32"
  shows "unat (a + b) = unat a + unat b"
  using assms unat_add_lem [of a b] by simp

lemma unat_halves:
  fixes s :: u32
  shows "unat (drop_bit 16 s) = unat s div 65536" "unat (s AND 0xffff) = unat s mod 65536"
proof -
  have t: "take_bit LENGTH(32) (unat s) = unat s"
    by (rule take_bit_nat_eq_self) (rule unsigned_less)
  have "unat (drop_bit 16 s) = drop_bit 16 (unat s)"
    unfolding unsigned_drop_bit_eq t ..
  then show "unat (drop_bit 16 s) = unat s div 65536"
    unfolding drop_bit_eq_div [of 16 "unat s"] by (simp only: ) simp
  have "s AND 0xffff = take_bit 16 s" by (simp only: take_bit_eq_mask) (simp add: mask_eq_exp_minus_1)
  moreover have "unat (take_bit 16 s) = take_bit 16 (unat s)" by (rule unsigned_take_bit_eq)
  ultimately show "unat (s AND 0xffff) = unat s mod 65536"
    unfolding take_bit_eq_mod [of 16 "unat s"] by (simp only: ) simp
qed

lemma fold_smaller:
  fixes s :: u32
  assumes "0xffff < s"
  shows "unat (drop_bit 16 s + (s AND 0xffff)) = unat s div 65536 + unat s mod 65536"
    "unat s div 65536 + unat s mod 65536 < unat s"
proof -
  define h l where "h = unat s div 65536" and "l = unat s mod 65536"
  have s: "65535 < unat s" using assms by (simp add: word_less_nat_alt)
  have "unat s = 65536 * h + l" "l < 65536" by (simp_all add: h_def l_def)
  then have less: "h + l < unat s" using s by (cases h) simp_all
  then show "unat s div 65536 + unat s mod 65536 < unat s" by (simp only: h_def l_def)
  have "h + l < 2 ^ 32" using less unsigned_less [of s, where ?'a = nat] by simp
  then show "unat (drop_bit 16 s + (s AND 0xffff)) = unat s div 65536 + unat s mod 65536"
    using unat_plus_u32 [of "drop_bit 16 s" "s AND 0xffff"] by (simp only: unat_halves h_def l_def)
qed

function cksum_fold :: "u32 \<Rightarrow> u32" where
  "cksum_fold s = (if 0xffff < s then cksum_fold (drop_bit 16 s + (s AND 0xffff)) else s)"
  by auto
termination
  by (relation "measure unat") (simp_all add: fold_smaller)

declare cksum_fold.simps [simp del]

definition cksum :: "bytes \<Rightarrow> u16" where
  "cksum data =
     (let s = (ucast (NOT (cksum_fold (cksum_sum 0 data))) :: u16) in if s \<noteq> 0 then s else 0xffff)"

section \<open>The checksum as arithmetic\<close>

text \<open>The sum of the 16-bit words of a packet, the last one padded.\<close>

fun be_words :: "bytes \<Rightarrow> nat" where
  "be_words (a # b # rest) = 256 * unat a + unat b + be_words rest"
| "be_words [a] = 256 * unat a"
| "be_words [] = 0"

lemma be_words_append: "even (length xs) \<Longrightarrow> be_words (xs @ ys) = be_words xs + be_words ys"
  by (induction xs rule: be_words.induct) simp_all

lemma be_words_bound: "be_words b \<le> 65535 * ((length b + 1) div 2)"
proof (induction b rule: be_words.induct)
  case (1 a b rest)
  have "unat a \<le> 255" "unat b \<le> 255" using unsigned_less [of a, where ?'a = nat] unsigned_less [of b, where ?'a = nat] by simp_all
  then have "256 * unat a + unat b \<le> 65535" by linarith
  with 1 show ?case by simp
next
  case (2 a)
  have "unat a \<le> 255" using unsigned_less [of a, where ?'a = nat] by simp
  then show ?case by simp
qed simp

lemma be_word_u32: "unat (push_bit 8 (ucast a) OR ucast b :: u32) = 256 * unat (a :: u8) + unat (b :: u8)"
proof -
  have d: "push_bit 8 (ucast a) AND ucast b = (0 :: u32)"
    by (rule bit_word_eqI) (auto simp: bit_simps dest: bit_imp_le_length)
  have ab: "unat a < 256" "unat b < 256" using unsigned_less [of a, where ?'a = nat] unsigned_less [of b, where ?'a = nat] by simp_all
  have p: "unat (push_bit 8 (ucast a) :: u32) = 256 * unat a" "unat (ucast b :: u32) = unat b"
    using ab by (simp_all add: push_bit_eq_mult unat_word_ariths(2) unsigned_ucast_eq take_bit_nat_eq_self)
  have "unat (push_bit 8 (ucast a) OR ucast b :: u32) = unat (push_bit 8 (ucast a) + ucast b :: u32)"
    using d by (simp only: disjunctive_add_eq_or)
  also have "\<dots> = 256 * unat a + unat b"
    using p ab unat_add_lem [of "push_bit 8 (ucast a) :: u32" "ucast b"] by simp
  finally show ?thesis .
qed

lemma cksum_sum_words:
  "unat sm + be_words b < 2 ^ 32 \<Longrightarrow> unat (cksum_sum sm b) = unat sm + be_words b"
proof (induction sm b rule: cksum_sum.induct)
  case (1 sm a b rest)
  define w where "w = (push_bit 8 (ucast a) OR ucast b :: u32)"
  have w: "unat w = 256 * unat a + unat b" unfolding w_def by (rule be_word_u32)
  have sw: "unat (sm + w) = unat sm + (256 * unat a + unat b)"
    using 1(2) w unat_plus_u32 [of sm w] by simp
  have "unat (sm + w) + be_words rest < 2 ^ 32" using 1(2) sw by simp
  from 1(1) [folded w_def, OF this] sw show ?case by (simp add: w_def)
next
  case (2 sm a)
  define w where "w = (push_bit 8 (ucast a) :: u32)"
  have w: "unat w = 256 * unat a" unfolding w_def using be_word_u32 [of a 0] by simp
  have "unat (sm + w) = unat sm + 256 * unat a" using 2 w unat_plus_u32 [of sm w] by simp
  then show ?case by (simp add: w_def)
qed simp

lemma cksum_fold_residue:
  "unat (cksum_fold s) \<le> 65535 \<and> unat (cksum_fold s) mod 65535 = unat s mod 65535"
proof (induction s rule: cksum_fold.induct)
  case (1 s)
  show ?case
  proof (cases "0xffff < s")
    case True
    define h l where "h = unat s div 65536" and "l = unat s mod 65536"
    have "unat s = 65536 * h + l" by (simp add: h_def l_def)
    then have "unat s = h + l + h * 65535" by simp
    then have "unat s mod 65535 = (h + l) mod 65535" by (simp only: mod_mult_self1)
    moreover have "cksum_fold s = cksum_fold (drop_bit 16 s + (s AND 0xffff))"
      using True by (simp only: cksum_fold.simps [of s] if_True)
    ultimately show ?thesis
      using 1 [OF True] fold_smaller(1) [OF True] by (simp only: h_def l_def)
  next
    case False
    then have "cksum_fold s = s" by (simp only: cksum_fold.simps [of s] if_False)
    with False show ?thesis by (simp add: word_le_nat_alt not_less)
  qed
qed

text \<open>The checksum is the number from 1 to 65535 that makes the sum of the words divisible by
  65535.\<close>

lemma cksum_residue:
  assumes "be_words b < 2 ^ 32"
  shows "0 < unat (cksum b)" "unat (cksum b) \<le> 65535" "(be_words b + unat (cksum b)) mod 65535 = 0"
proof -
  define F where "F = unat (cksum_fold (cksum_sum 0 b))"
  have F: "F \<le> 65535" "F mod 65535 = be_words b mod 65535"
    using cksum_fold_residue [of "cksum_sum 0 b"] cksum_sum_words [of 0 b] assms by (simp_all add: F_def)
  define w where "w = (ucast (cksum_fold (cksum_sum 0 b)) :: u16)"
  have w: "unat w = F" using F(1) by (simp add: w_def F_def unsigned_ucast_eq take_bit_nat_eq_self)
  have c: "cksum b = (if NOT w \<noteq> 0 then NOT w else 0xffff)"
  proof -
    have "ucast (NOT (cksum_fold (cksum_sum 0 b))) = NOT w"
      unfolding w_def by (rule bit_word_eqI) (auto simp: bit_simps)
    then show ?thesis by (simp add: cksum_def Let_def)
  qed
  have "NOT w = -1 - w" by (simp add: not_eq_complement)
  moreover have "unat (-1 :: u16) = 65535" by (simp add: unsigned_minus_1_eq_mask mask_eq_exp_minus_1)
  then have "unat (-1 - w) = 65535 - F" using w F(1) by (simp add: unat_sub_if_size word_size)
  ultimately have n: "unat (NOT w) = 65535 - F" by simp
  have z: "NOT w = 0 \<longleftrightarrow> F = 65535"
    using n F(1) by (metis diff_is_0_eq diff_zero le_antisym le_refl unat_eq_zero)
  have v: "unat (cksum b) = (if F = 65535 then 65535 else 65535 - F)"
    using c z n by simp
  show "0 < unat (cksum b)" "unat (cksum b) \<le> 65535" using v F(1) by auto
  have "(F + unat (cksum b)) mod 65535 = 0" using v F(1) by simp
  then show "(be_words b + unat (cksum b)) mod 65535 = 0" using F(2) by (metis mod_add_left_eq)
qed

text \<open>A checksum field at an even offset adds its value to the sum.\<close>

lemma get16_unat: "unat (get16 b i) = 256 * unat (b ! i) + unat (b ! (i + 1))"
proof -
  define x y where "x = b ! i" and "y = b ! (i + 1)"
  have "(ucast (get16 b i) :: u32) = push_bit 8 (ucast x) OR ucast y"
    unfolding get16_def x_def y_def by (rule bit_word_eqI) (auto simp: bit_simps dest: bit_imp_le_length)
  then have "unat (ucast (get16 b i) :: u32) = 256 * unat x + unat y" using be_word_u32 by simp
  moreover have "unat (ucast (get16 b i) :: u32) = unat (get16 b i)"
    using unsigned_less [of "get16 b i", where ?'a = nat]
    by (simp add: unsigned_ucast_eq take_bit_nat_eq_self)
  ultimately show ?thesis by (simp add: x_def y_def)
qed

lemma be_words_field:
  assumes "even i" "i + 2 \<le> length b"
  shows "be_words b = be_words (take i b) + unat (get16 b i) + be_words (drop (i + 2) b)"
proof -
  have d: "drop i b = b ! i # b ! (i + 1) # drop (i + 2) b"
    using assms by (simp add: Cons_nth_drop_Suc numeral_2_eq_2)
  have e: "even (length (take i b))" using assms by simp
  have "be_words b = be_words (take i b) + be_words (drop i b)"
    using be_words_append [OF e, of "drop i b"] by simp
  then show ?thesis by (simp add: d get16_unat)
qed

lemma be_words_put:
  assumes "even i" "i + 2 \<le> length b"
  shows "be_words (put i (bytes16 c) b) + unat (get16 b i) = be_words b + unat c"
proof -
  have "get16 (put i (bytes16 c) b) i = c" using assms get16_append [of "take i b" i c] by (simp add: put_def)
  moreover have "take i (put i (bytes16 c) b) = take i b" "drop (i + 2) (put i (bytes16 c) b) = drop (i + 2) b"
    using assms by (simp_all add: put_def)
  ultimately show ?thesis
    using be_words_field [OF assms] be_words_field [of i "put i (bytes16 c) b"] assms by simp
qed

lemma zero_bytes: "[0, 0] = bytes16 0"
  by (simp add: bytes16_def)

lemma be_words_small: "length b \<le> 65535 \<Longrightarrow> be_words b < 2 ^ 32"
  using be_words_bound [of b] by (simp add: algebra_simps div_le_mono)

text \<open>What the receiving code tests: the stored checksum equals the computed one exactly when
  the words of the packet sum to a multiple of 65535 and the stored value is not 0.\<close>

lemma checksum_test:
  assumes "even i" "i + 2 \<le> length b" "length b \<le> 65535"
  shows "get16 b i = cksum (put i [0, 0] b) \<longleftrightarrow> be_words b mod 65535 = 0 \<and> get16 b i \<noteq> 0"
proof -
  let ?z = "put i [0, 0] b" and ?c = "get16 b i"
  have z: "be_words ?z + unat ?c = be_words b"
    using be_words_put [OF assms(1,2), of 0] by (simp add: zero_bytes)
  have "be_words ?z < 2 ^ 32" using be_words_small [of ?z] assms by (simp add: zero_bytes)
  note r = cksum_residue [OF this]
  have c: "unat ?c \<le> 65535" using unsigned_less [of ?c, where ?'a = nat] by simp
  show ?thesis
  proof
    assume "?c = cksum ?z"
    then show "be_words b mod 65535 = 0 \<and> ?c \<noteq> 0" using r z by auto
  next
    assume a: "be_words b mod 65535 = 0 \<and> ?c \<noteq> 0"
    then have "0 < unat ?c" by (simp add: unat_gt_0)
    have "(be_words ?z + unat ?c) mod 65535 = (be_words ?z + unat (cksum ?z)) mod 65535"
      using a r(3) z by simp
    then have "unat ?c mod 65535 = unat (cksum ?z) mod 65535"
      by (simp add: nat_mod_eq_iff)
    then have "unat ?c = unat (cksum ?z)"
      using c r(1,2) \<open>0 < unat ?c\<close>
      by (metis mod_less mod_self le_neq_implies_less less_numeral_extra(3))
    then show "?c = cksum ?z" by (simp add: word_unat_eq_iff)
  qed
qed

text \<open>What the sending code stores makes the sum of the words a multiple of 65535.\<close>

lemma checksum_stored:
  assumes "even i" "i + 2 \<le> length b" "length b \<le> 65535"
  shows "be_words (put i (bytes16 (cksum (put i [0, 0] b))) b) mod 65535 = 0"
proof -
  let ?z = "put i [0, 0] b"
  have "be_words ?z < 2 ^ 32" using be_words_small [of ?z] assms by (simp add: zero_bytes)
  note r = cksum_residue [OF this]
  have "be_words (put i (bytes16 (cksum ?z)) b) = be_words ?z + unat (cksum ?z)"
    using be_words_put [OF assms(1,2), of "cksum ?z"] be_words_put [OF assms(1,2), of 0] by (simp add: zero_bytes)
  with r(3) show ?thesis by simp
qed

end
