(* ===== verification/Router_Tables.thy ===== *)
theory Router_Tables
  imports Router_Packet
begin

text \<open>
  The state of the router (\<^verbatim>\<open>sr_router.h\<close>, \<^verbatim>\<open>sr_if.h\<close>, \<^verbatim>\<open>sr_rt.h\<close>,
  \<^verbatim>\<open>sr_arpcache.h\<close>) and its two tables: the interfaces (\<^verbatim>\<open>sr_if.c\<close>) and the routing
  table (\<^verbatim>\<open>sr_rt.c\<close>, \<open>sr_findLPMentry\<close> of \<^verbatim>\<open>sr_router.c\<close>,
  \<open>sr_verify_routing_table\<close> of \<^verbatim>\<open>sr_main.c\<close>).
\<close>

section \<open>C strings\<close>

text \<open>A character array is its bytes; a string in it ends before the first NUL.\<close>

definition c_str :: "bytes \<Rightarrow> bytes" where
  "c_str s = takeWhile (\<lambda>ch. ch \<noteq> 0) s"

definition strncpy :: "bytes \<Rightarrow> nat \<Rightarrow> bytes" where
  "strncpy src n = take n (c_str src)"

definition strncmp_eq :: "bytes \<Rightarrow> bytes \<Rightarrow> nat \<Rightarrow> bool" where
  "strncmp_eq a b n \<longleftrightarrow> take n (c_str a) = take n (c_str b)"

definition sr_IFACE_NAMELEN :: nat where "sr_IFACE_NAMELEN = 32"

section \<open>State\<close>

record sr_if =
  if_name :: bytes
  if_addr :: bytes
  if_ip :: u32

record sr_rt =
  rt_dest :: u32
  rt_gw :: u32
  rt_mask :: u32
  rt_interface :: bytes

record sr_packet =
  pk_buf :: bytes
  pk_iface :: bytes

record sr_arpentry =
  ae_mac :: bytes
  ae_ip :: u32
  ae_added :: int
  ae_valid :: bool

text \<open>A request is identified by its address: the code never queues two for one address.\<close>

record sr_arpreq =
  rq_ip :: u32
  rq_sent :: int
  rq_times_sent :: u32
  rq_packets :: "sr_packet list"

record sr_arpcache =
  entries :: "sr_arpentry list"
  requests :: "sr_arpreq list"

text \<open>\<open>now\<close> is what \<open>time (NULL)\<close> answers, \<open>to_server\<close> the messages written to the
  server's socket, oldest first.\<close>

record sr_instance =
  if_list :: "sr_if list"
  routing_table :: "sr_rt list"
  cache :: sr_arpcache
  now :: int
  to_server :: "bytes list"

section \<open>Interfaces\<close>

fun get_interface_from :: "sr_if list \<Rightarrow> bytes \<Rightarrow> sr_if option" where
  "get_interface_from [] name = None"
| "get_interface_from (w # rest) name =
     (if strncmp_eq (if_name w) name sr_IFACE_NAMELEN then Some w else get_interface_from rest name)"

definition sr_get_interface :: "sr_instance \<Rightarrow> bytes \<Rightarrow> sr_if option" where
  "sr_get_interface sr name = get_interface_from (if_list sr) name"

text \<open>\<open>malloc\<close> does not clear the new node: \<open>junk\<close> is what its memory held.\<close>

definition sr_add_interface :: "sr_if \<Rightarrow> sr_instance \<Rightarrow> bytes \<Rightarrow> sr_instance" where
  "sr_add_interface junk sr name =
     sr\<lparr>if_list := if_list sr @ [junk\<lparr>if_name := strncpy name sr_IFACE_NAMELEN\<rparr>]\<rparr>"

definition sr_set_ether_addr :: "sr_instance \<Rightarrow> bytes \<Rightarrow> sr_instance result" where
  "sr_set_ether_addr sr addr =
     rbind (c_assert (if_list sr \<noteq> [])) (\<lambda>_.
       Inr (sr\<lparr>if_list := butlast (if_list sr) @ [(last (if_list sr))\<lparr>if_addr := take 6 addr\<rparr>]\<rparr>))"

definition sr_set_ether_ip :: "sr_instance \<Rightarrow> u32 \<Rightarrow> sr_instance result" where
  "sr_set_ether_ip sr ip =
     rbind (c_assert (if_list sr \<noteq> [])) (\<lambda>_.
       Inr (sr\<lparr>if_list := butlast (if_list sr) @ [(last (if_list sr))\<lparr>if_ip := ip\<rparr>]\<rparr>))"

section \<open>Routing table\<close>

definition sr_add_rt_entry :: "sr_instance \<Rightarrow> u32 \<Rightarrow> u32 \<Rightarrow> u32 \<Rightarrow> bytes \<Rightarrow> sr_instance" where
  "sr_add_rt_entry sr dest gw msk ifname =
     sr\<lparr>routing_table := routing_table sr @
       [\<lparr>rt_dest = dest, rt_gw = gw, rt_mask = msk, rt_interface = strncpy ifname sr_IFACE_NAMELEN\<rparr>]\<rparr>"

fun lpm_scan :: "sr_rt list \<Rightarrow> u32 \<Rightarrow> sr_rt option \<Rightarrow> u32 \<Rightarrow> sr_rt option" where
  "lpm_scan [] dst lpmentry lpmmask = lpmentry"
| "lpm_scan (entry # rest) dst lpmentry lpmmask =
     (if dst AND rt_mask entry = rt_dest entry AND rt_mask entry \<and> lpmmask < rt_mask entry
      then lpm_scan rest dst (Some entry) (rt_mask entry)
      else lpm_scan rest dst lpmentry lpmmask)"

definition sr_findLPMentry :: "sr_rt list \<Rightarrow> u32 \<Rightarrow> sr_rt option" where
  "sr_findLPMentry rtable dst = lpm_scan rtable dst None 0"

fun count_missing :: "sr_if list \<Rightarrow> sr_rt list \<Rightarrow> int" where
  "count_missing ifs [] = 0"
| "count_missing ifs (w # rest) =
     (if get_interface_from ifs (rt_interface w) = None then 1 else 0) + count_missing ifs rest"

definition sr_verify_routing_table :: "sr_instance \<Rightarrow> int" where
  "sr_verify_routing_table sr =
     (if if_list sr = [] \<or> routing_table sr = [] then 999
      else count_missing (if_list sr) (routing_table sr))"

section \<open>Lemmas\<close>

lemma strncmp_refl [simp]: "strncmp_eq s s n"
  by (simp add: strncmp_eq_def)

lemma get_interface_SomeD:
  "get_interface_from ifs name = Some w \<Longrightarrow> w \<in> set ifs \<and> strncmp_eq (if_name w) name sr_IFACE_NAMELEN"
  by (induction ifs) (auto split: if_splits)

text \<open>Entries that match an address.\<close>

definition rt_matches :: "u32 \<Rightarrow> sr_rt \<Rightarrow> bool" where
  "rt_matches ip e \<longleftrightarrow> ip AND rt_mask e = rt_dest e AND rt_mask e"

lemma lpm_scan_spec:
  "(lpm_scan rt ip best m = best \<and> (\<forall>e \<in> set rt. rt_matches ip e \<longrightarrow> rt_mask e \<le> m)) \<or>
   (\<exists>pre e post. rt = pre @ e # post \<and> lpm_scan rt ip best m = Some e \<and> rt_matches ip e \<and> m < rt_mask e \<and>
     (\<forall>e' \<in> set pre. rt_matches ip e' \<longrightarrow> rt_mask e' < rt_mask e) \<and>
     (\<forall>e' \<in> set post. rt_matches ip e' \<longrightarrow> rt_mask e' \<le> rt_mask e))"
proof (induction rt arbitrary: best m)
  case Nil
  then show ?case by simp
next
  case (Cons e0 rt)
  show ?case
  proof (cases "rt_matches ip e0 \<and> m < rt_mask e0")
    case True
    then have s: "lpm_scan (e0 # rt) ip best m = lpm_scan rt ip (Some e0) (rt_mask e0)"
      by (simp add: rt_matches_def)
    from Cons [of "Some e0" "rt_mask e0"] show ?thesis
    proof (elim disjE exE conjE)
      assume "lpm_scan rt ip (Some e0) (rt_mask e0) = Some e0" "\<forall>e \<in> set rt. rt_matches ip e \<longrightarrow> rt_mask e \<le> rt_mask e0"
      with s True show ?thesis by (intro disjI2 exI [of _ "[]"] exI [of _ e0] exI [of _ rt]) simp
    next
      fix pre e post
      assume "rt = pre @ e # post" "lpm_scan rt ip (Some e0) (rt_mask e0) = Some e" "rt_matches ip e"
        "rt_mask e0 < rt_mask e" "\<forall>e' \<in> set pre. rt_matches ip e' \<longrightarrow> rt_mask e' < rt_mask e"
        "\<forall>e' \<in> set post. rt_matches ip e' \<longrightarrow> rt_mask e' \<le> rt_mask e"
      with s True show ?thesis
        by (intro disjI2 exI [of _ "e0 # pre"] exI [of _ e] exI [of _ post]) (auto intro: order.strict_trans)
    qed
  next
    case False
    then have s: "lpm_scan (e0 # rt) ip best m = lpm_scan rt ip best m"
      by (auto simp: rt_matches_def)
    from Cons [of best m] show ?thesis
    proof (elim disjE exE conjE)
      assume "lpm_scan rt ip best m = best" "\<forall>e \<in> set rt. rt_matches ip e \<longrightarrow> rt_mask e \<le> m"
      with s False show ?thesis by auto
    next
      fix pre e post
      assume "rt = pre @ e # post" "lpm_scan rt ip best m = Some e" "rt_matches ip e"
        "m < rt_mask e" "\<forall>e' \<in> set pre. rt_matches ip e' \<longrightarrow> rt_mask e' < rt_mask e"
        "\<forall>e' \<in> set post. rt_matches ip e' \<longrightarrow> rt_mask e' \<le> rt_mask e"
      with s False show ?thesis
        by (intro disjI2 exI [of _ "e0 # pre"] exI [of _ e] exI [of _ post]) (auto simp: not_less intro: le_less_trans)
    qed
  qed
qed

lemma lpm_in_table: "sr_findLPMentry rt ip = Some e \<Longrightarrow> e \<in> set rt \<and> rt_matches ip e"
  using lpm_scan_spec [of rt ip None 0] by (auto simp: sr_findLPMentry_def)

lemma verified_interface:
  assumes "sr_verify_routing_table sr = 0" "e \<in> set (routing_table sr)"
  shows "\<exists>w. sr_get_interface sr (rt_interface e) = Some w"
proof -
  have nonneg: "0 \<le> count_missing ifs rt" for ifs rt by (induction rt) auto
  have "count_missing ifs rt = 0 \<Longrightarrow> e \<in> set rt \<Longrightarrow> get_interface_from ifs (rt_interface e) \<noteq> None" for ifs rt
  proof (induction rt)
    case (Cons a rt)
    with nonneg [of ifs rt] show ?case by (auto split: if_splits)
  qed simp
  with assms show ?thesis by (auto simp: sr_verify_routing_table_def sr_get_interface_def split: if_splits)
qed

section \<open>Properties\<close>

text \<open>C18. Longest prefix match: among the entries that match the address and have a nonzero mask
  the scan returns one with the greatest mask, the first of them in the table, and it returns
  none exactly when there is none. For contiguous masks the greatest is the longest prefix.\<close>

theorem lpm_correct:
  "case sr_findLPMentry rt ip of
     None \<Rightarrow> \<forall>e \<in> set rt. rt_matches ip e \<longrightarrow> rt_mask e = 0
   | Some e \<Rightarrow> \<exists>pre post. rt = pre @ e # post \<and> rt_matches ip e \<and> rt_mask e \<noteq> 0 \<and>
       (\<forall>e' \<in> set pre. rt_matches ip e' \<longrightarrow> rt_mask e' < rt_mask e) \<and>
       (\<forall>e' \<in> set post. rt_matches ip e' \<longrightarrow> rt_mask e' \<le> rt_mask e)"
  using lpm_scan_spec [of rt ip None 0]
proof (elim disjE exE conjE)
  assume "lpm_scan rt ip None 0 = None" "\<forall>e \<in> set rt. rt_matches ip e \<longrightarrow> rt_mask e \<le> 0"
  then show ?thesis by (simp add: sr_findLPMentry_def)
next
  fix pre e post
  assume "rt = pre @ e # post" "lpm_scan rt ip None 0 = Some e" "rt_matches ip e" "0 < rt_mask e"
    "\<forall>e' \<in> set pre. rt_matches ip e' \<longrightarrow> rt_mask e' < rt_mask e"
    "\<forall>e' \<in> set post. rt_matches ip e' \<longrightarrow> rt_mask e' \<le> rt_mask e"
  moreover from this(4) have "rt_mask e \<noteq> 0" by auto
  ultimately have "\<exists>pre post. rt = pre @ e # post \<and> rt_matches ip e \<and> rt_mask e \<noteq> 0 \<and>
      (\<forall>e' \<in> set pre. rt_matches ip e' \<longrightarrow> rt_mask e' < rt_mask e) \<and>
      (\<forall>e' \<in> set post. rt_matches ip e' \<longrightarrow> rt_mask e' \<le> rt_mask e)"
    by blast
  with \<open>lpm_scan rt ip None 0 = Some e\<close> show ?thesis by (simp add: sr_findLPMentry_def)
qed

text \<open>\<open>sr_verify_routing_table\<close> returns 0 exactly when both tables are filled and every
  entry of the routing table names an interface that \<open>sr_get_interface\<close> finds.\<close>

lemma verify_routing_table_correct:
  "sr_verify_routing_table sr = 0 \<longleftrightarrow>
     if_list sr \<noteq> [] \<and> routing_table sr \<noteq> [] \<and>
     (\<forall>e \<in> set (routing_table sr). \<exists>w \<in> set (if_list sr).
        sr_get_interface sr (rt_interface e) = Some w \<and>
        strncmp_eq (if_name w) (rt_interface e) sr_IFACE_NAMELEN)" (is "_ \<longleftrightarrow> ?found")
proof
  assume v: "sr_verify_routing_table sr = 0"
  then show ?found
    using verified_interface [OF v] get_interface_SomeD
    by (auto simp: sr_verify_routing_table_def sr_get_interface_def split: if_splits) blast
next
  assume ?found
  moreover have "\<forall>e \<in> set rt. get_interface_from ifs (rt_interface e) \<noteq> None \<Longrightarrow> count_missing ifs rt = 0" for ifs rt
    by (induction rt) auto
  from this [of "routing_table sr" "if_list sr"] \<open>?found\<close>
  have "count_missing (if_list sr) (routing_table sr) = 0" by (fastforce simp: sr_get_interface_def)
  ultimately show "sr_verify_routing_table sr = 0"
    by (simp add: sr_verify_routing_table_def)
qed

end
