(* ===== verification/Router_Arp.thy ===== *)
theory Router_Arp
  imports Router_Tables
begin

text \<open>
  The ARP cache of \<^verbatim>\<open>hw4/SimpleRouter/router/sr_arpcache.c\<close>: the table of resolved
  addresses and the queue of requests with the packets that wait for them. The operations
  that also send packets are in \<open>Router_Forward\<close>.
\<close>

section \<open>Operations\<close>

definition SR_ARPCACHE_SZ :: nat where "SR_ARPCACHE_SZ = 100"
definition SR_ARPCACHE_TO :: int where "SR_ARPCACHE_TO = 15"

definition zero_entry :: sr_arpentry where
  "zero_entry = \<lparr>ae_mac = replicate 6 0, ae_ip = 0, ae_added = 0, ae_valid = False\<rparr>"

definition sr_arpcache_init :: sr_arpcache where
  "sr_arpcache_init = \<lparr>entries = replicate SR_ARPCACHE_SZ zero_entry, requests = []\<rparr>"

text \<open>The loop does not stop at a match: the last one counts.\<close>

fun lookup_scan :: "sr_arpentry list \<Rightarrow> u32 \<Rightarrow> sr_arpentry option \<Rightarrow> sr_arpentry option" where
  "lookup_scan [] ip entry = entry"
| "lookup_scan (e # rest) ip entry =
     lookup_scan rest ip (if ae_valid e \<and> ae_ip e = ip then Some e else entry)"

definition sr_arpcache_lookup :: "sr_arpcache \<Rightarrow> u32 \<Rightarrow> sr_arpentry option" where
  "sr_arpcache_lookup c ip = lookup_scan (entries c) ip None"

fun find_request :: "sr_arpreq list \<Rightarrow> u32 \<Rightarrow> sr_arpreq option" where
  "find_request [] ip = None"
| "find_request (r # rest) ip = (if rq_ip r = ip then Some r else find_request rest ip)"

fun remove_request :: "sr_arpreq list \<Rightarrow> u32 \<Rightarrow> sr_arpreq list" where
  "remove_request [] ip = []"
| "remove_request (r # rest) ip = (if rq_ip r = ip then rest else r # remove_request rest ip)"

fun update_request :: "(sr_arpreq \<Rightarrow> sr_arpreq) \<Rightarrow> sr_arpreq list \<Rightarrow> u32 \<Rightarrow> sr_arpreq list" where
  "update_request f [] ip = []"
| "update_request f (r # rest) ip =
     (if rq_ip r = ip then f r # rest else r # update_request f rest ip)"

text \<open>The pointer returned is the request for \<open>ip\<close>; the packet is copied, its buffer and
  interface name are present in every call of the code.\<close>

definition sr_arpcache_queuereq :: "sr_arpcache \<Rightarrow> u32 \<Rightarrow> bytes \<Rightarrow> bytes \<Rightarrow> sr_arpcache" where
  "sr_arpcache_queuereq c ip packet iface =
     (let reqs = (if find_request (requests c) ip = None
            then requests c @ [\<lparr>rq_ip = ip, rq_sent = 0, rq_times_sent = 0, rq_packets = []\<rparr>]
            else requests c);
          new_pkt = \<lparr>pk_buf = packet, pk_iface = strncpy iface sr_IFACE_NAMELEN\<rparr>
      in c\<lparr>requests :=
           (if packet \<noteq> [] then update_request (\<lambda>r. r\<lparr>rq_packets := new_pkt # rq_packets r\<rparr>) reqs ip
            else reqs)\<rparr>)"

fun fill_free :: "sr_arpentry list \<Rightarrow> sr_arpentry \<Rightarrow> sr_arpentry list" where
  "fill_free [] new = []"
| "fill_free (e # rest) new = (if \<not> ae_valid e then new # rest else e # fill_free rest new)"

definition sr_arpcache_insert :: "int \<Rightarrow> sr_arpcache \<Rightarrow> bytes \<Rightarrow> u32 \<Rightarrow> sr_arpreq option \<times> sr_arpcache" where
  "sr_arpcache_insert curtime c mac ip =
     (find_request (requests c) ip,
      c\<lparr>requests := remove_request (requests c) ip,
        entries := fill_free (entries c)
          \<lparr>ae_mac = take 6 mac, ae_ip = ip, ae_added = curtime, ae_valid = True\<rparr>\<rparr>)"

text \<open>Destroying a request that is still in the queue.\<close>

definition sr_arpreq_destroy :: "sr_arpcache \<Rightarrow> u32 \<Rightarrow> sr_arpcache" where
  "sr_arpreq_destroy c ip = c\<lparr>requests := remove_request (requests c) ip\<rparr>"

text \<open>The first half of a round of \<open>sr_arpcache_timeout\<close>.\<close>

definition expire_entries :: "int \<Rightarrow> sr_arpcache \<Rightarrow> sr_arpcache" where
  "expire_entries curtime c =
     c\<lparr>entries := map (\<lambda>e. if ae_valid e \<and> SR_ARPCACHE_TO < curtime - ae_added e
       then e\<lparr>ae_valid := False\<rparr> else e) (entries c)\<rparr>"

section \<open>The request queue\<close>

lemma find_request_eq: "find_request rs ip = Some r \<Longrightarrow> rq_ip r = ip \<and> r \<in> set rs"
  by (induction rs) (auto split: if_splits)

lemma find_request_None: "find_request rs ip = None \<longleftrightarrow> ip \<notin> rq_ip ` set rs"
  by (induction rs) auto

lemma find_unique: "distinct (map rq_ip rs) \<Longrightarrow> r \<in> set rs \<Longrightarrow> find_request rs (rq_ip r) = Some r"
  by (induction rs) (auto simp: rev_image_eqI)

lemma find_append:
  "find_request (rs @ rs') ip = (case find_request rs ip of None \<Rightarrow> find_request rs' ip | Some r \<Rightarrow> Some r)"
  by (induction rs) auto

lemma find_update:
  assumes "\<And>r. rq_ip (f r) = rq_ip r"
  shows "find_request (update_request f rs ip) ip' =
    (if ip' = ip then map_option f (find_request rs ip) else find_request rs ip')"
  using assms by (induction rs) auto

lemma find_remove:
  assumes "distinct (map rq_ip rs)"
  shows "find_request (remove_request rs ip) ip' = (if ip' = ip then None else find_request rs ip')"
  using assms by (induction rs) (auto simp: find_request_None)

lemma ips_update:
  assumes "\<And>r. rq_ip (f r) = rq_ip r"
  shows "map rq_ip (update_request f rs ip) = map rq_ip rs"
  using assms by (induction rs) auto

lemma set_remove: "set (remove_request rs ip) \<subseteq> set rs"
  by (induction rs) auto

lemma distinct_remove: "distinct (map rq_ip rs) \<Longrightarrow> distinct (map rq_ip (remove_request rs ip))"
  by (induction rs) (auto dest: set_remove [THEN subsetD])

text \<open>The packets that wait for an address, newest first.\<close>

definition waiting :: "sr_arpcache \<Rightarrow> u32 \<Rightarrow> sr_packet list" where
  "waiting c ip = (case find_request (requests c) ip of None \<Rightarrow> [] | Some r \<Rightarrow> rq_packets r)"

definition cache_ok :: "sr_arpcache \<Rightarrow> bool" where
  "cache_ok c \<longleftrightarrow> distinct (map rq_ip (requests c)) \<and> length (entries c) = SR_ARPCACHE_SZ \<and>
     (\<forall>r \<in> set (requests c). rq_packets r \<noteq> [])"

lemma length_fill [simp]: "length (fill_free es new) = length es"
  by (induction es) simp_all

lemma set_update:
  "set (update_request f rs ip) \<subseteq> set rs \<union> f ` {r \<in> set rs. rq_ip r = ip}"
  by (induction rs) auto

lemma queue_ok:
  assumes "cache_ok c" "packet \<noteq> []"
  shows "cache_ok (sr_arpcache_queuereq c ip packet iface)"
proof -
  define reqs where "reqs = (if find_request (requests c) ip = None
    then requests c @ [\<lparr>rq_ip = ip, rq_sent = 0, rq_times_sent = 0, rq_packets = []\<rparr>] else requests c)"
  define f where "f = (\<lambda>r :: sr_arpreq. r\<lparr>rq_packets := \<lparr>pk_buf = packet, pk_iface = strncpy iface sr_IFACE_NAMELEN\<rparr> # rq_packets r\<rparr>)"
  have q: "sr_arpcache_queuereq c ip packet iface = c\<lparr>requests := update_request f reqs ip\<rparr>"
    using assms(2) by (simp add: sr_arpcache_queuereq_def Let_def reqs_def f_def)
  have d: "distinct (map rq_ip reqs)"
    using assms(1) by (auto simp: reqs_def cache_ok_def find_request_None)
  have "rq_packets r \<noteq> []" if r: "r \<in> set (update_request f reqs ip)" for r
  proof (cases "rq_ip r = ip")
    case True
    obtain r0 where r0: "find_request reqs ip = Some r0"
      by (cases "find_request (requests c) ip") (auto simp: reqs_def find_append)
    then have "find_request (update_request f reqs ip) ip = Some (f r0)"
      by (simp add: find_update f_def)
    moreover have "distinct (map rq_ip (update_request f reqs ip))" using d by (simp add: ips_update f_def)
    then have "find_request (update_request f reqs ip) ip = Some r" using r True
      using find_unique by metis
    ultimately show ?thesis by (auto simp: f_def)
  next
    case False
    then have "r \<in> set (requests c)"
      using r set_update [of f reqs ip] by (auto simp: reqs_def f_def split: if_splits)
    then show ?thesis using assms(1) by (simp add: cache_ok_def)
  qed
  then show ?thesis using d assms(1) by (simp add: q cache_ok_def ips_update f_def)
qed

lemma insert_ok: "cache_ok c \<Longrightarrow> cache_ok (snd (sr_arpcache_insert t c mac ip))"
  using set_remove by (fastforce simp: sr_arpcache_insert_def cache_ok_def distinct_remove)

lemma destroy_ok: "cache_ok c \<Longrightarrow> cache_ok (sr_arpreq_destroy c ip)"
  using set_remove by (fastforce simp: sr_arpreq_destroy_def cache_ok_def distinct_remove)

lemma expire_ok: "cache_ok c \<Longrightarrow> cache_ok (expire_entries t c)"
  by (simp add: expire_entries_def cache_ok_def)

lemma waiting_queue:
  assumes "packet \<noteq> []"
  shows "waiting (sr_arpcache_queuereq c ip packet iface) ip' =
    (if ip' = ip then \<lparr>pk_buf = packet, pk_iface = strncpy iface sr_IFACE_NAMELEN\<rparr> # waiting c ip
     else waiting c ip')"
  using assms
  by (auto simp: waiting_def sr_arpcache_queuereq_def Let_def find_update find_append split: option.splits)

lemma waiting_insert:
  assumes "cache_ok c"
  shows "waiting (snd (sr_arpcache_insert t c mac ip)) ip' = (if ip' = ip then [] else waiting c ip')"
  using assms by (auto simp: waiting_def sr_arpcache_insert_def find_remove cache_ok_def)

section \<open>The interface between the queue and the forwarding code\<close>

text \<open>What the forwarding code relies on: packets queued for an address wait, and resolving the
  address hands out all of them and no others.\<close>

locale packet_waiting =
  fixes inv :: "'c \<Rightarrow> bool"
    and held :: "'c \<Rightarrow> u32 \<Rightarrow> 'p list"
    and hold :: "'c \<Rightarrow> u32 \<Rightarrow> 'p \<Rightarrow> 'c"
    and release :: "'c \<Rightarrow> u32 \<Rightarrow> 'p list \<times> 'c"
    and good :: "'p \<Rightarrow> bool"
  assumes hold_inv: "inv c \<Longrightarrow> good p \<Longrightarrow> inv (hold c ip p)"
    and release_inv: "inv c \<Longrightarrow> inv (snd (release c ip))"
    and held_hold: "inv c \<Longrightarrow> good p \<Longrightarrow>
      held (hold c ip p) ip' = (if ip' = ip then p # held c ip else held c ip')"
    and fst_release: "inv c \<Longrightarrow> fst (release c ip) = held c ip"
    and held_release: "inv c \<Longrightarrow> held (snd (release c ip)) ip' = (if ip' = ip then [] else held c ip')"
begin

fun hold_all :: "'c \<Rightarrow> (u32 \<times> 'p) list \<Rightarrow> 'c" where
  "hold_all c [] = c"
| "hold_all c ((ip, p) # rest) = hold_all (hold c ip p) rest"

lemma held_all:
  "inv c \<Longrightarrow> \<forall>(i, p) \<in> set qs. good p \<Longrightarrow>
     inv (hold_all c qs) \<and>
     held (hold_all c qs) ip = rev (map snd (filter (\<lambda>(i, p). i = ip) qs)) @ held c ip"
  by (induction c qs rule: hold_all.induct) (auto simp: hold_inv held_hold)

lemma release_all:
  assumes "inv c" "\<forall>(i, p) \<in> set qs. good p"
  shows "fst (release (hold_all c qs) ip) = rev (map snd (filter (\<lambda>(i, p). i = ip) qs)) @ held c ip"
    "held (snd (release (hold_all c qs) ip)) ip = []"
    "ip' \<noteq> ip \<Longrightarrow> held (snd (release (hold_all c qs) ip)) ip' =
       rev (map snd (filter (\<lambda>(i, p). i = ip') qs)) @ held c ip'"
  using held_all [OF assms] by (simp_all add: fst_release held_release)

end

definition queue_packet :: "sr_arpcache \<Rightarrow> u32 \<Rightarrow> sr_packet \<Rightarrow> sr_arpcache" where
  "queue_packet c ip p = sr_arpcache_queuereq c ip (pk_buf p) (pk_iface p)"

text \<open>What an ARP reply releases.\<close>

definition resolve :: "int \<Rightarrow> bytes \<Rightarrow> sr_arpcache \<Rightarrow> u32 \<Rightarrow> sr_packet list \<times> sr_arpcache" where
  "resolve t mac c ip =
     (case sr_arpcache_insert t c mac ip of
        (None, c') \<Rightarrow> ([], c')
      | (Some req, c') \<Rightarrow> (rq_packets req, c'))"

definition good_packet :: "sr_packet \<Rightarrow> bool" where
  "good_packet p \<longleftrightarrow> pk_buf p \<noteq> [] \<and> strncpy (pk_iface p) sr_IFACE_NAMELEN = pk_iface p"

interpretation arpq: packet_waiting cache_ok waiting queue_packet "resolve t mac" good_packet
  for t mac
proof unfold_locales
  fix c p ip ip'
  assume c: "cache_ok c"
  show "good_packet p \<Longrightarrow> cache_ok (queue_packet c ip p)"
    using queue_ok [OF c] by (simp add: queue_packet_def good_packet_def)
  show "good_packet p \<Longrightarrow>
      waiting (queue_packet c ip p) ip' = (if ip' = ip then p # waiting c ip else waiting c ip')"
    using waiting_queue by (simp add: queue_packet_def good_packet_def)
  have s: "snd (resolve t mac c ip) = snd (sr_arpcache_insert t c mac ip)"
    by (simp add: resolve_def split: prod.splits option.splits)
  show "cache_ok (snd (resolve t mac c ip))" unfolding s by (rule insert_ok [OF c])
  show "waiting (snd (resolve t mac c ip)) ip' = (if ip' = ip then [] else waiting c ip')"
    unfolding s by (rule waiting_insert [OF c])
  show "fst (resolve t mac c ip) = waiting c ip"
    by (simp add: resolve_def sr_arpcache_insert_def waiting_def split: option.split)
qed

section \<open>The table of resolved addresses\<close>

lemma lookup_scan_append: "lookup_scan (es @ es') ip acc = lookup_scan es' ip (lookup_scan es ip acc)"
  by (induction es arbitrary: acc) simp_all

definition resolved :: "sr_arpcache \<Rightarrow> u32 \<Rightarrow> bool" where
  "resolved c ip \<longleftrightarrow> (\<exists>e \<in> set (entries c). ae_valid e \<and> ae_ip e = ip)"

lemma lookup_scan_none:
  "\<forall>e \<in> set es. \<not> (ae_valid e \<and> ae_ip e = ip) \<Longrightarrow> lookup_scan es ip acc = acc"
  by (induction es arbitrary: acc) auto

lemma lookup_scan_Some:
  "lookup_scan es ip acc = Some e \<Longrightarrow> acc = Some e \<or> e \<in> set es \<and> ae_valid e \<and> ae_ip e = ip"
  by (induction es arbitrary: acc) (auto split: if_splits)

lemma lookup_scan_exists:
  "\<exists>e \<in> set es. ae_valid e \<and> ae_ip e = ip \<Longrightarrow> lookup_scan es ip acc \<noteq> None"
proof (induction es arbitrary: acc)
  case (Cons e es)
  have "lookup_scan es ip (Some e') \<noteq> None" for e'
    by (induction es arbitrary: e') auto
  with Cons show ?case by auto
qed simp

lemma resolved_lookup: "resolved c ip \<longleftrightarrow> sr_arpcache_lookup c ip \<noteq> None"
  unfolding resolved_def sr_arpcache_lookup_def using lookup_scan_exists lookup_scan_none by metis

lemma fill_free_split:
  assumes "\<exists>e \<in> set es. \<not> ae_valid e"
  obtains pre e post where "es = pre @ e # post" "\<not> ae_valid e" "\<forall>x \<in> set pre. ae_valid x"
    "fill_free es new = pre @ new # post"
  using assms
proof (induction es arbitrary: thesis)
  case (Cons x es)
  show ?case
  proof (cases "ae_valid x")
    case True
    with Cons.prems(2) have "\<exists>e \<in> set es. \<not> ae_valid e" by auto
    from Cons.IH [OF _ this] obtain pre e post where "es = pre @ e # post" "\<not> ae_valid e"
        "\<forall>x \<in> set pre. ae_valid x" "fill_free es new = pre @ new # post" by blast
    with True show ?thesis by (intro Cons.prems(1) [of "x # pre" e post]) auto
  next
    case False
    then show ?thesis by (intro Cons.prems(1) [of "[]" x es]) auto
  qed
qed simp

lemma fill_free_full: "\<forall>e \<in> set es. ae_valid e \<Longrightarrow> fill_free es new = es"
  by (induction es) auto

definition has_room :: "sr_arpcache \<Rightarrow> bool" where
  "has_room c \<longleftrightarrow> (\<exists>e \<in> set (entries c). \<not> ae_valid e)"

lemma lookup_scan_invalid: "\<not> ae_valid e \<Longrightarrow> lookup_scan (pre @ e # post) ip acc = lookup_scan (pre @ post) ip acc"
  by (simp add: lookup_scan_append)

section \<open>Properties\<close>

text \<open>C20. No packet that waits for an address is lost or handed out twice: after any sequence of
  queued packets, an ARP reply for an address releases exactly the packets queued for it, newest
  first, and leaves those of all other addresses waiting.\<close>

theorem arp_queue_complete:
  assumes "cache_ok c" "\<forall>(i, p) \<in> set qs. good_packet p" "ip' \<noteq> ip"
  shows "case resolve t mac (foldl (\<lambda>c (i, p). queue_packet c i p) c qs) ip of (released, c') \<Rightarrow>
    released = rev (map snd (filter (\<lambda>(i, p). i = ip) qs)) @ waiting c ip \<and>
    waiting c' ip = [] \<and>
    waiting c' ip' = rev (map snd (filter (\<lambda>(i, p). i = ip') qs)) @ waiting c ip'"
proof -
  have "foldl (\<lambda>c (i, p). queue_packet c i p) c qs = arpq.hold_all c qs"
    by (induction c qs rule: arpq.hold_all.induct) simp_all
  then show ?thesis
    using assms(3) by (simp add: case_prod_beta arpq.release_all [OF assms(1,2)])
qed

text \<open>The address table: a mapping learned for an address that is not in the table is found
  afterwards when a slot is free, and every other address keeps its answer.\<close>

lemma arp_lookup_insert:
  assumes "has_room c" "\<not> resolved c ip"
  shows "sr_arpcache_lookup (snd (sr_arpcache_insert t c mac ip)) ip =
      Some \<lparr>ae_mac = take 6 mac, ae_ip = ip, ae_added = t, ae_valid = True\<rparr> \<and>
    (ip' \<noteq> ip \<longrightarrow> sr_arpcache_lookup (snd (sr_arpcache_insert t c mac ip)) ip' = sr_arpcache_lookup c ip')"
proof -
  let ?new = "\<lparr>ae_mac = take 6 mac, ae_ip = ip, ae_added = t, ae_valid = True\<rparr>"
  obtain pre e post where s: "entries c = pre @ e # post" "\<not> ae_valid e"
      "fill_free (entries c) ?new = pre @ ?new # post"
    using fill_free_split assms(1) unfolding has_room_def by metis
  have none: "\<forall>x \<in> set post. \<not> (ae_valid x \<and> ae_ip x = ip)"
    using assms(2) s(1) by (auto simp: resolved_def)
  have "sr_arpcache_lookup (snd (sr_arpcache_insert t c mac ip)) ip = Some ?new"
    using s lookup_scan_none [OF none] by (simp add: sr_arpcache_lookup_def sr_arpcache_insert_def lookup_scan_append)
  moreover have "ip' \<noteq> ip \<longrightarrow>
      sr_arpcache_lookup (snd (sr_arpcache_insert t c mac ip)) ip' = sr_arpcache_lookup c ip'"
    using s by (simp add: sr_arpcache_lookup_def sr_arpcache_insert_def lookup_scan_append)
  ultimately show ?thesis ..
qed

text \<open>A reply that announces a new hardware address for an address still in the table behind
  the first free slot has no effect on lookups: the old entry is found until it expires.\<close>

lemma arp_insert_stale:
  assumes "entries c = pre @ e # post" "\<not> ae_valid e" "\<forall>x \<in> set pre. ae_valid x"
    "old \<in> set post" "ae_valid old" "ae_ip old = ip"
  shows "sr_arpcache_lookup (snd (sr_arpcache_insert t c mac ip)) ip = sr_arpcache_lookup c ip"
proof -
  let ?new = "\<lparr>ae_mac = take 6 mac, ae_ip = ip, ae_added = t, ae_valid = True\<rparr>"
  have "fill_free (entries c) ?new = pre @ ?new # post"
    unfolding assms(1) using assms(2,3) by (induction pre) simp_all
  moreover have "lookup_scan post ip acc = lookup_scan post ip acc'" for acc acc'
    using assms(4-6) by (induction post arbitrary: acc acc') auto
  ultimately show ?thesis
    using assms(1) by (simp add: sr_arpcache_lookup_def sr_arpcache_insert_def lookup_scan_append)
qed

text \<open>An expired entry is not found any more, and an entry is dropped only when it is older
  than \<open>SR_ARPCACHE_TO\<close>.\<close>

lemma arp_entries_expire:
  "(\<forall>e. sr_arpcache_lookup (expire_entries t c) ip = Some e \<longrightarrow> t - ae_added e \<le> SR_ARPCACHE_TO) \<and>
   (resolved c ip \<and> (\<forall>e \<in> set (entries c). ae_ip e = ip \<longrightarrow> t - ae_added e \<le> SR_ARPCACHE_TO) \<longrightarrow>
      sr_arpcache_lookup (expire_entries t c) ip = sr_arpcache_lookup c ip)"
proof -
  let ?f = "\<lambda>e. if ae_valid e \<and> SR_ARPCACHE_TO < t - ae_added e then e\<lparr>ae_valid := False\<rparr> else e"
  have "t - ae_added e \<le> SR_ARPCACHE_TO" if "sr_arpcache_lookup (expire_entries t c) ip = Some e" for e
  proof -
    have "e \<in> ?f ` set (entries c)" "ae_valid e"
      using lookup_scan_Some that by (fastforce simp: sr_arpcache_lookup_def expire_entries_def)+
    then show ?thesis by (auto split: if_splits)
  qed
  moreover have "lookup_scan (map ?f es) ip acc = lookup_scan es ip acc"
    if "\<forall>e \<in> set es. ae_ip e = ip \<longrightarrow> t - ae_added e \<le> SR_ARPCACHE_TO" for es acc
    using that by (induction es arbitrary: acc) auto
  ultimately show ?thesis by (auto simp: sr_arpcache_lookup_def expire_entries_def)
qed

end
