(* ===== verification/Router_Forward.thy ===== *)
theory Router_Forward
  imports Router_Arp
begin

text \<open>
  The router's forwarding path: sending a frame to the server (\<^verbatim>\<open>sr_vns_comm.c\<close>), the
  handling of ARP requests and their queue (\<^verbatim>\<open>sr_arpcache.c\<close>) and \<open>sr_handlepacket\<close>
  (\<^verbatim>\<open>sr_router.c\<close>). A null interface is an error branch, as are reads outside a buffer
  and uses of freed requests. The recursion of \<open>sr_arpcache_handle_arpreq\<close> takes fuel.
\<close>

section \<open>Sending\<close>

definition VNSPACKET :: u32 where "VNSPACKET = 4"
definition sizeof_packet_header :: nat where "sizeof_packet_header = 24"

text \<open>\<open>strncpy\<close> into a field of \<open>n\<close> bytes pads with NULs.\<close>

definition name_field :: "bytes \<Rightarrow> nat \<Rightarrow> bytes" where
  "name_field name n = strncpy name n @ replicate (n - length (strncpy name n)) 0"

definition vns_packet :: "bytes \<Rightarrow> bytes \<Rightarrow> bytes" where
  "vns_packet iface buf =
     bytes32 (of_nat (length buf + sizeof_packet_header)) @ bytes32 VNSPACKET @ name_field iface 16 @ buf"

definition sr_ether_addrs_match_interface :: "sr_instance \<Rightarrow> bytes \<Rightarrow> bytes \<Rightarrow> bool" where
  "sr_ether_addrs_match_interface sr buf name =
     (case sr_get_interface sr name of
        None \<Rightarrow> False
      | Some iface \<Rightarrow> ether_shost buf = if_addr iface)"

text \<open>The socket takes the whole message.\<close>

definition sr_send_packet :: "sr_instance \<Rightarrow> bytes \<Rightarrow> bytes \<Rightarrow> int \<times> sr_instance" where
  "sr_send_packet sr buf iface =
     (if length buf < sizeof_ether then (-1, sr)
      else if \<not> sr_ether_addrs_match_interface sr buf iface then (-1, sr)
      else (0, sr\<lparr>to_server := to_server sr @ [vns_packet iface buf]\<rparr>))"

section \<open>Frames the router makes\<close>

definition arp_frame :: "u16 \<Rightarrow> bytes \<Rightarrow> sr_if \<Rightarrow> bytes \<Rightarrow> u32 \<Rightarrow> bytes" where
  "arp_frame opcode dhost ifc tha tip =
     dhost @ if_addr ifc @ bytes16 ethertype_arp @
     bytes16 arp_hrd_ethernet @ bytes16 ethertype_ip @ [of_nat ETHER_ADDR_LEN, 4] @ bytes16 opcode @
     if_addr ifc @ bytes32 (if_ip ifc) @ tha @ bytes32 tip"

definition set_ip_sum :: "bytes \<Rightarrow> bytes" where
  "set_ip_sum f = put 24 (bytes16 (cksum (take sizeof_ip (drop sizeof_ether (put 24 [0, 0] f))))) f"

definition set_icmp_sum :: "bytes \<Rightarrow> bytes" where
  "set_icmp_sum f = put 36 (bytes16 (cksum (drop 34 (put 36 [0, 0] f)))) f"

text \<open>An ICMP message of type 3 or 11 to \<open>dst\<close>, with the first bytes of the offending IP
  packet.\<close>

definition icmp_error_frame :: "sr_if \<Rightarrow> u32 \<Rightarrow> u8 \<Rightarrow> u8 \<Rightarrow> bytes \<Rightarrow> bytes" where
  "icmp_error_frame ifc dst ty code data =
     set_icmp_sum (set_ip_sum
       (replicate 6 0 @ if_addr ifc @ bytes16 ethertype_ip @
        [0x45, 0] @ bytes16 (of_nat (sizeof_ip + sizeof_icmp_t3)) @ [0, 0, 0, 0, INIT_TTL, ip_protocol_icmp, 0, 0] @
        bytes32 (if_ip ifc) @ bytes32 dst @ [ty, code, 0, 0, 0, 0, 0, 0] @ data))"

section \<open>ARP requests\<close>

text \<open>Sending a frame to \<open>ip\<close> when its hardware address is known, else queueing it and
  handling the request it waits for.\<close>

definition send_or_queue ::
  "(sr_instance \<Rightarrow> u32 \<Rightarrow> sr_instance result) \<Rightarrow> sr_instance \<Rightarrow> u32 \<Rightarrow> bytes \<Rightarrow> bytes \<Rightarrow> sr_instance result"
where
  "send_or_queue handle sr ip frame iface =
     (case sr_arpcache_lookup (cache sr) ip of
        Some e \<Rightarrow> Inr (snd (sr_send_packet sr (put 0 (ae_mac e) frame) iface))
      | None \<Rightarrow> handle (sr\<lparr>cache := sr_arpcache_queuereq (cache sr) ip frame iface\<rparr>) ip)"

definition send_icmp_error ::
  "(sr_instance \<Rightarrow> u32 \<Rightarrow> sr_instance result) \<Rightarrow> sr_instance \<Rightarrow> sr_rt \<Rightarrow> bytes \<Rightarrow> u8 \<Rightarrow> u8 \<Rightarrow> sr_instance result"
where
  "send_icmp_error handle sr rtentry f ty code =
     (case sr_get_interface sr (rt_interface rtentry) of
        None \<Rightarrow> Inl Null_Dereference
      | Some ifc \<Rightarrow>
          rbind (memcpy_from (drop sizeof_ether f) ICMP_DATA_SIZE) (\<lambda>data.
            send_or_queue handle sr (ip_src f) (icmp_error_frame ifc (ip_src f) ty code data)
              (rt_interface rtentry)))"

text \<open>Host unreachable for every packet of a request that is given up. The loop goes on from
  the packet to its successor: when the request is freed meanwhile, that is freed memory.\<close>

fun expire_packets ::
  "(sr_instance \<Rightarrow> u32 \<Rightarrow> sr_instance result) \<Rightarrow> sr_instance \<Rightarrow> u32 \<Rightarrow> sr_packet list \<Rightarrow> sr_instance result"
where
  "expire_packets handle sr ip [] = Inr sr"
| "expire_packets handle sr ip (pck # rest) =
     (let f = pk_buf pck
      in if (of_nat (length f) - of_nat sizeof_ether :: u64) < of_nat ICMP_DATA_SIZE
         then expire_packets handle sr ip rest
         else if length f < sizeof_ether + ICMP_DATA_SIZE then Inl Out_Of_Bounds
         else if ip_p f = ip_protocol_icmp \<and> (icmp_type f = 3 \<or> icmp_type f = 11)
         then expire_packets handle sr ip rest
         else case sr_findLPMentry (routing_table sr) (ip_src f) of
             None \<Rightarrow> expire_packets handle sr ip rest
           | Some rtentry \<Rightarrow>
               rbind (send_icmp_error handle sr rtentry f 3 1) (\<lambda>sr'.
                 if find_request (requests (cache sr')) ip = None then Inl Use_After_Free
                 else expire_packets handle sr' ip rest))"

text \<open>Another try: the request is sent again on the interface of its first packet.\<close>

definition retry_request :: "sr_instance \<Rightarrow> sr_arpreq \<Rightarrow> sr_instance result" where
  "retry_request sr req =
     rbind (c_assert (rq_packets req \<noteq> [])) (\<lambda>_.
       let sr1 = sr\<lparr>cache := (cache sr)\<lparr>requests :=
             update_request (\<lambda>r. r\<lparr>rq_sent := now sr, rq_times_sent := rq_times_sent r + 1\<rparr>)
               (requests (cache sr)) (rq_ip req)\<rparr>\<rparr>
       in case sr_get_interface sr1 (pk_iface (hd (rq_packets req))) of
            None \<Rightarrow> Inl Null_Dereference
          | Some ifc \<Rightarrow>
              Inr (snd (sr_send_packet sr1
                (arp_frame arp_op_request (replicate 6 0xff) ifc (replicate 6 0) (rq_ip req)) (if_name ifc))))"

primrec sr_arpcache_handle_arpreq :: "nat \<Rightarrow> sr_instance \<Rightarrow> u32 \<Rightarrow> sr_instance result" where
  "sr_arpcache_handle_arpreq 0 sr ip = Inl Out_Of_Fuel"
| "sr_arpcache_handle_arpreq (Suc n) sr ip =
     (case find_request (requests (cache sr)) ip of
        None \<Rightarrow> Inl Use_After_Free
      | Some req \<Rightarrow>
          if 1 \<le> now sr - rq_sent req then
            if 5 \<le> rq_times_sent req
            then rbind (expire_packets (sr_arpcache_handle_arpreq n) sr ip (rq_packets req))
              (\<lambda>sr'. Inr (sr'\<lparr>cache := sr_arpreq_destroy (cache sr') ip\<rparr>))
            else retry_request sr req
          else Inr sr)"

text \<open>The sweep over the list of requests: \<open>next\<close> is read before the request is handled.\<close>

fun next_request :: "sr_arpreq list \<Rightarrow> u32 \<Rightarrow> u32 option" where
  "next_request [] ip = None"
| "next_request (r # rest) ip =
     (if rq_ip r = ip then (case rest of [] \<Rightarrow> None | r' # _ \<Rightarrow> Some (rq_ip r')) else next_request rest ip)"

fun sweep_loop :: "nat \<Rightarrow> nat \<Rightarrow> sr_instance \<Rightarrow> u32 option \<Rightarrow> sr_instance result" where
  "sweep_loop n k sr None = Inr sr"
| "sweep_loop n 0 sr (Some ip) = Inl Out_Of_Fuel"
| "sweep_loop n (Suc k) sr (Some ip) =
     (if find_request (requests (cache sr)) ip = None then Inl Use_After_Free
      else let nxt = next_request (requests (cache sr)) ip
        in rbind (sr_arpcache_handle_arpreq n sr ip) (\<lambda>sr'. sweep_loop n k sr' nxt))"

definition sr_arpcache_sweepreqs :: "nat \<Rightarrow> nat \<Rightarrow> sr_instance \<Rightarrow> sr_instance result" where
  "sr_arpcache_sweepreqs n k sr =
     sweep_loop n k sr (case requests (cache sr) of [] \<Rightarrow> None | r # _ \<Rightarrow> Some (rq_ip r))"

text \<open>A round of the cleanup thread.\<close>

definition sr_arpcache_timeout :: "nat \<Rightarrow> nat \<Rightarrow> sr_instance \<Rightarrow> sr_instance result" where
  "sr_arpcache_timeout n k sr =
     sr_arpcache_sweepreqs n k (sr\<lparr>cache := expire_entries (now sr) (cache sr)\<rparr>)"

section \<open>\<open>sr_handlepacket\<close>\<close>

definition ip_black_list :: "bytes \<Rightarrow> bool" where
  "ip_black_list f =
     (let blacklist_base = 0x0A000200; msk = 0xFFFFFF00
      in if ip_src f AND msk = blacklist_base AND msk then True
         else if ip_dst f AND msk = blacklist_base AND msk then True
         else False)"

definition handle_echo_request ::
  "(sr_instance \<Rightarrow> u32 \<Rightarrow> sr_instance result) \<Rightarrow> sr_instance \<Rightarrow> bytes \<Rightarrow> sr_instance result" where
  "handle_echo_request handle sr f =
     (if icmp_sum f \<noteq> cksum (drop 34 (put 36 [0, 0] f)) then Inr sr
      else
        let ipaddr = ip_src f;
            f1 = put 22 [INIT_TTL] f;
            f2 = put 30 (bytes32 ipaddr) (put 26 (bytes32 (ip_dst f)) f1);
            f3 = put 34 [0] (set_ip_sum f2);
            reply = set_icmp_sum f3
        in case sr_findLPMentry (routing_table sr) (ip_dst reply) of
             None \<Rightarrow> Inr sr
           | Some rtentry \<Rightarrow>
               (case sr_get_interface sr (rt_interface rtentry) of
                  None \<Rightarrow> Inl Null_Dereference
                | Some ifc \<Rightarrow>
                    send_or_queue handle sr ipaddr (put 6 (if_addr ifc) reply) (rt_interface rtentry)))"

definition handle_own_packet ::
  "(sr_instance \<Rightarrow> u32 \<Rightarrow> sr_instance result) \<Rightarrow> sr_instance \<Rightarrow> bytes \<Rightarrow> sr_instance result" where
  "handle_own_packet handle sr f =
     (let len_r = length f - sizeof_ether - sizeof_ip
      in if ip_p f = ip_protocol_icmp then
           if len_r < sizeof_icmp then Inr sr
           else if icmp_type f = 0x08 then handle_echo_request handle sr f
           else Inr sr
         else if ip_p f = ip_protocol_tcp \<or> ip_p f = ip_protocol_udp then
           if len_r + sizeof_ip < ICMP_DATA_SIZE then Inr sr
           else (case sr_findLPMentry (routing_table sr) (ip_src f) of
               None \<Rightarrow> Inr sr
             | Some rtentry \<Rightarrow> send_icmp_error handle sr rtentry f 3 3)
         else Inr sr)"

text \<open>The next hop of a forwarded packet is its destination itself.\<close>

definition forward_packet ::
  "(sr_instance \<Rightarrow> u32 \<Rightarrow> sr_instance result) \<Rightarrow> sr_instance \<Rightarrow> sr_rt \<Rightarrow> bytes \<Rightarrow> sr_instance result" where
  "forward_packet handle sr rtentry f =
     (case sr_get_interface sr (rt_interface rtentry) of
        None \<Rightarrow> Inl Null_Dereference
      | Some ifc \<Rightarrow>
          let f1 = set_ip_sum (put 22 [ip_ttl f - 1] f)
          in send_or_queue handle sr (ip_dst f1) (put 6 (if_addr ifc) f1) (rt_interface rtentry))"

definition bounce ::
  "(sr_instance \<Rightarrow> u32 \<Rightarrow> sr_instance result) \<Rightarrow> sr_instance \<Rightarrow> bytes \<Rightarrow> u8 \<Rightarrow> u8 \<Rightarrow> sr_instance result" where
  "bounce handle sr f ty code =
     (case sr_findLPMentry (routing_table sr) (ip_src f) of
        None \<Rightarrow> Inr sr
      | Some rtentry \<Rightarrow>
          if length f - sizeof_ether - sizeof_ip + sizeof_ip < ICMP_DATA_SIZE then Inr sr
          else send_icmp_error handle sr rtentry f ty code)"

definition handle_foreign_packet ::
  "(sr_instance \<Rightarrow> u32 \<Rightarrow> sr_instance result) \<Rightarrow> sr_instance \<Rightarrow> bytes \<Rightarrow> sr_instance result" where
  "handle_foreign_packet handle sr f =
     (case sr_findLPMentry (routing_table sr) (ip_dst f) of
        Some rtentry \<Rightarrow>
          if ip_ttl f \<le> 1 then bounce handle sr f 11 0 else forward_packet handle sr rtentry f
      | None \<Rightarrow> bounce handle sr f 3 0)"

definition handle_ip_packet ::
  "(sr_instance \<Rightarrow> u32 \<Rightarrow> sr_instance result) \<Rightarrow> sr_instance \<Rightarrow> bytes \<Rightarrow> sr_instance result" where
  "handle_ip_packet handle sr f =
     (if length f - sizeof_ether < sizeof_ip then Inr sr
      else if ip_v f \<noteq> 4 then Inr sr
      else if ip_sum f \<noteq> cksum (take sizeof_ip (drop sizeof_ether (put 24 [0, 0] f))) then Inr sr
      else if ip_black_list f then Inr sr
      else if \<exists>ifc \<in> set (if_list sr). if_ip ifc = ip_dst f then handle_own_packet handle sr f
      else handle_foreign_packet handle sr f)"

text \<open>The packets released by an ARP reply, sent to the address it announces.\<close>

fun flush_packets :: "sr_instance \<Rightarrow> bytes \<Rightarrow> sr_packet list \<Rightarrow> sr_instance result" where
  "flush_packets sr mac [] = Inr sr"
| "flush_packets sr mac (p # rest) =
     (if length (pk_buf p) < ETHER_ADDR_LEN then Inl Out_Of_Bounds
      else flush_packets (snd (sr_send_packet sr (put 0 mac (pk_buf p)) (pk_iface p))) mac rest)"

definition handle_arp_packet :: "sr_instance \<Rightarrow> bytes \<Rightarrow> bytes \<Rightarrow> sr_instance result" where
  "handle_arp_packet sr f interface =
     (if length f - sizeof_ether < sizeof_arp then Inr sr
      else case sr_get_interface sr interface of
          None \<Rightarrow> Inl Null_Dereference
        | Some ifc \<Rightarrow>
            if ar_tip f = if_ip ifc then
              if ar_op f = arp_op_request then
                Inr (snd (sr_send_packet sr (arp_frame arp_op_reply (ar_sha f) ifc (ar_sha f) (ar_sip f)) interface))
              else if ar_op f = arp_op_reply then
                (case resolve (now sr) (ar_sha f) (cache sr) (ar_sip f) of (packets, c) \<Rightarrow>
                   flush_packets (sr\<lparr>cache := c\<rparr>) (ar_sha f) packets)
              else Inr sr
            else Inr sr)"

definition sr_handlepacket :: "nat \<Rightarrow> sr_instance \<Rightarrow> bytes \<Rightarrow> bytes \<Rightarrow> sr_instance result" where
  "sr_handlepacket n sr packet interface =
     (if length packet < sizeof_ether then Inr sr
      else if ether_type packet = ethertype_ip
      then handle_ip_packet (sr_arpcache_handle_arpreq n) sr packet
      else if ether_type packet = ethertype_arp then handle_arp_packet sr packet interface
      else Inr sr)"

end
