(* ===== verification/Router_Progress.thy ===== *)
theory Router_Progress
  imports Router_Invariant
begin

text \<open>
  The router does not fault and its recursion ends: the invariant of the state, the frames the
  router makes, and the recursion of \<open>sr_arpcache_handle_arpreq\<close> under a rank of the requests
  that are given up.
\<close>

section \<open>Frames the router makes\<close>

lemma length_set_ip_sum [simp]: "34 \<le> length f \<Longrightarrow> length (set_ip_sum f) = length f"
  by (simp add: set_ip_sum_def)

lemma length_set_icmp_sum [simp]: "38 \<le> length f \<Longrightarrow> length (set_icmp_sum f) = length f"
  by (simp add: set_icmp_sum_def)

lemma nth_put_other:
  "i + length v \<le> length b \<Longrightarrow> k < length b \<Longrightarrow> k < i \<or> i + length v \<le> k \<Longrightarrow> put i v b ! k = b ! k"
  by (subst nth_put) auto

lemma nth_set_ip_sum:
  "34 \<le> length f \<Longrightarrow> k < length f \<Longrightarrow> k \<noteq> 24 \<Longrightarrow> k \<noteq> 25 \<Longrightarrow> set_ip_sum f ! k = f ! k"
  unfolding set_ip_sum_def by (rule nth_put_other) auto

lemma nth_set_icmp_sum:
  "38 \<le> length f \<Longrightarrow> k < length f \<Longrightarrow> k \<noteq> 36 \<Longrightarrow> k \<noteq> 37 \<Longrightarrow> set_icmp_sum f ! k = f ! k"
  unfolding set_icmp_sum_def by (rule nth_put_other) auto

lemma six_bytes:
  assumes "length (xs :: bytes) = 6"
  obtains a b c d e f where "xs = [a, b, c, d, e, f]"
  using assms by (auto simp: length_Suc_conv numeral_eq_Suc)

definition raw_error_frame :: "sr_if \<Rightarrow> u32 \<Rightarrow> u8 \<Rightarrow> u8 \<Rightarrow> bytes \<Rightarrow> bytes" where
  "raw_error_frame ifc dst ty code data =
     replicate 6 0 @ if_addr ifc @ bytes16 ethertype_ip @
     [0x45, 0] @ bytes16 (of_nat (sizeof_ip + sizeof_icmp_t3)) @ [0, 0, 0, 0, INIT_TTL, ip_protocol_icmp, 0, 0] @
     bytes32 (if_ip ifc) @ bytes32 dst @ [ty, code, 0, 0, 0, 0, 0, 0] @ data"

lemma icmp_error_frame_raw:
  "icmp_error_frame ifc dst ty code data = set_icmp_sum (set_ip_sum (raw_error_frame ifc dst ty code data))"
  by (simp add: icmp_error_frame_def raw_error_frame_def)

lemma length_raw: "length (if_addr ifc) = 6 \<Longrightarrow> length data = 28 \<Longrightarrow> length (raw_error_frame ifc dst ty code data) = 70"
  by (simp add: raw_error_frame_def)

lemma nth_error_frame:
  assumes "length (if_addr ifc) = 6" "length data = 28" "k < 70" "k \<notin> {24, 25, 36, 37}"
  shows "icmp_error_frame ifc dst ty code data ! k = raw_error_frame ifc dst ty code data ! k"
  using assms length_raw [OF assms(1,2)] by (simp add: icmp_error_frame_raw nth_set_ip_sum nth_set_icmp_sum)

lemma raw_fields:
  assumes "length (if_addr ifc) = 6"
  shows "raw_error_frame ifc dst ty code data ! 23 = ip_protocol_icmp"
    "raw_error_frame ifc dst ty code data ! 34 = ty" "raw_error_frame ifc dst ty code data ! 35 = code"
    "raw_error_frame ifc dst ty code data ! 22 = INIT_TTL"
    "get32 (raw_error_frame ifc dst ty code data) 26 = if_ip ifc"
    "get32 (raw_error_frame ifc dst ty code data) 30 = dst"
    "get16 (raw_error_frame ifc dst ty code data) 12 = ethertype_ip"
    "take 6 (drop 6 (raw_error_frame ifc dst ty code data)) = if_addr ifc"
    "drop 42 (raw_error_frame ifc dst ty code data) = data"
proof -
  obtain a b c d e f where addr: "if_addr ifc = [a, b, c, d, e, f]" using six_bytes [OF assms] .
  have j: "get32 (xs @ bytes32 w @ ys) (length xs) = w" for xs w ys by (rule get32_append) simp
  have j16: "get16 (xs @ bytes16 w @ ys) (length xs) = w" for xs w ys by (rule get16_append) simp
  show "raw_error_frame ifc dst ty code data ! 23 = ip_protocol_icmp"
    "raw_error_frame ifc dst ty code data ! 34 = ty" "raw_error_frame ifc dst ty code data ! 35 = code"
    "raw_error_frame ifc dst ty code data ! 22 = INIT_TTL"
    "take 6 (drop 6 (raw_error_frame ifc dst ty code data)) = if_addr ifc"
    "drop 42 (raw_error_frame ifc dst ty code data) = data"
    by (simp_all add: raw_error_frame_def addr numeral_eq_Suc bytes16_def bytes32_def)
  show "get16 (raw_error_frame ifc dst ty code data) 12 = ethertype_ip"
    using j16 [of "replicate 6 0 @ if_addr ifc"] assms by (simp add: raw_error_frame_def)
  show "get32 (raw_error_frame ifc dst ty code data) 26 = if_ip ifc"
    using j [of "replicate 6 0 @ if_addr ifc @ bytes16 ethertype_ip @ [0x45, 0] @
        bytes16 (of_nat (sizeof_ip + sizeof_icmp_t3)) @ [0, 0, 0, 0, INIT_TTL, ip_protocol_icmp, 0, 0]"] assms
    by (simp add: raw_error_frame_def)
  show "get32 (raw_error_frame ifc dst ty code data) 30 = dst"
    using j [of "replicate 6 0 @ if_addr ifc @ bytes16 ethertype_ip @ [0x45, 0] @
        bytes16 (of_nat (sizeof_ip + sizeof_icmp_t3)) @ [0, 0, 0, 0, INIT_TTL, ip_protocol_icmp, 0, 0] @
        bytes32 (if_ip ifc)"] assms
    by (simp add: raw_error_frame_def)
qed

lemma error_frame_fields:
  assumes "length (if_addr ifc) = 6" "length data = 28"
  shows "length (icmp_error_frame ifc dst ty code data) = 70"
    "ip_p (icmp_error_frame ifc dst ty code data) = ip_protocol_icmp"
    "icmp_type (icmp_error_frame ifc dst ty code data) = ty"
    "icmp_code (icmp_error_frame ifc dst ty code data) = code"
    "ip_src (icmp_error_frame ifc dst ty code data) = if_ip ifc"
    "ip_dst (icmp_error_frame ifc dst ty code data) = dst"
    "ether_shost (icmp_error_frame ifc dst ty code data) = if_addr ifc"
    "drop 42 (icmp_error_frame ifc dst ty code data) = data"
proof -
  let ?f = "icmp_error_frame ifc dst ty code data" and ?r = "raw_error_frame ifc dst ty code data"
  note n = nth_error_frame [OF assms, of _ dst ty code] and r = raw_fields [OF assms(1), of dst ty code data]
  note l = length_raw [OF assms, of dst ty code]
  show len: "length ?f = 70" using l by (simp add: icmp_error_frame_raw)
  show "ip_p ?f = ip_protocol_icmp" "icmp_type ?f = ty" "icmp_code ?f = code"
    using n [of 23] n [of 34] n [of 35] r(1-3) by (simp_all add: ip_p_def icmp_type_def icmp_code_def)
  have g: "get32 ?f i = get32 ?r i" if "26 \<le> i" "i + 3 < 34" for i
    using that n [of i] n [of "i + 1"] n [of "i + 2"] n [of "i + 3"] by (simp add: get32_def)
  show "ip_src ?f = if_ip ifc" "ip_dst ?f = dst" using g [of 26] g [of 30] r(5,6) by (simp_all add: ip_src_def ip_dst_def)
  have "take 6 (drop 6 ?f) = take 6 (drop 6 ?r)" "drop 42 ?f = drop 42 ?r"
    using len l n by (auto intro!: nth_equalityI)
  then show "ether_shost ?f = if_addr ifc" "drop 42 ?f = data" using r(8,9) by (simp_all add: ether_shost_def)
qed

section \<open>The invariant\<close>

definition packet_ok :: "sr_instance \<Rightarrow> sr_packet \<Rightarrow> bool" where
  "packet_ok sr p \<longleftrightarrow> sizeof_ether \<le> length (pk_buf p) \<and> length (pk_buf p) < 2 ^ 32 \<and>
     sr_ether_addrs_match_interface sr (pk_buf p) (pk_iface p)"

definition router_ok :: "sr_instance \<Rightarrow> bool" where
  "router_ok sr \<longleftrightarrow> sr_verify_routing_table sr = 0 \<and> (\<forall>i \<in> set (if_list sr). length (if_addr i) = 6) \<and>
     cache_ok (cache sr) \<and> (\<forall>r \<in> set (requests (cache sr)). \<forall>p \<in> set (rq_packets r). packet_ok sr p)"

definition present :: "sr_instance \<Rightarrow> u32 \<Rightarrow> bool" where
  "present sr ip \<longleftrightarrow> find_request (requests (cache sr)) ip \<noteq> None"

text \<open>A request that is given up when it is handled next.\<close>

definition expired :: "sr_instance \<Rightarrow> u32 \<Rightarrow> bool" where
  "expired sr ip \<longleftrightarrow> (case find_request (requests (cache sr)) ip of
     None \<Rightarrow> False | Some r \<Rightarrow> 1 \<le> now sr - rq_sent r \<and> 5 \<le> rq_times_sent r)"

definition error_packet :: "bytes \<Rightarrow> bool" where
  "error_packet f \<longleftrightarrow> ip_p f = ip_protocol_icmp \<and> (icmp_type f = 3 \<or> icmp_type f = 11)"

text \<open>Giving up a request that waits with a packet from \<open>s\<close> sends an error to \<open>s\<close>, which may
  give up the request for \<open>s\<close> in turn. A rank shows that this ends.\<close>

definition lower_source :: "(u32 \<Rightarrow> nat) \<Rightarrow> sr_instance \<Rightarrow> u32 \<Rightarrow> sr_packet \<Rightarrow> bool" where
  "lower_source \<rho> sr ip p \<longleftrightarrow>
     error_packet (pk_buf p) \<or> \<not> expired sr (ip_src (pk_buf p)) \<or> \<rho> (ip_src (pk_buf p)) < \<rho> ip"

definition ranked :: "(u32 \<Rightarrow> nat) \<Rightarrow> sr_instance \<Rightarrow> bool" where
  "ranked \<rho> sr \<longleftrightarrow> (\<forall>ip. expired sr ip \<longrightarrow> (\<forall>p \<in> set (waiting (cache sr) ip). lower_source \<rho> sr ip p))"

definition evolves :: "sr_instance \<Rightarrow> sr_instance \<Rightarrow> bool" where
  "evolves sr sr' \<longleftrightarrow> same_tables sr sr' \<and>
     (\<forall>ip. expired sr' ip \<longrightarrow> expired sr ip \<and>
        (\<forall>p \<in> set (waiting (cache sr') ip). p \<in> set (waiting (cache sr) ip) \<or> error_packet (pk_buf p)))"

lemma evolves_refl [simp]: "evolves sr sr"
  by (simp add: evolves_def same_tables_def)

lemma evolves_trans: "evolves a b \<Longrightarrow> evolves b c \<Longrightarrow> evolves a c"
  unfolding evolves_def same_tables_def by metis

lemma lower_source_evolves: "evolves sr sr' \<Longrightarrow> lower_source \<rho> sr ip p \<Longrightarrow> lower_source \<rho> sr' ip p"
  by (auto simp: evolves_def lower_source_def)

lemma ranked_evolves:
  assumes "ranked \<rho> sr" "evolves sr sr'"
  shows "ranked \<rho> sr'"
  unfolding ranked_def
proof (intro allI impI ballI)
  fix ip p
  assume e: "expired sr' ip" and p: "p \<in> set (waiting (cache sr') ip)"
  then consider "p \<in> set (waiting (cache sr) ip)" | "error_packet (pk_buf p)"
    using assms(2) by (auto simp: evolves_def)
  then show "lower_source \<rho> sr' ip p"
  proof cases
    case 1
    have "expired sr ip" using e assms(2) by (auto simp: evolves_def)
    with 1 have "lower_source \<rho> sr ip p" using assms(1) by (simp add: ranked_def)
    then show ?thesis by (rule lower_source_evolves [OF assms(2)])
  qed (simp add: lower_source_def)
qed

lemma same_interface: "same_tables sr sr' \<Longrightarrow> sr_get_interface sr' = sr_get_interface sr"
  by (simp add: fun_eq_iff sr_get_interface_def same_tables_def)

text \<open>A change of the cache that keeps the invariant of the cache and its packets.\<close>

lemma router_ok_cache:
  assumes "router_ok sr" "cache_ok c" "\<And>r p. r \<in> set (requests c) \<Longrightarrow> p \<in> set (rq_packets r) \<Longrightarrow> packet_ok sr p"
  shows "router_ok (sr\<lparr>cache := c\<rparr>)"
  using assms by (auto simp: router_ok_def packet_ok_def sr_ether_addrs_match_interface_def
      sr_get_interface_def sr_verify_routing_table_def)

lemma get_interface_strncpy: "sr_get_interface sr (strncpy i sr_IFACE_NAMELEN) = sr_get_interface sr i"
proof -
  have "c_str (strncpy i n) = strncpy i n" for n
    unfolding strncpy_def c_str_def by (rule takeWhile_eq_all_conv [THEN iffD2]) (metis in_set_takeD set_takeWhileD)
  then have "strncmp_eq nm (strncpy i sr_IFACE_NAMELEN) sr_IFACE_NAMELEN = strncmp_eq nm i sr_IFACE_NAMELEN" for nm
    by (simp add: strncmp_eq_def) (simp add: strncpy_def)
  then have "get_interface_from ifs (strncpy i sr_IFACE_NAMELEN) = get_interface_from ifs i" for ifs
    by (induction ifs) simp_all
  then show ?thesis by (simp add: sr_get_interface_def)
qed

text \<open>Sending a packet changes no more than the messages sent.\<close>

lemma send_keeps:
  "cache (snd (sr_send_packet sr b i)) = cache sr" "same_tables sr (snd (sr_send_packet sr b i))"
  by (simp_all add: sr_send_packet_def same_tables_def)

lemma keeps_cache:
  assumes "cache sr' = cache sr" "same_tables sr sr'"
  shows "router_ok sr' = router_ok sr" "evolves sr sr'" "present sr' ip = present sr ip" "expired sr' ip = expired sr ip"
proof -
  have e: "expired sr' ip = expired sr ip" for ip
    using assms by (simp add: expired_def same_tables_def cong: option.case_cong)
  show "expired sr' ip = expired sr ip" by (rule e)
  show "present sr' ip = present sr ip" using assms by (simp add: present_def)
  show "evolves sr sr'" using e assms by (simp add: evolves_def)
  show "router_ok sr' = router_ok sr"
    using assms same_interface [OF assms(2)]
    by (simp add: router_ok_def packet_ok_def sr_verify_routing_table_def same_tables_def
        sr_ether_addrs_match_interface_def)
qed

text \<open>Queueing.\<close>

definition queued :: "sr_instance \<Rightarrow> u32 \<Rightarrow> bytes \<Rightarrow> bytes \<Rightarrow> sr_instance" where
  "queued sr ip f i = sr\<lparr>cache := sr_arpcache_queuereq (cache sr) ip f i\<rparr>"

lemma find_queued:
  "find_request (requests (sr_arpcache_queuereq c ip f i)) ip' =
    (if ip' = ip then
       Some ((case find_request (requests c) ip of
           None \<Rightarrow> \<lparr>rq_ip = ip, rq_sent = 0, rq_times_sent = 0, rq_packets = []\<rparr> | Some r \<Rightarrow> r)
         \<lparr>rq_packets := (if f \<noteq> [] then [\<lparr>pk_buf = f, pk_iface = strncpy i sr_IFACE_NAMELEN\<rparr>] else []) @
           waiting c ip\<rparr>)
     else find_request (requests c) ip')"
  by (cases "find_request (requests c) ip")
    (auto simp: sr_arpcache_queuereq_def Let_def find_update find_append waiting_def split: option.split)

lemma expired_queued [simp]: "expired (queued sr ip f i) ip' = expired sr ip'"
  by (cases "find_request (requests (cache sr)) ip")
    (simp_all add: expired_def queued_def find_queued cong: option.case_cong)

lemma present_queued [simp]: "present (queued sr ip f i) ip' \<longleftrightarrow> ip' = ip \<or> present sr ip'"
  by (simp add: present_def queued_def find_queued)

lemma evolves_queued: "f \<noteq> [] \<Longrightarrow> error_packet f \<Longrightarrow> evolves sr (queued sr ip f i)"
  using expired_queued [of sr ip f i]
  by (simp add: evolves_def queued_def same_tables_def waiting_queue)

lemma packets_of: "cache_ok c \<Longrightarrow> r \<in> set (requests c) \<Longrightarrow> rq_packets r = waiting c (rq_ip r)"
  by (simp add: waiting_def cache_ok_def find_unique)

lemma waiting_request: "p \<in> set (waiting c ip) \<Longrightarrow> \<exists>r \<in> set (requests c). p \<in> set (rq_packets r)"
  unfolding waiting_def using find_request_eq by (fastforce split: option.splits)

lemma router_ok_queued:
  assumes "router_ok sr" "sizeof_ether \<le> length f" "length f < 2 ^ 32" "sr_ether_addrs_match_interface sr f i"
  shows "router_ok (queued sr ip f i)"
  unfolding queued_def
proof (rule router_ok_cache [OF assms(1)])
  let ?c = "sr_arpcache_queuereq (cache sr) ip f i"
  have f: "f \<noteq> []" using assms(2) by (auto simp: sizeof_ether_def)
  show ok: "cache_ok ?c" using queue_ok [OF _ f] assms(1) by (simp add: router_ok_def)
  fix r p
  assume r: "r \<in> set (requests ?c)" "p \<in> set (rq_packets r)"
  then have "p \<in> set (waiting ?c (rq_ip r))" by (simp add: packets_of [OF ok])
  then consider "p = \<lparr>pk_buf = f, pk_iface = strncpy i sr_IFACE_NAMELEN\<rparr>"
    | ip' where "p \<in> set (waiting (cache sr) ip')"
    by (auto simp: waiting_queue [OF f] split: if_splits)
  then show "packet_ok sr p"
  proof cases
    case 1
    with assms(2-4) show ?thesis
      by (simp add: packet_ok_def sr_ether_addrs_match_interface_def get_interface_strncpy)
  next
    case 2
    with waiting_request assms(1) show ?thesis by (fastforce simp: router_ok_def)
  qed
qed

text \<open>Destroying and retrying a request.\<close>

lemma destroy_keeps:
  assumes "router_ok sr"
  shows "router_ok (sr\<lparr>cache := sr_arpreq_destroy (cache sr) ip\<rparr>)"
    "evolves sr (sr\<lparr>cache := sr_arpreq_destroy (cache sr) ip\<rparr>)"
    "present (sr\<lparr>cache := sr_arpreq_destroy (cache sr) ip\<rparr>) ip' \<longleftrightarrow> ip' \<noteq> ip \<and> present sr ip'"
proof -
  have d: "distinct (map rq_ip (requests (cache sr)))" using assms by (simp add: router_ok_def cache_ok_def)
  show "router_ok (sr\<lparr>cache := sr_arpreq_destroy (cache sr) ip\<rparr>)"
    using assms destroy_ok [of "cache sr" ip] set_remove [of "requests (cache sr)" ip]
    by (intro router_ok_cache) (auto simp: router_ok_def sr_arpreq_destroy_def)
  have "expired (sr\<lparr>cache := sr_arpreq_destroy (cache sr) ip\<rparr>) ip' \<longleftrightarrow> ip' \<noteq> ip \<and> expired sr ip'" for ip'
    by (simp add: expired_def sr_arpreq_destroy_def find_remove [OF d] cong: option.case_cong)
  moreover have "ip' \<noteq> ip \<Longrightarrow> waiting (sr_arpreq_destroy (cache sr) ip) ip' = waiting (cache sr) ip'" for ip'
    by (simp add: waiting_def sr_arpreq_destroy_def find_remove [OF d])
  ultimately show "evolves sr (sr\<lparr>cache := sr_arpreq_destroy (cache sr) ip\<rparr>)"
    by (simp add: evolves_def same_tables_def)
  show "present (sr\<lparr>cache := sr_arpreq_destroy (cache sr) ip\<rparr>) ip' \<longleftrightarrow> ip' \<noteq> ip \<and> present sr ip'"
    by (simp add: present_def sr_arpreq_destroy_def find_remove [OF d])
qed

lemma set_update_cases:
  "r \<in> set (update_request f rs ip) \<Longrightarrow> r \<in> set rs \<or> (\<exists>r0 \<in> set rs. r = f r0)"
  by (induction rs) (auto split: if_splits)

lemma retry_keeps:
  assumes ok: "router_ok sr" and req: "find_request (requests (cache sr)) ip = Some req"
  shows "\<exists>sr'. retry_request sr req = Inr sr' \<and> router_ok sr' \<and> evolves sr sr' \<and> (\<forall>ip'. present sr' ip' = present sr ip')"
proof -
  have r: "req \<in> set (requests (cache sr))" "rq_ip req = ip" using find_request_eq [OF req] by simp_all
  have ne: "rq_packets req \<noteq> []" using ok r by (simp add: router_ok_def cache_ok_def)
  let ?f = "\<lambda>r. r\<lparr>rq_sent := now sr, rq_times_sent := rq_times_sent r + 1\<rparr>"
  define c where "c = (cache sr)\<lparr>requests := update_request ?f (requests (cache sr)) ip\<rparr>"
  define sr1 where "sr1 = sr\<lparr>cache := c\<rparr>"
  have "packet_ok sr (hd (rq_packets req))" using ok r ne by (simp add: router_ok_def)
  then obtain ifc where ifc: "sr_get_interface sr (pk_iface (hd (rq_packets req))) = Some ifc"
    by (auto simp: packet_ok_def sr_ether_addrs_match_interface_def split: option.splits)
  have f: "\<And>r. rq_ip (?f r) = rq_ip r" by simp
  have c1: "cache_ok c"
    using ok set_update_cases [of _ ?f "requests (cache sr)" ip]
    by (fastforce simp: c_def cache_ok_def router_ok_def ips_update [of ?f])
  have ok1: "router_ok sr1"
    unfolding sr1_def
  proof (rule router_ok_cache [OF ok c1])
    fix q p
    assume "q \<in> set (requests c)" "p \<in> set (rq_packets q)"
    then show "packet_ok sr p"
      using ok set_update_cases [of q ?f "requests (cache sr)" ip] by (auto simp: c_def router_ok_def)
  qed
  have find1: "find_request (requests c) ip' =
      (if ip' = ip then Some (?f req) else find_request (requests (cache sr)) ip')" for ip'
    using req by (simp add: c_def find_update [of ?f])
  have "expired sr1 ip' \<longleftrightarrow> ip' \<noteq> ip \<and> expired sr ip'" for ip'
    by (simp add: expired_def sr1_def find1 cong: option.case_cong)
  moreover have "waiting c ip' = waiting (cache sr) ip'" for ip'
    using req by (simp add: waiting_def find1)
  ultimately have ev: "evolves sr sr1" by (simp add: evolves_def same_tables_def sr1_def)
  have pr: "present sr1 ip' = present sr ip'" for ip'
    using req by (simp add: present_def sr1_def find1)
  have i1: "sr_get_interface sr1 (pk_iface (hd (rq_packets req))) = Some ifc"
    using ifc by (simp add: sr1_def sr_get_interface_def)
  obtain b i where run: "retry_request sr req = Inr (snd (sr_send_packet sr1 b i))"
    using i1 ne r(2) by (simp add: retry_request_def Let_def sr1_def c_def)
  note k = keeps_cache [OF send_keeps, of sr1 b i]
  show ?thesis
    using run k(1,3) ok1 pr evolves_trans [OF ev k(2)] by auto
qed

section \<open>The recursion ends\<close>

definition keeps :: "(u32 \<Rightarrow> nat) \<Rightarrow> nat \<Rightarrow> sr_instance \<Rightarrow> sr_instance \<Rightarrow> bool" where
  "keeps \<rho> m sr sr' \<longleftrightarrow> (\<forall>ip. present sr ip \<longrightarrow> present sr' ip \<or> expired sr ip \<and> \<rho> ip \<le> m)"

text \<open>\<open>ends n\<close>: with fuel \<open>n\<close> requests of rank below \<open>n - 1\<close> are handled.\<close>

definition handled :: "(u32 \<Rightarrow> nat) \<Rightarrow> sr_instance \<Rightarrow> u32 \<Rightarrow> sr_instance \<Rightarrow> bool" where
  "handled \<rho> sr ip sr' \<longleftrightarrow> router_ok sr' \<and> evolves sr sr' \<and>
     (if expired sr ip then keeps \<rho> (\<rho> ip) sr sr' else \<forall>ip'. present sr ip' \<longrightarrow> present sr' ip')"

definition good_handler :: "(u32 \<Rightarrow> nat) \<Rightarrow> nat \<Rightarrow> (sr_instance \<Rightarrow> u32 \<Rightarrow> sr_instance result) \<Rightarrow> bool" where
  "good_handler \<rho> n handle \<longleftrightarrow>
     (\<forall>sr ip. router_ok sr \<and> ranked \<rho> sr \<and> present sr ip \<and> (expired sr ip \<longrightarrow> \<rho> ip < n) \<longrightarrow>
        (\<exists>sr'. handle sr ip = Inr sr' \<and> handled \<rho> sr ip sr'))"

lemma send_known_ok:
  assumes "router_ok sr" "handled \<rho> sr ip sr"
  shows "handled \<rho> sr ip (snd (sr_send_packet sr b i))"
  using assms keeps_cache [OF send_keeps, of sr b i] by (auto simp: handled_def keeps_def)

lemma handled_refl: "router_ok sr \<Longrightarrow> handled \<rho> sr ip sr"
  by (simp add: handled_def keeps_def)

text \<open>Sending an error to the source of a packet of a request that is given up.\<close>

lemma send_error_ok:
  assumes good: "good_handler \<rho> n handle" and ok: "router_ok sr" "ranked \<rho> sr"
    and rt: "rt \<in> set (routing_table sr)" and len: "sizeof_ether + ICMP_DATA_SIZE \<le> length f"
    and ty: "ty = 3 \<or> ty = 11" and src: "expired sr (ip_src f) \<longrightarrow> \<rho> (ip_src f) < n"
  shows "\<exists>sr'. send_icmp_error handle sr rt f ty code = Inr sr' \<and> handled \<rho> sr (ip_src f) sr'"
proof -
  obtain ifc where ifc: "sr_get_interface sr (rt_interface rt) = Some ifc"
    using verified_interface [OF _ rt] ok(1) by (auto simp: router_ok_def)
  then have "ifc \<in> set (if_list sr)"
    using get_interface_SomeD by (auto simp: sr_get_interface_def)
  then have addr: "length (if_addr ifc) = 6" using ok(1) by (simp add: router_ok_def)
  define data where "data = take 28 (drop 14 f)"
  have data: "memcpy_from (drop sizeof_ether f) ICMP_DATA_SIZE = Inr data" "length data = 28"
    using len by (simp_all add: memcpy_from_def data_def size_defs)
  define e where "e = icmp_error_frame ifc (ip_src f) ty code data"
  have e: "length e = 70" "error_packet e" "sr_ether_addrs_match_interface sr e (rt_interface rt)"
    using error_frame_fields [OF addr data(2)] ty ifc
    by (auto simp: e_def error_packet_def sr_ether_addrs_match_interface_def)
  have run: "send_icmp_error handle sr rt f ty code = send_or_queue handle sr (ip_src f) e (rt_interface rt)"
    using ifc data(1) by (simp add: send_icmp_error_def e_def)
  show ?thesis
  proof (cases "sr_arpcache_lookup (cache sr) (ip_src f)")
    case (Some en)
    then show ?thesis
      using run send_known_ok [OF ok(1) handled_refl [OF ok(1)]] by (auto simp: send_or_queue_def)
  next
    case None
    let ?q = "queued sr (ip_src f) e (rt_interface rt)"
    have "e \<noteq> []" using e(1) by auto
    then have ev: "evolves sr ?q" using evolves_queued e(2) by simp
    have okq: "router_ok ?q" using router_ok_queued [OF ok(1)] e by (simp add: sizeof_ether_def)
    obtain sr' where sr': "handle ?q (ip_src f) = Inr sr'" "handled \<rho> ?q (ip_src f) sr'"
      using good okq ranked_evolves [OF ok(2) ev] src unfolding good_handler_def by fastforce
    have "handled \<rho> sr (ip_src f) sr'"
      using sr'(2) evolves_trans [OF ev] by (auto simp: handled_def keeps_def split: if_splits)
    then show ?thesis using run None sr'(1) by (simp add: send_or_queue_def queued_def)
  qed
qed

lemma expire_packets_ok:
  assumes good: "good_handler \<rho> n handle" and "router_ok sr" "ranked \<rho> sr" "present sr ip" "\<rho> ip \<le> n"
    and "\<forall>p \<in> set ps. sizeof_ether \<le> length (pk_buf p) \<and> length (pk_buf p) < 2 ^ 32 \<and> lower_source \<rho> sr ip p"
  shows "\<exists>sr'. expire_packets handle sr ip ps = Inr sr' \<and> router_ok sr' \<and> evolves sr sr' \<and> present sr' ip \<and>
    keeps \<rho> (\<rho> ip) sr sr'"
  using assms(2-)
proof (induction ps arbitrary: sr)
  case Nil
  then show ?case by (simp add: keeps_def)
next
  case (Cons p ps)
  let ?f = "pk_buf p"
  have IH0: "\<exists>sr'. expire_packets handle sr ip ps = Inr sr' \<and> router_ok sr' \<and> evolves sr sr' \<and> present sr' ip \<and>
      keeps \<rho> (\<rho> ip) sr sr'"
    using Cons by simp
  define short where "short \<longleftrightarrow> (of_nat (length ?f) - of_nat sizeof_ether :: u64) < of_nat ICMP_DATA_SIZE"
  have len: "short \<longleftrightarrow> length ?f < sizeof_ether + ICMP_DATA_SIZE"
  proof -
    have l: "14 \<le> length ?f" "length ?f < 2 ^ 32" using Cons.prems(5) by (simp_all add: size_defs)
    then obtain m where m: "length ?f = m + 14" by (metis add.commute le_Suc_ex)
    have "unat (of_nat m :: u64) = m" using l m by (simp add: unat_of_nat take_bit_nat_eq_self)
    then show ?thesis by (simp add: short_def m size_defs word_less_nat_alt)
  qed
  have step: "expire_packets handle sr ip (p # ps) =
      (if short then expire_packets handle sr ip ps
       else if error_packet ?f then expire_packets handle sr ip ps
       else case sr_findLPMentry (routing_table sr) (ip_src ?f) of
           None \<Rightarrow> expire_packets handle sr ip ps
         | Some rt \<Rightarrow> rbind (send_icmp_error handle sr rt ?f 3 1) (\<lambda>sr'.
             if \<not> present sr' ip then Inl Use_After_Free else expire_packets handle sr' ip ps))"
    unfolding expire_packets.simps(2) Let_def short_def [symmetric] len [symmetric] error_packet_def
      present_def not_not
    by (cases short) (simp_all only: if_True if_False)
  show ?case
  proof (cases "short \<or> error_packet ?f \<or> sr_findLPMentry (routing_table sr) (ip_src ?f) = None")
    case True
    then have "expire_packets handle sr ip (p # ps) = expire_packets handle sr ip ps" unfolding step by auto
    then show ?thesis using IH0 by simp
  next
    case False
    then obtain rt where rt: "sr_findLPMentry (routing_table sr) (ip_src ?f) = Some rt" by auto
    have low: "expired sr (ip_src ?f) \<longrightarrow> \<rho> (ip_src ?f) < \<rho> ip"
      using Cons.prems(5) False by (auto simp: lower_source_def)
    obtain sr1 where sr1: "send_icmp_error handle sr rt ?f 3 1 = Inr sr1" "handled \<rho> sr (ip_src ?f) sr1"
      using send_error_ok [OF good Cons.prems(1,2), of rt ?f 3 1] lpm_in_table [OF rt] False len low Cons.prems(4)
      by auto
    have ev: "evolves sr sr1" and ok1: "router_ok sr1" using sr1(2) by (auto simp: handled_def)
    have k1: "keeps \<rho> (\<rho> ip) sr sr1" "present sr1 ip"
      using sr1(2) low Cons.prems(3) by (auto simp: handled_def keeps_def split: if_splits)
    have "\<forall>p \<in> set ps. sizeof_ether \<le> length (pk_buf p) \<and> length (pk_buf p) < 2 ^ 32 \<and> lower_source \<rho> sr1 ip p"
      using Cons.prems(5) lower_source_evolves [OF ev] by auto
    from Cons.IH [OF ok1 ranked_evolves [OF Cons.prems(2) ev] k1(2) Cons.prems(4) this] obtain sr2 where
      sr2: "expire_packets handle sr1 ip ps = Inr sr2" "router_ok sr2" "evolves sr1 sr2" "present sr2 ip"
        "keeps \<rho> (\<rho> ip) sr1 sr2" by blast
    have "keeps \<rho> (\<rho> ip) sr sr2" using k1(1) sr2(5) ev by (auto simp: keeps_def evolves_def)
    then show ?thesis
      using sr1(1) k1(2) sr2 False rt evolves_trans [OF ev sr2(3)] unfolding step by simp
  qed
qed

text \<open>Fuel above the rank of every request that is given up is enough.\<close>

lemma handle_ok: "good_handler \<rho> n (sr_arpcache_handle_arpreq (Suc n))"
proof (induction n)
  case 0
  show ?case unfolding good_handler_def
  proof (intro allI impI, elim conjE)
    fix sr ip
    assume a: "router_ok sr" "present sr ip" "expired sr ip \<longrightarrow> \<rho> ip < 0"
    then obtain req where req: "find_request (requests (cache sr)) ip = Some req" by (auto simp: present_def)
    with a(3) have ne: "\<not> (1 \<le> now sr - rq_sent req \<and> 5 \<le> rq_times_sent req)" "\<not> expired sr ip"
      by (auto simp: expired_def)
    obtain sr' where "retry_request sr req = Inr sr'" "router_ok sr'" "evolves sr sr'" "\<forall>ip'. present sr' ip' = present sr ip'"
      using retry_keeps [OF a(1) req] by blast
    then show "\<exists>sr'. sr_arpcache_handle_arpreq (Suc 0) sr ip = Inr sr' \<and> handled \<rho> sr ip sr'"
      using req ne a(1) by (auto simp: handled_def)
  qed
next
  case (Suc n)
  show ?case unfolding good_handler_def
  proof (intro allI impI, elim conjE)
    fix sr ip
    assume a: "router_ok sr" "ranked \<rho> sr" "present sr ip" "expired sr ip \<longrightarrow> \<rho> ip < Suc n"
    then obtain req where req: "find_request (requests (cache sr)) ip = Some req" by (auto simp: present_def)
    let ?run = "sr_arpcache_handle_arpreq (Suc (Suc n)) sr ip"
    show "\<exists>sr'. ?run = Inr sr' \<and> handled \<rho> sr ip sr'"
    proof (cases "expired sr ip")
      case False
      obtain sr' where "retry_request sr req = Inr sr'" "router_ok sr'" "evolves sr sr'"
          "\<forall>ip'. present sr' ip' = present sr ip'"
        using retry_keeps [OF a(1) req] by blast
      then show ?thesis using req False a(1) by (auto simp: handled_def expired_def)
    next
      case True
      have "rq_packets req = waiting (cache sr) ip" using req by (simp add: waiting_def)
      then have ps: "\<forall>p \<in> set (rq_packets req).
          sizeof_ether \<le> length (pk_buf p) \<and> length (pk_buf p) < 2 ^ 32 \<and> lower_source \<rho> sr ip p"
        using a(1,2) True find_request_eq [OF req] by (auto simp: ranked_def router_ok_def packet_ok_def)
      have low: "\<rho> ip \<le> n" using a(4) True by simp
      obtain sr1 where sr1: "expire_packets (sr_arpcache_handle_arpreq (Suc n)) sr ip (rq_packets req) = Inr sr1"
          "router_ok sr1" "evolves sr sr1" "keeps \<rho> (\<rho> ip) sr sr1"
        using expire_packets_ok [OF Suc a(1-3) low ps] by blast
      let ?sr2 = "sr1\<lparr>cache := sr_arpreq_destroy (cache sr1) ip\<rparr>"
      have run: "?run = Inr ?sr2"
        using req True sr1(1) unfolding sr_arpcache_handle_arpreq.simps(2) [of "Suc n"] by (simp add: expired_def)
      have "keeps \<rho> (\<rho> ip) sr ?sr2"
        using sr1(4) True by (auto simp: keeps_def destroy_keeps(3) [OF sr1(2)])
      then have "handled \<rho> sr ip ?sr2"
        using True destroy_keeps(1,2) [OF sr1(2)] evolves_trans [OF sr1(3)] by (simp add: handled_def)
      with run show ?thesis by blast
    qed
  qed
qed

end
