(* ===== verification/Router_Properties.thy ===== *)
theory Router_Properties
  imports Router_Progress
begin

text \<open>
  What \<open>sr_handlepacket\<close> and the cleanup thread do: forwarding, echo replies, ICMP errors,
  ARP, the black list, the frames sent, and the absence of faults.
\<close>

section \<open>Checksums in frames\<close>

definition ip_header :: "bytes \<Rightarrow> bytes" where
  "ip_header f = take sizeof_ip (drop sizeof_ether f)"

definition header_valid :: "bytes \<Rightarrow> bool" where
  "header_valid f \<longleftrightarrow> be_words (ip_header f) mod 65535 = 0"

definition icmp_valid :: "bytes \<Rightarrow> bool" where
  "icmp_valid f \<longleftrightarrow> be_words (drop 34 f) mod 65535 = 0"

lemma header_put:
  assumes "34 \<le> length f" "length v = 2"
  shows "take sizeof_ip (drop sizeof_ether (put 24 v f)) = put 10 v (ip_header f)"
proof (rule nth_equalityI)
  show "length (take sizeof_ip (drop sizeof_ether (put 24 v f))) = length (put 10 v (ip_header f))"
    using assms by (simp add: ip_header_def size_defs)
  fix k assume "k < length (take sizeof_ip (drop sizeof_ether (put 24 v f)))"
  then have "k < 20" using assms by (simp add: size_defs)
  then show "take sizeof_ip (drop sizeof_ether (put 24 v f)) ! k = put 10 v (ip_header f) ! k"
    using assms by (simp add: ip_header_def size_defs nth_put)
qed

lemma drop_put_icmp: "38 \<le> length f \<Longrightarrow> length v = 2 \<Longrightarrow> drop 34 (put 36 v f) = put 2 v (drop 34 f)"
  by (rule nth_equalityI) (auto simp: nth_put)

lemma ip_sum_header: "34 \<le> length f \<Longrightarrow> ip_sum f = get16 (ip_header f) 10"
  by (simp add: ip_sum_def get16_def ip_header_def size_defs)

lemma ip_check:
  assumes "34 \<le> length f"
  shows "ip_sum f = cksum (take sizeof_ip (drop sizeof_ether (put 24 [0, 0] f))) \<longleftrightarrow> header_valid f \<and> ip_sum f \<noteq> 0"
  using checksum_test [of 10 "ip_header f"] assms header_put [OF assms, of "[0, 0]"]
  by (simp add: header_valid_def ip_sum_header [OF assms]) (simp add: ip_header_def size_defs)

lemma icmp_check:
  assumes "38 \<le> length f" "length f \<le> 65535"
  shows "icmp_sum f = cksum (drop 34 (put 36 [0, 0] f)) \<longleftrightarrow> icmp_valid f \<and> icmp_sum f \<noteq> 0"
proof -
  have "icmp_sum f = get16 (drop 34 f) 2" using assms by (simp add: icmp_sum_def get16_def)
  with checksum_test [of 2 "drop 34 f"] assms show ?thesis by (simp add: icmp_valid_def drop_put_icmp)
qed

lemma set_ip_sum_valid:
  assumes "34 \<le> length f"
  shows "header_valid (set_ip_sum f)"
proof -
  have "ip_header (set_ip_sum f) = put 10 (bytes16 (cksum (put 10 [0, 0] (ip_header f)))) (ip_header f)"
    using header_put [OF assms] by (simp add: set_ip_sum_def ip_header_def)
  moreover have "length (ip_header f) = 20" using assms by (simp add: ip_header_def size_defs)
  ultimately show ?thesis using checksum_stored [of 10 "ip_header f"] by (simp add: header_valid_def)
qed

lemma set_icmp_sum_valid:
  assumes "38 \<le> length f" "length f \<le> 65535"
  shows "icmp_valid (set_icmp_sum f)"
  using checksum_stored [of 2 "drop 34 f"] assms by (simp add: icmp_valid_def set_icmp_sum_def drop_put_icmp)

text \<open>The header is valid when only bytes outside it change.\<close>

lemma ip_header_cong:
  assumes "length g = length f" "\<And>k. 14 \<le> k \<Longrightarrow> k < 34 \<Longrightarrow> k < length f \<Longrightarrow> g ! k = f ! k"
  shows "ip_header g = ip_header f"
  using assms by (intro nth_equalityI) (auto simp: ip_header_def size_defs)

lemma get32_cong: "\<forall>k \<in> {i..i + 3}. g ! k = f ! k \<Longrightarrow> get32 g i = get32 f i"
  by (simp add: get32_def)

section \<open>Forwarding\<close>

text \<open>The frame that leaves the router.\<close>

definition forwarded :: "sr_if \<Rightarrow> bytes \<Rightarrow> bytes" where
  "forwarded ifc f = put 6 (if_addr ifc) (set_ip_sum (put 22 [ip_ttl f - 1] f))"

lemma forwarded_bytes:
  assumes "34 \<le> length f" "length (if_addr ifc) = 6"
  shows "length (forwarded ifc f) = length f"
    "\<And>k. k < length f \<Longrightarrow> k \<notin> {6..<12} \<Longrightarrow> k \<notin> {22, 24, 25} \<Longrightarrow> forwarded ifc f ! k = f ! k"
    "ether_shost (forwarded ifc f) = if_addr ifc" "ip_ttl (forwarded ifc f) = ip_ttl f - 1"
    "header_valid (forwarded ifc f)" "ip_src (forwarded ifc f) = ip_src f" "ip_dst (forwarded ifc f) = ip_dst f"
proof -
  let ?h = "put 22 [ip_ttl f - 1] f"
  have l: "length ?h = length f" "length (set_ip_sum ?h) = length f" using assms by simp_all
  show len: "length (forwarded ifc f) = length f" using assms l by (simp add: forwarded_def)
  have out: "forwarded ifc f ! k = set_ip_sum ?h ! k" if "k < length f" "k \<notin> {6..<12}" for k
    unfolding forwarded_def using that assms l by (intro nth_put_other) auto
  have bytes: "forwarded ifc f ! k = f ! k" if "k < length f" "k \<notin> {6..<12}" "k \<notin> {22, 24, 25}" for k
    using out [OF that(1,2)] nth_set_ip_sum [of ?h k] nth_put_other [of 22 "[ip_ttl f - 1]" f k] that assms l
    by force
  then show "\<And>k. k < length f \<Longrightarrow> k \<notin> {6..<12} \<Longrightarrow> k \<notin> {22, 24, 25} \<Longrightarrow> forwarded ifc f ! k = f ! k" .
  show "ether_shost (forwarded ifc f) = if_addr ifc"
    using assms l by (simp add: ether_shost_def forwarded_def put_def)
  show "ip_ttl (forwarded ifc f) = ip_ttl f - 1"
    using out [of 22] nth_set_ip_sum [of ?h 22] nth_put [of 22 "[ip_ttl f - 1]" f 22] assms l
    by (simp add: ip_ttl_def)
  have "ip_header (forwarded ifc f) = ip_header (set_ip_sum ?h)"
    using out l len by (intro ip_header_cong) auto
  then show "header_valid (forwarded ifc f)"
    using set_ip_sum_valid [of ?h] assms l by (simp add: header_valid_def)
  show "ip_src (forwarded ifc f) = ip_src f" "ip_dst (forwarded ifc f) = ip_dst f"
    unfolding ip_src_def ip_dst_def using assms by (intro get32_cong; auto intro!: bytes)+
qed

lemma ip_dst_decremented: "34 \<le> length f \<Longrightarrow> ip_dst (set_ip_sum (put 22 [t] f)) = ip_dst f"
  unfolding ip_dst_def by (intro get32_cong) (auto simp: nth_set_ip_sum nth_put_other)

text \<open>A frame that reaches the forwarding decision.\<close>

definition good_ip_frame :: "bytes \<Rightarrow> bool" where
  "good_ip_frame f \<longleftrightarrow> 34 \<le> length f \<and> ether_type f = ethertype_ip \<and> ip_v f = 4 \<and> header_valid f \<and>
     ip_sum f \<noteq> 0 \<and> \<not> ip_black_list f"

definition own_address :: "sr_instance \<Rightarrow> u32 \<Rightarrow> bool" where
  "own_address sr ip \<longleftrightarrow> (\<exists>ifc \<in> set (if_list sr). if_ip ifc = ip)"

lemma handle_good_frame:
  assumes "good_ip_frame f"
  shows "sr_handlepacket n sr f i =
    (if own_address sr (ip_dst f) then handle_own_packet (sr_arpcache_handle_arpreq n) sr f
     else handle_foreign_packet (sr_arpcache_handle_arpreq n) sr f)"
proof -
  have "34 \<le> length f" using assms by (simp add: good_ip_frame_def)
  then have len: "\<not> length f - sizeof_ether < sizeof_ip" "\<not> length f < sizeof_ether" by (simp_all add: size_defs)
  have sum: "ip_sum f = cksum (take sizeof_ip (drop sizeof_ether (put 24 [0, 0] f)))"
    using assms ip_check [of f] by (simp add: good_ip_frame_def)
  show ?thesis
    using assms len unfolding sr_handlepacket_def handle_ip_packet_def sum [symmetric]
    by (simp add: good_ip_frame_def own_address_def)
qed

lemma put_mac:
  assumes "length mac = 6" "6 \<le> length g"
  shows "ether_dhost (put 0 mac g) = mac" "length (put 0 mac g) = length g"
    "\<And>k. 6 \<le> k \<Longrightarrow> k < length g \<Longrightarrow> put 0 mac g ! k = g ! k"
    "12 \<le> length g \<Longrightarrow> ether_shost (put 0 mac g) = ether_shost g"
proof -
  show "ether_dhost (put 0 mac g) = mac" "length (put 0 mac g) = length g"
    using assms by (simp_all add: ether_dhost_def put_def)
  show *: "\<And>k. 6 \<le> k \<Longrightarrow> k < length g \<Longrightarrow> put 0 mac g ! k = g ! k"
    using assms by (intro nth_put_other) auto
  show "12 \<le> length g \<Longrightarrow> ether_shost (put 0 mac g) = ether_shost g"
    using assms * by (intro nth_equalityI) (auto simp: ether_shost_def)
qed

text \<open>Sending on an interface with its own source address.\<close>

lemma send_own_source:
  assumes "sr_get_interface sr i = Some ifc" "ether_shost g = if_addr ifc" "sizeof_ether \<le> length g"
  shows "sr_send_packet sr g i = (0, sr\<lparr>to_server := to_server sr @ [vns_packet i g]\<rparr>)"
  using assms by (simp add: sr_send_packet_def sr_ether_addrs_match_interface_def)

text \<open>What forwarding does with a valid packet.\<close>

lemma forward_sends:
  assumes "good_ip_frame f" "\<not> own_address sr (ip_dst f)" "1 < ip_ttl f"
    "sr_findLPMentry (routing_table sr) (ip_dst f) = Some rt"
    "sr_get_interface sr (rt_interface rt) = Some ifc" "length (if_addr ifc) = 6"
    "sr_arpcache_lookup (cache sr) (ip_dst f) = Some e" "length (ae_mac e) = 6"
  shows "sr_handlepacket n sr f i =
    Inr (sr\<lparr>to_server := to_server sr @ [vns_packet (rt_interface rt) (put 0 (ae_mac e) (forwarded ifc f))]\<rparr>)"
proof -
  have len: "34 \<le> length f" using assms(1) by (simp add: good_ip_frame_def)
  note fw = forwarded_bytes [OF len assms(6)]
  let ?g = "put 0 (ae_mac e) (forwarded ifc f)"
  have g6: "6 \<le> length (forwarded ifc f)" using len fw(1) by simp
  note pm = put_mac [OF assms(8) g6]
  have shost: "ether_shost ?g = if_addr ifc" using pm(4) fw(1,3) len by simp
  have ttl: "\<not> ip_ttl f \<le> 1" using assms(3) by simp
  have "sr_handlepacket n sr f i =
      Inr (snd (sr_send_packet sr ?g (rt_interface rt)))"
    using handle_good_frame [OF assms(1)] assms(2,4,5,7) ip_dst_decremented [OF len] fw(7)
    by (simp add: ttl handle_foreign_packet_def forward_packet_def send_or_queue_def Let_def not_le forwarded_def)
  moreover have "sr_send_packet sr ?g (rt_interface rt) =
      (0, sr\<lparr>to_server := to_server sr @ [vns_packet (rt_interface rt) ?g]\<rparr>)"
    using send_own_source [OF assms(5) shost] pm(2) fw(1) len by (simp add: sizeof_ether_def)
  ultimately show ?thesis by simp
qed

section \<open>Properties\<close>

text \<open>C5. A valid packet for a host behind the router, with a route, a TTL above 1 and a resolved
  destination, leaves on the interface of the longest matching route: destination and source
  hardware address, TTL less one, a valid header checksum, every other byte as it came. Nothing
  else changes in the router.\<close>

theorem router_forwards:
  assumes "good_ip_frame f" "\<not> own_address sr (ip_dst f)" "1 < ip_ttl f"
    "sr_findLPMentry (routing_table sr) (ip_dst f) = Some rt"
    "sr_get_interface sr (rt_interface rt) = Some ifc" "length (if_addr ifc) = 6"
    "sr_arpcache_lookup (cache sr) (ip_dst f) = Some e" "length (ae_mac e) = 6"
  shows "\<exists>g. sr_handlepacket n sr f i =
      Inr (sr\<lparr>to_server := to_server sr @ [vns_packet (rt_interface rt) g]\<rparr>) \<and>
    length g = length f \<and> ether_dhost g = ae_mac e \<and> ether_shost g = if_addr ifc \<and>
    ip_ttl g = ip_ttl f - 1 \<and> header_valid g \<and>
    (\<forall>k. 12 \<le> k \<and> k < length f \<and> k \<notin> {22, 24, 25} \<longrightarrow> g ! k = f ! k)"
proof -
  have len: "34 \<le> length f" using assms(1) by (simp add: good_ip_frame_def)
  note fw = forwarded_bytes [OF len assms(6)]
  let ?g = "put 0 (ae_mac e) (forwarded ifc f)"
  have g6: "6 \<le> length (forwarded ifc f)" using len fw(1) by simp
  note pm = put_mac [OF assms(8) g6]
  have same: "?g ! k = forwarded ifc f ! k" if "6 \<le> k" "k < length f" for k
    using pm(3) that fw(1) by simp
  have ih: "ip_header ?g = ip_header (forwarded ifc f)"
    using same fw(1) pm(2) by (intro ip_header_cong) auto
  have shost: "ether_shost ?g = if_addr ifc" using pm(4) fw(1,3) len by simp
  have "ip_ttl ?g = ip_ttl f - 1" using same [of 22] fw(4) len by (simp add: ip_ttl_def)
  moreover have "header_valid ?g" using fw(5) ih by (simp add: header_valid_def)
  moreover have "\<forall>k. 12 \<le> k \<and> k < length f \<and> k \<notin> {22, 24, 25} \<longrightarrow> ?g ! k = f ! k"
    using same fw(2) by simp
  ultimately show ?thesis using forward_sends [OF assms] pm(1,2) fw(1) shost by (intro exI [of _ ?g]) simp
qed

text \<open>An IP packet from or to a black-listed address never changes anything: it is neither
  forwarded nor answered nor queued.\<close>

lemma router_drops_blacklisted:
  assumes "ether_type f = ethertype_ip"
    "ip_src f AND 0xFFFFFF00 = 0x0A000200 \<or> ip_dst f AND 0xFFFFFF00 = 0x0A000200"
  shows "sr_handlepacket n sr f i = Inr sr"
  using assms by (auto simp: sr_handlepacket_def handle_ip_packet_def ip_black_list_def Let_def)

text \<open>A packet whose IP header does not sum up, whose version is not 4 or that is too short
  for its header is dropped, and so is one whose valid header has the checksum field 0.\<close>

lemma router_drops_invalid:
  assumes "ether_type f = ethertype_ip" "length f < 34 \<or> ip_v f \<noteq> 4 \<or> \<not> header_valid f \<or> ip_sum f = 0"
  shows "sr_handlepacket n sr f i = Inr sr"
proof (cases "length f < 34")
  case True
  then show ?thesis using assms(1) by (auto simp: sr_handlepacket_def handle_ip_packet_def size_defs)
next
  case False
  then have "ip_v f \<noteq> 4 \<or> ip_sum f \<noteq> cksum (take sizeof_ip (drop sizeof_ether (put 24 [0, 0] f)))"
    using assms(2) ip_check [of f] by auto
  then show ?thesis using assms(1) by (auto simp: sr_handlepacket_def handle_ip_packet_def)
qed

text \<open>The router drops packets that RFC 791 lets through: a header checksum of 0 is what a
  sender stores when the other words sum up to 65535, and it never passes the test.\<close>

theorem zero_checksum_rejected:
  assumes "34 \<le> length f" "header_valid f" "ip_sum f = 0"
  shows "be_words (put 10 [0, 0] (ip_header f)) mod 65535 = 0 \<and>
    ip_sum f \<noteq> cksum (take sizeof_ip (drop sizeof_ether (put 24 [0, 0] f)))"
proof -
  have "length (ip_header f) = 20" using assms(1) by (simp add: ip_header_def size_defs)
  then have "be_words (put 10 [0, 0] (ip_header f)) = be_words (ip_header f)"
    using be_words_put [of 10 "ip_header f" 0] assms(3) ip_sum_header [OF assms(1)] by (simp add: zero_bytes)
  then show ?thesis using ip_check [OF assms(1)] assms by (simp add: header_valid_def)
qed

text \<open>The answer to an echo request, but for its Ethernet addresses.\<close>

definition echo_reply :: "bytes \<Rightarrow> bytes" where
  "echo_reply f = set_icmp_sum (put 34 [0] (set_ip_sum
     (put 30 (bytes32 (ip_src f)) (put 26 (bytes32 (ip_dst f)) (put 22 [INIT_TTL] f)))))"

lemma echo_bytes:
  assumes "38 \<le> length f"
  shows "length (echo_reply f) = length f" "ip_src (echo_reply f) = ip_dst f" "ip_dst (echo_reply f) = ip_src f"
    "ip_ttl (echo_reply f) = INIT_TTL" "icmp_type (echo_reply f) = 0" "header_valid (echo_reply f)"
    "drop 38 (echo_reply f) = drop 38 f" "take 22 (echo_reply f) = take 22 f"
proof -
  define a where "a = put 30 (bytes32 (ip_src f)) (put 26 (bytes32 (ip_dst f)) (put 22 [INIT_TTL] f))"
  define b where "b = put 34 [0] (set_ip_sum a)"
  have e: "echo_reply f = set_icmp_sum b" by (simp add: echo_reply_def a_def b_def)
  have la: "length a = length f" "length b = length f" using assms by (simp_all add: a_def b_def)
  show l: "length (echo_reply f) = length f" using assms la by (simp add: e)
  have eb: "echo_reply f ! k = b ! k" if "k < length f" "k \<noteq> 36" "k \<noteq> 37" for k
    using that assms la by (simp add: e nth_set_icmp_sum)
  have ba: "b ! k = a ! k" if "k < length f" "k \<noteq> 34" "k \<noteq> 24" "k \<noteq> 25" for k
    using that assms la nth_put_other [of 34 "[0]" "set_ip_sum a" k] nth_set_ip_sum [of a k]
    by (force simp: b_def)
  have af: "a ! k = f ! k" if "k < length f" "k \<noteq> 22" "k < 26 \<or> 34 \<le> k" for k
  proof -
    have "k < 22 \<or> 23 \<le> k" using that(2) by linarith
    then have "put 22 [INIT_TTL] f ! k = f ! k" using that(1) assms by (intro nth_put_other) simp_all
    then show ?thesis using that assms by (auto simp: a_def nth_put_other)
  qed
  have "get32 a 26 = ip_dst f"
  proof -
    have "get32 a 26 = get32 (put 26 (bytes32 (ip_dst f)) (put 22 [INIT_TTL] f)) 26"
      using assms by (intro get32_cong) (auto simp: a_def nth_put_other)
    also have "\<dots> = ip_dst f" unfolding put_def [of 26] using assms by (intro get32_append) simp
    finally show ?thesis .
  qed
  moreover have "get32 (echo_reply f) 26 = get32 a 26" using assms by (intro get32_cong) (auto simp: eb ba)
  ultimately show "ip_src (echo_reply f) = ip_dst f" by (simp add: ip_src_def)
  have "get32 a 30 = ip_src f" unfolding a_def put_def [of 30] using assms by (intro get32_append) simp
  moreover have "get32 (echo_reply f) 30 = get32 a 30" using assms by (intro get32_cong) (auto simp: eb ba)
  ultimately show "ip_dst (echo_reply f) = ip_src f" by (simp add: ip_dst_def)
  show "ip_ttl (echo_reply f) = INIT_TTL"
    using eb [of 22] ba [of 22] assms by (simp add: ip_ttl_def a_def nth_put)
  show "icmp_type (echo_reply f) = 0"
    using eb [of 34] assms la by (simp add: icmp_type_def b_def nth_put)
  have "ip_header (echo_reply f) = ip_header (set_ip_sum a)"
    using assms la l by (intro ip_header_cong) (auto simp: eb b_def nth_put_other)
  then show "header_valid (echo_reply f)" using set_ip_sum_valid [of a] assms la by (simp add: header_valid_def)
  show "drop 38 (echo_reply f) = drop 38 f" "take 22 (echo_reply f) = take 22 f"
    using assms l by (auto intro!: nth_equalityI simp: eb ba af)
qed

lemma echo_icmp_valid:
  assumes "38 \<le> length f" "length f \<le> 65535"
  shows "icmp_valid (echo_reply f)"
  unfolding echo_reply_def using assms by (intro set_icmp_sum_valid) simp_all

text \<open>A valid echo request for one of the router's addresses is answered on the route to its
  sender: addresses swapped, type 0, a fresh TTL, both checksums valid and the identifier,
  sequence number and data unchanged.\<close>

lemma router_answers_ping:
  assumes "good_ip_frame f" "own_address sr (ip_dst f)" "ip_p f = ip_protocol_icmp" "icmp_type f = 8"
    "38 \<le> length f" "length f \<le> 65535" "icmp_valid f" "icmp_sum f \<noteq> 0"
    "sr_findLPMentry (routing_table sr) (ip_src f) = Some rt"
    "sr_get_interface sr (rt_interface rt) = Some ifc" "length (if_addr ifc) = 6"
    "sr_arpcache_lookup (cache sr) (ip_src f) = Some e" "length (ae_mac e) = 6"
  shows "\<exists>g. sr_handlepacket n sr f i =
      Inr (sr\<lparr>to_server := to_server sr @ [vns_packet (rt_interface rt) g]\<rparr>) \<and>
    ether_dhost g = ae_mac e \<and> ether_shost g = if_addr ifc \<and> ip_src g = ip_dst f \<and> ip_dst g = ip_src f \<and>
    icmp_type g = 0 \<and> ip_ttl g = 255 \<and> header_valid g \<and> icmp_valid g \<and> drop 38 g = drop 38 f"
proof -
  note eb = echo_bytes [OF assms(5)]
  let ?r = "put 6 (if_addr ifc) (echo_reply f)"
  let ?g = "put 0 (ae_mac e) ?r"
  have lr: "length ?r = length f" using eb(1) assms(5,11) by simp
  have "6 \<le> length ?r" using lr assms(5) by simp
  note pm = put_mac [OF assms(13) this]
  have lg: "length ?g = length f" using pm(2) lr by simp
  have same: "?g ! k = echo_reply f ! k" if "12 \<le> k" "k < length f" for k
    using pm(3) [of k] nth_put_other [of 6 "if_addr ifc" "echo_reply f" k] that eb(1) assms(5,11) lr by simp
  have shost: "ether_shost ?g = if_addr ifc"
  proof -
    have "ether_shost ?r = if_addr ifc" using eb(1) assms(5,11) by (simp add: ether_shost_def put_def)
    then show ?thesis using pm(4) lr assms(5) by simp
  qed
  have "icmp_sum f = cksum (drop 34 (put 36 [0, 0] f))" using icmp_check [OF assms(5,6)] assms(7,8) by simp
  then have "handle_echo_request (sr_arpcache_handle_arpreq n) sr f =
      send_or_queue (sr_arpcache_handle_arpreq n) sr (ip_src f) ?r (rt_interface rt)"
    using assms(9,10) eb(3) by (simp add: handle_echo_request_def Let_def echo_reply_def)
  then have "sr_handlepacket n sr f i = Inr (snd (sr_send_packet sr ?g (rt_interface rt)))"
    using handle_good_frame [OF assms(1)] assms(2-5,12)
    by (simp add: handle_own_packet_def send_or_queue_def Let_def size_defs)
  moreover have "sr_send_packet sr ?g (rt_interface rt) =
      (0, sr\<lparr>to_server := to_server sr @ [vns_packet (rt_interface rt) ?g]\<rparr>)"
    using send_own_source [OF assms(10) shost] lg assms(5) by (simp add: sizeof_ether_def)
  moreover have "ip_src ?g = ip_dst f" "ip_dst ?g = ip_src f"
    using eb(2,3) get32_cong [of 26 ?g "echo_reply f"] get32_cong [of 30 ?g "echo_reply f"] same assms(5)
    by (simp_all add: ip_src_def ip_dst_def)
  moreover have "icmp_type ?g = 0" "ip_ttl ?g = 255"
    using same [of 34] same [of 22] eb(4,5) assms(5) by (simp_all add: icmp_type_def ip_ttl_def INIT_TTL_def)
  moreover have "header_valid ?g"
    using eb(6) ip_header_cong [of ?g "echo_reply f"] same lg eb(1) by (simp add: header_valid_def)
  moreover have "drop 34 ?g = drop 34 (echo_reply f)" "drop 38 ?g = drop 38 (echo_reply f)"
    using same lg eb(1) by (auto intro!: nth_equalityI)
  then have "icmp_valid ?g" "drop 38 ?g = drop 38 f" using eb(7) echo_icmp_valid [OF assms(5,6)] by (simp_all add: icmp_valid_def)
  ultimately show ?thesis using pm(1) shost by (intro exI [of _ ?g]) simp
qed

end
