(* ===== verification/Router_Answers.thy ===== *)
theory Router_Answers
  imports Router_Properties
begin

text \<open>
  The answers of the router: ICMP errors, ARP replies, and the release of the packets that wait
  for an address.
\<close>

section \<open>Errors\<close>

lemma error_frame_valid:
  assumes "length (if_addr ifc) = 6" "length data = 28"
  shows "header_valid (icmp_error_frame ifc dst ty code data)" "icmp_valid (icmp_error_frame ifc dst ty code data)"
proof -
  let ?r = "raw_error_frame ifc dst ty code data"
  have l: "length ?r = 70" using length_raw [OF assms] .
  have "ip_header (set_icmp_sum (set_ip_sum ?r)) = ip_header (set_ip_sum ?r)"
    using l by (intro ip_header_cong) (auto simp: nth_set_icmp_sum)
  then show "header_valid (icmp_error_frame ifc dst ty code data)"
    using set_ip_sum_valid [of ?r] l by (simp add: icmp_error_frame_raw header_valid_def)
  show "icmp_valid (icmp_error_frame ifc dst ty code data)"
    unfolding icmp_error_frame_raw using l by (intro set_icmp_sum_valid) simp_all
qed

text \<open>Which error a valid packet of at least 28 bytes is answered with.\<close>

definition error_answer :: "sr_instance \<Rightarrow> bytes \<Rightarrow> (u8 \<times> u8) option" where
  "error_answer sr f =
     (if own_address sr (ip_dst f)
      then if ip_p f = ip_protocol_tcp \<or> ip_p f = ip_protocol_udp then Some (3, 3) else None
      else if sr_findLPMentry (routing_table sr) (ip_dst f) = None then Some (3, 0)
      else if ip_ttl f \<le> 1 then Some (11, 0) else None)"

lemma error_answer_run:
  assumes "good_ip_frame f" "42 \<le> length f" "error_answer sr f = Some (ty, code)"
    "sr_findLPMentry (routing_table sr) (ip_src f) = Some rt"
  shows "sr_handlepacket n sr f i = send_icmp_error (sr_arpcache_handle_arpreq n) sr rt f ty code"
proof -
  have l: "\<not> length f - sizeof_ether - sizeof_ip + sizeof_ip < ICMP_DATA_SIZE"
    using assms(2) by (simp add: size_defs)
  have p: "ip_protocol_tcp \<noteq> ip_protocol_icmp" "ip_protocol_udp \<noteq> ip_protocol_icmp"
    by (simp_all add: ip_protocol_tcp_def ip_protocol_udp_def ip_protocol_icmp_def)
  show ?thesis
  proof (cases "own_address sr (ip_dst f)")
    case True
    then have "ip_p f = ip_protocol_tcp \<or> ip_p f = ip_protocol_udp" "ty = 3" "code = 3"
      using assms(3) by (auto simp: error_answer_def split: if_splits)
    then show ?thesis
      using handle_good_frame [OF assms(1)] True l p assms(4) by (auto simp: handle_own_packet_def Let_def)
  next
    case False
    then have "sr_handlepacket n sr f i = bounce (sr_arpcache_handle_arpreq n) sr f ty code"
      using handle_good_frame [OF assms(1)] assms(3)
      by (auto simp: error_answer_def handle_foreign_packet_def split: if_splits option.splits)
    then show ?thesis using l assms(4) by (simp add: bounce_def)
  qed
qed

text \<open>C32. A valid packet that cannot be delivered (a TCP or UDP port of the router, no route, TTL
  used up) is answered with the ICMP error of its kind (3/3, 3/0, 11/0): sent on the route to
  its source, with valid checksums and the first 28 bytes of the offending IP packet.\<close>

theorem router_reports_errors:
  assumes "good_ip_frame f" "42 \<le> length f" "error_answer sr f = Some (ty, code)"
    "sr_findLPMentry (routing_table sr) (ip_src f) = Some rt"
    "sr_get_interface sr (rt_interface rt) = Some ifc" "length (if_addr ifc) = 6"
    "sr_arpcache_lookup (cache sr) (ip_src f) = Some e" "length (ae_mac e) = 6"
  shows "\<exists>g. sr_handlepacket n sr f i =
      Inr (sr\<lparr>to_server := to_server sr @ [vns_packet (rt_interface rt) g]\<rparr>) \<and>
    ether_dhost g = ae_mac e \<and> ether_shost g = if_addr ifc \<and> ip_src g = if_ip ifc \<and> ip_dst g = ip_src f \<and>
    ip_p g = ip_protocol_icmp \<and> icmp_type g = ty \<and> icmp_code g = code \<and> header_valid g \<and> icmp_valid g \<and>
    drop 42 g = take 28 (drop 14 f)"
proof -
  define data where "data = take 28 (drop 14 f)"
  have data: "length data = 28" "memcpy_from (drop sizeof_ether f) ICMP_DATA_SIZE = Inr data"
    using assms(2) by (simp_all add: data_def memcpy_from_def size_defs)
  let ?r = "icmp_error_frame ifc (ip_src f) ty code data"
  let ?g = "put 0 (ae_mac e) ?r"
  note ef = error_frame_fields [OF assms(6) data(1), of "ip_src f" ty code]
  have "6 \<le> length ?r" using ef(1) by simp
  note pm = put_mac [OF assms(8) this]
  have same: "?g ! k = ?r ! k" if "6 \<le> k" "k < 70" for k using pm(3) that ef(1) by simp
  have run: "sr_handlepacket n sr f i = Inr (snd (sr_send_packet sr ?g (rt_interface rt)))"
    using error_answer_run [OF assms(1-4)] assms(5,7) data(2)
    by (simp add: send_icmp_error_def send_or_queue_def)
  have shost: "ether_shost ?g = if_addr ifc" using pm(4) ef(1,7) by simp
  have "sr_send_packet sr ?g (rt_interface rt) =
      (0, sr\<lparr>to_server := to_server sr @ [vns_packet (rt_interface rt) ?g]\<rparr>)"
    using send_own_source [OF assms(5) shost] pm(2) ef(1) by (simp add: sizeof_ether_def)
  moreover have "ip_src ?g = if_ip ifc" "ip_dst ?g = ip_src f"
    using ef(5,6) get32_cong [of 26 ?g ?r] get32_cong [of 30 ?g ?r] same by (simp_all add: ip_src_def ip_dst_def)
  moreover have "ip_p ?g = ip_protocol_icmp" "icmp_type ?g = ty" "icmp_code ?g = code"
    using ef(2-4) same by (simp_all add: ip_p_def icmp_type_def icmp_code_def)
  moreover have "header_valid ?g"
    using error_frame_valid(1) [OF assms(6) data(1)] ip_header_cong [of ?g ?r] same pm(2) ef(1)
    by (simp add: header_valid_def)
  moreover have "drop 34 ?g = drop 34 ?r" "drop 42 ?g = drop 42 ?r"
    using same pm(2) ef(1) by (auto intro!: nth_equalityI)
  then have "icmp_valid ?g" "drop 42 ?g = data"
    using error_frame_valid(2) [OF assms(6) data(1)] ef(8) by (simp_all add: icmp_valid_def)
  ultimately show ?thesis using run pm(1) shost by (intro exI [of _ ?g]) (simp add: data_def)
qed

section \<open>ARP\<close>

lemma arp_frame_fields:
  assumes "length dhost = 6" "length (if_addr ifc) = 6" "length tha = 6"
  shows "length (arp_frame opc dhost ifc tha tip) = 42" "ether_dhost (arp_frame opc dhost ifc tha tip) = dhost"
    "ether_shost (arp_frame opc dhost ifc tha tip) = if_addr ifc"
    "ether_type (arp_frame opc dhost ifc tha tip) = ethertype_arp"
    "ar_op (arp_frame opc dhost ifc tha tip) = opc" "ar_sha (arp_frame opc dhost ifc tha tip) = if_addr ifc"
    "ar_sip (arp_frame opc dhost ifc tha tip) = if_ip ifc" "ar_tip (arp_frame opc dhost ifc tha tip) = tip"
proof -
  let ?f = "arp_frame opc dhost ifc tha tip"
  have j: "get32 (xs @ bytes32 w @ ys) (length xs) = w" for xs w ys by (rule get32_append) simp
  have j16: "get16 (xs @ bytes16 w @ ys) (length xs) = w" for xs w ys by (rule get16_append) simp
  let ?h = "dhost @ if_addr ifc @ bytes16 ethertype_arp @ bytes16 arp_hrd_ethernet @ bytes16 ethertype_ip @
    [of_nat ETHER_ADDR_LEN, 4]"
  show "length ?f = 42" "ether_dhost ?f = dhost" "ether_shost ?f = if_addr ifc"
    using assms by (simp_all add: arp_frame_def ether_dhost_def ether_shost_def)
  show "ether_type ?f = ethertype_arp"
    using j16 [of "dhost @ if_addr ifc"] assms by (simp add: arp_frame_def ether_type_def)
  show "ar_op ?f = opc" using j16 [of ?h opc] assms by (simp add: arp_frame_def ar_op_def)
  show "ar_sip ?f = if_ip ifc"
    using j [of "?h @ bytes16 opc @ if_addr ifc"] assms by (simp add: arp_frame_def ar_sip_def)
  show "ar_tip ?f = tip"
    using j [of "?h @ bytes16 opc @ if_addr ifc @ bytes32 (if_ip ifc) @ tha" tip "[]"] assms
    by (simp add: arp_frame_def ar_tip_def)
  have d: "drop (length xs) (xs @ ys) = ys" for xs ys :: bytes by simp
  have "ar_sha ?f = take 6 (drop (length (?h @ bytes16 opc)) ((?h @ bytes16 opc) @ if_addr ifc @
      bytes32 (if_ip ifc) @ tha @ bytes32 tip))"
    using assms by (simp add: ar_sha_def arp_frame_def)
  then show "ar_sha ?f = if_addr ifc" unfolding d using assms by simp
qed

text \<open>An ARP request for the address of the interface it came in on is answered on that
  interface with the interface's hardware address, to the asking host.\<close>

lemma router_answers_arp:
  assumes "42 \<le> length f" "ether_type f = ethertype_arp" "ar_op f = arp_op_request"
    "sr_get_interface sr i = Some ifc" "length (if_addr ifc) = 6" "ar_tip f = if_ip ifc"
  shows "\<exists>g. sr_handlepacket n sr f i = Inr (sr\<lparr>to_server := to_server sr @ [vns_packet i g]\<rparr>) \<and>
    ether_dhost g = ar_sha f \<and> ether_shost g = if_addr ifc \<and> ether_type g = ethertype_arp \<and>
    ar_op g = arp_op_reply \<and> ar_sha g = if_addr ifc \<and> ar_sip g = if_ip ifc \<and> ar_tip g = ar_sip f"
proof -
  have sha: "length (ar_sha f) = 6" using assms(1) by (simp add: ar_sha_def)
  note fs = arp_frame_fields [OF sha assms(5) sha, of arp_op_reply "ar_sip f"]
  let ?g = "arp_frame arp_op_reply (ar_sha f) ifc (ar_sha f) (ar_sip f)"
  have "sr_send_packet sr ?g i = (0, sr\<lparr>to_server := to_server sr @ [vns_packet i ?g]\<rparr>)"
    using send_own_source [OF assms(4) fs(3)] fs(1) by (simp add: sizeof_ether_def)
  moreover have "ethertype_arp \<noteq> ethertype_ip" by (simp add: ethertype_arp_def ethertype_ip_def)
  ultimately have "sr_handlepacket n sr f i = Inr (sr\<lparr>to_server := to_server sr @ [vns_packet i ?g]\<rparr>)"
    using assms by (simp add: sr_handlepacket_def handle_arp_packet_def size_defs)
  with fs show ?thesis by blast
qed

lemma flush_all:
  assumes "\<forall>p \<in> set ps. sizeof_ether \<le> length (pk_buf p) \<and> sr_ether_addrs_match_interface sr (pk_buf p) (pk_iface p)"
    "length mac = 6"
  shows "flush_packets sr mac ps =
    Inr (sr\<lparr>to_server := to_server sr @ map (\<lambda>p. vns_packet (pk_iface p) (put 0 mac (pk_buf p))) ps\<rparr>)"
  using assms(1)
proof (induction ps arbitrary: sr)
  case (Cons p ps)
  let ?b = "put 0 mac (pk_buf p)"
  have l: "14 \<le> length (pk_buf p)" using Cons.prems by (simp add: sizeof_ether_def)
  have "sr_ether_addrs_match_interface sr ?b (pk_iface p)"
    using Cons.prems put_mac(4) [OF assms(2), of "pk_buf p"] l
    by (auto simp: sr_ether_addrs_match_interface_def split: option.splits)
  then have s: "sr_send_packet sr ?b (pk_iface p) =
      (0, sr\<lparr>to_server := to_server sr @ [vns_packet (pk_iface p) ?b]\<rparr>)"
    using l assms(2) by (simp add: sr_send_packet_def sizeof_ether_def)
  have "sr_ether_addrs_match_interface (sr\<lparr>to_server := q\<rparr>) = sr_ether_addrs_match_interface sr" for q
    by (simp add: fun_eq_iff sr_ether_addrs_match_interface_def sr_get_interface_def)
  with Cons s l show ?case by (simp add: ETHER_ADDR_LEN_def)
qed simp

text \<open>C31. An ARP reply releases every packet that waits for the announced address, each sent once
  on its interface to the announced hardware address, and none waits any more; all other
  requests stay.\<close>

theorem router_flushes_queue:
  assumes "router_ok sr" "42 \<le> length f" "ether_type f = ethertype_arp" "ar_op f = arp_op_reply"
    "sr_get_interface sr i = Some ifc" "ar_tip f = if_ip ifc"
  shows "\<exists>c. sr_handlepacket n sr f i = Inr (sr\<lparr>cache := c,
      to_server := to_server sr @
        map (\<lambda>p. vns_packet (pk_iface p) (put 0 (ar_sha f) (pk_buf p))) (waiting (cache sr) (ar_sip f))\<rparr>) \<and>
    (\<forall>ip. waiting c ip = (if ip = ar_sip f then [] else waiting (cache sr) ip))"
proof -
  have ok: "cache_ok (cache sr)" using assms(1) by (simp add: router_ok_def)
  obtain ps c where res: "resolve (now sr) (ar_sha f) (cache sr) (ar_sip f) = (ps, c)" by (metis surj_pair)
  have ps: "ps = waiting (cache sr) (ar_sip f)" using arpq.fst_release [OF ok] res by (metis fst_conv)
  have c: "waiting c ip = (if ip = ar_sip f then [] else waiting (cache sr) ip)" for ip
    using arpq.held_release [OF ok] res by (metis snd_conv)
  let ?sr = "sr\<lparr>cache := c\<rparr>"
  have "sr_ether_addrs_match_interface ?sr = sr_ether_addrs_match_interface sr"
    by (simp add: fun_eq_iff sr_ether_addrs_match_interface_def sr_get_interface_def)
  then have "\<forall>p \<in> set ps. sizeof_ether \<le> length (pk_buf p) \<and>
      sr_ether_addrs_match_interface ?sr (pk_buf p) (pk_iface p)"
    using waiting_request [of _ "cache sr" "ar_sip f"] assms(1) ps
    by (fastforce simp: router_ok_def packet_ok_def)
  moreover have "length (ar_sha f) = 6" using assms(2) by (simp add: ar_sha_def)
  ultimately have fl: "flush_packets ?sr (ar_sha f) ps =
      Inr (?sr\<lparr>to_server := to_server ?sr @ map (\<lambda>p. vns_packet (pk_iface p) (put 0 (ar_sha f) (pk_buf p))) ps\<rparr>)"
    by (rule flush_all)
  have ne: "ethertype_arp \<noteq> ethertype_ip" "arp_op_reply \<noteq> arp_op_request"
    by (simp_all add: ethertype_arp_def ethertype_ip_def arp_op_reply_def arp_op_request_def)
  have "sr_handlepacket n sr f i = flush_packets ?sr (ar_sha f) ps"
  proof -
    have "\<not> length f < sizeof_ether" "\<not> length f - sizeof_ether < sizeof_arp"
      using assms(2) by (simp_all add: size_defs)
    then show ?thesis using assms(3-6) ne res by (simp add: sr_handlepacket_def handle_arp_packet_def)
  qed
  with fl c show ?thesis by (auto simp: ps)
qed

end
