(* ===== verification/Router_Safety.thy ===== *)
theory Router_Safety
  imports Router_Answers
begin

text \<open>
  No frame makes the router fault when the requests that are given up have a rank; without one,
  the recursion of \<open>sr_arpcache_handle_arpreq\<close> may not end, and the sweep may use a freed request.
\<close>

section \<open>No faults\<close>

lemma ranked_queued:
  assumes "ranked \<rho> sr" "expired sr ip \<longrightarrow> lower_source \<rho> sr ip \<lparr>pk_buf = g, pk_iface = strncpy i sr_IFACE_NAMELEN\<rparr>"
    "g \<noteq> []"
  shows "ranked \<rho> (queued sr ip g i)"
proof -
  have "waiting (cache (queued sr ip g i)) ip' =
      (if ip' = ip then \<lparr>pk_buf = g, pk_iface = strncpy i sr_IFACE_NAMELEN\<rparr> # waiting (cache sr) ip
       else waiting (cache sr) ip')" for ip'
    using assms(3) by (simp add: queued_def waiting_queue)
  then show ?thesis using assms(1,2) unfolding ranked_def lower_source_def by auto
qed

lemma send_or_queue_ok:
  assumes good: "good_handler \<rho> n handle" and ok: "router_ok sr" "ranked \<rho> sr"
    and g: "sizeof_ether \<le> length g" "length g < 2 ^ 32" "sr_ether_addrs_match_interface sr g i"
    and low: "expired sr ip \<longrightarrow> \<rho> ip < n \<and> (\<not> expired sr (ip_src g) \<or> error_packet g)"
  shows "\<exists>sr'. send_or_queue handle sr ip g i = Inr sr' \<and> router_ok sr'"
proof (cases "sr_arpcache_lookup (cache sr) ip")
  case (Some e)
  then show ?thesis using keeps_cache [OF send_keeps] ok(1) by (auto simp: send_or_queue_def)
next
  case None
  have "g \<noteq> []" using g(1) by (auto simp: sizeof_ether_def)
  then have "ranked \<rho> (queued sr ip g i)" using low by (intro ranked_queued [OF ok(2)]) (auto simp: lower_source_def)
  moreover have "router_ok (queued sr ip g i)" using router_ok_queued [OF ok(1) g] .
  ultimately obtain sr' where "handle (queued sr ip g i) ip = Inr sr'" "handled \<rho> (queued sr ip g i) ip sr'"
    using good low unfolding good_handler_def by fastforce
  then show ?thesis using None by (auto simp: send_or_queue_def queued_def handled_def)
qed

lemma match_put_source:
  assumes "sr_get_interface sr i = Some ifc" "length (if_addr ifc) = 6" "12 \<le> length g"
  shows "sr_ether_addrs_match_interface sr (put 6 (if_addr ifc) g) i"
  using assms by (simp add: sr_ether_addrs_match_interface_def ether_shost_def put_def)

lemma route_interface:
  assumes "router_ok sr" "sr_findLPMentry (routing_table sr) ip = Some rt"
  obtains ifc where "sr_get_interface sr (rt_interface rt) = Some ifc" "length (if_addr ifc) = 6"
proof -
  have rt: "rt \<in> set (routing_table sr)" using lpm_in_table [OF assms(2)] by simp
  obtain ifc where "sr_get_interface sr (rt_interface rt) = Some ifc"
    using verified_interface [OF _ rt] assms(1) by (auto simp: router_ok_def)
  moreover from this have "ifc \<in> set (if_list sr)"
    using get_interface_SomeD by (auto simp: sr_get_interface_def)
  ultimately show thesis using that assms(1) by (simp add: router_ok_def)
qed

lemma flush_router_ok:
  assumes "router_ok sr" "resolve t mac (cache sr) ip = (ps, c)"
  shows "router_ok (sr\<lparr>cache := c, to_server := q\<rparr>)"
proof -
  have ok: "cache_ok (cache sr)" using assms(1) by (simp add: router_ok_def)
  have c: "cache_ok c" using arpq.release_inv [OF ok] assms(2) by (metis snd_conv)
  have "router_ok (sr\<lparr>cache := c\<rparr>)"
  proof (rule router_ok_cache [OF assms(1) c])
    fix r p assume "r \<in> set (requests c)" "p \<in> set (rq_packets r)"
    then have "p \<in> set (waiting c (rq_ip r))" by (simp add: packets_of [OF c])
    moreover have "waiting c ip' = (if ip' = ip then [] else waiting (cache sr) ip')" for ip'
      using arpq.held_release [OF ok] assms(2) by (metis snd_conv)
    ultimately have "p \<in> set (waiting (cache sr) (rq_ip r))" by (simp split: if_splits)
    then show "packet_ok sr p" using waiting_request assms(1) by (fastforce simp: router_ok_def)
  qed
  then show ?thesis
    using keeps_cache(1) [of "sr\<lparr>cache := c, to_server := q\<rparr>" "sr\<lparr>cache := c\<rparr>"] by (simp add: same_tables_def)
qed

definition safe :: "sr_instance result \<Rightarrow> bool" where
  "safe r \<longleftrightarrow> (\<exists>sr'. r = Inr sr' \<and> router_ok sr')"

lemma safe_Inr [simp]: "safe (Inr sr) \<longleftrightarrow> router_ok sr"
  by (simp add: safe_def)

text \<open>What the handling of an IP packet relies on: a handler that ends, and not both addresses
  with a request that is given up.\<close>

definition fuelled :: "(u32 \<Rightarrow> nat) \<Rightarrow> nat \<Rightarrow> (sr_instance \<Rightarrow> u32 \<Rightarrow> sr_instance result) \<Rightarrow> sr_instance \<Rightarrow> bytes \<Rightarrow> bool"
where
  "fuelled \<rho> n handle sr f \<longleftrightarrow> good_handler \<rho> n handle \<and> router_ok sr \<and> ranked \<rho> sr \<and>
     (\<forall>ip. expired sr ip \<longrightarrow> \<rho> ip < n) \<and> length f < 2 ^ 32 \<and> (\<not> expired sr (ip_src f) \<or> \<not> expired sr (ip_dst f))"

lemma fuelled_ok: "fuelled \<rho> n handle sr f \<Longrightarrow> router_ok sr"
  by (simp add: fuelled_def)

lemma safe_queue:
  assumes "fuelled \<rho> n handle sr f" "sizeof_ether \<le> length g" "length g = length f"
    "sr_ether_addrs_match_interface sr g i" "ip = ip_dst f \<and> ip_src g = ip_src f \<or> ip = ip_src f \<and> ip_src g = ip_dst f"
  shows "safe (send_or_queue handle sr ip g i)"
proof -
  have "expired sr ip \<longrightarrow> \<rho> ip < n \<and> (\<not> expired sr (ip_src g) \<or> error_packet g)"
    using assms(1,5) by (auto simp: fuelled_def)
  then show ?thesis
    using send_or_queue_ok [of \<rho> n handle sr g i ip] assms unfolding fuelled_def safe_def by simp
qed

lemma safe_error:
  assumes "fuelled \<rho> n handle sr f" "sr_findLPMentry (routing_table sr) (ip_src f) = Some rt" "42 \<le> length f"
    "ty = 3 \<or> ty = 11"
  shows "safe (send_icmp_error handle sr rt f ty code)"
proof -
  have rt: "rt \<in> set (routing_table sr)" using lpm_in_table [OF assms(2)] by simp
  have a: "good_handler \<rho> n handle" "router_ok sr" "ranked \<rho> sr" "expired sr (ip_src f) \<longrightarrow> \<rho> (ip_src f) < n"
    using assms(1) by (auto simp: fuelled_def)
  have "sizeof_ether + ICMP_DATA_SIZE \<le> length f" using assms(3) by (simp add: size_defs)
  from send_error_ok [OF a(1-3) rt this assms(4) a(4), of code] show ?thesis
    by (auto simp: handled_def safe_def)
qed

lemma safe_bounce:
  assumes "fuelled \<rho> n handle sr f" "34 \<le> length f" "ty = 3 \<or> ty = 11"
  shows "safe (bounce handle sr f ty code)"
  using safe_error [OF assms(1) _ _ assms(3)] fuelled_ok [OF assms(1)] assms(2)
  by (auto simp: bounce_def size_defs split: option.split)

lemma safe_forward:
  assumes "fuelled \<rho> n handle sr f" "34 \<le> length f" "sr_findLPMentry (routing_table sr) (ip_dst f) = Some rt"
  shows "safe (forward_packet handle sr rt f)"
proof -
  obtain ifc where ifc: "sr_get_interface sr (rt_interface rt) = Some ifc" "length (if_addr ifc) = 6"
    using route_interface [OF fuelled_ok [OF assms(1)] assms(3)] .
  note fb = forwarded_bytes [OF assms(2) ifc(2)]
  have "sr_ether_addrs_match_interface sr (forwarded ifc f) (rt_interface rt)"
    using ifc(1) fb(3) by (simp add: sr_ether_addrs_match_interface_def)
  then have "safe (send_or_queue handle sr (ip_dst f) (forwarded ifc f) (rt_interface rt))"
    using fb(1,6) assms(2) by (intro safe_queue [OF assms(1)]) (auto simp: sizeof_ether_def)
  then show ?thesis
    using ifc(1) ip_dst_decremented [OF assms(2)] by (simp add: forward_packet_def Let_def forwarded_def)
qed

lemma safe_foreign:
  assumes "fuelled \<rho> n handle sr f" "34 \<le> length f"
  shows "safe (handle_foreign_packet handle sr f)"
  using safe_bounce [OF assms] safe_forward [OF assms]
  by (auto simp: handle_foreign_packet_def split: option.split)

lemma safe_echo:
  assumes "fuelled \<rho> n handle sr f" "38 \<le> length f"
  shows "safe (handle_echo_request handle sr f)"
proof (cases "icmp_sum f = cksum (drop 34 (put 36 [0, 0] f)) \<and>
    sr_findLPMentry (routing_table sr) (ip_dst (echo_reply f)) \<noteq> None")
  case False
  then show ?thesis using fuelled_ok [OF assms(1)] by (auto simp: handle_echo_request_def Let_def echo_reply_def)
next
  case True
  then obtain rt where rt: "sr_findLPMentry (routing_table sr) (ip_dst (echo_reply f)) = Some rt" by auto
  obtain ifc where ifc: "sr_get_interface sr (rt_interface rt) = Some ifc" "length (if_addr ifc) = 6"
    using route_interface [OF fuelled_ok [OF assms(1)] rt] .
  let ?g = "put 6 (if_addr ifc) (echo_reply f)"
  note eb = echo_bytes [OF assms(2)]
  have lg: "length ?g = length f" using eb(1) ifc(2) assms(2) by simp
  have "ip_src ?g = ip_dst f"
    using eb(2) ifc(2) assms(2) eb(1) get32_cong [of 26 ?g "echo_reply f"] by (simp add: ip_src_def nth_put_other)
  then have "safe (send_or_queue handle sr (ip_src f) ?g (rt_interface rt))"
    using lg assms(2) match_put_source [OF ifc] eb(1) by (intro safe_queue [OF assms(1)]) (auto simp: sizeof_ether_def)
  then show ?thesis
    using True rt ifc(1) by (simp add: handle_echo_request_def Let_def echo_reply_def)
qed

lemma safe_own:
  assumes "fuelled \<rho> n handle sr f" "34 \<le> length f"
  shows "safe (handle_own_packet handle sr f)"
  using safe_error [OF assms(1)] safe_echo [OF assms(1)] fuelled_ok [OF assms(1)] assms(2)
  by (auto simp: handle_own_packet_def Let_def size_defs split: option.split)

lemma safe_ip:
  assumes "fuelled \<rho> n handle sr f" "14 \<le> length f"
  shows "safe (handle_ip_packet handle sr f)"
proof (cases "length f - sizeof_ether < sizeof_ip")
  case False
  then have "34 \<le> length f" using assms(2) by (simp add: size_defs)
  then show ?thesis
    using safe_own [OF assms(1)] safe_foreign [OF assms(1)] fuelled_ok [OF assms(1)]
    by (auto simp: handle_ip_packet_def)
qed (use fuelled_ok [OF assms(1)] in \<open>simp add: handle_ip_packet_def\<close>)

lemma safe_arp:
  assumes "router_ok sr" "14 \<le> length f" "sr_get_interface sr i = Some ifc"
  shows "safe (handle_arp_packet sr f i)"
proof (cases "length f - sizeof_ether < sizeof_arp")
  case True
  then show ?thesis using assms(1) by (simp add: handle_arp_packet_def)
next
  case False
  then have sha: "length (ar_sha f) = 6" by (simp add: ar_sha_def size_defs)
  obtain ps c where res: "resolve (now sr) (ar_sha f) (cache sr) (ar_sip f) = (ps, c)" by (metis surj_pair)
  have "sr_ether_addrs_match_interface (sr\<lparr>cache := c\<rparr>) = sr_ether_addrs_match_interface sr"
    by (simp add: fun_eq_iff sr_ether_addrs_match_interface_def sr_get_interface_def)
  moreover have "ps = waiting (cache sr) (ar_sip f)"
    using arpq.fst_release [of "cache sr"] res assms(1) unfolding router_ok_def by (metis fst_conv)
  ultimately have ps: "\<forall>p \<in> set ps. sizeof_ether \<le> length (pk_buf p) \<and>
      sr_ether_addrs_match_interface (sr\<lparr>cache := c\<rparr>) (pk_buf p) (pk_iface p)"
    using waiting_request [of _ "cache sr" "ar_sip f"] assms(1) by (fastforce simp: router_ok_def packet_ok_def)
  have "safe (flush_packets (sr\<lparr>cache := c\<rparr>) (ar_sha f) ps)"
    using flush_all [OF ps sha] flush_router_ok [OF assms(1) res] by simp
  then show ?thesis
    using assms(3) res keeps_cache(1) [OF send_keeps] assms(1) by (simp add: handle_arp_packet_def)
qed


section \<open>Where giving up requests goes wrong\<close>

text \<open>A request that is given up and waits with a packet from its own address: the error goes to
  the same request.\<close>

definition self_addressed :: "sr_instance \<Rightarrow> u32 \<Rightarrow> bool" where
  "self_addressed sr ip \<longleftrightarrow>
     (\<exists>errs p rest rt ifc. waiting (cache sr) ip = errs @ p # rest \<and>
        (\<forall>q \<in> set errs. error_packet (pk_buf q) \<and> 42 \<le> length (pk_buf q) \<and> length (pk_buf q) < 2 ^ 32) \<and>
        \<not> error_packet (pk_buf p) \<and> 42 \<le> length (pk_buf p) \<and> length (pk_buf p) < 2 ^ 32 \<and>
        ip_src (pk_buf p) = ip \<and> sr_findLPMentry (routing_table sr) ip = Some rt \<and>
        sr_get_interface sr (rt_interface rt) = Some ifc \<and> length (if_addr ifc) = 6 \<and>
        sr_arpcache_lookup (cache sr) ip = None \<and> expired sr ip)"

lemma expire_skip_errors:
  assumes "\<forall>q \<in> set errs. error_packet (pk_buf q) \<and> 42 \<le> length (pk_buf q)"
  shows "expire_packets handle sr ip (errs @ ps) = expire_packets handle sr ip ps"
  using assms by (induction errs) (auto simp: error_packet_def size_defs Let_def)

lemma frame_not_short:
  assumes "42 \<le> length f" "length f < 2 ^ 32"
  shows "\<not> (of_nat (length f) - of_nat sizeof_ether :: u64) < of_nat ICMP_DATA_SIZE"
proof -
  have "length f = (length f - 14) + 14" using assms(1) by simp
  then obtain m where m: "length f = m + 14" by blast
  have "unat (of_nat m :: u64) = m" using assms m by (simp add: unat_of_nat take_bit_nat_eq_self)
  then show ?thesis using assms(1) m by (simp add: size_defs word_less_nat_alt)
qed

lemma self_addressed_step:
  assumes "self_addressed sr ip"
  obtains e i k where "self_addressed (queued sr ip e i) ip"
    "expire_packets handle sr ip (waiting (cache sr) ip) = rbind (handle (queued sr ip e i) ip) k"
proof -
  obtain errs p rest rt ifc where w: "waiting (cache sr) ip = errs @ p # rest"
    and errs: "\<forall>q \<in> set errs. error_packet (pk_buf q) \<and> 42 \<le> length (pk_buf q) \<and> length (pk_buf q) < 2 ^ 32"
    and p: "\<not> error_packet (pk_buf p)" "42 \<le> length (pk_buf p)" "length (pk_buf p) < 2 ^ 32" "ip_src (pk_buf p) = ip"
    and rt: "sr_findLPMentry (routing_table sr) ip = Some rt" "sr_get_interface sr (rt_interface rt) = Some ifc"
      "length (if_addr ifc) = 6"
    and none: "sr_arpcache_lookup (cache sr) ip = None" "expired sr ip"
    using assms unfolding self_addressed_def by blast
  define data where "data = take 28 (drop 14 (pk_buf p))"
  have data: "memcpy_from (drop sizeof_ether (pk_buf p)) ICMP_DATA_SIZE = Inr data" "length data = 28"
    using p(2) by (simp_all add: memcpy_from_def data_def size_defs)
  define e where "e = icmp_error_frame ifc ip 3 1 data"
  define i where "i = rt_interface rt"
  have e: "error_packet e" "length e = 70" "e \<noteq> []"
    using error_frame_fields [OF rt(3) data(2), of ip 3 1] by (auto simp: e_def error_packet_def)
  let ?new = "\<lparr>pk_buf = e, pk_iface = strncpy i sr_IFACE_NAMELEN\<rparr>"
  have wq: "waiting (cache (queued sr ip e i)) ip = (?new # errs) @ p # rest"
    using w e(3) by (simp add: queued_def waiting_queue)
  have "self_addressed (queued sr ip e i) ip"
    unfolding self_addressed_def
  proof (intro exI conjI)
    show "waiting (cache (queued sr ip e i)) ip = (?new # errs) @ p # rest" by (rule wq)
    show "\<forall>q \<in> set (?new # errs). error_packet (pk_buf q) \<and> 42 \<le> length (pk_buf q) \<and> length (pk_buf q) < 2 ^ 32"
      using errs e by simp
    show "sr_arpcache_lookup (cache (queued sr ip e i)) ip = None"
      using none(1) by (simp add: queued_def sr_arpcache_lookup_def sr_arpcache_queuereq_def Let_def)
    show "sr_findLPMentry (routing_table (queued sr ip e i)) ip = Some rt" using rt(1) by (simp add: queued_def)
    show "sr_get_interface (queued sr ip e i) (rt_interface rt) = Some ifc"
      using rt(2) by (simp add: queued_def sr_get_interface_def)
  qed (use p rt(3) none(2) in simp_all)
  moreover have "send_icmp_error handle sr rt (pk_buf p) 3 1 = handle (queued sr ip e i) ip"
    using rt(2) data(1) none(1) p(4) by (simp add: send_icmp_error_def send_or_queue_def e_def i_def queued_def)
  moreover have "expire_packets handle sr ip (waiting (cache sr) ip) = expire_packets handle sr ip (p # rest)"
    unfolding w by (rule expire_skip_errors) (use errs in auto)
  moreover have "expire_packets handle sr ip (p # rest) = rbind (send_icmp_error handle sr rt (pk_buf p) 3 1)
      (\<lambda>sr'. if find_request (requests (cache sr')) ip = None then Inl Use_After_Free
         else expire_packets handle sr' ip rest)"
  proof -
    have "\<not> length (pk_buf p) < sizeof_ether + ICMP_DATA_SIZE" using p(2) by (simp add: size_defs)
    moreover have "\<not> (ip_p (pk_buf p) = ip_protocol_icmp \<and> (icmp_type (pk_buf p) = 3 \<or> icmp_type (pk_buf p) = 11))"
      using p(1) by (simp add: error_packet_def)
    ultimately show ?thesis
      using frame_not_short [OF p(2,3)] rt(1) p(4)
      unfolding expire_packets.simps(2) Let_def by (simp only: if_False option.simps)
  qed
  ultimately have "expire_packets handle sr ip (waiting (cache sr) ip) = rbind (handle (queued sr ip e i) ip)
      (\<lambda>sr'. if find_request (requests (cache sr')) ip = None then Inl Use_After_Free
         else expire_packets handle sr' ip rest)" by (simp only:)
  with \<open>self_addressed (queued sr ip e i) ip\<close> show thesis by (rule that)
qed

text \<open>C35. A request that is given up while a packet from its own address waits for it is never
  done with: the error for that packet is queued for the same request, which is handled at once,
  without end, although the code's comment promises that no infinite loop can arise.\<close>

theorem handle_arpreq_diverges:
  assumes "self_addressed sr ip"
  shows "sr_arpcache_handle_arpreq n sr ip = Inl Out_Of_Fuel"
  using assms
proof (induction n arbitrary: sr)
  case (Suc n)
  obtain req where req: "find_request (requests (cache sr)) ip = Some req" "1 \<le> now sr - rq_sent req"
      "5 \<le> rq_times_sent req"
    using Suc.prems by (auto simp: self_addressed_def expired_def split: option.splits)
  then have "rq_packets req = waiting (cache sr) ip" by (simp add: waiting_def)
  with req have run: "sr_arpcache_handle_arpreq (Suc n) sr ip =
      rbind (expire_packets (sr_arpcache_handle_arpreq n) sr ip (waiting (cache sr) ip))
        (\<lambda>sr'. Inr (sr'\<lparr>cache := sr_arpreq_destroy (cache sr') ip\<rparr>))" by simp
  obtain e i k where s: "self_addressed (queued sr ip e i) ip"
      "expire_packets (sr_arpcache_handle_arpreq n) sr ip (waiting (cache sr) ip) =
       rbind (sr_arpcache_handle_arpreq n (queued sr ip e i) ip) k"
    by (rule self_addressed_step [OF Suc.prems])
  show ?case unfolding run s(2) Suc.IH [OF s(1)] by simp
qed simp

text \<open>The sweep reads the successor of a request before it handles the request: when giving up the
  first request sends an error to the address of the second, whose request is given up as well,
  the second is freed before the sweep goes on to it.\<close>

lemma expire_only_errors:
  assumes "\<forall>q \<in> set qs. error_packet (pk_buf q) \<and> 42 \<le> length (pk_buf q)"
  shows "expire_packets handle sr ip qs = Inr sr"
  using expire_skip_errors [OF assms, of handle sr ip "[]"] by simp

text \<open>Sweeping the requests uses freed memory when two requests that follow each other are both
  given up and the first waits with a packet from the address of the second.\<close>

lemma sweep_uses_freed_request:
  assumes "requests (cache sr) = rA # rB # rest" "rq_ip rA = a" "rq_ip rB = b" "a \<noteq> b"
    "expired sr a" "expired sr b"
    "rq_packets rA = [p]" "\<not> error_packet (pk_buf p)" "42 \<le> length (pk_buf p)" "length (pk_buf p) < 2 ^ 32"
    "ip_src (pk_buf p) = b" "\<forall>q \<in> set (rq_packets rB). error_packet (pk_buf q) \<and> 42 \<le> length (pk_buf q)"
    "sr_findLPMentry (routing_table sr) b = Some rt" "sr_get_interface sr (rt_interface rt) = Some ifc"
    "length (if_addr ifc) = 6" "sr_arpcache_lookup (cache sr) b = None"
    "b \<notin> rq_ip ` set rest"
  shows "sr_arpcache_sweepreqs (Suc (Suc n)) (Suc (Suc k)) sr = Inl Use_After_Free"
proof -
  define data where "data = take 28 (drop 14 (pk_buf p))"
  have data: "memcpy_from (drop sizeof_ether (pk_buf p)) ICMP_DATA_SIZE = Inr data" "length data = 28"
    using assms(9) by (simp_all add: memcpy_from_def data_def size_defs)
  define e where "e = icmp_error_frame ifc b 3 1 data"
  have e: "error_packet e" "length e = 70" "e \<noteq> []"
    using error_frame_fields [OF assms(15) data(2), of b 3 1] by (auto simp: e_def error_packet_def)
  define i where "i = rt_interface rt"
  let ?q = "queued sr b e i"
  have fB: "find_request (requests (cache sr)) b = Some rB" using assms(1-4) by simp
  define rB' where "rB' = rB\<lparr>rq_packets := \<lparr>pk_buf = e, pk_iface = strncpy i sr_IFACE_NAMELEN\<rparr> # rq_packets rB\<rparr>"
  have rq: "requests (cache ?q) = rA # rB' # rest"
    using assms(1-4) e(3) fB by (simp add: queued_def sr_arpcache_queuereq_def Let_def rB'_def)
  have handle_b: "sr_arpcache_handle_arpreq (Suc n) ?q b = Inr (?q\<lparr>cache := sr_arpreq_destroy (cache ?q) b\<rparr>)"
  proof -
    have "find_request (requests (cache ?q)) b = Some rB'" using rq assms(2-4) by (simp add: rB'_def)
    moreover have "1 \<le> now ?q - rq_sent rB'" "5 \<le> rq_times_sent rB'"
      using assms(6) fB by (simp_all add: expired_def rB'_def queued_def)
    moreover have "expire_packets (sr_arpcache_handle_arpreq n) ?q b (rq_packets rB') = Inr ?q"
      by (rule expire_only_errors) (use assms(12) e in \<open>simp add: rB'_def\<close>)
    ultimately show ?thesis by simp
  qed
  have send: "send_icmp_error (sr_arpcache_handle_arpreq (Suc n)) sr rt (pk_buf p) 3 1 =
      Inr (?q\<lparr>cache := sr_arpreq_destroy (cache ?q) b\<rparr>)"
    using handle_b assms(11,14,16) data(1)
    by (simp add: send_icmp_error_def send_or_queue_def e_def i_def queued_def del: sr_arpcache_handle_arpreq.simps)
  let ?s = "?q\<lparr>cache := sr_arpreq_destroy (cache ?q) b\<rparr>"
  have after: "requests (cache ?s) = rA # rest"
    using rq assms(2-4) by (simp add: sr_arpreq_destroy_def rB'_def)
  have exp: "expire_packets (sr_arpcache_handle_arpreq (Suc n)) sr a [p] = Inr ?s"
  proof -
    have "\<not> length (pk_buf p) < sizeof_ether + ICMP_DATA_SIZE" using assms(9) by (simp add: size_defs)
    moreover have "\<not> (ip_p (pk_buf p) = ip_protocol_icmp \<and> (icmp_type (pk_buf p) = 3 \<or> icmp_type (pk_buf p) = 11))"
      using assms(8) by (simp add: error_packet_def)
    moreover have "find_request (requests (cache ?s)) a \<noteq> None" using after assms(2) by simp
    ultimately show ?thesis
      using frame_not_short [OF assms(9,10)] assms(11,13) send
      unfolding expire_packets.simps Let_def by (simp only: if_False option.simps rbind_simps)
  qed
  have "sr_arpcache_handle_arpreq (Suc (Suc n)) sr a = Inr (?s\<lparr>cache := sr_arpreq_destroy (cache ?s) a\<rparr>)"
    using exp assms(1,2,5,7) unfolding sr_arpcache_handle_arpreq.simps(2) [of "Suc n"] by (simp add: expired_def)
  moreover have "find_request (requests (cache (?s\<lparr>cache := sr_arpreq_destroy (cache ?s) a\<rparr>))) b = None"
    using after assms(2,17) by (simp add: sr_arpreq_destroy_def find_request_None)
  ultimately show ?thesis
    using assms(1-3) by (simp add: sr_arpcache_sweepreqs_def Let_def del: sr_arpcache_handle_arpreq.simps)
qed

end
