(* ===== verification/Router_Runs.thy ===== *)
theory Router_Runs
  imports Router_Safety
begin

text \<open>
  The router under any sequence of frames and cleanup rounds: what it writes to the server.
\<close>

section \<open>Runs\<close>

text \<open>What happens to the router: frames from the server, rounds of the cleanup thread and the
  passing of time. \<open>n\<close> and \<open>k\<close> are the fuel of the recursion and of the sweep.\<close>

datatype router_event = Frame_In bytes bytes | Cleanup | Clock int

fun router_run :: "nat \<Rightarrow> nat \<Rightarrow> sr_instance \<Rightarrow> router_event list \<Rightarrow> sr_instance result" where
  "router_run n k sr [] = Inr sr"
| "router_run n k sr (Frame_In f i # evs) = rbind (sr_handlepacket n sr f i) (\<lambda>sr'. router_run n k sr' evs)"
| "router_run n k sr (Cleanup # evs) = rbind (sr_arpcache_timeout n k sr) (\<lambda>sr'. router_run n k sr' evs)"
| "router_run n k sr (Clock t # evs) = router_run n k (sr\<lparr>now := t\<rparr>) evs"

definition same_net :: "sr_instance \<Rightarrow> sr_instance \<Rightarrow> bool" where
  "same_net sr sr' \<longleftrightarrow> if_list sr' = if_list sr \<and> routing_table sr' = routing_table sr \<and>
     (\<exists>ms. to_server sr' = to_server sr @ map (\<lambda>(i, b). vns_packet i b) ms \<and> (\<forall>m \<in> set ms. proper_frame sr m))"

lemma sends_same_net: "sends sr sr' \<Longrightarrow> same_net sr sr'"
  by (auto simp: sends_def same_tables_def same_net_def)

lemma same_net_trans:
  assumes "same_net a b" "same_net b c"
  shows "same_net a c"
proof -
  let ?m = "map (\<lambda>(i, b). vns_packet i b)"
  obtain ms where ms: "to_server b = to_server a @ ?m ms" "\<forall>m \<in> set ms. proper_frame a m"
      "if_list b = if_list a" using assms(1) unfolding same_net_def by blast
  obtain ns where ns: "to_server c = to_server b @ ?m ns" "\<forall>m \<in> set ns. proper_frame b m"
    using assms(2) unfolding same_net_def by blast
  have "to_server c = to_server a @ ?m (ms @ ns) \<and> (\<forall>m \<in> set (ms @ ns). proper_frame a m)"
    using ms ns by (auto simp: proper_frame_def sr_ether_addrs_match_interface_def sr_get_interface_def)
  then have "\<exists>ms. to_server c = to_server a @ ?m ms \<and> (\<forall>m \<in> set ms. proper_frame a m)" by (rule exI)
  moreover have "if_list c = if_list a" "routing_table c = routing_table a"
    using assms by (simp_all add: same_net_def)
  ultimately show ?thesis unfolding same_net_def by blast
qed

text \<open>C19. Whatever frames arrive and whenever the cleanup runs, every message the router writes is a
  frame with a full Ethernet header whose source is the hardware address of the interface it is
  sent on; the tables of interfaces and routes never change.\<close>

theorem router_sends_proper_frames:
  assumes "router_run n k sr evs = Inr sr'"
  shows "if_list sr' = if_list sr \<and> routing_table sr' = routing_table sr \<and>
    (\<exists>ms. to_server sr' = to_server sr @ map (\<lambda>(i, b). vns_packet i b) ms \<and>
       (\<forall>(i, b) \<in> set ms. sizeof_ether \<le> length b \<and>
          (\<exists>ifc. sr_get_interface sr i = Some ifc \<and> ether_shost b = if_addr ifc)))"
proof -
  have "same_net sr sr'"
    using assms
  proof (induction n k sr evs rule: router_run.induct)
    case (1 n k sr)
    then show ?case by (simp add: same_net_def)
  next
    case (2 n k sr f i evs)
    then obtain sr1 where "sr_handlepacket n sr f i = Inr sr1" "router_run n k sr1 evs = Inr sr'"
      by (auto simp: rbind_eq_Inr_iff)
    with 2(1) show ?case using same_net_trans [OF sends_same_net [OF handlepacket_sends]] by blast
  next
    case (3 n k sr evs)
    then obtain sr1 where "sr_arpcache_timeout n k sr = Inr sr1" and r: "router_run n k sr1 evs = Inr sr'"
      by (auto simp: rbind_eq_Inr_iff)
    then have "sends sr sr1" using sweep_sends by (fastforce simp: sr_arpcache_timeout_def sr_arpcache_sweepreqs_def)
    with r 3(1) show ?case using same_net_trans [OF sends_same_net] by blast
  next
    case (4 n k sr t evs)
    then have "same_net (sr\<lparr>now := t\<rparr>) sr'" by simp
    moreover have "same_net sr (sr\<lparr>now := t\<rparr>)" by (simp add: same_net_def)
    ultimately show ?case using same_net_trans by blast
  qed
  then obtain ms where ms: "to_server sr' = to_server sr @ map (\<lambda>(i, b). vns_packet i b) ms"
      "\<forall>m \<in> set ms. proper_frame sr m" and t: "if_list sr' = if_list sr" "routing_table sr' = routing_table sr"
    unfolding same_net_def by blast
  have "\<forall>(i, b) \<in> set ms. sizeof_ether \<le> length b \<and> (\<exists>ifc. sr_get_interface sr i = Some ifc \<and> ether_shost b = if_addr ifc)"
    using ms(2) by (auto simp: proper_frame_def sr_ether_addrs_match_interface_def split: option.splits)
  with ms(1) t show ?thesis by blast
qed

end
