(* ===== verification/Router_Example.thy ===== *)
theory Router_Example
  imports Router_Runs
begin

text \<open>
  A router with two interfaces and two routes, and the frames at which the properties of the
  router are applied.
\<close>

section \<open>The router\<close>

definition eth1 :: bytes where "eth1 = [0x65, 0x74, 0x68, 0x31]"
definition eth2 :: bytes where "eth2 = [0x65, 0x74, 0x68, 0x32]"

definition if1 :: sr_if where "if1 = \<lparr>if_name = eth1, if_addr = [2, 0, 0, 0, 0, 1], if_ip = 0x0A000101\<rparr>"
definition if2 :: sr_if where "if2 = \<lparr>if_name = eth2, if_addr = [2, 0, 0, 0, 0, 2], if_ip = 0xC0A80201\<rparr>"

definition rt1 :: sr_rt where
  "rt1 = \<lparr>rt_dest = 0x0A000164, rt_gw = 0x0A000164, rt_mask = 0xFFFFFF00, rt_interface = eth1\<rparr>"
definition rt2 :: sr_rt where
  "rt2 = \<lparr>rt_dest = 0xC0A80202, rt_gw = 0xC0A80202, rt_mask = 0xFFFFFF00, rt_interface = eth2\<rparr>"

definition host1 :: sr_arpentry where
  "host1 = \<lparr>ae_mac = [4, 0, 0, 0, 0, 1], ae_ip = 0x0A000164, ae_added = 5, ae_valid = True\<rparr>"
definition host2 :: sr_arpentry where
  "host2 = \<lparr>ae_mac = [4, 0, 0, 0, 0, 2], ae_ip = 0xC0A80202, ae_added = 5, ae_valid = True\<rparr>"

definition ex_cache :: "sr_arpentry list \<Rightarrow> sr_arpreq list \<Rightarrow> sr_arpcache" where
  "ex_cache known reqs = \<lparr>entries = known @ replicate (SR_ARPCACHE_SZ - length known) zero_entry, requests = reqs\<rparr>"

definition ex_router :: "sr_arpentry list \<Rightarrow> sr_arpreq list \<Rightarrow> sr_instance" where
  "ex_router known reqs =
     \<lparr>if_list = [if1, if2], routing_table = [rt1, rt2], cache = ex_cache known reqs, now = 10, to_server = []\<rparr>"

definition frame_udp :: bytes where
  "frame_udp = [2, 0, 0, 0, 0, 1, 4, 0, 0, 0, 0, 1, 8, 0, 69, 0, 0, 36, 0, 1,
    0, 0, 64, 17, 172, 186, 10, 0, 1, 100, 192, 168, 2, 2, 0, 7, 0, 7, 0, 16,
    0, 0, 1, 1, 1, 1, 1, 1, 1, 1]"

definition frame_77 :: bytes where
  "frame_77 = [2, 0, 0, 0, 0, 1, 4, 0, 0, 0, 0, 1, 8, 0, 69, 0, 0, 36, 0, 1,
    0, 0, 64, 17, 172, 111, 10, 0, 1, 100, 192, 168, 2, 77, 0, 7, 0, 7, 0, 16,
    0, 0, 1, 1, 1, 1, 1, 1, 1, 1]"

definition frame_ping :: bytes where
  "frame_ping = [2, 0, 0, 0, 0, 1, 4, 0, 0, 0, 0, 1, 8, 0, 69, 0, 0, 32, 0, 1,
    0, 0, 64, 1, 100, 120, 10, 0, 1, 100, 10, 0, 1, 1, 8, 0, 229, 234, 0, 1,
    0, 2, 9, 9, 9, 9]"

definition frame_noroute :: bytes where
  "frame_noroute = [2, 0, 0, 0, 0, 1, 4, 0, 0, 0, 0, 1, 8, 0, 69, 0, 0, 28, 0, 1,
    0, 0, 64, 17, 107, 103, 10, 0, 1, 100, 1, 2, 3, 4, 0, 7, 0, 7, 0, 16,
    0, 0]"

definition frame_black :: bytes where
  "frame_black = [2, 0, 0, 0, 0, 1, 4, 0, 0, 0, 0, 1, 8, 0, 69, 0, 0, 28, 0, 1,
    0, 0, 64, 17, 172, 33, 10, 0, 2, 5, 192, 168, 2, 2, 0, 0, 0, 0, 0, 0,
    0, 0]"

definition frame_bad :: bytes where
  "frame_bad = [2, 0, 0, 0, 0, 1, 4, 0, 0, 0, 0, 1, 8, 0, 69, 0, 0, 36, 0, 1,
    0, 0, 64, 17, 0, 1, 10, 0, 1, 100, 192, 168, 2, 2, 0, 7, 0, 7, 0, 16,
    0, 0, 1, 1, 1, 1, 1, 1, 1, 1]"

definition frame_arp_req :: bytes where
  "frame_arp_req = [255, 255, 255, 255, 255, 255, 4, 0, 0, 0, 0, 1, 8, 6, 0, 1, 8, 0, 6, 4,
    0, 1, 4, 0, 0, 0, 0, 1, 10, 0, 1, 100, 0, 0, 0, 0, 0, 0, 10, 0,
    1, 1]"

definition frame_arp_rep :: bytes where
  "frame_arp_rep = [2, 0, 0, 0, 0, 2, 4, 0, 0, 0, 0, 77, 8, 6, 0, 1, 8, 0, 6, 4,
    0, 2, 4, 0, 0, 0, 0, 77, 192, 168, 2, 77, 2, 0, 0, 0, 0, 2, 192, 168,
    2, 1]"

definition frame_self :: bytes where
  "frame_self = [2, 0, 0, 0, 0, 1, 4, 0, 0, 0, 0, 1, 8, 0, 69, 0, 0, 28, 0, 1,
    0, 0, 64, 17, 100, 9, 10, 0, 1, 100, 10, 0, 1, 100, 0, 0, 0, 0, 0, 0,
    0, 0]"

definition queued_77 :: bytes where
  "queued_77 = [0, 0, 0, 0, 0, 0, 2, 0, 0, 0, 0, 2, 8, 0, 69, 0, 0, 36, 0, 1,
    0, 0, 63, 17, 173, 111, 10, 0, 1, 100, 192, 168, 2, 77, 0, 7, 0, 7, 0, 16,
    0, 0, 1, 1, 1, 1, 1, 1, 1, 1]"

lemma ex_router_simps [simp]:
  "if_list (ex_router k r) = [if1, if2]" "routing_table (ex_router k r) = [rt1, rt2]"
  "cache (ex_router k r) = ex_cache k r" "now (ex_router k r) = 10" "to_server (ex_router k r) = []"
  "requests (ex_cache k r) = r"
  by (simp_all add: ex_router_def ex_cache_def)

lemma ex_lookup: "sr_arpcache_lookup (ex_cache k r) ip = lookup_scan k ip None"
proof -
  have "lookup_scan (replicate n zero_entry) ip acc = acc" for n acc
    by (rule lookup_scan_none) (simp add: zero_entry_def)
  then show ?thesis by (simp add: sr_arpcache_lookup_def ex_cache_def lookup_scan_append)
qed

lemma ex_interfaces [simp]:
  "sr_get_interface (ex_router k r) eth1 = Some if1" "sr_get_interface (ex_router k r) eth2 = Some if2"
  by (simp_all add: sr_get_interface_def if1_def if2_def eth1_def eth2_def strncmp_eq_def c_str_def
      sr_IFACE_NAMELEN_def)

lemma ex_names: "strncmp_eq (if_name if1) eth1 sr_IFACE_NAMELEN" "strncmp_eq (if_name if2) eth2 sr_IFACE_NAMELEN"
  by (simp_all add: if1_def if2_def)

lemma router_fields [simp]:
  "rt_interface rt1 = eth1" "rt_interface rt2 = eth2" "if_addr if1 = [2, 0, 0, 0, 0, 1]"
  "if_addr if2 = [2, 0, 0, 0, 0, 2]" "if_ip if1 = 0x0A000101" "if_ip if2 = 0xC0A80201"
  "ae_mac host1 = [4, 0, 0, 0, 0, 1]" "ae_mac host2 = [4, 0, 0, 0, 0, 2]"
  "ae_ip host1 = 0x0A000164" "ae_ip host2 = 0xC0A80202" "ae_valid host1" "ae_valid host2"
  by (simp_all add: rt1_def rt2_def if1_def if2_def host1_def host2_def)

lemma ex_routes:
  "sr_findLPMentry [rt1, rt2] 0xC0A80202 = Some rt2" "sr_findLPMentry [rt1, rt2] 0x0A000164 = Some rt1"
  "sr_findLPMentry [rt1, rt2] 0xC0A8024D = Some rt2" "sr_findLPMentry [rt1, rt2] 0x01020304 = None"
  by (simp_all add: sr_findLPMentry_def rt1_def rt2_def)

lemmas ex_eval = field_defs get16_def get32_def size_defs ip_header_def ip_black_list_def
  ethertype_ip_def ethertype_arp_def ip_protocol_icmp_def ip_protocol_tcp_def ip_protocol_udp_def
  arp_op_request_def arp_op_reply_def

lemma udp_fields:
  "length frame_udp = 50" "ether_type frame_udp = ethertype_ip" "ip_v frame_udp = 4" "ip_sum frame_udp = 44218"
  "ip_src frame_udp = 0xa000164" "ip_dst frame_udp = 0xc0a80202" "ip_ttl frame_udp = 64" "ip_p frame_udp = 17"
  by (simp_all add: frame_udp_def ex_eval)

lemma udp_valid: "header_valid frame_udp"
  by (simp add: frame_udp_def header_valid_def ex_eval)

lemma udp_good: "good_ip_frame frame_udp"
  using udp_valid by (simp add: good_ip_frame_def ip_black_list_def udp_fields)

lemma far_fields:
  "length frame_77 = 50" "ether_type frame_77 = ethertype_ip" "ip_v frame_77 = 4" "ip_sum frame_77 = 44143"
  "ip_src frame_77 = 0xa000164" "ip_dst frame_77 = 0xc0a8024d" "ip_ttl frame_77 = 64" "ip_p frame_77 = 17"
  by (simp_all add: frame_77_def ex_eval)

lemma noroute_fields:
  "length frame_noroute = 42" "ether_type frame_noroute = ethertype_ip" "ip_v frame_noroute = 4" "ip_sum frame_noroute = 27495"
  "ip_src frame_noroute = 0xa000164" "ip_dst frame_noroute = 0x1020304" "ip_ttl frame_noroute = 64" "ip_p frame_noroute = 17"
  by (simp_all add: frame_noroute_def ex_eval)

lemma noroute_valid: "header_valid frame_noroute"
  by (simp add: frame_noroute_def header_valid_def ex_eval)

lemma noroute_good: "good_ip_frame frame_noroute"
  using noroute_valid by (simp add: good_ip_frame_def ip_black_list_def noroute_fields)

lemma ex_own: "own_address (ex_router k r) ip \<longleftrightarrow> ip = 0x0A000101 \<or> ip = 0xC0A80201"
  by (auto simp: own_address_def)

section \<open>Tables\<close>

theorem lpm_correct_witness:
  "\<exists>pre post. [rt1, rt2] = pre @ rt2 # post \<and> rt_matches 0xC0A80202 rt2 \<and> rt_mask rt2 \<noteq> 0 \<and>
    (\<forall>e' \<in> set pre. rt_matches 0xC0A80202 e' \<longrightarrow> rt_mask e' < rt_mask rt2) \<and>
    (\<forall>e' \<in> set post. rt_matches 0xC0A80202 e' \<longrightarrow> rt_mask e' \<le> rt_mask rt2)"
  using lpm_correct [of "[rt1, rt2]" "0xC0A80202"] by (simp only: ex_routes(1) option.simps)

section \<open>Packets\<close>

theorem router_forwards_witness:
  "\<exists>g. sr_handlepacket 1 (ex_router [host2] []) frame_udp eth1 =
      Inr (ex_router [host2] []\<lparr>to_server := [vns_packet eth2 g]\<rparr>) \<and>
    ether_dhost g = ae_mac host2 \<and> ether_shost g = if_addr if2 \<and> ip_ttl g = 63 \<and> header_valid g"
  using router_forwards [OF udp_good, of "ex_router [host2] []" rt2 if2 host2 1 eth1]
  by (simp add: ex_own udp_fields ex_routes ex_lookup) blast

theorem router_reports_errors_witness:
  "\<exists>g. sr_handlepacket 1 (ex_router [host1] []) frame_noroute eth1 =
      Inr (ex_router [host1] []\<lparr>to_server := [vns_packet eth1 g]\<rparr>) \<and>
    ip_dst g = 0x0A000164 \<and> icmp_type g = 3 \<and> icmp_code g = 0 \<and> drop 42 g = take 28 (drop 14 frame_noroute)"
proof -
  have "error_answer (ex_router [host1] []) frame_noroute = Some (3, 0)"
    by (simp add: error_answer_def ex_own noroute_fields ex_routes)
  from router_reports_errors [OF noroute_good _ this, of rt1 if1 host1 1 eth1] show ?thesis
    by (simp del: take_drop add: noroute_fields ex_routes ex_lookup) blast
qed

section \<open>ARP\<close>

lemma good_cache: "length k \<le> 100 \<Longrightarrow> distinct (map rq_ip rs) \<Longrightarrow> \<forall>r \<in> set rs. rq_packets r \<noteq> [] \<Longrightarrow>
  cache_ok (ex_cache k rs)"
  by (simp add: cache_ok_def ex_cache_def SR_ARPCACHE_SZ_def)

lemma ex_verified: "sr_verify_routing_table (ex_router k r) = 0"
  by (simp add: sr_verify_routing_table_def ex_names)

text \<open>A packet that waits for host 77, whose request is given up next.\<close>

definition packet_77 :: sr_packet where "packet_77 = \<lparr>pk_buf = queued_77, pk_iface = eth2\<rparr>"

definition request_77 :: sr_arpreq where
  "request_77 = \<lparr>rq_ip = 0xC0A8024D, rq_sent = 3, rq_times_sent = 5, rq_packets = [packet_77]\<rparr>"

definition busy :: sr_instance where "busy = ex_router [] [request_77]"

lemma queued_77_fields:
  "length queued_77 = 50" "ip_src queued_77 = 0x0A000164" "ip_p queued_77 = 17" "ether_shost queued_77 = [2, 0, 0, 0, 0, 2]"
  by (simp_all add: queued_77_def ex_eval)

lemma busy_ok: "router_ok busy"
proof -
  have "packet_ok busy packet_77"
    by (simp add: packet_ok_def packet_77_def queued_77_fields busy_def sr_ether_addrs_match_interface_def sizeof_ether_def)
  moreover have "cache_ok (cache busy)" by (simp add: busy_def good_cache request_77_def)
  moreover have "sr_verify_routing_table busy = 0" by (simp add: busy_def ex_verified)
  ultimately show ?thesis by (simp add: router_ok_def) (simp add: busy_def request_77_def)
qed

lemma busy_simps [simp]:
  "sr_get_interface busy eth1 = Some if1" "sr_get_interface busy eth2 = Some if2" "to_server busy = []"
  by (simp_all add: busy_def)

lemma busy_expired: "expired busy ip \<longleftrightarrow> ip = 0xC0A8024D"
  by (auto simp: expired_def busy_def request_77_def)

lemma busy_ranked: "ranked (\<lambda>_. 0) busy"
  unfolding ranked_def
  by (simp add: busy_expired) (simp add: waiting_def busy_def request_77_def packet_77_def lower_source_def queued_77_fields
    expired_def)


lemma reply_fields:
  "length frame_arp_rep = 42" "ether_type frame_arp_rep = ethertype_arp" "ar_op frame_arp_rep = arp_op_reply"
  "ar_sha frame_arp_rep = [4, 0, 0, 0, 0, 77]" "ar_sip frame_arp_rep = 0xC0A8024D" "ar_tip frame_arp_rep = 0xC0A80201"
  by (simp_all add: frame_arp_rep_def ex_eval)

lemma busy_waiting: "waiting (cache busy) ip = (if ip = 0xC0A8024D then [packet_77] else [])"
  by (simp add: waiting_def busy_def request_77_def)

theorem router_flushes_queue_witness:
  "\<exists>c. sr_handlepacket 1 busy frame_arp_rep eth2 = Inr (busy\<lparr>cache := c,
      to_server := [vns_packet eth2 (put 0 [4, 0, 0, 0, 0, 77] queued_77)]\<rparr>) \<and> waiting c 0xC0A8024D = []"
  using router_flushes_queue [OF busy_ok, of frame_arp_rep eth2 if2 1]
  by (simp add: reply_fields busy_waiting packet_77_def) (elim exE conjE, intro exI conjI, assumption, simp)

lemma get_interface_now: "sr_get_interface (sr\<lparr>now := t\<rparr>) i = sr_get_interface sr i"
  by (simp add: sr_get_interface_def)

theorem router_sends_proper_frames_witness:
  "\<exists>sr'. router_run 2 2 (ex_router [host2] []) [Clock 11, Frame_In frame_udp eth1, Cleanup] = Inr sr' \<and>
    routing_table sr' = [rt1, rt2]"
proof -
  obtain g where g: "sr_handlepacket 2 (ex_router [host2] []\<lparr>now := 11\<rparr>) frame_udp eth1 =
      Inr (ex_router [host2] []\<lparr>now := 11, to_server := [vns_packet eth2 g]\<rparr>)"
    using forward_sends [OF udp_good, of "ex_router [host2] []\<lparr>now := 11\<rparr>" rt2 if2 host2 2 eth1]
    by (auto simp: own_address_def udp_fields ex_routes ex_lookup get_interface_now)
  define s where "s = ex_router [host2] []\<lparr>now := 11, to_server := [vns_packet eth2 g]\<rparr>"
  have "sr_arpcache_timeout 2 2 s = Inr (s\<lparr>cache := expire_entries 11 (cache s)\<rparr>)"
    by (simp add: sr_arpcache_timeout_def sr_arpcache_sweepreqs_def s_def expire_entries_def)
  then have run: "router_run 2 2 (ex_router [host2] []) [Clock 11, Frame_In frame_udp eth1, Cleanup] =
      Inr (s\<lparr>cache := expire_entries 11 (cache s)\<rparr>)"
    using g by (simp add: s_def)
  from router_sends_proper_frames [OF this] run show ?thesis by simp
qed

section \<open>Tables of addresses\<close>

theorem arp_queue_complete_witness:
  "fst (resolve 10 [4, 0, 0, 0, 0, 77] (queue_packet (ex_cache [] []) 0xC0A8024D packet_77) 0xC0A8024D) = [packet_77]"
proof -
  have "\<forall>(i, p) \<in> set [(0xC0A8024D, packet_77)]. good_packet p"
    by (simp add: good_packet_def packet_77_def queued_77_def strncpy_def c_str_def eth2_def sr_IFACE_NAMELEN_def)
  from arp_queue_complete [OF good_cache this, of "[]" "[]" "0xC0A80202" "0xC0A8024D" 10 "[4, 0, 0, 0, 0, 77]"]
  show ?thesis by (simp add: split_beta waiting_def)
qed

section \<open>Requests that are given up in a circle\<close>

definition packet_self :: sr_packet where "packet_self = \<lparr>pk_buf = frame_self, pk_iface = eth1\<rparr>"

lemma self_fields: "length frame_self = 42" "ip_src frame_self = 0x0A000164" "ip_p frame_self = 17"
  by (simp_all add: frame_self_def ex_eval)

definition circle :: sr_instance where
  "circle = ex_router [] [\<lparr>rq_ip = 0x0A000164, rq_sent = 3, rq_times_sent = 5, rq_packets = [packet_self]\<rparr>]"

theorem handle_arpreq_diverges_witness:
  "sr_arpcache_handle_arpreq 1000 circle 0x0A000164 = Inl Out_Of_Fuel"
proof -
  have "self_addressed circle 0x0A000164"
    unfolding self_addressed_def
    by (intro exI [of _ "[]"] exI [of _ packet_self] exI [of _ rt1] exI [of _ if1])
      (simp add: circle_def waiting_def packet_self_def self_fields error_packet_def ex_routes ex_lookup
        expired_def ip_protocol_icmp_def)
  then show ?thesis by (rule handle_arpreq_diverges)
qed

end
