(* ===== verification/Request_Lines.thy ===== *)
theory Request_Lines
  imports Prelude "HOL-Library.Sublist"
begin

text \<open>
  What the request parsers of \<^verbatim>\<open>hw1/sserver.c\<close> and \<^verbatim>\<open>hw2/public/template/shttpd.c\<close> share: the
  character classes and string functions of C, blanks, the end of a line, and the Host line,
  whose parser is the same code in both. A pointer into a buffer is the rest of the buffer;
  reading behind its end is an error branch.
\<close>

definition CRLF :: bytes where "CRLF = [0x0d, 0x0a]"
definition CRLFCRLF :: bytes where "CRLFCRLF = CRLF @ CRLF"

section \<open>Characters and strings of C\<close>

text \<open>The character classes of the C locale.\<close>

definition isblank :: "u8 \<Rightarrow> bool" where "isblank c \<longleftrightarrow> c = 0x20 \<or> c = 0x09"
definition isspace :: "u8 \<Rightarrow> bool" where "isspace c \<longleftrightarrow> c = 0x20 \<or> (0x09 \<le> c \<and> c \<le> 0x0d)"
definition isdigit :: "u8 \<Rightarrow> bool" where "isdigit c \<longleftrightarrow> 0x30 \<le> c \<and> c \<le> 0x39"
definition isgraph :: "u8 \<Rightarrow> bool" where "isgraph c \<longleftrightarrow> 0x21 \<le> c \<and> c \<le> 0x7e"
definition tolower :: "u8 \<Rightarrow> u8" where "tolower c = (if 0x41 \<le> c \<and> c \<le> 0x5a then c + 0x20 else c)"

definition deref :: "bytes \<Rightarrow> u8 result" where
  "deref p = (case p of [] \<Rightarrow> Inl Out_Of_Bounds | c # _ \<Rightarrow> Inr c)"

text \<open>\<open>strncmp (p, lit, strlen (lit)) == 0\<close>, and the same for \<open>strncasecmp\<close> with a literal in
  lower case: the comparison stops at the first difference.\<close>

fun starts_with :: "(u8 \<Rightarrow> u8) \<Rightarrow> bytes \<Rightarrow> bytes \<Rightarrow> bool result" where
  "starts_with f p [] = Inr True"
| "starts_with f [] (l # ls) = Inl Out_Of_Bounds"
| "starts_with f (c # p) (l # ls) = (if f c = l then starts_with f p ls else Inr False)"

abbreviation strncmp_lit :: "bytes \<Rightarrow> bytes \<Rightarrow> bool result" where
  "strncmp_lit \<equiv> starts_with (\<lambda>c. c)"

abbreviation strncasecmp_lit :: "bytes \<Rightarrow> bytes \<Rightarrow> bool result" where
  "strncasecmp_lit \<equiv> starts_with tolower"

text \<open>\<open>strstr\<close> for a needle that is not empty.\<close>

fun strstr :: "bytes \<Rightarrow> bytes \<Rightarrow> bytes option result" where
  "strstr [] needle = Inl Out_Of_Bounds"
| "strstr (c # p) needle =
     rbind (strncmp_lit (c # p) needle) (\<lambda>here.
       if here then Inr (Some (c # p)) else if c = 0 then Inr None else strstr p needle)"

definition host_name :: bytes where "host_name = [0x68, 0x6f, 0x73, 0x74, 0x3a]"

section \<open>Scanning a line\<close>

fun skip_blank :: "bytes \<Rightarrow> bytes result" where
  "skip_blank [] = Inl Out_Of_Bounds"
| "skip_blank (c # p) = (if isblank c then skip_blank p else Inr (c # p))"

fun skip_graph :: "bytes \<Rightarrow> bytes result" where
  "skip_graph [] = Inl Out_Of_Bounds"
| "skip_graph (c # p) = (if isgraph c then skip_graph p else Inr (c # p))"

text \<open>The end of every line: blanks, then CRLF.\<close>

definition end_of_line :: "bytes \<Rightarrow> (bool \<times> bytes) result" where
  "end_of_line p =
     rbind (skip_blank p) (\<lambda>p1.
     rbind (strncmp_lit p1 CRLF) (\<lambda>crlf.
       if \<not> crlf then Inr (False, p1) else Inr (True, drop 2 p1)))"

definition parse_host :: "bytes \<Rightarrow> (bool \<times> bytes) result" where
  "parse_host p =
     rbind (strncasecmp_lit p host_name) (\<lambda>host.
       if \<not> host then Inr (False, p)
       else
         rbind (skip_blank (drop 5 p)) (\<lambda>p1.
         rbind (deref p1) (\<lambda>c.
           if \<not> isgraph c then Inr (False, p1)
           else rbind (skip_graph p1) end_of_line)))"

section \<open>What is left gets shorter\<close>

lemma rbind_cong [fundef_cong]:
  assumes "m = m'" "\<And>a. m' = Inr a \<Longrightarrow> k a = k' a"
  shows "rbind m k = rbind m' k'"
  using assms by (cases m') simp_all

lemma starts_with_length: "starts_with f p l = Inr True \<Longrightarrow> length l \<le> length p"
  by (induction f p l rule: starts_with.induct) (auto split: if_splits)

lemma starts_with_take: "starts_with (\<lambda>c. c) p l = Inr True \<Longrightarrow> take (length l) p = l"
  by (induction "\<lambda>c :: u8. c" p l rule: starts_with.induct) (auto split: if_splits)

lemma skip_blank_length: "skip_blank p = Inr q \<Longrightarrow> length q \<le> length p"
  by (induction p) (auto split: if_splits)

lemma skip_graph_length: "skip_graph p = Inr q \<Longrightarrow> length q \<le> length p"
  by (induction p) (auto split: if_splits)

lemma strstr_length: "strstr p l = Inr (Some q) \<Longrightarrow> length q \<le> length p \<and> starts_with (\<lambda>c. c) q l = Inr True"
proof (induction p l rule: strstr.induct)
  case (2 c p needle)
  then show ?case by (fastforce simp: rbind_eq_Inr_iff split: if_splits)
qed simp

lemma end_of_line_length: "end_of_line p = Inr (ok, q) \<Longrightarrow> length q \<le> length p"
  by (auto simp: end_of_line_def rbind_eq_Inr_iff split: if_splits dest!: skip_blank_length)

section \<open>On a terminated buffer\<close>

text \<open>On a buffer with a NUL every operation is total, with these results.\<close>

named_theorems terminated \<open>operations on terminated buffers\<close>

lemma not_class_0 [simp]: "\<not> isblank 0" "\<not> isgraph 0" "tolower 0 = 0"
  by (simp_all add: isblank_def isgraph_def tolower_def)

lemma tolower_0_iff [simp]: "tolower c = 0 \<longleftrightarrow> c = 0"
proof
  assume t: "tolower c = 0"
  show "c = 0"
  proof (cases "0x41 \<le> c \<and> c \<le> 0x5a")
    case True
    then have "unat c + 0x20 < 256" "unat c \<ge> 0x41" by (simp_all add: word_le_nat_alt)
    then have "unat (c + 0x20) = unat c + 0x20" using unat_add_lem [of c "0x20"] by simp
    then have "c + 0x20 \<noteq> 0" by auto
    with True t show ?thesis by (simp add: tolower_def)
  qed (use t in \<open>auto simp: tolower_def split: if_splits\<close>)
qed simp

lemma dropWhile_0 [simp]: "0 \<in> set p \<Longrightarrow> \<not> P 0 \<Longrightarrow> 0 \<in> set (dropWhile P p)"
  by (induction p) auto

lemma drop_0: "0 \<in> set p \<Longrightarrow> 0 \<notin> set (take n p) \<Longrightarrow> 0 \<in> set (drop n p)"
  by (metis Un_iff append_take_drop_id set_append)

lemma starts_with_iff:
  assumes "0 \<in> set p" "0 \<notin> set l" "\<And>c. f c = 0 \<longleftrightarrow> c = 0"
  shows "starts_with f p l = Inr (map f (take (length l) p) = l)"
  using assms
proof (induction f p l rule: starts_with.induct)
  case (3 g c p l ls)
  then have "g c = l \<Longrightarrow> 0 \<in> set p" by auto
  with 3 show ?case by auto
qed auto

lemma strncmp_iff [terminated]: "0 \<in> set p \<Longrightarrow> 0 \<notin> set l \<Longrightarrow> strncmp_lit p l = Inr (take (length l) p = l)"
  by (simp add: starts_with_iff)

lemma strncasecmp_iff [terminated]:
  "0 \<in> set p \<Longrightarrow> 0 \<notin> set l \<Longrightarrow> strncasecmp_lit p l = Inr (map tolower (take (length l) p) = l)"
  by (simp add: starts_with_iff)

lemma skip_blank_eq [terminated]: "0 \<in> set p \<Longrightarrow> skip_blank p = Inr (dropWhile isblank p)"
  by (induction p) auto

lemma skip_graph_eq [terminated]: "0 \<in> set p \<Longrightarrow> skip_graph p = Inr (dropWhile isgraph p)"
  by (induction p) auto

lemma deref_eq [terminated]: "0 \<in> set p \<Longrightarrow> deref p = Inr (hd p)"
  by (cases p) (auto simp: deref_def)

lemma crlf_host_props [simp]:
  "0 \<notin> set CRLF" "length CRLF = 2" "0 \<notin> set host_name" "length host_name = 5"
  by (simp_all add: CRLF_def host_name_def)

lemma take_0: "map f (take n p) = l \<Longrightarrow> 0 \<notin> set l \<Longrightarrow> (\<And>c. f c = 0 \<longleftrightarrow> c = 0) \<Longrightarrow> 0 \<notin> set (take n p)"
  by (metis image_eqI list.set_map)

lemma drop_literal [simp]:
  "0 \<in> set p \<Longrightarrow> take n p = l \<Longrightarrow> 0 \<notin> set l \<Longrightarrow> 0 \<in> set (drop n p)"
  "0 \<in> set p \<Longrightarrow> map tolower (take n p) = l \<Longrightarrow> 0 \<notin> set l \<Longrightarrow> 0 \<in> set (drop n p)"
  using drop_0 take_0 [of tolower n p l] by auto

lemma end_of_line_eq [terminated]:
  "0 \<in> set p \<Longrightarrow> end_of_line p =
     (let p1 = dropWhile isblank p in Inr (if take 2 p1 = CRLF then (True, drop 2 p1) else (False, p1)))"
  by (simp add: end_of_line_def terminated Let_def)

definition no_crlf :: "bytes \<Rightarrow> bool" where
  "no_crlf l \<longleftrightarrow> \<not> (\<exists>a b. l = a @ CRLF @ b)"

lemma no_crlf_Cons: "no_crlf (c # l) \<longleftrightarrow> no_crlf l \<and> \<not> (c = 13 \<and> l \<noteq> [] \<and> hd l = 10)"
proof
  assume n: "no_crlf (c # l)"
  then have "no_crlf l" unfolding no_crlf_def by (metis append_Cons)
  moreover have "\<not> (c = 13 \<and> l \<noteq> [] \<and> hd l = 10)"
  proof
    assume "c = 13 \<and> l \<noteq> [] \<and> hd l = 10"
    then have "c # l = [] @ CRLF @ tl l" by (cases l) (auto simp: CRLF_def)
    with n show False unfolding no_crlf_def by blast
  qed
  ultimately show "no_crlf l \<and> \<not> (c = 13 \<and> l \<noteq> [] \<and> hd l = 10)" by blast
next
  assume r: "no_crlf l \<and> \<not> (c = 13 \<and> l \<noteq> [] \<and> hd l = 10)"
  show "no_crlf (c # l)"
    unfolding no_crlf_def
  proof (intro notI, elim exE)
    fix a b assume "c # l = a @ CRLF @ b"
    with r show False by (cases a) (auto simp: CRLF_def no_crlf_def)
  qed
qed

lemma strstr_total: "0 \<in> set p \<Longrightarrow> \<exists>s. strstr p CRLF = Inr s"
  by (induction p CRLF rule: strstr.induct) (auto simp: terminated)

definition first_crlf :: "bytes \<Rightarrow> bytes \<Rightarrow> bool" where
  "first_crlf p q \<longleftrightarrow> (\<exists>l r. p = l @ q \<and> q = CRLF @ r \<and> 0 \<notin> set l \<and> no_crlf l)"

lemma first_crlf_here:
  assumes "take 2 (c # p) = CRLF"
  shows "first_crlf (c # p) q \<longleftrightarrow> q = c # p"
proof
  have cp: "c = 13" "p \<noteq> []" "hd p = 10" using assms by (cases p; simp add: CRLF_def numeral_2_eq_2)+
  assume "first_crlf (c # p) q"
  then obtain l r where l: "c # p = l @ q" "q = CRLF @ r" "no_crlf l" unfolding first_crlf_def by blast
  show "q = c # p"
  proof (cases l)
    case (Cons a l')
    then have a: "a = 13" "p = l' @ q" "\<not> (l' \<noteq> [] \<and> hd l' = 10)" using l cp by (auto simp: no_crlf_Cons)
    show ?thesis
    proof (cases l')
      case Nil
      then have "hd p = 13" using a(2) l(2) by (simp add: CRLF_def)
      with cp(3) show ?thesis by simp
    next
      case (Cons b l'')
      then have "hd p = b" using a(2) by simp
      with a(3) cp(3) Cons show ?thesis by simp
    qed
  qed (use l in simp)
next
  assume q: "q = c # p"
  have "c # p = CRLF @ drop 2 (c # p)" using assms append_take_drop_id [of 2 "c # p"] by simp
  moreover have "no_crlf []" by (simp add: no_crlf_def CRLF_def)
  ultimately show "first_crlf (c # p) q" unfolding first_crlf_def q by (metis append_Nil empty_iff empty_set)
qed

lemma first_crlf_later:
  assumes "take 2 (c # p) \<noteq> CRLF"
  shows "first_crlf (c # p) q \<longleftrightarrow> c \<noteq> 0 \<and> first_crlf p q"
proof
  assume "first_crlf (c # p) q"
  then obtain l r where l: "c # p = l @ q" "q = CRLF @ r" "0 \<notin> set l" "no_crlf l" unfolding first_crlf_def by blast
  have "l \<noteq> []"
  proof
    assume "l = []"
    then have "c # p = CRLF @ r" using l by simp
    then have "take 2 (c # p) = CRLF" by (simp only:) (simp add: CRLF_def)
    with assms show False ..
  qed
  then obtain l' where l': "l = c # l'" "p = l' @ q" using l(1) by (metis Cons_eq_append_conv)
  then have "c \<noteq> 0" "0 \<notin> set l'" "no_crlf l'" using l(3,4) by (auto simp: no_crlf_Cons)
  then show "c \<noteq> 0 \<and> first_crlf p q" unfolding first_crlf_def using l'(2) l(2) by blast
next
  assume r: "c \<noteq> 0 \<and> first_crlf p q"
  then obtain l r where l: "p = l @ q" "q = CRLF @ r" "0 \<notin> set l" "no_crlf l" unfolding first_crlf_def by blast
  have "\<not> (c = 13 \<and> l \<noteq> [] \<and> hd l = 10)"
  proof
    assume h: "c = 13 \<and> l \<noteq> [] \<and> hd l = 10"
    then have "take 2 (c # p) = CRLF" using l(1) by (cases l) (simp_all add: CRLF_def)
    with assms show False ..
  qed
  then have "no_crlf (c # l)" using l(4) by (simp add: no_crlf_Cons)
  moreover have "c # p = (c # l) @ q" "0 \<notin> set (c # l)" using l r by auto
  ultimately show "first_crlf (c # p) q" unfolding first_crlf_def using l(2) by blast
qed

lemma strstr_first:
  assumes "0 \<in> set p"
  shows "strstr p CRLF = Inr (Some q) \<longleftrightarrow> first_crlf p q"
  using assms
proof (induction p CRLF rule: strstr.induct)
  case (2 c p)
  have here: "strncmp_lit (c # p) CRLF = Inr (take 2 (c # p) = CRLF)" using strncmp_iff [OF 2(2)] by simp
  show ?case
  proof (cases "take 2 (c # p) = CRLF")
    case True
    then show ?thesis using here first_crlf_here [OF True] by auto
  next
    case False
    have eq: "strstr (c # p) CRLF = (if c = 0 then Inr None else strstr p CRLF)"
      using here False by (simp only: strstr.simps rbind_simps if_False)
    show ?thesis
    proof (cases "c = 0")
      case True
      then show ?thesis unfolding eq first_crlf_later [OF False] by simp
    next
      case c: False
      then have "0 \<in> set p" using 2(2) by simp
      with 2(1) [of False] c have "strstr p CRLF = Inr (Some q) \<longleftrightarrow> first_crlf p q" by simp
      then show ?thesis unfolding eq first_crlf_later [OF False] using c by simp
    qed
  qed
qed simp

section \<open>Runs of characters\<close>

definition all_blank :: "bytes \<Rightarrow> bool" where "all_blank w \<longleftrightarrow> (\<forall>c \<in> set w. isblank c)"
definition all_graph :: "bytes \<Rightarrow> bool" where "all_graph w \<longleftrightarrow> (\<forall>c \<in> set w. isgraph c)"

text \<open>The URL ends before the end of the string.\<close>

definition c_strlen :: "bytes \<Rightarrow> nat" where
  "c_strlen p = length (takeWhile (\<lambda>c. c \<noteq> 0) p)"

lemma graph_in_string: "length (takeWhile isgraph p) \<le> c_strlen p"
  unfolding c_strlen_def by (induction p) auto

lemma c_strlen_suffix: "0 \<notin> set w \<Longrightarrow> c_strlen (w @ p) = length w + c_strlen p"
  unfolding c_strlen_def by (induction w) auto

lemma blank_0: "all_blank w \<Longrightarrow> 0 \<notin> set w"
  by (auto simp: all_blank_def)

lemma graph_0: "all_graph w \<Longrightarrow> 0 \<notin> set w"
  by (auto simp: all_graph_def)

text \<open>Splitting at the end of a run of characters.\<close>

lemma run_unique:
  assumes "\<forall>c \<in> set w. P c" "q \<noteq> []" "\<not> P (hd q)"
  shows "takeWhile P (w @ q) = w" "dropWhile P (w @ q) = q"
  using assms by (induction w) (cases q, auto)+

lemma run_split: "\<exists>w. p = w @ dropWhile P p \<and> (\<forall>c \<in> set w. P c) \<and> w = takeWhile P p"
  by (metis set_takeWhileD takeWhile_dropWhile_id)

lemma take_eq_split: "take n p = l \<Longrightarrow> p = l @ drop n p"
  by auto

lemma end_of_line_iff:
  assumes "0 \<in> set p"
  shows "end_of_line p = Inr (True, q) \<longleftrightarrow> (\<exists>w. all_blank w \<and> p = w @ CRLF @ q)"
proof
  assume "end_of_line p = Inr (True, q)"
  then have t: "take 2 (dropWhile isblank p) = CRLF" "q = drop 2 (dropWhile isblank p)"
    using assms by (simp_all add: terminated Let_def split: if_splits)
  obtain w where w: "p = w @ dropWhile isblank p" "\<forall>c \<in> set w. isblank c" using run_split by metis
  have "dropWhile isblank p = CRLF @ q" using take_eq_split [OF t(1)] t(2) by simp
  with w show "\<exists>w. all_blank w \<and> p = w @ CRLF @ q" unfolding all_blank_def by metis
next
  assume "\<exists>w. all_blank w \<and> p = w @ CRLF @ q"
  then obtain w where w: "\<forall>c \<in> set w. isblank c" "p = w @ CRLF @ q" by (auto simp: all_blank_def)
  have "dropWhile isblank p = CRLF @ q"
    unfolding w(2) using w(1) by (intro run_unique) (simp_all add: CRLF_def isblank_def)
  then show "end_of_line p = Inr (True, q)" using assms by (simp add: terminated Let_def)
qed

lemma skip_blanks: "all_blank w \<Longrightarrow> q \<noteq> [] \<Longrightarrow> \<not> isblank (hd q) \<Longrightarrow> dropWhile isblank (w @ q) = q"
  unfolding all_blank_def by (rule run_unique)

lemma blank_not_graph: "isgraph c \<Longrightarrow> \<not> isblank c"
  by (auto simp: isblank_def isgraph_def)

lemma line_end_props [simp]: "hd CRLF = 13" "CRLF \<noteq> []" "\<not> isblank 13" "\<not> isgraph 13"
  by (simp_all add: CRLF_def isblank_def isgraph_def)

text \<open>A run of graphic characters ends where blanks and CRLF follow.\<close>

lemma hd_blank_crlf: "all_blank w \<Longrightarrow> w @ CRLF @ q \<noteq> [] \<and> \<not> isgraph (hd (w @ CRLF @ q))"
  by (cases w) (auto simp: all_blank_def dest: blank_not_graph)

lemma parse_host_iff:
  assumes "0 \<in> set p"
  shows "parse_host p = Inr (True, q) \<longleftrightarrow>
    (\<exists>n w1 h w2. p = n @ w1 @ h @ w2 @ CRLF @ q \<and> map tolower n = host_name \<and> all_blank w1 \<and> all_graph h \<and>
       h \<noteq> [] \<and> all_blank w2)"
proof
  assume a: "parse_host p = Inr (True, q)"
  then have n: "map tolower (take 5 p) = host_name"
    using assms by (simp add: parse_host_def terminated split: if_splits)
  define p1 where "p1 = dropWhile isblank (drop 5 p)"
  have p1: "0 \<in> set p1" using assms n by (simp add: p1_def)
  have g: "isgraph (hd p1)" and e: "end_of_line (dropWhile isgraph p1) = Inr (True, q)"
    using a assms n p1 by (simp_all add: parse_host_def terminated p1_def [symmetric] split: if_splits)
  obtain w1 where w1: "drop 5 p = w1 @ p1" "all_blank w1"
    unfolding p1_def all_blank_def using run_split by metis
  obtain h where h: "p1 = h @ dropWhile isgraph p1" "all_graph h" "h = takeWhile isgraph p1"
    unfolding all_graph_def using run_split by metis
  have "h \<noteq> []" using h(3) g p1 by (cases p1) auto
  obtain w2 where w2: "all_blank w2" "dropWhile isgraph p1 = w2 @ CRLF @ q"
    using e p1 by (auto simp: end_of_line_iff)
  have "p = take 5 p @ w1 @ h @ w2 @ CRLF @ q" using w1(1) h(1) w2(2) by (metis append_take_drop_id append.assoc)
  then show "\<exists>n w1 h w2. p = n @ w1 @ h @ w2 @ CRLF @ q \<and> map tolower n = host_name \<and> all_blank w1 \<and>
      all_graph h \<and> h \<noteq> [] \<and> all_blank w2"
    using n w1(2) h(2) \<open>h \<noteq> []\<close> w2(1) by blast
next
  assume "\<exists>n w1 h w2. p = n @ w1 @ h @ w2 @ CRLF @ q \<and> map tolower n = host_name \<and> all_blank w1 \<and> all_graph h \<and>
       h \<noteq> [] \<and> all_blank w2"
  then obtain n w1 h w2 where p: "p = n @ w1 @ h @ w2 @ CRLF @ q" "map tolower n = host_name" "all_blank w1"
    "all_graph h" "h \<noteq> []" "all_blank w2" by blast
  have n5: "length n = 5" using arg_cong [OF p(2), of length] by simp
  let ?p1 = "h @ w2 @ CRLF @ q"
  have hg: "isgraph (hd ?p1)" using p(4,5) by (cases h) (auto simp: all_graph_def)
  have "drop 5 p = w1 @ ?p1" using p(1) n5 by simp
  then have d1: "dropWhile isblank (drop 5 p) = ?p1"
    using skip_blanks [OF p(3) _ blank_not_graph [OF hg]] p(5) by simp
  have d2: "dropWhile isgraph ?p1 = w2 @ CRLF @ q"
    using p(4) hd_blank_crlf [OF p(6), of q] by (intro run_unique) (auto simp: all_graph_def)
  have t: "map tolower (take 5 p) = host_name" using p(1,2) n5 by simp
  have z: "0 \<in> set (dropWhile isblank (drop 5 p))" using assms t by simp
  then have "0 \<in> set (dropWhile isgraph ?p1)" unfolding d1 by simp
  then have z2: "0 \<in> set (w2 @ CRLF @ q)" by (simp only: d2)
  have "end_of_line (w2 @ CRLF @ q) = Inr (True, q)" using p(6) end_of_line_iff [OF z2] by blast
  then show "parse_host p = Inr (True, q)"
    using assms t z hg by (simp add: parse_host_def terminated d1 d2)
qed

lemma run_blank: "\<exists>w. p = w @ dropWhile isblank p \<and> all_blank w"
  using run_split [of p isblank] unfolding all_blank_def by blast

lemma run_graph: "\<exists>w. p = w @ dropWhile isgraph p \<and> all_graph w \<and> w = takeWhile isgraph p"
  using run_split [of p isgraph] unfolding all_graph_def by blast

lemma tolower_blank: "isblank c \<Longrightarrow> tolower c = c"
  by (auto simp: isblank_def tolower_def)

lemma map_tolower_hd: "map tolower v = l \<Longrightarrow> l \<noteq> [] \<Longrightarrow> \<not> isblank (hd l) \<Longrightarrow> v \<noteq> [] \<and> \<not> isblank (hd v)"
  using tolower_blank by (cases v) auto

text \<open>A field name, blanks and a value given by a literal.\<close>

lemma value_at:
  assumes "map tolower n = nm" "all_blank w1" "map tolower v = l" "l \<noteq> []" "\<not> isblank (hd l)"
    "p = n @ w1 @ v @ r" "0 \<in> set p" "0 \<notin> set nm" "0 \<notin> set l"
  shows "map tolower (take (length nm) p) = nm" "dropWhile isblank (drop (length nm) p) = v @ r"
    "map tolower (take (length l) (v @ r)) = l" "drop (length l) (v @ r) = r" "0 \<in> set r" "0 \<in> set (v @ r)"
proof -
  have len: "length nm = length n" "length l = length v" using assms(1,3) by auto
  show t: "map tolower (take (length nm) p) = nm" using assms(1,6) len by simp
  have v: "v \<noteq> []" "\<not> isblank (hd v)" using map_tolower_hd [OF assms(3-5)] by simp_all
  have "drop (length nm) p = w1 @ v @ r" using assms(6) len by simp
  moreover have "dropWhile isblank (w1 @ v @ r) = v @ r" using v by (intro skip_blanks [OF assms(2)]) simp_all
  ultimately show d: "dropWhile isblank (drop (length nm) p) = v @ r" by simp
  show l: "map tolower (take (length l) (v @ r)) = l" "drop (length l) (v @ r) = r" using assms(3) len by simp_all
  have "0 \<in> set (drop (length nm) p)" using drop_literal(2) [OF assms(7) t assms(8)] .
  then have "0 \<in> set (dropWhile isblank (drop (length nm) p))" by simp
  then show z: "0 \<in> set (v @ r)" by (simp only: d)
  show "0 \<in> set r" using drop_literal(2) [OF z l(1) assms(9)] by (simp only: l(2))
qed

text \<open>A literal without CR is compared inside the line only.\<close>

lemma literal_in_line:
  assumes "13 \<notin> set lit"
  shows "map tolower (take (length lit) (l @ CRLF @ q)) = lit \<longleftrightarrow> map tolower (take (length lit) l) = lit"
  using assms
proof (induction lit arbitrary: l)
  case (Cons a lit)
  have "tolower 13 = 13" by (simp add: tolower_def)
  with Cons show ?case by (cases l) (auto simp: CRLF_def)
qed simp

lemma literal_0: "map tolower n = l \<Longrightarrow> 0 \<notin> set l \<Longrightarrow> 0 \<notin> set n"
  by (metis image_eqI list.set_map not_class_0(3))

lemma parse_hostI:
  assumes "0 \<in> set p" "p = n @ w1 @ h @ w2 @ CRLF @ q" "map tolower n = host_name" "all_blank w1" "all_graph h"
    "h \<noteq> []" "all_blank w2"
  shows "parse_host p = Inr (True, q)"
  unfolding parse_host_iff [OF assms(1)] by (intro exI conjI) (rule assms)+

lemma host_name_at:
  assumes "map tolower n = host_name"
  shows "map tolower (take 5 (n @ r)) = host_name"
proof -
  have "length n = 5" using assms crlf_host_props(4) by (metis length_map)
  then show ?thesis using assms by simp
qed

section \<open>Searching\<close>

lemma CRLFCRLF_eq: "CRLFCRLF = [13, 10, 13, 10]"
  by (simp add: CRLFCRLF_def CRLF_def)

lemma strstr_no_fault: "0 \<in> set p \<Longrightarrow> 0 \<notin> set l \<Longrightarrow> \<exists>s. strstr p l = Inr s"
  by (induction p l rule: strstr.induct) (auto simp: terminated)

text \<open>Searching for the end of the header.\<close>

lemma prefix_terminated:
  assumes "0 \<notin> set l"
  shows "take (length l) (b @ 0 # z) = l \<longleftrightarrow> prefix l b"
proof
  assume t: "take (length l) (b @ 0 # z) = l"
  have "length l \<le> length b"
  proof (rule ccontr)
    assume "\<not> length l \<le> length b"
    then have "0 \<in> set (take (length l) (b @ 0 # z))" by (cases "length l - length b") auto
    with t assms show False by simp
  qed
  then show "prefix l b" using t by (metis append_take_drop_id prefix_def take_append diff_is_0_eq take0 append_Nil2)
next
  assume "prefix l b"
  then show "take (length l) (b @ 0 # z) = l" by (auto simp: prefix_def)
qed

lemma strstr_sublist:
  assumes "0 \<notin> set b" "0 \<notin> set l" "l \<noteq> []"
  shows "\<exists>s. strstr (b @ 0 # z) l = Inr s \<and> (s \<noteq> None \<longleftrightarrow> sublist l b)"
  using assms(1)
proof (induction b)
  case Nil
  then show ?case
    using strncmp_iff [of "0 # z" l] prefix_terminated [of l "[]" z] assms(2,3) by auto
next
  case (Cons c b)
  have "starts_with (\<lambda>c. c) (c # b @ 0 # z) l = Inr (prefix l (c # b))"
    using strncmp_iff [of "c # b @ 0 # z" l] prefix_terminated [of l "c # b" z] assms(2) by simp
  then show ?case using Cons by (auto simp: sublist_Cons_right)
qed

lemma starts_with_prefix: "length k \<le> length p \<Longrightarrow> strncmp_lit p k = Inr (prefix k p)"
  by (induction "\<lambda>c :: u8. c" p k rule: starts_with.induct) auto

lemma strstr_found:
  assumes "0 \<notin> set h" "l \<noteq> []" "\<not> sublist l (butlast (h @ l))"
  shows "strstr (h @ l @ r) l = Inr (Some (l @ r))"
  using assms
proof (induction h)
  case Nil
  have "strncmp_lit (l @ r) l = Inr True" by (simp add: starts_with_prefix)
  then show ?case using Nil(2) by (cases "l @ r") simp_all
next
  case (Cons c h)
  have bl: "butlast ((c # h) @ l) = c # butlast (h @ l)" using Cons(3) by simp
  have "\<not> prefix l (c # h @ l @ r)"
  proof
    assume p: "prefix l (c # h @ l @ r)"
    obtain x where "h @ l = butlast (h @ l) @ [x]" using Cons(3) append_butlast_last_id [of "h @ l"] by (metis append_is_Nil_conv)
    then have "h @ l @ r = butlast (h @ l) @ x # r" by (metis append.assoc append_Cons append_Nil)
    then have "c # h @ l @ r = (c # butlast (h @ l)) @ x # r" by (simp only: append_Cons)
    then have "prefix (c # butlast (h @ l)) (c # h @ l @ r)" by (rule prefixI)
    from prefix_length_prefix [OF p this] have "prefix l (butlast ((c # h) @ l))" unfolding bl by simp
    with Cons(4) show False by (blast dest: prefix_imp_sublist)
  qed
  then have "strncmp_lit ((c # h) @ l @ r) l = Inr False" using starts_with_prefix [of l "c # h @ l @ r"] by simp
  moreover have "\<not> sublist l (butlast (h @ l))" using Cons(4) unfolding bl by (simp add: sublist_Cons_right)
  ultimately show ?case using Cons(1-3) by simp
qed

lemma strstr_somewhere:
  assumes "0 \<notin> set d" "sublist l d" "l \<noteq> []"
  shows "\<exists>h. strstr (d @ r) l = Inr (Some h)"
  using assms
proof (induction d)
  case (Cons c d)
  have len: "length l \<le> length ((c # d) @ r)" using Cons(3) sublist_length_le [of l "c # d"] by simp
  show ?case
  proof (cases "prefix l ((c # d) @ r)")
    case True
    then show ?thesis using starts_with_prefix [OF len] by simp
  next
    case False
    then have "\<not> prefix l (c # d)" using prefix_order.order_trans [of l "c # d" "(c # d) @ r"] by auto
    then have "sublist l d" using Cons(3) by (simp add: sublist_Cons_right)
    then show ?thesis using Cons False starts_with_prefix [OF len] by simp
  qed
qed simp

section \<open>Decimal numbers\<close>

lemma u8_of_nat: "n < 256 \<Longrightarrow> unat (of_nat n :: u8) = n"
  by (simp add: unsigned_of_nat take_bit_nat_eq_self)

lemma digit_byte:
  assumes "k < 10"
  shows "unat (0x30 + of_nat k :: u8) = 0x30 + k" "isdigit (0x30 + of_nat k)"
proof -
  show u: "unat (0x30 + of_nat k :: u8) = 0x30 + k"
    using assms u8_of_nat [of "0x30 + k"] by simp
  show "isdigit (0x30 + of_nat k)" using assms by (simp add: isdigit_def word_le_nat_alt u)
qed

lemma digit_class: "isdigit c \<Longrightarrow> isgraph c \<and> \<not> isblank c \<and> c \<noteq> 13 \<and> c \<noteq> 10 \<and> c \<noteq> 0"
  by (auto simp: isdigit_def isgraph_def isblank_def word_le_nat_alt)

lemma dec_chars: "c \<in> set (dec n) \<Longrightarrow> \<exists>k < 10. c = 0x30 + of_nat k"
proof (induction n rule: dec.induct)
  case (1 n)
  show ?case
  proof (cases "n < 10")
    case True
    then show ?thesis using 1(2) by (auto simp: dec.simps [of n])
  next
    case False
    then have "c \<in> set (dec (n div 10)) \<or> c = 0x30 + of_nat (n mod 10)" using 1(2) by (auto simp: dec.simps [of n])
    moreover have "n mod 10 < 10" by simp
    ultimately show ?thesis using 1(1) [OF False] by blast
  qed
qed

lemma dec_not_Nil [simp]: "dec n \<noteq> []"
  by (simp add: dec.simps [of n])

lemma dec_digits: "c \<in> set (dec n) \<Longrightarrow> isdigit c"
  using dec_chars digit_byte(2) by blast

end
