(* ===== verification/Http_Parser.thy ===== *)
theory Http_Parser
  imports Request_Lines
begin

text \<open>
  The request parser of the web server \<^verbatim>\<open>hw2/public/template/shttpd.c\<close>. A pointer into the
  buffer is the rest of the buffer; reading behind its end is an error branch, so is writing
  behind the end of \<open>url\<close>.
\<close>

section \<open>Data\<close>

definition MAX_HDR :: nat where "MAX_HDR = 1024"
definition MAX_URL :: nat where "MAX_URL = 1024"
datatype res_code = OK | BAD_REQUEST | FORBIDDEN | NOT_FOUND | INTERNAL_SERVER_ERROR

text \<open>\<open>KEEP_ALIVE\<close> is 0, what \<open>memset\<close> leaves.\<close>

datatype connection = KEEP_ALIVE | CLOSE

record http_request =
  url :: bytes
  keep_alive :: connection

definition zero_request :: http_request where
  "zero_request = \<lparr>url = replicate MAX_URL 0, keep_alive = KEEP_ALIVE\<rparr>"

text \<open>The literals of the source.\<close>

definition GET :: bytes where "GET = [0x47, 0x45, 0x54]"
definition HTTP_1_0 :: bytes where "HTTP_1_0 = [0x48, 0x54, 0x54, 0x50, 0x2f, 0x31, 0x2e, 0x30]"
definition HTTP_1_1 :: bytes where "HTTP_1_1 = [0x48, 0x54, 0x54, 0x50, 0x2f, 0x31, 0x2e, 0x31]"
definition connection_name :: bytes where
  "connection_name = [0x63, 0x6f, 0x6e, 0x6e, 0x65, 0x63, 0x74, 0x69, 0x6f, 0x6e, 0x3a]"
definition keep_alive_value :: bytes where
  "keep_alive_value = [0x6b, 0x65, 0x65, 0x70, 0x2d, 0x61, 0x6c, 0x69, 0x76, 0x65]"
definition close_value :: bytes where "close_value = [0x63, 0x6c, 0x6f, 0x73, 0x65]"

lemmas literal_defs = GET_def HTTP_1_0_def HTTP_1_1_def host_name_def connection_name_def
  keep_alive_value_def close_value_def CRLF_def

section \<open>The parser\<close>

fun copy_url :: "bytes \<Rightarrow> nat \<Rightarrow> http_request \<Rightarrow> (bytes \<times> http_request) result" where
  "copy_url [] i req = Inl Out_Of_Bounds"
| "copy_url (c # p) i req =
     (if isgraph c then
        if i < MAX_URL then copy_url p (i + 1) (req\<lparr>url := (url req)[i := c]\<rparr>) else Inl Out_Of_Bounds
      else Inr (c # p, req))"

definition http_version :: "bytes \<Rightarrow> connection option result" where
  "http_version p =
     rbind (strncmp_lit p HTTP_1_0) (\<lambda>v0.
       if v0 then Inr (Some CLOSE)
       else rbind (strncmp_lit p HTTP_1_1) (\<lambda>v1. Inr (if v1 then Some KEEP_ALIVE else None)))"

definition parse_first_line :: "bytes \<Rightarrow> http_request \<Rightarrow> (bool \<times> bytes \<times> http_request) result" where
  "parse_first_line p req =
     rbind (strncmp_lit p GET) (\<lambda>get.
       if \<not> get then Inr (False, p, req)
       else
         rbind (skip_blank (drop 3 p)) (\<lambda>p1.
         rbind (deref p1) (\<lambda>c.
           if c \<noteq> 0x2f then Inr (False, p1, req)
           else
             rbind (copy_url p1 0 req) (\<lambda>(p2, req1).
             rbind (skip_blank p2) (\<lambda>p3.
             rbind (http_version p3) (\<lambda>v.
               case v of
                 None \<Rightarrow> Inr (False, p3, req1)
               | Some k \<Rightarrow>
                   rbind (end_of_line (drop 8 p3)) (\<lambda>(ok, p4). Inr (ok, p4, req1\<lparr>keep_alive := k\<rparr>))))))))"

definition parse_connection :: "bytes \<Rightarrow> http_request \<Rightarrow> (bool \<times> bytes \<times> http_request) result" where
  "parse_connection p req =
     rbind (strncasecmp_lit p connection_name) (\<lambda>con.
       if \<not> con then Inr (False, p, req)
       else
         rbind (skip_blank (drop 11 p)) (\<lambda>p1.
         rbind (strncasecmp_lit p1 keep_alive_value) (\<lambda>ka.
           if ka then rbind (end_of_line (drop 10 p1)) (\<lambda>(ok, p2). Inr (ok, p2, req\<lparr>keep_alive := KEEP_ALIVE\<rparr>))
           else
             rbind (strncasecmp_lit p1 close_value) (\<lambda>cl.
               if cl then rbind (end_of_line (drop 5 p1)) (\<lambda>(ok, p2). Inr (ok, p2, req\<lparr>keep_alive := CLOSE\<rparr>))
               else Inr (False, p1, req)))))"

text \<open>One round of the loop over the header lines, up to the test for the empty line.\<close>

definition header_line :: "bytes \<Rightarrow> bool \<Rightarrow> http_request \<Rightarrow> (bool \<times> bytes \<times> bool \<times> http_request) result" where
  "header_line p host_parsed req =
     rbind (strncasecmp_lit p host_name) (\<lambda>host.
       if host then rbind (parse_host p) (\<lambda>(ok, q). Inr (ok, q, True, req))
       else rbind (strncasecmp_lit p connection_name) (\<lambda>con.
         if con then rbind (parse_connection p req) (\<lambda>(ok, q, req1). Inr (ok, q, host_parsed, req1))
         else rbind (strstr p CRLF) (\<lambda>s.
           case s of
             None \<Rightarrow> Inr (False, p, host_parsed, req)
           | Some q \<Rightarrow> Inr (True, drop 2 q, host_parsed, req))))"

text \<open>Every round that goes on has consumed something.\<close>

lemma header_line_consumes:
  assumes "header_line p h req = Inr (True, q, h', req')"
  shows "length q < length p"
proof -
  have host: "length q < length p" if "starts_with tolower p host_name = Inr True" "parse_host p = Inr (ok, q)" for ok q
    using that starts_with_length [of tolower p host_name]
    by (fastforce simp: parse_host_def rbind_eq_Inr_iff host_name_def split: if_splits
        dest!: skip_blank_length skip_graph_length end_of_line_length)
  have con: "length q < length p"
    if "starts_with tolower p connection_name = Inr True" "parse_connection p req = Inr (True, q, req')" for q req'
    using that starts_with_length [of tolower p connection_name]
    by (fastforce simp: parse_connection_def rbind_eq_Inr_iff connection_name_def split: if_splits
        dest!: skip_blank_length end_of_line_length)
  have other: "length (drop 2 q) < length p" if "strstr p CRLF = Inr (Some q)" for q
    using strstr_length [OF that] starts_with_length [of "\<lambda>c. c" q CRLF] by (auto simp: CRLF_def)
  show ?thesis
    using assms host con other
    by (auto simp: header_line_def rbind_eq_Inr_iff split: if_splits option.splits prod.splits)
qed

function header_loop :: "bytes \<Rightarrow> bool \<Rightarrow> http_request \<Rightarrow> (res_code \<times> http_request) result" where
  "header_loop p host_parsed req =
     rbind (header_line p host_parsed req) (\<lambda>(ok, q, host_parsed', req').
       if \<not> ok then Inr (BAD_REQUEST, req')
       else rbind (strncmp_lit q CRLF) (\<lambda>blank_line.
         if blank_line then Inr (if \<not> host_parsed' then BAD_REQUEST else OK, req')
         else header_loop q host_parsed' req'))"
  by auto
termination
  by (relation "measure (\<lambda>(p, h, req). length p)") (auto dest: header_line_consumes)

declare header_loop.simps [simp del]

definition parse_request :: "bytes \<Rightarrow> http_request \<Rightarrow> (res_code \<times> http_request) result" where
  "parse_request header_buf req =
     rbind (parse_first_line header_buf req) (\<lambda>(ok, p, req1).
       if \<not> ok then Inr (BAD_REQUEST, req1) else header_loop p False req1)"

end
