(* ===== verification/Http_Grammar.thy ===== *)
theory Http_Grammar
  imports Http_Parser
begin

text \<open>
  The requests that the parser of \<open>Http_Parser\<close> accepts, as a grammar, and that it reads no
  byte behind the terminating NUL and writes none behind \<open>url\<close>.
\<close>

section \<open>Literals and the URL\<close>

lemma literals_0 [simp]:
  "0 \<notin> set GET" "0 \<notin> set HTTP_1_0" "0 \<notin> set HTTP_1_1" "0 \<notin> set host_name" "0 \<notin> set connection_name"
  "0 \<notin> set keep_alive_value" "0 \<notin> set close_value" "0 \<notin> set CRLF"
  by (simp_all add: literal_defs)

lemma literals_length [simp]:
  "length GET = 3" "length HTTP_1_0 = 8" "length HTTP_1_1 = 8" "length host_name = 5" "length connection_name = 11"
  "length keep_alive_value = 10" "length close_value = 5" "length CRLF = 2"
  by (simp_all add: literal_defs)

lemma copy_url_eq [terminated]:
  assumes "0 \<in> set p" "i + length (takeWhile isgraph p) \<le> MAX_URL" "length (url req) = MAX_URL"
  shows "copy_url p i req = Inr (dropWhile isgraph p, req\<lparr>url := put i (takeWhile isgraph p) (url req)\<rparr>)"
  using assms
proof (induction p i req rule: copy_url.induct)
  case (2 c p i req)
  show ?case
  proof (cases "isgraph c")
    case True
    have "put (i + 1) u ((url req)[i := c]) = put i (c # u) (url req)" if "i + 1 + length u \<le> MAX_URL" for u
      using that 2(4) by (simp add: put_def upd_conv_take_nth_drop drop_update_cancel min_absorb2 add.commute)
    then show ?thesis using 2 True by (auto simp: Suc_le_eq)
  qed (simp add: put_def)
qed simp

section \<open>The grammar\<close>

inductive request_line :: "bytes \<Rightarrow> bytes \<Rightarrow> connection \<Rightarrow> bool" where
  "\<lbrakk>all_blank w1; all_graph u; hd (u @ [0]) = 0x2f; all_blank w2; w2 \<noteq> []; all_blank w3;
    v = HTTP_1_0 \<and> k = CLOSE \<or> v = HTTP_1_1 \<and> k = KEEP_ALIVE\<rbrakk>
   \<Longrightarrow> request_line (GET @ w1 @ u @ w2 @ v @ w3 @ CRLF) u k"

text \<open>A header line: its bytes, whether it is a Host header, and what it says of the connection.\<close>

inductive header :: "bytes \<Rightarrow> bool \<Rightarrow> connection option \<Rightarrow> bool" where
  host: "\<lbrakk>map tolower n = host_name; all_blank w1; all_graph h; h \<noteq> []; all_blank w2\<rbrakk>
    \<Longrightarrow> header (n @ w1 @ h @ w2 @ CRLF) True None"
| connection: "\<lbrakk>map tolower n = connection_name; all_blank w1; all_blank w2;
    map tolower v = keep_alive_value \<and> k = KEEP_ALIVE \<or> map tolower v = close_value \<and> k = CLOSE\<rbrakk>
    \<Longrightarrow> header (n @ w1 @ v @ w2 @ CRLF) False (Some k)"
| other: "\<lbrakk>0 \<notin> set l; no_crlf l; map tolower (take 5 l) \<noteq> host_name;
    map tolower (take 11 l) \<noteq> connection_name\<rbrakk> \<Longrightarrow> header (l @ CRLF) False None"

inductive_cases headerE: "header line h k"
inductive_cases request_lineE: "request_line line u k"

lemma parse_connection_iff:
  assumes "0 \<in> set p"
  shows "parse_connection p req = Inr (True, q, req') \<longleftrightarrow>
    (\<exists>n w1 v w2 k. p = n @ w1 @ v @ w2 @ CRLF @ q \<and> map tolower n = connection_name \<and> all_blank w1 \<and> all_blank w2 \<and>
       (map tolower v = keep_alive_value \<and> k = KEEP_ALIVE \<or> map tolower v = close_value \<and> k = CLOSE) \<and>
       req' = req\<lparr>keep_alive := k\<rparr>)" (is "_ \<longleftrightarrow> ?grammar")
proof
  assume a: "parse_connection p req = Inr (True, q, req')"
  then have n: "map tolower (take 11 p) = connection_name"
    using assms by (simp add: parse_connection_def terminated split: if_splits)
  define p1 where "p1 = dropWhile isblank (drop 11 p)"
  have p1: "0 \<in> set p1" using assms n by (simp add: p1_def)
  obtain w1 where w1: "drop 11 p = w1 @ p1" "all_blank w1" unfolding p1_def using run_blank by metis
  have rest: "?grammar" if v: "map tolower (take i p1) = l" "0 \<notin> set l" "end_of_line (drop i p1) = Inr (True, q)"
      "l = keep_alive_value \<and> k = KEEP_ALIVE \<or> l = close_value \<and> k = CLOSE" "req' = req\<lparr>keep_alive := k\<rparr>" for i l k
  proof -
    have "0 \<in> set (drop i p1)" using drop_literal(2) [OF p1 v(1,2)] .
    then obtain w2 where w2: "all_blank w2" "drop i p1 = w2 @ CRLF @ q" using v(3) end_of_line_iff by blast
    have "p = take 11 p @ w1 @ take i p1 @ w2 @ CRLF @ q" using w1(1) w2(2) by (metis append_take_drop_id)
    then show ?thesis using n w1(2) w2(1) v by blast
  qed
  show ?grammar
  proof (cases "map tolower (take 10 p1) = keep_alive_value")
    case True
    then have "end_of_line (drop 10 p1) = Inr (True, q) \<and> req' = req\<lparr>keep_alive := KEEP_ALIVE\<rparr>"
      using a assms n p1 by (auto simp: parse_connection_def terminated p1_def [symmetric] rbind_eq_Inr_iff)
    then show ?thesis using rest [OF True] by simp
  next
    case False
    then have c: "map tolower (take 5 p1) = close_value"
      using a assms n p1 by (auto simp: parse_connection_def terminated p1_def [symmetric] split: if_splits)
    then have "end_of_line (drop 5 p1) = Inr (True, q) \<and> req' = req\<lparr>keep_alive := CLOSE\<rparr>"
      using a assms n p1 False by (auto simp: parse_connection_def terminated p1_def [symmetric] rbind_eq_Inr_iff)
    then show ?thesis using rest [OF c] by simp
  qed
next
  assume ?grammar
  then obtain n w1 v w2 k where p: "p = n @ w1 @ v @ w2 @ CRLF @ q" "map tolower n = connection_name" "all_blank w1"
    "all_blank w2" "map tolower v = keep_alive_value \<and> k = KEEP_ALIVE \<or> map tolower v = close_value \<and> k = CLOSE"
    "req' = req\<lparr>keep_alive := k\<rparr>" by blast
  have lits: "keep_alive_value \<noteq> []" "\<not> isblank (hd keep_alive_value)" "close_value \<noteq> []" "\<not> isblank (hd close_value)"
    by (simp_all add: literal_defs isblank_def)
  from p(5) show "parse_connection p req = Inr (True, q, req')"
  proof (elim disjE conjE)
    assume v: "map tolower v = keep_alive_value" "k = KEEP_ALIVE"
    note at = value_at [OF p(2,3) v(1) lits(1,2) p(1) assms]
    have "end_of_line (w2 @ CRLF @ q) = Inr (True, q)" using p(4) at(5) end_of_line_iff by auto
    then show ?thesis using assms p(6) v(2) at by (simp add: parse_connection_def terminated)
  next
    assume v: "map tolower v = close_value" "k = CLOSE"
    note at = value_at [OF p(2,3) v(1) lits(3,4) p(1) assms]
    have "map tolower (take 10 (v @ w2 @ CRLF @ q)) \<noteq> keep_alive_value"
      using v(1) by (cases v) (auto simp: literal_defs)
    moreover have "end_of_line (w2 @ CRLF @ q) = Inr (True, q)" using p(4) at(5) end_of_line_iff by auto
    ultimately show ?thesis using assms p(6) v(2) at by (simp add: parse_connection_def terminated)
  qed
qed

lemma http_version_eq [terminated]:
  "0 \<in> set p \<Longrightarrow> http_version p =
     Inr (if take 8 p = HTTP_1_0 then Some CLOSE else if take 8 p = HTTP_1_1 then Some KEEP_ALIVE else None)"
  by (simp add: http_version_def terminated)

lemma copy_at:
  assumes "0 \<in> set p" "p = GET @ w1 @ p1" "all_blank w1" "c_strlen p \<le> MAX_URL" "length (url req) = MAX_URL"
  shows "copy_url p1 0 req = Inr (dropWhile isgraph p1, req\<lparr>url := put 0 (takeWhile isgraph p1) (url req)\<rparr>)"
proof -
  have "c_strlen p = 3 + length w1 + c_strlen p1"
    using c_strlen_suffix [of "GET @ w1" p1] blank_0 [OF assms(3)] assms(2) by simp
  then have "length (takeWhile isgraph p1) \<le> MAX_URL" using graph_in_string [of p1] assms(4) by simp
  moreover have "0 \<in> set p1" using assms(1,2) blank_0 [OF assms(3)] by auto
  ultimately show ?thesis using assms(5) by (simp add: copy_url_eq)
qed

lemma parse_first_line_iff:
  assumes "0 \<in> set p" "c_strlen p \<le> MAX_URL" "length (url req) = MAX_URL"
  shows "parse_first_line p req = Inr (True, q, req') \<longleftrightarrow>
    (\<exists>line u k. p = line @ q \<and> request_line line u k \<and> req' = req\<lparr>url := put 0 u (url req), keep_alive := k\<rparr>)"
proof
  assume a: "parse_first_line p req = Inr (True, q, req')"
  then have g: "take 3 p = GET" using assms by (simp add: parse_first_line_def terminated split: if_splits)
  define p1 where "p1 = dropWhile isblank (drop 3 p)"
  have p1: "0 \<in> set p1" using assms g by (simp add: p1_def)
  obtain w1 where w1: "drop 3 p = w1 @ p1" "all_blank w1" unfolding p1_def using run_blank by metis
  have pw: "p = GET @ w1 @ p1" using g w1(1) by (metis append_take_drop_id)
  note cp = copy_at [OF assms(1) pw w1(2) assms(2,3)]
  define p2 where "p2 = dropWhile isgraph p1"
  obtain u where u: "p1 = u @ p2" "all_graph u" "u = takeWhile isgraph p1"
    unfolding p2_def using run_graph by metis
  define p3 where "p3 = dropWhile isblank p2"
  have p23: "0 \<in> set p2" "0 \<in> set p3" using p1 by (simp_all add: p2_def p3_def)
  obtain w2 where w2: "p2 = w2 @ p3" "all_blank w2" unfolding p3_def using run_blank by metis
  have slash: "hd p1 = 0x2f"
    using a assms g p1 by (auto simp: parse_first_line_def terminated p1_def [symmetric] split: if_splits)
  have a3: "rbind (http_version p3) (\<lambda>v. case v of None \<Rightarrow> Inr (False, p3, req\<lparr>url := put 0 u (url req)\<rparr>)
      | Some k \<Rightarrow> rbind (end_of_line (drop 8 p3))
          (\<lambda>(ok, p4). Inr (ok, p4, req\<lparr>url := put 0 u (url req), keep_alive := k\<rparr>))) = Inr (True, q, req')"
    using a assms g p1 p23 slash cp
    by (simp add: parse_first_line_def terminated p1_def [symmetric] p2_def [symmetric] p3_def [symmetric] u(3) [symmetric])
  obtain v k where v: "take 8 p3 = v" "v = HTTP_1_0 \<and> k = CLOSE \<or> v = HTTP_1_1 \<and> k = KEEP_ALIVE"
      "end_of_line (drop 8 p3) = Inr (True, q)" "req' = req\<lparr>url := put 0 u (url req), keep_alive := k\<rparr>"
  proof (cases "take 8 p3 = HTTP_1_0")
    case True
    then show ?thesis using a3 p23 that [of HTTP_1_0 CLOSE] by (auto simp: http_version_eq rbind_eq_Inr_iff)
  next
    case False
    then show ?thesis
      using a3 p23 that [of HTTP_1_1 KEEP_ALIVE] by (auto simp: http_version_eq rbind_eq_Inr_iff split: if_splits)
  qed
  have "0 \<in> set (drop 8 p3)" using drop_literal(1) [OF p23(2) v(1)] v(2) by auto
  then obtain w3 where w3: "all_blank w3" "drop 8 p3 = w3 @ CRLF @ q" using v(3) end_of_line_iff by blast
  have "isgraph (hd p3)" using v(1,2) p23(2) by (cases p3) (auto simp: literal_defs isgraph_def)
  moreover have "\<not> isgraph (hd p2)" using p23(1) hd_dropWhile [of isgraph p1] by (fastforce simp: p2_def)
  ultimately have "w2 \<noteq> []" using w2(1) by auto
  moreover have "hd (u @ [0]) = 0x2f"
  proof -
    have "isgraph 0x2f" by (simp add: isgraph_def)
    then show ?thesis using slash u(3) p1 by (cases p1) auto
  qed
  ultimately have "request_line (GET @ w1 @ u @ w2 @ v @ w3 @ CRLF) u k"
    using w1(2) u(2) w2(2) w3(1) v(2) by (intro request_line.intros)
  moreover have "p = (GET @ w1 @ u @ w2 @ v @ w3 @ CRLF) @ q"
    using pw u(1) w2(1) w3(2) v(1) append_take_drop_id [of 8 p3] by simp
  ultimately show "\<exists>line u k. p = line @ q \<and> request_line line u k \<and>
      req' = req\<lparr>url := put 0 u (url req), keep_alive := k\<rparr>" using v(4) by blast
next
  assume "\<exists>line u k. p = line @ q \<and> request_line line u k \<and> req' = req\<lparr>url := put 0 u (url req), keep_alive := k\<rparr>"
  then obtain line u k where l: "p = line @ q" "request_line line u k"
    "req' = req\<lparr>url := put 0 u (url req), keep_alive := k\<rparr>" by blast
  from l(2) obtain w1 w2 v w3 where p: "line = GET @ w1 @ u @ w2 @ v @ w3 @ CRLF" "all_blank w1" "all_graph u"
    "hd (u @ [0]) = 0x2f" "all_blank w2" "w2 \<noteq> []" "all_blank w3"
    "v = HTTP_1_0 \<and> k = CLOSE \<or> v = HTTP_1_1 \<and> k = KEEP_ALIVE" by (rule request_lineE)
  have u: "u \<noteq> []" "hd u = 0x2f" using p(4) by (cases u; simp)+
  define p3 where "p3 = v @ w3 @ CRLF @ q"
  define p1 where "p1 = u @ w2 @ p3"
  have pw: "p = GET @ w1 @ p1" using l(1) p(1) by (simp add: p1_def p3_def)
  have g: "take 3 p = GET" "drop 3 p = w1 @ p1" using pw by simp_all
  have hd1: "p1 \<noteq> []" "hd p1 = 0x2f" using u by (auto simp: p1_def)
  then have d1: "dropWhile isblank (w1 @ p1) = p1" using p(2) by (intro skip_blanks) (simp_all add: isblank_def)
  have hdv: "p3 \<noteq> []" "isgraph (hd p3)" using p(8) by (auto simp: p3_def literal_defs isgraph_def)
  have ng: "\<not> isgraph (hd (w2 @ p3))" using p(5,6) by (cases w2) (auto simp: all_blank_def dest: blank_not_graph)
  have gu: "\<forall>c \<in> set u. isgraph c" "w2 @ p3 \<noteq> []" using p(3,6) by (simp_all add: all_graph_def)
  note d2 = run_unique [OF gu ng, folded p1_def]
  have d3: "dropWhile isblank (w2 @ p3) = p3" using hdv blank_not_graph p(5) by (intro skip_blanks) auto
  have z0: "0 \<in> set (drop 3 p)" using drop_literal(1) [OF assms(1) g(1)] by simp
  have z1: "0 \<in> set p1" using z0 g(2) blank_0 [OF p(2)] by simp
  then have z2: "0 \<in> set (w2 @ p3)" using graph_0 [OF p(3)] by (simp add: p1_def)
  then have z3: "0 \<in> set p3" using blank_0 [OF p(5)] by simp
  have v: "take 8 p3 = v" "drop 8 p3 = w3 @ CRLF @ q" using p(8) by (auto simp: p3_def)
  have z4: "0 \<in> set (w3 @ CRLF @ q)" using drop_literal(1) [OF z3 v(1)] p(8) v(2) by auto
  have e: "end_of_line (w3 @ CRLF @ q) = Inr (True, q)" using end_of_line_iff [OF z4] p(7) by blast
  have ver: "http_version p3 = Inr (Some k)" using z3 v(1) p(8) by (auto simp: http_version_eq literal_defs)
  have z1': "0 \<in> set (w1 @ p1)" using z1 by simp
  note cp = copy_at [OF assms(1) pw p(2) assms(2,3), unfolded d2]
  show "parse_first_line p req = Inr (True, q, req')"
    unfolding parse_first_line_def strncmp_iff [OF assms(1) literals_0(1)] literals_length g rbind_simps
      skip_blank_eq [OF z1'] d1 deref_eq [OF z1] hd1(2) cp prod.case skip_blank_eq [OF z2] d3 ver option.case v(2) e
    by (simp add: l(3))
qed

lemma names_no_cr: "13 \<notin> set host_name" "13 \<notin> set connection_name"
  by (simp_all add: literal_defs)

lemma in_line:
  "map tolower (take 5 (l @ CRLF @ q)) = host_name \<longleftrightarrow> map tolower (take 5 l) = host_name"
  "map tolower (take 11 (l @ CRLF @ q)) = connection_name \<longleftrightarrow> map tolower (take 11 l) = connection_name"
  using literal_in_line [OF names_no_cr(1), of l q] literal_in_line [OF names_no_cr(2), of l q] by simp_all

definition set_connection :: "connection option \<Rightarrow> http_request \<Rightarrow> http_request" where
  "set_connection c req = (case c of None \<Rightarrow> req | Some k \<Rightarrow> req\<lparr>keep_alive := k\<rparr>)"

lemma names_differ: "map tolower (take 5 p) = host_name \<Longrightarrow> map tolower (take 11 p) \<noteq> connection_name"
  by (cases p) (auto simp: literal_defs)

lemma keep_alive_inject [simp]: "req\<lparr>keep_alive := k\<rparr> = req\<lparr>keep_alive := k'\<rparr> \<longleftrightarrow> k = k'"
  by (cases req) simp

lemma parse_hostE:
  assumes "parse_host p = Inr (True, q)" "0 \<in> set p"
  obtains line where "p = line @ q" "header line True None"
proof -
  obtain n w1 h w2 where n: "p = n @ w1 @ h @ w2 @ CRLF @ q" "map tolower n = host_name" "all_blank w1"
    "all_graph h" "h \<noteq> []" "all_blank w2" using assms(1) unfolding parse_host_iff [OF assms(2)] by (elim exE conjE)
  have "p = (n @ w1 @ h @ w2 @ CRLF) @ q" using n(1) by simp
  then show thesis using header.host [OF n(2-6)] by (rule that)
qed

lemma parse_connectionI:
  assumes "0 \<in> set p" "p = n @ w1 @ v @ w2 @ CRLF @ q" "map tolower n = connection_name" "all_blank w1" "all_blank w2"
    "map tolower v = keep_alive_value \<and> k = KEEP_ALIVE \<or> map tolower v = close_value \<and> k = CLOSE"
  shows "parse_connection p req = Inr (True, q, req\<lparr>keep_alive := k\<rparr>)"
  unfolding parse_connection_iff [OF assms(1)] by (intro exI conjI) (rule assms refl)+

lemma parse_connectionE:
  assumes "parse_connection p req = Inr (True, q, req')" "0 \<in> set p"
  obtains line k where "p = line @ q" "header line False (Some k)" "req' = req\<lparr>keep_alive := k\<rparr>"
proof -
  obtain n w1 v w2 k where n: "p = n @ w1 @ v @ w2 @ CRLF @ q" "map tolower n = connection_name" "all_blank w1"
    "all_blank w2" "map tolower v = keep_alive_value \<and> k = KEEP_ALIVE \<or> map tolower v = close_value \<and> k = CLOSE"
    "req' = req\<lparr>keep_alive := k\<rparr>" using assms(1) unfolding parse_connection_iff [OF assms(2)] by (elim exE conjE)
  have "p = (n @ w1 @ v @ w2 @ CRLF) @ q" using n(1) by simp
  then show thesis using header.connection [OF n(2-5)] n(6) by (rule that)
qed

lemma parse_connection_keep:
  assumes "parse_connection p req = Inr (True, q, req')" "0 \<in> set p"
  shows "\<exists>k. req' = req\<lparr>keep_alive := k\<rparr>"
  using assms by (rule parse_connectionE) (rule exI)

text \<open>Which kind of line the grammar reads at a place.\<close>

definition line_at :: "bytes \<Rightarrow> bytes \<Rightarrow> bool \<Rightarrow> connection option \<Rightarrow> bool" where
  "line_at p q is_host c \<longleftrightarrow> (\<exists>line. p = line @ q \<and> header line is_host c)"

lemma connection_name_at:
  assumes "map tolower n = connection_name"
  shows "map tolower (take 11 (n @ r)) = connection_name"
proof -
  have "length n = 11" using assms literals_length(5) by (metis length_map)
  then show ?thesis using assms by simp
qed

lemma header_at_other:
  "header line is_host c \<Longrightarrow> map tolower (take 5 (line @ q)) \<noteq> host_name \<Longrightarrow>
     map tolower (take 11 (line @ q)) \<noteq> connection_name \<Longrightarrow>
     \<exists>l. line = l @ CRLF \<and> \<not> is_host \<and> c = None \<and> 0 \<notin> set l \<and> no_crlf l"
proof (induction rule: header.induct)
  case (host n w1 h w2)
  then show ?case using host_name_at [of n "w1 @ h @ w2 @ CRLF @ q"] by simp
next
  case (connection n w1 w2 v k)
  then show ?case using connection_name_at [of n "w1 @ v @ w2 @ CRLF @ q"] by simp
qed simp

lemma line_at_host:
  assumes "0 \<in> set p" "map tolower (take 5 p) = host_name"
  shows "line_at p q is_host c \<longleftrightarrow> parse_host p = Inr (True, q) \<and> is_host \<and> c = None"
proof
  assume "line_at p q is_host c"
  then obtain line where g: "p = line @ q" and "header line is_host c" by (auto simp: line_at_def)
  from this(2) show "parse_host p = Inr (True, q) \<and> is_host \<and> c = None"
  proof (cases rule: header.cases)
    case (host n w1 v w2)
    have "p = n @ w1 @ v @ w2 @ CRLF @ q" using g host(1) by simp
    from parse_hostI [OF assms(1) this host(4-8)] host(2,3) show ?thesis by simp
  next
    case (connection n w1 w2 v k)
    have "map tolower (take 11 p) = connection_name"
      unfolding g connection(1) append.assoc by (rule connection_name_at [OF connection(4)])
    with names_differ [OF assms(2)] show ?thesis by simp
  next
    case (other l)
    have "map tolower (take 5 p) \<noteq> host_name"
      unfolding g other(1) append.assoc in_line(1) by (rule other(6))
    with assms(2) show ?thesis by simp
  qed
next
  assume a: "parse_host p = Inr (True, q) \<and> is_host \<and> c = None"
  then show "line_at p q is_host c" unfolding line_at_def using parse_hostE [OF _ assms(1)] by metis
qed

lemma line_at_connection:
  assumes "0 \<in> set p" "map tolower (take 11 p) = connection_name"
  shows "line_at p q is_host c \<longleftrightarrow>
    (\<exists>k. parse_connection p req = Inr (True, q, req\<lparr>keep_alive := k\<rparr>) \<and> \<not> is_host \<and> c = Some k)"
proof
  assume "line_at p q is_host c"
  then obtain line where g: "p = line @ q" and "header line is_host c" by (auto simp: line_at_def)
  from this(2) show "\<exists>k. parse_connection p req = Inr (True, q, req\<lparr>keep_alive := k\<rparr>) \<and> \<not> is_host \<and> c = Some k"
  proof (cases rule: header.cases)
    case (host n w1 v w2)
    have "map tolower (take 5 p) = host_name"
      unfolding g host(1) append.assoc by (rule host_name_at [OF host(4)])
    with names_differ assms(2) show ?thesis by blast
  next
    case (connection n w1 w2 v k)
    have "p = n @ w1 @ v @ w2 @ CRLF @ q" using g connection(1) by simp
    from parse_connectionI [OF assms(1) this connection(4-7)] connection(2,3) show ?thesis by blast
  next
    case (other l)
    have "map tolower (take 11 p) \<noteq> connection_name"
      unfolding g other(1) append.assoc in_line(2) by (rule other(7))
    with assms(2) show ?thesis by simp
  qed
next
  assume "\<exists>k. parse_connection p req = Inr (True, q, req\<lparr>keep_alive := k\<rparr>) \<and> \<not> is_host \<and> c = Some k"
  then obtain k where a: "parse_connection p req = Inr (True, q, req\<lparr>keep_alive := k\<rparr>)" "\<not> is_host" "c = Some k" by blast
  obtain line k' where "p = line @ q" "header line False (Some k')" "req\<lparr>keep_alive := k\<rparr> = req\<lparr>keep_alive := k'\<rparr>"
    using parse_connectionE [OF a(1) assms(1)] .
  then show "line_at p q is_host c" unfolding line_at_def using a(2,3) by auto
qed

lemma line_at_other:
  assumes "0 \<in> set p" "map tolower (take 5 p) \<noteq> host_name" "map tolower (take 11 p) \<noteq> connection_name"
  shows "line_at p q is_host c \<longleftrightarrow>
    (\<exists>r. strstr p CRLF = Inr (Some r) \<and> q = drop 2 r) \<and> \<not> is_host \<and> c = None"
proof
  assume "line_at p q is_host c"
  then obtain line where g: "p = line @ q" and h: "header line is_host c" by (auto simp: line_at_def)
  obtain l where l: "line = l @ CRLF" "\<not> is_host" "c = None" "0 \<notin> set l" "no_crlf l"
    using header_at_other [OF h assms(2,3) [unfolded g]] by (elim exE conjE)
  have "p = l @ CRLF @ q" using g l(1) by simp
  then have "first_crlf p (CRLF @ q)" unfolding first_crlf_def using l(4,5) by (intro exI conjI) (assumption | rule refl)+
  then have "strstr p CRLF = Inr (Some (CRLF @ q))" by (simp only: strstr_first [OF assms(1)])
  moreover have "q = drop 2 (CRLF @ q)" by simp
  ultimately have "\<exists>r. strstr p CRLF = Inr (Some r) \<and> q = drop 2 r" by (intro exI conjI)
  with l(2,3) show "(\<exists>r. strstr p CRLF = Inr (Some r) \<and> q = drop 2 r) \<and> \<not> is_host \<and> c = None" by simp
next
  assume "(\<exists>r. strstr p CRLF = Inr (Some r) \<and> q = drop 2 r) \<and> \<not> is_host \<and> c = None"
  then obtain r where r: "first_crlf p r" "q = drop 2 r" "\<not> is_host" "c = None"
    unfolding strstr_first [OF assms(1)] by (elim exE conjE)
  then obtain l where l: "p = l @ CRLF @ q" "0 \<notin> set l" "no_crlf l" by (auto simp: first_crlf_def)
  have "map tolower (take 5 l) \<noteq> host_name" "map tolower (take 11 l) \<noteq> connection_name"
    using assms(2,3) unfolding l(1) in_line .
  then have "header (l @ CRLF) False None" by (rule header.other [OF l(2,3)])
  then have "header (l @ CRLF) is_host c" using r(3,4) by simp
  moreover have "p = (l @ CRLF) @ q" using l(1) by simp
  ultimately show "line_at p q is_host c" unfolding line_at_def by (intro exI conjI)
qed

lemma header_line_iff:
  assumes "0 \<in> set p"
  shows "header_line p h req = Inr (True, q, h', req') \<longleftrightarrow>
    (\<exists>is_host c. line_at p q is_host c \<and> h' = (h \<or> is_host) \<and> req' = set_connection c req)"
proof -
  note names = strncasecmp_iff [OF assms literals_0(4)] strncasecmp_iff [OF assms literals_0(5)]
  consider "map tolower (take 5 p) = host_name"
    | "map tolower (take 11 p) = connection_name" "map tolower (take 5 p) \<noteq> host_name"
    | "map tolower (take 5 p) \<noteq> host_name" "map tolower (take 11 p) \<noteq> connection_name" by blast
  then show ?thesis
  proof cases
    case 1
    then have "header_line p h req = rbind (parse_host p) (\<lambda>(ok, q). Inr (ok, q, True, req))"
      by (simp add: header_line_def names)
    then have "header_line p h req = Inr (True, q, h', req') \<longleftrightarrow> parse_host p = Inr (True, q) \<and> h' \<and> req' = req"
      by (cases "parse_host p") auto
    then show ?thesis unfolding line_at_host [OF assms 1] by (auto simp: set_connection_def)
  next
    case 2
    then have "header_line p h req = rbind (parse_connection p req) (\<lambda>(ok, q, req1). Inr (ok, q, h, req1))"
      by (simp add: header_line_def names)
    then have "header_line p h req = Inr (True, q, h', req') \<longleftrightarrow>
        parse_connection p req = Inr (True, q, req') \<and> h' = h" by (cases "parse_connection p req") auto
    also have "\<dots> \<longleftrightarrow> (\<exists>k. parse_connection p req = Inr (True, q, req\<lparr>keep_alive := k\<rparr>) \<and> req' = req\<lparr>keep_alive := k\<rparr>) \<and> h' = h"
      using parse_connection_keep [OF _ assms, of req q req'] by auto
    finally have "header_line p h req = Inr (True, q, h', req') \<longleftrightarrow>
      (\<exists>k. parse_connection p req = Inr (True, q, req\<lparr>keep_alive := k\<rparr>) \<and> req' = req\<lparr>keep_alive := k\<rparr>) \<and> h' = h" .
    then show ?thesis
      unfolding line_at_connection [OF assms 2(1), of q _ _ req] by (auto simp: set_connection_def)
  next
    case 3
    obtain s where s: "strstr p CRLF = Inr s" using strstr_total [OF assms] by blast
    have "header_line p h req = (case s of None \<Rightarrow> Inr (False, p, h, req) | Some q \<Rightarrow> Inr (True, drop 2 q, h, req))"
      using 3 by (simp add: header_line_def names s)
    then have "header_line p h req = Inr (True, q, h', req') \<longleftrightarrow> (\<exists>r. s = Some r \<and> q = drop 2 r) \<and> h' = h \<and> req' = req"
      by (cases s) auto
    then show ?thesis
      unfolding line_at_other [OF assms 3] s by (auto simp: set_connection_def)
  qed
qed

lemma header_0: "header line b c \<Longrightarrow> 0 \<notin> set line"
proof (induction rule: header.induct)
  case (host n w1 h w2)
  then show ?case using literal_0 [OF host(1)] blank_0 graph_0 by simp
next
  case (connection n w1 w2 v k)
  then have "0 \<notin> set v"
    using literal_0 [of v keep_alive_value] literal_0 [of v close_value] literals_0(6,7) by blast
  with connection show ?case using literal_0 [OF connection(1)] blank_0 by simp
qed simp

text \<open>The header lines up to the empty line: the first line may be empty itself, because the
  loop looks for the empty line only behind a line.\<close>

inductive headers :: "bytes \<Rightarrow> (bool \<times> connection option) list \<Rightarrow> bool" where
  last_line: "header line b c \<Longrightarrow> headers (line @ CRLF) [(b, c)]"
| more: "header line b c \<Longrightarrow> headers block hs \<Longrightarrow> take 2 block \<noteq> CRLF \<Longrightarrow> headers (line @ block) ((b, c) # hs)"

lemma header_length: "header line b c \<Longrightarrow> 2 \<le> length line"
  by (induction rule: header.induct) simp_all

lemma headers_length: "headers block hs \<Longrightarrow> 2 \<le> length block"
  by (induction rule: headers.induct) (auto dest: header_length)

abbreviation with_headers :: "(bool \<times> connection option) list \<Rightarrow> http_request \<Rightarrow> http_request" where
  "with_headers hs \<equiv> fold (\<lambda>(b, c). set_connection c) hs"

lemma header_step:
  assumes "0 \<in> set p" "header_line p h req = Inr (True, q, h', req1)"
  shows "0 \<in> set q" "header_loop p h req =
    (if take 2 q = CRLF then Inr (if h' then OK else BAD_REQUEST, req1) else header_loop q h' req1)"
proof -
  obtain line b c where l: "p = line @ q" "header line b c"
    using assms(2) unfolding header_line_iff [OF assms(1)] line_at_def by blast
  show z: "0 \<in> set q" using assms(1) l header_0 by auto
  show "header_loop p h req =
    (if take 2 q = CRLF then Inr (if h' then OK else BAD_REQUEST, req1) else header_loop q h' req1)"
    using assms(2) strncmp_iff [OF z literals_0(8)] by (simp add: header_loop.simps [of p])
qed

lemma headers_accepted:
  assumes "headers block hs" "0 \<in> set (block @ rest)" "h \<or> (\<exists>(b, c) \<in> set hs. b)"
  shows "header_loop (block @ rest) h req = Inr (OK, with_headers hs req)"
  using assms
proof (induction arbitrary: h req rule: headers.induct)
  case (last_line line b c)
  let ?p = "(line @ CRLF) @ rest"
  have "line_at ?p (CRLF @ rest) b c" unfolding line_at_def using last_line(1) by auto
  then have "header_line ?p h req = Inr (True, CRLF @ rest, h \<or> b, set_connection c req)"
    using header_line_iff [OF last_line(2)] by blast
  from header_step [OF last_line(2) this] last_line(3) show ?case by auto
next
  case (more line b c block hs)
  let ?p = "(line @ block) @ rest"
  have "line_at ?p (block @ rest) b c" unfolding line_at_def using more(1) by auto
  then have "header_line ?p h req = Inr (True, block @ rest, h \<or> b, set_connection c req)"
    using header_line_iff [OF more(5)] by blast
  note step = header_step [OF more(5) this]
  have "take 2 (block @ rest) \<noteq> CRLF" using more(3) headers_length [OF more(2)] by simp
  then show ?case using step more(4) [OF step(1)] more(6) by auto
qed

lemma loop_sound:
  assumes "header_loop p h req = Inr (OK, req')" "0 \<in> set p"
  shows "\<exists>block hs rest. p = block @ rest \<and> headers block hs \<and> (h \<or> (\<exists>(b, c) \<in> set hs. b)) \<and> req' = with_headers hs req"
  using assms
proof (induction p h req rule: header_loop.induct)
  case (1 p h req)
  obtain q h' req1 where l: "header_line p h req = Inr (True, q, h', req1)"
    using 1(2) by (auto simp: header_loop.simps [of p] rbind_eq_Inr_iff split: if_splits)
  then obtain line b c where line: "p = line @ q" "header line b c" "h' = (h \<or> b)" "req1 = set_connection c req"
    unfolding header_line_iff [OF 1(3)] line_at_def by blast
  note step = header_step [OF 1(3) l]
  show ?case
  proof (cases "take 2 q = CRLF")
    case True
    then have "p = (line @ CRLF) @ drop 2 q" using line(1) take_eq_split [OF True] by simp
    moreover have "headers (line @ CRLF) [(b, c)]" using line(2) by (rule last_line)
    moreover have "h \<or> b" "req' = set_connection c req" using 1(2) step(2) True line(3,4) by (auto split: if_splits)
    ultimately show ?thesis by (intro exI [of _ "line @ CRLF"] exI [of _ "[(b, c)]"] exI [of _ "drop 2 q"]) simp
  next
    case False
    then have loop: "header_loop q h' req1 = Inr (OK, req')" using 1(2) step(2) by simp
    have blank: "strncmp_lit q CRLF = Inr False" using strncmp_iff [OF step(1) literals_0(8)] False by simp
    obtain block hs rest where b: "q = block @ rest" "headers block hs" "h' \<or> (\<exists>(b, c) \<in> set hs. b)"
        "req' = with_headers hs req1"
      using 1(1) [OF l refl refl refl _ blank _ loop step(1)] by blast
    have "take 2 block \<noteq> CRLF" using False b(1) headers_length [OF b(2)] by auto
    then have "headers (line @ block) ((b, c) # hs)" using line(2) b(2) by (intro more)
    then show ?thesis using line b by (intro exI [of _ "line @ block"] exI [of _ "(b, c) # hs"] exI [of _ rest]) auto
  qed
qed

section \<open>No faults\<close>

lemma parse_host_total: "0 \<in> set p \<Longrightarrow> \<exists>r. parse_host p = Inr r"
  by (auto simp: parse_host_def terminated Let_def)

lemma parse_connection_total: "0 \<in> set p \<Longrightarrow> \<exists>r. parse_connection p req = Inr r"
  by (auto simp: parse_connection_def terminated Let_def)

lemma header_line_total:
  assumes "0 \<in> set p"
  shows "\<exists>r. header_line p h req = Inr r"
proof -
  obtain s where "strstr p CRLF = Inr s" using strstr_total [OF assms] by blast
  then show ?thesis
    using parse_host_total [OF assms] parse_connection_total [OF assms, of req] assms
    by (auto simp: header_line_def terminated split: option.splits)
qed

lemma header_loop_total: "0 \<in> set p \<Longrightarrow> \<exists>code req'. header_loop p h req = Inr (code, req') \<and> code \<in> {OK, BAD_REQUEST}"
proof (induction p h req rule: header_loop.induct)
  case (1 p h req)
  obtain ok q h' req1 where l: "header_line p h req = Inr (ok, q, h', req1)" using header_line_total [OF 1(2)] by force
  show ?case
  proof (cases ok)
    case False
    then show ?thesis using l by (simp add: header_loop.simps [of p])
  next
    case True
    note step = header_step [OF 1(2) l [unfolded True [THEN eqTrueI]]]
    show ?thesis
    proof (cases "take 2 q = CRLF")
      case False
      then have blank: "strncmp_lit q CRLF = Inr False" using strncmp_iff [OF step(1) literals_0(8)] by simp
      show ?thesis using 1(1) [OF l refl refl refl _ blank _ step(1)] True step(2) False by auto
    qed (use step(2) in simp)
  qed
qed

lemma first_line_total:
  assumes "0 \<in> set p" "c_strlen p \<le> MAX_URL" "length (url req) = MAX_URL"
  shows "\<exists>r. parse_first_line p req = Inr r"
proof (cases "take 3 p = GET")
  case True
  define p1 where "p1 = dropWhile isblank (drop 3 p)"
  have p1: "0 \<in> set p1" using assms True by (simp add: p1_def)
  obtain w1 where w1: "drop 3 p = w1 @ p1" "all_blank w1" unfolding p1_def using run_blank by metis
  have "p = GET @ w1 @ p1" using True w1(1) by (metis append_take_drop_id)
  note cp = copy_at [OF assms(1) this w1(2) assms(2,3)]
  show ?thesis
    using True assms p1 cp
    by (auto simp: parse_first_line_def terminated p1_def [symmetric] Let_def literal_defs)
qed (use assms in \<open>auto simp: parse_first_line_def terminated\<close>)

text \<open>The array for the URL keeps its length.\<close>

lemma copy_url_length: "copy_url p i req = Inr (q, req') \<Longrightarrow> length (url req') = length (url req)"
  by (induction p i req rule: copy_url.induct) (auto split: if_splits)

lemma first_line_url: "parse_first_line p req = Inr (ok, q, req') \<Longrightarrow> length (url req') = length (url req)"
  by (auto simp: parse_first_line_def rbind_eq_Inr_iff split: if_splits option.splits dest!: copy_url_length)

lemma header_line_url: "header_line p h req = Inr (ok, q, h', req') \<Longrightarrow> url req' = url req"
  by (auto simp: header_line_def parse_connection_def rbind_eq_Inr_iff split: if_splits option.splits)

lemma header_loop_url: "header_loop p h req = Inr (code, req') \<Longrightarrow> url req' = url req"
proof (induction p h req rule: header_loop.induct)
  case (1 p h req)
  then show ?case
    by (auto simp: header_loop.simps [of p] rbind_eq_Inr_iff split: if_splits dest: header_line_url)
qed

lemma parse_request_url: "parse_request buf req = Inr (code, req') \<Longrightarrow> length (url req') = length (url req)"
  by (auto simp: parse_request_def rbind_eq_Inr_iff split: if_splits dest!: first_line_url header_loop_url)

lemma request_line_0: "request_line line u k \<Longrightarrow> 0 \<notin> set line"
  by (cases rule: request_line.cases) (auto dest: blank_0 graph_0)

lemma parse_request_total:
  assumes "0 \<in> set buf" "c_strlen buf \<le> MAX_URL" "length (url req) = MAX_URL"
  shows "\<exists>code req'. parse_request buf req = Inr (code, req') \<and> code \<in> {OK, BAD_REQUEST}"
proof -
  obtain ok p req1 where f: "parse_first_line buf req = Inr (ok, p, req1)" using first_line_total [OF assms] by force
  show ?thesis
  proof (cases ok)
    case True
    then have "parse_first_line buf req = Inr (True, p, req1)" using f by simp
    then obtain line u k where "buf = line @ p" "request_line line u k" unfolding parse_first_line_iff [OF assms] by blast
    then have "0 \<in> set p" using assms(1) request_line_0 by simp
    then show ?thesis using f True header_loop_total by (simp add: parse_request_def)
  qed (use f in \<open>simp add: parse_request_def\<close>)
qed

text \<open>A request of the grammar: its text, URL, what it says of the connection, its header lines.\<close>

definition request_text :: "bytes \<Rightarrow> bytes \<Rightarrow> connection \<Rightarrow> (bool \<times> connection option) list \<Rightarrow> bool" where
  "request_text text u k hs \<longleftrightarrow>
     (\<exists>line block. text = line @ block \<and> request_line line u k \<and> headers block hs) \<and> (\<exists>(b, c) \<in> set hs. b)"

lemma parse_request_accepts:
  assumes "0 \<in> set buf" "c_strlen buf \<le> MAX_URL" "length (url req) = MAX_URL"
  shows "parse_request buf req = Inr (OK, req') \<longleftrightarrow>
      (\<exists>text rest u k hs. buf = text @ rest \<and> request_text text u k hs \<and>
         req' = with_headers hs (req\<lparr>url := put 0 u (url req), keep_alive := k\<rparr>))" (is "_ \<longleftrightarrow> ?grammar")
proof
  assume ok: "parse_request buf req = Inr (OK, req')"
  then obtain p req1 where f: "parse_first_line buf req = Inr (True, p, req1)" "header_loop p False req1 = Inr (OK, req')"
    by (auto simp: parse_request_def rbind_eq_Inr_iff split: if_splits)
  then obtain line u k where l: "buf = line @ p" "request_line line u k"
      "req1 = req\<lparr>url := put 0 u (url req), keep_alive := k\<rparr>" unfolding parse_first_line_iff [OF assms] by blast
  have "0 \<in> set p" using l(1) request_line_0 [OF l(2)] assms(1) by simp
  from loop_sound [OF f(2) this] obtain block hs rest where b: "p = block @ rest" "headers block hs"
      "\<exists>(b, c) \<in> set hs. b" "req' = with_headers hs req1" by blast
  have "request_text (line @ block) u k hs" unfolding request_text_def using l(2) b(2,3) by blast
  moreover have "buf = (line @ block) @ rest" using l(1) b(1) by simp
  ultimately show ?grammar using l(3) b(4) by blast
next
  assume ?grammar
  then obtain line block rest u k hs where g: "buf = line @ block @ rest" "request_line line u k" "headers block hs"
      "\<exists>(b, c) \<in> set hs. b" "req' = with_headers hs (req\<lparr>url := put 0 u (url req), keep_alive := k\<rparr>)"
    unfolding request_text_def by fastforce
  have "parse_first_line buf req = Inr (True, block @ rest, req\<lparr>url := put 0 u (url req), keep_alive := k\<rparr>)"
    unfolding parse_first_line_iff [OF assms] using g(1,2) by blast
  moreover have "0 \<in> set (block @ rest)" using g(1) request_line_0 [OF g(2)] assms(1) by simp
  from headers_accepted [OF g(3) this] g(4) have "header_loop (block @ rest) False
      (req\<lparr>url := put 0 u (url req), keep_alive := k\<rparr>) = Inr (OK, req')" unfolding g(5) by blast
  ultimately show "parse_request buf req = Inr (OK, req')" by (simp add: parse_request_def)
qed

section \<open>Properties\<close>

text \<open>C15. The parser is total on a buffer with a NUL whose string is no longer than \<open>url\<close>: it reads
  and writes nothing out of bounds and answers OK or 400. It answers OK exactly for the requests
  of the grammar with a Host line, and then holds their URL and what the last Connection line (or
  else the version) says.\<close>

theorem parse_request_correct:
  assumes "0 \<in> set buf" "c_strlen buf \<le> MAX_URL" "length (url req) = MAX_URL"
  shows "(\<exists>code req'. parse_request buf req = Inr (code, req') \<and> code \<in> {OK, BAD_REQUEST}) \<and>
    (\<forall>req'. parse_request buf req = Inr (OK, req') \<longleftrightarrow>
      (\<exists>text rest u k hs. buf = text @ rest \<and> request_text text u k hs \<and>
         req' = with_headers hs (req\<lparr>url := put 0 u (url req), keep_alive := k\<rparr>)))"
  using parse_request_total [OF assms] parse_request_accepts [OF assms] by blast

end
