(* ===== verification/Http_Server.thy ===== *)
theory Http_Server
  imports Http_Grammar
begin

text \<open>
  The event loop of the web server \<^verbatim>\<open>hw2/public/template/shttpd.c\<close>. A context is named by the
  descriptor of its connection and lives in the map \<open>conns\<close> until it is freed. What the kernel
  answers is input: the results of \<open>read\<close>, \<open>write\<close> and \<open>sendfile\<close> come as lists with each event
  (the end of a list is \<open>EAGAIN\<close>), those of \<open>epoll_ctl\<close> as a list in the state (success at its
  end), the file system as a record of functions.
\<close>

section \<open>State\<close>

datatype write_state = RESP_WRITING_HEADER | RESP_WRITING_BODY

record connection_context =
  read_buffer :: bytes
  read_len :: nat
  http_req :: http_request
  file_fd :: int
  file_offset :: nat
  file_remain :: nat
  write_phase :: write_state
  header_buf :: bytes
  header_len :: nat
  header_sent :: nat

datatype interest = EPOLLIN | EPOLLOUT

text \<open>\<open>sent_to\<close> is what was written to a descriptor, \<open>files\<close> the open files with their bytes
  (which nobody changes while they are open).\<close>

record server =
  g_stop :: bool
  active_connections :: int
  conns :: "nat \<Rightarrow> connection_context option"
  watched :: "nat \<Rightarrow> interest option"
  sent_to :: "nat \<Rightarrow> bytes"
  files :: "int \<Rightarrow> bytes option"
  ctl_results :: "bool list"

datatype stat_result = Stat_No_Entry | Stat_Failed | Stat_Other | Stat_Regular nat

record file_system =
  stat_path :: "bytes \<Rightarrow> stat_result"
  access_read :: "bytes \<Rightarrow> bool"
  open_path :: "(int \<Rightarrow> bytes option) \<Rightarrow> bytes \<Rightarrow> int"
  contents :: "bytes \<Rightarrow> bytes"
  g_rootDir :: bytes

datatype read_result = Read_Data bytes | Read_Again | Read_Failed
datatype write_result = Wrote nat | Write_Again | Write_Failed

definition new_context :: connection_context where
  "new_context = \<lparr>read_buffer = replicate MAX_HDR 0, read_len = 0, http_req = zero_request, file_fd = -1,
     file_offset = 0, file_remain = 0, write_phase = RESP_WRITING_HEADER, header_buf = replicate MAX_HDR 0,
     header_len = 0, header_sent = 0\<rparr>"

definition close_file :: "connection_context \<Rightarrow> server \<Rightarrow> server" where
  "close_file ctx s = (if 0 \<le> file_fd ctx then s\<lparr>files := (files s)(file_fd ctx := None)\<rparr> else s)"

text \<open>Everything but the descriptor of the connection is reset; the file is closed apart, by
  \<open>close_file\<close>.\<close>

definition reset_context :: "connection_context \<Rightarrow> connection_context" where
  "reset_context ctx = ctx\<lparr>http_req := zero_request, read_buffer := replicate MAX_HDR 0,
     header_buf := replicate MAX_HDR 0, read_len := 0, file_fd := -1, file_offset := 0, file_remain := 0,
     write_phase := RESP_WRITING_HEADER, header_len := 0, header_sent := 0\<rparr>"

definition put_context :: "nat \<Rightarrow> connection_context \<Rightarrow> server \<Rightarrow> server" where
  "put_context fd ctx s = s\<lparr>conns := (conns s)(fd := Some ctx)\<rparr>"

definition create_connection_context :: "nat \<Rightarrow> server \<Rightarrow> server" where
  "create_connection_context fd s =
     (put_context fd new_context s)\<lparr>active_connections := active_connections s + 1\<rparr>"

text \<open>The context is \<open>ctx\<close>, with what its caller has changed in it.\<close>

definition close_connection :: "nat \<Rightarrow> connection_context \<Rightarrow> server \<Rightarrow> server" where
  "close_connection fd ctx s =
     (close_file ctx s)\<lparr>conns := (conns s)(fd := None), watched := (watched s)(fd := None),
       active_connections := active_connections s - 1\<rparr>"

text \<open>The next call of \<open>epoll_ctl\<close>, to watch \<open>fd\<close> for one kind of event.\<close>

definition epoll_ctl :: "nat \<Rightarrow> interest \<Rightarrow> server \<Rightarrow> bool \<times> server" where
  "epoll_ctl fd ev s =
     (case ctl_results s of
        [] \<Rightarrow> (True, s\<lparr>watched := (watched s)(fd := Some ev)\<rparr>)
      | ok # rest \<Rightarrow>
          (ok, if ok then s\<lparr>watched := (watched s)(fd := Some ev), ctl_results := rest\<rparr>
               else s\<lparr>ctl_results := rest\<rparr>))"

section \<open>Responses\<close>

definition closing :: bytes where "closing = CRLF @ ascii ''Connection: close'' @ CRLF @ CRLF"
definition errMessage400 :: bytes where "errMessage400 = ascii ''HTTP/1.0 400 Bad Request'' @ closing"
definition errMessage403 :: bytes where "errMessage403 = ascii ''HTTP/1.0 403 Forbidden'' @ closing"
definition errMessage404 :: bytes where "errMessage404 = ascii ''HTTP/1.0 404 Not Found'' @ closing"
definition errMessage500 :: bytes where "errMessage500 = ascii ''HTTP/1.0 500 Internal Server Error'' @ closing"

definition error_message :: "res_code \<Rightarrow> bytes" where
  "error_message err_code =
     (case err_code of
        BAD_REQUEST \<Rightarrow> errMessage400
      | FORBIDDEN \<Rightarrow> errMessage403
      | NOT_FOUND \<Rightarrow> errMessage404
      | _ \<Rightarrow> errMessage500)"

definition send_error :: "nat \<Rightarrow> connection_context \<Rightarrow> res_code \<Rightarrow> server \<Rightarrow> server" where
  "send_error fd ctx err_code s =
     (let msg = error_message err_code;
          ctx1 = ctx\<lparr>header_buf := put 0 msg (header_buf ctx), header_len := length msg, header_sent := 0,
            file_remain := 0, write_phase := RESP_WRITING_HEADER,
            http_req := (http_req ctx)\<lparr>keep_alive := CLOSE\<rparr>\<rparr>;
          (ok, s1) = epoll_ctl fd EPOLLOUT (put_context fd ctx1 s)
      in if ok then s1 else close_connection fd ctx1 s1)"

definition c_string :: "bytes \<Rightarrow> bytes" where
  "c_string b = takeWhile (\<lambda>c. c \<noteq> 0) b"

text \<open>\<open>snprintf\<close> into an array of \<open>n\<close> bytes cuts off at \<open>n - 1\<close> characters.\<close>

definition file_path :: "file_system \<Rightarrow> http_request \<Rightarrow> bytes" where
  "file_path fs req = take (MAX_URL * 2 - 1) (c_string (g_rootDir fs) @ c_string (url req))"

definition ok_header :: "nat \<Rightarrow> connection \<Rightarrow> bytes" where
  "ok_header sz k =
     ascii ''HTTP/1.0 200 OK'' @ CRLF @ ascii ''Content-length: '' @ dec sz @ CRLF @
     ascii ''Connection: '' @ (if k = KEEP_ALIVE then ascii ''keep-alive'' else ascii ''close'') @ CRLF @ CRLF"

definition prepare_response ::
  "file_system \<Rightarrow> connection_context \<Rightarrow> server \<Rightarrow> res_code \<times> connection_context \<times> server" where
  "prepare_response fs ctx s =
     (let path = file_path fs (http_req ctx)
      in case stat_path fs path of
           Stat_No_Entry \<Rightarrow> (NOT_FOUND, ctx, s)
         | Stat_Failed \<Rightarrow> (INTERNAL_SERVER_ERROR, ctx, s)
         | Stat_Other \<Rightarrow> (FORBIDDEN, ctx, s)
         | Stat_Regular sz \<Rightarrow>
             if \<not> access_read fs path then (FORBIDDEN, ctx, s)
             else
               let f = open_path fs (files s) path
               in if f < 0 then (INTERNAL_SERVER_ERROR, ctx, s)
                  else
                    let hdr = ok_header sz (keep_alive (http_req ctx))
                    in (OK, ctx\<lparr>file_fd := f, file_offset := 0, file_remain := sz,
                          write_phase := RESP_WRITING_HEADER,
                          header_buf := put 0 (take (MAX_HDR - 1) hdr @ [0]) (header_buf ctx),
                          header_len := length hdr, header_sent := 0\<rparr>,
                        s\<lparr>files := (files s)(f := Some (contents fs path))\<rparr>))"

section \<open>Events\<close>

text \<open>A new connection: what \<open>accept\<close> gives and whether \<open>fcntl\<close> and \<open>malloc\<close> succeed.\<close>

definition handle_new_connection :: "nat option \<Rightarrow> bool \<Rightarrow> bool \<Rightarrow> server \<Rightarrow> server" where
  "handle_new_connection accepted nonblocking memory s =
     (case accepted of
        None \<Rightarrow> s
      | Some fd \<Rightarrow>
          if g_stop s then s
          else if \<not> nonblocking then s
          else if \<not> memory then s
          else
            let (ok, s1) = epoll_ctl fd EPOLLIN (create_connection_context fd s)
            in if ok then s1 else close_connection fd new_context s1)"

text \<open>What \<open>handle_epollin\<close> does once the header is complete.\<close>

definition answer_request :: "file_system \<Rightarrow> nat \<Rightarrow> connection_context \<Rightarrow> server \<Rightarrow> server result" where
  "answer_request fs fd ctx s =
     rbind (parse_request (read_buffer ctx) (http_req ctx)) (\<lambda>(code, req).
       let ctx1 = ctx\<lparr>http_req := req\<rparr>
       in if code \<noteq> OK then Inr (send_error fd ctx1 code s)
          else
            let ctx2 = (if g_stop s then ctx1\<lparr>http_req := req\<lparr>keep_alive := CLOSE\<rparr>\<rparr> else ctx1);
                (access, ctx3, s1) = prepare_response fs ctx2 s
            in if access \<noteq> OK then Inr (send_error fd ctx3 access s1)
               else
                 let (ok, s2) = epoll_ctl fd EPOLLOUT (put_context fd ctx3 s1)
                 in Inr (if ok then s2 else send_error fd ctx3 INTERNAL_SERVER_ERROR s2))"

text \<open>Reading into the buffer, with the NUL behind what was read: behind the buffer when it is
  full.\<close>

definition store_read :: "bytes \<Rightarrow> connection_context \<Rightarrow> connection_context result" where
  "store_read data ctx =
     (let n = read_len ctx + length data
      in if n < MAX_HDR
         then Inr (ctx\<lparr>read_buffer := put n [0] (put (read_len ctx) data (read_buffer ctx)), read_len := n\<rparr>)
         else Inl Out_Of_Bounds)"

fun epollin_loop :: "file_system \<Rightarrow> nat \<Rightarrow> connection_context \<Rightarrow> read_result list \<Rightarrow> server \<Rightarrow> server result" where
  "epollin_loop fs fd ctx [] s = Inr (put_context fd ctx s)"
| "epollin_loop fs fd ctx (Read_Again # rs) s = Inr (put_context fd ctx s)"
| "epollin_loop fs fd ctx (Read_Failed # rs) s = Inr (close_connection fd ctx s)"
| "epollin_loop fs fd ctx (Read_Data input # rs) s =
     (let data = take (MAX_HDR - read_len ctx) input
      in if data = [] then Inr (close_connection fd ctx s)
         else
           rbind (store_read data ctx) (\<lambda>ctx1.
           rbind (strstr (read_buffer ctx1) CRLFCRLF) (\<lambda>found.
             if found \<noteq> None then answer_request fs fd ctx1 s
             else if read_len ctx1 = MAX_HDR then Inr (send_error fd ctx1 BAD_REQUEST s)
             else epollin_loop fs fd ctx1 rs s)))"

definition handle_epollin :: "file_system \<Rightarrow> nat \<Rightarrow> read_result list \<Rightarrow> server \<Rightarrow> server result" where
  "handle_epollin fs fd rs s =
     (case conns s fd of None \<Rightarrow> Inl Use_After_Free | Some ctx \<Rightarrow> epollin_loop fs fd ctx rs s)"

definition send_bytes :: "nat \<Rightarrow> bytes \<Rightarrow> server \<Rightarrow> server" where
  "send_bytes fd b s = s\<lparr>sent_to := (sent_to s)(fd := sent_to s fd @ b)\<rparr>"

text \<open>\<open>send_header\<close> and \<open>send_body\<close> answer whether they are done, the context (none when the
  connection was closed) and the state.\<close>

fun send_header ::
  "nat \<Rightarrow> connection_context \<Rightarrow> write_result list \<Rightarrow> server \<Rightarrow> bool \<times> connection_context option \<times> server" where
  "send_header fd ctx ws s =
     (if header_sent ctx < header_len ctx then
        case ws of
          [] \<Rightarrow> (False, Some ctx, s)
        | Write_Again # _ \<Rightarrow> (False, Some ctx, s)
        | Write_Failed # _ \<Rightarrow> (False, None, close_connection fd ctx s)
        | Wrote n # rest \<Rightarrow>
            let b = take n (take (header_len ctx - header_sent ctx) (drop (header_sent ctx) (header_buf ctx)))
            in send_header fd (ctx\<lparr>header_sent := header_sent ctx + length b\<rparr>) rest (send_bytes fd b s)
      else (True, Some ctx, s))"

fun send_body ::
  "nat \<Rightarrow> connection_context \<Rightarrow> write_result list \<Rightarrow> server \<Rightarrow> bool \<times> connection_context option \<times> server" where
  "send_body fd ctx ws s =
     (if 0 < file_remain ctx then
        case ws of
          [] \<Rightarrow> (False, Some ctx, s)
        | Write_Again # _ \<Rightarrow> (False, Some ctx, s)
        | Write_Failed # _ \<Rightarrow> (False, None, close_connection fd ctx s)
        | Wrote n # rest \<Rightarrow>
            (case files s (file_fd ctx) of
               None \<Rightarrow> (False, None, close_connection fd ctx s)
             | Some f \<Rightarrow>
                 let b = take n (take (file_remain ctx) (drop (file_offset ctx) f))
                 in send_body fd (ctx\<lparr>file_offset := file_offset ctx + length b,
                      file_remain := file_remain ctx - length b\<rparr>) rest (send_bytes fd b s))
      else (True, Some ctx, s))"

declare send_header.simps [simp del] send_body.simps [simp del]

definition finish_response :: "nat \<Rightarrow> connection_context \<Rightarrow> server \<Rightarrow> server" where
  "finish_response fd ctx s =
     (if g_stop s \<or> keep_alive (http_req ctx) = CLOSE then close_connection fd ctx s
      else
        let ctx1 = reset_context ctx;
            (ok, s1) = epoll_ctl fd EPOLLIN (put_context fd ctx1 (close_file ctx s))
        in if ok then s1 else close_connection fd ctx1 s1)"

definition body_phase :: "nat \<Rightarrow> connection_context \<Rightarrow> write_result list \<Rightarrow> server \<Rightarrow> server" where
  "body_phase fd ctx ws s =
     (case send_body fd ctx ws s of (done, c, s1) \<Rightarrow>
        (case c of
           None \<Rightarrow> s1
         | Some ctx1 \<Rightarrow> if done then finish_response fd ctx1 s1 else put_context fd ctx1 s1))"

definition handle_epollout :: "nat \<Rightarrow> write_result list \<Rightarrow> write_result list \<Rightarrow> server \<Rightarrow> server result"
where
  "handle_epollout fd ws fws s =
     (case conns s fd of
        None \<Rightarrow> Inl Use_After_Free
      | Some ctx \<Rightarrow>
          if write_phase ctx = RESP_WRITING_HEADER then
            (case send_header fd ctx ws s of (done, c, s1) \<Rightarrow>
               (case c of
                  None \<Rightarrow> Inr s1
                | Some ctx1 \<Rightarrow>
                    if done then Inr (body_phase fd (ctx1\<lparr>write_phase := RESP_WRITING_BODY\<rparr>) fws s1)
                    else Inr (put_context fd ctx1 s1)))
          else Inr (body_phase fd ctx fws s))"

text \<open>One entry of the event array, and the signal handler.\<close>

datatype event =
    New_Connection "nat option" bool bool
  | Client nat bool bool "read_result list" "write_result list" "write_result list"
  | Terminate

definition handle_event :: "file_system \<Rightarrow> event \<Rightarrow> server \<Rightarrow> server result" where
  "handle_event fs ev s =
     (case ev of
        New_Connection accepted nonblocking memory \<Rightarrow> Inr (handle_new_connection accepted nonblocking memory s)
      | Client fd readable writable rs ws fws \<Rightarrow>
          rbind (if readable then handle_epollin fs fd rs s else Inr s) (\<lambda>s1.
            if writable then handle_epollout fd ws fws s1 else Inr s1)
      | Terminate \<Rightarrow> Inr (s\<lparr>g_stop := True\<rparr>))"

definition server_done :: "server \<Rightarrow> bool" where
  "server_done s \<longleftrightarrow> g_stop s \<and> active_connections s = 0"

end
