(* ===== verification/Http_Invariant.thy ===== *)
theory Http_Invariant
  imports Http_Server
begin

text \<open>
  The invariant of the web server's state: which contexts live, what they watch, which files are
  open, and the bounds of the buffers. A handler holds one context \<open>in_hand\<close> while it works, the
  others keep the invariant.
\<close>

section \<open>The invariant\<close>

text \<open>Which connection holds which open file.\<close>

definition file_of :: "connection_context \<Rightarrow> int option" where
  "file_of ctx = (if 0 \<le> file_fd ctx then Some (file_fd ctx) else None)"

definition owner :: "server \<Rightarrow> nat \<Rightarrow> int option" where
  "owner s fd = Option.bind (conns s fd) file_of"

definition files_ok :: "(nat \<Rightarrow> int option) \<Rightarrow> (int \<Rightarrow> bytes option) \<Rightarrow> bool" where
  "files_ok own open_files \<longleftrightarrow>
     (\<forall>f. open_files f \<noteq> None \<longleftrightarrow> (\<exists>fd. own fd = Some f)) \<and>
     (\<forall>a b f. own a = Some f \<longrightarrow> own b = Some f \<longrightarrow> a = b)"

text \<open>What holds of a context that waits for its next event.\<close>

definition buffers :: "connection_context \<Rightarrow> bool" where
  "buffers ctx \<longleftrightarrow> length (read_buffer ctx) = MAX_HDR \<and> read_len ctx < MAX_HDR \<and>
     length (header_buf ctx) = MAX_HDR \<and> length (url (http_req ctx)) = MAX_URL"

definition fits :: "(int \<Rightarrow> bytes option) \<Rightarrow> interest option \<Rightarrow> connection_context \<Rightarrow> bool" where
  "fits open_files w ctx \<longleftrightarrow>
     buffers ctx \<and> header_sent ctx \<le> header_len ctx \<and> header_len ctx \<le> MAX_HDR \<and>
     (0 < file_remain ctx \<longrightarrow> 0 \<le> file_fd ctx \<and>
        (\<exists>b. open_files (file_fd ctx) = Some b \<and> file_offset ctx + file_remain ctx \<le> length b)) \<and>
     (w = Some EPOLLIN \<longrightarrow> file_fd ctx < 0 \<and> file_remain ctx = 0 \<and> header_sent ctx = header_len ctx)"

definition tables_ok :: "server \<Rightarrow> bool" where
  "tables_ok s \<longleftrightarrow> finite (dom (conns s)) \<and> dom (watched s) = dom (conns s) \<and>
     active_connections s = int (card (dom (conns s)))"

definition server_ok :: "server \<Rightarrow> bool" where
  "server_ok s \<longleftrightarrow> tables_ok s \<and> files_ok (owner s) (files s) \<and>
     (\<forall>fd ctx. conns s fd = Some ctx \<longrightarrow> fits (files s) (watched s fd) ctx)"

text \<open>The handler works on \<open>ctx\<close>, whose place in the map may be out of date.\<close>

definition in_hand :: "nat \<Rightarrow> connection_context \<Rightarrow> server \<Rightarrow> bool" where
  "in_hand fd ctx s \<longleftrightarrow> tables_ok s \<and> conns s fd \<noteq> None \<and> files_ok ((owner s)(fd := file_of ctx)) (files s) \<and>
     (\<forall>fd' ctx'. fd' \<noteq> fd \<longrightarrow> conns s fd' = Some ctx' \<longrightarrow> fits (files s) (watched s fd') ctx')"

text \<open>What the code relies on of the file system: sizes are those of an \<open>off_t\<close> and of the
  contents, \<open>open\<close> gives a descriptor that is not in use.\<close>

definition fs_ok :: "file_system \<Rightarrow> bool" where
  "fs_ok fs \<longleftrightarrow>
     (\<forall>p n. stat_path fs p = Stat_Regular n \<longrightarrow> n < 2 ^ 63 \<and> length (contents fs p) = n) \<and>
     (\<forall>t p. 0 \<le> open_path fs t p \<longrightarrow> t (open_path fs t p) = None)"

section \<open>Open files\<close>

lemma files_ok_unique: "files_ok own t \<Longrightarrow> own a = Some f \<Longrightarrow> own b = Some f \<Longrightarrow> a = b"
  unfolding files_ok_def by blast

lemma files_ok_open: "files_ok own t \<Longrightarrow> t f \<noteq> None \<longleftrightarrow> (\<exists>d. own d = Some f)"
  unfolding files_ok_def by blast

lemma files_okI:
  assumes "\<And>f. t f \<noteq> None \<longleftrightarrow> (\<exists>d. own d = Some f)"
    and "\<And>a b f. own a = Some f \<Longrightarrow> own b = Some f \<Longrightarrow> a = b"
  shows "files_ok own t"
  unfolding files_ok_def using assms by blast

lemma files_apart:
  assumes "files_ok (own(fd := Some f)) t" "own d = Some g" "d \<noteq> fd"
  shows "g \<noteq> f"
proof
  assume "g = f"
  then show False using files_ok_unique [OF assms(1), of d f fd] assms(2,3) by simp
qed

lemma files_close:
  assumes "files_ok (own(fd := Some f)) t"
  shows "files_ok (own(fd := None)) (t(f := None))"
proof (rule files_okI)
  fix g show "(t(f := None)) g \<noteq> None \<longleftrightarrow> (\<exists>d. (own(fd := None)) d = Some g)"
    using files_ok_open [OF assms, of g] files_apart [OF assms] by (cases "g = f") auto
next
  fix a b g assume "(own(fd := None)) a = Some g" "(own(fd := None)) b = Some g"
  then show "a = b" using files_ok_unique [OF assms, of a g b] by (simp split: if_splits)
qed

lemma files_open:
  assumes "files_ok (own(fd := None)) t" "t f = None"
  shows "files_ok (own(fd := Some f)) (t(f := Some b))"
proof (rule files_okI)
  fix g show "(t(f := Some b)) g \<noteq> None \<longleftrightarrow> (\<exists>d. (own(fd := Some f)) d = Some g)"
    using files_ok_open [OF assms(1), of g] by (cases "g = f") (auto split: if_splits)
next
  have none: "own d \<noteq> Some f" if "d \<noteq> fd" for d using files_ok_open [OF assms(1), of f] assms(2) that by fastforce
  fix a c g assume "(own(fd := Some f)) a = Some g" "(own(fd := Some f)) c = Some g"
  then show "a = c" using files_ok_unique [OF assms(1), of a g c] none by (simp split: if_splits)
qed

text \<open>A file that another context does not hold may be opened or closed.\<close>

lemma fits_other: "fits t w ctx \<Longrightarrow> (0 \<le> file_fd ctx \<Longrightarrow> t' (file_fd ctx) = t (file_fd ctx)) \<Longrightarrow> fits t' w ctx"
  by (auto simp: fits_def)

section \<open>The context in hand\<close>

lemma owner_simps [simp]:
  "owner (put_context fd ctx s) = (owner s)(fd := file_of ctx)"
  "owner (send_bytes fd b s) = owner s"
  "owner (s\<lparr>files := t\<rparr>) = owner s"
  "owner (s\<lparr>watched := w\<rparr>) = owner s"
  "owner (s\<lparr>ctl_results := r\<rparr>) = owner s"
  by (auto simp: owner_def put_context_def send_bytes_def)

lemma take_in_hand: "server_ok s \<Longrightarrow> conns s fd = Some ctx \<Longrightarrow> in_hand fd ctx s"
proof -
  assume ok: "server_ok s" and fd: "conns s fd = Some ctx"
  have "(owner s)(fd := file_of ctx) = owner s" using fd by (auto simp: owner_def)
  then show ?thesis using ok fd by (simp add: server_ok_def in_hand_def)
qed

lemma in_hand_same: "in_hand fd ctx s \<Longrightarrow> file_fd ctx' = file_fd ctx \<Longrightarrow> in_hand fd ctx' s"
  by (cases "0 \<le> file_fd ctx") (simp_all add: in_hand_def file_of_def)

lemma put_in_hand [simp]:
  assumes "conns s fd \<noteq> None"
  shows "in_hand fd ctx (put_context fd ctx' s) \<longleftrightarrow> in_hand fd ctx s"
proof -
  have "dom ((conns s)(fd := Some ctx')) = dom (conns s)" using assms by auto
  then have "tables_ok (put_context fd ctx' s) = tables_ok s" by (simp add: tables_ok_def put_context_def)
  moreover have "files (put_context fd ctx' s) = files s" "watched (put_context fd ctx' s) = watched s"
      "conns (put_context fd ctx' s) = (conns s)(fd := Some ctx')" by (simp_all add: put_context_def)
  ultimately show ?thesis using assms by (simp add: in_hand_def)
qed

lemma send_in_hand [simp]: "in_hand fd ctx (send_bytes fd b s) = in_hand fd ctx s"
  by (simp add: in_hand_def tables_ok_def) (simp add: send_bytes_def)

lemma watch_in_hand:
  assumes "in_hand fd ctx s"
  shows "in_hand fd ctx (s\<lparr>watched := (watched s)(fd := Some ev), ctl_results := r\<rparr>)"
proof -
  have "insert fd (dom (conns s)) = dom (conns s)" using assms by (auto simp: in_hand_def)
  then show ?thesis using assms by (simp add: in_hand_def tables_ok_def)
qed

lemma ctl_cases:
  obtains (success) "epoll_ctl fd ev s =
      (True, s\<lparr>watched := (watched s)(fd := Some ev), ctl_results := tl (ctl_results s)\<rparr>)"
    | (failed) "epoll_ctl fd ev s = (False, s\<lparr>ctl_results := tl (ctl_results s)\<rparr>)"
  by (cases "ctl_results s"; cases "hd (ctl_results s)") (auto simp: epoll_ctl_def)

lemma results_in_hand: "in_hand fd ctx s \<Longrightarrow> in_hand fd ctx (s\<lparr>ctl_results := r\<rparr>)"
  by (simp add: in_hand_def tables_ok_def)

lemma ctl_in_hand: "epoll_ctl fd ev s = (ok, s') \<Longrightarrow> in_hand fd ctx s \<Longrightarrow> in_hand fd ctx s'"
  by (cases fd ev s rule: ctl_cases) (auto intro: watch_in_hand results_in_hand)

lemma put_back:
  assumes "in_hand fd ctx s" "fits (files s) (watched s fd) ctx"
  shows "server_ok (put_context fd ctx s)"
proof -
  have "in_hand fd ctx (put_context fd ctx s)" using assms(1) put_in_hand by (simp add: in_hand_def)
  then have "tables_ok (put_context fd ctx s)" by (simp add: in_hand_def)
  then show ?thesis using assms by (auto simp: server_ok_def in_hand_def) (auto simp: put_context_def split: if_splits)
qed

lemma close_file_in_hand:
  assumes "in_hand fd ctx s" "file_fd ctx' < 0"
  shows "in_hand fd ctx' (close_file ctx s)"
proof (cases "0 \<le> file_fd ctx")
  case True
  then have own: "files_ok ((owner s)(fd := Some (file_fd ctx))) (files s)"
    using assms(1) by (simp add: in_hand_def file_of_def)
  have "fits ((files s)(file_fd ctx := None)) (watched s fd') ctx'" if "fd' \<noteq> fd" "conns s fd' = Some ctx'" for fd' ctx'
  proof (rule fits_other)
    show "fits (files s) (watched s fd') ctx'" using assms(1) that by (simp add: in_hand_def)
    assume "0 \<le> file_fd ctx'"
    then have "owner s fd' = Some (file_fd ctx')" using that by (simp add: owner_def file_of_def)
    then show "((files s)(file_fd ctx := None)) (file_fd ctx') = files s (file_fd ctx')"
      using files_apart [OF own _ that(1)] by simp
  qed
  then show ?thesis
    using assms files_close [OF own] True by (simp add: in_hand_def close_file_def file_of_def tables_ok_def)
next
  case False
  then show ?thesis using assms by (simp add: close_file_def in_hand_def file_of_def)
qed

lemma open_file_in_hand:
  assumes "in_hand fd ctx s" "file_fd ctx < 0" "files s f = None" "0 \<le> f" "file_fd ctx' = f"
  shows "in_hand fd ctx' (s\<lparr>files := (files s)(f := Some b)\<rparr>)"
proof -
  have own: "files_ok ((owner s)(fd := None)) (files s)" using assms(1,2) by (simp add: in_hand_def file_of_def)
  have "fits ((files s)(f := Some b)) (watched s fd') ctx'" if "fd' \<noteq> fd" "conns s fd' = Some ctx'" for fd' ctx'
  proof (rule fits_other)
    show "fits (files s) (watched s fd') ctx'" using assms(1) that by (simp add: in_hand_def)
    assume "0 \<le> file_fd ctx'"
    then have "owner s fd' = Some (file_fd ctx')" using that by (simp add: owner_def file_of_def)
    then have "((owner s)(fd := None)) fd' = Some (file_fd ctx')" using that by simp
    then have "file_fd ctx' \<in> dom (files s)" using own unfolding files_ok_def by blast
    then show "((files s)(f := Some b)) (file_fd ctx') = files s (file_fd ctx')" using assms(3) by auto
  qed
  then show ?thesis
    using assms files_open [OF own assms(3)] by (simp add: in_hand_def file_of_def tables_ok_def)
qed

lemma close_connection_ok:
  assumes "in_hand fd ctx s"
  shows "server_ok (close_connection fd ctx s)"
proof -
  let ?c = "close_file ctx s" and ?c' = "ctx\<lparr>file_fd := -1\<rparr>"
  have h: "in_hand fd ?c' ?c" using assms by (rule close_file_in_hand) simp
  have same: "conns ?c = conns s" "watched ?c = watched s" "active_connections ?c = active_connections s"
    by (simp_all add: close_file_def)
  have own: "owner (close_connection fd ctx s) = (owner ?c)(fd := file_of ?c')"
    by (auto simp: owner_def close_connection_def file_of_def same)
  have "finite (dom (conns s))" "fd \<in> dom (conns s)" using assms by (auto simp: in_hand_def tables_ok_def)
  then have "card (dom (conns s) - {fd}) = card (dom (conns s)) - 1" "card (dom (conns s)) > 0"
    by (auto simp: card_gt_0_iff)
  then have "tables_ok (close_connection fd ctx s)"
    using assms by (auto simp: close_connection_def tables_ok_def in_hand_def same)
  then show ?thesis
    using h unfolding server_ok_def own in_hand_def by (auto simp: close_connection_def same)
qed

text \<open>Watching for output, or closing.\<close>

lemma ctl_or_close:
  assumes "epoll_ctl fd ev (put_context fd ctx s) = (ok, s1)" "in_hand fd ctx s" "fits (files s) (Some ev) ctx"
  shows "server_ok (if ok then s1 else close_connection fd ctx s1)"
proof (cases fd ev "put_context fd ctx s" rule: ctl_cases)
  case success
  let ?s = "s\<lparr>watched := (watched s)(fd := Some ev), ctl_results := tl (ctl_results s)\<rparr>"
  have "server_ok (put_context fd ctx ?s)" using watch_in_hand [OF assms(2)] assms(3) by (intro put_back) simp_all
  moreover have "s1 = put_context fd ctx ?s" using success assms(1) by (cases s) (simp add: put_context_def)
  ultimately show ?thesis using success assms(1) by simp
next
  case failed
  have "conns s fd \<noteq> None" using assms(2) by (simp add: in_hand_def)
  then have "in_hand fd ctx s1" using ctl_in_hand [OF assms(1)] assms(2) by simp
  then show ?thesis using failed assms(1) close_connection_ok by simp
qed

end
