(* ===== verification/Http_Events.thy ===== *)
theory Http_Events
  imports Http_Invariant
begin

text \<open>
  Every handler of the web server keeps the invariant of \<open>Http_Invariant\<close>; the only fault is the
  NUL behind a full buffer.
\<close>

section \<open>Reading\<close>

lemma buffers_new: "buffers new_context" "buffers ctx \<Longrightarrow> buffers (reset_context ctx)"
  by (simp_all add: buffers_def new_context_def reset_context_def zero_request_def MAX_HDR_def)

lemma store_read_ok:
  assumes "buffers ctx" "read_len ctx + length d < MAX_HDR"
  obtains ctx' where "store_read d ctx = Inr ctx'" "buffers ctx'" "0 \<in> set (read_buffer ctx')"
    "c_strlen (read_buffer ctx') \<le> MAX_URL" "file_fd ctx' = file_fd ctx" "http_req ctx' = http_req ctx"
    "read_len ctx' = read_len ctx + length d" "file_remain ctx' = file_remain ctx"
    "header_sent ctx' = header_sent ctx" "header_len ctx' = header_len ctx"
proof -
  let ?n = "read_len ctx + length d"
  let ?b = "put ?n [0] (put (read_len ctx) d (read_buffer ctx))"
  have len: "length ?b = MAX_HDR" using assms by (simp add: buffers_def)
  have "?b ! ?n = 0" using assms by (simp add: buffers_def nth_put)
  then have nul: "0 \<in> set ?b" using nth_mem [of ?n ?b] len assms(2) by simp
  have "c_strlen ?b \<le> length ?b" unfolding c_strlen_def by (rule length_takeWhile_le)
  then have "c_strlen ?b \<le> MAX_URL" using len by (simp add: MAX_HDR_def MAX_URL_def)
  with nul show thesis
    using that [of "ctx\<lparr>read_buffer := ?b, read_len := ?n\<rparr>"] assms len by (simp add: store_read_def buffers_def Let_def)
qed

section \<open>Answering\<close>

lemma error_message_length: "length (error_message code) \<le> MAX_HDR"
  by (cases code) (simp_all add: error_message_def errMessage400_def errMessage403_def errMessage404_def
      errMessage500_def closing_def MAX_HDR_def CRLF_def)

lemma http_error_ok:
  assumes "in_hand fd ctx s" "buffers ctx"
  shows "server_ok (send_error fd ctx code s)"
proof -
  let ?msg = "error_message code"
  define ctx1 where "ctx1 = ctx\<lparr>header_buf := put 0 ?msg (header_buf ctx), header_len := length ?msg,
    header_sent := 0, file_remain := 0, write_phase := RESP_WRITING_HEADER,
    http_req := (http_req ctx)\<lparr>keep_alive := CLOSE\<rparr>\<rparr>"
  have "in_hand fd ctx1 s" using assms(1) by (rule in_hand_same) (simp add: ctx1_def)
  moreover have "fits (files s) (Some EPOLLOUT) ctx1"
    using assms(2) error_message_length [of code] by (simp add: fits_def buffers_def ctx1_def)
  moreover obtain ok s1 where ctl: "epoll_ctl fd EPOLLOUT (put_context fd ctx1 s) = (ok, s1)" by fastforce
  ultimately show ?thesis using ctl_or_close [OF ctl]
    by (simp add: send_error_def ctx1_def [symmetric] Let_def split: if_splits)
qed

lemma ok_header_length: "n < 2 ^ 63 \<Longrightarrow> length (ok_header n k) < MAX_HDR"
proof -
  assume "n < 2 ^ 63"
  then have "length (dec n) \<le> 19" by (intro length_dec) simp_all
  then show ?thesis by (simp add: ok_header_def MAX_HDR_def CRLF_def)
qed

text \<open>What \<open>prepare_response\<close> leaves in hand.\<close>

lemma prepare_response_ok:
  assumes "prepare_response fs ctx s = (code, ctx', s')" "fs_ok fs" "in_hand fd ctx s" "buffers ctx" "file_fd ctx < 0"
  shows "in_hand fd ctx' s'" "buffers ctx'" "code = OK \<Longrightarrow> fits (files s') (Some EPOLLOUT) ctx'"
proof -
  let ?path = "file_path fs (http_req ctx)"
  let ?f = "open_path fs (files s) ?path"
  have same: "in_hand fd ctx' s' \<and> buffers ctx' \<and> (code = OK \<longrightarrow> fits (files s') (Some EPOLLOUT) ctx')"
    if "ctx' = ctx" "s' = s" "code \<noteq> OK" using that assms by simp
  have opened: "in_hand fd ctx' s' \<and> buffers ctx' \<and> (code = OK \<longrightarrow> fits (files s') (Some EPOLLOUT) ctx')"
    if "stat_path fs ?path = Stat_Regular n" "0 \<le> ?f"
      "ctx' = ctx\<lparr>file_fd := ?f, file_offset := 0, file_remain := n, write_phase := RESP_WRITING_HEADER,
         header_buf := put 0 (take (MAX_HDR - 1) (ok_header n (keep_alive (http_req ctx))) @ [0]) (header_buf ctx),
         header_len := length (ok_header n (keep_alive (http_req ctx))), header_sent := 0\<rparr>"
      "s' = s\<lparr>files := (files s)(?f := Some (contents fs ?path))\<rparr>" for n
  proof -
    have n: "n < 2 ^ 63" "length (contents fs ?path) = n" "files s ?f = None"
      using assms(2) that(1,2) by (auto simp: fs_ok_def)
    have "in_hand fd ctx' s'"
      unfolding that(4) using assms(3,5) n(3) that(2) by (rule open_file_in_hand) (simp add: that(3))
    moreover have "buffers ctx'"
      using assms(4) ok_header_length [OF n(1), of "keep_alive (http_req ctx)"] by (simp add: buffers_def that(3))
    ultimately show ?thesis
      using that(2) n(2) ok_header_length [OF n(1), of "keep_alive (http_req ctx)"] by (simp add: fits_def that(3,4))
  qed
  have "in_hand fd ctx' s' \<and> buffers ctx' \<and> (code = OK \<longrightarrow> fits (files s') (Some EPOLLOUT) ctx')"
  proof (cases "stat_path fs ?path")
    case (Stat_Regular n)
    show ?thesis
    proof (cases "access_read fs ?path \<and> 0 \<le> ?f")
      case True
      then show ?thesis using opened [OF Stat_Regular] assms(1) Stat_Regular by (auto simp: prepare_response_def Let_def)
    next
      case False
      then show ?thesis
        using same assms(1) Stat_Regular by (auto simp: prepare_response_def Let_def split: if_splits)
    qed
  qed (use same assms(1) in \<open>simp_all add: prepare_response_def Let_def\<close>)
  then show "in_hand fd ctx' s'" "buffers ctx'" "code = OK \<Longrightarrow> fits (files s') (Some EPOLLOUT) ctx'" by simp_all
qed

lemma answer_request_ok:
  assumes "fs_ok fs" "in_hand fd ctx s" "buffers ctx" "file_fd ctx < 0" "0 \<in> set (read_buffer ctx)"
    "c_strlen (read_buffer ctx) \<le> MAX_URL"
  shows "\<exists>s'. answer_request fs fd ctx s = Inr s' \<and> server_ok s'"
proof -
  have url: "length (url (http_req ctx)) = MAX_URL" using assms(3) by (simp add: buffers_def)
  obtain code req where p: "parse_request (read_buffer ctx) (http_req ctx) = Inr (code, req)"
    using parse_request_total [OF assms(5,6) url] by blast
  have req: "length (url req) = MAX_URL" using parse_request_url [OF p] url by simp
  define ctx2 where "ctx2 = (if g_stop s then ctx\<lparr>http_req := req\<lparr>keep_alive := CLOSE\<rparr>\<rparr> else ctx\<lparr>http_req := req\<rparr>)"
  have same: "file_fd ctx2 = file_fd ctx" "buffers ctx2" "buffers (ctx\<lparr>http_req := req\<rparr>)"
    using assms(3) req by (simp_all add: ctx2_def buffers_def)
  have hand: "in_hand fd ctx2 s" "in_hand fd (ctx\<lparr>http_req := req\<rparr>) s"
    using in_hand_same [OF assms(2)] same(1) by simp_all
  obtain access ctx3 s1 where prep: "prepare_response fs ctx2 s = (access, ctx3, s1)" by (metis prod_cases3)
  have "file_fd ctx2 < 0" using same(1) assms(4) by simp
  note ready = prepare_response_ok [OF prep assms(1) hand(1) same(2) this]
  obtain ok s2 where ctl: "epoll_ctl fd EPOLLOUT (put_context fd ctx3 s1) = (ok, s2)" by fastforce
  have "conns s1 fd \<noteq> None" using ready(1) by (simp add: in_hand_def)
  then have s2: "in_hand fd ctx3 s2" using ctl_in_hand [OF ctl] ready(1) by simp
  have fine: "server_ok s2" if "access = OK" "ok"
    using ctl_or_close [OF ctl ready(1) ready(3) [OF that(1)]] that(2) by simp
  have answer: "answer_request fs fd ctx s = Inr (if code \<noteq> OK then send_error fd (ctx\<lparr>http_req := req\<rparr>) code s
      else if access \<noteq> OK then send_error fd ctx3 access s1
      else if ok then s2 else send_error fd ctx3 INTERNAL_SERVER_ERROR s2)"
    using p prep ctl by (simp add: answer_request_def ctx2_def [symmetric] Let_def cong: if_cong)
  show ?thesis
    unfolding answer
    using http_error_ok [OF hand(2) same(3)] http_error_ok [OF ready(1,2)] http_error_ok [OF s2 ready(2)] fine by simp
qed

section \<open>The loop of \<open>handle_epollin\<close>\<close>

text \<open>How much a call may read.\<close>

fun amount :: "read_result list \<Rightarrow> nat" where
  "amount (Read_Data d # rs) = length d + amount rs"
| "amount _ = 0"

lemma epollin_loop_ok:
  assumes "fs_ok fs" "in_hand fd ctx s" "fits (files s) (Some EPOLLIN) ctx" "watched s fd = Some EPOLLIN"
  shows "(\<exists>s'. epollin_loop fs fd ctx rs s = Inr s' \<and> server_ok s') \<or>
    epollin_loop fs fd ctx rs s = Inl Out_Of_Bounds \<and> MAX_HDR \<le> read_len ctx + amount rs"
  using assms(2,3)
proof (induction rs arbitrary: ctx)
  case Nil
  then show ?case using put_back [OF Nil(1)] assms(4) by simp
next
  case (Cons r rs)
  have buf: "buffers ctx" "read_len ctx < MAX_HDR" using Cons(3) by (simp_all add: fits_def buffers_def)
  show ?case
  proof (cases r)
    case (Read_Data input)
    let ?d = "take (MAX_HDR - read_len ctx) input"
    consider "?d = []" | "?d \<noteq> []" "read_len ctx + length ?d < MAX_HDR" | "\<not> read_len ctx + length ?d < MAX_HDR" by blast
    then show ?thesis
    proof cases
      case 1
      then show ?thesis using close_connection_ok [OF Cons(2)] Read_Data by simp
    next
      case 2
      obtain ctx1 where c: "store_read ?d ctx = Inr ctx1" "buffers ctx1" "0 \<in> set (read_buffer ctx1)"
          "c_strlen (read_buffer ctx1) \<le> MAX_URL" "file_fd ctx1 = file_fd ctx" "read_len ctx1 = read_len ctx + length ?d"
          "file_remain ctx1 = file_remain ctx" "header_sent ctx1 = header_sent ctx" "header_len ctx1 = header_len ctx"
        by (rule store_read_ok [OF buf(1) 2(2)]) blast
      have hand: "in_hand fd ctx1 s" using in_hand_same [OF Cons(2)] c(5) by simp
      have fit: "fits (files s) (Some EPOLLIN) ctx1" using Cons(3) c by (simp add: fits_def)
      obtain found where f: "strstr (read_buffer ctx1) CRLFCRLF = Inr found"
        using strstr_no_fault [OF c(3), of CRLFCRLF] by (auto simp: CRLFCRLF_eq)
      have "read_len ctx1 \<noteq> MAX_HDR" using c(2) by (simp add: buffers_def)
      then have loop: "epollin_loop fs fd ctx (r # rs) s =
          (if found \<noteq> None then answer_request fs fd ctx1 s else epollin_loop fs fd ctx1 rs s)"
        using Read_Data 2 c(1) f by (simp add: Let_def)
      have "file_fd ctx1 < 0" using fit by (simp add: fits_def)
      note answer = answer_request_ok [OF assms(1) hand c(2) this c(3,4)]
      show ?thesis
      proof (cases found)
        case None
        have "read_len ctx1 + amount rs \<le> read_len ctx + amount (r # rs)" using c(6) Read_Data by simp
        then show ?thesis using Cons(1) [OF hand fit] loop None by auto
      qed (use answer loop in simp)
    next
      case 3
      then have "epollin_loop fs fd ctx (r # rs) s = Inl Out_Of_Bounds" "MAX_HDR \<le> read_len ctx + length input"
        using Read_Data buf(2) by (auto simp: store_read_def Let_def)
      then show ?thesis using Read_Data by simp
    qed
  next
    case Read_Again
    then show ?thesis using put_back [OF Cons(2)] Cons(3) assms(4) by simp
  next
    case Read_Failed
    then show ?thesis using close_connection_ok [OF Cons(2)] by simp
  qed
qed

section \<open>Writing\<close>

definition stretch :: "nat \<Rightarrow> nat \<Rightarrow> bytes \<Rightarrow> bytes" where
  "stretch i j b = take (j - i) (drop i b)"

lemma stretch_append [simp]:
  assumes "i \<le> j" "j \<le> k"
  shows "stretch i j b @ stretch j k b = stretch i k b"
proof -
  have "k - i = (j - i) + (k - j)" "drop j b = drop (j - i) (drop i b)" using assms by simp_all
  then show ?thesis by (simp only: stretch_def take_add)
qed

lemma stretch_append2 [simp]: "i \<le> j \<Longrightarrow> j \<le> k \<Longrightarrow> stretch i j b @ stretch j k b @ c = stretch i k b @ c"
  using stretch_append by (metis append_assoc)

lemma stretch_same [simp]: "stretch i i b = []"
  by (simp add: stretch_def)

lemma send_bytes_simps [simp]:
  "send_bytes fd c (send_bytes fd b s) = send_bytes fd (b @ c) s"
  "send_bytes fd [] s = s"
  "files (send_bytes fd b s) = files s" "conns (send_bytes fd b s) = conns s"
  "watched (send_bytes fd b s) = watched s" "ctl_results (send_bytes fd b s) = ctl_results s" "g_stop (send_bytes fd b s) = g_stop s"
  "sent_to (send_bytes fd b s) fd = sent_to s fd @ b"
  by (simp_all add: send_bytes_def)

text \<open>The system calls all succeed, often enough for \<open>n\<close> bytes.\<close>

definition enough :: "nat \<Rightarrow> write_result list \<Rightarrow> bool" where
  "enough n ws \<longleftrightarrow> n \<le> length ws \<and> (\<forall>w \<in> set ws. case w of Wrote k \<Rightarrow> 0 < k | _ \<Rightarrow> False)"

text \<open>Whatever the system calls answer, a loop sends a part of what is left and answers whether it
  sent all of it, or closes the connection when a call fails.\<close>

definition sends :: "nat \<Rightarrow> (nat \<Rightarrow> connection_context) \<Rightarrow> (nat \<Rightarrow> bytes) \<Rightarrow> nat \<Rightarrow> write_result list \<Rightarrow> server \<Rightarrow>
    bool \<times> connection_context option \<times> server \<Rightarrow> bool" where
  "sends fd ctx_after part left_over ws s result \<longleftrightarrow>
     (\<exists>n \<le> left_over.
        result = (n = left_over, Some (ctx_after n), send_bytes fd (part n) s) \<and> (enough left_over ws \<longrightarrow> n = left_over) \<or>
        result = (False, None, close_connection fd (ctx_after n) (send_bytes fd (part n) s)) \<and>
        Write_Failed \<in> set ws)"

lemma send_header_sends:
  assumes "header_sent ctx \<le> header_len ctx" "header_len ctx \<le> length (header_buf ctx)"
  shows "sends fd (\<lambda>n. ctx\<lparr>header_sent := header_sent ctx + n\<rparr>)
    (\<lambda>n. stretch (header_sent ctx) (header_sent ctx + n) (header_buf ctx)) (header_len ctx - header_sent ctx) ws s
    (send_header fd ctx ws s)"
  using assms
proof (induction ws arbitrary: ctx s)
  case Nil
  then show ?case by (auto simp: sends_def send_header.simps enough_def intro!: exI [of _ 0])
next
  case (Cons w ws)
  show ?case
  proof (cases "header_sent ctx < header_len ctx")
    case True
    show ?thesis
    proof (cases w)
      case (Wrote k)
      define m where "m = min k (header_len ctx - header_sent ctx)"
      let ?b = "take k (take (header_len ctx - header_sent ctx) (drop (header_sent ctx) (header_buf ctx)))"
      have b: "length ?b = m" "?b = stretch (header_sent ctx) (header_sent ctx + m) (header_buf ctx)"
        using Cons(3) by (simp_all add: m_def stretch_def)
      let ?ctx = "ctx\<lparr>header_sent := header_sent ctx + m\<rparr>"
      have step: "send_header fd ctx (w # ws) s = send_header fd ?ctx ws (send_bytes fd ?b s)"
        using True Wrote b(1) by (simp add: send_header.simps [of _ ctx] Let_def)
      have m: "m \<le> header_len ctx - header_sent ctx" by (simp add: m_def)
      have "header_sent ?ctx \<le> header_len ?ctx" "header_len ?ctx \<le> length (header_buf ?ctx)"
        using Cons(2,3) m by simp_all
      from Cons(1) [OF this, of "send_bytes fd ?b s"] obtain n where n: "n \<le> header_len ctx - header_sent ctx - m"
        "send_header fd ctx (w # ws) s = (n = header_len ctx - header_sent ctx - m,
           Some (ctx\<lparr>header_sent := header_sent ctx + (m + n)\<rparr>),
           send_bytes fd (stretch (header_sent ctx) (header_sent ctx + (m + n)) (header_buf ctx)) s) \<and>
           (enough (header_len ctx - header_sent ctx - m) ws \<longrightarrow> n = header_len ctx - header_sent ctx - m) \<or>
         send_header fd ctx (w # ws) s = (False, None, close_connection fd (ctx\<lparr>header_sent := header_sent ctx + (m + n)\<rparr>)
           (send_bytes fd (stretch (header_sent ctx) (header_sent ctx + (m + n)) (header_buf ctx)) s)) \<and> Write_Failed \<in> set ws"
        unfolding step sends_def b(2) by (auto simp: add.assoc)
      have "enough (header_len ctx - header_sent ctx) (w # ws) \<Longrightarrow> enough (header_len ctx - header_sent ctx - m) ws"
        using True Wrote by (auto simp: enough_def m_def)
      then show ?thesis using n m unfolding sends_def by (intro exI [of _ "m + n"]) auto
    qed (use True in \<open>auto simp: sends_def send_header.simps [of _ ctx] enough_def intro!: exI [of _ 0]\<close>)
  qed (use Cons(2) in \<open>auto simp: sends_def send_header.simps [of _ ctx] enough_def\<close>)
qed

lemma send_body_sends:
  assumes "0 < file_remain ctx \<Longrightarrow> files s (file_fd ctx) = Some f \<and> file_offset ctx + file_remain ctx \<le> length f"
  shows "sends fd (\<lambda>n. ctx\<lparr>file_offset := file_offset ctx + n, file_remain := file_remain ctx - n\<rparr>)
    (\<lambda>n. stretch (file_offset ctx) (file_offset ctx + n) f) (file_remain ctx) ws s (send_body fd ctx ws s)"
  using assms
proof (induction ws arbitrary: ctx s)
  case Nil
  then show ?case by (auto simp: sends_def send_body.simps enough_def intro!: exI [of _ 0])
next
  case (Cons w ws)
  show ?case
  proof (cases "0 < file_remain ctx")
    case True
    show ?thesis
    proof (cases w)
      case (Wrote k)
      define m where "m = min k (file_remain ctx)"
      let ?b = "take k (take (file_remain ctx) (drop (file_offset ctx) f))"
      have b: "length ?b = m" "?b = stretch (file_offset ctx) (file_offset ctx + m) f"
        using Cons(2) [OF True] by (auto simp add: m_def stretch_def)
      let ?ctx = "ctx\<lparr>file_offset := file_offset ctx + m, file_remain := file_remain ctx - m\<rparr>"
      have step: "send_body fd ctx (w # ws) s = send_body fd ?ctx ws (send_bytes fd ?b s)"
        using True Wrote b(1) Cons(2) [OF True] by (simp add: send_body.simps [of _ ctx] Let_def)
      have m: "m \<le> file_remain ctx" by (simp add: m_def)
      have "0 < file_remain ?ctx \<Longrightarrow> files (send_bytes fd ?b s) (file_fd ?ctx) = Some f \<and>
          file_offset ?ctx + file_remain ?ctx \<le> length f" using Cons(2) [OF True] by simp
      from Cons(1) [OF this] obtain n where n: "n \<le> file_remain ctx - m"
        "send_body fd ctx (w # ws) s = (n = file_remain ctx - m,
           Some (ctx\<lparr>file_offset := file_offset ctx + (m + n), file_remain := file_remain ctx - (m + n)\<rparr>),
           send_bytes fd (stretch (file_offset ctx) (file_offset ctx + (m + n)) f) s) \<and>
           (enough (file_remain ctx - m) ws \<longrightarrow> n = file_remain ctx - m) \<or>
         send_body fd ctx (w # ws) s = (False, None, close_connection fd
             (ctx\<lparr>file_offset := file_offset ctx + (m + n), file_remain := file_remain ctx - (m + n)\<rparr>)
           (send_bytes fd (stretch (file_offset ctx) (file_offset ctx + (m + n)) f) s)) \<and> Write_Failed \<in> set ws"
        unfolding step sends_def b(2) by (auto simp: add.assoc)
      have "enough (file_remain ctx) (w # ws) \<Longrightarrow> enough (file_remain ctx - m) ws"
        using True Wrote by (auto simp: enough_def m_def)
      then show ?thesis using n m unfolding sends_def by (intro exI [of _ "m + n"]) auto
    qed (use True in \<open>auto simp: sends_def send_body.simps [of _ ctx] enough_def intro!: exI [of _ 0]\<close>)
  qed (auto simp: sends_def send_body.simps [of _ ctx] enough_def)
qed

end
