(* ===== verification/Http_Delivery.thy ===== *)
theory Http_Delivery
  imports Http_Events
begin

text \<open>
  What a client receives: the rest of the response that a context stands for, and that the write
  events of the web server deliver it, in order and completely, whatever amounts the kernel takes.
\<close>

section \<open>The rest of a response\<close>

definition body_left :: "(int \<Rightarrow> bytes option) \<Rightarrow> connection_context \<Rightarrow> bytes" where
  "body_left open_files ctx =
     (case open_files (file_fd ctx) of
        None \<Rightarrow> []
      | Some f \<Rightarrow> stretch (file_offset ctx) (file_offset ctx + file_remain ctx) f)"

definition to_send :: "(int \<Rightarrow> bytes option) \<Rightarrow> connection_context \<Rightarrow> bytes" where
  "to_send open_files ctx =
     (if write_phase ctx = RESP_WRITING_HEADER then stretch (header_sent ctx) (header_len ctx) (header_buf ctx) else []) @
     body_left open_files ctx"

definition header_left :: "connection_context \<Rightarrow> nat" where
  "header_left ctx = (if write_phase ctx = RESP_WRITING_HEADER then header_len ctx - header_sent ctx else 0)"

text \<open>What a write event does to the connection: it sends a part of the rest and keeps the
  context, or all of it and then resets the context or closes; it closes early only when a call
  fails.\<close>

definition progress :: "nat \<Rightarrow> connection_context \<Rightarrow> bytes \<Rightarrow> server \<Rightarrow> bool \<Rightarrow> bool \<Rightarrow> server \<Rightarrow> bool" where
  "progress fd ctx before s failure all_taken s' \<longleftrightarrow>
     (case conns s' fd of
        None \<Rightarrow> \<exists>rest. sent_to s' fd @ rest = before \<and> (rest = [] \<or> failure) \<and>
          (failure \<or> ctl_results s \<noteq> [] \<or> g_stop s \<or> keep_alive (http_req ctx) = CLOSE)
      | Some ctx' \<Rightarrow> sent_to s' fd @ to_send (files s') ctx' = before \<and>
          length (sent_to s fd) \<le> length (sent_to s' fd) \<and>
          (watched s' fd = Some EPOLLIN \<and> ctx' = new_context \<and> \<not> g_stop s \<and> keep_alive (http_req ctx) = KEEP_ALIVE \<or>
           watched s' fd = Some EPOLLOUT \<and> \<not> all_taken \<and> http_req ctx' = http_req ctx \<and> g_stop s' = g_stop s \<and>
           ctl_results s' = ctl_results s))"

lemma reset_context_new: "reset_context ctx = new_context"
  by (cases ctx) (simp add: reset_context_def new_context_def)

lemma fits_new: "fits t w new_context"
  using buffers_new(1) by (simp add: fits_def) (simp add: new_context_def)

lemma body_left_header [simp]: "body_left t (ctx\<lparr>header_sent := n\<rparr>) = body_left t ctx"
  "body_left t (ctx\<lparr>write_phase := w\<rparr>) = body_left t ctx"
  by (simp_all add: body_left_def split: option.split)

lemma body_left_done: "file_remain ctx = 0 \<Longrightarrow> body_left t ctx = []"
  by (simp add: body_left_def split: option.splits)

lemma to_send_new [simp]: "to_send t new_context = []"
  by (simp add: to_send_def body_left_done new_context_def)

lemma close_sent [simp]: "sent_to (close_connection fd ctx s) = sent_to s" "conns (close_connection fd ctx s) fd = None"
  by (simp_all add: close_connection_def close_file_def)

lemma put_simps [simp]:
  "conns (put_context fd ctx s) fd = Some ctx" "sent_to (put_context fd ctx s) = sent_to s"
  "files (put_context fd ctx s) = files s" "ctl_results (put_context fd ctx s) = ctl_results s" "watched (put_context fd ctx s) = watched s"
  "g_stop (put_context fd ctx s) = g_stop s"
  by (simp_all add: put_context_def)

lemma close_file_simps [simp]: "sent_to (close_file ctx s) = sent_to s" "ctl_results (close_file ctx s) = ctl_results s"
  by (simp_all add: close_file_def)

lemma finish_response_ok:
  assumes "in_hand fd ctx s"
  shows "server_ok (finish_response fd ctx s)"
    "progress fd ctx (sent_to s fd) s failure taken (finish_response fd ctx s)"
proof -
  have new: "in_hand fd new_context (close_file ctx s)"
    using assms by (rule close_file_in_hand) (simp add: new_context_def)
  let ?s = "put_context fd new_context (close_file ctx s)"
  have "server_ok (finish_response fd ctx s) \<and> progress fd ctx (sent_to s fd) s failure taken (finish_response fd ctx s)"
  proof (cases "g_stop s \<or> keep_alive (http_req ctx) = CLOSE")
    case True
    then show ?thesis using close_connection_ok [OF assms] by (simp add: finish_response_def progress_def)
  next
    case False
    obtain ok s1 where ctl: "epoll_ctl fd EPOLLIN ?s = (ok, s1)" by fastforce
    have "server_ok (if ok then s1 else close_connection fd new_context s1)"
      using ctl new fits_new by (rule ctl_or_close)
    moreover have "finish_response fd ctx s = (if ok then s1 else close_connection fd new_context s1)"
      using False ctl by (simp add: finish_response_def reset_context_new Let_def)
    moreover have "progress fd ctx (sent_to s fd) s failure taken (if ok then s1 else close_connection fd new_context s1)"
    proof (cases fd EPOLLIN ?s rule: ctl_cases)
      case success
      have "keep_alive (http_req ctx) = KEEP_ALIVE" using False by (cases "keep_alive (http_req ctx)") simp_all
      then show ?thesis using success ctl False by (auto simp: progress_def)
    next
      case failed
      then have "ctl_results s \<noteq> []" by (auto simp: epoll_ctl_def)
      then show ?thesis using failed ctl by (auto simp: progress_def)
    qed
    ultimately show ?thesis by simp
  qed
  then show "server_ok (finish_response fd ctx s)"
    "progress fd ctx (sent_to s fd) s failure taken (finish_response fd ctx s)" by simp_all
qed

lemma progress_weaken:
  "progress fd ctx b s failure taken s' \<Longrightarrow> (failure \<Longrightarrow> failure') \<Longrightarrow> (taken' \<Longrightarrow> taken) \<Longrightarrow> http_req ctx = http_req ctx0 \<Longrightarrow>
     g_stop s = g_stop s0 \<Longrightarrow> length (sent_to s0 fd) \<le> length (sent_to s fd) \<Longrightarrow> ctl_results s = ctl_results s0 \<Longrightarrow>
     progress fd ctx0 b s0 failure' taken' s'"
  by (auto simp: progress_def split: option.splits)

lemma body_phase_ok:
  assumes "in_hand fd ctx s" "fits (files s) (Some EPOLLOUT) ctx" "watched s fd = Some EPOLLOUT"
    "write_phase ctx = RESP_WRITING_BODY"
  shows "server_ok (body_phase fd ctx ws s)"
    "progress fd ctx (sent_to s fd @ body_left (files s) ctx) s (Write_Failed \<in> set ws) (enough (file_remain ctx) ws)
       (body_phase fd ctx ws s)"
proof -
  have "\<exists>f. 0 < file_remain ctx \<longrightarrow> files s (file_fd ctx) = Some f \<and> file_offset ctx + file_remain ctx \<le> length f"
    using assms(2) by (auto simp: fits_def)
  then obtain f where f: "0 < file_remain ctx \<Longrightarrow>
      files s (file_fd ctx) = Some f \<and> file_offset ctx + file_remain ctx \<le> length f" by auto
  have left: "body_left (files s) ctx = stretch (file_offset ctx) (file_offset ctx + file_remain ctx) f"
    if "0 < file_remain ctx" using f [OF that] by (simp add: body_left_def)
  define after where "after = (\<lambda>n. ctx\<lparr>file_offset := file_offset ctx + n, file_remain := file_remain ctx - n\<rparr>)"
  define part where "part = (\<lambda>n. stretch (file_offset ctx) (file_offset ctx + n) f)"
  have hand: "in_hand fd (after n) (send_bytes fd (part n) s)" for n
    using in_hand_same [OF assms(1)] by (simp add: after_def)
  have split: "part n @ body_left (files s) (after n) = body_left (files s) ctx" if "n \<le> file_remain ctx" for n
  proof (cases "0 < file_remain ctx")
    case True
    then have "body_left (files s) (after n) = stretch (file_offset ctx + n) (file_offset ctx + file_remain ctx) f"
      using f [OF True] that by (simp add: body_left_def after_def)
    then show ?thesis using left [OF True] that by (simp add: part_def)
  next
    case False
    then have "n = 0" using that by simp
    then show ?thesis using False by (simp add: part_def after_def body_left_done)
  qed
  obtain n where n: "n \<le> file_remain ctx"
    "send_body fd ctx ws s = (n = file_remain ctx, Some (after n), send_bytes fd (part n) s) \<and>
       (enough (file_remain ctx) ws \<longrightarrow> n = file_remain ctx) \<or>
     send_body fd ctx ws s = (False, None, close_connection fd (after n) (send_bytes fd (part n) s)) \<and>
       Write_Failed \<in> set ws"
    using send_body_sends [OF f, where ?ws = ws] unfolding sends_def after_def part_def by blast
  let ?before = "sent_to s fd @ body_left (files s) ctx" and ?failed = "Write_Failed \<in> set ws"
  let ?taken = "enough (file_remain ctx) ws" and ?s = "send_bytes fd (part n) s"
  have "server_ok (body_phase fd ctx ws s) \<and> progress fd ctx ?before s ?failed ?taken (body_phase fd ctx ws s)"
    using n(2)
  proof
    assume "send_body fd ctx ws s = (False, None, close_connection fd (after n) ?s) \<and> ?failed"
    then show ?thesis
      using close_connection_ok [OF hand] split [OF n(1)] by (auto simp: body_phase_def progress_def)
  next
    assume sent: "send_body fd ctx ws s = (n = file_remain ctx, Some (after n), ?s) \<and> (?taken \<longrightarrow> n = file_remain ctx)"
    show ?thesis
    proof (cases "n = file_remain ctx")
      case True
      have phase: "body_phase fd ctx ws s = finish_response fd (after n) ?s" using sent True by (simp add: body_phase_def)
      have "sent_to ?s fd = ?before" using split [OF n(1)] True by (simp add: after_def body_left_done)
      then have "progress fd (after n) ?before ?s ?failed ?taken (finish_response fd (after n) ?s)"
        using finish_response_ok(2) [OF hand] by metis
      then have "progress fd ctx ?before s ?failed ?taken (finish_response fd (after n) ?s)"
        by (rule progress_weaken) (simp_all add: after_def)
      then show ?thesis unfolding phase using finish_response_ok(1) [OF hand] by simp
    next
      case False
      have phase: "body_phase fd ctx ws s = put_context fd (after n) ?s" using sent False by (simp add: body_phase_def)
      have "fits (files ?s) (watched ?s fd) (after n)"
        using assms(2,3) f n(1) by (auto simp: fits_def after_def buffers_def)
      then have "server_ok (put_context fd (after n) ?s)" using hand by (intro put_back)
      moreover have "to_send (files s) (after n) = body_left (files s) (after n)"
        using assms(4) by (simp add: to_send_def after_def)
      ultimately show ?thesis
        unfolding phase using split [OF n(1)] sent False assms(3) by (simp add: progress_def) (simp add: after_def)
    qed
  qed
  then show "server_ok (body_phase fd ctx ws s)" "progress fd ctx ?before s ?failed ?taken (body_phase fd ctx ws s)"
    by simp_all
qed

text \<open>The whole handler.\<close>

lemma handle_epollout_ok:
  assumes "server_ok s" "conns s fd = Some ctx" "watched s fd = Some EPOLLOUT"
  obtains s' where "handle_epollout fd ws fws s = Inr s'" "server_ok s'"
    "progress fd ctx (sent_to s fd @ to_send (files s) ctx) s (Write_Failed \<in> set (ws @ fws))
       (enough (header_left ctx) ws \<and> enough (file_remain ctx) fws) s'"
proof -
  have hand: "in_hand fd ctx s" using assms(1,2) by (rule take_in_hand)
  have fit: "fits (files s) (Some EPOLLOUT) ctx" using assms unfolding server_ok_def by metis
  show thesis
  proof (cases "write_phase ctx")
    case RESP_WRITING_BODY
    show thesis
    proof (rule that)
      show "handle_epollout fd ws fws s = Inr (body_phase fd ctx fws s)"
        using assms(2) RESP_WRITING_BODY by (simp add: handle_epollout_def)
      show "server_ok (body_phase fd ctx fws s)" by (rule body_phase_ok [OF hand fit assms(3) RESP_WRITING_BODY])
      have "to_send (files s) ctx = body_left (files s) ctx" using RESP_WRITING_BODY by (simp add: to_send_def)
      then show "progress fd ctx (sent_to s fd @ to_send (files s) ctx) s (Write_Failed \<in> set (ws @ fws))
          (enough (header_left ctx) ws \<and> enough (file_remain ctx) fws) (body_phase fd ctx fws s)"
        using body_phase_ok(2) [OF hand fit assms(3) RESP_WRITING_BODY, of fws]
        by (simp) (erule progress_weaken; simp)
    qed
  next
    case RESP_WRITING_HEADER
    define after where "after = (\<lambda>n. ctx\<lparr>header_sent := header_sent ctx + n\<rparr>)"
    define part where "part = (\<lambda>n. stretch (header_sent ctx) (header_sent ctx + n) (header_buf ctx))"
    have bounds: "header_sent ctx \<le> header_len ctx" "header_len ctx \<le> length (header_buf ctx)"
      using fit by (simp_all add: fits_def buffers_def)
    obtain n where n: "n \<le> header_len ctx - header_sent ctx"
      "send_header fd ctx ws s = (n = header_len ctx - header_sent ctx, Some (after n), send_bytes fd (part n) s) \<and>
         (enough (header_len ctx - header_sent ctx) ws \<longrightarrow> n = header_len ctx - header_sent ctx) \<or>
       send_header fd ctx ws s = (False, None, close_connection fd (after n) (send_bytes fd (part n) s)) \<and>
         Write_Failed \<in> set ws"
      using send_header_sends [OF bounds, where ?ws = ws] unfolding sends_def after_def part_def by blast
    let ?s = "send_bytes fd (part n) s" and ?before = "sent_to s fd @ to_send (files s) ctx"
    have hand1: "in_hand fd (after n) ?s" using in_hand_same [OF hand] by (simp add: after_def)
    have fit1: "fits (files ?s) (Some EPOLLOUT) (after n)"
      using fit n(1) bounds(1) by (simp add: fits_def after_def buffers_def)
    have split: "part n @ to_send (files s) (after n) = to_send (files s) ctx"
      using n(1) bounds(1) RESP_WRITING_HEADER by (simp add: part_def after_def to_send_def)
    have left: "header_left ctx = header_len ctx - header_sent ctx" using RESP_WRITING_HEADER by (simp add: header_left_def)
    show thesis
      using n(2)
    proof
      assume closed: "send_header fd ctx ws s = (False, None, close_connection fd (after n) ?s) \<and> Write_Failed \<in> set ws"
      show thesis
      proof (rule that)
        show "handle_epollout fd ws fws s = Inr (close_connection fd (after n) ?s)"
          using assms(2) RESP_WRITING_HEADER closed by (simp add: handle_epollout_def)
        show "server_ok (close_connection fd (after n) ?s)" by (rule close_connection_ok [OF hand1])
        show "progress fd ctx ?before s (Write_Failed \<in> set (ws @ fws))
          (enough (header_left ctx) ws \<and> enough (file_remain ctx) fws) (close_connection fd (after n) ?s)"
          using closed split by (auto simp: progress_def)
      qed
    next
      assume sent: "send_header fd ctx ws s = (n = header_len ctx - header_sent ctx, Some (after n), ?s) \<and>
         (enough (header_len ctx - header_sent ctx) ws \<longrightarrow> n = header_len ctx - header_sent ctx)"
      show thesis
      proof (cases "n = header_len ctx - header_sent ctx")
        case False
        show thesis
        proof (rule that)
          show "handle_epollout fd ws fws s = Inr (put_context fd (after n) ?s)"
            using assms(2) RESP_WRITING_HEADER sent False by (simp add: handle_epollout_def)
          show "server_ok (put_context fd (after n) ?s)" using hand1 fit1 assms(3) by (intro put_back) simp_all
          show "progress fd ctx ?before s (Write_Failed \<in> set (ws @ fws))
              (enough (header_left ctx) ws \<and> enough (file_remain ctx) fws) (put_context fd (after n) ?s)"
            using split sent False assms(3) left by (simp add: progress_def) (simp add: after_def)
        qed
      next
        case True
        define ctx1 where "ctx1 = (after n)\<lparr>write_phase := RESP_WRITING_BODY\<rparr>"
        have hand2: "in_hand fd ctx1 ?s" using in_hand_same [OF hand1] by (simp add: ctx1_def)
        have fit2: "fits (files ?s) (Some EPOLLOUT) ctx1" using fit1 by (simp add: fits_def ctx1_def buffers_def)
        have watched: "watched ?s fd = Some EPOLLOUT" and phase: "write_phase ctx1 = RESP_WRITING_BODY"
          using assms(3) by (simp_all add: ctx1_def)
        have before: "sent_to ?s fd @ body_left (files ?s) ctx1 = ?before"
          using split True bounds(1) by (simp add: ctx1_def after_def to_send_def)
        have same: "file_remain ctx1 = file_remain ctx" by (simp add: ctx1_def after_def)
        show thesis
        proof (rule that)
          show "handle_epollout fd ws fws s = Inr (body_phase fd ctx1 fws ?s)"
            using assms(2) RESP_WRITING_HEADER sent True by (simp add: handle_epollout_def ctx1_def)
          show "server_ok (body_phase fd ctx1 fws ?s)" by (rule body_phase_ok [OF hand2 fit2 watched phase])
          show "progress fd ctx ?before s (Write_Failed \<in> set (ws @ fws))
              (enough (header_left ctx) ws \<and> enough (file_remain ctx) fws) (body_phase fd ctx1 fws ?s)"
            using body_phase_ok(2) [OF hand2 fit2 watched phase, of fws] unfolding before same
            by (rule progress_weaken) (simp_all add: ctx1_def after_def)
        qed
      qed
    qed
  qed
qed

end
