(* ===== verification/Http_Reading.thy ===== *)
theory Http_Reading
  imports Http_Delivery "HOL-Library.Sublist"
begin

text \<open>
  How a request arrives: the read events of the web server collect it in whatever chunks the
  kernel hands over, and answer once when its empty line is there.
\<close>

section \<open>The received bytes\<close>

text \<open>The context of a connection that has received \<open>b\<close> of its next request.\<close>

definition received :: "bytes \<Rightarrow> connection_context" where
  "received b = new_context\<lparr>read_buffer := b @ replicate (MAX_HDR - length b) 0, read_len := length b\<rparr>"

lemma received_Nil: "received [] = new_context"
  by (simp add: received_def new_context_def)

lemma received_simps [simp]:
  "read_buffer (received b) = b @ replicate (MAX_HDR - length b) 0" "read_len (received b) = length b"
  "file_fd (received b) = -1" "http_req (received b) = zero_request"
  by (simp_all add: received_def new_context_def)

lemma store_received:
  assumes "length (b @ d) < MAX_HDR"
  shows "store_read d (received b) = Inr (received (b @ d))"
proof -
  have "drop (length d) (replicate (MAX_HDR - length b) 0) = 0 # replicate (MAX_HDR - length (b @ d) - 1) (0 :: u8)"
    using assms by (simp add: replicate_Suc [symmetric] del: replicate_Suc)
  then have "put (length b) d (read_buffer (received b)) = (b @ d) @ 0 # replicate (MAX_HDR - length (b @ d) - 1) 0"
    by (simp add: put_past)
  then have "put (length (b @ d)) [0] (put (length b) d (read_buffer (received b))) =
      (b @ d) @ 0 # replicate (MAX_HDR - length (b @ d) - 1) 0"
    by (simp only: put_past) simp
  moreover have "0 # replicate (MAX_HDR - length (b @ d) - 1) (0 :: u8) = replicate (MAX_HDR - length (b @ d)) 0"
    using assms by (simp add: replicate_Suc [symmetric] del: replicate_Suc)
  ultimately have "put (length (b @ d)) [0] (put (length b) d (read_buffer (received b))) = read_buffer (received (b @ d))"
    by simp
  then show ?thesis using assms by (simp add: store_read_def Let_def) (simp add: received_def)
qed

lemma received_terminated:
  assumes "length b < MAX_HDR"
  shows "read_buffer (received b) = b @ 0 # replicate (MAX_HDR - length b - 1) 0"
  using assms by (simp add: replicate_Suc [symmetric] del: replicate_Suc)

section \<open>One read and one event\<close>

lemma epollin_chunk:
  assumes "d \<noteq> []" "length (b @ d) < MAX_HDR" "0 \<notin> set (b @ d)"
  shows "epollin_loop fs fd (received b) (Read_Data d # rs) s =
    (if sublist CRLFCRLF (b @ d) then answer_request fs fd (received (b @ d)) s
     else epollin_loop fs fd (received (b @ d)) rs s)"
proof -
  have "take (MAX_HDR - length b) d = d" using assms(2) by simp
  moreover obtain found where "strstr (read_buffer (received (b @ d))) CRLFCRLF = Inr found"
      "found \<noteq> None \<longleftrightarrow> sublist CRLFCRLF (b @ d)"
    using strstr_sublist [OF assms(3), of CRLFCRLF] received_terminated [OF assms(2)]
    by (auto simp: CRLFCRLF_eq)
  moreover have "length (b @ d) \<noteq> MAX_HDR" using assms(2) by simp
  ultimately show ?thesis using assms(1) store_received [OF assms(2)] by (simp add: Let_def del: append_assoc)
qed

text \<open>A request is complete when its empty line ends it.\<close>

definition complete :: "bytes \<Rightarrow> bool" where
  "complete text \<longleftrightarrow> sublist CRLFCRLF text \<and> \<not> sublist CRLFCRLF (butlast text)"

lemma incomplete:
  assumes "complete text" "text = b @ c" "c \<noteq> []"
  shows "\<not> sublist CRLFCRLF b"
proof
  assume "sublist CRLFCRLF b"
  then have "sublist CRLFCRLF (butlast text)"
    using assms(2,3) by (metis butlast_append sublist_append_rightI sublist_order.order_trans)
  with assms(1) show False by (simp add: complete_def)
qed

lemma epollin_chunks:
  assumes "\<forall>c \<in> set cs. c \<noteq> []" "complete text" "text = b @ concat cs @ later" "length text < MAX_HDR" "0 \<notin> set text"
    "cs \<noteq> [] \<or> later \<noteq> []"
  shows "epollin_loop fs fd (received b) (map Read_Data cs) s =
    (if later = [] then answer_request fs fd (received text) s else Inr (put_context fd (received (b @ concat cs)) s))"
  using assms
proof (induction cs arbitrary: b)
  case (Cons c cs)
  have bounds: "length (b @ c) < MAX_HDR" "0 \<notin> set (b @ c)" using Cons(4-6) by simp_all
  have here: "epollin_loop fs fd (received b) (map Read_Data (c # cs)) s =
      (if sublist CRLFCRLF (b @ c) then answer_request fs fd (received (b @ c)) s
       else epollin_loop fs fd (received (b @ c)) (map Read_Data cs) s)"
    using epollin_chunk [OF _ bounds] Cons(2) by simp
  show ?case
  proof (cases "concat cs @ later = []")
    case True
    then have "text = b @ c" using Cons(4) by simp
    then show ?thesis using here True Cons(3) by (simp add: complete_def)
  next
    case False
    moreover have "text = (b @ c) @ concat cs @ later" using Cons(4) by simp
    ultimately have "\<not> sublist CRLFCRLF (b @ c)" using incomplete [OF Cons(3)] by blast
    moreover have "cs \<noteq> [] \<or> later \<noteq> []" using False by auto
    ultimately show ?thesis using here Cons(1) [of "b @ c"] Cons(2-6) by simp
  qed
qed simp

section \<open>Several events\<close>

text \<open>Read events with their chunks, each up to \<open>EAGAIN\<close>.\<close>

fun read_events :: "file_system \<Rightarrow> nat \<Rightarrow> bytes list list \<Rightarrow> server \<Rightarrow> server result" where
  "read_events fs fd [] s = Inr s"
| "read_events fs fd (cs # css) s =
     rbind (handle_epollin fs fd (map Read_Data cs) s) (\<lambda>s1. read_events fs fd css s1)"

lemma put_put [simp]: "put_context fd a (put_context fd b s) = put_context fd a s"
  by (simp add: put_context_def)

lemma put_files: "put_context fd a (s\<lparr>files := t\<rparr>) = (put_context fd a s)\<lparr>files := t\<rparr>"
  by (simp add: put_context_def)

lemma send_error_put [simp]: "send_error fd ctx code (put_context fd b s) = send_error fd ctx code s"
  by (simp add: send_error_def Let_def)

lemma prepare_response_put:
  "prepare_response fs ctx (put_context fd b s) =
     (case prepare_response fs ctx s of (code, ctx', s') \<Rightarrow> (code, ctx', put_context fd b s'))"
  by (simp add: prepare_response_def Let_def put_files split: stat_result.split)

lemma answer_request_put [simp]: "answer_request fs fd ctx (put_context fd b s) = answer_request fs fd ctx s"
proof -
  have "g_stop (put_context fd b s) = g_stop s" by simp
  then show ?thesis
    unfolding answer_request_def
    by (intro arg_cong2 [of _ _ _ _ rbind] refl ext)
      (auto simp: Let_def prepare_response_put split: prod.split)
qed

lemma read_events_chunks:
  assumes "conns s fd = Some (received b)" "text = b @ concat (concat css)" "\<forall>cs \<in> set css. cs \<noteq> [] \<and> (\<forall>c \<in> set cs. c \<noteq> [])"
    "css \<noteq> []" "complete text" "length text < MAX_HDR" "0 \<notin> set text"
  shows "read_events fs fd css s = answer_request fs fd (received text) s"
  using assms
proof (induction css arbitrary: b s)
  case (Cons cs css)
  note IH = Cons.IH and prems = Cons.prems
  let ?later = "concat (concat css)"
  have "text = b @ concat cs @ ?later" "cs \<noteq> [] \<or> ?later \<noteq> []" using Cons(3,4) by simp_all
  then have event: "handle_epollin fs fd (map Read_Data cs) s =
      (if ?later = [] then answer_request fs fd (received text) s else Inr (put_context fd (received (b @ concat cs)) s))"
    using epollin_chunks [of cs "text" b ?later fs fd s] Cons(2,4,6-8) by (simp add: handle_epollin_def)
  show ?case
  proof (cases css)
    case Nil
    then show ?thesis using event by (cases "answer_request fs fd (received text) s") simp_all
  next
    case (Cons cs' css')
    then have "?later \<noteq> []" using prems(3) \<open>css = cs' # css'\<close> by (cases cs') auto
    moreover have "read_events fs fd css (put_context fd (received (b @ concat cs)) s) =
        answer_request fs fd (received text) s"
      using IH [of "put_context fd (received (b @ concat cs)) s" "b @ concat cs"] prems \<open>css = cs' # css'\<close> by simp
    ultimately show ?thesis using event by (simp only: read_events.simps if_False rbind_simps)
  qed
qed simp

end
