(* ===== verification/Http_Runs.thy ===== *)
theory Http_Runs
  imports Http_Reading
begin

text \<open>
  The web server as a whole: events keep the invariant, the states it reaches, runs of write events,
  and that an event touches one connection only.
\<close>

section \<open>Events keep the invariant\<close>

lemma server_ok_results [simp]: "server_ok (s\<lparr>ctl_results := r\<rparr>) = server_ok s"
  by (simp add: server_ok_def tables_ok_def)

lemma server_ok_stop [simp]: "server_ok (s\<lparr>g_stop := b\<rparr>) = server_ok s"
proof -
  have "owner (s\<lparr>g_stop := b\<rparr>) = owner s" by (simp add: owner_def fun_eq_iff)
  then show ?thesis by (simp add: server_ok_def tables_ok_def)
qed

lemma server_ok_watched: "server_ok s \<Longrightarrow> conns s fd = None \<Longrightarrow> watched s fd = None"
  by (auto simp: server_ok_def tables_ok_def)

lemma create_close:
  assumes "conns s fd = None" "watched s fd = None"
  shows "close_connection fd new_context ((create_connection_context fd s)\<lparr>ctl_results := r\<rparr>) = s\<lparr>ctl_results := r\<rparr>"
proof -
  have "(conns s)(fd := None) = conns s" "(watched s)(fd := None) = watched s" using assms by auto
  then show ?thesis
    by (cases s) (simp add: close_connection_def close_file_def create_connection_context_def put_context_def new_context_def)
qed

lemma create_ok:
  assumes "server_ok s" "conns s fd = None"
  shows "server_ok ((create_connection_context fd s)\<lparr>watched := (watched s)(fd := Some EPOLLIN), ctl_results := r\<rparr>)"
proof -
  have "finite (dom (conns s))" "fd \<notin> dom (conns s)" using assms by (auto simp: server_ok_def tables_ok_def)
  moreover have "file_of new_context = None" by (simp add: file_of_def new_context_def)
  then have "(owner s)(fd := file_of new_context) = owner s" using assms(2) by (auto simp: owner_def)
  moreover have "owner ((create_connection_context fd s)\<lparr>watched := (watched s)(fd := Some EPOLLIN), ctl_results := r\<rparr>) =
      (owner s)(fd := file_of new_context)"
    by (auto simp: owner_def create_connection_context_def put_context_def)
  ultimately show ?thesis
    using assms fits_new by (auto simp: server_ok_def tables_ok_def create_connection_context_def put_context_def)
qed

lemma handle_new_connection_ok:
  assumes "server_ok s" "\<And>fd. accepted = Some fd \<Longrightarrow> conns s fd = None"
  shows "server_ok (handle_new_connection accepted nonblocking memory s)"
proof (cases accepted)
  case (Some fd)
  note none = assms(2) [OF Some] and watch = server_ok_watched [OF assms(1) assms(2) [OF Some]]
  have "watched (create_connection_context fd s) = watched s" by (simp add: create_connection_context_def)
  then show ?thesis
    using Some assms(1) create_ok [OF assms(1) none] create_close [OF none watch]
    by (cases fd EPOLLIN "create_connection_context fd s" rule: ctl_cases) (simp_all add: handle_new_connection_def)
qed (use assms in \<open>simp add: handle_new_connection_def\<close>)

text \<open>What the kernel may report: a new connection has an unused descriptor, a context is called
  only for what it watches.\<close>

definition admissible :: "event \<Rightarrow> server \<Rightarrow> bool" where
  "admissible ev s \<longleftrightarrow>
     (case ev of
        New_Connection (Some fd) _ _ \<Rightarrow> conns s fd = None
      | Client fd readable writable _ _ _ \<Rightarrow>
          (readable \<longrightarrow> watched s fd = Some EPOLLIN) \<and> (writable \<longrightarrow> watched s fd = Some EPOLLOUT)
      | _ \<Rightarrow> True)"

text \<open>A read that would fill the buffer.\<close>

definition fills_buffer :: "event \<Rightarrow> server \<Rightarrow> bool" where
  "fills_buffer ev s \<longleftrightarrow>
     (case ev of
        Client fd True _ rs _ _ \<Rightarrow>
          (case conns s fd of None \<Rightarrow> False | Some ctx \<Rightarrow> MAX_HDR \<le> read_len ctx + amount rs)
      | _ \<Rightarrow> False)"

lemma server_ok_context:
  assumes "server_ok s" "watched s fd = Some i"
  obtains ctx where "conns s fd = Some ctx" "in_hand fd ctx s" "fits (files s) (Some i) ctx"
proof -
  have "fd \<in> dom (conns s)" using assms by (auto simp: server_ok_def tables_ok_def)
  then obtain ctx where "conns s fd = Some ctx" by blast
  then show thesis using that take_in_hand assms unfolding server_ok_def by metis
qed

lemma handle_event_ok:
  assumes "fs_ok fs" "server_ok s" "admissible ev s"
  shows "(\<exists>s'. handle_event fs ev s = Inr s' \<and> server_ok s') \<or>
    handle_event fs ev s = Inl Out_Of_Bounds \<and> fills_buffer ev s"
proof (cases ev)
  case (New_Connection accepted nonblocking memory)
  then have "server_ok (handle_new_connection accepted nonblocking memory s)"
    using assms(2,3) by (intro handle_new_connection_ok) (simp_all add: admissible_def)
  then show ?thesis using New_Connection by (simp add: handle_event_def)
next
  case (Client fd readable writable rs ws fws)
  consider (reading) "readable" "\<not> writable" "watched s fd = Some EPOLLIN"
    | (writing) "\<not> readable" "writable" "watched s fd = Some EPOLLOUT" | (nothing) "\<not> readable" "\<not> writable"
    using assms(3) Client by (auto simp: admissible_def)
  then show ?thesis
  proof cases
    case reading
    obtain ctx where ctx: "conns s fd = Some ctx" "in_hand fd ctx s" "fits (files s) (Some EPOLLIN) ctx"
      using assms(2) reading(3) by (rule server_ok_context)
    have "handle_event fs ev s = epollin_loop fs fd ctx rs s"
      using Client reading(1,2) ctx(1) by (cases "epollin_loop fs fd ctx rs s") (simp_all add: handle_event_def handle_epollin_def)
    then show ?thesis
      using epollin_loop_ok [OF assms(1) ctx(2,3) reading(3), of rs] Client reading(1) ctx(1)
      by (simp add: fills_buffer_def)
  next
    case writing
    obtain ctx where ctx: "conns s fd = Some ctx" using assms(2) writing(3) by (rule server_ok_context)
    obtain s' where "handle_epollout fd ws fws s = Inr s'" "server_ok s'"
      by (rule handle_epollout_ok [OF assms(2) ctx writing(3)])
    then show ?thesis using Client writing(1,2) by (simp add: handle_event_def)
  qed (use Client assms(2) in \<open>simp add: handle_event_def\<close>)
qed (use assms(2) in \<open>simp add: handle_event_def\<close>)

section \<open>Reachable states\<close>

definition server_start :: "bool list \<Rightarrow> server" where
  "server_start results = \<lparr>g_stop = False, active_connections = 0, conns = Map.empty, watched = Map.empty,
     sent_to = (\<lambda>_. []), files = Map.empty, ctl_results = results\<rparr>"

inductive http_reachable :: "file_system \<Rightarrow> server \<Rightarrow> bool" for fs where
  start: "http_reachable fs (server_start results)"
| event: "http_reachable fs s \<Longrightarrow> admissible ev s \<Longrightarrow> handle_event fs ev s = Inr s' \<Longrightarrow> http_reachable fs s'"

lemma server_start_ok: "server_ok (server_start results)"
  by (auto simp: server_ok_def tables_ok_def files_ok_def server_start_def owner_def)

lemma http_reachable_ok: "http_reachable fs s \<Longrightarrow> fs_ok fs \<Longrightarrow> server_ok s"
proof (induction rule: http_reachable.induct)
  case (event s ev s')
  then show ?case using handle_event_ok [of fs s ev] by auto
qed (rule server_start_ok)

lemma server_ok_active: "server_ok s \<Longrightarrow> active_connections s = int (card (dom (conns s)))"
  by (simp add: server_ok_def tables_ok_def)

section \<open>Write events\<close>

text \<open>Write events until the connection waits for input again or is closed.\<close>

fun write_events :: "nat \<Rightarrow> (write_result list \<times> write_result list) list \<Rightarrow> server \<Rightarrow> server result" where
  "write_events fd [] s = Inr s"
| "write_events fd ((ws, fws) # es) s =
     (if watched s fd = Some EPOLLOUT then rbind (handle_epollout fd ws fws s) (\<lambda>s1. write_events fd es s1) else Inr s)"

text \<open>No call fails; one event's calls take \<open>n\<close> bytes.\<close>

definition no_failure :: "(write_result list \<times> write_result list) list \<Rightarrow> bool" where
  "no_failure es \<longleftrightarrow> (\<forall>(ws, fws) \<in> set es. Write_Failed \<notin> set (ws @ fws))"

definition takes_all :: "nat \<Rightarrow> (write_result list \<times> write_result list) list \<Rightarrow> bool" where
  "takes_all n es \<longleftrightarrow> (\<exists>(ws, fws) \<in> set es. enough n ws \<and> enough n fws)"

lemma enough_mono: "enough n ws \<Longrightarrow> m \<le> n \<Longrightarrow> enough m ws"
  by (simp add: enough_def)

lemma left_to_send:
  assumes "fits t w ctx"
  shows "header_left ctx \<le> length (to_send t ctx)" "file_remain ctx \<le> length (to_send t ctx)"
proof -
  have "header_left ctx \<le> length (stretch (header_sent ctx) (header_len ctx) (header_buf ctx)) \<or> header_left ctx = 0"
    using assms by (auto simp: fits_def buffers_def stretch_def header_left_def)
  then show "header_left ctx \<le> length (to_send t ctx)" by (auto simp: to_send_def header_left_def)
  have "file_remain ctx \<le> length (body_left t ctx)"
    using assms by (cases "file_remain ctx = 0") (auto simp: fits_def body_left_def stretch_def)
  then show "file_remain ctx \<le> length (to_send t ctx)" by (simp add: to_send_def)
qed

lemma write_events_stop: "watched s fd \<noteq> Some EPOLLOUT \<Longrightarrow> write_events fd es s = Inr s"
  by (cases es) auto

lemma write_events_ok:
  assumes "server_ok s" "conns s fd = Some ctx" "watched s fd = Some EPOLLOUT" "no_failure es"
    "length (to_send (files s) ctx) \<le> n"
  shows "\<exists>s'. write_events fd es s = Inr s' \<and> server_ok s' \<and>
    progress fd ctx (sent_to s fd @ to_send (files s) ctx) s False (takes_all n es) s'"
  using assms
proof (induction es arbitrary: s ctx)
  case Nil
  then show ?case by (simp add: progress_def takes_all_def)
next
  case (Cons e es)
  obtain ws fws where e: "e = (ws, fws)" by fastforce
  have fit: "fits (files s) (Some EPOLLOUT) ctx" using Cons.prems(1-3) unfolding server_ok_def by metis
  let ?before = "sent_to s fd @ to_send (files s) ctx"
  obtain s1 where s1: "handle_epollout fd ws fws s = Inr s1" "server_ok s1"
    "progress fd ctx ?before s (Write_Failed \<in> set (ws @ fws)) (enough (header_left ctx) ws \<and> enough (file_remain ctx) fws) s1"
    by (rule handle_epollout_ok [OF Cons.prems(1-3)])
  have ok: "Write_Failed \<notin> set (ws @ fws)" "no_failure es" using Cons.prems(4) e by (simp_all add: no_failure_def)
  have taken: "takes_all n (e # es) \<Longrightarrow> enough (header_left ctx) ws \<and> enough (file_remain ctx) fws \<or> takes_all n es"
    using e Cons.prems(5) left_to_send [OF fit] by (auto simp: takes_all_def elim!: enough_mono)
  have run: "write_events fd (e # es) s = write_events fd es s1" using e Cons.prems(3) s1(1) by simp
  show ?case
  proof (cases "watched s1 fd = Some EPOLLOUT")
    case False
    then have "write_events fd (e # es) s = Inr s1" using run write_events_stop by simp
    moreover have "progress fd ctx ?before s False (takes_all n (e # es)) s1"
      using s1(3) ok(1) False by (auto simp: progress_def split: option.splits)
    ultimately show ?thesis using s1(2) by simp
  next
    case True
    obtain ctx1 where c: "conns s1 fd = Some ctx1" using s1(2) True by (rule server_ok_context)
    have p: "sent_to s1 fd @ to_send (files s1) ctx1 = ?before" "length (sent_to s fd) \<le> length (sent_to s1 fd)"
        "\<not> (enough (header_left ctx) ws \<and> enough (file_remain ctx) fws)" "http_req ctx1 = http_req ctx" "g_stop s1 = g_stop s" "ctl_results s1 = ctl_results s"
      using s1(3) c True by (auto simp: progress_def)
    have "length (to_send (files s1) ctx1) \<le> n"
      using arg_cong [OF p(1), of length] p(2) Cons.prems(5) by simp
    then obtain s' where s': "write_events fd es s1 = Inr s'" "server_ok s'"
        "progress fd ctx1 ?before s1 False (takes_all n es) s'"
      using Cons.IH [OF s1(2) c True ok(2)] p(1) by auto
    have "progress fd ctx ?before s False (takes_all n (e # es)) s'"
      using s'(3) by (rule progress_weaken) (use taken p in auto)
    then show ?thesis using run s'(1,2) by simp
  qed
qed

section \<open>One connection at a time\<close>

text \<open>A handler touches nothing of the other connections, and nobody but the signal handler stops
  the server.\<close>

definition only_at :: "nat \<Rightarrow> server \<Rightarrow> server \<Rightarrow> bool" where
  "only_at fd s s' \<longleftrightarrow> g_stop s' = g_stop s \<and>
     (\<forall>d. d \<noteq> fd \<longrightarrow> conns s' d = conns s d \<and> watched s' d = watched s d \<and> sent_to s' d = sent_to s d)"

lemma only_at_refl [simp]: "only_at fd s s"
  by (simp add: only_at_def)

lemma only_at_trans: "only_at fd s s1 \<Longrightarrow> only_at fd s1 s2 \<Longrightarrow> only_at fd s s2"
  by (simp add: only_at_def)

lemma only_at_steps [simp]:
  "only_at fd s (put_context fd ctx s)" "only_at fd s (send_bytes fd b s)" "only_at fd s (close_connection fd ctx s)"
  "only_at fd s (close_file ctx s)" "only_at fd s (s\<lparr>files := t\<rparr>)" "only_at fd s (create_connection_context fd s)"
  by (simp_all add: only_at_def put_context_def send_bytes_def close_connection_def close_file_def
      create_connection_context_def)

lemma only_at_ctl: "epoll_ctl fd ev s = (ok, s') \<Longrightarrow> only_at fd s s'"
  by (cases fd ev s rule: ctl_cases) (auto simp: only_at_def)

lemma only_at_ctl_or:
  assumes "only_at fd s0 s" "\<And>s1. only_at fd s0 s1 \<Longrightarrow> only_at fd s0 (f s1)"
  shows "only_at fd s0 (case epoll_ctl fd ev s of (ok, s1) \<Rightarrow> if ok then s1 else f s1)"
proof -
  obtain ok s1 where ctl: "epoll_ctl fd ev s = (ok, s1)" by fastforce
  then have "only_at fd s0 s1" using only_at_trans [OF assms(1) only_at_ctl] by blast
  then show ?thesis using ctl assms(2) by simp
qed

lemma only_at_send_error: "only_at fd s0 s \<Longrightarrow> only_at fd s0 (send_error fd ctx code s)"
  unfolding send_error_def Let_def
  by (rule only_at_ctl_or) (auto intro: only_at_trans)

lemma only_at_prepare: "prepare_response fs ctx s = (code, ctx', s') \<Longrightarrow> only_at fd s s'"
  by (auto simp: prepare_response_def Let_def split: stat_result.splits if_splits)

lemma only_at_answer:
  assumes "answer_request fs fd ctx s = Inr s'"
  shows "only_at fd s s'"
proof -
  obtain code req where p: "parse_request (read_buffer ctx) (http_req ctx) = Inr (code, req)"
    using assms by (auto simp: answer_request_def rbind_eq_Inr_iff)
  let ?ctx = "if g_stop s then ctx\<lparr>http_req := req\<lparr>keep_alive := CLOSE\<rparr>\<rparr> else ctx\<lparr>http_req := req\<rparr>"
  obtain access ctx3 s1 where prep: "prepare_response fs ?ctx s = (access, ctx3, s1)" by (metis prod_cases3)
  have s1: "only_at fd s s1" by (rule only_at_prepare [OF prep])
  then have "only_at fd s (put_context fd ctx3 s1)" using only_at_trans only_at_steps(1) by blast
  then have "only_at fd s (case epoll_ctl fd EPOLLOUT (put_context fd ctx3 s1) of
      (ok, s2) \<Rightarrow> if ok then s2 else send_error fd ctx3 INTERNAL_SERVER_ERROR s2)"
    by (rule only_at_ctl_or) (rule only_at_send_error)
  moreover obtain ok s2 where "epoll_ctl fd EPOLLOUT (put_context fd ctx3 s1) = (ok, s2)" by fastforce
  ultimately show ?thesis
    using assms p prep s1 only_at_send_error [of fd s]
    by (auto simp: answer_request_def Let_def cong: if_cong split: if_splits)
qed

lemma only_at_epollin: "epollin_loop fs fd ctx rs s = Inr s' \<Longrightarrow> only_at fd s s'"
proof (induction fs fd ctx rs s rule: epollin_loop.induct)
  case (4 fs fd ctx input rs s)
  then show ?case
    by (auto simp: Let_def rbind_eq_Inr_iff split: if_splits intro: only_at_answer only_at_send_error)
qed auto

lemma only_at_send_header: "send_header fd ctx ws s = (fin, c, s') \<Longrightarrow> only_at fd s s'"
proof (induction ws arbitrary: ctx s)
  case (Cons w ws)
  then show ?case
    by (cases w) (auto simp: send_header.simps [of fd ctx] Let_def split: if_splits intro: only_at_trans [OF only_at_steps(2)])
qed (auto simp: send_header.simps split: if_splits)

lemma only_at_send_body: "send_body fd ctx ws s = (fin, c, s') \<Longrightarrow> only_at fd s s'"
proof (induction ws arbitrary: ctx s)
  case (Cons w ws)
  then show ?case
    by (cases w) (auto simp: send_body.simps [of fd ctx] Let_def split: if_splits option.splits
        intro: only_at_trans [OF only_at_steps(2)])
qed (auto simp: send_body.simps split: if_splits)

lemma only_at_finish: "only_at fd s0 s \<Longrightarrow> only_at fd s0 (finish_response fd ctx s)"
proof -
  assume s: "only_at fd s0 s"
  have "only_at fd s (put_context fd c (close_file ctx s))" for c
    by (rule only_at_trans [OF only_at_steps(4) [of _ _ ctx] only_at_steps(1)])
  then have "only_at fd s0 (put_context fd c (close_file ctx s))" for c using only_at_trans [OF s] by blast
  then have "only_at fd s0 (case epoll_ctl fd EPOLLIN (put_context fd c (close_file ctx s)) of
      (ok, s1) \<Rightarrow> if ok then s1 else close_connection fd c s1)" for c
    by (rule only_at_ctl_or) (rule only_at_trans, assumption, simp)
  then show ?thesis using only_at_trans [OF s only_at_steps(3)] by (simp add: finish_response_def Let_def)
qed

lemma only_at_body_phase: "only_at fd s0 s \<Longrightarrow> only_at fd s0 (body_phase fd ctx ws s)"
proof -
  assume s: "only_at fd s0 s"
  obtain fin c s1 where b: "send_body fd ctx ws s = (fin, c, s1)" by (metis prod_cases3)
  have s1: "only_at fd s0 s1" using only_at_trans [OF s only_at_send_body [OF b]] .
  show ?thesis
    using b s1 only_at_finish [OF s1] only_at_trans [OF s1 only_at_steps(1)]
    by (simp add: body_phase_def split: option.split)
qed

lemma only_at_epollout: "handle_epollout fd ws fws s = Inr s' \<Longrightarrow> only_at fd s s'"
proof -
  assume h: "handle_epollout fd ws fws s = Inr s'"
  then obtain ctx where ctx: "conns s fd = Some ctx" by (auto simp: handle_epollout_def split: option.splits)
  obtain fin c s1 where b: "send_header fd ctx ws s = (fin, c, s1)" by (metis prod_cases3)
  note s1 = only_at_send_header [OF b]
  show ?thesis
    using h ctx b s1 only_at_body_phase [OF s1] only_at_body_phase [OF only_at_refl] only_at_trans [OF s1 only_at_steps(1)]
    by (auto simp: handle_epollout_def split: if_splits option.splits)
qed

lemma only_at_event:
  assumes "handle_event fs (Client fd readable writable rs ws fws) s = Inr s'"
  shows "only_at fd s s'"
proof -
  obtain s1 where s1: "(if readable then handle_epollin fs fd rs s else Inr s) = Inr s1"
      "(if writable then handle_epollout fd ws fws s1 else Inr s1) = Inr s'"
    using assms by (auto simp: handle_event_def rbind_eq_Inr_iff)
  have "only_at fd s s1"
    using s1(1) only_at_epollin by (auto simp: handle_epollin_def split: if_splits option.splits)
  moreover have "only_at fd s1 s'" using s1(2) only_at_epollout by (auto split: if_splits)
  ultimately show ?thesis by (rule only_at_trans)
qed

end
