(* ===== verification/Http_Properties.thy ===== *)
theory Http_Properties
  imports Http_Runs
begin

text \<open>
  The properties of the web server's runs, from the request a client sends to the bytes it
  receives.
\<close>

section \<open>The response to a request\<close>

text \<open>What the client is to receive, and whether the connection is kept, for what the parser says
  of its request.\<close>

definition response ::
  "file_system \<Rightarrow> (int \<Rightarrow> bytes option) \<Rightarrow> bool \<Rightarrow> res_code \<Rightarrow> http_request \<Rightarrow> bytes \<times> connection" where
  "response fs open_files stop code req =
     (let k = (if stop then CLOSE else keep_alive req);
          path = file_path fs req
      in if code \<noteq> OK then (error_message code, CLOSE)
         else case stat_path fs path of
             Stat_No_Entry \<Rightarrow> (errMessage404, CLOSE)
           | Stat_Failed \<Rightarrow> (errMessage500, CLOSE)
           | Stat_Other \<Rightarrow> (errMessage403, CLOSE)
           | Stat_Regular n \<Rightarrow>
               if \<not> access_read fs path then (errMessage403, CLOSE)
               else if open_path fs open_files path < 0 then (errMessage500, CLOSE)
               else (ok_header n k @ contents fs path, k))"

text \<open>The context \<open>ctx\<close> is about to send \<open>r\<close>.\<close>

definition ready :: "nat \<Rightarrow> server \<Rightarrow> bytes \<times> connection \<Rightarrow> server \<Rightarrow> bool" where
  "ready fd s r s' \<longleftrightarrow>
     (case conns s' fd of
        None \<Rightarrow> False
      | Some ctx \<Rightarrow> watched s' fd = Some EPOLLOUT \<and> sent_to s' = sent_to s \<and> g_stop s' = g_stop s \<and> ctl_results s' = [] \<and>
          to_send (files s') ctx = fst r \<and> keep_alive (http_req ctx) = snd r)"

lemma stretch_put: "length m \<le> length b \<Longrightarrow> stretch 0 (length m) (put 0 m b) = m"
  by (simp add: stretch_def put_def)

lemma ctl_ok: "ctl_results s = [] \<Longrightarrow> epoll_ctl fd ev s = (True, s\<lparr>watched := (watched s)(fd := Some ev)\<rparr>)"
  by (simp add: epoll_ctl_def)

lemma send_error_ready:
  assumes "ctl_results s = []" "buffers ctx"
  shows "ready fd s (error_message code, CLOSE) (send_error fd ctx code s)"
proof -
  have "length (error_message code) \<le> length (header_buf ctx)"
    using assms(2) error_message_length by (simp add: buffers_def)
  moreover have "ctl_results (put_context fd c s) = []" for c using assms(1) by (simp add: put_context_def)
  ultimately show ?thesis
    by (simp add: send_error_def Let_def ctl_ok ready_def to_send_def body_left_done stretch_put)
qed

lemma prepare_response_response:
  assumes "fs_ok fs" "buffers ctx" "keep_alive (http_req ctx) = (if stop then CLOSE else keep_alive req)"
    "url (http_req ctx) = url req"
  shows "\<exists>code ctx' t. prepare_response fs ctx s = (code, ctx', s\<lparr>files := t\<rparr>) \<and>
    (if code = OK
     then response fs (files s) stop OK req = (to_send t ctx', keep_alive (http_req ctx'))
     else ctx' = ctx \<and> t = files s \<and> response fs (files s) stop OK req = (error_message code, CLOSE))"
proof -
  have path: "file_path fs (http_req ctx) = file_path fs req" using assms(4) by (simp add: file_path_def)
  let ?path = "file_path fs req"
  have k: "(if stop then CLOSE else keep_alive req) = keep_alive (http_req ctx)" using assms(3) by simp
  have noop: "s\<lparr>files := files s\<rparr> = s" by simp
  show ?thesis
  proof (cases "stat_path fs ?path")
    case (Stat_Regular n)
    let ?f = "open_path fs (files s) ?path" and ?hdr = "ok_header n (keep_alive (http_req ctx))"
    have n: "n < 2 ^ 63" "length (contents fs ?path) = n" using assms(1) Stat_Regular by (auto simp: fs_ok_def)
    have len: "length ?hdr < MAX_HDR" by (rule ok_header_length [OF n(1)])
    consider "\<not> access_read fs ?path" | "access_read fs ?path" "?f < 0" | "access_read fs ?path" "\<not> ?f < 0" by blast
    then show ?thesis
    proof cases
      case 3
      have "stretch 0 (length ?hdr) (put 0 (take (MAX_HDR - Suc 0) ?hdr @ [0]) (header_buf ctx)) = ?hdr"
        using len by (simp add: stretch_def put_def)
      then show ?thesis
        using 3 Stat_Regular path k n(2)
        by (simp add: prepare_response_def response_def Let_def to_send_def)
          (rule exI [of _ "(files s)(?f := Some (contents fs ?path))"], simp add: body_left_def, simp add: stretch_def)
    qed (use Stat_Regular path noop in \<open>simp_all add: prepare_response_def response_def Let_def error_message_def
        exI [of _ "files s"]\<close>)
  qed (use path noop in \<open>simp_all add: prepare_response_def response_def Let_def error_message_def exI [of _ "files s"]\<close>)
qed

lemma answer_request_ready:
  assumes "fs_ok fs" "ctl_results s = []" "buffers ctx"
    "parse_request (read_buffer ctx) (http_req ctx) = Inr (code, req)"
  shows "\<exists>s'. answer_request fs fd ctx s = Inr s' \<and> ready fd s (response fs (files s) (g_stop s) code req) s'"
proof -
  have len: "length (url req) = MAX_URL" using parse_request_url [OF assms(4)] assms(3) by (simp add: buffers_def)
  let ?req = "if g_stop s then req\<lparr>keep_alive := CLOSE\<rparr> else req"
  let ?ctx = "ctx\<lparr>http_req := ?req\<rparr>"
  have ctx: "buffers ?ctx" "buffers (ctx\<lparr>http_req := req\<rparr>)"
      "keep_alive (http_req ?ctx) = (if g_stop s then CLOSE else keep_alive req)" "url (http_req ?ctx) = url req"
    using assms(3) len by (simp_all add: buffers_def)
  obtain access ctx3 t where p: "prepare_response fs ?ctx s = (access, ctx3, s\<lparr>files := t\<rparr>)"
      "if access = OK
       then response fs (files s) (g_stop s) OK req = (to_send t ctx3, keep_alive (http_req ctx3))
       else ctx3 = ?ctx \<and> t = files s \<and> response fs (files s) (g_stop s) OK req = (error_message access, CLOSE)"
    using prepare_response_response [OF assms(1) ctx(1,3,4), of s] by blast
  have ctl: "epoll_ctl fd EPOLLOUT (put_context fd ctx3 (s\<lparr>files := t\<rparr>)) =
      (True, (put_context fd ctx3 (s\<lparr>files := t\<rparr>))\<lparr>watched := (watched s)(fd := Some EPOLLOUT)\<rparr>)"
    using assms(2) by (simp add: ctl_ok put_context_def)
  consider "code \<noteq> OK" | "code = OK" "access \<noteq> OK" | "code = OK" "access = OK" by blast
  then show ?thesis
  proof cases
    case 1
    then have "response fs (files s) (g_stop s) code req = (error_message code, CLOSE)" by (simp add: response_def)
    then show ?thesis
      using 1 assms(4) send_error_ready [OF assms(2) ctx(2), of fd code] by (simp add: answer_request_def Let_def)
  next
    case 2
    then have "answer_request fs fd ctx s = Inr (send_error fd ?ctx access s)"
      using assms(4) p by (cases "g_stop s") (simp_all add: answer_request_def Let_def)
    then show ?thesis using send_error_ready [OF assms(2) ctx(1), of fd access] 2 p(2) by simp
  next
    case 3
    have "answer_request fs fd ctx s =
        Inr ((put_context fd ctx3 (s\<lparr>files := t\<rparr>))\<lparr>watched := (watched s)(fd := Some EPOLLOUT)\<rparr>)"
      using assms(4) p(1) 3 ctl by (cases "g_stop s") (simp_all add: answer_request_def Let_def)
    then show ?thesis using p(2) 3 assms(2) by (simp add: ready_def)
  qed
qed

lemma received_buffers: "length b < MAX_HDR \<Longrightarrow> buffers (received b)"
  by (simp add: buffers_def received_def new_context_def zero_request_def)

lemma received_parse:
  assumes "length b < MAX_HDR"
  shows "\<exists>code req. parse_request (read_buffer (received b)) zero_request = Inr (code, req) \<and> code \<in> {OK, BAD_REQUEST}"
proof (rule parse_request_total)
  show "0 \<in> set (read_buffer (received b))" using received_terminated [OF assms] by simp
  have "c_strlen (read_buffer (received b)) \<le> length (read_buffer (received b))"
    unfolding c_strlen_def by (rule length_takeWhile_le)
  then show "c_strlen (read_buffer (received b)) \<le> MAX_URL" using assms by (simp add: MAX_URL_def MAX_HDR_def)
  show "length (url zero_request) = MAX_URL" by (simp add: zero_request_def)
qed

text \<open>A request in its chunks.\<close>

definition chunks_of :: "bytes list list \<Rightarrow> bytes \<Rightarrow> bool" where
  "chunks_of css text \<longleftrightarrow> concat (concat css) = text \<and> css \<noteq> [] \<and> (\<forall>cs \<in> set css. cs \<noteq> [] \<and> (\<forall>c \<in> set cs. c \<noteq> []))"

definition request_bytes :: "bytes \<Rightarrow> bool" where
  "request_bytes text \<longleftrightarrow> complete text \<and> length text < MAX_HDR \<and> 0 \<notin> set text"

lemma read_events_answer:
  assumes "conns s fd = Some new_context" "chunks_of css text" "request_bytes text"
  shows "read_events fs fd css s = answer_request fs fd (received text) s"
  using assms read_events_chunks [of s fd "[]" "text" css]
  by (simp add: received_Nil chunks_of_def request_bytes_def)

lemma complete_not_Nil: "complete text \<Longrightarrow> text \<noteq> []"
  by (auto simp: complete_def CRLFCRLF_eq)

lemma read_events_ready:
  assumes "fs_ok fs" "server_ok s" "conns s fd = Some new_context" "watched s fd = Some EPOLLIN" "ctl_results s = []"
    "chunks_of css text" "request_bytes text"
  obtains code req s1 where "parse_request (read_buffer (received text)) zero_request = Inr (code, req)"
    "read_events fs fd css s = Inr s1" "server_ok s1" "ready fd s (response fs (files s) (g_stop s) code req) s1"
proof -
  have len: "length text < MAX_HDR" using assms(7) by (simp add: request_bytes_def)
  obtain code req where p: "parse_request (read_buffer (received text)) zero_request = Inr (code, req)"
    using received_parse [OF len] by blast
  have "parse_request (read_buffer (received text)) (http_req (received text)) = Inr (code, req)" using p by simp
  from answer_request_ready [OF assms(1,5) received_buffers [OF len] this, of fd]
  obtain s1 where a: "answer_request fs fd (received text) s = Inr s1"
      "ready fd s (response fs (files s) (g_stop s) code req) s1" by blast
  have read: "read_events fs fd css s = Inr s1" using read_events_answer [OF assms(3,6,7)] a(1) by simp
  have hand: "in_hand fd (received text) s"
    using in_hand_same [OF take_in_hand [OF assms(2,3)]] by (simp add: new_context_def)
  have "file_fd (received text) < 0" "0 \<in> set (read_buffer (received text))"
    using received_terminated [OF len] by simp_all
  moreover have "c_strlen (read_buffer (received text)) \<le> MAX_URL"
    using len length_takeWhile_le [of _ "read_buffer (received text)"]
    by (metis MAX_HDR_def MAX_URL_def c_strlen_def received_buffers buffers_def)
  ultimately have "server_ok s1"
    using answer_request_ok [OF assms(1) hand received_buffers [OF len]] a(1) by auto
  with that p read a(2) show thesis by blast
qed

section \<open>Properties\<close>

text \<open>C21. In every reachable state the server counts its live connections correctly, exactly the
  live connections are watched, and exactly the files that a live connection sends are open; so
  when the main loop ends no connection and no file is left.\<close>

theorem server_tables_consistent:
  assumes "fs_ok fs" "http_reachable fs s"
  shows "active_connections s = int (card (dom (conns s))) \<and> dom (watched s) = dom (conns s) \<and>
    (\<forall>f. files s f \<noteq> None \<longleftrightarrow> (\<exists>fd ctx. conns s fd = Some ctx \<and> file_fd ctx = f \<and> 0 \<le> f)) \<and>
    (server_done s \<longrightarrow> conns s = Map.empty \<and> files s = Map.empty)"
proof -
  have ok: "server_ok s" using http_reachable_ok assms by blast
  have own: "owner s d = Some f \<longleftrightarrow> (\<exists>ctx. conns s d = Some ctx \<and> file_fd ctx = f \<and> 0 \<le> f)" for d f
    by (auto simp: owner_def file_of_def bind_eq_Some_conv)
  have "files_ok (owner s) (files s)" using ok by (simp add: server_ok_def)
  then have open_files: "files s f \<noteq> None \<longleftrightarrow> (\<exists>fd ctx. conns s fd = Some ctx \<and> file_fd ctx = f \<and> 0 \<le> f)" for f
    using files_ok_open own by blast
  have tables: "finite (dom (conns s))" "dom (watched s) = dom (conns s)" "active_connections s = int (card (dom (conns s)))"
    using ok by (simp_all add: server_ok_def tables_ok_def)
  have "conns s = Map.empty \<and> files s = Map.empty" if "server_done s"
  proof -
    have "conns s = Map.empty" using that tables(1,3) by (simp add: server_done_def)
    moreover have "files s f = None" for f using open_files [of f] calculation by auto
    ultimately show ?thesis by blast
  qed
  with tables open_files show ?thesis by blast
qed

text \<open>C16. No event that the kernel may report makes the server use a freed context or access memory
  out of bounds, with one exception: a read that brings the request to 1024 bytes, where the NUL is
  written behind the buffer.\<close>

theorem server_no_faults:
  assumes "fs_ok fs" "http_reachable fs s" "admissible ev s"
  shows "(\<exists>s'. handle_event fs ev s = Inr s') \<or> handle_event fs ev s = Inl Out_Of_Bounds \<and> fills_buffer ev s"
  using handle_event_ok [OF assms(1) http_reachable_ok [OF assms(2,1)] assms(3)] by blast

text \<open>Once it was told to stop, the server gets no new connection: the live connections after an
  event are among those before, and their number does not grow.\<close>

lemma stopping_server:
  assumes "fs_ok fs" "http_reachable fs s" "g_stop s" "admissible ev s" "handle_event fs ev s = Inr s'"
  shows "g_stop s' \<and> dom (conns s') \<subseteq> dom (conns s) \<and> active_connections s' \<le> active_connections s"
proof -
  have ok: "server_ok s" "server_ok s'"
    using http_reachable_ok assms http_reachable.event by blast+
  have "g_stop s' \<and> dom (conns s') \<subseteq> dom (conns s)"
  proof (cases ev)
    case (New_Connection accepted nonblocking memory)
    then show ?thesis
      using assms(3,5) by (auto simp: handle_event_def handle_new_connection_def split: option.splits)
  next
    case (Client fd readable writable rs ws fws)
    then have "only_at fd s s'" using only_at_event assms(5) by blast
    moreover have "s' = s \<or> fd \<in> dom (conns s)"
      using Client assms(5) by (auto simp: handle_event_def handle_epollin_def handle_epollout_def split: if_splits option.splits)
    ultimately show ?thesis using assms(3) by (auto simp: only_at_def)
  next
    case Terminate
    then show ?thesis using assms(5) by (auto simp: handle_event_def)
  qed
  moreover have "finite (dom (conns s))" using ok(1) by (simp add: server_ok_def tables_ok_def)
  ultimately show ?thesis using ok server_ok_active card_mono by fastforce
qed

text \<open>An event of one connection neither changes the context, the watched events nor the output
  of another.\<close>

lemma connections_isolated:
  assumes "handle_event fs (Client fd readable writable rs ws fws) s = Inr s'" "d \<noteq> fd"
  shows "conns s' d = conns s d \<and> watched s' d = watched s d \<and> sent_to s' d = sent_to s d"
  using only_at_event [OF assms(1)] assms(2) by (simp add: only_at_def)

text \<open>How a request is cut into reads and read events does not matter: the server is then in the
  state in which one read of the whole request leaves it.\<close>

lemma reading_in_chunks:
  assumes "conns s fd = Some new_context" "chunks_of css text" "request_bytes text"
  shows "read_events fs fd css s = handle_epollin fs fd [Read_Data text] s"
proof -
  have "chunks_of [[text]] text" using assms(3) complete_not_Nil by (auto simp: chunks_of_def request_bytes_def)
  from read_events_answer [OF assms(1) this assms(3), of fs]
  have "read_events fs fd [[text]] s = answer_request fs fd (received text) s" .
  moreover have "read_events fs fd [[text]] s = handle_epollin fs fd [Read_Data text] s"
    by (cases "handle_epollin fs fd [Read_Data text] s") simp_all
  ultimately show ?thesis using read_events_answer [OF assms] by simp
qed

text \<open>C24. Whatever amounts the kernel takes in however many write events, a client receives the rest
  of its response in order: what it got and what is left make up the response, and once one event
  takes as much as the response is long all of it was sent, and the connection was reset or closed.\<close>

theorem response_delivered:
  assumes "fs_ok fs" "http_reachable fs s" "conns s fd = Some ctx" "watched s fd = Some EPOLLOUT" "no_failure es"
  shows "\<exists>s'. write_events fd es s = Inr s' \<and>
    (case conns s' fd of
       None \<Rightarrow> sent_to s' fd = sent_to s fd @ to_send (files s) ctx
     | Some ctx' \<Rightarrow>
         sent_to s' fd @ to_send (files s') ctx' = sent_to s fd @ to_send (files s) ctx \<and>
         (takes_all (length (to_send (files s) ctx)) es \<longrightarrow> ctx' = new_context \<and> watched s' fd = Some EPOLLIN))"
proof -
  obtain s' where "write_events fd es s = Inr s'"
      "progress fd ctx (sent_to s fd @ to_send (files s) ctx) s False (takes_all (length (to_send (files s) ctx)) es) s'"
    using write_events_ok [OF http_reachable_ok [OF assms(2,1)] assms(3-5) order_refl] by blast
  then show ?thesis by (auto simp: progress_def split: option.splits)
qed

text \<open>C4. A whole exchange: a client sends a request in any chunks, the kernel takes the response in
  any amounts. The client receives exactly the response that the parser's answer and the file
  system call for - an error text, or the header with the file's length and then its bytes - and
  the connection is kept for the next request, as good as new, only if the request asks for it and
  the server is not stopping; it is closed otherwise.\<close>

theorem http_exchange:
  assumes "fs_ok fs" "http_reachable fs s" "conns s fd = Some new_context" "watched s fd = Some EPOLLIN"
    and "ctl_results s = []" "chunks_of css text" "request_bytes text" "no_failure es"
  shows "\<exists>code req s1 s2. parse_request (read_buffer (received text)) zero_request = Inr (code, req) \<and>
    read_events fs fd css s = Inr s1 \<and> write_events fd es s1 = Inr s2 \<and>
    (let (r, k) = response fs (files s) (g_stop s) code req
     in takes_all (length r) es \<longrightarrow>
          sent_to s2 fd = sent_to s fd @ r \<and>
          (if k = KEEP_ALIVE \<and> \<not> g_stop s then conns s2 fd = Some new_context \<and> watched s2 fd = Some EPOLLIN
           else conns s2 fd = None))"
proof -
  have ok: "server_ok s" using http_reachable_ok assms(1,2) by blast
  obtain code req s1 where r: "parse_request (read_buffer (received text)) zero_request = Inr (code, req)"
      "read_events fs fd css s = Inr s1" "server_ok s1" "ready fd s (response fs (files s) (g_stop s) code req) s1"
    by (rule read_events_ready [OF assms(1) ok assms(3-7)])
  let ?r = "response fs (files s) (g_stop s) code req"
  obtain ctx where ctx: "conns s1 fd = Some ctx" "watched s1 fd = Some EPOLLOUT" "sent_to s1 = sent_to s"
      "g_stop s1 = g_stop s" "to_send (files s1) ctx = fst ?r" "keep_alive (http_req ctx) = snd ?r" "ctl_results s1 = []"
    using r(4) by (auto simp: ready_def split: option.splits)
  obtain s2 where s2: "write_events fd es s1 = Inr s2"
      "progress fd ctx (sent_to s fd @ fst ?r) s1 False (takes_all (length (fst ?r)) es) s2"
    using write_events_ok [OF r(3) ctx(1,2) assms(8) order_refl] ctx(3,5) by auto
  have "snd ?r = KEEP_ALIVE \<or> snd ?r = CLOSE" by (cases "snd ?r") simp_all
  then have "takes_all (length (fst ?r)) es \<longrightarrow> sent_to s2 fd = sent_to s fd @ fst ?r \<and>
      (if snd ?r = KEEP_ALIVE \<and> \<not> g_stop s then conns s2 fd = Some new_context \<and> watched s2 fd = Some EPOLLIN
       else conns s2 fd = None)"
    using s2(2) ctx(4,6,7) by (auto simp: progress_def split: option.splits)
  then show ?thesis using r(1,2) s2(1) by (auto simp: Let_def split_def)
qed

end
