(* ===== verification/Http_Example.thy ===== *)
theory Http_Example
  imports Http_Properties
begin

text \<open>
  A concrete file system and request: the hypotheses of the web server's properties hold there.
\<close>

definition ex_path :: bytes where "ex_path = ascii ''.//f''"

definition ex_fs :: file_system where
  "ex_fs = \<lparr>stat_path = (\<lambda>p. if p = ex_path then Stat_Regular 2 else Stat_No_Entry), access_read = (\<lambda>p. True),
     open_path = (\<lambda>t p. if t 3 = None then 3 else -1), contents = (\<lambda>p. ascii ''hi''), g_rootDir = ascii ''./''\<rparr>"

definition ex_request :: bytes where
  "ex_request = ascii ''GET /f HTTP/1.1'' @ CRLF @ ascii ''host: a'' @ CRLFCRLF"

text \<open>Two chunks in one event and one in a second.\<close>

definition ex_chunks :: "bytes list list" where
  "ex_chunks = [[take 5 ex_request, take 15 (drop 5 ex_request)], [drop 20 ex_request]]"

definition ex_server :: server where
  "ex_server = (create_connection_context 5 (server_start []))\<lparr>watched := [5 \<mapsto> EPOLLIN]\<rparr>"

lemma ex_fs_ok: "fs_ok ex_fs"
  by (simp add: fs_ok_def ex_fs_def)

lemma ex_request_bytes: "request_bytes ex_request"
  by code_simp

lemma ex_chunks_of: "chunks_of ex_chunks ex_request"
  by code_simp

lemma ex_reachable: "http_reachable ex_fs ex_server"
proof (rule http_reachable.event)
  show "http_reachable ex_fs (server_start [])" by (rule http_reachable.start)
  show "admissible (New_Connection (Some 5) True True) (server_start [])"
    by (simp add: admissible_def server_start_def)
  show "handle_event ex_fs (New_Connection (Some 5) True True) (server_start []) = Inr ex_server"
    by (simp add: handle_event_def handle_new_connection_def epoll_ctl_def ex_server_def server_start_def
        create_connection_context_def put_context_def)
qed

lemma ex_parse: "parse_request (ex_request @ [0]) zero_request = Inr (OK, zero_request\<lparr>url := put 0 (ascii ''/f'') (url zero_request), keep_alive := KEEP_ALIVE\<rparr>)"
  by code_simp

section \<open>Witnesses\<close>

definition ex_writes :: "(write_result list \<times> write_result list) list" where
  "ex_writes = [([Wrote 10, Write_Again], []), (replicate 100 (Wrote 7), replicate 100 (Wrote 7))]"

lemma ex_server_simps:
  "conns ex_server 5 = Some new_context" "watched ex_server 5 = Some EPOLLIN" "ctl_results ex_server = []"
  "g_stop ex_server = False" "files ex_server = Map.empty" "sent_to ex_server 5 = []"
  by (simp_all add: ex_server_def server_start_def create_connection_context_def put_context_def)

lemma ex_no_failure: "no_failure ex_writes"
  by (simp add: no_failure_def ex_writes_def)

theorem parse_request_correct_witness:
  "\<exists>text rest u k hs. ex_request @ [0] = text @ rest \<and> request_text text u k hs"
proof -
  have "0 \<in> set (ex_request @ [0])" "c_strlen (ex_request @ [0]) \<le> MAX_URL" "length (url zero_request) = MAX_URL"
    by code_simp+
  from parse_request_correct [OF this] ex_parse show ?thesis by blast
qed

theorem server_tables_consistent_witness: "active_connections ex_server = 1 \<and> dom (conns ex_server) = {5}"
  using server_tables_consistent [OF ex_fs_ok ex_reachable]
  by (simp add: ex_server_def server_start_def create_connection_context_def put_context_def)

theorem server_no_faults_witness:
  "\<exists>s'. handle_event ex_fs (Client 5 True False [Read_Data ex_request] [] []) ex_server = Inr s'"
proof -
  let ?ev = "Client 5 True False [Read_Data ex_request] [] []"
  have "admissible ?ev ex_server" by (simp add: admissible_def ex_server_simps)
  moreover have "length ex_request < MAX_HDR" using ex_request_bytes by (simp add: request_bytes_def)
  then have "\<not> fills_buffer ?ev ex_server" by (simp add: fills_buffer_def ex_server_simps new_context_def)
  ultimately show ?thesis using server_no_faults [OF ex_fs_ok ex_reachable] by blast
qed

theorem response_delivered_witness:
  "\<exists>s ctx s'. http_reachable ex_fs s \<and> conns s 5 = Some ctx \<and> write_events 5 ex_writes s = Inr s'"
proof -
  have ok: "server_ok ex_server" using http_reachable_ok [OF ex_reachable ex_fs_ok] .
  have whole: "chunks_of [[ex_request]] ex_request" using ex_request_bytes complete_not_Nil
    by (auto simp: chunks_of_def request_bytes_def)
  obtain code req s1 where r: "read_events ex_fs 5 [[ex_request]] ex_server = Inr s1"
      "ready 5 ex_server (response ex_fs (files ex_server) (g_stop ex_server) code req) s1"
    by (rule read_events_ready [OF ex_fs_ok ok ex_server_simps(1-3) whole ex_request_bytes])
  have "handle_event ex_fs (Client 5 True False [Read_Data ex_request] [] []) ex_server = Inr s1"
    using r(1) by (auto simp: handle_event_def rbind_eq_Inr_iff)
  then have "http_reachable ex_fs s1"
    by (rule http_reachable.event [OF ex_reachable, rotated]) (simp add: admissible_def ex_server_simps)
  moreover obtain ctx where "conns s1 5 = Some ctx" "watched s1 5 = Some EPOLLOUT"
    using r(2) by (auto simp: ready_def split: option.splits)
  ultimately show ?thesis using response_delivered [OF ex_fs_ok _ _ _ ex_no_failure] by blast
qed

text \<open>The example's client gets the file and keeps its connection.\<close>

lemma ex_response:
  "response ex_fs Map.empty False OK (zero_request\<lparr>url := put 0 (ascii ''/f'') (url zero_request), keep_alive := KEEP_ALIVE\<rparr>) =
     (ok_header 2 KEEP_ALIVE @ ascii ''hi'', KEEP_ALIVE)"
  by code_simp

lemma ex_parse_received:
  "parse_request (read_buffer (received ex_request)) zero_request =
     Inr (OK, zero_request\<lparr>url := put 0 (ascii ''/f'') (url zero_request), keep_alive := KEEP_ALIVE\<rparr>)"
  by code_simp

theorem http_exchange_witness:
  "\<exists>s1 s2. read_events ex_fs 5 ex_chunks ex_server = Inr s1 \<and> write_events 5 ex_writes s1 = Inr s2 \<and>
     sent_to s2 5 = ok_header 2 KEEP_ALIVE @ ascii ''hi'' \<and> conns s2 5 = Some new_context"
proof -
  have "takes_all (length (ok_header 2 KEEP_ALIVE @ ascii ''hi'')) ex_writes" by code_simp
  moreover from http_exchange [OF ex_fs_ok ex_reachable ex_server_simps(1-3) ex_chunks_of ex_request_bytes ex_no_failure]
  have "\<exists>s1 s2. read_events ex_fs 5 ex_chunks ex_server = Inr s1 \<and> write_events 5 ex_writes s1 = Inr s2 \<and>
      (let r = ok_header 2 KEEP_ALIVE @ ascii ''hi''
       in takes_all (length r) ex_writes \<longrightarrow> sent_to s2 5 = r \<and> conns s2 5 = Some new_context)"
    unfolding ex_parse_received ex_server_simps Let_def by (auto simp: ex_response)
  ultimately show ?thesis by (simp only: Let_def) blast
qed

end
