(* ===== verification/Router_Load.thy ===== *)
theory Router_Load
  imports Router_Tables Request_Lines
begin

text \<open>
  Loading the routing table from a file (\<open>sr_load_rt\<close> in \<^verbatim>\<open>sr_rt.c\<close>), with the library functions
  it reads the file with: \<open>fgets\<close>, \<open>sscanf\<close> with \<open>%s\<close>, and \<open>inet_aton\<close>, whose addresses may have
  one to four parts in decimal, octal or hexadecimal.
\<close>

section \<open>The library functions\<close>

text \<open>A line with its newline, at most \<open>n\<close> bytes of it.\<close>

definition fgets_line :: "nat \<Rightarrow> bytes \<Rightarrow> bytes" where
  "fgets_line n b = take n (let l = takeWhile (\<lambda>c. c \<noteq> 0x0a) b in if l = b then l else l @ [0x0a])"

definition BUFSIZ :: nat where "BUFSIZ = 8192"

text \<open>The words of a string, at most \<open>n\<close> of them.\<close>

fun scan_words :: "nat \<Rightarrow> bytes \<Rightarrow> bytes list" where
  "scan_words 0 b = []"
| "scan_words (Suc n) b =
     (let b1 = dropWhile isspace b; w = takeWhile (\<lambda>c. \<not> isspace c) b1
      in if w = [] then [] else w # scan_words n (dropWhile (\<lambda>c. \<not> isspace c) b1))"

definition digit_value :: "u8 \<Rightarrow> nat" where
  "digit_value c =
     (if isdigit c then unat c - 0x30
      else if 0x61 \<le> c \<and> c \<le> 0x66 then unat c - 0x57
      else if 0x41 \<le> c \<and> c \<le> 0x46 then unat c - 0x37
      else 36)"

fun digits :: "nat \<Rightarrow> nat \<Rightarrow> bytes \<Rightarrow> nat \<times> bytes" where
  "digits base v [] = (v, [])"
| "digits base v (c # b) = (if digit_value c < base then digits base (v * base + digit_value c) b else (v, c # b))"

text \<open>\<open>strtoul\<close> with base 0, for a string that begins with a digit.\<close>

definition strtoul :: "bytes \<Rightarrow> nat \<times> bytes" where
  "strtoul b =
     (case b of
        c # x # h # r \<Rightarrow>
          if c = 0x30 \<and> (x = 0x78 \<or> x = 0x58) \<and> digit_value h < 16 then digits 16 0 (h # r)
          else digits (if c = 0x30 then 8 else 10) 0 b
      | c # r \<Rightarrow> digits (if c = 0x30 then 8 else 10) 0 b
      | [] \<Rightarrow> (0, []))"

text \<open>\<open>dots\<close> is how many more dots may come, \<open>acc\<close> the parts so far in their places.\<close>

fun inet_parts :: "nat \<Rightarrow> nat \<Rightarrow> bytes \<Rightarrow> nat option" where
  "inet_parts dots acc b =
     (if b = [] \<or> \<not> isdigit (hd b) then None
      else
        let (v, rest) = strtoul b
        in if 2 ^ 32 \<le> v then None
           else if rest \<noteq> [] \<and> hd rest = 0x2e then
             (case dots of
                0 \<Rightarrow> None
              | Suc d \<Rightarrow> if 255 < v then None else inet_parts d (acc + v * 256 ^ dots) (tl rest))
           else if (rest = [] \<or> isspace (hd rest)) \<and> v < 256 ^ (dots + 1) then Some (acc + v)
           else None)"

declare inet_parts.simps [simp del]

definition inet_aton :: "bytes \<Rightarrow> u32 option" where
  "inet_aton s = map_option of_nat (inet_parts 3 0 (c_str s))"

section \<open>\<open>sr_load_rt\<close>\<close>

text \<open>The arrays of 32 bytes keep their words from line to line.\<close>

record rt_words =
  w_dest :: bytes
  w_gw :: bytes
  w_mask :: bytes
  w_iface :: bytes

definition scan_line :: "bytes \<Rightarrow> rt_words \<Rightarrow> rt_words result" where
  "scan_line line v =
     (let ws = scan_words 4 (c_str line); n = length ws
      in if \<exists>w \<in> set ws. 32 \<le> length w then Inl Out_Of_Bounds
         else Inr \<lparr>w_dest = (if 0 < n then ws ! 0 else w_dest v), w_gw = (if 1 < n then ws ! 1 else w_gw v),
                w_mask = (if 2 < n then ws ! 2 else w_mask v), w_iface = (if 3 < n then ws ! 3 else w_iface v)\<rparr>)"

lemma length_fgets_line: "0 < n \<Longrightarrow> b \<noteq> [] \<Longrightarrow> 0 < length (fgets_line n b)"
  by (cases b) (auto simp: fgets_line_def Let_def)

function load_loop :: "bytes \<Rightarrow> bool \<Rightarrow> rt_words \<Rightarrow> sr_instance \<Rightarrow> (int \<times> sr_instance) result" where
  "load_loop rtfile cleared v sr =
     (if rtfile = [] then Inr (0, sr)
      else
        let line = fgets_line (BUFSIZ - 1) rtfile
        in rbind (scan_line line v) (\<lambda>v1.
             case (inet_aton (w_dest v1), inet_aton (w_gw v1), inet_aton (w_mask v1)) of
               (Some dest, Some gw, Some msk) \<Rightarrow>
                 let sr1 = (if \<not> cleared then sr\<lparr>routing_table := []\<rparr> else sr)
                 in load_loop (drop (length line) rtfile) True v1 (sr_add_rt_entry sr1 dest gw msk (w_iface v1))
             | _ \<Rightarrow> Inr (-1, sr)))"
  by auto
termination
proof (relation "measure (\<lambda>(b, c, v, sr). length b)", goal_cases)
  case (2 rtfile cleared v sr line v1)
  then show ?case using length_fgets_line [of "BUFSIZ - 1" rtfile] by (auto simp: BUFSIZ_def)
qed simp

declare load_loop.simps [simp del]

text \<open>\<open>file\<close> is none when it cannot be read, \<open>v\<close> what the arrays hold before.\<close>

definition sr_load_rt :: "rt_words \<Rightarrow> bytes option \<Rightarrow> sr_instance \<Rightarrow> (int \<times> sr_instance) result" where
  "sr_load_rt v file sr = (case file of None \<Rightarrow> Inr (-1, sr) | Some b \<Rightarrow> load_loop b False v sr)"

end
