(* ===== verification/Sha1.thy ===== *)
theory Sha1
  imports Prelude
begin

text \<open>
  The hash of the router's authentication, \<^verbatim>\<open>sha1.c\<close> and \<^verbatim>\<open>sha1.h\<close>: a context that takes a message
  byte by byte and hashes each full block. \<open>unsigned\<close> has 32 bits.
\<close>

section \<open>The context\<close>

record SHA1Context =
  Message_Digest :: "u32 list"
  Length_Low :: u32
  Length_High :: u32
  Message_Block :: bytes
  Message_Block_Index :: nat
  Computed :: bool
  Corrupted :: bool

definition SHA1CircularShift :: "nat \<Rightarrow> u32 \<Rightarrow> u32" where
  "SHA1CircularShift bits w = (push_bit bits w AND 0xFFFFFFFF) OR drop_bit (32 - bits) w"

text \<open>\<open>SHA1Reset\<close> does not write the block.\<close>

definition SHA1Reset :: "SHA1Context \<Rightarrow> SHA1Context" where
  "SHA1Reset c = c\<lparr>Length_Low := 0, Length_High := 0, Message_Block_Index := 0,
     Message_Digest := [0x67452301, 0xEFCDAB89, 0x98BADCFE, 0x10325476, 0xC3D2E1F0],
     Computed := False, Corrupted := False\<rparr>"

section \<open>A block\<close>

type_synonym sha1_words = "u32 \<times> u32 \<times> u32 \<times> u32 \<times> u32"

definition sha1_word :: "bytes \<Rightarrow> nat \<Rightarrow> u32" where
  "sha1_word block t =
     push_bit 24 (ucast (block ! (t * 4))) OR push_bit 16 (ucast (block ! (t * 4 + 1)))
       OR push_bit 8 (ucast (block ! (t * 4 + 2))) OR ucast (block ! (t * 4 + 3))"

text \<open>The array \<open>W\<close> grows with \<open>t\<close>.\<close>

definition word_sequence :: "bytes \<Rightarrow> u32 list" where
  "word_sequence block =
     foldl (\<lambda>W t. W @ [SHA1CircularShift 1 (W ! (t - 3) XOR W ! (t - 8) XOR W ! (t - 14) XOR W ! (t - 16))])
       (map (sha1_word block) [0..<16]) [16..<80]"

definition sha1_round :: "(u32 \<Rightarrow> u32 \<Rightarrow> u32 \<Rightarrow> u32) \<Rightarrow> u32 \<Rightarrow> u32 list \<Rightarrow> sha1_words \<Rightarrow> nat \<Rightarrow> sha1_words" where
  "sha1_round f k W v t =
     (case v of (A, B, C, D, E) \<Rightarrow>
        let temp = (SHA1CircularShift 5 A + f B C D + E + W ! t + k) AND 0xFFFFFFFF
        in (temp, A, SHA1CircularShift 30 B, C, D))"

definition SHA1ProcessMessageBlock :: "SHA1Context \<Rightarrow> SHA1Context" where
  "SHA1ProcessMessageBlock c =
     (let H = Message_Digest c;
          W = word_sequence (Message_Block c);
          v0 = (H ! 0, H ! 1, H ! 2, H ! 3, H ! 4);
          v1 = foldl (sha1_round (\<lambda>B C D. (B AND C) OR (NOT B AND D)) 0x5A827999 W) v0 [0..<20];
          v2 = foldl (sha1_round (\<lambda>B C D. B XOR C XOR D) 0x6ED9EBA1 W) v1 [20..<40];
          v3 = foldl (sha1_round (\<lambda>B C D. (B AND C) OR (B AND D) OR (C AND D)) 0x8F1BBCDC W) v2 [40..<60];
          v4 = foldl (sha1_round (\<lambda>B C D. B XOR C XOR D) 0xCA62C1D6 W) v3 [60..<80]
      in case v4 of (A, B, C, D, E) \<Rightarrow>
           c\<lparr>Message_Digest := [(H ! 0 + A) AND 0xFFFFFFFF, (H ! 1 + B) AND 0xFFFFFFFF, (H ! 2 + C) AND 0xFFFFFFFF,
               (H ! 3 + D) AND 0xFFFFFFFF, (H ! 4 + E) AND 0xFFFFFFFF], Message_Block_Index := 0\<rparr>)"

section \<open>Input\<close>

definition store_byte :: "u8 \<Rightarrow> SHA1Context \<Rightarrow> SHA1Context result" where
  "store_byte b c =
     (if 64 \<le> Message_Block_Index c then Inl Out_Of_Bounds
      else Inr (c\<lparr>Message_Block := (Message_Block c)[Message_Block_Index c := b],
                   Message_Block_Index := Message_Block_Index c + 1\<rparr>))"

definition count_byte :: "SHA1Context \<Rightarrow> SHA1Context" where
  "count_byte c =
     (let c1 = c\<lparr>Length_Low := (Length_Low c + 8) AND 0xFFFFFFFF\<rparr>
      in if Length_Low c1 = 0 then
           let c2 = c1\<lparr>Length_High := (Length_High c1 + 1) AND 0xFFFFFFFF\<rparr>
           in if Length_High c2 = 0 then c2\<lparr>Corrupted := True\<rparr> else c2
         else c1)"

fun input_loop :: "bytes \<Rightarrow> SHA1Context \<Rightarrow> SHA1Context result" where
  "input_loop [] c = Inr c"
| "input_loop (b # bs) c =
     (if Corrupted c then Inr c
      else rbind (store_byte (b AND 0xFF) c) (\<lambda>c1.
        let c2 = count_byte c1
        in input_loop bs (if Message_Block_Index c2 = 64 then SHA1ProcessMessageBlock c2 else c2)))"

definition SHA1Input :: "bytes \<Rightarrow> SHA1Context \<Rightarrow> SHA1Context result" where
  "SHA1Input message c =
     (if message = [] then Inr c
      else if Computed c \<or> Corrupted c then Inr (c\<lparr>Corrupted := True\<rparr>)
      else input_loop message c)"

section \<open>The result\<close>

text \<open>Zeros up to index \<open>n\<close>.\<close>

function pad_zeros :: "nat \<Rightarrow> SHA1Context \<Rightarrow> SHA1Context result" where
  "pad_zeros n c =
     (if Message_Block_Index c < n then
        if 64 \<le> Message_Block_Index c then Inl Out_Of_Bounds
        else pad_zeros n (c\<lparr>Message_Block := (Message_Block c)[Message_Block_Index c := 0],
               Message_Block_Index := Message_Block_Index c + 1\<rparr>)
      else Inr c)"
  by auto
termination
  by (relation "measure (\<lambda>(n, c). n - Message_Block_Index c)") auto

declare pad_zeros.simps [simp del]

definition SHA1PadMessage :: "SHA1Context \<Rightarrow> SHA1Context result" where
  "SHA1PadMessage c =
     rbind
       (if 55 < Message_Block_Index c then
          rbind (store_byte 0x80 c) (\<lambda>c1.
          rbind (pad_zeros 64 c1) (\<lambda>c2.
            pad_zeros 56 (SHA1ProcessMessageBlock c2)))
        else rbind (store_byte 0x80 c) (pad_zeros 56))
       (\<lambda>c1. Inr (SHA1ProcessMessageBlock (c1\<lparr>Message_Block :=
          take 56 (Message_Block c1) @ bytes32 (Length_High c1) @ bytes32 (Length_Low c1)\<rparr>)))"

definition SHA1Result :: "SHA1Context \<Rightarrow> (bool \<times> SHA1Context) result" where
  "SHA1Result c =
     (if Corrupted c then Inr (False, c)
      else if \<not> Computed c then rbind (SHA1PadMessage c) (\<lambda>c1. Inr (True, c1\<lparr>Computed := True\<rparr>))
      else Inr (True, c))"

end
