(* ===== verification/Vns_Server.thy ===== *)
theory Vns_Server
  imports Router_Runs Router_Load Sha1
begin

text \<open>
  The router's connection to its server: reading the messages of a byte stream and what each of
  them does (\<^verbatim>\<open>sr_vns_comm.c\<close>), with the order of \<^verbatim>\<open>main\<close> in \<^verbatim>\<open>sr_main.c\<close>. What \<open>recv\<close> answers is a
  list.
\<close>

section \<open>Messages\<close>

definition VNSOPEN :: u32 where "VNSOPEN = 1"
definition VNSCLOSE :: u32 where "VNSCLOSE = 2"
definition VNSBANNER :: u32 where "VNSBANNER = 8"
definition VNSHWINFO :: u32 where "VNSHWINFO = 16"
definition VNS_RTABLE :: u32 where "VNS_RTABLE = 32"
definition VNS_OPEN_TEMPLATE :: u32 where "VNS_OPEN_TEMPLATE = 64"
definition VNS_AUTH_REQUEST :: u32 where "VNS_AUTH_REQUEST = 128"
definition VNS_AUTH_REPLY :: u32 where "VNS_AUTH_REPLY = 256"
definition VNS_AUTH_STATUS :: u32 where "VNS_AUTH_STATUS = 512"

definition HWINTERFACE :: u32 where "HWINTERFACE = 1"
definition HWETHER :: u32 where "HWETHER = 32"
definition HWETHIP :: u32 where "HWETHIP = 64"

definition IDSIZE :: nat where "IDSIZE = 32"
definition sizeof_base :: nat where "sizeof_base = 8"
definition sizeof_hw_entry :: nat where "sizeof_hw_entry = 36"
definition sizeof_packet_ethernet_header :: nat where "sizeof_packet_ethernet_header = 38"
definition AUTH_KEY_LEN :: nat where "AUTH_KEY_LEN = 64"
definition SHA1_LEN :: nat where "SHA1_LEN = 20"

section \<open>Reading a message\<close>

text \<open>What a call of \<open>recv\<close> or \<open>read\<close> on the socket answers: bytes (a call takes as many as it
  asked for, the rest stays), \<open>EINTR\<close>, another error, or 0 at the end of the stream, which stays
  at its end. With no more answers the call waits.\<close>

datatype recv_result = Received bytes | Interrupted | Broken | End_Of_Stream

text \<open>The loops read until they have \<open>n\<close> bytes; \<open>fuel\<close> bounds their rounds.\<close>

fun recv_loop :: "nat \<Rightarrow> nat \<Rightarrow> recv_result list \<Rightarrow> (bytes option \<times> recv_result list) result" where
  "recv_loop fuel 0 input = Inr (Some [], input)"
| "recv_loop 0 (Suc n) input = Inl Out_Of_Fuel"
| "recv_loop (Suc fuel) (Suc n) [] = Inl Would_Block"
| "recv_loop (Suc fuel) (Suc n) (Interrupted # rest) = recv_loop fuel (Suc n) rest"
| "recv_loop (Suc fuel) (Suc n) (Broken # rest) = Inr (None, rest)"
| "recv_loop (Suc fuel) (Suc n) (End_Of_Stream # rest) = recv_loop fuel (Suc n) (End_Of_Stream # rest)"
| "recv_loop (Suc fuel) (Suc n) (Received d # rest) =
     (let got = take (Suc n) d;
          later = (if length d \<le> Suc n then rest else Received (drop (Suc n) d) # rest)
      in rbind (recv_loop fuel (Suc n - length got) later) (\<lambda>(more_bytes, input).
           Inr (map_option (\<lambda>b. got @ b) more_bytes, input)))"

text \<open>A message with its length field: none after an error. The command is behind the length,
  so a buffer of less than 8 bytes is left.\<close>

definition read_message :: "nat \<Rightarrow> recv_result list \<Rightarrow> (bytes option \<times> recv_result list) result" where
  "read_message fuel input =
     rbind (recv_loop fuel 4 input) (\<lambda>(hdr, input1).
       case hdr of
         None \<Rightarrow> Inr (None, input1)
       | Some h \<Rightarrow>
           let len = sint (get32 h 0)
           in if 10000 < len \<or> len < 0 then Inr (None, input1)
              else if len < 4 then Inl Out_Of_Bounds
              else rbind (recv_loop fuel (nat len - 4) input1) (\<lambda>(body, input2).
                case body of
                  None \<Rightarrow> Inr (None, input2)
                | Some b \<Rightarrow> if len < 8 then Inl Out_Of_Bounds else Inr (Some (h @ b), input2)))"

section \<open>State\<close>

text \<open>What the program is started with and what it finds in its directory: the first line of
  \<open>auth_key\<close> (and what its array holds behind it), whether \<open>rtable.*\<close> can be written, whether
  \<open>send\<close> takes a message, and what uncleared memory holds: the hash context on the stack and a new
  interface.\<close>

record vns_env =
  user :: bytes
  host_id :: bytes
  template_name :: bytes
  topo_id :: u16
  auth_key_file :: "bytes option"
  key_junk :: bytes
  sha1_stack :: SHA1Context
  rtable_writable :: bool
  send_ok :: bool
  if_junk :: sr_if

record vns_session =
  router :: sr_instance
  recv_input :: "recv_result list"
  written_files :: "(bytes \<times> bytes) list"

definition send_message :: "bytes \<Rightarrow> vns_session \<Rightarrow> vns_session" where
  "send_message m s = s\<lparr>router := (router s)\<lparr>to_server := to_server (router s) @ [m]\<rparr>\<rparr>"

section \<open>Handlers\<close>

text \<open>An entry of the hardware information: its key and its value.\<close>

definition handle_hw_entry :: "sr_if \<Rightarrow> sr_instance \<Rightarrow> bytes \<Rightarrow> sr_instance result" where
  "handle_hw_entry junk sr entry =
     (let key = get32 entry 0; val = drop 4 entry
      in if key = HWINTERFACE then Inr (sr_add_interface junk sr val)
         else if key = HWETHIP then sr_set_ether_ip sr (get32 val 0)
         else if key = HWETHER then sr_set_ether_addr sr val
         else Inr sr)"

fun hwinfo_loop :: "sr_if \<Rightarrow> nat \<Rightarrow> bytes \<Rightarrow> sr_instance \<Rightarrow> sr_instance result" where
  "hwinfo_loop junk 0 b sr = Inr sr"
| "hwinfo_loop junk (Suc n) b sr =
     rbind (handle_hw_entry junk sr (take sizeof_hw_entry b)) (hwinfo_loop junk n (drop sizeof_hw_entry b))"

definition sr_handle_hwinfo :: "sr_if \<Rightarrow> sr_instance \<Rightarrow> bytes \<Rightarrow> sr_instance result" where
  "sr_handle_hwinfo junk sr m =
     hwinfo_loop junk ((length m - sizeof_base) div sizeof_hw_entry) (drop sizeof_base m) sr"

text \<open>The file name is put together in an array of \<open>7 + IDSIZE + 1\<close> bytes.\<close>

definition sr_handle_rtable :: "vns_env \<Rightarrow> vns_session \<Rightarrow> bytes \<Rightarrow> (int \<times> vns_session) result" where
  "sr_handle_rtable env s m =
     (let host = c_str (drop sizeof_base m)
      in if 0 \<notin> set (drop sizeof_base m) \<or> IDSIZE < length host then Inl Out_Of_Bounds
         else if \<not> rtable_writable env then Inr (0, s)
         else if length m < sizeof_base + IDSIZE then Inl Out_Of_Bounds
         else Inr (1, s\<lparr>written_files := written_files s @
                    [(ascii ''rtable.'' @ host, drop (sizeof_base + IDSIZE) m)]\<rparr>))"

definition auth_reply :: "bytes \<Rightarrow> bytes \<Rightarrow> bytes" where
  "auth_reply name digest =
     bytes32 (of_nat (12 + length name + SHA1_LEN)) @ bytes32 VNS_AUTH_REPLY @ bytes32 (of_nat (length name)) @ name @ digest"

text \<open>The digest as it is copied into the reply: its words in network order.\<close>

definition salted_hash :: "SHA1Context \<Rightarrow> bytes \<Rightarrow> bytes \<Rightarrow> bytes option result" where
  "salted_hash sha1 salt auth_key =
     rbind (SHA1Input salt (SHA1Reset sha1)) (\<lambda>c1.
     rbind (SHA1Input (take AUTH_KEY_LEN auth_key) c1) (\<lambda>c2.
     rbind (SHA1Result c2) (\<lambda>(ok, c3).
       Inr (if ok then Some (concat (map bytes32 (Message_Digest c3))) else None))))"

definition sr_handle_auth_request :: "vns_env \<Rightarrow> vns_session \<Rightarrow> bytes \<Rightarrow> (int \<times> vns_session) result" where
  "sr_handle_auth_request env s m =
     (case auth_key_file env of
        None \<Rightarrow> Inr (0, s)
      | Some file \<Rightarrow>
          let line = fgets_line AUTH_KEY_LEN file;
              auth_key = put 0 (line @ [0]) (key_junk env)
          in if line = [] then Inr (0, s)
             else rbind (salted_hash (sha1_stack env) (drop sizeof_base m) auth_key) (\<lambda>hash.
               case hash of
                 None \<Rightarrow> Inr (0, s)
               | Some digest \<Rightarrow>
                   if send_ok env then Inr (1, send_message (auth_reply (c_str (user env)) digest) s) else Inr (0, s)))"

text \<open>The message text that is printed after a failure ends at its NUL.\<close>

definition sr_handle_auth_status :: "bytes \<Rightarrow> int result" where
  "sr_handle_auth_status m =
     (if length m \<le> sizeof_base then Inl Out_Of_Bounds
      else if m ! sizeof_base = 0 \<and> 0 \<notin> set (drop (sizeof_base + 1) m) then Inl Out_Of_Bounds
      else Inr (uint (m ! sizeof_base)))"

text \<open>\<open>len\<close> is the length the caller computes, \<open>packet\<close> what is there.\<close>

definition sr_arp_req_not_for_us :: "sr_instance \<Rightarrow> bytes \<Rightarrow> u32 \<Rightarrow> bytes \<Rightarrow> bool result" where
  "sr_arp_req_not_for_us sr packet len interface =
     (if unat len < sizeof_ether + sizeof_arp then Inr False
      else case sr_get_interface sr interface of
          None \<Rightarrow> Inl Assertion_Failure
        | Some iface \<Rightarrow>
            if length packet < sizeof_ether + sizeof_arp then Inl Out_Of_Bounds
            else Inr (ether_type packet = ethertype_arp \<and> ar_op packet = arp_op_request \<and> ar_tip packet \<noteq> if_ip iface))"

text \<open>\<open>sr_handlepacket\<close> is given what is behind the header of the message. The interface name
  goes on to a NUL, at most to the end of the message.\<close>

definition handle_vns_packet :: "nat \<Rightarrow> vns_session \<Rightarrow> bytes \<Rightarrow> vns_session result" where
  "handle_vns_packet k s m =
     (let packet = drop sizeof_packet_header m;
          name = drop sizeof_base m;
          len = of_nat (length m) - of_nat sizeof_packet_ethernet_header + of_nat sizeof_ether :: u32
      in rbind (sr_arp_req_not_for_us (router s) packet len name) (\<lambda>drop_it.
           if drop_it then Inr s
           else if length packet < unat len then Inl Out_Of_Bounds
           else rbind (sr_handlepacket k (router s) packet name) (\<lambda>sr. Inr (s\<lparr>router := sr\<rparr>))))"

text \<open>What a message does: the value that \<open>sr_read_from_server_expect\<close> returns and the state.\<close>

definition handle_command ::
  "vns_env \<Rightarrow> nat \<Rightarrow> vns_session \<Rightarrow> bytes \<Rightarrow> (int \<times> vns_session) result" where
  "handle_command env k s m =
     (let command = get32 m 4
      in if command = VNSPACKET then rbind (handle_vns_packet k s m) (\<lambda>s1. Inr (1, s1))
         else if command = VNSCLOSE then (if 0 \<notin> set (drop sizeof_base m) then Inl Out_Of_Bounds else Inr (0, s))
         else if command = VNSBANNER then (if 0 \<notin> set (drop sizeof_base m) then Inl Out_Of_Bounds else Inr (1, s))
         else if command = VNSHWINFO then
           rbind (sr_handle_hwinfo (if_junk env) (router s) m) (\<lambda>sr.
             Inr (if sr_verify_routing_table sr \<noteq> 0 then -1 else 1, s\<lparr>router := sr\<rparr>))
         else if command = VNS_RTABLE then
           rbind (sr_handle_rtable env s m) (\<lambda>(ok, s1). Inr (if ok = 0 then -1 else 1, s1))
         else if command = VNS_AUTH_REQUEST then
           rbind (sr_handle_auth_request env s m) (\<lambda>(ok, s1). Inr (if ok = 0 then -1 else 1, s1))
         else if command = VNS_AUTH_STATUS then
           rbind (sr_handle_auth_status m) (\<lambda>ok. Inr (if ok = 0 then -1 else 1, s))
         else Inr (1, s))"

text \<open>\<open>k\<close> is the fuel of \<open>sr_handlepacket\<close>.\<close>

definition sr_read_from_server_expect ::
  "vns_env \<Rightarrow> nat \<Rightarrow> nat \<Rightarrow> u32 \<Rightarrow> vns_session \<Rightarrow> (int \<times> vns_session) result" where
  "sr_read_from_server_expect env fuel k expected_cmd s =
     rbind (read_message fuel (recv_input s)) (\<lambda>(message, input).
       let s1 = s\<lparr>recv_input := input\<rparr>
       in case message of
            None \<Rightarrow> Inr (-1, s1)
          | Some m \<Rightarrow>
              let command = get32 m 4
              in if expected_cmd \<noteq> 0 \<and> command \<noteq> expected_cmd \<and> command \<noteq> VNSCLOSE then Inr (-1, s1)
                 else handle_command env k s1 m)"

definition sr_read_from_server ::
  "vns_env \<Rightarrow> nat \<Rightarrow> nat \<Rightarrow> vns_session \<Rightarrow> (int \<times> vns_session) result" where
  "sr_read_from_server env fuel k s = sr_read_from_server_expect env fuel k 0 s"

section \<open>Opening a session\<close>

definition open_message :: "vns_env \<Rightarrow> bytes" where
  "open_message env =
     bytes32 108 @ bytes32 VNSOPEN @ bytes16 (topo_id env) @ bytes16 0 @
     name_field (host_id env) IDSIZE @ name_field (user env) IDSIZE @ replicate IDSIZE 0"

definition open_template_message :: "vns_env \<Rightarrow> bytes" where
  "open_template_message env =
     bytes32 70 @ bytes32 VNS_OPEN_TEMPLATE @ name_field (template_name env) 30 @ name_field (host_id env) IDSIZE"

text \<open>After \<open>connect\<close> has answered \<open>socket_connected\<close>.\<close>

definition sr_connect_to_server ::
  "vns_env \<Rightarrow> nat \<Rightarrow> nat \<Rightarrow> bool \<Rightarrow> vns_session \<Rightarrow> (int \<times> vns_session) result" where
  "sr_connect_to_server env fuel k socket_connected s =
     (let expect = sr_read_from_server_expect env fuel k;
          templ = c_str (template_name env) \<noteq> []
      in if \<not> socket_connected then Inr (-1, s)
         else rbind (expect VNS_AUTH_REQUEST s) (\<lambda>(r1, s1).
           if r1 \<noteq> 1 then Inr (-1, s1)
           else rbind (expect VNS_AUTH_STATUS s1) (\<lambda>(r2, s2).
             if r2 \<noteq> 1 then Inr (-1, s2)
             else if \<not> send_ok env then Inr (-1, s2)
             else
               let s3 = send_message (if templ then open_template_message env else open_message env) s2
               in if templ
                  then rbind (expect VNS_RTABLE s3) (\<lambda>(r3, s4). Inr (if r3 \<noteq> 1 then -1 else 0, s4))
                  else Inr (0, s3))))"

text \<open>The main loop, which ends with the first answer that is not 1; \<open>rounds\<close> bounds it.\<close>

fun main_loop ::
  "vns_env \<Rightarrow> nat \<Rightarrow> nat \<Rightarrow> nat \<Rightarrow> vns_session \<Rightarrow> (int \<times> vns_session) result" where
  "main_loop env fuel k 0 s = Inl Out_Of_Fuel"
| "main_loop env fuel k (Suc rounds) s =
     rbind (sr_read_from_server env fuel k s) (\<lambda>(r, s1).
       if r = 1 then main_loop env fuel k rounds s1 else Inr (r, s1))"

end
