(* ===== verification/Vns_Session.thy ===== *)
theory Vns_Session
  imports Vns_Server
begin

text \<open>
  The byte-level session with the server refines one that is given whole messages, and for the
  frames of a session that is a run of the router.
\<close>

section \<open>Reading\<close>

text \<open>The bytes that a list of answers holds, and that the connection neither breaks nor ends.\<close>

fun received_bytes :: "recv_result list \<Rightarrow> bytes" where
  "received_bytes [] = []"
| "received_bytes (Received d # rest) = d @ received_bytes rest"
| "received_bytes (r # rest) = received_bytes rest"

definition alive :: "recv_result list \<Rightarrow> bool" where
  "alive input \<longleftrightarrow> (\<forall>r \<in> set input. r \<noteq> Broken \<and> r \<noteq> End_Of_Stream)"

lemma recv_loop_bytes:
  assumes "alive input" "n \<le> length (received_bytes input)" "length input \<le> fuel"
  shows "\<exists>input'. recv_loop fuel n input = Inr (Some (take n (received_bytes input)), input') \<and>
    alive input' \<and> received_bytes input' = drop n (received_bytes input) \<and> length input' \<le> length input"
  using assms
proof (induction fuel n input rule: recv_loop.induct)
  case (7 fuel n d rest)
  show ?case
  proof (cases "length d \<le> Suc n")
    case True
    have "alive rest" "Suc n - length d \<le> length (received_bytes rest)" "length rest \<le> fuel"
      using 7(2-4) by (auto simp: alive_def)
    moreover have "length (take (Suc n) d) = length d" using True by simp
    ultimately obtain input' where "recv_loop fuel (Suc n - length d) rest =
        Inr (Some (take (Suc n - length d) (received_bytes rest)), input')" "alive input'"
        "received_bytes input' = drop (Suc n - length d) (received_bytes rest)" "length input' \<le> length rest"
      using 7(1) [OF refl refl] True by auto
    then show ?thesis using True by (auto simp: Let_def)
  next
    case False
    then have "recv_loop (Suc fuel) (Suc n) (Received d # rest) =
        Inr (Some (take (Suc n) d), Received (drop (Suc n) d) # rest)" by (simp add: Let_def)
    then show ?thesis using False 7(2) by (auto simp: alive_def)
  qed
qed (auto simp: alive_def)

lemma recv_loop_waits:
  assumes "alive input" "received_bytes input = []" "length input < fuel"
  shows "recv_loop fuel (Suc n) input = Inl Would_Block"
  using assms
proof (induction fuel "Suc n" input arbitrary: n rule: recv_loop.induct)
  case (7 fuel n d rest)
  then have "d = []" "alive rest" "received_bytes rest = []" "length rest < fuel" by (auto simp: alive_def)
  then show ?case using 7(1) [OF refl refl] by (simp add: Let_def)
qed (auto simp: alive_def)

text \<open>A message whose length field is right and that has a command.\<close>

definition framed :: "bytes \<Rightarrow> bool" where
  "framed m \<longleftrightarrow> 8 \<le> length m \<and> length m \<le> 10000 \<and> get32 m 0 = of_nat (length m)"

lemma get32_take: "4 \<le> n \<Longrightarrow> get32 (take n m) 0 = get32 m 0"
  by (simp add: get32_def)

lemma sint_of_nat_small: "n < 2 ^ 31 \<Longrightarrow> sint (of_nat n :: u32) = int n"
  by (simp add: signed_of_nat signed_take_bit_int_eq_self)

lemma read_message_framed:
  assumes "alive input" "framed m" "received_bytes input = m @ later" "length input \<le> fuel"
  shows "\<exists>input'. read_message fuel input = Inr (Some m, input') \<and> alive input' \<and> received_bytes input' = later \<and>
    length input' \<le> length input"
proof -
  have len: "8 \<le> length m" "length m \<le> 10000" "get32 m 0 = of_nat (length m)" using assms(2) by (simp_all add: framed_def)
  obtain i1 where i1: "recv_loop fuel 4 input = Inr (Some (take 4 m), i1)" "alive i1"
      "received_bytes i1 = drop 4 m @ later" "length i1 \<le> length input"
    using recv_loop_bytes [OF assms(1), of 4 fuel] assms(3,4) len(1) by auto
  obtain i2 where i2: "recv_loop fuel (length m - 4) i1 = Inr (Some (drop 4 m), i2)" "alive i2"
      "received_bytes i2 = later" "length i2 \<le> length i1"
    using recv_loop_bytes [OF i1(2), of "length m - 4" fuel] i1(3,4) assms(4) len(1) by force
  have s: "sint (get32 (take 4 m) 0) = int (length m)"
    using len sint_of_nat_small [of "length m"] by (simp add: get32_take)
  have "read_message fuel input = Inr (Some m, i2)"
    using i1(1) i2(1) len by (simp add: read_message_def s Let_def)
  then show ?thesis using i1(4) i2 by auto
qed

section \<open>Whole messages\<close>

text \<open>The session of a reader that is given its messages one by one, and waits behind the last.\<close>

fun process_messages ::
  "vns_env \<Rightarrow> nat \<Rightarrow> bytes list \<Rightarrow> vns_session \<Rightarrow> (int \<times> vns_session) result" where
  "process_messages env k [] s = Inl Would_Block"
| "process_messages env k (m # ms) s =
     rbind (handle_command env k s m) (\<lambda>(r, s1).
       if r = 1 then process_messages env k ms s1 else Inr (r, s1))"

text \<open>Putting another input into a result.\<close>

definition with_input :: "recv_result list \<Rightarrow> (int \<times> vns_session) result \<Rightarrow> (int \<times> vns_session) result" where
  "with_input i x = rbind x (\<lambda>(r, s). Inr (r, s\<lparr>recv_input := i\<rparr>))"

lemma with_input_simps [simp]:
  "with_input i (Inl e) = Inl e" "with_input i (Inr (r, s)) = Inr (r, s\<lparr>recv_input := i\<rparr>)"
  by (simp_all add: with_input_def)

lemma vns_packet_input:
  "handle_vns_packet k (s\<lparr>recv_input := i\<rparr>) m = rbind (handle_vns_packet k s m) (\<lambda>s1. Inr (s1\<lparr>recv_input := i\<rparr>))"
proof -
  let ?sr = "router s" and ?p = "drop sizeof_packet_header m" and ?n = "drop sizeof_base m"
  show ?thesis
    by (cases "sr_arp_req_not_for_us ?sr ?p (of_nat (length m) - of_nat sizeof_packet_ethernet_header + of_nat sizeof_ether) ?n";
        cases "sr_handlepacket k ?sr ?p ?n") (simp_all add: handle_vns_packet_def Let_def)
qed

lemma rtable_input: "sr_handle_rtable env (s\<lparr>recv_input := i\<rparr>) m = with_input i (sr_handle_rtable env s m)"
  by (simp add: sr_handle_rtable_def Let_def)

lemma auth_request_input: "sr_handle_auth_request env (s\<lparr>recv_input := i\<rparr>) m = with_input i (sr_handle_auth_request env s m)"
proof (cases "auth_key_file env")
  case (Some kf)
  let ?h = "salted_hash (sha1_stack env) (drop sizeof_base m) (put 0 (fgets_line AUTH_KEY_LEN kf @ [0]) (key_junk env))"
  show ?thesis using Some
    by (cases ?h) (simp_all add: sr_handle_auth_request_def Let_def send_message_def split: option.split)
qed (simp add: sr_handle_auth_request_def)

lemma handle_command_input:
  "handle_command env k (s\<lparr>recv_input := i\<rparr>) m = with_input i (handle_command env k s m)"
proof -
  have hw: "rbind (sr_handle_hwinfo (if_junk env) (router s) m) (\<lambda>sr. Inr (f sr, s\<lparr>recv_input := i, router := sr\<rparr>)) =
      with_input i (rbind (sr_handle_hwinfo (if_junk env) (router s) m) (\<lambda>sr. Inr (f sr, s\<lparr>router := sr\<rparr>)))" for f
    by (cases "sr_handle_hwinfo (if_junk env) (router s) m") auto
  have packet: "rbind (rbind x (\<lambda>s1. Inr (s1\<lparr>recv_input := i\<rparr>))) (\<lambda>s1. Inr (1, s1)) =
      with_input i (rbind x (\<lambda>s1. Inr (1, s1)))" for x :: "vns_session result"
    by (cases x) simp_all
  have table: "rbind (with_input i x) (\<lambda>(ok, s1). Inr (if ok = 0 then -1 else 1, s1)) =
      with_input i (rbind x (\<lambda>(ok, s1). Inr (if ok = 0 then -1 else 1, s1)))" for x
    by (cases x) auto
  have status: "rbind x (\<lambda>ok. Inr (if ok = (0 :: int) then -1 else 1, s\<lparr>recv_input := i\<rparr>)) =
      with_input i (rbind x (\<lambda>ok. Inr (if ok = 0 then -1 else 1, s)))" for x
    by (cases x) auto
  show ?thesis
    by (simp add: handle_command_def Let_def vns_packet_input rtable_input auth_request_input hw packet table status)
qed

text \<open>However the stream is cut up, the main loop does what the messages say, one after the other.\<close>

lemma main_loop_refines:
  assumes "alive input" "\<forall>m \<in> set ms. framed m" "received_bytes input = concat ms" "length input < fuel" "length ms < rounds"
  shows "with_input i (main_loop env fuel k rounds (s\<lparr>recv_input := input\<rparr>)) =
    with_input i (process_messages env k ms s)"
  using assms
proof (induction ms arbitrary: input s rounds)
  case Nil
  then obtain r where "rounds = Suc r" by (cases rounds) auto
  moreover have "recv_loop fuel 4 input = Inl Would_Block"
    using recv_loop_waits [of input fuel 3] Nil by simp
  ultimately show ?case
    by (simp add: sr_read_from_server_def sr_read_from_server_expect_def read_message_def)
next
  case (Cons m ms)
  then obtain r where r: "rounds = Suc r" "length ms < r" by (cases rounds) auto
  obtain input' where input': "read_message fuel input = Inr (Some m, input')" "alive input'"
      "received_bytes input' = concat ms" "length input' \<le> length input"
    using read_message_framed [OF Cons.prems(1), of m "concat ms" fuel] Cons.prems(2-4) by auto
  have read: "sr_read_from_server env fuel k (s\<lparr>recv_input := input\<rparr>) =
      with_input input' (handle_command env k s m)"
    using input'(1) by (simp add: sr_read_from_server_def sr_read_from_server_expect_def handle_command_input)
  show ?case
  proof (cases "handle_command env k s m")
    case (Inr x)
    obtain v s1 where x: "x = (v, s1)" by fastforce
    have "with_input i (main_loop env fuel k r (s1\<lparr>recv_input := input'\<rparr>)) =
        with_input i (process_messages env k ms s1)"
      using Cons.IH [OF input'(2) _ input'(3)] Cons.prems(2,4) input'(4) r(2) by simp
    then show ?thesis using read Inr x r(1) by simp
  qed (use read r(1) in simp)
qed

section \<open>Frames\<close>

text \<open>A name is read up to its NUL.\<close>

lemma interface_c_str: "c_str a = c_str b \<Longrightarrow> sr_get_interface sr a = sr_get_interface sr b"
proof -
  assume "c_str a = c_str b"
  then have "get_interface_from ifs a = get_interface_from ifs b" for ifs
    by (induction ifs) (simp_all add: strncmp_eq_def)
  then show ?thesis by (simp add: sr_get_interface_def)
qed

lemma send_c_str: "c_str a = c_str b \<Longrightarrow> sr_send_packet sr f a = sr_send_packet sr f b"
  using interface_c_str [of a b]
  by (simp add: sr_send_packet_def sr_ether_addrs_match_interface_def vns_packet_def name_field_def strncpy_def)

lemma handlepacket_c_str: "c_str a = c_str b \<Longrightarrow> sr_handlepacket k sr f a = sr_handlepacket k sr f b"
  using interface_c_str [of a b] send_c_str [of a b]
  by (simp add: sr_handlepacket_def handle_arp_packet_def split: option.split)

lemma c_str_name_field: "length (c_str name) < n \<Longrightarrow> c_str (name_field name n @ rest) = c_str name"
proof -
  assume "length (c_str name) < n"
  then have "name_field name n = c_str name @ 0 # replicate (n - length (c_str name) - 1) 0"
    by (simp add: name_field_def strncpy_def replicate_Suc [symmetric] del: replicate_Suc)
  moreover have "\<forall>c \<in> set (c_str name). c \<noteq> 0" by (auto simp: c_str_def dest: set_takeWhileD)
  ultimately show ?thesis by (simp add: c_str_def takeWhile_append2)
qed

lemma length_name_field [simp]: "length (name_field name n) = n"
  by (simp add: name_field_def strncpy_def)

lemma arp_for_others:
  assumes "sr_get_interface sr i = Some ifc" "ether_type f = ethertype_arp" "ar_tip f \<noteq> if_ip ifc" "sizeof_ether \<le> length f"
  shows "sr_handlepacket k sr f i = Inr sr"
  using assms by (simp add: sr_handlepacket_def handle_arp_packet_def ethertype_arp_def ethertype_ip_def)

text \<open>A frame of a size that a message can hold, on a known interface.\<close>

definition frame_message :: "sr_instance \<Rightarrow> bytes \<times> bytes \<Rightarrow> bool" where
  "frame_message sr m \<longleftrightarrow> (case m of (i, f) \<Rightarrow> sr_get_interface sr i \<noteq> None \<and> length (c_str i) < 16 \<and>
     length f + sizeof_packet_header \<le> 10000)"

lemma framed_packet: "frame_message sr (i, f) \<Longrightarrow> framed (vns_packet i f)"
  using get32_append [of "[]" 0 "of_nat (length f + sizeof_packet_header)"]
  by (simp add: framed_def frame_message_def vns_packet_def sizeof_packet_header_def ac_simps)

lemma packet_fields:
  "get32 (vns_packet i f) 4 = VNSPACKET" "drop sizeof_packet_header (vns_packet i f) = f"
  "drop sizeof_base (vns_packet i f) = name_field i 16 @ f"
  "length (vns_packet i f) = length f + sizeof_packet_header"
  using get32_append [of "bytes32 (of_nat (length f + sizeof_packet_header))" 4 VNSPACKET]
  by (simp_all add: vns_packet_def sizeof_packet_header_def sizeof_base_def ac_simps)

lemma packet_length:
  "length f + sizeof_packet_header \<le> 10000 \<Longrightarrow>
   unat (of_nat (length (vns_packet i f)) - of_nat sizeof_packet_ethernet_header + of_nat sizeof_ether :: u32) = length f"
proof -
  assume "length f + sizeof_packet_header \<le> 10000"
  then have l: "length f < 2 ^ 32" by (simp add: sizeof_packet_header_def)
  have "of_nat (length (vns_packet i f)) - of_nat sizeof_packet_ethernet_header + of_nat sizeof_ether = (of_nat (length f) :: u32)"
    by (simp add: packet_fields sizeof_packet_header_def sizeof_packet_ethernet_header_def sizeof_ether_def)
  then show ?thesis using l by (simp add: unsigned_of_nat take_bit_nat_eq_self)
qed

lemma handle_packet_message:
  assumes "frame_message (router s) (i, f)"
  shows "handle_command env k s (vns_packet i f) =
    rbind (sr_handlepacket k (router s) f i) (\<lambda>sr. Inr (1, s\<lparr>router := sr\<rparr>))"
proof -
  let ?name = "name_field i 16 @ f"
  have fm: "length (c_str i) < 16" "length f + sizeof_packet_header \<le> 10000" using assms by (simp_all add: frame_message_def)
  obtain ifc where ifc: "sr_get_interface (router s) i = Some ifc" using assms by (auto simp: frame_message_def)
  note c = c_str_name_field [OF fm(1), of f]
  have name: "sr_get_interface (router s) ?name = Some ifc" using interface_c_str [OF c] ifc by simp
  have same: "sr_handlepacket k (router s) f ?name = sr_handlepacket k (router s) f i" by (rule handlepacket_c_str [OF c])
  let ?drop = "sizeof_ether + sizeof_arp \<le> length f \<and> ether_type f = ethertype_arp \<and> ar_op f = arp_op_request \<and> ar_tip f \<noteq> if_ip ifc"
  have "sr_arp_req_not_for_us (router s) f (of_nat (length (vns_packet i f)) - of_nat sizeof_packet_ethernet_header + of_nat sizeof_ether)
      ?name = Inr ?drop"
    using name packet_length [OF fm(2), of i] by (simp add: sr_arp_req_not_for_us_def not_le)
  then have "handle_vns_packet k s (vns_packet i f) =
      (if ?drop then Inr s else rbind (sr_handlepacket k (router s) f i) (\<lambda>sr. Inr (s\<lparr>router := sr\<rparr>)))"
    using packet_length [OF fm(2), of i] same by (simp add: handle_vns_packet_def Let_def packet_fields(2,3))
  moreover have "?drop \<Longrightarrow> sr_handlepacket k (router s) f i = Inr (router s)"
    using arp_for_others [OF ifc] by simp
  ultimately have "handle_vns_packet k s (vns_packet i f) = rbind (sr_handlepacket k (router s) f i) (\<lambda>sr. Inr (s\<lparr>router := sr\<rparr>))"
    by (cases ?drop) simp_all
  then show ?thesis
    by (cases "sr_handlepacket k (router s) f i") (simp_all add: handle_command_def packet_fields(1))
qed

end
