(* ===== verification/Sha1_Properties.thy ===== *)
theory Sha1_Properties
  imports Sha1
begin

text \<open>
  The hash of \<open>Sha1\<close> is the one of the standard (FIPS 180-1): a message, in whatever pieces it is
  put in, is padded, cut into blocks of 64 bytes, and folded with the compression function.
\<close>

section \<open>The standard\<close>

text \<open>The word sequence of a block.\<close>

fun spec_word :: "bytes \<Rightarrow> nat \<Rightarrow> u32" where
  "spec_word M t =
     (if t < 16 then get32 M (4 * t)
      else word_rotl 1 (spec_word M (t - 3) XOR spec_word M (t - 8) XOR spec_word M (t - 14) XOR spec_word M (t - 16)))"

declare spec_word.simps [simp del]

definition spec_f :: "nat \<Rightarrow> u32 \<Rightarrow> u32 \<Rightarrow> u32 \<Rightarrow> u32" where
  "spec_f t B C D =
     (if t < 20 then (B AND C) OR (NOT B AND D)
      else if t < 40 then B XOR C XOR D
      else if t < 60 then (B AND C) OR (B AND D) OR (C AND D)
      else B XOR C XOR D)"

definition spec_k :: "nat \<Rightarrow> u32" where
  "spec_k t = (if t < 20 then 0x5A827999 else if t < 40 then 0x6ED9EBA1 else if t < 60 then 0x8F1BBCDC else 0xCA62C1D6)"

definition spec_round :: "bytes \<Rightarrow> sha1_words \<Rightarrow> nat \<Rightarrow> sha1_words" where
  "spec_round M v t =
     (case v of (A, B, C, D, E) \<Rightarrow>
        (word_rotl 5 A + spec_f t B C D + E + spec_word M t + spec_k t, A, word_rotl 30 B, C, D))"

definition spec_compress :: "u32 list \<Rightarrow> bytes \<Rightarrow> u32 list" where
  "spec_compress H M =
     (case foldl (spec_round M) (H ! 0, H ! 1, H ! 2, H ! 3, H ! 4) [0..<80] of
        (A, B, C, D, E) \<Rightarrow> [H ! 0 + A, H ! 1 + B, H ! 2 + C, H ! 3 + D, H ! 4 + E])"

fun blocks :: "bytes \<Rightarrow> bytes list" where
  "blocks m = (if length m < 64 then [] else take 64 m # blocks (drop 64 m))"

declare blocks.simps [simp del]

definition spec_init :: "u32 list" where
  "spec_init = [0x67452301, 0xEFCDAB89, 0x98BADCFE, 0x10325476, 0xC3D2E1F0]"

definition spec_hash :: "bytes \<Rightarrow> u32 list" where
  "spec_hash m = foldl spec_compress spec_init (blocks m)"

text \<open>A bit 1, zeros, and the length in bits as 64 bits.\<close>

definition spec_pad :: "bytes \<Rightarrow> bytes" where
  "spec_pad m =
     m @ [0x80] @ replicate ((119 - length m mod 64) mod 64) 0 @
     bytes32 (of_nat (8 * length m div 2 ^ 32)) @ bytes32 (of_nat (8 * length m))"

definition spec_sha1 :: "bytes \<Rightarrow> u32 list" where
  "spec_sha1 m = spec_hash (spec_pad m)"

section \<open>A block\<close>

lemma and_32 [simp]: "w AND 0xFFFFFFFF = (w :: u32)"
proof -
  have "(0xFFFFFFFF :: u32) = -1" by simp
  then show ?thesis by (simp only: and.right_neutral)
qed

lemma circular_shift: "0 < n \<Longrightarrow> n < 32 \<Longrightarrow> SHA1CircularShift n w = word_rotl n w"
proof (rule bit_word_eqI)
  fix i assume n: "0 < n" "n < 32" and "i < LENGTH(32)"
  then have i: "i < 32" by simp
  have m: "(i + 32 - n) mod 32 = (if n \<le> i then i - n else i + 32 - n)"
  proof (cases "n \<le> i")
    case True
    then have "i + 32 - n = (i - n) + 32" by simp
    then show ?thesis using True i by (simp only: mod_add_self2) simp
  qed (use n in simp)
  have "\<not> bit w (32 + i - n)" if "n \<le> i"
    using that bit_imp_le_length [of w "32 + i - n"] by auto
  then show "bit (SHA1CircularShift n w) i = bit (word_rotl n w) i"
    using n i m by (cases "n \<le> i") (auto simp: SHA1CircularShift_def bit_simps add.commute [of 32])
qed

text \<open>What the loop has built after the words before \<open>n\<close>.\<close>

lemma word_sequence_upto:
  assumes "16 \<le> n"
  shows "foldl (\<lambda>W t. W @ [SHA1CircularShift 1 (W ! (t - 3) XOR W ! (t - 8) XOR W ! (t - 14) XOR W ! (t - 16))])
      (map (sha1_word M) [0..<16]) [16..<n] = map (spec_word M) [0..<n]"
  using assms
proof (induction n rule: dec_induct)
  case base
  have "sha1_word M t = spec_word M t" if "t < 16" for t
    using that by (simp add: sha1_word_def spec_word.simps [of M t] get32_def mult.commute)
  then show ?case by simp
next
  case (step n)
  have "spec_word M n = word_rotl 1 (spec_word M (n - 3) XOR spec_word M (n - 8) XOR spec_word M (n - 14) XOR spec_word M (n - 16))"
    using step(1) by (simp add: spec_word.simps [of M n])
  then show ?case using step by (simp add: circular_shift)
qed

lemma word_sequence_spec: "word_sequence M = map (spec_word M) [0..<80]"
  unfolding word_sequence_def by (rule word_sequence_upto) simp

lemma rounds:
  assumes "\<And>t. t \<in> set ts \<Longrightarrow> t < 80 \<and> spec_f t = f \<and> spec_k t = k"
  shows "foldl (sha1_round f k (word_sequence M)) v ts = foldl (spec_round M) v ts"
  using assms
proof (induction ts arbitrary: v)
  case (Cons t ts)
  then have "sha1_round f k (word_sequence M) v t = spec_round M v t"
    by (cases v) (simp add: sha1_round_def spec_round_def word_sequence_spec circular_shift Let_def)
  then show ?case using Cons by simp
qed simp

lemma process_block:
  "SHA1ProcessMessageBlock c = c\<lparr>Message_Digest := spec_compress (Message_Digest c) (Message_Block c), Message_Block_Index := 0\<rparr>"
proof -
  have f: "spec_f t = (\<lambda>B C D. (B AND C) OR (NOT B AND D))" "spec_k t = 0x5A827999" if "t < 20" for t
    using that by (simp_all add: spec_f_def spec_k_def fun_eq_iff)
  have f2: "spec_f t = (\<lambda>B C D. B XOR C XOR D)" "spec_k t = 0x6ED9EBA1" if "20 \<le> t" "t < 40" for t
    using that by (simp_all add: spec_f_def spec_k_def fun_eq_iff)
  have f3: "spec_f t = (\<lambda>B C D. (B AND C) OR (B AND D) OR (C AND D))" "spec_k t = 0x8F1BBCDC" if "40 \<le> t" "t < 60" for t
    using that by (simp_all add: spec_f_def spec_k_def fun_eq_iff)
  have f4: "spec_f t = (\<lambda>B C D. B XOR C XOR D)" "spec_k t = 0xCA62C1D6" if "60 \<le> t" for t
    using that by (simp_all add: spec_f_def spec_k_def fun_eq_iff)
  let ?W = "word_sequence (Message_Block c)" and ?M = "Message_Block c"
  have r: "foldl (sha1_round (\<lambda>B C D. (B AND C) OR (NOT B AND D)) 0x5A827999 ?W) v [0..<20] = foldl (spec_round ?M) v [0..<20]"
    "foldl (sha1_round (\<lambda>B C D. B XOR C XOR D) 0x6ED9EBA1 ?W) v [20..<40] = foldl (spec_round ?M) v [20..<40]"
    "foldl (sha1_round (\<lambda>B C D. (B AND C) OR (B AND D) OR (C AND D)) 0x8F1BBCDC ?W) v [40..<60] = foldl (spec_round ?M) v [40..<60]"
    "foldl (sha1_round (\<lambda>B C D. B XOR C XOR D) 0xCA62C1D6 ?W) v [60..<80] = foldl (spec_round ?M) v [60..<80]" for v
    by (rule rounds, unfold set_upt atLeastLessThan_iff, simp add: f f2 f3 f4)+
  have "[0..<80] = [0..<20] @ [20..<40] @ [40..<60] @ [60..<80]"
    using upt_add_eq_append [of 0 20 60] upt_add_eq_append [of 20 40 40] upt_add_eq_append [of 40 60 20] by simp
  then show ?thesis
    unfolding SHA1ProcessMessageBlock_def Let_def r spec_compress_def by (simp only: foldl_append and_32 split: prod.split) simp
qed

section \<open>Blocks of a message\<close>

lemma blocks_append: "64 dvd length a \<Longrightarrow> blocks (a @ b) = blocks a @ blocks b"
proof (induction a rule: blocks.induct)
  case (1 a)
  show ?case
  proof (cases "length a < 64")
    case True
    then have "a = []" using 1(2) by (auto elim!: dvdE)
    then show ?thesis by (simp add: blocks.simps [of "[]"])
  next
    case False
    then have "64 dvd length (drop 64 a)" using 1(2) by simp
    then show ?thesis using 1(1) [OF False] False by (simp add: blocks.simps [of "a @ b"] blocks.simps [of a])
  qed
qed

lemma blocks_one: "length b = 64 \<Longrightarrow> blocks b = [b]"
  by (simp add: blocks.simps [of b] blocks.simps [of "[]"])

lemma blocks_rest: "length b < 64 \<Longrightarrow> blocks b = []"
  by (simp add: blocks.simps [of b])

text \<open>The part of a message that fills no block.\<close>

definition rest :: "bytes \<Rightarrow> bytes" where
  "rest m = drop (64 * (length m div 64)) m"

lemma length_rest: "length (rest m) = length m mod 64"
  by (simp add: rest_def minus_mult_div_eq_mod)

lemma split_rest: "\<exists>full. m = full @ rest m \<and> 64 dvd length full \<and> blocks m = blocks full \<and> length full = 64 * (length m div 64)"
proof -
  let ?full = "take (64 * (length m div 64)) m"
  have "m = ?full @ rest m" by (simp add: rest_def)
  moreover have len: "length ?full = 64 * (length m div 64)" by simp
  moreover have "blocks m = blocks ?full @ blocks (rest m)"
    using blocks_append [of ?full "rest m"] len \<open>m = ?full @ rest m\<close> by simp
  moreover have "blocks (rest m) = []" by (rule blocks_rest) (simp add: length_rest)
  ultimately show ?thesis by (metis append_Nil2 dvd_triv_left)
qed

text \<open>What follows the rest of a message and fills its block.\<close>

lemma spec_hash_fill:
  assumes "length (rest m @ x) = 64"
  shows "spec_hash (m @ x @ y) = foldl spec_compress (spec_compress (spec_hash m) (rest m @ x)) (blocks y)"
proof -
  obtain full where f: "m = full @ rest m" "64 dvd length full" "blocks m = blocks full" using split_rest by blast
  have e: "m @ x @ y = full @ (rest m @ x) @ y" using f(1) by (metis append.assoc)
  have "blocks (m @ x @ y) = blocks m @ [rest m @ x] @ blocks y"
    unfolding e using blocks_append [OF f(2)] blocks_append [of "rest m @ x" y] blocks_one [OF assms] assms f(3) by simp
  then show ?thesis by (simp add: spec_hash_def)
qed

lemma spec_hash_rest:
  assumes "length (rest m @ x) < 64"
  shows "spec_hash (m @ x) = spec_hash m" "rest (m @ x) = rest m @ x"
proof -
  obtain full where f: "m = full @ rest m" "64 dvd length full" "blocks m = blocks full" "length full = 64 * (length m div 64)"
    using split_rest by blast
  have eq: "m @ x = full @ (rest m @ x)" using f(1) by (metis append.assoc)
  have "blocks (m @ x) = blocks m" unfolding eq using blocks_append [OF f(2)] blocks_rest [OF assms] f(3) by simp
  then show "spec_hash (m @ x) = spec_hash m" by (simp add: spec_hash_def)
  have "length (m @ x) = length full + length (rest m @ x)" using eq by (metis length_append)
  then have "length (m @ x) div 64 = length m div 64" using f(4) assms by simp
  then show "rest (m @ x) = rest m @ x" using eq f(4) unfolding rest_def [of "m @ x"] by (metis append_eq_conv_conj)
qed

lemma rest_full: "length (rest m @ x) = 64 \<Longrightarrow> rest (m @ x) = []"
proof -
  assume "length (rest m @ x) = 64"
  then have "length (m @ x) mod 64 = 0" by (simp add: length_rest) (metis mod_add_left_eq mod_self)
  then show ?thesis using length_rest [of "m @ x"] by simp
qed

section \<open>Input\<close>

text \<open>The context of a message that has been put in.\<close>

definition hashed :: "bytes \<Rightarrow> SHA1Context \<Rightarrow> bool" where
  "hashed m c \<longleftrightarrow> Message_Digest c = spec_hash m \<and> length (Message_Block c) = 64 \<and>
     Message_Block_Index c = length (rest m) \<and> take (length (rest m)) (Message_Block c) = rest m \<and>
     unat (Length_Low c) + 2 ^ 32 * unat (Length_High c) = 8 * length m \<and> \<not> Computed c \<and> \<not> Corrupted c"

lemma hashed_reset: "length (Message_Block c) = 64 \<Longrightarrow> hashed [] (SHA1Reset c)"
  by (simp add: hashed_def SHA1Reset_def rest_def spec_hash_def spec_init_def blocks.simps [of "[]"])

lemma count_byte_counts:
  assumes "unat (Length_Low c) + 2 ^ 32 * unat (Length_High c) = 8 * n" "8 * (n + 1) < 2 ^ 64"
  shows "\<exists>lo hi. count_byte c = c\<lparr>Length_Low := lo, Length_High := hi\<rparr> \<and> unat lo + 2 ^ 32 * unat hi = 8 * (n + 1)"
proof -
  let ?lo = "unat (Length_Low c)" and ?hi = "unat (Length_High c)"
  have lo: "?lo < 2 ^ 32" "?hi < 2 ^ 32"
    using unsigned_less [of "Length_Low c", where ?'a = nat] unsigned_less [of "Length_High c", where ?'a = nat] by simp_all
  have "?lo + 2 ^ 32 * ?hi = ?lo + 8 * (2 ^ 29 * ?hi)" by simp
  then have "8 dvd ?lo" using assms(1) by (metis dvd_triv_left dvd_add_left_iff)
  then have le: "?lo + 8 \<le> 2 ^ 32" using lo(1) by (auto elim!: dvdE)
  have sum: "unat (Length_Low c + 8) = (?lo + 8) mod 2 ^ 32"
    by (simp add: unat_word_ariths)
  show ?thesis
  proof (cases "?lo + 8 = 2 ^ 32")
    case True
    then have z: "Length_Low c + 8 = 0" using sum by (simp add: unat_eq_0 [symmetric])
    have tot: "2 ^ 32 * (?hi + 1) = 8 * (n + 1)" using assms(1) True by simp
    then have hi: "?hi + 1 < 2 ^ 32" using assms(2) by simp
    then have h: "unat (Length_High c + 1) = ?hi + 1" by (simp add: unat_word_ariths)
    then have "Length_High c + 1 \<noteq> 0" by (metis Suc_eq_plus1 nat.distinct(1) unsigned_0)
    then have "count_byte c = c\<lparr>Length_Low := 0, Length_High := Length_High c + 1\<rparr>" using z by (simp add: count_byte_def)
    moreover have "unat (0 :: u32) + 2 ^ 32 * unat (Length_High c + 1) = 8 * (n + 1)" using h tot by simp
    ultimately show ?thesis by blast
  next
    case False
    then have s: "unat (Length_Low c + 8) = ?lo + 8" using sum le by simp
    then have "Length_Low c + 8 \<noteq> 0" by (metis add_is_0 unsigned_0 zero_neq_numeral)
    then have "count_byte c = c\<lparr>Length_Low := Length_Low c + 8, Length_High := Length_High c\<rparr>"
      by (simp add: count_byte_def)
    moreover have "unat (Length_Low c + 8) + 2 ^ 32 * ?hi = 8 * (n + 1)" using s assms(1) by simp
    ultimately show ?thesis by blast
  qed
qed

lemma length_rest_less: "length (rest m) < 64"
  by (simp add: length_rest)

lemma input_byte:
  assumes "hashed m c" "8 * (length m + 1) < 2 ^ 64"
  shows "\<exists>c1. store_byte b c = Inr c1 \<and>
    hashed (m @ [b]) (if Message_Block_Index (count_byte c1) = 64 then SHA1ProcessMessageBlock (count_byte c1) else count_byte c1)"
proof -
  let ?i = "length (rest m)"
  let ?c1 = "c\<lparr>Message_Block := (Message_Block c)[?i := b], Message_Block_Index := ?i + 1\<rparr>"
  have h: "Message_Digest c = spec_hash m" "length (Message_Block c) = 64" "Message_Block_Index c = ?i"
    "take ?i (Message_Block c) = rest m" "\<not> Computed c" "\<not> Corrupted c"
    using assms(1) by (simp_all add: hashed_def)
  have st: "store_byte b c = Inr ?c1" using h(3) length_rest_less [of m] by (simp add: store_byte_def)
  have "unat (Length_Low ?c1) + 2 ^ 32 * unat (Length_High ?c1) = 8 * length m" using assms(1) by (simp add: hashed_def)
  from count_byte_counts [OF this assms(2)] obtain lo hi where
    cnt: "count_byte ?c1 = ?c1\<lparr>Length_Low := lo, Length_High := hi\<rparr>" "unat lo + 2 ^ 32 * unat hi = 8 * length (m @ [b])" by auto
  have blk: "take (?i + 1) ((Message_Block c)[?i := b]) = rest m @ [b]"
    using h(2,4) length_rest_less [of m] by (simp add: take_Suc_conv_app_nth)
  show ?thesis
  proof (cases "?i + 1 = 64")
    case True
    then have len: "length (rest m @ [b]) = 64" by simp
    have "spec_hash (m @ [b] @ []) = spec_compress (spec_hash m) (rest m @ [b])"
      using spec_hash_fill [OF len, of "[]"] by (simp add: blocks.simps [of "[]"])
    moreover have "(Message_Block c)[?i := b] = rest m @ [b]" using blk True h(2) by simp
    ultimately have "hashed (m @ [b]) (SHA1ProcessMessageBlock (count_byte ?c1))"
      using h len rest_full [OF len] cnt by (simp add: hashed_def process_block)
    then show ?thesis using st cnt(1) True by simp
  next
    case False
    then have len: "length (rest m @ [b]) < 64" using length_rest_less [of m] by simp
    have "hashed (m @ [b]) (count_byte ?c1)"
      using h spec_hash_rest [OF len] cnt blk by (simp add: hashed_def)
    then show ?thesis using st cnt(1) False by simp
  qed
qed

lemma input_hashed:
  assumes "hashed m c" "8 * (length m + length b) < 2 ^ 64"
  shows "\<exists>c'. input_loop b c = Inr c' \<and> hashed (m @ b) c'"
  using assms
proof (induction b arbitrary: m c)
  case (Cons x b)
  have "(0xFF :: u8) = -1" by simp
  then have ff: "x AND 0xFF = x" by (simp only: and.right_neutral)
  have "8 * (length m + 1) < 2 ^ 64" using Cons(3) by simp
  from input_byte [OF Cons(2) this, of x] obtain c1 where c1: "store_byte x c = Inr c1"
    "hashed (m @ [x]) (if Message_Block_Index (count_byte c1) = 64 then SHA1ProcessMessageBlock (count_byte c1) else count_byte c1)"
    by blast
  have nc: "\<not> Corrupted c" using Cons(2) by (simp add: hashed_def)
  have "8 * (length (m @ [x]) + length b) < 2 ^ 64" using Cons(3) by simp
  from Cons(1) [OF c1(2) this] show ?case using nc c1(1) by (simp only: input_loop.simps ff if_False rbind_simps Let_def append.assoc append_Cons append_Nil)
qed simp

lemma SHA1Input_hashed:
  assumes "hashed m c" "8 * (length m + length b) < 2 ^ 64"
  shows "\<exists>c'. SHA1Input b c = Inr c' \<and> hashed (m @ b) c'"
  using input_hashed [OF assms] assms(1) by (cases "b = []") (auto simp: SHA1Input_def hashed_def)

section \<open>Padding\<close>

lemma pad_zeros_fills:
  assumes "Message_Block_Index c \<le> n" "n \<le> 64" "length (Message_Block c) = 64"
  shows "pad_zeros n c = Inr (c\<lparr>Message_Block := take (Message_Block_Index c) (Message_Block c) @
    replicate (n - Message_Block_Index c) 0 @ drop n (Message_Block c), Message_Block_Index := n\<rparr>)"
  using assms
proof (induction n c rule: pad_zeros.induct)
  case (1 n c)
  let ?i = "Message_Block_Index c" and ?b = "Message_Block c"
  show ?case
  proof (cases "?i < n")
    case False
    then have "?i = n" using 1(2) by simp
    then show ?thesis by (simp add: pad_zeros.simps [of n])
  next
    case True
    then have lt: "\<not> 64 \<le> ?i" "?i < length ?b" using 1(3,4) by simp_all
    have blk: "take (?i + 1) (?b[?i := 0]) = take ?i ?b @ [0]" using lt(2) by (simp add: take_Suc_conv_app_nth)
    have rep: "replicate (n - ?i) (0 :: u8) = 0 # replicate (n - (?i + 1)) 0"
      using True by (simp add: Suc_diff_Suc replicate_Suc [symmetric] del: replicate_Suc)
    show ?thesis
      using 1(1) [OF True lt(1)] True lt 1(2-4) blk rep by (simp add: pad_zeros.simps [of n])
  qed
qed

text \<open>The two words of the length.\<close>

lemma length_words:
  fixes lo hi :: u32
  assumes "unat lo + 2 ^ 32 * unat hi = 8 * n"
  shows "lo = of_nat (8 * n)" "hi = of_nat (8 * n div 2 ^ 32)"
proof -
  have lt: "unat lo < 2 ^ 32" using unsigned_less [of lo, where ?'a = nat] by simp
  have "8 * n div 2 ^ 32 = unat hi" using assms lt by (metis add.commute div_mult_self2 div_less add_0 zero_neq_numeral power_eq_0_iff mult.commute)
  then show "hi = of_nat (8 * n div 2 ^ 32)" by simp
  have z: "(2 ^ 32 :: u32) = 0" using word_exp_length_eq_0 [where 'a = 32] by simp
  have "of_nat (8 * n) = (of_nat (unat lo) + 2 ^ 32 * of_nat (unat hi) :: u32)"
    unfolding assms [symmetric] by (simp only: of_nat_add of_nat_mult of_nat_power of_nat_numeral)
  then show "lo = of_nat (8 * n)" unfolding z by simp
qed

text \<open>What stands behind the message in its last block or its last two blocks.\<close>

lemma spec_pad_short:
  assumes "length (rest m) \<le> 55"
  shows "spec_sha1 m = spec_compress (spec_hash m) (rest m @ [0x80] @ replicate (55 - length (rest m)) 0 @
    bytes32 (of_nat (8 * length m div 2 ^ 32)) @ bytes32 (of_nat (8 * length m)))"
proof -
  let ?l = "bytes32 (of_nat (8 * length m div 2 ^ 32)) @ bytes32 (of_nat (8 * length m))"
  have z: "(119 - length m mod 64) mod 64 = 55 - length (rest m)"
  proof -
    have "119 - length (rest m) = (55 - length (rest m)) + 64" using assms by simp
    then have "(119 - length (rest m)) mod 64 = 55 - length (rest m)" by (simp only: mod_add_self2) simp
    then show ?thesis by (simp only: length_rest)
  qed
  have len: "length (rest m @ [0x80] @ replicate (55 - length (rest m)) 0 @ ?l) = 64" using assms by simp
  show ?thesis
    unfolding spec_sha1_def spec_pad_def z using spec_hash_fill [OF len, of "[]"] by (simp add: blocks.simps [of "[]"])
qed

lemma spec_pad_long:
  assumes "55 < length (rest m)"
  shows "spec_sha1 m = spec_compress (spec_compress (spec_hash m) (rest m @ [0x80] @ replicate (63 - length (rest m)) 0))
    (replicate 56 0 @ bytes32 (of_nat (8 * length m div 2 ^ 32)) @ bytes32 (of_nat (8 * length m)))"
proof -
  let ?l = "bytes32 (of_nat (8 * length m div 2 ^ 32)) @ bytes32 (of_nat (8 * length m))"
  have lt: "length (rest m) < 64" by (rule length_rest_less)
  have z: "(119 - length m mod 64) mod 64 = (63 - length (rest m)) + 56"
  proof -
    have "(119 - length (rest m)) mod 64 = (63 - length (rest m)) + 56" using assms lt by simp
    then show ?thesis by (simp only: length_rest)
  qed
  have len: "length (rest m @ [0x80] @ replicate (63 - length (rest m)) 0) = 64" using lt by simp
  have "spec_pad m = m @ ([0x80] @ replicate (63 - length (rest m)) 0) @ replicate 56 0 @ ?l"
    unfolding spec_pad_def z replicate_add by simp
  then show ?thesis
    unfolding spec_sha1_def using spec_hash_fill [OF len, of "replicate 56 0 @ ?l"] blocks_one [of "replicate 56 0 @ ?l"] by simp
qed

lemma take_store:
  "length b = 64 \<Longrightarrow> i < 64 \<Longrightarrow> take i b = r \<Longrightarrow> take (i + 1) (b[i := x]) = r @ [x]"
  by (simp add: take_Suc_conv_app_nth)

text \<open>The padding of the code is that of the standard.\<close>

lemma result_hashed:
  assumes "hashed m c"
  shows "\<exists>c'. SHA1Result c = Inr (True, c') \<and> Message_Digest c' = spec_sha1 m"
proof -
  let ?i = "length (rest m)" and ?b = "(Message_Block c)[length (rest m) := 0x80]"
  let ?c1 = "c\<lparr>Message_Block := ?b, Message_Block_Index := ?i + 1\<rparr>"
  have h: "Message_Digest c = spec_hash m" "length (Message_Block c) = 64" "Message_Block_Index c = ?i"
    "take ?i (Message_Block c) = rest m" "\<not> Computed c" "\<not> Corrupted c"
    "unat (Length_Low c) + 2 ^ 32 * unat (Length_High c) = 8 * length m"
    using assms by (simp_all add: hashed_def)
  note lw = length_words [OF h(7)]
  have st: "store_byte 0x80 c = Inr ?c1" using h(3) length_rest_less [of m] by (simp add: store_byte_def)
  have blk: "take (?i + 1) ?b = rest m @ [0x80]" using h(2,4) length_rest_less [of m] by (intro take_store)
  have result: "SHA1Result c = rbind (SHA1PadMessage c) (\<lambda>c1. Inr (True, c1\<lparr>Computed := True\<rparr>))"
    using h(5,6) by (simp add: SHA1Result_def)
  show ?thesis
  proof (cases "55 < ?i")
    case False
    have pz: "pad_zeros 56 ?c1 = Inr (?c1\<lparr>Message_Block := (rest m @ [0x80]) @ replicate (55 - ?i) 0 @ drop 56 ?b,
        Message_Block_Index := 56\<rparr>)"
      using pad_zeros_fills [of ?c1 56] False h(2) blk by simp
    have "56 - ?i = Suc (55 - ?i)" using False by simp
    then have tk: "take (56 - ?i) (0x80 # replicate (55 - ?i) 0 @ x) = 0x80 # replicate (55 - ?i) (0 :: u8)" for x by simp
    show ?thesis
      unfolding result SHA1PadMessage_def h(3) using False st pz spec_pad_short [of m] h(1) lw
      by (simp add: process_block tk)
  next
    case True
    define b2 where "b2 = (rest m @ [0x80]) @ replicate (63 - ?i) (0 :: u8)"
    have b2: "length b2 = 64" using length_rest_less [of m] True by (simp add: b2_def)
    have pz: "pad_zeros 64 ?c1 = Inr (?c1\<lparr>Message_Block := b2, Message_Block_Index := 64\<rparr>)"
      using pad_zeros_fills [of ?c1 64] length_rest_less [of m] h(2) blk by (simp add: b2_def)
    let ?c3 = "SHA1ProcessMessageBlock (?c1\<lparr>Message_Block := b2, Message_Block_Index := 64\<rparr>)"
    have pz2: "pad_zeros 56 ?c3 = Inr (?c3\<lparr>Message_Block := replicate 56 0 @ drop 56 b2, Message_Block_Index := 56\<rparr>)"
      using pad_zeros_fills [of ?c3 56] b2 by (simp add: process_block)
    show ?thesis
      unfolding result SHA1PadMessage_def h(3) using True st pz pz2 spec_pad_long [OF True] h(1) lw
      by (simp add: process_block b2_def)
  qed
qed

section \<open>Property\<close>

fun sha1_inputs :: "bytes list \<Rightarrow> SHA1Context \<Rightarrow> SHA1Context result" where
  "sha1_inputs [] c = Inr c"
| "sha1_inputs (m # ms) c = rbind (SHA1Input m c) (sha1_inputs ms)"

lemma inputs_hashed:
  assumes "hashed m c" "8 * (length m + length (concat ms)) < 2 ^ 64"
  shows "\<exists>c'. sha1_inputs ms c = Inr c' \<and> hashed (m @ concat ms) c'"
  using assms
proof (induction ms arbitrary: m c)
  case (Cons x ms)
  have "8 * (length m + length x) < 2 ^ 64" using Cons(3) by simp
  from SHA1Input_hashed [OF Cons(2) this] obtain c1 where c1: "SHA1Input x c = Inr c1" "hashed (m @ x) c1" by blast
  have "8 * (length (m @ x) + length (concat ms)) < 2 ^ 64" using Cons(3) by (simp add: add.assoc)
  from Cons(1) [OF c1(2) this] c1(1) show ?case by simp
qed simp

lemma sha1_standard:
  assumes "8 * length (concat ms) < 2 ^ 64" "length (Message_Block c) = 64"
  shows "\<exists>c'. rbind (sha1_inputs ms (SHA1Reset c)) SHA1Result = Inr (True, c') \<and> Message_Digest c' = spec_sha1 (concat ms)"
proof -
  have "8 * (length ([] :: bytes) + length (concat ms)) < 2 ^ 64" using assms(1) by simp
  from inputs_hashed [OF hashed_reset [OF assms(2)] this] obtain c1 where
    "sha1_inputs ms (SHA1Reset c) = Inr c1" "hashed (concat ms) c1" by auto
  with result_hashed [OF this(2)] show ?thesis by simp
qed

text \<open>C40. The hash of the router is SHA-1: a message of less than \<open>2 ^ 64\<close> bits, put in in any pieces, has
  the digest of the standard, which pads it, cuts it into blocks and folds them with the
  compression function, whatever the context held before. No index leaves the block.\<close>

theorem sha1_correct:
  assumes "8 * length (concat ms) < 2 ^ 64" "length (Message_Block c) = 64"
  shows "\<exists>c'. rbind (sha1_inputs ms (SHA1Reset c)) SHA1Result = Inr (True, c') \<and> Message_Digest c' = spec_sha1 (concat ms)"
  by (rule sha1_standard [OF assms])

theorem sha1_correct_witness:
  "let c = \<lparr>Message_Digest = [], Length_Low = 1, Length_High = 2, Message_Block = replicate 64 7, Message_Block_Index = 3,
     Computed = True, Corrupted = True\<rparr>
   in \<exists>c'. rbind (sha1_inputs [replicate 60 1, [], replicate 70 2] (SHA1Reset c)) SHA1Result = Inr (True, c') \<and>
     Message_Digest c' = spec_sha1 (replicate 60 1 @ replicate 70 2)"
  using sha1_correct [of "[replicate 60 1, [], replicate 70 2]"] by (simp add: Let_def)

end
