(* ===== verification/Vns_Properties.thy ===== *)
theory Vns_Properties
  imports Vns_Session Sha1_Properties
begin

text \<open>
  The properties of the router's sessions with its server, each with a concrete case.
\<close>

section \<open>Hardware information\<close>

text \<open>The entries that describe an interface, as a server writes them.\<close>

definition hw_entry :: "u32 \<Rightarrow> bytes \<Rightarrow> bytes" where
  "hw_entry key v = bytes32 key @ v @ replicate (32 - length v) 0"

definition hw_entries :: "sr_if \<Rightarrow> bytes" where
  "hw_entries ifc = hw_entry HWINTERFACE (if_name ifc) @ hw_entry HWETHER (if_addr ifc) @ hw_entry HWETHIP (bytes32 (if_ip ifc))"

definition hwinfo_message :: "sr_if list \<Rightarrow> bytes" where
  "hwinfo_message ifs =
     bytes32 (of_nat (8 + 108 * length ifs)) @ bytes32 VNSHWINFO @ concat (map hw_entries ifs)"

definition interface_ok :: "sr_if \<Rightarrow> bool" where
  "interface_ok ifc \<longleftrightarrow> 0 \<notin> set (if_name ifc) \<and> length (if_name ifc) \<le> sr_IFACE_NAMELEN \<and> length (if_addr ifc) = 6"

lemma length_hw_entry: "length v \<le> 32 \<Longrightarrow> length (hw_entry key v) = sizeof_hw_entry"
  by (simp add: hw_entry_def sizeof_hw_entry_def)

lemma hw_entry_step:
  assumes "length v \<le> 32"
  shows "hwinfo_loop junk (Suc n) (hw_entry key v @ b) sr =
    rbind (handle_hw_entry junk sr (hw_entry key v)) (hwinfo_loop junk n b)"
  using length_hw_entry [OF assms, of key] by simp

lemma handle_hw_entry_eq:
  "handle_hw_entry junk sr (hw_entry key v) =
     (let w = v @ replicate (32 - length v) 0
      in if key = HWINTERFACE then Inr (sr_add_interface junk sr w)
         else if key = HWETHIP then sr_set_ether_ip sr (get32 w 0)
         else if key = HWETHER then sr_set_ether_addr sr w
         else Inr sr)"
  using get32_append [of "[]" 0 key "v @ replicate (32 - length v) 0"]
  by (simp add: handle_hw_entry_def hw_entry_def Let_def)

lemma c_str_padded: "0 \<notin> set v \<Longrightarrow> c_str (v @ replicate n 0) = v"
  by (induction v) (auto simp: c_str_def takeWhile_eq_Nil_iff gr0_conv_Suc)

lemma hwinfo_interface:
  assumes "interface_ok ifc"
  shows "hwinfo_loop junk (Suc (Suc (Suc n))) (hw_entries ifc @ b) sr = hwinfo_loop junk n b (sr\<lparr>if_list := if_list sr @ [ifc]\<rparr>)"
proof -
  have ok: "0 \<notin> set (if_name ifc)" "length (if_name ifc) \<le> 32" "length (if_addr ifc) = 6"
    using assms by (simp_all add: interface_ok_def sr_IFACE_NAMELEN_def)
  have ip: "get32 (bytes32 (if_ip ifc) @ x) 0 = if_ip ifc" for x
    using get32_append [of "[]" 0 "if_ip ifc" x] by simp
  have name: "strncpy (if_name ifc @ replicate m 0) sr_IFACE_NAMELEN = if_name ifc" for m
    using ok by (simp add: strncpy_def c_str_padded sr_IFACE_NAMELEN_def)
  have junk: "junk\<lparr>if_name := if_name ifc, if_addr := if_addr ifc, if_ip := if_ip ifc\<rparr> = ifc" by (cases junk; cases ifc) simp
  show ?thesis
    using ok ip name
    by (simp add: hw_entries_def hw_entry_step handle_hw_entry_eq Let_def HWINTERFACE_def HWETHER_def HWETHIP_def
        sr_add_interface_def sr_set_ether_addr_def sr_set_ether_ip_def del: hwinfo_loop.simps)
      (simp only: junk)
qed

lemma hwinfo_interfaces:
  "\<forall>ifc \<in> set ifs. interface_ok ifc \<Longrightarrow>
   hwinfo_loop junk (3 * length ifs) (concat (map hw_entries ifs)) sr = Inr (sr\<lparr>if_list := if_list sr @ ifs\<rparr>)"
proof (induction ifs arbitrary: sr)
  case (Cons ifc ifs)
  have n: "3 * length (ifc # ifs) = Suc (Suc (Suc (3 * length ifs)))" by simp
  have "interface_ok ifc" "\<forall>ifc \<in> set ifs. interface_ok ifc" using Cons(2) by simp_all
  then show ?case unfolding n list.map concat.simps hwinfo_interface [OF \<open>interface_ok ifc\<close>] using Cons(1) by simp
qed simp

lemma length_hw_entries: "interface_ok ifc \<Longrightarrow> length (hw_entries ifc) = 108"
  by (simp add: hw_entries_def length_hw_entry interface_ok_def sr_IFACE_NAMELEN_def sizeof_hw_entry_def)

lemma length_hwinfo:
  "\<forall>ifc \<in> set ifs. interface_ok ifc \<Longrightarrow> length (concat (map hw_entries ifs)) = 108 * length ifs"
  by (induction ifs) (simp_all add: length_hw_entries)

section \<open>Properties\<close>

text \<open>The server's description of the interfaces is read back: after it the router has exactly
  the described interfaces behind those it had, and it goes on exactly when every route of its
  table names an interface.\<close>

lemma hwinfo_roundtrip:
  assumes "\<forall>ifc \<in> set ifs. interface_ok ifc"
  shows "handle_command env k s (hwinfo_message ifs) =
    (let sr = (router s)\<lparr>if_list := if_list (router s) @ ifs\<rparr>
     in Inr (if sr_verify_routing_table sr = 0 then 1 else -1, s\<lparr>router := sr\<rparr>))"
proof -
  let ?b = "concat (map hw_entries ifs)"
  have "get32 (hwinfo_message ifs) 4 = VNSHWINFO"
    using get32_append [of "bytes32 (of_nat (8 + 108 * length ifs))" 4 VNSHWINFO ?b] by (simp add: hwinfo_message_def)
  moreover have "drop sizeof_base (hwinfo_message ifs) = ?b" "(length (hwinfo_message ifs) - sizeof_base) div sizeof_hw_entry = 3 * length ifs"
    using length_hwinfo [OF assms] by (simp_all add: hwinfo_message_def sizeof_base_def sizeof_hw_entry_def)
  then have "sr_handle_hwinfo (if_junk env) (router s) (hwinfo_message ifs) = Inr ((router s)\<lparr>if_list := if_list (router s) @ ifs\<rparr>)"
    using hwinfo_interfaces [OF assms] by (simp add: sr_handle_hwinfo_def)
  ultimately show ?thesis
    by (simp add: handle_command_def VNSHWINFO_def VNSPACKET_def VNSCLOSE_def VNSBANNER_def Let_def)
qed

lemma process_frames:
  assumes "\<forall>m \<in> set fs. frame_message (router s) m"
  shows "process_messages env k (map (\<lambda>(i, f). vns_packet i f) fs @ ms) s =
    rbind (router_run k n (router s) (map (\<lambda>(i, f). Frame_In f i) fs)) (\<lambda>sr.
      process_messages env k ms (s\<lparr>router := sr\<rparr>))"
  using assms
proof (induction fs arbitrary: s)
  case (Cons m fs)
  obtain i f where m: "m = (i, f)" by fastforce
  have step: "handle_command env k s (vns_packet i f) =
      rbind (sr_handlepacket k (router s) f i) (\<lambda>sr. Inr (1, s\<lparr>router := sr\<rparr>))"
    using handle_packet_message Cons.prems m by simp
  show ?case
  proof (cases "sr_handlepacket k (router s) f i")
    case (Inr sr)
    then have "if_list sr = if_list (router s)"
      using handlepacket_sends by (fastforce simp: sends_def same_tables_def)
    then have "\<forall>m \<in> set fs. frame_message (router (s\<lparr>router := sr\<rparr>)) m"
      using Cons.prems by (auto simp: frame_message_def sr_get_interface_def)
    then show ?thesis using Cons.IH [of "s\<lparr>router := sr\<rparr>"] step Inr m by simp
  qed (use step m in simp)
qed simp

text \<open>C13. A session is a run of the router: when the server sends frames on the router's interfaces,
  cut up in any way, and then closes, \<open>main\<close>'s loop ends with 0 after exactly the router's steps on
  these frames (an ARP request for somebody else, which the reader drops, is no step).\<close>

theorem session_is_router_run:
  assumes "alive input" "received_bytes input = concat (map (\<lambda>(i, f). vns_packet i f) fs) @ closing_message"
    and "\<forall>m \<in> set fs. frame_message (router s) m"
    and "framed closing_message" "get32 closing_message 4 = VNSCLOSE" "0 \<in> set (drop sizeof_base closing_message)"
    and "length input < fuel" "length fs + 1 < rounds"
  shows "rbind (main_loop env fuel k rounds (s\<lparr>recv_input := input\<rparr>)) (\<lambda>(r, s'). Inr (r, router s')) =
    rbind (router_run k n (router s) (map (\<lambda>(i, f). Frame_In f i) fs)) (\<lambda>sr. Inr (0, sr))"
proof -
  let ?ms = "map (\<lambda>(i, f). vns_packet i f) fs @ [closing_message]"
  have "\<forall>m \<in> set ?ms. framed m" using assms(3,4) framed_packet by auto
  then have "with_input [] (main_loop env fuel k rounds (s\<lparr>recv_input := input\<rparr>)) =
      with_input [] (process_messages env k ?ms s)"
    using assms(1,2,7,8) by (intro main_loop_refines) simp_all
  moreover have close: "process_messages env k [closing_message] s1 = Inr (0, s1)" for s1
    using assms(5,6) by (simp add: handle_command_def VNSCLOSE_def VNSPACKET_def)
  have "process_messages env k ?ms s =
      rbind (router_run k n (router s) (map (\<lambda>(i, f). Frame_In f i) fs)) (\<lambda>sr. Inr (0, s\<lparr>router := sr\<rparr>))"
    unfolding process_frames [OF assms(3), of env k "[closing_message]" n] close ..
  moreover have forget: "rbind x (\<lambda>(r, s'). Inr (r, router s')) = rbind (with_input [] x) (\<lambda>(r, s'). Inr (r, router s'))"
    for x :: "(int \<times> vns_session) result" by (cases x) auto
  ultimately show ?thesis
    unfolding forget [of "main_loop env fuel k rounds (s\<lparr>recv_input := input\<rparr>)"]
    by (cases "router_run k n (router s) (map (\<lambda>(i, f). Frame_In f i) fs)") simp_all
qed

text \<open>Messages that are too short are not rejected: one of less than 8 bytes makes the reader
  leave its buffer, a packet of less than 24 bytes makes it fail an assertion or read behind it.\<close>

lemma short_messages_fault:
  assumes "alive input" "received_bytes input = m @ later" "4 \<le> length m" "get32 m 0 = of_nat (length m)"
    and "length m < 8 \<or> get32 m 4 = VNSPACKET \<and> length m < 24" "length input \<le> fuel"
  shows "\<exists>e \<in> {Out_Of_Bounds, Assertion_Failure}.
    main_loop env fuel k (Suc rounds) (s\<lparr>recv_input := input\<rparr>) = Inl e"
proof (cases "length m < 8")
  case True
  obtain i1 where i1: "recv_loop fuel 4 input = Inr (Some (take 4 m), i1)" "alive i1"
      "received_bytes i1 = drop 4 m @ later" "length i1 \<le> length input"
    using recv_loop_bytes [OF assms(1), of 4 fuel] assms(2,3,6) by auto
  obtain i2 where i2: "recv_loop fuel (length m - 4) i1 = Inr (Some (drop 4 m), i2)"
    using recv_loop_bytes [OF i1(2), of "length m - 4" fuel] i1(3,4) assms(6) by force
  have "sint (get32 (take 4 m) 0) = int (length m)"
    using assms(4) True sint_of_nat_small [of "length m"] by (simp add: get32_take)
  then have "read_message fuel input = Inl Out_Of_Bounds"
    using i1(1) i2 True assms(3) by (simp add: read_message_def Let_def)
  then show ?thesis by (simp add: sr_read_from_server_def sr_read_from_server_expect_def)
next
  case False
  then have short: "get32 m 4 = VNSPACKET" "length m < 24" and "framed m" using assms(4,5) by (auto simp: framed_def)
  then obtain input' where read: "read_message fuel input = Inr (Some m, input')"
    using read_message_framed [OF assms(1) _ assms(2,6)] by blast
  let ?len = "of_nat (length m) - of_nat sizeof_packet_ethernet_header + of_nat sizeof_ether :: u32"
  have "?len = of_nat (length m) - 24"
    by (simp add: sizeof_packet_ethernet_header_def sizeof_ether_def)
  also have "\<dots> = of_nat (2 ^ 32 - (24 - length m))" using short(2) by (simp add: of_nat_diff)
  finally have len: "?len = of_nat (2 ^ 32 - (24 - length m))" .
  have "unat ?len = 2 ^ 32 - (24 - length m)"
    unfolding len unsigned_of_nat by (subst take_bit_nat_eq_self) (use short(2) in auto)
  then have len: "sizeof_ether + sizeof_arp \<le> unat ?len" by (simp add: sizeof_ether_def sizeof_arp_def)
  have "handle_vns_packet k s1 m \<in> {Inl Out_Of_Bounds, Inl Assertion_Failure}" for s1
    using len short(2)
    by (auto simp: handle_vns_packet_def sr_arp_req_not_for_us_def Let_def sizeof_packet_header_def sizeof_ether_def
        split: option.split)
  then obtain e where e: "e \<in> {Out_Of_Bounds, Assertion_Failure}" "handle_vns_packet k (s\<lparr>recv_input := input'\<rparr>) m = Inl e"
    by (metis insertE insertI1 insertI2 singletonD)
  then have "main_loop env fuel k (Suc rounds) (s\<lparr>recv_input := input\<rparr>) = Inl e"
    using read short(1) by (simp add: sr_read_from_server_def sr_read_from_server_expect_def handle_command_def)
  with e(1) show ?thesis by blast
qed

text \<open>When the server closes the connection inside a length field, the reader never returns: no
  number of rounds is enough.\<close>

lemma closed_stream_hangs:
  assumes "alive input" "length (received_bytes input) < 4"
  shows "main_loop env fuel k rounds (s\<lparr>recv_input := input @ [End_Of_Stream]\<rparr>) = Inl Out_Of_Fuel"
proof -
  have "recv_loop fuel n (input @ [End_Of_Stream]) = Inl Out_Of_Fuel" if "length (received_bytes input) < n" "alive input" for n
    using that
  proof (induction input arbitrary: n fuel)
    case Nil
    have "recv_loop fuel (Suc m) [End_Of_Stream] = Inl Out_Of_Fuel" for m by (induction fuel) simp_all
    then show ?case using Nil by (cases n) simp_all
  next
    case (Cons r input)
    have alive: "alive input" using Cons.prems by (simp add: alive_def)
    obtain m where n: "n = Suc m" using Cons.prems by (cases n) simp_all
    show ?case
    proof (cases fuel)
      case (Suc u)
      show ?thesis
      proof (cases r)
        case (Received d)
        then have "length (received_bytes input) < n - length d" "length d < n" using Cons.prems by simp_all
        then show ?thesis using Cons.IH [OF _ alive, of "n - length d" u] Received Suc n by (simp add: Let_def)
      qed (use Cons.IH [OF _ alive, of n u] Cons.prems Suc n in \<open>simp_all add: alive_def\<close>)
    qed (simp add: n)
  qed
  then have "recv_loop fuel 4 (input @ [End_Of_Stream]) = Inl Out_Of_Fuel" using assms by simp
  then show ?thesis
    by (cases rounds) (simp_all add: sr_read_from_server_def sr_read_from_server_expect_def read_message_def)
qed

lemmas vns_commands = VNSPACKET_def VNSCLOSE_def VNSBANNER_def VNSHWINFO_def VNS_RTABLE_def VNS_AUTH_REQUEST_def
  VNS_AUTH_STATUS_def

text \<open>An answer of 1 means that the expected message came and was handled.\<close>

lemma expect_one:
  assumes "sr_read_from_server_expect env fuel k cmd s = Inr (1, s')"
  shows "\<exists>m i. read_message fuel (recv_input s) = Inr (Some m, i) \<and> (cmd \<noteq> 0 \<longrightarrow> get32 m 4 = cmd) \<and>
    handle_command env k (s\<lparr>recv_input := i\<rparr>) m = Inr (1, s')"
proof -
  obtain message i where r: "read_message fuel (recv_input s) = Inr (message, i)"
    using assms by (auto simp: sr_read_from_server_expect_def rbind_eq_Inr_iff)
  show ?thesis
  proof (cases message)
    case (Some m)
    have "get32 m 4 \<noteq> VNSCLOSE"
      using assms r Some by (auto simp: sr_read_from_server_expect_def handle_command_def vns_commands Let_def split: if_splits)
    then show ?thesis
      using assms r Some by (auto simp: sr_read_from_server_expect_def Let_def split: if_splits)
  qed (use assms r in \<open>simp add: sr_read_from_server_expect_def\<close>)
qed

lemma open_only_sends:
  assumes "sr_read_from_server_expect env fuel k VNS_RTABLE s = Inr (1, s')"
  shows "to_server (router s') = to_server (router s)"
  using expect_one [OF assms]
  by (auto simp: handle_command_def vns_commands sr_handle_rtable_def rbind_eq_Inr_iff Let_def split: if_splits)

text \<open>A message has at most 10000 bytes, and its hash is that of the standard.\<close>

lemma recv_loop_length: "recv_loop fuel n input = Inr (Some b, i) \<Longrightarrow> length b = n"
proof (induction fuel n input arbitrary: b i rule: recv_loop.induct)
  case (7 fuel n d rest)
  let ?got = "take (Suc n) d" and ?later = "if length d \<le> Suc n then rest else Received (drop (Suc n) d) # rest"
  have "rbind (recv_loop fuel (Suc n - length ?got) ?later) (\<lambda>(more_bytes, input).
      Inr (map_option (\<lambda>b. ?got @ b) more_bytes, input)) = Inr (Some b, i)"
    using 7(2) unfolding recv_loop.simps Let_def .
  then obtain more_bytes where m: "recv_loop fuel (Suc n - length ?got) ?later = Inr (more_bytes, i)"
      "map_option (\<lambda>b. ?got @ b) more_bytes = Some b"
    unfolding rbind_eq_Inr_iff by (elim exE conjE) (simp only: split: prod.splits; blast)
  then obtain b' where b': "more_bytes = Some b'" "b = ?got @ b'" by blast
  have "length b' = Suc n - length ?got" using 7(1) [OF refl refl m(1) [unfolded b'(1)]] .
  then show ?case using b'(2) by simp
qed simp_all

lemma read_message_length:
  assumes "read_message fuel input = Inr (Some m, i)"
  shows "length m \<le> 10000"
proof -
  obtain hdr i1 where h1: "recv_loop fuel 4 input = Inr (hdr, i1)"
    using assms by (cases "recv_loop fuel 4 input") (auto simp: read_message_def)
  obtain h where h: "hdr = Some h" using assms h1 by (cases hdr) (auto simp: read_message_def)
  let ?len = "sint (get32 h 0)"
  have len: "\<not> (10000 < ?len \<or> ?len < 0)" "\<not> ?len < 4"
    using assms h1 h by (auto simp: read_message_def Let_def split: if_splits)
  obtain body i2 where b1: "recv_loop fuel (nat ?len - 4) i1 = Inr (body, i2)"
    using assms h1 h len by (cases "recv_loop fuel (nat ?len - 4) i1") (auto simp: read_message_def)
  obtain b where b: "body = Some b" "m = h @ b"
    using assms h1 h len b1 by (cases body) (auto simp: read_message_def split: if_splits)
  have "length h = 4" "length b = nat ?len - 4" using recv_loop_length h1 h b1 b(1) by simp_all
  then show ?thesis using b(2) len by simp
qed

lemma salted_hash_standard:
  assumes "length (Message_Block c) = 64" "length salt \<le> 10000"
  shows "salted_hash c salt auth_key = Inr (Some (concat (map bytes32 (spec_sha1 (salt @ take AUTH_KEY_LEN auth_key)))))"
proof -
  have "8 * length (concat [salt, take AUTH_KEY_LEN auth_key]) < 2 ^ 64"
    using assms(2) by (simp add: AUTH_KEY_LEN_def)
  from sha1_standard [OF this assms(1)] obtain c' where
    c': "rbind (sha1_inputs [salt, take AUTH_KEY_LEN auth_key] (SHA1Reset c)) SHA1Result = Inr (True, c')"
      "Message_Digest c' = spec_sha1 (salt @ take AUTH_KEY_LEN auth_key)" by auto
  then obtain c1 c2 where "SHA1Input salt (SHA1Reset c) = Inr c1" "SHA1Input (take AUTH_KEY_LEN auth_key) c1 = Inr c2"
      "SHA1Result c2 = Inr (True, c')" by (auto simp: rbind_eq_Inr_iff)
  then show ?thesis using c'(2) by (simp add: salted_hash_def)
qed

lemma auth_request_answers:
  assumes "handle_command env k s m = Inr (1, s1)" "get32 m 4 = VNS_AUTH_REQUEST" "length m \<le> 10000"
    "length (Message_Block (sha1_stack env)) = 64"
  shows "\<exists>kf digest. auth_key_file env = Some kf \<and> fgets_line AUTH_KEY_LEN kf \<noteq> [] \<and>
    digest = concat (map bytes32 (spec_sha1 (drop sizeof_base m @
      take AUTH_KEY_LEN (put 0 (fgets_line AUTH_KEY_LEN kf @ [0]) (key_junk env))))) \<and>
    s1 = send_message (auth_reply (c_str (user env)) digest) s"
proof -
  have h: "rbind (sr_handle_auth_request env s m) (\<lambda>(ok, s1). Inr (if ok = 0 then -1 else 1, s1)) = Inr (1 :: int, s1)"
    using assms(1,2) by (simp add: handle_command_def vns_commands Let_def)
  then obtain ok where ok: "sr_handle_auth_request env s m = Inr (ok, s1)" "ok \<noteq> 0"
    by (auto simp: rbind_eq_Inr_iff split: if_splits)
  obtain kf where kf: "auth_key_file env = Some kf" using ok by (auto simp: sr_handle_auth_request_def split: option.splits)
  have "length (drop sizeof_base m) \<le> 10000" using assms(3) by simp
  note hash = salted_hash_standard [OF assms(4) this]
  show ?thesis using ok kf hash by (auto simp: sr_handle_auth_request_def Let_def split: if_splits)
qed


end
