(* ===== verification/Vns_Example.thy ===== *)
theory Vns_Example
  imports Vns_Properties Router_Example
begin

text \<open>
  A session at which the properties of \<open>Vns_Properties\<close> are applied.
\<close>

definition ex_env :: vns_env where
  "ex_env = \<lparr>user = ascii ''lee'', host_id = ascii ''vhost'', template_name = [], topo_id = 7,
     auth_key_file = Some (ascii ''key''), key_junk = replicate 65 0,
     sha1_stack = \<lparr>Message_Digest = [], Length_Low = 9, Length_High = 9, Message_Block = replicate 64 9, Message_Block_Index = 9,
       Computed = True, Corrupted = True\<rparr>, rtable_writable = True, send_ok = True,
     if_junk = if1\<rparr>"

definition ex_session :: vns_session where
  "ex_session = \<lparr>router = ex_router [host1, host2] [], recv_input = [], written_files = []\<rparr>"

definition close_message :: bytes where
  "close_message = bytes32 12 @ bytes32 VNSCLOSE @ [0x62, 0x79, 0x65, 0]"

text \<open>Cut up after five bytes, with a signal in between.\<close>

definition cut_up :: "bytes \<Rightarrow> recv_result list" where
  "cut_up b = [Received (take 5 b), Interrupted, Received (drop 5 b)]"

lemma cut_up_simps [simp]: "alive (cut_up b)" "received_bytes (cut_up b) = b" "length (cut_up b) = 3"
  by (simp_all add: cut_up_def alive_def)

lemma close_message_ok:
  "framed close_message" "get32 close_message 4 = VNSCLOSE" "0 \<in> set (drop sizeof_base close_message)"
  by code_simp+

lemma ex_frame: "frame_message (ex_router [host1, host2] []) (eth1, frame_udp)"
proof -
  have "sr_get_interface (ex_router [host1, host2] []) eth1 \<noteq> None" by code_simp
  then show ?thesis by (simp add: frame_message_def frame_udp_def sizeof_packet_header_def eth1_def c_str_def)
qed

theorem session_is_router_run_witness:
  "rbind (main_loop ex_env 4 1 3 (ex_session\<lparr>recv_input := cut_up (vns_packet eth1 frame_udp @ close_message)\<rparr>))
     (\<lambda>(r, s'). Inr (r, router s')) =
   rbind (router_run 1 0 (ex_router [host1, host2] []) [Frame_In frame_udp eth1]) (\<lambda>sr. Inr (0, sr))"
  using session_is_router_run [of "cut_up (vns_packet eth1 frame_udp @ close_message)" "[(eth1, frame_udp)]" close_message
      ex_session 4 3 ex_env 1 0] close_message_ok ex_frame
  by (simp add: ex_session_def)

definition auth_request :: bytes where "auth_request = bytes32 12 @ bytes32 VNS_AUTH_REQUEST @ [1, 2, 3, 4]"
definition auth_status :: bytes where "auth_status = bytes32 9 @ bytes32 VNS_AUTH_STATUS @ [1]"

lemma ex_stack: "length (Message_Block (sha1_stack ex_env)) = 64"
  by (simp add: ex_env_def)

lemma ex_messages:
  "read_message 5 (cut_up (auth_request @ auth_status)) = Inr (Some auth_request, [Received auth_status])"
  "read_message 5 [Received auth_status] = Inr (Some auth_status, [])"
  "get32 auth_request 4 = VNS_AUTH_REQUEST" "get32 auth_status 4 = VNS_AUTH_STATUS" "length auth_request \<le> 10000"
  "sr_handle_auth_status auth_status = Inr 1" "c_str (user ex_env) = ascii ''lee''" "c_str (template_name ex_env) = []"
  "send_ok ex_env" "auth_key_file ex_env = Some (ascii ''key'')" "fgets_line AUTH_KEY_LEN (ascii ''key'') = ascii ''key''"
  by code_simp+

lemma ex_connects:
  "\<exists>s'. sr_connect_to_server ex_env 5 1 True (ex_session\<lparr>recv_input := cut_up (auth_request @ auth_status)\<rparr>) = Inr (0, s')"
proof -
  have "length (drop sizeof_base auth_request) \<le> 10000" using ex_messages(5) by simp
  note hash = salted_hash_standard [OF ex_stack this]
  obtain d where d: "\<And>s. sr_handle_auth_request ex_env s auth_request = Inr (1, send_message (auth_reply (ascii ''lee'') d) s)"
    using hash ex_messages(7,9-11) by (simp add: sr_handle_auth_request_def Let_def ascii_def)
  have expect1: "sr_read_from_server_expect ex_env 5 1 VNS_AUTH_REQUEST (ex_session\<lparr>recv_input := cut_up (auth_request @ auth_status)\<rparr>) =
      Inr (1, send_message (auth_reply (ascii ''lee'') d) (ex_session\<lparr>recv_input := [Received auth_status]\<rparr>))"
    using ex_messages(1,3) d by (simp add: sr_read_from_server_expect_def handle_command_def vns_commands)
  have expect2: "\<exists>s2. sr_read_from_server_expect ex_env 5 1 VNS_AUTH_STATUS
      (send_message (auth_reply (ascii ''lee'') d) (ex_session\<lparr>recv_input := [Received auth_status]\<rparr>)) = Inr (1, s2)"
    using ex_messages(2,4,6) by (simp add: sr_read_from_server_expect_def handle_command_def vns_commands send_message_def)
  then show ?thesis using expect1 ex_messages(8,9) by (auto simp: sr_connect_to_server_def Let_def)
qed


end
