(* ===== verification/Router_Load_Properties.thy ===== *)
theory Router_Load_Properties
  imports Router_Load
begin

text \<open>
  A routing table that is written to a file, one route with dotted addresses a line, is read back
  by \<open>sr_load_rt\<close>.
\<close>

section \<open>Numbers\<close>

lemma digit_char:
  assumes "k < 10"
  shows "isdigit (0x30 + of_nat k)" "digit_value (0x30 + of_nat k) = k" "\<not> isspace (0x30 + of_nat k)" "(0x30 + of_nat k :: u8) \<noteq> 0"
    "(0x30 + of_nat k :: u8) = 0x30 \<longleftrightarrow> k = 0"
proof -
  have u: "unat (0x30 + of_nat k :: u8) = 0x30 + k"
    using assms u8_of_nat [of "0x30 + k"] by simp
  show d: "isdigit (0x30 + of_nat k)" using assms by (simp add: isdigit_def word_le_nat_alt u)
  show "digit_value (0x30 + of_nat k) = k" using d by (simp add: digit_value_def u)
  show "\<not> isspace (0x30 + of_nat k)" using u by (auto simp: isspace_def word_le_nat_alt word_unat_eq_iff)
  show "(0x30 + of_nat k :: u8) \<noteq> 0" using u by (auto simp: word_unat_eq_iff)
  show "(0x30 + of_nat k :: u8) = 0x30 \<longleftrightarrow> k = 0" using u by (auto simp: word_unat_eq_iff)
qed

lemma hd_dec: "isdigit (hd (dec n))" "hd (dec n) = 0x30 \<longleftrightarrow> n = 0"
proof -
  show "isdigit (hd (dec n))" using dec_chars [of "hd (dec n)" n] digit_char(1) by auto
  show "hd (dec n) = 0x30 \<longleftrightarrow> n = 0"
  proof (induction n rule: dec.induct)
    case (1 n)
    then show ?case
      using digit_char(5) [of n] by (cases "n < 10") (simp_all add: dec.simps [of n] div_eq_0_iff)
  qed
qed

lemma digits_dec: "digits 10 v (dec n @ r) = digits 10 (v * 10 ^ length (dec n) + n) r"
proof (induction n arbitrary: r rule: dec.induct)
  case (1 n)
  show ?case
  proof (cases "n < 10")
    case True
    then show ?thesis using digit_char(2) [of n] by (simp add: dec.simps [of n])
  next
    case False
    have "(v * 10 ^ length (dec (n div 10)) + n div 10) * 10 + n mod 10 = v * 10 ^ Suc (length (dec (n div 10))) + n"
      by (simp add: algebra_simps)
    then show ?thesis
      using 1 [OF False, of "(0x30 + of_nat (n mod 10)) # r"] digit_char(2) [of "n mod 10"] False
      by (simp add: dec.simps [of n] algebra_simps)
  qed
qed

text \<open>A number ends before a dot, a blank or the end of the string.\<close>

definition ends :: "bytes \<Rightarrow> bool" where
  "ends r \<longleftrightarrow> r = [] \<or> hd r = 0x2e \<or> isspace (hd r)"

lemma ends_digit: "ends (c # r) \<Longrightarrow> digit_value c = 36 \<and> c \<noteq> 0x78 \<and> c \<noteq> 0x58"
  by (auto simp: ends_def digit_value_def isspace_def isdigit_def word_le_nat_alt word_unat_eq_iff)

lemma digits_end: "ends r \<Longrightarrow> base \<le> 36 \<Longrightarrow> digits base v r = (v, r)"
  using ends_digit by (cases r) auto

lemma strtoul_dec:
  assumes "ends r"
  shows "strtoul (dec n @ r) = (n, r)"
proof (cases "n = 0")
  case True
  have "dec 0 = [0x30]" by (simp add: dec.simps)
  moreover have zero: "digit_value 0x30 = 0" using digit_char(2) [of 0] by simp
  moreover have "digits 8 0 (0x30 # r) = (0, r)" using digits_end [OF assms, of 8] zero by simp
  ultimately show ?thesis
    using True assms ends_digit [of "hd r" "tl r"] by (cases r; cases "tl r") (auto simp: strtoul_def)
next
  case False
  then have "hd (dec n @ r) \<noteq> 0x30" using hd_dec(2) [of n] by simp
  then have "strtoul (dec n @ r) = digits 10 0 (dec n @ r)"
    by (cases "dec n @ r"; cases "tl (dec n @ r)"; cases "tl (tl (dec n @ r))") (auto simp: strtoul_def)
  then show ?thesis using digits_end [OF assms] by (simp add: digits_dec)
qed

section \<open>Addresses\<close>

definition octet :: "u32 \<Rightarrow> nat \<Rightarrow> nat" where "octet ip k = unat ip div 256 ^ k mod 256"

definition dotted :: "u32 \<Rightarrow> bytes" where
  "dotted ip = dec (octet ip 3) @ [0x2e] @ dec (octet ip 2) @ [0x2e] @ dec (octet ip 1) @ [0x2e] @ dec (octet ip 0)"

lemma octets: "octet ip 3 * 256 ^ 3 + octet ip 2 * 256 ^ 2 + octet ip 1 * 256 + octet ip 0 = unat ip"
proof -
  let ?n = "unat ip"
  have "?n < 256 ^ 4" using unsigned_less [of ip, where ?'a = nat] by simp
  then have top: "octet ip 3 = ?n div 256 div 256 div 256"
    by (simp add: octet_def div_mult2_eq [symmetric] less_mult_imp_div_less)
  have parts: "octet ip 0 = ?n mod 256" "octet ip 1 = ?n div 256 mod 256" "octet ip 2 = ?n div 256 div 256 mod 256"
    using div_mult2_eq [of ?n 256 256] by (simp_all add: octet_def)
  have sum: "q3 * 256 ^ 3 + r2 * 256 ^ 2 + r1 * 256 + r0 = n"
    if "n = 256 * q1 + r0" "q1 = 256 * q2 + r1" "q2 = 256 * q3 + r2" for n q1 q2 q3 r0 r1 r2 :: nat
    using that by simp
  show ?thesis unfolding top parts by (rule sum) (simp_all only: mult_div_mod_eq)
qed

lemma inet_part:
  assumes "n < 256"
  shows "inet_parts (Suc d) acc (dec n @ 0x2e # r) = inet_parts d (acc + n * 256 ^ Suc d) r"
    and "inet_parts 0 acc (dec n) = Some (acc + n)"
proof -
  have "ends (0x2e # r)" "ends []" by (simp_all add: ends_def)
  note s = this [THEN strtoul_dec, of n]
  show "inet_parts (Suc d) acc (dec n @ 0x2e # r) = inet_parts d (acc + n * 256 ^ Suc d) r"
    using assms hd_dec(1) [of n] s(1) by (simp add: inet_parts.simps [of "Suc d"])
  show "inet_parts 0 acc (dec n) = Some (acc + n)"
    using assms hd_dec(1) [of n] s(2) by (simp add: inet_parts.simps [of 0])
qed

lemma dotted_chars: "c \<in> set (dotted ip) \<Longrightarrow> \<not> isspace c \<and> c \<noteq> 0"
proof -
  assume "c \<in> set (dotted ip)"
  then have "c = 0x2e \<or> (\<exists>n. c \<in> set (dec n))" unfolding dotted_def by auto
  then show ?thesis
  proof
    assume "c = 0x2e"
    then show ?thesis by (simp add: isspace_def)
  next
    assume "\<exists>n. c \<in> set (dec n)"
    then obtain n where "c \<in> set (dec n)" ..
    from dec_chars [OF this] obtain k where k: "k < 10" "c = 0x30 + of_nat k" by blast
    show ?thesis unfolding k(2) using digit_char(3,4) [OF k(1)] by (rule conjI)
  qed
qed

lemma inet_four:
  assumes "a < 256" "b < 256" "c < 256" "d < 256"
  shows "inet_parts 3 0 (dec a @ [0x2e] @ dec b @ [0x2e] @ dec c @ [0x2e] @ dec d) =
    Some (a * 256 ^ 3 + b * 256 ^ 2 + c * 256 + d)"
proof -
  have "inet_parts 3 0 (dec a @ 0x2e # r) = inet_parts 2 (a * 256 ^ 3) r" for r
    using inet_part(1) [OF assms(1), of 2 0 r] by (simp only: eval_nat_numeral(3) add_0)
  moreover have "inet_parts 2 acc (dec b @ 0x2e # r) = inet_parts 1 (acc + b * 256 ^ 2) r" for acc r
    using inet_part(1) [OF assms(2), of 1 acc r] by (simp only: Suc_1)
  moreover have "inet_parts 1 acc (dec c @ 0x2e # r) = inet_parts 0 (acc + c * 256) r" for acc r
    using inet_part(1) [OF assms(3), of 0 acc r] by (simp only: One_nat_def power_Suc0_right)
  ultimately show ?thesis using inet_part(2) [OF assms(4)] by (simp only: append_Cons append_Nil)
qed

lemma inet_aton_dotted: "inet_aton (dotted ip) = Some ip"
proof -
  have "octet ip k < 256" for k by (simp add: octet_def)
  then have "inet_parts 3 0 (dotted ip) = Some (unat ip)"
    unfolding dotted_def octets [of ip, symmetric] by (intro inet_four)
  moreover have "c_str (dotted ip) = dotted ip"
    using dotted_chars by (auto simp: c_str_def takeWhile_eq_all_conv)
  ultimately show ?thesis by (simp add: inet_aton_def)
qed

section \<open>Routes\<close>

definition route_line :: "sr_rt \<Rightarrow> bytes" where
  "route_line e =
     dotted (rt_dest e) @ [0x20] @ dotted (rt_gw e) @ [0x20] @ dotted (rt_mask e) @ [0x20] @ rt_interface e @ [0x0a]"

definition route_ok :: "sr_rt \<Rightarrow> bool" where
  "route_ok e \<longleftrightarrow> rt_interface e \<noteq> [] \<and> length (rt_interface e) < 32 \<and> (\<forall>c \<in> set (rt_interface e). c \<noteq> 0 \<and> \<not> isspace c)"

lemma scan_word:
  assumes "w \<noteq> []" "\<forall>c \<in> set w. \<not> isspace c" "isspace c"
  shows "scan_words (Suc n) (w @ c # b) = w # scan_words n (c # b)"
    and "scan_words n (c # b) = scan_words n b"
proof -
  have "dropWhile isspace (w @ c # b) = w @ c # b" using assms(1,2) by (cases w) auto
  moreover have "takeWhile (\<lambda>c. \<not> isspace c) (w @ c # b) = w" "dropWhile (\<lambda>c. \<not> isspace c) (w @ c # b) = c # b"
    using assms(2,3) by (simp_all add: takeWhile_append2 dropWhile_append2)
  ultimately show "scan_words (Suc n) (w @ c # b) = w # scan_words n (c # b)" using assms(1) by simp
  show "scan_words n (c # b) = scan_words n b" using assms(3) by (cases n) simp_all
qed

lemma dotted_not_Nil [simp]: "dotted ip \<noteq> []"
  by (simp add: dotted_def)

lemma length_dotted: "length (dotted ip) \<le> 15"
proof -
  have "length (dec (octet ip k)) \<le> 3" for k by (rule length_dec) (simp_all add: octet_def)
  from this [of 0] this [of 1] this [of 2] this [of 3] show ?thesis by (simp add: dotted_def)
qed

lemma scan_route:
  assumes "route_ok e"
  shows "scan_words 4 (route_line e) = [dotted (rt_dest e), dotted (rt_gw e), dotted (rt_mask e), rt_interface e]"
proof -
  have blank: "isspace 0x20" "isspace 0x0a" by (simp_all add: isspace_def)
  have w: "\<forall>c \<in> set (dotted ip). \<not> isspace c" for ip using dotted_chars by blast
  have i: "rt_interface e \<noteq> []" "\<forall>c \<in> set (rt_interface e). \<not> isspace c" using assms by (simp_all add: route_ok_def)
  have four: "(4 :: nat) = Suc (Suc (Suc (Suc 0)))" by simp
  show ?thesis
    unfolding four route_line_def append_Cons append_Nil
      scan_word(1) [OF dotted_not_Nil w blank(1)] scan_word(2) [OF dotted_not_Nil w blank(1)]
      scan_word(1) [OF i blank(2)] by simp
qed

lemma route_line_chars: "route_ok e \<Longrightarrow> c \<in> set (butlast (route_line e)) \<Longrightarrow> c \<noteq> 0x0a \<and> c \<noteq> 0"
proof -
  assume "route_ok e" "c \<in> set (butlast (route_line e))"
  then have "c = 0x20 \<or> \<not> isspace c \<and> c \<noteq> 0"
    using dotted_chars by (auto simp: route_line_def butlast_append route_ok_def)
  then show ?thesis by (auto simp: isspace_def)
qed

lemma route_line_split: "route_line e = butlast (route_line e) @ [0x0a]"
  by (simp add: route_line_def butlast_append)

lemma fgets_route:
  assumes "route_ok e"
  shows "fgets_line (BUFSIZ - Suc 0) (route_line e @ b) = route_line e"
proof -
  let ?l = "butlast (route_line e)"
  have "takeWhile (\<lambda>c. c \<noteq> 0x0a) (?l @ 0x0a # b) = ?l"
    using route_line_chars [OF assms] by (subst takeWhile_append2) auto
  then have "takeWhile (\<lambda>c. c \<noteq> 0x0a) (route_line e @ b) = ?l"
    using route_line_split [of e] by (metis append.assoc append_Cons append_Nil)
  moreover have "?l \<noteq> route_line e @ b"
  proof
    assume "?l = route_line e @ b"
    then have "length (route_line e) - 1 = length (route_line e) + length b" by (metis length_append length_butlast)
    then show False by (simp add: route_line_def)
  qed
  moreover have "length (route_line e) \<le> BUFSIZ - Suc 0"
    using length_dotted [of "rt_dest e"] length_dotted [of "rt_gw e"] length_dotted [of "rt_mask e"] assms
    by (simp add: route_line_def route_ok_def BUFSIZ_def)
  ultimately show ?thesis using route_line_split [of e] by (simp add: fgets_line_def)
qed

lemma scan_route_line:
  assumes "route_ok e"
  shows "scan_line (route_line e) v = Inr \<lparr>w_dest = dotted (rt_dest e), w_gw = dotted (rt_gw e), w_mask = dotted (rt_mask e),
    w_iface = rt_interface e\<rparr>"
proof -
  have "set (route_line e) = insert 0x0a (set (butlast (route_line e)))"
    by (subst (1) route_line_split) simp
  then have "\<forall>c \<in> set (route_line e). c \<noteq> 0" using route_line_chars [OF assms] by auto
  then have "c_str (route_line e) = route_line e" by (simp add: c_str_def takeWhile_eq_all_conv)
  moreover have "\<not> 32 \<le> length (dotted ip)" for ip using length_dotted [of ip] by simp
  ultimately show ?thesis using assms by (simp add: scan_line_def scan_route route_ok_def)
qed

lemma load_routes:
  assumes "\<forall>e \<in> set es. route_ok e"
  shows "load_loop (concat (map route_line es)) cleared v sr =
    Inr (0, if es = [] then sr else sr\<lparr>routing_table := (if cleared then routing_table sr else []) @ es\<rparr>)"
  using assms
proof (induction es arbitrary: cleared v sr)
  case (Cons e es)
  have e: "route_ok e" "\<forall>e \<in> set es. route_ok e" using Cons(2) by simp_all
  have "c_str (rt_interface e) = rt_interface e" using e(1) by (auto simp: route_ok_def c_str_def takeWhile_eq_all_conv)
  then have "strncpy (rt_interface e) sr_IFACE_NAMELEN = rt_interface e"
    using e(1) by (simp add: strncpy_def route_ok_def sr_IFACE_NAMELEN_def)
  then have add: "sr_add_rt_entry sr (rt_dest e) (rt_gw e) (rt_mask e) (rt_interface e) =
      sr\<lparr>routing_table := routing_table sr @ [e]\<rparr>" for sr
    by (cases e) (simp add: sr_add_rt_entry_def)
  have "route_line e \<noteq> []" by (simp add: route_line_def)
  then show ?case
    using Cons(1) [OF e(2)] e(1) add
    by (simp add: load_loop.simps [of "route_line e @ _"] fgets_route scan_route_line inet_aton_dotted Let_def)
qed (simp add: load_loop.simps)

section \<open>Properties\<close>

text \<open>C34. A routing table written to a file, a line with the dotted destination, gateway and mask and
  the interface for each route, is what \<open>sr_load_rt\<close> loads, whatever the table held before.\<close>

theorem load_rt_roundtrip:
  assumes "\<forall>e \<in> set es. route_ok e" "es \<noteq> []"
  shows "sr_load_rt v (Some (concat (map route_line es))) sr = Inr (0, sr\<lparr>routing_table := es\<rparr>)"
  using load_routes [OF assms(1)] assms(2) by (simp add: sr_load_rt_def)

theorem load_rt_roundtrip_witness:
  "let e = \<lparr>rt_dest = 0x0A000164, rt_gw = 0x0A000101, rt_mask = 0xFFFFFF00, rt_interface = ascii ''eth1''\<rparr>
   in \<forall>v sr. sr_load_rt v (Some (route_line e @ route_line e)) sr = Inr (0, sr\<lparr>routing_table := [e, e]\<rparr>)"
proof -
  let ?e = "\<lparr>rt_dest = 0x0A000164, rt_gw = 0x0A000101, rt_mask = 0xFFFFFF00, rt_interface = ascii ''eth1''\<rparr>"
  have "route_ok ?e" by code_simp
  then show ?thesis using load_rt_roundtrip [of "[?e, ?e]"] by simp
qed

end
