(* ===== verification/Channel.thy ===== *)
theory Channel
  imports Prelude
begin

text \<open>
  A connected socket as a program sees it: \<open>read\<close> and \<open>write\<close> take and give bytes in pieces of
  any size. hw1 and the network layer of hw3 read and write through it.
\<close>

section \<open>Reading and writing\<close>

text \<open>What \<open>read\<close> will answer: some bytes (a call takes as many as it asks for, the rest stays),
  no bytes at the end of the stream, or an error. What \<open>write\<close> will answer: how many bytes there is
  room for, negative for an error. With no more answers a call waits. \<open>outgoing\<close> is what has been
  written.\<close>

record channel =
  incoming :: "bytes option list"
  room :: "int list"
  outgoing :: bytes

definition sys_read :: "nat \<Rightarrow> channel \<Rightarrow> (bytes option \<times> channel) result" where
  "sys_read n c =
     (case incoming c of
        [] \<Rightarrow> Inl Would_Block
      | None # later \<Rightarrow> Inr (None, c\<lparr>incoming := later\<rparr>)
      | Some d # later \<Rightarrow>
          if d = [] then Inr (Some [], c)
          else Inr (Some (take n d), c\<lparr>incoming := if length d \<le> n then later else Some (drop n d) # later\<rparr>))"

definition sys_write :: "bytes \<Rightarrow> channel \<Rightarrow> (int \<times> channel) result" where
  "sys_write b c =
     (case room c of
        [] \<Rightarrow> Inl Would_Block
      | r # later \<Rightarrow>
          let n = min r (int (length b))
          in Inr (n, c\<lparr>room := later, outgoing := outgoing c @ take (nat n) b\<rparr>))"

lemma sys_read_some: "sys_read n c = Inr (Some d, c1) \<Longrightarrow> d \<noteq> [] \<Longrightarrow> 0 < n \<Longrightarrow> 0 < length d \<and> length d \<le> n"
  by (auto simp: sys_read_def split: list.splits option.splits if_splits)

section \<open>Arriving and leaving bytes\<close>

text \<open>A peer that takes at least a byte with each of \<open>n\<close> writes.\<close>

definition roomy :: "nat \<Rightarrow> channel \<Rightarrow> bool" where
  "roomy n c \<longleftrightarrow> n \<le> length (room c) \<and> (\<forall>r \<in> set (room c). 0 < r)"

text \<open>\<open>ds\<close> are chunks that are not empty, \<open>later\<close> is what comes behind them.\<close>

definition arriving :: "bytes list \<Rightarrow> bytes option list \<Rightarrow> channel \<Rightarrow> bool" where
  "arriving ds later c \<longleftrightarrow> incoming c = map Some ds @ later \<and> [] \<notin> set ds"

lemma arriving_room [simp]: "arriving ds later (c\<lparr>outgoing := out\<rparr>) = arriving ds later c"
  by (simp add: arriving_def)

lemma sys_read_arriving:
  assumes "arriving (d # ds) later c" "0 < n"
  shows "sys_read n c = Inr (Some (take n d), c\<lparr>incoming := map Some ((if length d \<le> n then [] else [drop n d]) @ ds) @ later\<rparr>)"
    and "arriving ((if length d \<le> n then [] else [drop n d]) @ ds) later
      (c\<lparr>incoming := map Some ((if length d \<le> n then [] else [drop n d]) @ ds) @ later\<rparr>)"
    and "take n d @ concat ((if length d \<le> n then [] else [drop n d]) @ ds) = concat (d # ds)"
  using assms by (auto simp: sys_read_def arriving_def)

lemma put_adjacent: "length a = n \<Longrightarrow> k + n \<le> length buf \<Longrightarrow> put (k + n) b (put k a buf) = put k (a @ b) buf"
  by (auto simp: put_def min_def add.assoc add.commute add.left_commute)

lemma put_Nil [simp]: "put k [] buf = buf"
  by (simp add: put_def)

end
