(* ===== verification/Post_Server.thy ===== *)
theory Post_Server
  imports Request_Lines Channel
begin

text \<open>
  The message server \<^verbatim>\<open>hw1/sserver.c\<close>: its request parser and what one of its processes does with
  a connection. The buffer of a process is kept from connection to connection.
\<close>

section \<open>Reading and writing\<close>

text \<open>\<open>write_all\<close> answers the whole length even when it has stopped at a \<open>write\<close> of 0 bytes.\<close>

function write_loop :: "nat \<Rightarrow> bytes \<Rightarrow> channel \<Rightarrow> (int \<times> channel) result" where
  "write_loop bytes_written b c =
     (if bytes_written < length b then
        rbind (sys_write (drop bytes_written b) c) (\<lambda>(res, c1).
          if res < 0 then Inr (res, c1)
          else if res = 0 then Inr (int (length b), c1)
          else write_loop (bytes_written + nat res) b c1)
      else Inr (int (length b), c))"
  by auto
termination
  by (relation "measure (\<lambda>(n, b, c). length b - n)") auto

declare write_loop.simps [simp del]

definition write_all :: "bytes \<Rightarrow> channel \<Rightarrow> (int \<times> channel) result" where
  "write_all b c = write_loop 0 b c"

text \<open>Reading to \<open>buffer + off\<close>.\<close>

function read_loop :: "nat \<Rightarrow> int \<Rightarrow> nat \<Rightarrow> bytes \<Rightarrow> channel \<Rightarrow> (int \<times> bytes \<times> channel) result" where
  "read_loop off max_read_size bytes_read buffer c =
     (if int bytes_read < max_read_size then
        rbind (sys_read (nat max_read_size - bytes_read) c) (\<lambda>(res, c1).
          case res of
            None \<Rightarrow> Inr (-1, buffer, c1)
          | Some d \<Rightarrow>
              if d = [] then Inr (int bytes_read, buffer, c1)
              else if length buffer < off + bytes_read + length d then Inl Out_Of_Bounds
              else read_loop off max_read_size (bytes_read + length d) (put (off + bytes_read) d buffer) c1)
      else Inr (int bytes_read, buffer, c))"
  by auto
termination
  by (relation "measure (\<lambda>(off, m, n, b, c). nat m - n)") (auto dest!: sys_read_some simp: neq_Nil_conv)

declare read_loop.simps [simp del]

definition read_all :: "nat \<Rightarrow> int \<Rightarrow> bytes \<Rightarrow> channel \<Rightarrow> (int \<times> bytes \<times> channel) result" where
  "read_all off max_read_size buffer c = read_loop off max_read_size 0 buffer c"

text \<open>The search looks at all of the buffer up to a NUL, also at what earlier connections left.\<close>

function header_read_loop :: "nat \<Rightarrow> nat \<Rightarrow> bytes \<Rightarrow> channel \<Rightarrow> (int \<times> bytes \<times> channel) result" where
  "header_read_loop max_header_size bytes_read buffer c =
     (if bytes_read < max_header_size then
        rbind (sys_read (max_header_size - bytes_read) c) (\<lambda>(res, c1).
          case res of
            None \<Rightarrow> Inr (-1, buffer, c1)
          | Some d \<Rightarrow>
              if d = [] then Inr (int bytes_read, buffer, c1)
              else if length buffer < bytes_read + length d then Inl Out_Of_Bounds
              else
                rbind (strstr (put bytes_read d buffer) CRLFCRLF) (\<lambda>found.
                  if found \<noteq> None then Inr (int (bytes_read + length d), put bytes_read d buffer, c1)
                  else header_read_loop max_header_size (bytes_read + length d) (put bytes_read d buffer) c1))
      else Inr (int bytes_read, buffer, c))"
  by auto
termination
  by (relation "measure (\<lambda>(m, n, b, c). m - n)") (auto dest!: sys_read_some simp: neq_Nil_conv)

declare header_read_loop.simps [simp del]

definition read_until_header :: "nat \<Rightarrow> bytes \<Rightarrow> channel \<Rightarrow> (int \<times> bytes \<times> channel) result" where
  "read_until_header max_header_size buffer c = header_read_loop max_header_size 0 buffer c"

section \<open>The parser\<close>

definition MAX_CONT :: nat where "MAX_CONT = 10 * 1024 * 1024"
definition MAX_POST_HDR :: nat where "MAX_POST_HDR = 1024"

definition POST :: bytes where "POST = ascii ''POST''"
definition post_target :: bytes where "post_target = ascii ''message''"
definition SIMPLE_1_0 :: bytes where "SIMPLE_1_0 = ascii ''SIMPLE/1.0''"
definition content_length_name :: bytes where "content_length_name = ascii ''content-length:''"

definition post_first_line :: "bytes \<Rightarrow> (bool \<times> bytes) result" where
  "post_first_line p =
     rbind (strncmp_lit p POST) (\<lambda>post.
       if \<not> post then Inr (False, p)
       else
         rbind (skip_blank (drop 4 p)) (\<lambda>p1.
         rbind (strncmp_lit p1 post_target) (\<lambda>msg.
           if \<not> msg then Inr (False, p1)
           else
             rbind (skip_blank (drop 7 p1)) (\<lambda>p2.
             rbind (strncmp_lit p2 SIMPLE_1_0) (\<lambda>ver.
               if \<not> ver then Inr (False, p2) else end_of_line (drop 10 p2))))))"

text \<open>\<open>strtol\<close> on a string that begins with a digit.\<close>

definition LONG_MAX :: int where "LONG_MAX = 2 ^ 63 - 1"

fun strtol10 :: "int \<Rightarrow> bytes \<Rightarrow> (int \<times> bytes) result" where
  "strtol10 v [] = Inl Out_Of_Bounds"
| "strtol10 v (c # p) =
     (if isdigit c then strtol10 (v * 10 + (int (unat c) - 0x30)) p else Inr (min v LONG_MAX, c # p))"

text \<open>The length, or -1, and the rest.\<close>

definition parse_content_length :: "bytes \<Rightarrow> (int \<times> bytes) result" where
  "parse_content_length p =
     rbind (strncasecmp_lit p content_length_name) (\<lambda>name.
       if \<not> name then Inr (-1, p)
       else
         rbind (skip_blank (drop 15 p)) (\<lambda>p1.
         rbind (deref p1) (\<lambda>c.
           if \<not> isdigit c then Inr (-1, p1)
           else
             rbind (strtol10 0 p1) (\<lambda>(content_length, num_end).
               if int MAX_CONT < content_length then Inr (-1, p1)
               else rbind (end_of_line num_end) (\<lambda>(ok, q). Inr (if ok then content_length else -1, q))))))"

text \<open>One round of the loop over the header lines: whether it goes on, the rest, whether there has
  been a Host line, and the length so far. When no CRLF follows, the next thing is a comparison
  at \<open>NULL + 2\<close>.\<close>

definition post_header_line :: "bytes \<Rightarrow> bool \<Rightarrow> int option \<Rightarrow> (bool \<times> bytes \<times> bool \<times> int option) result" where
  "post_header_line p host_parsed len =
     rbind (strncasecmp_lit p host_name) (\<lambda>host.
       if host then rbind (parse_host p) (\<lambda>(ok, q). Inr (ok, q, True, len))
       else rbind (strncasecmp_lit p content_length_name) (\<lambda>cl.
         if cl then
           rbind (parse_content_length p) (\<lambda>(n, q). Inr (\<not> (n < 0 \<or> int MAX_CONT < n), q, host_parsed, Some n))
         else rbind (strstr p CRLF) (\<lambda>s.
           case s of
             None \<Rightarrow> Inl Null_Dereference
           | Some q \<Rightarrow> Inr (True, drop 2 q, host_parsed, len))))"

lemma strtol10_length: "strtol10 v p = Inr (n, q) \<Longrightarrow> length q \<le> length p"
  by (induction v p rule: strtol10.induct) (auto split: if_splits)

lemma post_header_line_consumes:
  assumes "post_header_line p h l = Inr (True, q, h', l')"
  shows "length q < length p"
proof -
  have host: "length q < length p" if "starts_with tolower p host_name = Inr True" "parse_host p = Inr (ok, q)" for ok q
    using that starts_with_length [of tolower p host_name]
    by (fastforce simp: parse_host_def rbind_eq_Inr_iff host_name_def split: if_splits
        dest!: skip_blank_length skip_graph_length end_of_line_length)
  have cl: "length q < length p"
    if "starts_with tolower p content_length_name = Inr True" "parse_content_length p = Inr (n, q)" for n q
    using that starts_with_length [of tolower p content_length_name]
    by (fastforce simp: parse_content_length_def rbind_eq_Inr_iff content_length_name_def split: if_splits
        dest!: skip_blank_length strtol10_length end_of_line_length)
  have other: "length (drop 2 q) < length p" if "strstr p CRLF = Inr (Some q)" for q
    using strstr_length [OF that] starts_with_length [of "\<lambda>c. c" q CRLF] by (auto simp: CRLF_def)
  show ?thesis
    using assms host cl other
    by (auto simp: post_header_line_def rbind_eq_Inr_iff split: if_splits option.splits prod.splits)
qed

text \<open>The length of an accepted header.\<close>

function post_header_loop :: "bytes \<Rightarrow> bool \<Rightarrow> int option \<Rightarrow> int option result" where
  "post_header_loop p host_parsed len =
     rbind (post_header_line p host_parsed len) (\<lambda>(ok, q, host_parsed', len').
       if \<not> ok then Inr None
       else rbind (strncasecmp_lit q CRLF) (\<lambda>blank_line.
         if blank_line then Inr (if \<not> host_parsed' then None else len')
         else post_header_loop q host_parsed' len'))"
  by auto
termination
  by (relation "measure (\<lambda>(p, h, l). length p)") (auto dest: post_header_line_consumes)

declare post_header_loop.simps [simp del]

definition parse_header :: "bytes \<Rightarrow> int option result" where
  "parse_header header =
     rbind (post_first_line header) (\<lambda>(ok, p). if \<not> ok then Inr None else post_header_loop p False None)"

section \<open>A connection\<close>

text \<open>What \<open>snprintf\<close> leaves of a text in an array of \<open>n\<close> bytes.\<close>

definition snprintf :: "nat \<Rightarrow> bytes \<Rightarrow> bytes" where
  "snprintf n txt = take (n - 1) txt @ [0]"

definition response_header :: "int \<Rightarrow> bytes" where
  "response_header content_length =
     ascii ''SIMPLE/1.0 200 OK'' @ CRLF @ ascii ''Content-Length: '' @ dec (nat content_length) @ CRLF @ CRLF"

definition send_200 :: "int \<Rightarrow> bytes \<Rightarrow> channel \<Rightarrow> channel result" where
  "send_200 content_length body c =
     (let txt = response_header content_length
      in rbind (write_all (take (length txt) (snprintf MAX_POST_HDR txt)) c) (\<lambda>(r1, c1).
         rbind (memcpy_from body (nat content_length)) (\<lambda>b.
         rbind (write_all b c1) (\<lambda>(r2, c2). Inr c2))))"

definition bad_request :: bytes where
  "bad_request = ascii ''SIMPLE/1.0 400 Bad Request'' @ CRLF @ CRLF"

definition send_400 :: "channel \<Rightarrow> channel result" where
  "send_400 c = rbind (write_all bad_request c) (\<lambda>(r, c1). Inr c1)"

text \<open>One round of \<open>child_loop\<close> after \<open>accept\<close>: the buffer and the connection when it is closed.\<close>

definition serve :: "bytes \<Rightarrow> channel \<Rightarrow> (bytes \<times> channel) result" where
  "serve buffer c =
     rbind (read_until_header MAX_POST_HDR buffer c) (\<lambda>(req_first_size, buffer1, c1).
       if req_first_size \<le> 0 then Inr (buffer1, c1)
       else if length buffer1 \<le> nat req_first_size then Inl Out_Of_Bounds
       else
         let buffer2 = buffer1[nat req_first_size := 0]
         in rbind (strstr buffer2 CRLFCRLF) (\<lambda>found.
              case found of
                None \<Rightarrow> rbind (send_400 c1) (\<lambda>c2. Inr (buffer2, c2))
              | Some header_end \<Rightarrow>
                  let body_start = length buffer2 - length header_end + 4;
                      already_read = req_first_size - int body_start
                  in rbind (parse_header buffer2) (\<lambda>len.
                       case len of
                         None \<Rightarrow> rbind (send_400 c1) (\<lambda>c2. Inr (buffer2, c2))
                       | Some content_length \<Rightarrow>
                           let to_be_read = content_length - already_read
                           in rbind (read_all (nat req_first_size) to_be_read buffer2 c1) (\<lambda>(req_second_size, buffer3, c2).
                                if req_second_size < 0 \<or> req_second_size < to_be_read then Inr (buffer3, c2)
                                else rbind (send_200 content_length (drop body_start buffer3) c2) (\<lambda>c3.
                                  Inr (buffer3, c3))))))"

text \<open>The connections that a process accepts, one after the other; \<open>None\<close> is a failed \<open>accept\<close>.\<close>

fun child_loop :: "bytes \<Rightarrow> channel option list \<Rightarrow> (bytes \<times> channel list) result" where
  "child_loop buffer [] = Inr (buffer, [])"
| "child_loop buffer (None # cs) = child_loop buffer cs"
| "child_loop buffer (Some c # cs) =
     rbind (serve buffer c) (\<lambda>(buffer1, c1).
     rbind (child_loop buffer1 cs) (\<lambda>(buffer2, served). Inr (buffer2, c1 # served)))"

end
