(* ===== verification/Post_Client.thy ===== *)
theory Post_Client
  imports Post_Server
begin

text \<open>
  The message client \<^verbatim>\<open>hw1/sclient.c\<close>, from the connected socket on. It has the same
  \<open>write_all\<close>, \<open>read_all\<close> and \<open>skip_blank\<close> as the server.
\<close>

section \<open>The request\<close>

definition request_header :: "bytes \<Rightarrow> nat \<Rightarrow> bytes" where
  "request_header pserver req_body_size =
     ascii ''POST message SIMPLE/1.0'' @ CRLF @ ascii ''Host: '' @ pserver @ CRLF @
     ascii ''Content-Length: '' @ dec req_body_size @ CRLF @ CRLF"

text \<open>The header and the body are written; whether that went well.\<close>

definition send_request :: "bytes \<Rightarrow> bytes \<Rightarrow> channel \<Rightarrow> (bool \<times> channel) result" where
  "send_request pserver body c =
     (let txt = request_header pserver (length body); req_header_size = int (length txt)
      in if int MAX_POST_HDR < req_header_size then Inr (False, c)
         else
           rbind (write_all (take (length txt) (snprintf MAX_POST_HDR txt)) c) (\<lambda>(bytes_written, c1).
             if bytes_written < 0 \<or> bytes_written < req_header_size then Inr (False, c1)
             else
               rbind (write_all body c1) (\<lambda>(bytes_written, c2).
                 Inr (\<not> (bytes_written < 0 \<or> bytes_written < int (length body)), c2))))"

section \<open>The response\<close>

definition parse_response_code :: "bytes \<Rightarrow> int result" where
  "parse_response_code response =
     rbind (skip_blank (drop 10 response)) (\<lambda>p.
     rbind (strncmp_lit p (ascii ''200'')) (\<lambda>ok.
       if ok then Inr 200
       else rbind (strncmp_lit p (ascii ''400'')) (\<lambda>bad. Inr (if bad then 400 else -1))))"

text \<open>Whether the client ends with \<open>EXIT_SUCCESS\<close>, and its standard output.\<close>

definition show_response :: "nat \<Rightarrow> bytes \<Rightarrow> channel \<Rightarrow> (bool \<times> channel) result" where
  "show_response res_size buffer out =
     rbind (strstr buffer CRLFCRLF) (\<lambda>found.
       case found of
         None \<Rightarrow> Inr (False, out)
       | Some header_end \<Rightarrow>
           let body_start = length buffer - length header_end + 4
           in rbind (parse_response_code buffer) (\<lambda>code.
                rbind (write_all (if code = 200 then take (res_size - body_start) (drop body_start buffer)
                                  else take res_size buffer) out) (\<lambda>(r, out1).
                  Inr (True, out1))))"

definition sclient :: "bytes \<Rightarrow> bytes \<Rightarrow> channel \<Rightarrow> channel \<Rightarrow> channel \<Rightarrow> (bool \<times> channel \<times> channel) result" where
  "sclient pserver buffer stdin_ch sock out =
     rbind (read_all 0 (int MAX_CONT) buffer stdin_ch) (\<lambda>(req_body_size, buffer1, stdin1).
       if req_body_size \<le> 0 then Inr (False, sock, out)
       else
         rbind (send_request pserver (take (nat req_body_size) buffer1) sock) (\<lambda>(sent, sock1).
           if \<not> sent then Inr (False, sock1, out)
           else
             rbind (read_all 0 (int (MAX_POST_HDR + MAX_CONT)) buffer1 sock1) (\<lambda>(res_size, buffer2, sock2).
               if res_size \<le> 0 then Inr (False, sock2, out)
               else if length buffer2 \<le> nat res_size then Inl Out_Of_Bounds
               else
                 rbind (show_response (nat res_size) (buffer2[nat res_size := 0]) out) (\<lambda>(ok, out1).
                   Inr (ok, sock2, out1)))))"

end
