(* ===== verification/Post_Streams.thy ===== *)
theory Post_Streams
  imports Post_Client
begin

text \<open>
  Bytes that arrive and leave in pieces: \<open>read_all\<close> and \<open>read_until_header\<close> put a stream together
  whatever its chunks are, \<open>write_all\<close> delivers a buffer through any writes that take something.
\<close>

section \<open>Writing\<close>

lemma write_loop_roomy:
  assumes "roomy (length b - k + m) c" "k \<le> length b"
  shows "\<exists>c'. write_loop k b c = Inr (int (length b), c') \<and> outgoing c' = outgoing c @ drop k b \<and>
      incoming c' = incoming c \<and> roomy m c'"
  using assms
proof (induction k b c rule: write_loop.induct)
  case (1 k b c)
  show ?case
  proof (cases "k < length b")
    case False
    then have "write_loop k b c = Inr (int (length b), c)" by (simp add: write_loop.simps [of k])
    then show ?thesis using 1(2,3) False by simp
  next
    case True
    obtain r rs where r: "room c = r # rs" using 1(2) True by (cases "room c") (auto simp: roomy_def)
    define n where "n = nat (min r (int (length b - k)))"
    define c1 where "c1 = c\<lparr>room := rs, outgoing := outgoing c @ take n (drop k b)\<rparr>"
    have n: "0 < n" "n \<le> length b - k" using 1(2) r True by (auto simp: n_def roomy_def)
    have w: "sys_write (drop k b) c = Inr (int n, c1)"
      using n by (simp add: sys_write_def r n_def c1_def Let_def)
    have "roomy (length b - (k + n) + m) c1" using 1(2) r n by (auto simp: roomy_def c1_def)
    moreover have "k + n \<le> length b" using n True by simp
    ultimately obtain c' where c': "write_loop (k + n) b c1 = Inr (int (length b), c')"
        "outgoing c' = outgoing c1 @ drop (k + n) b" "incoming c' = incoming c1" "roomy m c'"
      using 1(1) [OF True w refl] n by auto
    have "write_loop k b c = Inr (int (length b), c')"
      using True w n c'(1) by (simp add: write_loop.simps [of k])
    moreover have "outgoing c' = outgoing c @ drop k b"
      using c'(2) append_take_drop_id [of n "drop k b"] by (simp add: c1_def add.commute)
    ultimately show ?thesis using c'(3,4) by (simp add: c1_def)
  qed
qed

lemma write_all_roomy:
  assumes "roomy (length b + m) c"
  obtains c' where "write_all b c = Inr (int (length b), c')" "outgoing c' = outgoing c @ b" "incoming c' = incoming c"
    "roomy m c'"
  using write_loop_roomy [of b 0 m c] assms that by (auto simp: write_all_def)

section \<open>Reading\<close>

text \<open>As many bytes as asked for arrive.\<close>

lemma read_loop_enough:
  assumes "arriving ds later c" "k \<le> m" "m - k \<le> length (concat ds)" "off + m \<le> length buf"
  shows "\<exists>ds' c'. read_loop off (int m) k buf c = Inr (int m, put (off + k) (take (m - k) (concat ds)) buf, c') \<and>
      arriving ds' later c' \<and> concat ds' = drop (m - k) (concat ds) \<and> room c' = room c \<and> outgoing c' = outgoing c"
  using assms
proof (induction "m - k" arbitrary: ds k buf c rule: less_induct)
  case less
  show ?case
  proof (cases "k < m")
    case False
    then show ?thesis using less(2,3) by (auto simp: read_loop.simps [of off])
  next
    case True
    then obtain d ds1 where ds: "ds = d # ds1" using less(4) by (cases ds) auto
    define ds2 where "ds2 = (if length d \<le> m - k then [] else [drop (m - k) d]) @ ds1"
    define c1 where "c1 = c\<lparr>incoming := map Some ds2 @ later\<rparr>"
    let ?t = "take (m - k) d"
    have pos: "0 < m - k" using True by simp
    note r = sys_read_arriving [OF less(2) [unfolded ds] pos, folded ds2_def, folded c1_def]
    have d: "d \<noteq> []" using less(2) by (auto simp: arriving_def ds)
    then have t: "?t \<noteq> []" "0 < length ?t" "k + length ?t \<le> m" using True by auto
    have cc: "concat ds = ?t @ concat ds2" using r(3) by (simp add: ds)
    have "m - (k + length ?t) < m - k" "m - (k + length ?t) \<le> length (concat ds2)"
      using t True less(4) cc by (linarith, simp)
    from less(1) [OF this(1) r(2) t(3) this(2), of "put (off + k) ?t buf"] less(5) t(3)
    obtain ds' c' where c': "read_loop off (int m) (k + length ?t) (put (off + k) ?t buf) c1 =
        Inr (int m, put (off + (k + length ?t)) (take (m - (k + length ?t)) (concat ds2)) (put (off + k) ?t buf), c')"
      "arriving ds' later c'" "concat ds' = drop (m - (k + length ?t)) (concat ds2)" "room c' = room c1" "outgoing c' = outgoing c1"
      by auto
    have "take (m - k) (concat ds) = ?t @ take (m - (k + length ?t)) (concat ds2)"
      "drop (m - k) (concat ds) = drop (m - (k + length ?t)) (concat ds2)" using cc t(3) by auto
    moreover have "put (off + (k + length ?t)) x (put (off + k) ?t buf) = put (off + k) (?t @ x) buf" for x
      using put_adjacent [of ?t "length ?t" "off + k" buf x] less(5) t(3) by (simp add: add.assoc)
    moreover have "read_loop off (int m) k buf c = read_loop off (int m) (k + length ?t) (put (off + k) ?t buf) c1"
      using True r(1) t less(5) by (simp add: read_loop.simps [of off _ k])
    ultimately show ?thesis using c' by (auto simp: c1_def)
  qed
qed

text \<open>The stream ends before that.\<close>

lemma read_loop_eof:
  assumes "arriving ds (Some [] # later) c" "k + length (concat ds) < m" "off + m \<le> length buf"
  shows "\<exists>c'. read_loop off (int m) k buf c =
      Inr (int (k + length (concat ds)), put (off + k) (concat ds) buf, c') \<and> room c' = room c \<and> outgoing c' = outgoing c"
  using assms
proof (induction ds arbitrary: k buf c)
  case Nil
  then have "sys_read (m - k) c = Inr (Some [], c)" by (simp add: sys_read_def arriving_def)
  then show ?case using Nil by (simp add: read_loop.simps [of off])
next
  case (Cons d ds)
  have d: "d \<noteq> []" "length d < m - k" using Cons(2,3) by (auto simp: arriving_def)
  let ?c = "c\<lparr>incoming := map Some ds @ Some [] # later\<rparr>"
  have "sys_read (m - k) c = Inr (Some d, ?c)" "arriving ds (Some [] # later) ?c"
    using sys_read_arriving(1,2) [OF Cons(2), of "m - k"] d by simp_all
  moreover from Cons(1) [OF this(2), of "k + length d" "put (off + k) d buf"] Cons(3,4) d
  obtain c' where "read_loop off (int m) (k + length d) (put (off + k) d buf) ?c =
      Inr (int (k + length (concat (d # ds))), put (off + (k + length d)) (concat ds) (put (off + k) d buf), c')"
      "room c' = room c" "outgoing c' = outgoing c" by (auto simp: add.assoc)
  moreover have "put (off + (k + length d)) (concat ds) (put (off + k) d buf) = put (off + k) (concat (d # ds)) buf"
    using put_adjacent [of d "length d" "off + k" buf "concat ds"] Cons(3,4) by (simp add: add.assoc)
  ultimately show ?case using d Cons(3,4) by (simp add: read_loop.simps [of off _ k])
qed

end
