(* ===== verification/Post_Grammar.thy ===== *)
theory Post_Grammar
  imports Post_Client
begin

text \<open>
  The headers that the parser of the message server accepts, as a grammar, and the one way in
  which it fails: a line without CRLF that is not a Host or Content-Length line.
\<close>

section \<open>The parser on a terminated buffer\<close>

lemma literals_post [simp]:
  "0 \<notin> set POST" "length POST = 4" "0 \<notin> set post_target" "length post_target = 7" "0 \<notin> set SIMPLE_1_0"
  "length SIMPLE_1_0 = 10" "0 \<notin> set content_length_name" "length content_length_name = 15"
  by (simp_all add: POST_def post_target_def SIMPLE_1_0_def content_length_name_def ascii_def)

lemma literals_hd [simp]:
  "post_target \<noteq> []" "\<not> isblank (hd post_target)" "SIMPLE_1_0 \<noteq> []" "\<not> isblank (hd SIMPLE_1_0)" "13 \<notin> set content_length_name"
  "13 \<notin> set host_name"
  by (simp_all add: post_target_def SIMPLE_1_0_def content_length_name_def host_name_def ascii_def isblank_def)

definition decimal :: "int \<Rightarrow> bytes \<Rightarrow> int" where
  "decimal v ds = foldl (\<lambda>v c. v * 10 + (int (unat c) - 0x30)) v ds"

lemma decimal_nonneg: "0 \<le> v \<Longrightarrow> \<forall>c \<in> set ds. isdigit c \<Longrightarrow> 0 \<le> decimal v ds"
proof (induction ds arbitrary: v)
  case (Cons c ds)
  then have "0x30 \<le> unat c" by (simp add: isdigit_def word_le_nat_alt)
  then have "0x30 \<le> int (unat c)" by linarith
  then have "0 \<le> v * 10 + (int (unat c) - 0x30)" using Cons(2) by simp
  from Cons(1) [OF this] Cons(3) show ?case by (simp add: decimal_def)
qed (simp add: decimal_def)

lemma not_digit_0 [simp]: "\<not> isdigit 0" "\<not> isdigit 13"
  by (simp_all add: isdigit_def)

lemma strtol10_eq [terminated]:
  "0 \<in> set p \<Longrightarrow> strtol10 v p = Inr (min (decimal v (takeWhile isdigit p)) LONG_MAX, dropWhile isdigit p)"
  by (induction v p rule: strtol10.induct) (auto simp: decimal_def)

lemma post_first_line_total: "0 \<in> set p \<Longrightarrow> \<exists>r. post_first_line p = Inr r"
  by (auto simp: post_first_line_def terminated Let_def)

lemma parse_host_returns: "0 \<in> set p \<Longrightarrow> \<exists>r. parse_host p = Inr r"
  by (auto simp: parse_host_def terminated Let_def)

lemma content_length_total: "0 \<in> set p \<Longrightarrow> \<exists>r. parse_content_length p = Inr r"
  by (auto simp: parse_content_length_def terminated Let_def)

section \<open>The request line\<close>

definition post_line :: "bytes \<Rightarrow> bool" where
  "post_line line \<longleftrightarrow> (\<exists>w1 w2 w3. all_blank w1 \<and> all_blank w2 \<and> all_blank w3 \<and>
     line = POST @ w1 @ post_target @ w2 @ SIMPLE_1_0 @ w3 @ CRLF)"

lemma post_first_line_iff:
  assumes "0 \<in> set p"
  shows "post_first_line p = Inr (True, q) \<longleftrightarrow> (\<exists>line. p = line @ q \<and> post_line line)"
proof
  assume a: "post_first_line p = Inr (True, q)"
  then have t: "take 4 p = POST" using assms by (simp add: post_first_line_def terminated split: if_splits)
  define p1 where "p1 = dropWhile isblank (drop 4 p)"
  have z1: "0 \<in> set p1" using assms t by (simp add: p1_def)
  have t1: "take 7 p1 = post_target"
    using a assms t z1 by (simp add: post_first_line_def terminated p1_def [symmetric] split: if_splits)
  define p2 where "p2 = dropWhile isblank (drop 7 p1)"
  have z2: "0 \<in> set p2" using z1 t1 by (simp add: p2_def)
  have t2: "take 10 p2 = SIMPLE_1_0" "end_of_line (drop 10 p2) = Inr (True, q)"
    using a assms t t1 z1 z2
    by (simp_all add: post_first_line_def terminated p1_def [symmetric] p2_def [symmetric] split: if_splits)
  obtain w1 where w1: "drop 4 p = w1 @ p1" "all_blank w1" unfolding p1_def using run_blank by metis
  obtain w2 where w2: "drop 7 p1 = w2 @ p2" "all_blank w2" unfolding p2_def using run_blank by metis
  have "0 \<in> set (drop 10 p2)" using drop_literal(1) [OF z2 t2(1)] by simp
  then obtain w3 where w3: "drop 10 p2 = w3 @ CRLF @ q" "all_blank w3" using t2(2) end_of_line_iff by blast
  have "p = (POST @ w1 @ post_target @ w2 @ SIMPLE_1_0 @ w3 @ CRLF) @ q"
    using take_eq_split [OF t] take_eq_split [OF t1] take_eq_split [OF t2(1)] w1(1) w2(1) w3(1)
    by (metis append.assoc)
  then show "\<exists>line. p = line @ q \<and> post_line line" unfolding post_line_def using w1(2) w2(2) w3(2) by blast
next
  assume "\<exists>line. p = line @ q \<and> post_line line"
  then obtain w1 w2 w3 where p: "p = POST @ w1 @ post_target @ w2 @ SIMPLE_1_0 @ w3 @ CRLF @ q" "all_blank w1"
    "all_blank w2" "all_blank w3" unfolding post_line_def by auto
  have t: "take 4 p = POST" "drop 4 p = w1 @ post_target @ w2 @ SIMPLE_1_0 @ w3 @ CRLF @ q" using p(1) by simp_all
  have d1: "dropWhile isblank (drop 4 p) = post_target @ w2 @ SIMPLE_1_0 @ w3 @ CRLF @ q"
    unfolding t(2) by (intro skip_blanks [OF p(2)]) simp_all
  have d2: "dropWhile isblank (w2 @ SIMPLE_1_0 @ w3 @ CRLF @ q) = SIMPLE_1_0 @ w3 @ CRLF @ q"
    by (intro skip_blanks [OF p(3)]) simp_all
  have z: "0 \<in> set (w3 @ CRLF @ q)" using assms p by (auto dest: blank_0)
  have "end_of_line (w3 @ CRLF @ q) = Inr (True, q)" using end_of_line_iff [OF z] p(4) by blast
  moreover have "0 \<in> set (drop 4 p)" "0 \<in> set (post_target @ w2 @ SIMPLE_1_0 @ w3 @ CRLF @ q)"
    "0 \<in> set (w2 @ SIMPLE_1_0 @ w3 @ CRLF @ q)" "0 \<in> set (SIMPLE_1_0 @ w3 @ CRLF @ q)" using z t(2) by auto
  ultimately show "post_first_line p = Inr (True, q)"
    using assms t(1) d1 d2 by (simp add: post_first_line_def terminated)
qed

section \<open>Header lines\<close>

definition length_value :: "bytes \<Rightarrow> int \<Rightarrow> bool" where
  "length_value ds n \<longleftrightarrow> ds \<noteq> [] \<and> (\<forall>c \<in> set ds. isdigit c) \<and> n = decimal 0 ds \<and> n \<le> int MAX_CONT"

text \<open>A header line: its bytes, whether it is a Host line, and the length it gives.\<close>

inductive post_header :: "bytes \<Rightarrow> bool \<Rightarrow> int option \<Rightarrow> bool" where
  host_line: "\<lbrakk>map tolower nm = host_name; all_blank w1; all_graph h; h \<noteq> []; all_blank w2\<rbrakk>
    \<Longrightarrow> post_header (nm @ w1 @ h @ w2 @ CRLF) True None"
| length_line: "\<lbrakk>map tolower nm = content_length_name; all_blank w1; length_value ds n; all_blank w2\<rbrakk>
    \<Longrightarrow> post_header (nm @ w1 @ ds @ w2 @ CRLF) False (Some n)"
| other_line: "\<lbrakk>0 \<notin> set l; no_crlf l; map tolower (take 5 l) \<noteq> host_name;
    map tolower (take 15 l) \<noteq> content_length_name\<rbrakk> \<Longrightarrow> post_header (l @ CRLF) False None"

lemma length_name_at:
  assumes "map tolower n = content_length_name"
  shows "map tolower (take 15 (n @ r)) = content_length_name"
proof -
  have "length n = 15" using assms literals_post(8) by (metis length_map)
  then show ?thesis using assms by simp
qed

lemma post_names_differ: "map tolower (take 5 p) = host_name \<Longrightarrow> map tolower (take 15 p) \<noteq> content_length_name"
  by (cases p) (auto simp: host_name_def content_length_name_def ascii_def)

lemma in_line_post:
  "map tolower (take 5 (l @ CRLF @ q)) = host_name \<longleftrightarrow> map tolower (take 5 l) = host_name"
  "map tolower (take 15 (l @ CRLF @ q)) = content_length_name \<longleftrightarrow> map tolower (take 15 l) = content_length_name"
  using literal_in_line [of host_name l q] literal_in_line [of content_length_name l q] by simp_all

lemma length_value_digits: "length_value ds n \<Longrightarrow> 0 \<notin> set ds \<and> \<not> isblank (hd ds) \<and> isdigit (hd ds) \<and> 0 \<le> n"
  using decimal_nonneg [of 0 ds] digit_class unfolding length_value_def by (cases ds) auto

lemma digits_then_end:
  "\<forall>c \<in> set ds. isdigit c \<Longrightarrow> all_blank w \<Longrightarrow>
     takeWhile isdigit (ds @ w @ CRLF @ q) = ds \<and> dropWhile isdigit (ds @ w @ CRLF @ q) = w @ CRLF @ q"
proof -
  assume a: "\<forall>c \<in> set ds. isdigit c" "all_blank w"
  have "\<not> isdigit (hd (w @ CRLF @ q))"
    using a(2) digit_class by (cases w) (auto simp: all_blank_def)
  from run_unique [OF a(1) _ this] show ?thesis by simp
qed

lemma content_length_eq:
  assumes "0 \<in> set p" "map tolower (take 15 p) = content_length_name" "p1 = dropWhile isblank (drop 15 p)"
    "ds = takeWhile isdigit p1"
  shows "parse_content_length p =
    (if \<not> isdigit (hd p1) \<or> int MAX_CONT < decimal 0 ds then Inr (-1, p1)
     else rbind (end_of_line (dropWhile isdigit p1)) (\<lambda>(ok, q). Inr (if ok then decimal 0 ds else -1, q)))"
proof -
  have z: "0 \<in> set (drop 15 p)" "0 \<in> set p1" using assms(1,2) by (simp_all add: assms(3))
  have le: "int MAX_CONT < min (decimal 0 ds) LONG_MAX \<longleftrightarrow> int MAX_CONT < decimal 0 ds"
    by (simp add: LONG_MAX_def MAX_CONT_def)
  have min: "\<not> int MAX_CONT < decimal 0 ds \<Longrightarrow> min (decimal 0 ds) LONG_MAX = decimal 0 ds"
    by (simp add: LONG_MAX_def MAX_CONT_def)
  have "parse_content_length p =
    (if \<not> isdigit (hd p1) then Inr (-1, p1)
     else if int MAX_CONT < min (decimal 0 ds) LONG_MAX then Inr (-1, p1)
     else rbind (end_of_line (dropWhile isdigit p1)) (\<lambda>(ok, q). Inr (if ok then min (decimal 0 ds) LONG_MAX else -1, q)))"
    unfolding parse_content_length_def strncasecmp_iff [OF assms(1) literals_post(7)] literals_post(8) assms(2)
      rbind_simps skip_blank_eq [OF z(1)] assms(3) [symmetric] deref_eq [OF z(2)] strtol10_eq [OF z(2)]
      assms(4) [symmetric] prod.case by simp
  then show ?thesis unfolding le by (cases "isdigit (hd p1)"; cases "int MAX_CONT < decimal 0 ds") (simp_all only: min if_True if_False not_True_eq_False not_False_eq_True simp_thms)
qed

lemma content_length_iff:
  assumes "0 \<in> set p"
  shows "parse_content_length p = Inr (n, q) \<and> 0 \<le> n \<longleftrightarrow>
    (\<exists>nm w1 ds w2. p = nm @ w1 @ ds @ w2 @ CRLF @ q \<and> map tolower nm = content_length_name \<and> all_blank w1 \<and>
       length_value ds n \<and> all_blank w2)"
proof
  assume a: "parse_content_length p = Inr (n, q) \<and> 0 \<le> n"
  then have t: "map tolower (take 15 p) = content_length_name"
    using assms by (auto simp: parse_content_length_def terminated split: if_splits)
  define p1 where "p1 = dropWhile isblank (drop 15 p)"
  define ds where "ds = takeWhile isdigit p1"
  define p2 where "p2 = dropWhile isdigit p1"
  have z: "0 \<in> set p1" "0 \<in> set p2" using assms t by (simp_all add: p1_def p2_def)
  note eq = content_length_eq [OF assms t p1_def ds_def, folded p2_def]
  have c: "isdigit (hd p1)" "decimal 0 ds \<le> int MAX_CONT" using a eq by (auto split: if_splits)
  have "rbind (end_of_line p2) (\<lambda>(ok, q). Inr (if ok then decimal 0 ds else -1, q)) = Inr (n, q)" using a c eq by simp
  then obtain ok where e: "end_of_line p2 = Inr (ok, q)" "n = (if ok then decimal 0 ds else -1)"
    by (auto simp: rbind_eq_Inr_iff)
  then have ok: "ok" "n = decimal 0 ds" using a by (auto split: if_splits)
  then obtain w2 where w2: "all_blank w2" "p2 = w2 @ CRLF @ q" using e(1) end_of_line_iff [OF z(2)] by auto
  obtain w1 where w1: "drop 15 p = w1 @ p1" "all_blank w1" unfolding p1_def using run_blank by metis
  have ds: "p1 = ds @ p2" "\<forall>c \<in> set ds. isdigit c" using set_takeWhileD [of _ isdigit p1] unfolding ds_def p2_def by auto
  have "ds \<noteq> []" using c(1) z(1) unfolding ds_def by (cases p1) auto
  then have "length_value ds n" using ds(2) c(2) ok(2) by (simp add: length_value_def)
  moreover have "p = take 15 p @ w1 @ ds @ w2 @ CRLF @ q" using w1(1) ds(1) w2(2) by (metis append_take_drop_id)
  ultimately show "\<exists>nm w1 ds w2. p = nm @ w1 @ ds @ w2 @ CRLF @ q \<and> map tolower nm = content_length_name \<and> all_blank w1 \<and>
       length_value ds n \<and> all_blank w2" using t w1(2) w2(1) by blast
next
  assume "\<exists>nm w1 ds w2. p = nm @ w1 @ ds @ w2 @ CRLF @ q \<and> map tolower nm = content_length_name \<and> all_blank w1 \<and>
       length_value ds n \<and> all_blank w2"
  then obtain nm w1 ds w2 where p: "p = nm @ w1 @ ds @ w2 @ CRLF @ q" "map tolower nm = content_length_name" "all_blank w1"
    "length_value ds n" "all_blank w2" by blast
  note v = length_value_digits [OF p(4)]
  have ds: "ds \<noteq> []" "\<forall>c \<in> set ds. isdigit c" "n = decimal 0 ds" "n \<le> int MAX_CONT" using p(4) by (simp_all add: length_value_def)
  have nm: "length nm = 15" using p(2) literals_post(8) by (metis length_map)
  have t: "map tolower (take 15 p) = content_length_name" "drop 15 p = w1 @ ds @ w2 @ CRLF @ q" using p(1,2) nm by simp_all
  have d1: "ds @ w2 @ CRLF @ q = dropWhile isblank (drop 15 p)"
    unfolding t(2) using v ds(1) by (intro skip_blanks [OF p(3), symmetric]) simp_all
  note d2 = digits_then_end [OF ds(2) p(5), of q]
  have z: "0 \<in> set (w2 @ CRLF @ q)" using assms p(1) v literal_0 [OF p(2)] blank_0 [OF p(3)] by auto
  have e: "end_of_line (w2 @ CRLF @ q) = Inr (True, q)" using end_of_line_iff [OF z] p(5) by blast
  have "isdigit (hd (ds @ w2 @ CRLF @ q))" using v ds(1) by simp
  then show "parse_content_length p = Inr (n, q) \<and> 0 \<le> n"
    using content_length_eq [OF assms t(1) d1 refl] d2 ds(3,4) v e by simp
qed

lemma content_length_bound: "0 \<in> set p \<Longrightarrow> parse_content_length p = Inr (n, q) \<Longrightarrow> 0 \<le> n \<Longrightarrow> n \<le> int MAX_CONT"
  using content_length_iff [of p n q] unfolding length_value_def by blast

section \<open>The loop over the lines\<close>

definition post_line_at :: "bytes \<Rightarrow> bytes \<Rightarrow> bool \<Rightarrow> int option \<Rightarrow> bool" where
  "post_line_at p q b n \<longleftrightarrow> (\<exists>line. p = line @ q \<and> post_header line b n)"

lemma post_line_at_host:
  assumes "0 \<in> set p" "map tolower (take 5 p) = host_name"
  shows "post_line_at p q b n \<longleftrightarrow> parse_host p = Inr (True, q) \<and> b \<and> n = None"
proof
  assume "post_line_at p q b n"
  then obtain line where g: "p = line @ q" and "post_header line b n" by (auto simp: post_line_at_def)
  from this(2) show "parse_host p = Inr (True, q) \<and> b \<and> n = None"
  proof (cases rule: post_header.cases)
    case (host_line nm w1 h w2)
    have "p = nm @ w1 @ h @ w2 @ CRLF @ q" using g host_line(1) by simp
    from parse_hostI [OF assms(1) this host_line(4-8)] host_line(2,3) show ?thesis by simp
  next
    case (length_line nm w1 ds k w2)
    have "map tolower (take 15 p) = content_length_name"
      unfolding g length_line(1) append.assoc by (rule length_name_at [OF length_line(4)])
    with post_names_differ [OF assms(2)] show ?thesis by simp
  next
    case (other_line l)
    have "map tolower (take 5 p) \<noteq> host_name"
      unfolding g other_line(1) append.assoc in_line_post(1) by (rule other_line(6))
    with assms(2) show ?thesis by simp
  qed
next
  assume a: "parse_host p = Inr (True, q) \<and> b \<and> n = None"
  then obtain nm w1 h w2 where h: "p = nm @ w1 @ h @ w2 @ CRLF @ q" "map tolower nm = host_name" "all_blank w1"
    "all_graph h" "h \<noteq> []" "all_blank w2" using a [THEN conjunct1] unfolding parse_host_iff [OF assms(1)] by (elim exE conjE)
  have "p = (nm @ w1 @ h @ w2 @ CRLF) @ q" using h(1) by simp
  moreover have "post_header (nm @ w1 @ h @ w2 @ CRLF) b n" using post_header.host_line [OF h(2-6)] a by simp
  ultimately show "post_line_at p q b n" unfolding post_line_at_def by (intro exI conjI)
qed

lemma post_line_at_length:
  assumes "0 \<in> set p" "map tolower (take 15 p) = content_length_name"
  shows "post_line_at p q b n \<longleftrightarrow> (\<exists>k. parse_content_length p = Inr (k, q) \<and> 0 \<le> k \<and> \<not> b \<and> n = Some k)"
proof
  assume "post_line_at p q b n"
  then obtain line where g: "p = line @ q" and "post_header line b n" by (auto simp: post_line_at_def)
  from this(2) show "\<exists>k. parse_content_length p = Inr (k, q) \<and> 0 \<le> k \<and> \<not> b \<and> n = Some k"
  proof (cases rule: post_header.cases)
    case (host_line nm w1 h w2)
    have "map tolower (take 5 p) = host_name"
      unfolding g host_line(1) append.assoc by (rule host_name_at [OF host_line(4)])
    with post_names_differ assms(2) show ?thesis by blast
  next
    case (length_line nm w1 ds k w2)
    have "p = nm @ w1 @ ds @ w2 @ CRLF @ q" using g length_line(1) by simp
    then have "parse_content_length p = Inr (k, q) \<and> 0 \<le> k"
      unfolding content_length_iff [OF assms(1)] using length_line(4-7) by (intro exI conjI)
    with length_line(2,3) show ?thesis by blast
  next
    case (other_line l)
    have "map tolower (take 15 p) \<noteq> content_length_name"
      unfolding g other_line(1) append.assoc in_line_post(2) by (rule other_line(7))
    with assms(2) show ?thesis by simp
  qed
next
  assume "\<exists>k. parse_content_length p = Inr (k, q) \<and> 0 \<le> k \<and> \<not> b \<and> n = Some k"
  then obtain k where a: "parse_content_length p = Inr (k, q) \<and> 0 \<le> k" "\<not> b" "n = Some k" by blast
  obtain nm w1 ds w2 where k: "p = nm @ w1 @ ds @ w2 @ CRLF @ q" "map tolower nm = content_length_name" "all_blank w1"
    "length_value ds k" "all_blank w2" using a(1) unfolding content_length_iff [OF assms(1)] by (elim exE conjE)
  have "p = (nm @ w1 @ ds @ w2 @ CRLF) @ q" using k(1) by simp
  moreover have "post_header (nm @ w1 @ ds @ w2 @ CRLF) b n" using post_header.length_line [OF k(2-5)] a by simp
  ultimately show "post_line_at p q b n" unfolding post_line_at_def by (intro exI conjI)
qed

lemma post_line_at_other:
  assumes "0 \<in> set p" "map tolower (take 5 p) \<noteq> host_name" "map tolower (take 15 p) \<noteq> content_length_name"
  shows "post_line_at p q b n \<longleftrightarrow> (\<exists>r. strstr p CRLF = Inr (Some r) \<and> q = drop 2 r) \<and> \<not> b \<and> n = None"
proof
  assume "post_line_at p q b n"
  then obtain line where g: "p = line @ q" and h: "post_header line b n" by (auto simp: post_line_at_def)
  from h obtain l where l: "line = l @ CRLF" "\<not> b" "n = None" "0 \<notin> set l" "no_crlf l"
  proof (cases rule: post_header.cases)
    case (host_line nm w1 h w2)
    have "map tolower (take 5 p) = host_name"
      unfolding g host_line(1) append.assoc by (rule host_name_at [OF host_line(4)])
    with assms(2) show ?thesis by simp
  next
    case (length_line nm w1 ds k w2)
    have "map tolower (take 15 p) = content_length_name"
      unfolding g length_line(1) append.assoc by (rule length_name_at [OF length_line(4)])
    with assms(3) show ?thesis by simp
  next
    case (other_line l)
    then show ?thesis by (intro that) simp_all
  qed
  have "p = l @ CRLF @ q" using g l(1) by simp
  then have "first_crlf p (CRLF @ q)" unfolding first_crlf_def using l(4,5) by (intro exI conjI) (assumption | rule refl)+
  then have "strstr p CRLF = Inr (Some (CRLF @ q))" by (simp only: strstr_first [OF assms(1)])
  moreover have "q = drop 2 (CRLF @ q)" by simp
  ultimately have "\<exists>r. strstr p CRLF = Inr (Some r) \<and> q = drop 2 r" by (intro exI conjI)
  with l(2,3) show "(\<exists>r. strstr p CRLF = Inr (Some r) \<and> q = drop 2 r) \<and> \<not> b \<and> n = None" by simp
next
  assume "(\<exists>r. strstr p CRLF = Inr (Some r) \<and> q = drop 2 r) \<and> \<not> b \<and> n = None"
  then obtain r where r: "first_crlf p r" "q = drop 2 r" "\<not> b" "n = None"
    unfolding strstr_first [OF assms(1)] by (elim exE conjE)
  then obtain l where l: "p = l @ CRLF @ q" "0 \<notin> set l" "no_crlf l" by (auto simp: first_crlf_def)
  have "map tolower (take 5 l) \<noteq> host_name" "map tolower (take 15 l) \<noteq> content_length_name"
    using assms(2,3) unfolding l(1) in_line_post .
  then have "post_header (l @ CRLF) False None" by (rule post_header.other_line [OF l(2,3)])
  then have "post_header (l @ CRLF) b n" using r(3,4) by simp
  moreover have "p = (l @ CRLF) @ q" using l(1) by simp
  ultimately show "post_line_at p q b n" unfolding post_line_at_def by (intro exI conjI)
qed

definition newer :: "int option \<Rightarrow> int option \<Rightarrow> int option" where
  "newer n old = (case n of None \<Rightarrow> old | Some k \<Rightarrow> Some k)"

text \<open>A round goes on exactly at a line of the grammar.\<close>

lemma post_header_line_iff:
  assumes "0 \<in> set p"
  shows "post_header_line p h l = Inr (True, q, h', l') \<longleftrightarrow>
    (\<exists>b n. post_line_at p q b n \<and> h' = (h \<or> b) \<and> l' = newer n l)"
proof -
  note names = strncasecmp_iff [OF assms crlf_host_props(3)] strncasecmp_iff [OF assms literals_post(7)]
  consider "map tolower (take 5 p) = host_name"
    | "map tolower (take 15 p) = content_length_name" "map tolower (take 5 p) \<noteq> host_name"
    | "map tolower (take 5 p) \<noteq> host_name" "map tolower (take 15 p) \<noteq> content_length_name" by blast
  then show ?thesis
  proof cases
    case 1
    then have "post_header_line p h l = rbind (parse_host p) (\<lambda>(ok, q). Inr (ok, q, True, l))"
      by (simp add: post_header_line_def names)
    then have "post_header_line p h l = Inr (True, q, h', l') \<longleftrightarrow> parse_host p = Inr (True, q) \<and> h' \<and> l' = l"
      by (cases "parse_host p") auto
    then show ?thesis unfolding post_line_at_host [OF assms 1] by (auto simp: newer_def)
  next
    case 2
    then have "post_header_line p h l = rbind (parse_content_length p)
        (\<lambda>(n, q). Inr (\<not> (n < 0 \<or> int MAX_CONT < n), q, h, Some n))"
      by (simp add: post_header_line_def names)
    then have "post_header_line p h l = Inr (True, q, h', l') \<longleftrightarrow>
        (\<exists>k. (parse_content_length p = Inr (k, q) \<and> 0 \<le> k) \<and> k \<le> int MAX_CONT \<and> l' = Some k) \<and> h' = h"
      by (cases "parse_content_length p") auto
    also have "\<dots> \<longleftrightarrow> (\<exists>k. (parse_content_length p = Inr (k, q) \<and> 0 \<le> k) \<and> l' = Some k) \<and> h' = h"
      using content_length_bound [OF assms] by blast
    finally show ?thesis unfolding post_line_at_length [OF assms 2(1)] by (auto simp: newer_def)
  next
    case 3
    obtain s where s: "strstr p CRLF = Inr s" using strstr_total [OF assms] by blast
    have "post_header_line p h l = (case s of None \<Rightarrow> Inl Null_Dereference | Some q \<Rightarrow> Inr (True, drop 2 q, h, l))"
      using 3 by (simp add: post_header_line_def names s)
    then have "post_header_line p h l = Inr (True, q, h', l') \<longleftrightarrow> (\<exists>r. s = Some r \<and> q = drop 2 r) \<and> h' = h \<and> l' = l"
      by (cases s) auto
    then show ?thesis unfolding post_line_at_other [OF assms 3] s by (auto simp: newer_def)
  qed
qed

text \<open>The header lines up to the empty line. The loop looks for the empty line only behind a line, so
  the first line may be empty itself.\<close>

inductive post_headers :: "bytes \<Rightarrow> (bool \<times> int option) list \<Rightarrow> bool" where
  last_post: "post_header line b n \<Longrightarrow> post_headers (line @ CRLF) [(b, n)]"
| more_post: "post_header line b n \<Longrightarrow> post_headers block hs \<Longrightarrow> take 2 block \<noteq> CRLF \<Longrightarrow>
    post_headers (line @ block) ((b, n) # hs)"

lemma post_header_0: "post_header line b n \<Longrightarrow> 0 \<notin> set line"
proof (induction rule: post_header.induct)
  case (host_line nm w1 h w2)
  then show ?case using literal_0 [OF host_line(1)] blank_0 graph_0 by simp
next
  case (length_line nm w1 ds k w2)
  then show ?case using literal_0 [OF length_line(1)] blank_0 length_value_digits by simp
qed simp

lemma post_header_length: "post_header line b n \<Longrightarrow> 2 \<le> length line"
  by (induction rule: post_header.induct) simp_all

lemma post_headers_length: "post_headers block hs \<Longrightarrow> 2 \<le> length block"
  by (induction rule: post_headers.induct) (auto dest: post_header_length)

abbreviation given_length :: "(bool \<times> int option) list \<Rightarrow> int option \<Rightarrow> int option" where
  "given_length hs \<equiv> fold (\<lambda>(b, n). newer n) hs"

lemma crlf_lower: "0 \<in> set q \<Longrightarrow> strncasecmp_lit q CRLF = Inr (take 2 q = CRLF)"
proof -
  have t: "tolower c = 13 \<longleftrightarrow> c = 13" "tolower c = 10 \<longleftrightarrow> c = 10" for c
    by (auto simp: tolower_def word_le_nat_alt unat_word_ariths word_unat_eq_iff)
  assume z: "0 \<in> set q"
  have "map tolower (take 2 q) = CRLF \<longleftrightarrow> take 2 q = CRLF"
    by (cases q; cases "tl q") (auto simp: CRLF_def t numeral_2_eq_2)
  then show ?thesis using strncasecmp_iff [OF z crlf_host_props(1)] by simp
qed

lemma post_header_step:
  assumes "0 \<in> set p" "post_header_line p h l = Inr (True, q, h', l')"
  shows "0 \<in> set q" "post_header_loop p h l =
    (if take 2 q = CRLF then Inr (if h' then l' else None) else post_header_loop q h' l')"
proof -
  obtain line b n where l: "p = line @ q" "post_header line b n"
    using assms(2) unfolding post_header_line_iff [OF assms(1)] post_line_at_def by blast
  show z: "0 \<in> set q" using assms(1) l post_header_0 by auto
  show "post_header_loop p h l =
    (if take 2 q = CRLF then Inr (if h' then l' else None) else post_header_loop q h' l')"
    using assms(2) crlf_lower [OF z] by (simp add: post_header_loop.simps [of p])
qed

lemma post_header_lineI:
  assumes "post_header line b n" "0 \<in> set (line @ q)"
  shows "post_header_line (line @ q) h l = Inr (True, q, h \<or> b, newer n l)"
  unfolding post_header_line_iff [OF assms(2)] post_line_at_def using assms(1) by (intro exI conjI) (rule refl | assumption)+

lemma post_headers_accepted:
  assumes "post_headers block hs" "0 \<in> set (block @ rest)" "h \<or> (\<exists>(b, n) \<in> set hs. b)"
  shows "post_header_loop (block @ rest) h l = Inr (given_length hs l)"
  using assms
proof (induction arbitrary: h l rule: post_headers.induct)
  case (last_post line b n)
  have z: "0 \<in> set (line @ CRLF @ rest)" using last_post(2) by simp
  from post_header_step [OF z post_header_lineI [OF last_post(1) z, of h l]] last_post(3) show ?case by simp
next
  case (more_post line b n block hs)
  have z: "0 \<in> set (line @ block @ rest)" using more_post(5) by simp
  note step = post_header_step [OF z post_header_lineI [OF more_post(1) z, of h l]]
  have "take 2 (block @ rest) \<noteq> CRLF" using more_post(3) post_headers_length [OF more_post(2)] by simp
  then show ?case using step more_post(4) [OF step(1)] more_post(6) by auto
qed

lemma post_loop_sound:
  assumes "post_header_loop p h l = Inr (Some n)" "0 \<in> set p"
  shows "\<exists>block hs rest. p = block @ rest \<and> post_headers block hs \<and> (h \<or> (\<exists>(b, n) \<in> set hs. b)) \<and> given_length hs l = Some n"
  using assms
proof (induction p h l rule: post_header_loop.induct)
  case (1 p h l)
  obtain q h' l' where r: "post_header_line p h l = Inr (True, q, h', l')"
    using 1(2) by (auto simp: post_header_loop.simps [of p] rbind_eq_Inr_iff split: if_splits)
  then obtain line b k where line: "p = line @ q" "post_header line b k" "h' = (h \<or> b)" "l' = newer k l"
    unfolding post_header_line_iff [OF 1(3)] post_line_at_def by blast
  note step = post_header_step [OF 1(3) r]
  show ?case
  proof (cases "take 2 q = CRLF")
    case True
    then have "p = (line @ CRLF) @ drop 2 q" using line(1) take_eq_split [OF True] by simp
    moreover have "post_headers (line @ CRLF) [(b, k)]" using line(2) by (rule last_post)
    moreover have "h \<or> b" "newer k l = Some n" using 1(2) step(2) True line(3,4) by (auto split: if_splits)
    ultimately show ?thesis by (intro exI [of _ "line @ CRLF"] exI [of _ "[(b, k)]"] exI [of _ "drop 2 q"]) simp
  next
    case False
    then have loop: "post_header_loop q h' l' = Inr (Some n)" using 1(2) step(2) by simp
    have blank: "strncasecmp_lit q CRLF = Inr False" using crlf_lower [OF step(1)] False by simp
    obtain block hs rest where b: "q = block @ rest" "post_headers block hs" "h' \<or> (\<exists>(b, n) \<in> set hs. b)"
        "given_length hs l' = Some n"
      using 1(1) [OF r refl refl refl _ blank _ loop step(1)] by blast
    have "take 2 block \<noteq> CRLF" using False b(1) post_headers_length [OF b(2)] by auto
    then have "post_headers (line @ block) ((b, k) # hs)" using line(2) b(2) by (intro more_post)
    then show ?thesis using line b by (intro exI [of _ "line @ block"] exI [of _ "(b, k) # hs"] exI [of _ rest]) auto
  qed
qed

text \<open>A header: the request line and header lines with a Host line and a length.\<close>

definition post_request :: "bytes \<Rightarrow> int \<Rightarrow> bool" where
  "post_request txt n \<longleftrightarrow> (\<exists>line block hs. txt = line @ block \<and> post_line line \<and> post_headers block hs \<and>
     (\<exists>(b, k) \<in> set hs. b) \<and> given_length hs None = Some n)"

lemma post_line_0: "post_line line \<Longrightarrow> 0 \<notin> set line"
  by (auto simp: post_line_def dest: blank_0)

lemma parse_header_accepts:
  assumes "0 \<in> set buf"
  shows "parse_header buf = Inr (Some n) \<longleftrightarrow> (\<exists>txt rest. buf = txt @ rest \<and> post_request txt n)"
proof
  assume ok: "parse_header buf = Inr (Some n)"
  then obtain p where f: "post_first_line buf = Inr (True, p)" "post_header_loop p False None = Inr (Some n)"
    by (auto simp: parse_header_def rbind_eq_Inr_iff split: if_splits)
  then obtain line where l: "buf = line @ p" "post_line line" unfolding post_first_line_iff [OF assms] by blast
  have "0 \<in> set p" using l(1) post_line_0 [OF l(2)] assms(1) by simp
  from post_loop_sound [OF f(2) this] obtain block hs rest where b: "p = block @ rest" "post_headers block hs"
      "\<exists>(b, n) \<in> set hs. b" "given_length hs None = Some n" by blast
  have "post_request (line @ block) n" unfolding post_request_def using l(2) b(2-4) by blast
  moreover have "buf = (line @ block) @ rest" using l(1) b(1) by simp
  ultimately show "\<exists>txt rest. buf = txt @ rest \<and> post_request txt n" by blast
next
  assume "\<exists>txt rest. buf = txt @ rest \<and> post_request txt n"
  then obtain line block rest hs where g: "buf = line @ block @ rest" "post_line line" "post_headers block hs"
      "\<exists>(b, n) \<in> set hs. b" "given_length hs None = Some n"
    unfolding post_request_def by fastforce
  have "post_first_line buf = Inr (True, block @ rest)" unfolding post_first_line_iff [OF assms] using g(1,2) by blast
  moreover have "0 \<in> set (block @ rest)" using g(1) post_line_0 [OF g(2)] assms(1) by simp
  from post_headers_accepted [OF g(3) this] g(4,5) have "post_header_loop (block @ rest) False None = Inr (Some n)" by simp
  ultimately show "parse_header buf = Inr (Some n)" by (simp add: parse_header_def)
qed

section \<open>The only fault\<close>

lemma post_header_line_total:
  assumes "0 \<in> set p"
  shows "(\<exists>r. post_header_line p h l = Inr r) \<or> post_header_line p h l = Inl Null_Dereference"
proof -
  obtain s where "strstr p CRLF = Inr s" using strstr_total [OF assms] by blast
  then show ?thesis
    using parse_host_returns [OF assms] content_length_total [OF assms] assms
    by (auto simp: post_header_line_def terminated split: option.splits)
qed

lemma post_header_loop_total:
  "0 \<in> set p \<Longrightarrow> (\<exists>r. post_header_loop p h l = Inr r) \<or> post_header_loop p h l = Inl Null_Dereference"
proof (induction p h l rule: post_header_loop.induct)
  case (1 p h l)
  from post_header_line_total [OF 1(2)] consider "post_header_line p h l = Inl Null_Dereference"
    | ok q h' l' where "post_header_line p h l = Inr (ok, q, h', l')" by (metis prod_cases4)
  then show ?case
  proof cases
    case r: (2 ok q h' l')
    show ?thesis
    proof (cases ok)
      case True
      note step = post_header_step [OF 1(2) r [unfolded True [THEN eqTrueI]]]
      show ?thesis
      proof (cases "take 2 q = CRLF")
        case False
        then have blank: "strncasecmp_lit q CRLF = Inr False" using crlf_lower [OF step(1)] by simp
        show ?thesis using 1(1) [OF r refl refl refl _ blank _ step(1)] True step(2) False by auto
      qed (use step(2) in simp)
    qed (use r in \<open>simp add: post_header_loop.simps [of p]\<close>)
  qed (simp add: post_header_loop.simps [of p])
qed

lemma parse_header_total:
  assumes "0 \<in> set buf"
  shows "(\<exists>r. parse_header buf = Inr r) \<or> parse_header buf = Inl Null_Dereference"
proof -
  obtain ok p where f: "post_first_line buf = Inr (ok, p)" using post_first_line_total [OF assms] by force
  show ?thesis
  proof (cases ok)
    case True
    then have "post_first_line buf = Inr (True, p)" using f by simp
    then obtain line where l: "buf = line @ p" "post_line line"
      unfolding post_first_line_iff [OF assms] by (elim exE conjE)
    then have "0 \<in> set p" using assms post_line_0 by simp
    with post_header_loop_total [OF this] f True show ?thesis by (simp add: parse_header_def)
  qed (use f in \<open>simp add: parse_header_def\<close>)
qed

text \<open>Behind a request line with an empty line right after it the rest is taken for header lines.\<close>

lemma empty_header_crashes:
  assumes "post_line line" "0 \<notin> set tail" "no_crlf tail" "map tolower (take 5 tail) \<noteq> host_name"
    "map tolower (take 15 tail) \<noteq> content_length_name"
  shows "parse_header (line @ CRLF @ tail @ 0 # z) = Inl Null_Dereference"
proof -
  let ?q = "tail @ 0 # z"
  have zq: "0 \<in> set ?q" by simp
  have first: "post_first_line (line @ CRLF @ ?q) = Inr (True, CRLF @ ?q)"
    using post_first_line_iff [of "line @ CRLF @ ?q"] assms(1) by auto
  have "no_crlf []" by (simp add: no_crlf_def CRLF_def)
  then have "post_header ([] @ CRLF) False None"
    by (intro post_header.other_line) (simp_all add: host_name_def content_length_name_def ascii_def)
  then have h: "post_header CRLF False None" by simp
  have z: "0 \<in> set (CRLF @ ?q)" by simp
  have notcrlf: "take 2 ?q \<noteq> CRLF"
  proof
    assume "take 2 ?q = CRLF"
    then have "prefix CRLF tail" using prefix_terminated [of CRLF tail z] by simp
    with assms(3) show False by (metis no_crlf_def append_Nil prefixE)
  qed
  have "\<not> sublist CRLF tail" using assms(3) by (auto simp: no_crlf_def sublist_def)
  with strstr_sublist [OF assms(2) crlf_host_props(1), of z] have s: "strstr ?q CRLF = Inr None"
    by (auto simp: CRLF_def)
  have nm: "map tolower (take k ?q) \<noteq> lit" if "map tolower (take k tail) \<noteq> lit" "0 \<notin> set lit" for k lit
  proof
    assume a: "map tolower (take k ?q) = lit"
    have "k \<le> length tail"
    proof (rule ccontr)
      assume "\<not> k \<le> length tail"
      then have "0 \<in> set (take k ?q)" by (cases "k - length tail") auto
      with a that(2) literal_0 show False by blast
    qed
    with a that(1) show False by simp
  qed
  have names: "map tolower (take 5 ?q) \<noteq> host_name" "map tolower (take 15 ?q) \<noteq> content_length_name"
    using nm [OF assms(4)] nm [OF assms(5)] by simp_all
  have "post_header_line ?q False None = Inl Null_Dereference"
    unfolding post_header_line_def strncasecmp_iff [OF zq crlf_host_props(3)] strncasecmp_iff [OF zq literals_post(7)]
      crlf_host_props(4) literals_post(8) rbind_simps s using names by simp
  then have "post_header_loop ?q False None = Inl Null_Dereference" by (simp add: post_header_loop.simps [of ?q])
  moreover have "post_header_loop (CRLF @ ?q) False None = post_header_loop ?q False None"
    using post_header_step(2) [OF z post_header_lineI [OF h z]] notcrlf by (simp add: newer_def)
  ultimately show ?thesis using first by (simp add: parse_header_def)
qed

section \<open>Property\<close>

text \<open>C36. On a buffer with a NUL the header parser reads nothing behind it and either answers or
  dereferences a null pointer. It accepts exactly the headers of the grammar that have a Host line
  and a length of at most \<open>MAX_CONT\<close>, and then its answer is the last length that is given.\<close>

theorem parse_header_correct:
  assumes "0 \<in> set buf"
  shows "((\<exists>len. parse_header buf = Inr len) \<or> parse_header buf = Inl Null_Dereference) \<and>
    (\<forall>n. parse_header buf = Inr (Some n) \<longleftrightarrow> (\<exists>txt rest. buf = txt @ rest \<and> post_request txt n))"
  using parse_header_total [OF assms] parse_header_accepts [OF assms] by blast

end
