(* ===== verification/Post_Safety.thy ===== *)
theory Post_Safety
  imports Post_Streams Post_Grammar
begin

text \<open>
  No request makes the message server read or write outside its buffer, whatever an earlier
  connection has left in it: the byte behind the largest request stays 0, which ends every search.
  The one fault is the comparison at \<open>NULL + 2\<close>.
\<close>

section \<open>The buffer\<close>

definition buffer_ok :: "bytes \<Rightarrow> bool" where
  "buffer_ok b \<longleftrightarrow> length b = MAX_POST_HDR + MAX_CONT + 10 \<and> b ! (MAX_POST_HDR + MAX_CONT) = 0"

lemma buffer_ok_nul: "buffer_ok b \<Longrightarrow> 0 \<in> set b"
  unfolding buffer_ok_def using nth_mem [of "MAX_POST_HDR + MAX_CONT" b] by simp

lemma buffer_ok_put: "buffer_ok b \<Longrightarrow> i + length d \<le> MAX_POST_HDR + MAX_CONT \<Longrightarrow> buffer_ok (put i d b)"
  by (simp add: buffer_ok_def nth_put)

lemma buffer_ok_nul_at: "buffer_ok b \<Longrightarrow> n \<le> MAX_POST_HDR \<Longrightarrow> buffer_ok (b[n := 0])"
  by (simp add: buffer_ok_def nth_list_update MAX_CONT_def)

section \<open>The loops\<close>

definition only :: "fault set \<Rightarrow> ('a \<Rightarrow> bool) \<Rightarrow> 'a result \<Rightarrow> bool" where
  "only fs P r \<longleftrightarrow> (case r of Inl f \<Rightarrow> f \<in> fs | Inr a \<Rightarrow> P a)"

lemma only_simps [simp]: "only fs P (Inl f) = (f \<in> fs)" "only fs P (Inr a) = P a"
  by (simp_all add: only_def)

lemma only_rbind: "only fs P m \<Longrightarrow> (\<And>a. m = Inr a \<Longrightarrow> P a \<Longrightarrow> only fs Q (k a)) \<Longrightarrow> only fs Q (rbind m k)"
  by (cases m) auto

lemma only_mono: "only fs P r \<Longrightarrow> fs \<subseteq> gs \<Longrightarrow> (\<And>a. P a \<Longrightarrow> Q a) \<Longrightarrow> only gs Q r"
  by (cases r) auto

lemma sys_read_only:
  "0 < n \<Longrightarrow> only {Would_Block} (\<lambda>(res, c). case res of None \<Rightarrow> True | Some d \<Rightarrow> length d \<le> n) (sys_read n c)"
  by (auto simp: sys_read_def split: list.splits option.splits)

lemma read_loop_safe:
  assumes "buffer_ok b" "off + nat m \<le> MAX_POST_HDR + MAX_CONT" "int k \<le> max 0 m"
  shows "only {Would_Block} (\<lambda>(n, b', c'). buffer_ok b' \<and> n \<le> max 0 m) (read_loop off m k b c)"
  using assms
proof (induction off m k b c rule: read_loop.induct)
  case (1 off m k b c)
  show ?case
  proof (cases "int k < m")
    case False
    then show ?thesis using 1(2-4) by (simp add: read_loop.simps [of off])
  next
    case True
    then have pos: "0 < nat m - k" by simp
    have step: "only {Would_Block} (\<lambda>(n, b', c'). buffer_ok b' \<and> n \<le> max 0 m)
        (case res of None \<Rightarrow> Inr (-1, b, c1)
         | Some d \<Rightarrow> if d = [] then Inr (int k, b, c1)
            else if length b < off + k + length d then Inl Out_Of_Bounds
            else read_loop off m (k + length d) (put (off + k) d b) c1)"
      if r: "sys_read (nat m - k) c = Inr (res, c1)" "case res of None \<Rightarrow> True | Some d \<Rightarrow> length d \<le> nat m - k" for res c1
    proof (cases res)
      case (Some d)
      have d: "int (k + length d) \<le> m" using r(2) True by (simp add: Some)
      then have len: "\<not> length b < off + k + length d" "off + k + length d \<le> MAX_POST_HDR + MAX_CONT"
        using 1(2,3) by (auto simp: buffer_ok_def)
      show ?thesis
      proof (cases "d = []")
        case False
        have "only {Would_Block} (\<lambda>(n, b', c'). buffer_ok b' \<and> n \<le> max 0 m)
            (read_loop off m (k + length d) (put (off + k) d b) c1)"
          using 1(1) [OF True r(1) refl Some False len(1)] buffer_ok_put [OF 1(2) len(2)] 1(3) d by simp
        then show ?thesis using Some False len(1) by simp
      qed (use Some 1(2) True in simp)
    qed (use 1(2) in simp)
    show ?thesis
      unfolding read_loop.simps [of off m k] using True step
      by (auto intro!: only_rbind [OF sys_read_only [OF pos]])
  qed
qed

lemma header_read_safe:
  assumes "buffer_ok b" "k \<le> MAX_POST_HDR"
  shows "only {Would_Block} (\<lambda>(n, b', c'). buffer_ok b' \<and> n \<le> int MAX_POST_HDR) (header_read_loop MAX_POST_HDR k b c)"
  using assms
proof (induction MAX_POST_HDR k b c rule: header_read_loop.induct)
  case (1 k b c)
  show ?case
  proof (cases "k < MAX_POST_HDR")
    case False
    then have "header_read_loop MAX_POST_HDR k b c = Inr (int k, b, c)" by (simp add: header_read_loop.simps [of _ k])
    then show ?thesis using 1(2,3) by simp
  next
    case True
    then have pos: "0 < MAX_POST_HDR - k" by simp
    have step: "only {Would_Block} (\<lambda>(n, b', c'). buffer_ok b' \<and> n \<le> int MAX_POST_HDR)
        (case res of None \<Rightarrow> Inr (-1, b, c1)
         | Some d \<Rightarrow> if d = [] then Inr (int k, b, c1)
            else if length b < k + length d then Inl Out_Of_Bounds
            else rbind (strstr (put k d b) CRLFCRLF) (\<lambda>found.
              if found \<noteq> None then Inr (int (k + length d), put k d b, c1)
              else header_read_loop MAX_POST_HDR (k + length d) (put k d b) c1))"
      if r: "sys_read (MAX_POST_HDR - k) c = Inr (res, c1)"
        "case res of None \<Rightarrow> True | Some d \<Rightarrow> length d \<le> MAX_POST_HDR - k" for res c1
    proof (cases res)
      case (Some d)
      have d: "k + length d \<le> MAX_POST_HDR" using r(2) True by (simp add: Some)
      have len: "\<not> length b < k + length d" using d 1(2) by (simp add: buffer_ok_def)
      have ok: "buffer_ok (put k d b)" using d by (intro buffer_ok_put [OF 1(2)]) simp
      obtain found where f: "strstr (put k d b) CRLFCRLF = Inr found"
        using strstr_no_fault [OF buffer_ok_nul [OF ok], of CRLFCRLF] by (auto simp: CRLFCRLF_eq)
      show ?thesis
      proof (cases "d = [] \<or> found \<noteq> None")
        case True
        then show ?thesis using Some 1(2,3) len f ok d by auto
      next
        case False
        then have "d \<noteq> []" "\<not> found \<noteq> None" by simp_all
        from 1(1) [OF True r(1) refl Some this(1) len f this(2) ok d] this
        show ?thesis using Some len f by simp
      qed
    qed (use 1(2) in simp)
    show ?thesis
      unfolding header_read_loop.simps [of _ k] using True step
      by (auto intro!: only_rbind [OF sys_read_only [OF pos]])
  qed
qed

lemma write_loop_safe: "only {Would_Block} (\<lambda>r. True) (write_loop k b c)"
proof (induction k b c rule: write_loop.induct)
  case (1 k b c)
  have "only {Would_Block} (\<lambda>r. True) (sys_write (drop k b) c)"
    by (simp add: sys_write_def Let_def split: list.split)
  then show ?case
    unfolding write_loop.simps [of k] using 1 by (auto intro!: only_rbind)
qed

lemma write_all_safe: "only {Would_Block} (\<lambda>r. True) (write_all b c)"
  unfolding write_all_def by (rule write_loop_safe)

lemma send_400_safe: "only {Would_Block} (\<lambda>r. True) (send_400 c)"
  unfolding send_400_def by (rule only_rbind [OF write_all_safe]) auto

section \<open>A connection\<close>

lemma strstr_position:
  assumes "strstr p l = Inr (Some q)" "0 \<notin> set l" "l \<noteq> []" "n < length p" "p ! n = 0"
  shows "length p - length q + length l \<le> n \<and> length q \<le> length p"
  using assms
proof (induction p l arbitrary: n rule: strstr.induct)
  case (2 c p l)
  show ?case
  proof (cases "starts_with (\<lambda>c. c) (c # p) l = Inr True")
    case True
    then have q: "q = c # p" using 2(2) by simp
    have l: "take (length l) (c # p) = l" using True by (rule starts_with_take)
    have "length l \<le> n"
    proof (rule ccontr)
      assume "\<not> length l \<le> n"
      then have "l ! n = 0" using 2(6) l by (metis nth_take not_le)
      with \<open>\<not> length l \<le> n\<close> nth_mem [of n l] have "0 \<in> set l" by simp
      with 2(3) show False ..
    qed
    then show ?thesis by (simp add: q)
  next
    case False
    then have r: "starts_with (\<lambda>c. c) (c # p) l = Inr False" "c \<noteq> 0" "strstr p l = Inr (Some q)"
      using 2(2) by (auto simp: rbind_eq_Inr_iff split: if_splits)
    then obtain m where m: "n = Suc m" using 2(6) by (cases n) auto
    have "length p - length q + length l \<le> m \<and> length q \<le> length p"
      by (rule 2(1) [of False]) (use r(2,3) 2(3-6) m in simp_all)
    then show ?thesis using m by auto
  qed
qed simp

lemma parse_header_bound: "parse_header buf = Inr (Some n) \<Longrightarrow> 0 \<in> set buf \<Longrightarrow> 0 \<le> n \<and> n \<le> int MAX_CONT"
proof -
  have h: "post_header line b k \<Longrightarrow> k = Some m \<Longrightarrow> 0 \<le> m \<and> m \<le> int MAX_CONT" for line b k m
    by (induction rule: post_header.induct) (auto simp: length_value_def decimal_nonneg)
  have hs: "post_headers block hs \<Longrightarrow> given_length hs l = Some m \<Longrightarrow> l = Some m \<or> 0 \<le> m \<and> m \<le> int MAX_CONT" for block hs l m
  proof (induction arbitrary: l rule: post_headers.induct)
    case (last_post line b k)
    then show ?case using h [OF last_post(1)] by (auto simp: newer_def split: option.splits)
  next
    case (more_post line b k block hs)
    then have "newer k l = Some m \<or> 0 \<le> m \<and> m \<le> int MAX_CONT" by simp
    then show ?case using h [OF more_post(1)] by (auto simp: newer_def split: option.splits)
  qed
  assume "parse_header buf = Inr (Some n)" "0 \<in> set buf"
  then show ?thesis unfolding parse_header_accepts [OF \<open>0 \<in> set buf\<close>] post_request_def using hs [of _ _ None n] by auto
qed

lemma send_200_safe:
  assumes "nat n \<le> length body"
  shows "only {Would_Block} (\<lambda>r. True) (send_200 n body c)"
proof -
  have "memcpy_from body (nat n) = Inr (take (nat n) body)" using assms by (simp add: memcpy_from_def)
  then show ?thesis
    unfolding send_200_def Let_def by (auto intro!: only_rbind [OF write_all_safe])
qed

text \<open>Where a connection leaves the buffer, and the faults that are left.\<close>

lemma serve_safe:
  assumes "buffer_ok b"
  shows "only {Would_Block, Null_Dereference} (\<lambda>(b', c'). buffer_ok b') (serve b c)"
proof -
  have mono: "only {Would_Block} P r \<Longrightarrow> only {Would_Block, Null_Dereference} P r" for P and r :: "'a result"
    by (rule only_mono) auto
  have reject: "only {Would_Block, Null_Dereference} (\<lambda>(b', c'). buffer_ok b')
      (rbind (send_400 c1) (\<lambda>c2. Inr (b2, c2)))" if "buffer_ok b2" for b2 c1
    by (rule only_rbind [OF mono [OF send_400_safe]]) (use that in simp)
  have first: "only {Would_Block, Null_Dereference} (\<lambda>(n, b', c'). buffer_ok b' \<and> n \<le> int MAX_POST_HDR)
      (read_until_header MAX_POST_HDR b c)"
    unfolding read_until_header_def by (intro mono header_read_safe assms) simp
  show ?thesis
    unfolding serve_def
  proof (rule only_rbind [OF first], clarify)
    fix n b1 c1 assume ok: "buffer_ok b1" "n \<le> int MAX_POST_HDR"
    show "only {Would_Block, Null_Dereference} (\<lambda>(b', c'). buffer_ok b')
       (if n \<le> 0 then Inr (b1, c1)
        else if length b1 \<le> nat n then Inl Out_Of_Bounds
        else let b2 = b1[nat n := 0]
          in rbind (strstr b2 CRLFCRLF) (\<lambda>found. case found of
              None \<Rightarrow> rbind (send_400 c1) (\<lambda>c2. Inr (b2, c2))
            | Some header_end \<Rightarrow>
                let body_start = length b2 - length header_end + 4; already_read = n - int body_start
                in rbind (parse_header b2) (\<lambda>len. case len of
                    None \<Rightarrow> rbind (send_400 c1) (\<lambda>c2. Inr (b2, c2))
                  | Some content_length \<Rightarrow>
                      let to_be_read = content_length - already_read
                      in rbind (read_all (nat n) to_be_read b2 c1) (\<lambda>(m, b3, c2).
                        if m < 0 \<or> m < to_be_read then Inr (b3, c2)
                        else rbind (send_200 content_length (drop body_start b3) c2) (\<lambda>c3. Inr (b3, c3))))))"
    proof (cases "n \<le> 0")
      case False
      have len: "\<not> length b1 \<le> nat n" using ok False by (simp add: buffer_ok_def)
      define b2 where "b2 = b1[nat n := 0]"
      have b2: "buffer_ok b2" "0 \<in> set b2" "nat n < length b2" "b2 ! nat n = 0"
        using buffer_ok_nul_at [OF ok(1), of "nat n"] ok(2) len buffer_ok_nul by (simp_all add: b2_def)
      obtain found where f: "strstr b2 CRLFCRLF = Inr found"
        using strstr_no_fault [OF b2(2), of CRLFCRLF] by (auto simp: CRLFCRLF_eq)
      show ?thesis
      proof (cases found)
        case None
        then show ?thesis using False len f reject [OF b2(1)] by (simp add: b2_def [symmetric] Let_def)
      next
        case (Some header_end)
        define body_start where "body_start = length b2 - length header_end + 4"
        have pos: "body_start \<le> nat n"
        proof -
          have "length b2 - length header_end + length CRLFCRLF \<le> nat n"
            using strstr_position [OF f [unfolded Some] _ _ b2(3,4)] by (auto simp: CRLFCRLF_eq)
          moreover have "length CRLFCRLF = 4" by (simp add: CRLFCRLF_eq)
          ultimately show ?thesis unfolding body_start_def by (simp only:)
        qed
        show ?thesis
        proof (cases "parse_header b2")
          case (Inl e)
          then have "e = Null_Dereference" using parse_header_total [OF b2(2)] by auto
          then show ?thesis using False len f Some Inl by (simp add: b2_def [symmetric] Let_def)
        next
          case r: (Inr content_length)
          show ?thesis
          proof (cases content_length)
            case None
            then show ?thesis using False len f Some r reject [OF b2(1)] by (simp add: b2_def [symmetric] Let_def)
          next
            case cl: (Some k)
            have k: "0 \<le> k" "k \<le> int MAX_CONT" using parse_header_bound [OF _ b2(2)] r cl by auto
            define more where "more = k - (n - int body_start)"
            have room: "nat n + nat more \<le> MAX_POST_HDR + MAX_CONT"
              using pos k ok(2) False unfolding more_def by linarith
            have "only {Would_Block, Null_Dereference} (\<lambda>(m, b3, c2). buffer_ok b3 \<and> m \<le> max 0 more)
                (read_all (nat n) more b2 c1)"
              unfolding read_all_def by (intro mono read_loop_safe b2(1) room) simp
            moreover have "nat k \<le> length (drop body_start b3)" if "buffer_ok b3" for b3
              using that pos k ok(2) by (simp add: buffer_ok_def)
            ultimately have "only {Would_Block, Null_Dereference} (\<lambda>(b', c'). buffer_ok b')
               (rbind (read_all (nat n) more b2 c1) (\<lambda>(m, b3, c2).
                  if m < 0 \<or> m < more then Inr (b3, c2)
                  else rbind (send_200 k (drop body_start b3) c2) (\<lambda>c3. Inr (b3, c3))))"
              by (auto elim!: only_rbind intro!: only_rbind [OF mono [OF send_200_safe]])
            then show ?thesis using False len f Some r cl
              by (simp add: b2_def [symmetric] body_start_def more_def Let_def cong: if_cong)
          qed
        qed
      qed
    qed (use ok in simp)
  qed
qed

end
