(* ===== verification/Post_Echo.thy ===== *)
theory Post_Echo
  imports Post_Safety
begin

text \<open>
  A process of the message server echoes the body of every request of the grammar, whatever the
  pieces are that it arrives in.
\<close>

section \<open>Reading the header\<close>

text \<open>What is left in the buffer does not complete a part of the request to a header.\<close>

definition nothing_stale :: "bytes \<Rightarrow> bytes \<Rightarrow> bool" where
  "nothing_stale hdr b \<longleftrightarrow> (\<forall>k < length hdr. strstr (put 0 (take k hdr) b) CRLFCRLF = Inr None)"

lemma put_0: "put 0 d b = d @ drop (length d) b"
  by (simp add: put_def)

lemma nothing_stale_zero:
  assumes "0 \<notin> set hdr" "\<not> sublist CRLFCRLF (butlast hdr)" "length hdr \<le> n"
  shows "nothing_stale hdr (replicate n 0)"
  unfolding nothing_stale_def
proof (intro allI impI)
  fix k assume k: "k < length hdr"
  have "put 0 (take k hdr) (replicate n 0) = take k hdr @ 0 # replicate (n - k - 1) 0"
    using k assms(3) by (simp add: put_0 replicate_Suc [symmetric] del: replicate_Suc)
  moreover have "\<not> sublist CRLFCRLF (take k hdr)"
  proof
    assume "sublist CRLFCRLF (take k hdr)"
    moreover have "sublist (take k hdr) (butlast hdr)"
      using k by (metis butlast_conv_take take_is_prefix prefix_imp_sublist take_take min.absorb1 less_imp_le_nat nat_le_iff_add Suc_pred' less_Suc_eq_le Suc_leI gr_implies_not0 bot_nat_0.not_eq_extremum)
    ultimately show False using assms(2) sublist_order.order_trans by blast
  qed
  moreover have "0 \<notin> set (take k hdr)" using assms(1) by (meson in_set_takeD)
  ultimately show "strstr (put 0 (take k hdr) (replicate n 0)) CRLFCRLF = Inr None"
    using strstr_sublist [of "take k hdr" CRLFCRLF "replicate (n - k - 1) 0"] by (auto simp: CRLFCRLF_eq)
qed

text \<open>A header: it ends with its only empty line.\<close>

definition one_header :: "bytes \<Rightarrow> bool" where
  "one_header hdr \<longleftrightarrow> suffix CRLFCRLF hdr \<and> \<not> sublist CRLFCRLF (butlast hdr) \<and> 0 \<notin> set hdr"

lemma one_header_found:
  assumes "one_header hdr"
  shows "strstr (hdr @ r) CRLFCRLF = Inr (Some (CRLFCRLF @ r))"
proof -
  obtain h where "hdr = h @ CRLFCRLF" using assms by (auto simp: one_header_def suffix_def)
  then show ?thesis
    using strstr_found [of h CRLFCRLF r] assms by (auto simp: one_header_def CRLFCRLF_eq)
qed

lemma header_read_arrives:
  assumes "one_header hdr" "nothing_stale hdr b" "arriving ds later c" "concat ds = drop k (hdr @ body)"
    "k < length hdr" "length hdr \<le> m" "m \<le> length b" "b1 = put 0 (take k hdr) b"
  shows "\<exists>n ds' c'. header_read_loop m k b1 c = Inr (int n, put 0 (take n (hdr @ body)) b, c') \<and>
    length hdr \<le> n \<and> n \<le> m \<and> n \<le> length (hdr @ body) \<and> arriving ds' later c' \<and>
    concat ds' = drop n (hdr @ body) \<and> room c' = room c \<and> outgoing c' = outgoing c"
  using assms(3-5,8)
proof (induction "length hdr - k" arbitrary: ds k b1 c rule: less_induct)
  case less
  obtain d ds1 where ds: "ds = d # ds1" using less(3,4) by (cases ds) auto
  define ds2 where "ds2 = (if length d \<le> m - k then [] else [drop (m - k) d]) @ ds1"
  define c1 where "c1 = c\<lparr>incoming := map Some ds2 @ later\<rparr>"
  define t where "t = take (m - k) d"
  have pos: "0 < m - k" "k < m" using less(4) assms(6) by simp_all
  note r = sys_read_arriving [OF less(2) [unfolded ds] pos(1), folded ds2_def, folded c1_def, folded t_def]
  have t: "t \<noteq> []" "k + length t \<le> m" using less(2) pos by (auto simp: arriving_def ds t_def)
  have cc: "t @ concat ds2 = drop k (hdr @ body)" using r(3) less(3) by (simp only: ds)
  then have tk: "t = take (length t) (drop k (hdr @ body))" by (metis append_eq_conv_conj)
  have n: "k + length t \<le> length (hdr @ body)" using arg_cong [OF cc, of length] less(4) by simp
  have rest: "concat ds2 = drop (k + length t) (hdr @ body)"
    using cc by (metis append_eq_conv_conj drop_drop add.commute)
  have b1: "put k t b1 = put 0 (take (k + length t) (hdr @ body)) b"
  proof -
    have "put (0 + k) t (put 0 (take k hdr) b) = put 0 (take k hdr @ t) b"
      using less(4) assms(6,7) by (intro put_adjacent) simp_all
    moreover have "take k hdr @ t = take (k + length t) (hdr @ body)"
      using less(4) tk by (metis take_add take_append less_imp_le_nat diff_is_0_eq take0 append_Nil2)
    ultimately show ?thesis by (simp add: less(5))
  qed
  have fits: "\<not> length b1 < k + length t" using t(2) assms(6,7) less(4) by (simp add: less(5))
  show ?case
  proof (cases "k + length t < length hdr")
    case False
    then have "take (k + length t) (hdr @ body) = hdr @ take (k + length t - length hdr) body" by simp
    then have f: "\<exists>q. strstr (put k t b1) CRLFCRLF = Inr (Some q)"
      using one_header_found [OF assms(1)] unfolding b1 put_0 by (metis append.assoc)
    have "header_read_loop m k b1 c = Inr (int (k + length t), put 0 (take (k + length t) (hdr @ body)) b, c1)"
      using pos r(1) t(1) fits f by (auto simp: header_read_loop.simps [of m k] b1)
    then show ?thesis
      using False t(2) n r(2) rest by (intro exI [of _ "k + length t"] exI [of _ ds2] exI [of _ c1]) (simp add: c1_def)
  next
    case True
    then have tt: "take (k + length t) (hdr @ body) = take (k + length t) hdr" by simp
    have f: "strstr (put k t b1) CRLFCRLF = Inr None"
      using assms(2) True unfolding b1 tt nothing_stale_def by blast
    have "header_read_loop m k b1 c = header_read_loop m (k + length t) (put k t b1) c1"
      using pos r(1) t(1) fits f by (simp add: header_read_loop.simps [of m k])
    moreover have "length hdr - (k + length t) < length hdr - k" using t(1) less(4) by (cases t) auto
    note less(1) [OF this r(2) rest True b1 [unfolded tt]]
    ultimately show ?thesis by (simp add: c1_def)
  qed
qed

section \<open>A request of the grammar\<close>

lemma post_header_ends: "post_header line b n \<Longrightarrow> suffix CRLF line"
  by (induction rule: post_header.induct) (auto simp: suffix_def)

lemma post_headers_end: "post_headers block hs \<Longrightarrow> suffix CRLFCRLF block"
proof (induction rule: post_headers.induct)
  case (last_post line b n)
  then show ?case using post_header_ends [OF last_post] by (auto simp: suffix_def CRLFCRLF_def)
qed (auto simp: suffix_def)

lemma post_headers_0: "post_headers block hs \<Longrightarrow> 0 \<notin> set block"
  by (induction rule: post_headers.induct) (auto dest: post_header_0)

lemma post_request_header:
  assumes "post_request hdr n" "\<not> sublist CRLFCRLF (butlast hdr)"
  shows "one_header hdr"
proof -
  obtain line block hs where "hdr = line @ block" "post_line line" "post_headers block hs"
    using assms(1) unfolding post_request_def by blast
  then show ?thesis
    using assms(2) post_line_0 post_headers_0 suffix_appendI [OF post_headers_end] by (auto simp: one_header_def)
qed

lemma response_header_short: "length (response_header n) < MAX_POST_HDR" if "n \<le> int MAX_CONT"
proof -
  have "length (dec (nat n)) \<le> 8" using that by (intro length_dec) (simp_all add: MAX_CONT_def)
  then show ?thesis by (simp add: response_header_def MAX_POST_HDR_def CRLF_def)
qed

lemma snprintf_all: "length txt < n \<Longrightarrow> take (length txt) (snprintf n txt) = txt"
  by (simp add: snprintf_def)

lemma send_200_sends:
  assumes "n \<le> MAX_CONT" "n \<le> length body" "roomy (length (response_header (int n)) + n) c"
  shows "\<exists>c'. send_200 (int n) body c = Inr c' \<and> outgoing c' = outgoing c @ response_header (int n) @ take n body"
proof -
  have "length (response_header (int n)) < MAX_POST_HDR" using assms(1) by (intro response_header_short) simp
  note hdr = snprintf_all [OF this]
  obtain c1 where c1: "write_all (response_header (int n)) c = Inr (int (length (response_header (int n))), c1)"
      "outgoing c1 = outgoing c @ response_header (int n)" "roomy n c1"
    using write_all_roomy [OF assms(3)] by blast
  have "roomy (length (take n body) + 0) c1" using c1(3) assms(2) by simp
  then obtain c2 where "write_all (take n body) c1 = Inr (int (length (take n body)), c2)"
      "outgoing c2 = outgoing c1 @ take n body" using write_all_roomy by blast
  then show ?thesis using hdr c1 assms(2) by (simp add: send_200_def memcpy_from_def Let_def)
qed

lemma nul_after: "n < length b \<Longrightarrow> (put 0 d b)[length d := 0] = d @ 0 # drop (length d + 1) b" if "n = length d"
  using that by (simp add: put_0 list_update_append Cons_nth_drop_Suc [symmetric])

lemma read_all_rest:
  assumes "arriving ds later c" "concat ds = r" "off + length r \<le> length buf"
  shows "\<exists>c'. read_all off (int (length r)) buf c = Inr (int (length r), put off r buf, c') \<and> room c' = room c \<and>
    outgoing c' = outgoing c"
  using read_loop_enough [OF assms(1), of 0 "length r" off buf] assms(2,3) by (auto simp: read_all_def)

text \<open>What is done once the header has been read.\<close>

lemma serve_rejects:
  assumes "read_until_header MAX_POST_HDR b c = Inr (int n, b1, c1)" "0 < n" "n < length b1" "b1[n := 0] = b2"
  shows "strstr b2 CRLFCRLF = Inr None \<Longrightarrow> serve b c = rbind (send_400 c1) (\<lambda>c2. Inr (b2, c2))"
    and "strstr b2 CRLFCRLF = Inr (Some h) \<Longrightarrow> parse_header b2 = Inl e \<Longrightarrow> serve b c = Inl e"
    and "strstr b2 CRLFCRLF = Inr (Some h) \<Longrightarrow> parse_header b2 = Inr None \<Longrightarrow>
      serve b c = rbind (send_400 c1) (\<lambda>c2. Inr (b2, c2))"
  using assms by (simp_all add: serve_def Let_def cong: if_cong)

lemma serve_echoes:
  assumes "read_until_header MAX_POST_HDR b c = Inr (int n, b1, c1)" "0 < n" "n < length b1" "b1[n := 0] = b2"
    "strstr b2 CRLFCRLF = Inr (Some h)" "parse_header b2 = Inr (Some len)" "length b2 - length h + 4 = k"
    "len - (int n - int k) = todo"
  shows "serve b c = rbind (read_all n todo b2 c1) (\<lambda>(m, b3, c2).
      if m < 0 \<or> m < todo then Inr (b3, c2)
      else rbind (send_200 len (drop k b3) c2) (\<lambda>c3. Inr (b3, c3)))"
  unfolding serve_def assms(1) rbind_simps prod.case Let_def
  using assms(2,3) by (simp add: assms(4-6) assms(7,8) [symmetric] cong: if_cong)

text \<open>The whole connection: the header is read up to some byte of the body, then the rest.\<close>

lemma serve_request:
  assumes "buffer_ok b" "post_request hdr (int (length body))" "\<not> sublist CRLFCRLF (butlast hdr)"
    "length hdr \<le> MAX_POST_HDR" "nothing_stale hdr b" "arriving ds later c" "concat ds = hdr @ body"
    "roomy (length (response_header (int (length body))) + length body) c"
  shows "\<exists>b' c'. serve b c = Inr (b', c') \<and> outgoing c' = outgoing c @ response_header (int (length body)) @ body \<and>
    take (length hdr + length body) b' = hdr @ body"
proof -
  note one = post_request_header [OF assms(2,3)]
  have lb: "length b = MAX_POST_HDR + MAX_CONT + 10" using assms(1) by (simp add: buffer_ok_def)
  have hdr: "0 < length hdr" using one by (auto simp: one_header_def suffix_def CRLFCRLF_eq)
  have start: "put 0 (take 0 hdr) b = b" by simp
  obtain n ds' c1 where n: "header_read_loop MAX_POST_HDR 0 b c = Inr (int n, put 0 (take n (hdr @ body)) b, c1)"
    "length hdr \<le> n" "n \<le> MAX_POST_HDR" "n \<le> length (hdr @ body)" "arriving ds' later c1"
    "concat ds' = drop n (hdr @ body)" "room c1 = room c" "outgoing c1 = outgoing c"
    using header_read_arrives [OF one assms(5,6) _ hdr assms(4) _ start [symmetric], of body] assms(7) lb by auto
  define got where "got = take (n - length hdr) body"
  have tk: "take n (hdr @ body) = hdr @ got" "drop n (hdr @ body) = drop (length got) body" "n = length hdr + length got"
    using n(2,4) by (simp_all add: got_def)
  define b2 where "b2 = (put 0 (hdr @ got) b)[n := 0]"
  have b2: "b2 = hdr @ got @ 0 # drop (n + 1) b"
    using nul_after [of n "hdr @ got" b] n(3) lb tk(3) by (simp add: b2_def)
  have lb2: "length b2 = length b" using n(3) lb tk(3) by (simp add: b2_def)
  have z2: "0 \<in> set b2" by (simp add: b2)
  have found: "strstr b2 CRLFCRLF = Inr (Some (CRLFCRLF @ got @ 0 # drop (n + 1) b))"
    unfolding b2 by (rule one_header_found [OF one])
  have start: "length b2 - length (CRLFCRLF @ got @ 0 # drop (n + 1) b) + 4 = length hdr"
  proof -
    have "4 \<le> length hdr" using one by (auto simp: one_header_def suffix_def CRLFCRLF_eq)
    then show ?thesis by (simp add: b2 CRLFCRLF_eq)
  qed
  have parsed: "parse_header b2 = Inr (Some (int (length body)))"
    unfolding parse_header_accepts [OF z2] using assms(2) b2 by blast
  have cont: "length body \<le> MAX_CONT" using parse_header_bound [OF parsed z2] by simp
  define more where "more = drop (length got) body"
  have body: "body = got @ more" unfolding more_def got_def by (metis append_eq_conv_conj append_take_drop_id)
  have need: "int (length body) - (int n - int (length hdr)) = int (length more)" using tk(3) body by simp
  have cat: "concat ds' = more" using n(6) tk(2) by (simp only: more_def)
  have room_left: "n + length more \<le> length b2" using n(3) lb2 lb cont by (simp add: more_def)
  obtain c2 where c2: "read_all n (int (length more)) b2 c1 = Inr (int (length more), put n more b2, c2)"
      "room c2 = room c1" "outgoing c2 = outgoing c1"
    using read_all_rest [OF n(5) cat room_left] by blast
  have b3: "put n more b2 = hdr @ body @ drop (length more) (0 # drop (n + 1) b)"
    using tk(3) by (simp add: b2 put_def body)
  have "roomy (length (response_header (int (length body))) + length body) c2"
    using assms(8) n(7) c2(2) by (simp add: roomy_def)
  then obtain c3 where c3: "send_200 (int (length body)) (drop (length hdr) (put n more b2)) c2 = Inr c3"
      "outgoing c3 = outgoing c2 @ response_header (int (length body)) @ body"
    using send_200_sends [OF cont, of "drop (length hdr) (put n more b2)" c2] by (auto simp: b3)
  have r: "read_until_header MAX_POST_HDR b c = Inr (int n, put 0 (hdr @ got) b, c1)"
    by (simp only: read_until_header_def n(1) tk(1))
  have fits: "0 < n" "n < length (put 0 (hdr @ got) b)" using n(2,3) lb hdr tk(3) by simp_all
  have "serve b c = Inr (put n more b2, c3)"
    unfolding serve_echoes [OF r fits b2_def [symmetric] found parsed start need] c2(1) rbind_simps prod.case
    using c3(1) by simp
  moreover have "outgoing c3 = outgoing c @ response_header (int (length body)) @ body"
    using c3(2) c2(3) n(8) by simp
  moreover have "take (length hdr + length body) (put n more b2) = hdr @ body" by (simp add: b3)
  ultimately show ?thesis by blast
qed

end
