(* ===== verification/Post_Properties.thy ===== *)
theory Post_Properties
  imports Post_Echo
begin

text \<open>
  The message service as a whole: the client shows exactly the message it has sent, and the
  requests that go wrong.
\<close>

section \<open>The texts of the client and the server\<close>

lemma decimal_dec: "decimal v (dec n) = v * 10 ^ length (dec n) + int n"
proof (induction n rule: dec.induct)
  case (1 n)
  have digit: "int (unat (0x30 + of_nat k :: u8)) - 0x30 = int k" if "k < 10" for k
    using digit_byte(1) [OF that] by simp
  show ?case
  proof (cases "n < 10")
    case True
    then show ?thesis using digit [OF True] by (simp add: dec.simps [of n] decimal_def)
  next
    case False
    have "decimal v (dec n) = decimal v (dec (n div 10)) * 10 + (int (unat (0x30 + of_nat (n mod 10) :: u8)) - 0x30)"
      using False by (simp add: dec.simps [of n] decimal_def)
    also have "\<dots> = (v * 10 ^ length (dec (n div 10)) + int (n div 10)) * 10 + int (n mod 10)"
      using 1 [OF False] digit [of "n mod 10"] by simp
    also have "\<dots> = v * 10 ^ length (dec n) + int n"
    proof -
      have "n = n div 10 * 10 + n mod 10" by simp
      then have "int n = int (n div 10) * 10 + int (n mod 10)" by linarith
      then show ?thesis using False by (simp add: dec.simps [of n] algebra_simps)
    qed
    finally show ?thesis .
  qed
qed

lemma length_value_dec: "n \<le> MAX_CONT \<Longrightarrow> length_value (dec n) (int n)"
  using dec_digits by (simp add: length_value_def decimal_dec)

lemma dec_clean: "0 \<notin> set (dec n)" "13 \<notin> set (dec n)" "10 \<notin> set (dec n)"
  using dec_digits [of _ n] digit_class by blast+

lemma graph_clean: "all_graph h \<Longrightarrow> 0 \<notin> set h \<and> 13 \<notin> set h \<and> 10 \<notin> set h"
  by (auto simp: all_graph_def isgraph_def)

text \<open>No empty line in a row of lines that are not empty.\<close>

lemma skip_to_cr: "13 \<notin> set a \<Longrightarrow> sublist CRLFCRLF (a @ s) \<longleftrightarrow> sublist CRLFCRLF s"
  by (induction a) (auto simp: sublist_Cons_right CRLFCRLF_eq)

lemma skip_crlf: "hd a \<noteq> 13 \<Longrightarrow> a \<noteq> [] \<Longrightarrow> sublist CRLFCRLF (CRLF @ a @ s) \<longleftrightarrow> sublist CRLFCRLF (a @ s)"
  by (cases a) (auto simp: sublist_Cons_right CRLFCRLF_eq CRLF_def)

lemma last_empty_line:
  assumes "13 \<notin> set a"
  shows "\<not> sublist CRLFCRLF (butlast (a @ CRLFCRLF))"
proof -
  have "butlast (a @ CRLFCRLF) = a @ [13, 10, 13]" by (simp add: CRLFCRLF_eq butlast_append)
  then show ?thesis using skip_to_cr [OF assms, of "[13, 10, 13]"] by (simp add: sublist_Cons_right CRLFCRLF_eq)
qed

lemma more_lines:
  assumes "13 \<notin> set a" "b \<noteq> []" "hd b \<noteq> 13" "\<not> sublist CRLFCRLF (butlast (b @ s))" "s \<noteq> []"
  shows "\<not> sublist CRLFCRLF (butlast (a @ CRLF @ b @ s))"
proof -
  have "butlast (a @ CRLF @ b @ s) = a @ CRLF @ b @ butlast s" "butlast (b @ s) = b @ butlast s"
    using assms(5) by (simp_all add: butlast_append)
  then show ?thesis using skip_to_cr [OF assms(1)] skip_crlf [OF assms(3,2)] assms(4) by metis
qed

lemma response_one_header: "one_header (response_header n)"
proof -
  let ?l = "ascii ''Content-Length: '' @ dec (nat n)"
  have eq: "response_header n = ascii ''SIMPLE/1.0 200 OK'' @ CRLF @ ?l @ CRLFCRLF"
    by (simp add: response_header_def CRLFCRLF_def)
  have l: "13 \<notin> set ?l" "?l \<noteq> []" "hd ?l \<noteq> 13" using dec_clean by (auto simp: ascii_def)
  have "\<not> sublist CRLFCRLF (butlast (response_header n))"
    unfolding eq by (rule more_lines [OF _ l(2,3) last_empty_line [OF l(1)]]) (simp_all add: ascii_def CRLFCRLF_eq)
  moreover have "suffix CRLFCRLF (response_header n)" by (simp add: eq suffix_def)
  moreover have "0 \<notin> set (response_header n)"
    unfolding eq using dec_clean by (auto simp: ascii_def CRLF_def CRLFCRLF_eq)
  ultimately show ?thesis by (simp add: one_header_def)
qed

lemma request_header_accepted:
  assumes "all_graph host" "host \<noteq> []" "n \<le> MAX_CONT"
  shows "post_request (request_header host n) (int n)" "\<not> sublist CRLFCRLF (butlast (request_header host n))"
proof -
  let ?l1 = "POST @ [0x20] @ post_target @ [0x20] @ SIMPLE_1_0 @ [] @ CRLF"
  let ?h = "ascii ''Host:'' @ [0x20] @ host @ [] @ CRLF"
  let ?c = "ascii ''Content-Length:'' @ [0x20] @ dec n @ [] @ CRLF"
  have eq: "request_header host n = ?l1 @ ?h @ ?c @ CRLF"
    by (simp add: request_header_def POST_def post_target_def SIMPLE_1_0_def ascii_def)
  have blank: "all_blank [0x20]" "all_blank []" by (simp_all add: all_blank_def isblank_def)
  have "post_line ?l1" unfolding post_line_def using blank by blast
  moreover have h: "post_header ?h True None"
    using assms(1,2) blank by (intro post_header.host_line) (simp_all add: ascii_def tolower_def host_name_def)
  have c: "post_header ?c False (Some (int n))"
    using length_value_dec [OF assms(3)] blank
    by (intro post_header.length_line) (simp_all add: ascii_def tolower_def content_length_name_def)
  have "take 2 (?c @ CRLF) \<noteq> CRLF" by (simp add: ascii_def CRLF_def)
  from more_post [OF h last_post [OF c] this] have "post_headers (?h @ ?c @ CRLF) [(True, None), (False, Some (int n))]" by simp
  ultimately show "post_request (request_header host n) (int n)"
    unfolding post_request_def eq by (intro exI conjI) (assumption | rule refl | simp add: newer_def)+
  let ?a = "ascii ''POST message SIMPLE/1.0''" and ?b = "ascii ''Host: '' @ host" and ?d = "ascii ''Content-Length: '' @ dec n"
  have "request_header host n = ?a @ CRLF @ ?b @ CRLF @ ?d @ CRLFCRLF"
    by (simp add: request_header_def CRLFCRLF_def)
  moreover have "13 \<notin> set ?a" by (simp add: ascii_def)
  moreover have b: "13 \<notin> set ?b" "?b \<noteq> []" "hd ?b \<noteq> 13" using graph_clean [OF assms(1)] by (auto simp: ascii_def)
  moreover have d: "13 \<notin> set ?d" "?d \<noteq> []" "hd ?d \<noteq> 13" using dec_clean by (auto simp: ascii_def)
  moreover have "\<not> sublist CRLFCRLF (butlast (?b @ CRLF @ ?d @ CRLFCRLF))"
    using b(1) d last_empty_line [OF d(1)] by (intro more_lines) (simp_all add: CRLFCRLF_eq)
  ultimately show "\<not> sublist CRLFCRLF (butlast (request_header host n))"
    using more_lines [of ?a ?b "CRLF @ ?d @ CRLFCRLF"] by (simp add: CRLF_def)
qed

section \<open>The client\<close>

lemma read_all_stream:
  assumes "arriving ds (Some [] # later) c" "length (concat ds) \<le> m" "off + m \<le> length buf"
  shows "\<exists>c'. read_all off (int m) buf c = Inr (int (length (concat ds)), put off (concat ds) buf, c') \<and>
    room c' = room c \<and> outgoing c' = outgoing c"
proof (cases "length (concat ds) = m")
  case True
  then show ?thesis using read_loop_enough [OF assms(1), of 0 m off buf] assms(3) by (auto simp: read_all_def)
next
  case False
  then show ?thesis using read_loop_eof [OF assms(1), of 0 m off buf] assms(2,3) by (auto simp: read_all_def)
qed

lemma send_request_sends:
  assumes "length (request_header host (length body)) < MAX_POST_HDR"
    "roomy (length (request_header host (length body)) + length body) c"
  shows "\<exists>c'. send_request host body c = Inr (True, c') \<and> incoming c' = incoming c \<and>
    outgoing c' = outgoing c @ request_header host (length body) @ body"
proof -
  note hdr = snprintf_all [OF assms(1)]
  obtain c1 where c1: "write_all (request_header host (length body)) c = Inr (int (length (request_header host (length body))), c1)"
      "outgoing c1 = outgoing c @ request_header host (length body)" "incoming c1 = incoming c" "roomy (length body) c1"
    using write_all_roomy [OF assms(2)] by blast
  have "roomy (length body + 0) c1" using c1(4) by simp
  then obtain c2 where "write_all body c1 = Inr (int (length body), c2)" "outgoing c2 = outgoing c1 @ body" "incoming c2 = incoming c1"
    using write_all_roomy by blast
  then show ?thesis using assms(1) hdr c1 by (simp add: send_request_def Let_def)
qed

lemma show_response_body:
  assumes "buf = response_header n @ body @ 0 # z" "roomy (length body) out"
  shows "\<exists>out'. show_response (length (response_header n) + length body) buf out = Inr (True, out') \<and>
    outgoing out' = outgoing out @ body"
proof -
  have found: "strstr buf CRLFCRLF = Inr (Some (CRLFCRLF @ body @ 0 # z))"
    unfolding assms(1) by (rule one_header_found [OF response_one_header])
  have start: "length buf - length (CRLFCRLF @ body @ 0 # z) + 4 = length (response_header n)"
    by (simp add: assms(1) CRLFCRLF_eq response_header_def CRLF_def)
  have skip: "skip_blank (0x20 # 0x32 # r) = Inr (0x32 # r)" for r by (simp add: isblank_def)
  have "drop 10 buf = 0x20 # 0x32 # 0x30 # 0x30 # drop 14 buf"
    by (simp add: assms(1) response_header_def ascii_def)
  then have code: "parse_response_code buf = Inr 200"
    by (simp add: parse_response_code_def skip del: skip_blank.simps) (simp add: ascii_def)
  have "take (length body) (drop (length (response_header n)) buf) = body" by (simp add: assms(1))
  moreover have "roomy (length body + 0) out" using assms(2) by simp
  then obtain out' where "write_all body out = Inr (int (length body), out')" "outgoing out' = outgoing out @ body"
    using write_all_roomy by blast
  ultimately show ?thesis unfolding show_response_def found rbind_simps option.case Let_def start code by simp
qed

lemma sclient_shows:
  assumes "length buf = MAX_POST_HDR + MAX_CONT + 10" "arriving ins (Some [] # later) stdin_ch" "concat ins = body"
    "body \<noteq> []" "length body \<le> MAX_CONT" "length (request_header host (length body)) < MAX_POST_HDR"
    "arriving down (Some [] # later') sock" "concat down = response_header (int (length body)) @ body"
    "roomy (length (request_header host (length body)) + length body) sock" "roomy (length body) out"
  shows "\<exists>sock' out'. sclient host buf stdin_ch sock out = Inr (True, sock', out') \<and>
    outgoing sock' = outgoing sock @ request_header host (length body) @ body \<and> outgoing out' = outgoing out @ body"
proof -
  have fit: "0 + MAX_CONT \<le> length buf" using assms(1) by simp
  have len: "length (concat ins) \<le> MAX_CONT" using assms(3,5) by simp
  obtain stdin1 where r1: "read_all 0 (int MAX_CONT) buf stdin_ch = Inr (int (length body), put 0 body buf, stdin1)"
    using read_all_stream [OF assms(2) len fit] assms(3) by auto
  have body: "take (length body) (put 0 body buf) = body" by (simp add: put_0)
  obtain sock1 where w: "send_request host body sock = Inr (True, sock1)" "incoming sock1 = incoming sock"
      "outgoing sock1 = outgoing sock @ request_header host (length body) @ body"
    using send_request_sends [OF assms(6,9)] by blast
  let ?resp = "response_header (int (length body)) @ body"
  let ?b1 = "put 0 body buf"
  have lb: "length ?b1 = MAX_POST_HDR + MAX_CONT + 10" using assms(1,5) by simp
  have "arriving down (Some [] # later') sock1" using assms(7) w(2) by (simp add: arriving_def)
  moreover have short: "length ?resp < MAX_POST_HDR + MAX_CONT"
    using response_header_short [of "int (length body)"] assms(5) by simp
  ultimately obtain sock2 where r2: "read_all 0 (int (MAX_POST_HDR + MAX_CONT)) ?b1 sock1 =
      Inr (int (length ?resp), put 0 ?resp ?b1, sock2)" "outgoing sock2 = outgoing sock1"
    using read_all_stream [of down later' sock1 "MAX_POST_HDR + MAX_CONT" 0 ?b1] assms(8) lb by auto
  have "(put 0 ?resp ?b1)[length ?resp := 0] = ?resp @ 0 # drop (length ?resp + 1) ?b1"
  proof (rule nul_after)
    show "length ?resp < length ?b1" using short lb by linarith
  qed (rule refl)
  then have nul: "(put 0 ?resp ?b1)[length ?resp := 0] = response_header (int (length body)) @ body @ 0 # drop (length ?resp + 1) ?b1"
    by simp
  obtain out' where out: "show_response (length (response_header (int (length body))) + length body)
      ((put 0 ?resp ?b1)[length ?resp := 0]) out = Inr (True, out')" "outgoing out' = outgoing out @ body"
    using show_response_body [OF nul assms(10)] by blast
  have "length ?resp < length (put 0 ?resp ?b1)" "\<not> int (length (response_header (int (length body)))) + int (length body) \<le> 0"
    using short lb assms(4) by (simp, cases body, simp_all)
  then have "sclient host buf stdin_ch sock out = Inr (True, sock2, out')"
    using assms(4) out(1)
    unfolding sclient_def r1 rbind_simps prod.case nat_int body w(1) r2(1) by simp
  then show ?thesis using out(2) r2(2) w(3) by simp
qed

section \<open>What an earlier request leaves\<close>

lemma send_400_sends:
  assumes "roomy (length bad_request) c"
  shows "\<exists>c'. send_400 c = Inr c' \<and> outgoing c' = outgoing c @ bad_request"
proof -
  have "roomy (length bad_request + 0) c" using assms by simp
  then obtain c' where "write_all bad_request c = Inr (int (length bad_request), c')" "outgoing c' = outgoing c @ bad_request"
    using write_all_roomy by blast
  then show ?thesis by (simp add: send_400_def)
qed

lemma stale_header_rejects:
  assumes "buffer_ok b" "take (length hdr) b = hdr" "one_header hdr" "length hdr \<le> MAX_POST_HDR"
    "incoming c = Some d # later" "d \<noteq> []" "0 \<notin> set d" "\<not> sublist CRLFCRLF d" "length d + 4 \<le> length hdr"
    "roomy (length bad_request) c"
  shows "\<exists>b' c'. serve b c = Inr (b', c') \<and> outgoing c' = outgoing c @ bad_request"
proof -
  let ?c = "c\<lparr>incoming := later\<rparr>" and ?x = "d @ drop (length d) hdr"
  have lb: "length b = MAX_POST_HDR + MAX_CONT + 10" using assms(1) by (simp add: buffer_ok_def)
  have fits: "0 < length d" "length d < length b" "length d \<le> MAX_POST_HDR" using assms(4,6,9) lb by simp_all
  obtain h where h: "hdr = h @ CRLFCRLF" using assms(3) by (auto simp: one_header_def suffix_def)
  have "length d \<le> length h" using assms(9) h by (simp add: CRLFCRLF_eq)
  then have "?x = (d @ drop (length d) h) @ CRLFCRLF" by (simp add: h)
  then have "sublist CRLFCRLF ?x" by (metis sublist_appendI append_Nil2)
  moreover have "0 \<notin> set ?x" using assms(3,7) by (auto simp: one_header_def dest: in_set_dropD)
  ultimately have "\<exists>q. strstr (?x @ drop (length hdr) b) CRLFCRLF = Inr (Some q)"
    by (intro strstr_somewhere) (simp_all add: CRLFCRLF_eq)
  moreover have "put 0 d b = ?x @ drop (length hdr) b"
    using assms(2,9) append_take_drop_id [of "length hdr" b] by (simp add: put_0) (metis drop_append drop_all append_Nil2 diff_is_0_eq drop0 add_leD1)
  ultimately obtain q where q: "strstr (put 0 d b) CRLFCRLF = Inr (Some q)" by auto
  have read: "sys_read MAX_POST_HDR c = Inr (Some d, ?c)"
    unfolding sys_read_def assms(5) using assms(6) fits(3) by simp
  have r: "read_until_header MAX_POST_HDR b c = Inr (int (length d), put 0 d b, ?c)"
    using read assms(6) q fits(2)
    by (simp add: read_until_header_def header_read_loop.simps [of _ 0] MAX_POST_HDR_def)
  have nul: "(put 0 d b)[length d := 0] = d @ 0 # drop (length d + 1) b" by (rule nul_after [OF refl fits(2)])
  have "strstr (d @ 0 # drop (length d + 1) b) CRLFCRLF = Inr None"
    using strstr_sublist [OF assms(7), of CRLFCRLF "drop (length d + 1) b"] assms(8) by (auto simp: CRLFCRLF_eq)
  from serve_rejects(1) [OF r fits(1) _ nul this] have "serve b c = rbind (send_400 ?c)
      (\<lambda>c2. Inr (d @ 0 # drop (length d + 1) b, c2))" using fits(2) by simp
  moreover have "roomy (length bad_request) ?c" using assms(10) by (simp add: roomy_def)
  from send_400_sends [OF this] obtain c' where "send_400 ?c = Inr c'" "outgoing c' = outgoing c @ bad_request" by auto
  ultimately show ?thesis by simp
qed

section \<open>Properties\<close>




text \<open>C38. A request line with an empty line right behind it, and nothing after it that ends a line,
  makes the process of the server dereference a null pointer: the loop over the header lines
  looks for the empty line only behind a line, so it goes on behind the header.\<close>

theorem headerless_request_crashes:
  assumes "post_line line" "0 \<notin> set tail" "no_crlf tail" "map tolower (take 5 tail) \<noteq> host_name"
    "map tolower (take 15 tail) \<noteq> content_length_name" "length (line @ CRLF @ tail) \<le> MAX_POST_HDR" "buffer_ok b"
    "incoming c = Some (line @ CRLF @ tail) # later"
  shows "child_loop b (Some c # conns) = Inl Null_Dereference"
proof -
  let ?d = "line @ CRLF @ tail" and ?c = "c\<lparr>incoming := later\<rparr>"
  have d: "?d \<noteq> []" "0 < length ?d" by (simp_all add: CRLF_def)
  have lb: "length b = MAX_POST_HDR + MAX_CONT + 10" using assms(7) by (simp add: buffer_ok_def)
  have len: "length ?d < length b" using assms(6) lb by simp
  have read: "sys_read MAX_POST_HDR c = Inr (Some ?d, ?c)"
    unfolding sys_read_def assms(8) using d assms(6) by simp
  have "suffix CRLF line" using assms(1) by (auto simp: post_line_def suffix_def)
  then obtain l where l: "line @ CRLF = l @ CRLFCRLF" by (auto simp: suffix_def CRLFCRLF_def)
  have "sublist CRLFCRLF (l @ CRLFCRLF @ tail)" by (simp add: sublist_append)
  then have sub: "sublist CRLFCRLF ?d" using l by (metis append.assoc)
  have nul: "(put 0 ?d b)[length ?d := 0] = ?d @ 0 # drop (length ?d + 1) b" using len by (intro nul_after) simp_all
  have no0: "0 \<notin> set ?d" using post_line_0 [OF assms(1)] assms(2) by simp
  have found: "\<exists>h. strstr (?d @ r) CRLFCRLF = Inr (Some h)" for r
    by (rule strstr_somewhere [OF no0 sub]) (simp add: CRLFCRLF_eq)
  obtain h0 where h0: "strstr (put 0 ?d b) CRLFCRLF = Inr (Some h0)" using found by (auto simp: put_0)
  obtain h where h: "strstr ((put 0 ?d b)[length ?d := 0]) CRLFCRLF = Inr (Some h)" using found unfolding nul by blast
  have "read_until_header MAX_POST_HDR b c = Inr (int (length ?d), put 0 ?d b, ?c)"
    using read d(1) h0 len assms(6)
    by (simp add: read_until_header_def header_read_loop.simps [of _ 0] MAX_POST_HDR_def del: append_assoc)
  moreover have "parse_header ((put 0 ?d b)[length ?d := 0]) = Inl Null_Dereference"
    unfolding nul using empty_header_crashes [OF assms(1-5)] by simp
  ultimately have "serve b c = Inl Null_Dereference"
    using d(2) len h by (intro serve_rejects(2) [OF _ _ _ refl h]) simp_all
  then show ?thesis by simp
qed

text \<open>The buffer is searched for the empty line before the NUL is put behind what has been read. So
  once a process has served one request, the next client whose request arrives in two pieces, the
  first of them shorter than the old header, is answered 400, however correct its request is.\<close>

lemma split_request_rejected:
  assumes first: "buffer_ok b" "post_request hdr (int (length body))" "\<not> sublist CRLFCRLF (butlast hdr)"
    "length hdr \<le> MAX_POST_HDR" "nothing_stale hdr b" "arriving ds later c1" "concat ds = hdr @ body"
    "roomy (length (response_header (int (length body))) + length body) c1"
    and second: "incoming c2 = Some d # rest" "d \<noteq> []" "0 \<notin> set d" "\<not> sublist CRLFCRLF d" "length d + 4 \<le> length hdr"
    "roomy (length bad_request) c2"
  shows "\<exists>b' c1' c2'. child_loop b [Some c1, Some c2] = Inr (b', [c1', c2']) \<and>
    outgoing c1' = outgoing c1 @ response_header (int (length body)) @ body \<and>
    outgoing c2' = outgoing c2 @ bad_request"
proof -
  obtain b1 c1' where s1: "serve b c1 = Inr (b1, c1')"
      "outgoing c1' = outgoing c1 @ response_header (int (length body)) @ body"
      "take (length hdr + length body) b1 = hdr @ body"
    using serve_request [OF first] by blast
  have ok: "buffer_ok b1" using serve_safe [OF first(1), of c1] s1(1) by simp
  have "take (length hdr) b1 = hdr" using arg_cong [OF s1(3), of "take (length hdr)"] by simp
  from stale_header_rejects [OF ok this post_request_header [OF first(2,3)] first(4) second] obtain b2 c2' where
    "serve b1 c2 = Inr (b2, c2')" "outgoing c2' = outgoing c2 @ bad_request" by blast
  with s1(1,2) show ?thesis by simp
qed

end
