(* ===== verification/Post_Example.thy ===== *)
theory Post_Example
  imports Post_Properties
begin

text \<open>
  Concrete requests and connections for which the properties of the message service hold.
\<close>

section \<open>A request\<close>

definition ex_host :: bytes where "ex_host = ascii ''a.b''"
definition ex_body :: bytes where "ex_body = ascii ''hello''"
definition ex_header :: bytes where "ex_header = request_header ex_host (length ex_body)"
definition ex_buffer :: bytes where "ex_buffer = replicate (MAX_POST_HDR + MAX_CONT + 10) 0"

definition ex_conn :: "bytes list \<Rightarrow> channel" where
  "ex_conn ds = \<lparr>incoming = map Some ds, room = replicate 200 7, outgoing = []\<rparr>"

lemma ex_body_length: "length ex_body = 5" "ex_body \<noteq> []"
  by (simp_all add: ex_body_def ascii_def)

lemma ex_header_length: "length ex_header = 57"
  by (simp add: ex_header_def ex_host_def ex_body_length request_header_def dec.simps CRLF_def)

lemma ex_host_graph: "all_graph ex_host" "ex_host \<noteq> []"
  by (simp_all add: ex_host_def all_graph_def isgraph_def ascii_def)

lemma ex_accepted: "post_request ex_header (int (length ex_body))" "\<not> sublist CRLFCRLF (butlast ex_header)"
  using request_header_accepted [OF ex_host_graph, of "length ex_body"]
  by (simp_all add: ex_header_def ex_body_length MAX_CONT_def)

lemma ex_buffer_ok: "buffer_ok ex_buffer" "nothing_stale ex_header ex_buffer" "length ex_header \<le> MAX_POST_HDR"
proof -
  show "buffer_ok ex_buffer" by (simp add: buffer_ok_def ex_buffer_def)
  show short: "length ex_header \<le> MAX_POST_HDR" by (simp add: ex_header_length MAX_POST_HDR_def)
  show "nothing_stale ex_header ex_buffer"
    using post_request_header [OF ex_accepted] ex_accepted(2) short
    unfolding ex_buffer_def by (intro nothing_stale_zero) (simp_all add: one_header_def)
qed

lemma ex_roomy: "n \<le> 200 \<Longrightarrow> roomy n (ex_conn ds)"
  by (simp add: roomy_def ex_conn_def)

lemma ex_room: "roomy (length (response_header (int (length ex_body))) + length ex_body) (ex_conn ds)"
  by (rule ex_roomy) (simp add: ex_body_length response_header_def dec.simps CRLF_def)

lemma ex_arriving: "[] \<notin> set ds \<Longrightarrow> arriving ds [] (ex_conn ds)"
  by (simp add: arriving_def ex_conn_def)

definition ex_chunks :: "bytes list" where
  "ex_chunks = [take 20 ex_header, drop 20 ex_header @ take 2 ex_body, drop 2 ex_body]"

lemma ex_chunks: "concat ex_chunks = ex_header @ ex_body" "[] \<notin> set ex_chunks"
  using ex_header_length ex_body_length by (auto simp: ex_chunks_def)

section \<open>Witnesses\<close>

theorem parse_header_correct_witness:
  "((\<exists>len. parse_header (ex_header @ [0]) = Inr len) \<or> parse_header (ex_header @ [0]) = Inl Null_Dereference) \<and>
    (\<forall>n. parse_header (ex_header @ [0]) = Inr (Some n) \<longleftrightarrow> (\<exists>txt rest. ex_header @ [0] = txt @ rest \<and> post_request txt n))"
  by (rule parse_header_correct) simp




definition ex_line :: bytes where
  "ex_line = ascii ''POST message SIMPLE/1.0'' @ CRLF"

theorem headerless_request_crashes_witness:
  "child_loop ex_buffer [Some (ex_conn [ex_line @ CRLF])] = Inl Null_Dereference"
proof -
  have "ex_line = POST @ [0x20] @ post_target @ [0x20] @ SIMPLE_1_0 @ [] @ CRLF"
    by (simp add: ex_line_def POST_def post_target_def SIMPLE_1_0_def ascii_def)
  moreover have "all_blank [0x20]" "all_blank []" by (simp_all add: all_blank_def isblank_def)
  ultimately have "post_line ex_line" unfolding post_line_def by blast
  then show ?thesis
    using headerless_request_crashes [of ex_line "[]" ex_buffer "ex_conn [ex_line @ CRLF]" "[]" "[]"] ex_buffer_ok(1)
    by (simp add: ex_conn_def no_crlf_def host_name_def content_length_name_def ascii_def ex_line_def MAX_POST_HDR_def CRLF_def)
qed

end
