(* ===== verification/Post_Processes.thy ===== *)
theory Post_Processes
  imports Post_Server
begin

text \<open>
  The processes of \<^verbatim>\<open>hw1/sserver.c\<close>: a number of children (\<^verbatim>\<open>N_CHILD\<close>) that serve connections, and a parent that
  waits for each of them and whose signal handlers kill them all.
\<close>

section \<open>The parent\<close>

text \<open>The process numbers that \<open>fork\<close> has answered, the children that are running, whether a
  \<open>SIGCHLD\<close> is pending, and the number of \<open>waitpid\<close> calls that have returned.\<close>

record post_server =
  child_pids :: "nat list"
  running :: "nat list"
  sigchld_pending :: bool
  waited :: nat

text \<open>A child that is killed makes another \<open>SIGCHLD\<close> pending.\<close>

definition kill_all_children :: "post_server \<Rightarrow> post_server" where
  "kill_all_children s =
     (let killed = filter (\<lambda>p. p \<in> set (running s) \<and> 0 < p) (child_pids s)
      in s\<lparr>running := filter (\<lambda>p. p \<notin> set killed) (running s), sigchld_pending := sigchld_pending s \<or> killed \<noteq> []\<rparr>)"

definition sigchld_handler :: "post_server \<Rightarrow> post_server" where
  "sigchld_handler s = kill_all_children (s\<lparr>sigchld_pending := False\<rparr>)"

definition sigint_handler :: "post_server \<Rightarrow> post_server" where
  "sigint_handler s = kill_all_children s"

text \<open>After the children have been forked.\<close>

definition forked :: "nat list \<Rightarrow> post_server" where
  "forked pids = \<lparr>child_pids = pids, running = pids, sigchld_pending = False, waited = 0\<rparr>"

definition main_returns :: "post_server \<Rightarrow> bool" where
  "main_returns s \<longleftrightarrow> waited s = length (child_pids s)"

inductive parent_step :: "post_server \<Rightarrow> post_server \<Rightarrow> bool" where
  handler: "sigchld_pending s \<Longrightarrow> parent_step s (sigchld_handler s)"
| wait: "waited s < length (child_pids s) \<Longrightarrow> child_pids s ! waited s \<notin> set (running s) \<Longrightarrow>
    parent_step s (s\<lparr>waited := waited s + 1\<rparr>)"

inductive server_step :: "post_server \<Rightarrow> post_server \<Rightarrow> bool" where
  parent: "parent_step s s' \<Longrightarrow> server_step s s'"
| child_dies: "p \<in> set (running s) \<Longrightarrow> server_step s (s\<lparr>running := removeAll p (running s), sigchld_pending := True\<rparr>)"
| interrupted: "server_step s (sigint_handler s)"

section \<open>One child less is the end of all\<close>

definition children_ok :: "nat list \<Rightarrow> post_server \<Rightarrow> bool" where
  "children_ok pids s \<longleftrightarrow> child_pids s = pids \<and> set (running s) \<subseteq> set pids \<and> waited s \<le> length pids \<and>
     (set (running s) = set pids \<or> sigchld_pending s \<or> running s = [])"

lemma kill_all:
  assumes "set (running s) \<subseteq> set (child_pids s)" "\<forall>p \<in> set (child_pids s). 0 < p"
  shows "running (kill_all_children s) = []"
  using assms by (auto simp: kill_all_children_def Let_def filter_empty_conv)

lemma kill_keeps [simp]:
  "child_pids (kill_all_children s) = child_pids s" "waited (kill_all_children s) = waited s"
  by (simp_all add: kill_all_children_def Let_def)

lemma server_step_ok:
  assumes "server_step s s'" "children_ok pids s" "\<forall>p \<in> set pids. 0 < p"
  shows "children_ok pids s'"
  using assms
proof (induction rule: server_step.induct)
  case (parent s s')
  then show ?case
    by (induction rule: parent_step.induct) (auto simp: children_ok_def sigchld_handler_def kill_all)
qed (auto simp: children_ok_def sigint_handler_def kill_all)

lemma children_reachable:
  assumes "server_step\<^sup>*\<^sup>* (forked pids) s" "\<forall>p \<in> set pids. 0 < p"
  shows "children_ok pids s"
  using assms(1)
proof (induction rule: rtranclp_induct)
  case base
  show ?case by (simp add: children_ok_def forked_def)
qed (rule server_step_ok [OF _ _ assms(2)])

lemma waits_end:
  "running s = [] \<Longrightarrow> waited s \<le> length (child_pids s) \<Longrightarrow>
     \<exists>s'. parent_step\<^sup>*\<^sup>* s s' \<and> main_returns s' \<and> running s' = []"
proof (induction "length (child_pids s) - waited s" arbitrary: s)
  case 0
  then have "main_returns s" by (simp add: main_returns_def)
  with 0(2) show ?case by blast
next
  case (Suc n)
  let ?s = "s\<lparr>waited := waited s + 1\<rparr>"
  have "parent_step s ?s" using Suc(2,3) by (intro wait) simp_all
  moreover have "\<exists>s'. parent_step\<^sup>*\<^sup>* ?s s' \<and> main_returns s' \<and> running s' = []"
    using Suc(2-4) by (intro Suc(1)) simp_all
  ultimately show ?case by (meson converse_rtranclp_into_rtranclp)
qed

text \<open>Once all children have been forked, the end of any one of them, by a crash for example, is
  the end of the server: whatever has happened, the parent's signal handler and its calls of
  \<open>waitpid\<close> lead to the return of \<open>main\<close> with no child running.\<close>

lemma one_crash_ends_server:
  assumes "server_step\<^sup>*\<^sup>* (forked pids) s" "\<forall>p \<in> set pids. 0 < p" "p \<in> set pids" "p \<notin> set (running s)"
  shows "\<exists>s'. parent_step\<^sup>*\<^sup>* s s' \<and> main_returns s' \<and> running s' = []"
proof -
  have ok: "children_ok pids s" using assms(1,2) by (rule children_reachable)
  show ?thesis
  proof (cases "running s = []")
    case True
    then show ?thesis using ok by (intro waits_end) (simp_all add: children_ok_def)
  next
    case False
    then have "sigchld_pending s" using ok assms(3,4) by (auto simp: children_ok_def)
    then have "parent_step s (sigchld_handler s)" by (rule handler)
    moreover have "running (sigchld_handler s) = []"
      using ok assms(2) by (auto simp: children_ok_def sigchld_handler_def kill_all)
    then have "\<exists>s'. parent_step\<^sup>*\<^sup>* (sigchld_handler s) s' \<and> main_returns s' \<and> running s' = []"
      using ok by (intro waits_end) (simp_all add: children_ok_def sigchld_handler_def)
    ultimately show ?thesis by (meson converse_rtranclp_into_rtranclp)
  qed
qed

end
