(* ===== verification/Network_Io.thy ===== *)
theory Network_Io
  imports Mysock Channel
begin

text \<open>
  The datagram service below STCP, \<^verbatim>\<open>hw3/network_io.c\<close>, \<^verbatim>\<open>hw3/network_io_socket.c\<close> and
  \<^verbatim>\<open>hw3/network_io_tcp.c\<close>: a packet travels over a TCP connection behind its length. What the
  operating system answers is input: a channel per connected socket, descriptors for new ones.
\<close>

section \<open>State\<close>

record network_context_socket_tcp =
  recv_thread_started :: bool
  socket_fd :: int
  exit_pipe :: "int \<times> int"
  new_socket :: int
  tcp_connected :: bool

text \<open>What belongs to a mysocket: its context and what \<open>impl_data\<close> points to, which points back
  with \<open>sock_ctx\<close>.\<close>

type_synonym mysock_entry = "mysock_context \<times> network_context_socket_tcp"

text \<open>The operating system: connected sockets, what \<open>accept\<close> answers on a listening socket (the new
  socket and the peer, or an error), the sockets that are open, the answers of \<open>socket\<close> and \<open>pipe\<close>
  to come (a call without one fails), the address of the interface, the clock, and \<open>rand_r\<close>
  from the fixed seed.\<close>

record os =
  channels :: "int \<Rightarrow> channel"
  accept_answers :: "int \<Rightarrow> (int \<times> sockaddr) option list"
  open_fds :: "int list"
  fd_answers :: "int list"
  interface_ip :: u32
  now :: timespec
  seeded_randoms :: "nat \<Rightarrow> u32"

definition os_new_fd :: "os \<Rightarrow> int \<times> os" where
  "os_new_fd s =
     (case fd_answers s of
        [] \<Rightarrow> (-1, s)
      | fd # later \<Rightarrow> (fd, s\<lparr>fd_answers := later, open_fds := (if 0 \<le> fd then fd # open_fds s else open_fds s)\<rparr>))"

definition closesocket :: "int \<Rightarrow> os \<Rightarrow> os" where
  "closesocket fd s = s\<lparr>open_fds := remove1 fd (open_fds s)\<rparr>"

section \<open>Set-up and release\<close>

definition network_alloc_context_socket :: "os \<Rightarrow> (network_context_socket_tcp \<times> os) result" where
  "network_alloc_context_socket s =
     (case os_new_fd s of (fd, s1) \<Rightarrow>
     case os_new_fd s1 of (r, s2) \<Rightarrow>
     case os_new_fd s2 of (w, s3) \<Rightarrow>
       if fd < 0 then Inl Assertion_Failure
       else if r < 0 \<or> w < 0 then Inl Assertion_Failure
       else Inr (\<lparr>recv_thread_started = False, socket_fd = fd, exit_pipe = (r, w), new_socket = 0,
                  tcp_connected = False\<rparr>, s3))"

definition network_destroy_context_socket :: "network_context_socket_tcp \<Rightarrow> os \<Rightarrow> os" where
  "network_destroy_context_socket tcp s =
     (let s1 = (if 0 \<le> socket_fd tcp then closesocket (socket_fd tcp) s else s);
          s2 = (if 0 \<le> fst (exit_pipe tcp) then closesocket (fst (exit_pipe tcp)) s1 else s1)
      in if 0 \<le> snd (exit_pipe tcp) then closesocket (snd (exit_pipe tcp)) s2 else s2)"

text \<open>\<open>memset\<close> of the network context; the interface address and \<open>rand_r\<close> are the system's.\<close>

definition zero_sockaddr :: sockaddr where
  "zero_sockaddr = \<lparr>sa_family = 0, sin_addr = 0, sin_port = 0\<rparr>"

definition network_init_socket :: "os \<Rightarrow> (network_context \<times> network_context_socket_tcp \<times> os) result" where
  "network_init_socket s =
     rbind (network_alloc_context_socket s) (\<lambda>(tcp, s1).
       Inr (\<lparr>is_reliable = False, local_addr = zero_sockaddr, peer_addr = zero_sockaddr, peer_addr_len = 0,
             peer_addr_valid = False, copied = False, copy_buffer = replicate MAX_IP_PAYLOAD_LEN 0,
             local_ip = interface_ip s1, local_port = 0, randoms = seeded_randoms s1, rand_calls = 0,
             wire_out = []\<rparr>, tcp, s1))"

definition network_init :: "os \<Rightarrow> (network_context \<times> network_context_socket_tcp \<times> os) result" where
  "network_init s =
     rbind (network_init_socket s) (\<lambda>(net, tcp, s1).
       Inr (net, tcp\<lparr>new_socket := -1, tcp_connected := False\<rparr>, s1))"

definition network_close :: "network_context_socket_tcp \<Rightarrow> os \<Rightarrow> os" where
  "network_close tcp s =
     network_destroy_context_socket tcp (if new_socket tcp \<noteq> -1 then closesocket (new_socket tcp) s else s)"

definition verify_socket :: "network_context_socket_tcp \<Rightarrow> unit result" where
  "verify_socket tcp = c_assert (0 \<le> socket_fd tcp)"

text \<open>\<open>rc\<close> is what \<open>bind\<close> answers and \<open>port\<close> the port that it gives when none is asked for.\<close>

definition network_bind :: "int \<Rightarrow> u16 \<Rightarrow> sockaddr \<Rightarrow> mysock_entry \<Rightarrow> (int \<times> mysock_entry) result" where
  "network_bind rc port addr e =
     (case e of (ctx, tcp) \<Rightarrow>
       rbind (verify_socket tcp) (\<lambda>_.
         Inr (rc, if rc < 0 then ctx
              else ctx\<lparr>network_state := (network_state ctx)\<lparr>local_port :=
                if sin_port addr = 0 then port else sin_port addr\<rparr>\<rparr>, tcp)))"

definition network_get_port :: "mysock_entry \<Rightarrow> u16 result" where
  "network_get_port e =
     (case e of (ctx, tcp) \<Rightarrow> rbind (verify_socket tcp) (\<lambda>_. Inr (local_port (network_state ctx))))"

definition network_get_local_addr :: "network_context \<Rightarrow> u32 result" where
  "network_get_local_addr net =
     rbind (c_assert (peer_addr_valid net)) (\<lambda>_.
     rbind (c_assert (0 < peer_addr_len net)) (\<lambda>_.
     rbind (c_assert (sa_family (peer_addr net) = AF_INET)) (\<lambda>_. Inr (local_ip net))))"

text \<open>The new mysocket takes over the accepted socket, which has the port of the listening one.\<close>

definition network_update_passive_state ::
  "mysock_entry \<Rightarrow> mysock_entry \<Rightarrow> os \<Rightarrow> (mysock_entry \<times> mysock_entry \<times> os) result" where
  "network_update_passive_state new acceptor s =
     (case new of (ctx, tcp) \<Rightarrow> case acceptor of (actx, atcp) \<Rightarrow>
       rbind (c_assert (\<not> listening ctx)) (\<lambda>_.
       rbind (c_assert (\<not> is_active ctx)) (\<lambda>_.
         Inr ((ctx\<lparr>network_state := (network_state ctx)\<lparr>local_port := local_port (network_state actx)\<rparr>\<rparr>,
               tcp\<lparr>socket_fd := new_socket atcp, tcp_connected := True\<rparr>),
              (actx, atcp\<lparr>new_socket := -1\<rparr>), closesocket (socket_fd tcp) s))))"

section \<open>Packets over a stream\<close>

text \<open>\<open>_tcp_io\<close> with \<open>read\<close> and with \<open>write\<close>.\<close>

function tcp_read :: "nat \<Rightarrow> bytes \<Rightarrow> channel \<Rightarrow> (int \<times> bytes \<times> channel) result" where
  "tcp_read count cbuf c =
     (if length cbuf < count then
        rbind (sys_read (count - length cbuf) c) (\<lambda>(rc, c1).
          case rc of
            None \<Rightarrow> Inr (-1, cbuf, c1)
          | Some d \<Rightarrow> if d = [] then Inr (0, cbuf, c1) else tcp_read count (cbuf @ d) c1)
      else Inr (int count, cbuf, c))"
  by auto
termination
  by (relation "measure (\<lambda>(n, b, c). n - length b)") (auto dest!: sys_read_some simp: neq_Nil_conv)

declare tcp_read.simps [simp del]

function tcp_write :: "nat \<Rightarrow> bytes \<Rightarrow> channel \<Rightarrow> (int \<times> channel) result" where
  "tcp_write written src c =
     (if written < length src then
        rbind (sys_write (drop written src) c) (\<lambda>(rc, c1).
          if rc \<le> 0 then Inr (rc, c1) else tcp_write (written + nat rc) src c1)
      else Inr (int (length src), c))"
  by auto
termination
  by (relation "measure (\<lambda>(k, b, c). length b - k)") auto

declare tcp_write.simps [simp del]

text \<open>\<open>connects\<close>: whether \<open>connect\<close> succeeds.\<close>

definition tcp_connect :: "bool \<Rightarrow> mysock_entry \<Rightarrow> (int \<times> mysock_entry) result" where
  "tcp_connect connects e =
     (case e of (ctx, tcp) \<Rightarrow> let net = network_state ctx in
       if \<not> tcp_connected tcp then
         rbind (c_assert (peer_addr_valid net)) (\<lambda>_.
         rbind (c_assert (sa_family (peer_addr net) = AF_INET)) (\<lambda>_.
         rbind (c_assert (0 < sin_port (peer_addr net))) (\<lambda>_.
           if connects then Inr (0, ctx, tcp\<lparr>tcp_connected := True\<rparr>) else Inr (-1, ctx, tcp))))
       else Inr (0, e))"

text \<open>A write that takes no byte counts as done.\<close>

definition tcp_send_packet :: "bool \<Rightarrow> bytes \<Rightarrow> mysock_entry \<Rightarrow> os \<Rightarrow> (int \<times> mysock_entry \<times> os) result" where
  "tcp_send_packet connects src e s =
     rbind (c_assert (0 < peer_addr_len (network_state (fst e)))) (\<lambda>_.
     rbind (verify_socket (snd e)) (\<lambda>_.
     rbind (tcp_connect connects e) (\<lambda>(rc, e1).
       let fd = socket_fd (snd e1)
       in if rc < 0 then Inr (-1, e1, s)
       else rbind (tcp_write 0 (bytes16 (of_nat (length src))) (channels s fd)) (\<lambda>(rc1, c1).
         if rc1 < 0 then Inr (-1, e1, s\<lparr>channels := (channels s)(fd := c1)\<rparr>)
         else rbind (tcp_write 0 src c1) (\<lambda>(rc2, c2).
           Inr (if rc2 < 0 then -1 else int (length src), e1, s\<lparr>channels := (channels s)(fd := c2)\<rparr>))))))"

text \<open>A packet from a stream: its length and what of it fits, or the failed read. The rest of a longer
  packet is read into another buffer.\<close>

definition read_packet :: "nat \<Rightarrow> channel \<Rightarrow> (int \<times> bytes \<times> channel) result" where
  "read_packet max_len c =
     rbind (tcp_read 2 [] c) (\<lambda>(rc, hdr, c1).
       if rc \<le> 0 then Inr (rc, [], c1)
       else let packet_len = unat (get16 hdr 0)
         in rbind (tcp_read (min packet_len max_len) [] c1) (\<lambda>(rc, dst, c2).
              if rc \<le> 0 then Inr (rc, dst, c2)
              else if max_len < packet_len then
                rbind (tcp_read (packet_len - max_len) [] c2) (\<lambda>(_, _, c3). Inr (int packet_len, dst, c3))
              else Inr (int packet_len, dst, c2)))"

text \<open>A listening mysocket first accepts a connection, whose socket waits in \<open>new_socket\<close>.\<close>

definition network_accept :: "mysock_entry \<Rightarrow> os \<Rightarrow> (int \<times> mysock_entry \<times> os) result" where
  "network_accept e s =
     (case e of (ctx, tcp) \<Rightarrow>
       case accept_answers s (socket_fd tcp) of
         [] \<Rightarrow> Inl Would_Block
       | answer # later \<Rightarrow>
           let ctx1 = ctx\<lparr>network_state := (network_state ctx)\<lparr>peer_addr_len := 16\<rparr>\<rparr>;
               s1 = s\<lparr>accept_answers := (accept_answers s)(socket_fd tcp := later)\<rparr>
           in case answer of
                None \<Rightarrow> Inr (-1, (ctx1, tcp), s1)
              | Some (fd, peer) \<Rightarrow>
                  rbind (c_assert (new_socket tcp = -1)) (\<lambda>_.
                    Inr (fd, (ctx1\<lparr>network_state := (network_state ctx1)\<lparr>peer_addr := peer\<rparr>\<rparr>,
                              tcp\<lparr>new_socket := fd\<rparr>), s1\<lparr>open_fds := fd # open_fds s1\<rparr>)))"

definition network_recv_packet :: "bool \<Rightarrow> nat \<Rightarrow> mysock_entry \<Rightarrow> os \<Rightarrow> (int \<times> bytes \<times> mysock_entry \<times> os) result" where
  "network_recv_packet connects max_len e s =
     rbind (verify_socket (snd e)) (\<lambda>_.
     rbind (if is_active (fst e) then tcp_connect connects e else Inr (0, e)) (\<lambda>(rc, e1).
       if rc < 0 then Inr (-1, [], e1, s)
       else rbind (if listening (fst e1) then network_accept e1 s else Inr (socket_fd (snd e1), e1, s))
         (\<lambda>(io_socket, e2, s2).
            if io_socket < 0 then Inr (io_socket, [], e2, s2)
            else rbind (read_packet max_len (channels s2 io_socket)) (\<lambda>(rc, dst, c).
              Inr (rc, dst, e2, s2\<lparr>channels := (channels s2)(io_socket := c)\<rparr>)))))"

end
