(* ===== verification/Mysock_Sockets.thy ===== *)
theory Mysock_Sockets
  imports Network_Io Stcp_Handshake
begin

text \<open>
  The mysockets of a process, \<^verbatim>\<open>hw3/mysock.c\<close> and \<^verbatim>\<open>hw3/mysock_hash.h\<close>: the descriptor table with its
  contexts, the hash table of the listening mysockets, and their transport threads. A pointer
  to a context is its descriptor, since a context is used only while the table holds it.
\<close>

section \<open>State\<close>

definition MAX_NUM_CONNECTIONS :: nat where "MAX_NUM_CONNECTIONS = 64"

text \<open>A transport thread is in the handshake of \<open>transport_init\<close>, in \<open>control_loop\<close>, behind
  \<open>transport_init\<close>, or has returned.\<close>

datatype transport_thread = Handshaking hs_phase context_t | Controlling context_t | Ending | Returned

text \<open>A pointer into the array \<open>connection_queue\<close> is the array, by a number that \<open>realloc\<close> renews,
  and an index. A free slot is all zeros, but for the descriptor -1.\<close>

record connect_request =
  req_addr :: sockaddr
  req_addr_len :: int
  req_sd :: int

definition free_request :: connect_request where
  "free_request = \<lparr>req_addr = zero_sockaddr, req_addr_len = 0, req_sd = -1\<rparr>"

record listen_queue =
  queue_port :: u16
  max_len :: nat
  cur_len :: nat
  queue_array :: nat
  connection_queue :: "connect_request list"
  completed_queue :: "(nat \<times> nat) list"

text \<open>\<open>closing\<close>: the listening mysocket whose \<open>_mysock_close_passive_socket\<close> holds \<open>listen_lock\<close> for
  writing, the index in its queue that it has come to, and whether it waits there in \<open>myclose\<close>.
  \<open>receivers\<close> are the descriptors whose network thread runs.\<close>

record process =
  global_ctx :: "mysock_entry option list"
  threads :: "nat \<Rightarrow> transport_thread option"
  listen_table :: "(int \<times> listen_queue) list list"
  receivers :: "nat set"
  closing :: "(nat \<times> nat \<times> bool) option"
  next_array :: nat
  os :: os

section \<open>The hash table (\<^verbatim>\<open>mysock_hash.h\<close>)\<close>

definition hash_ndx :: "int \<Rightarrow> nat" where
  "hash_ndx key = nat (key mod int MAX_NUM_CONNECTIONS)"

text \<open>An entry is the rest of its chain.\<close>

definition hash_get_entry :: "int \<Rightarrow> (int \<times> 'a) list list \<Rightarrow> (int \<times> 'a) option" where
  "hash_get_entry key tbl = find (\<lambda>e. fst e = key) (tbl ! hash_ndx key)"

definition hash_insert :: "int \<Rightarrow> 'a \<Rightarrow> (int \<times> 'a) list list \<Rightarrow> (int \<times> 'a) list list" where
  "hash_insert key data tbl = tbl[hash_ndx key := (key, data) # tbl ! hash_ndx key]"

definition hash_lookup_ptr :: "int \<Rightarrow> (int \<times> 'a) list list \<Rightarrow> 'a option" where
  "hash_lookup_ptr key tbl = map_option snd (hash_get_entry key tbl)"

definition hash_entry_exists :: "int \<Rightarrow> (int \<times> 'a) list list \<Rightarrow> bool" where
  "hash_entry_exists key tbl = (hash_get_entry key tbl \<noteq> None)"

definition hash_lookup :: "int \<Rightarrow> (int \<times> 'a) list list \<Rightarrow> 'a result" where
  "hash_lookup key tbl =
     (case hash_get_entry key tbl of None \<Rightarrow> Inl Assertion_Failure | Some e \<Rightarrow> Inr (snd e))"

fun chain_set :: "int \<Rightarrow> 'a \<Rightarrow> (int \<times> 'a) list \<Rightarrow> (int \<times> 'a) list" where
  "chain_set key data [] = []"
| "chain_set key data (e # es) = (if fst e = key then (key, data) # es else e # chain_set key data es)"

definition hash_set_entry :: "int \<Rightarrow> 'a \<Rightarrow> (int \<times> 'a) list list \<Rightarrow> (int \<times> 'a) list list" where
  "hash_set_entry key data tbl =
     (if hash_get_entry key tbl \<noteq> None then tbl[hash_ndx key := chain_set key data (tbl ! hash_ndx key)]
      else hash_insert key data tbl)"

fun chain_delete :: "int \<Rightarrow> (int \<times> 'a) list \<Rightarrow> (int \<times> 'a) list" where
  "chain_delete key [] = []"
| "chain_delete key (e # es) = (if fst e = key then es else e # chain_delete key es)"

text \<open>The first entry is taken out; the assertion is that there was no second one.\<close>

definition hash_delete :: "int \<Rightarrow> (int \<times> 'a) list list \<Rightarrow> (int \<times> 'a) list list result" where
  "hash_delete key tbl =
     (let tbl1 = tbl[hash_ndx key := chain_delete key (tbl ! hash_ndx key)]
      in rbind (c_assert (hash_get_entry key tbl1 = None)) (\<lambda>_. Inr tbl1))"

section \<open>The descriptor table (\<^verbatim>\<open>mysock.c\<close>)\<close>

text \<open>The context that a descriptor stands for; the code asserts that there is one.\<close>

definition mysock_get_context :: "int \<Rightarrow> process \<Rightarrow> mysock_entry result" where
  "mysock_get_context sd p =
     rbind (c_assert (0 \<le> sd \<and> sd < int MAX_NUM_CONNECTIONS)) (\<lambda>_.
       case global_ctx p ! nat sd of
         None \<Rightarrow> Inl Assertion_Failure
       | Some e \<Rightarrow> rbind (c_assert (my_sd (fst e) = sd)) (\<lambda>_. Inr e))"

text \<open>Writing through the pointer to a context.\<close>

definition set_entry :: "nat \<Rightarrow> mysock_entry \<Rightarrow> process \<Rightarrow> process" where
  "set_entry k e p = p\<lparr>global_ctx := (global_ctx p)[k := Some e]\<rparr>"

definition set_os :: "os \<Rightarrow> process \<Rightarrow> process" where
  "set_os s p = p\<lparr>os := s\<rparr>"

definition mysock_allocate_context :: "os \<Rightarrow> (mysock_entry \<times> os) result" where
  "mysock_allocate_context s =
     rbind (network_init s) (\<lambda>(net, tcp, s1).
       Inr ((\<lparr>is_active = False, network_state = net, bound = False, listening = False, my_sd = 0, listen_sd = -1,
              blocking = True, stcp_errno = 0, transport_thread_started = False, close_requested = False, eof = False,
              network_recv_queue = [], app_send_queue = [], app_recv_queue = [], clock = now s1, thread_errno = 0\<rparr>,
             tcp), s1))"

text \<open>The sockets of a context go, and its place in the table is cleared; its queues go with it.\<close>

definition mysock_free_context :: "nat \<Rightarrow> process \<Rightarrow> process result" where
  "mysock_free_context k p =
     (case global_ctx p ! k of
        None \<Rightarrow> Inl Use_After_Free
      | Some e \<Rightarrow>
          let p1 = set_os (network_close (snd e) (os p)) p; sd = nat (my_sd (fst e))
          in Inr (if sd = k then p1\<lparr>global_ctx := (global_ctx p1)[sd := None]\<rparr> else p1))"

text \<open>The first free descriptor.\<close>

definition free_slot :: "'a option list \<Rightarrow> nat option" where
  "free_slot t = find (\<lambda>k. t ! k = None) [0..<length t]"

definition mysock_new_mysocket :: "bool \<Rightarrow> process \<Rightarrow> (int \<times> process) result" where
  "mysock_new_mysocket reliable p =
     rbind (mysock_allocate_context (os p)) (\<lambda>((ctx, tcp), s1).
       let ctx1 = ctx\<lparr>network_state := (network_state ctx)\<lparr>is_reliable := reliable\<rparr>\<rparr>
       in case free_slot (global_ctx p) of
            Some k \<Rightarrow> Inr (int k, set_entry k (ctx1\<lparr>my_sd := int k\<rparr>, tcp) (set_os s1 p))
          | None \<Rightarrow> Inr (-1, set_os (network_close tcp s1) p))"

text \<open>Both threads of a connection are started.\<close>

definition network_start_recv_thread :: "nat \<Rightarrow> mysock_entry \<Rightarrow> process \<Rightarrow> process" where
  "network_start_recv_thread k e p =
     (set_entry k (fst e, (snd e)\<lparr>recv_thread_started := True\<rparr>) p)\<lparr>receivers := insert k (receivers p)\<rparr>"

text \<open>The thread that is joined leaves at the exit pipe.\<close>

definition network_stop_recv_thread :: "nat \<Rightarrow> mysock_entry \<Rightarrow> process \<Rightarrow> process" where
  "network_stop_recv_thread k e p =
     (if recv_thread_started (snd e)
      then (set_entry k (fst e, (snd e)\<lparr>recv_thread_started := False\<rparr>) p)\<lparr>receivers := receivers p - {k}\<rparr> else p)"

definition mysock_transport_init :: "int \<Rightarrow> bool \<Rightarrow> process \<Rightarrow> process result" where
  "mysock_transport_init sd active p =
     rbind (mysock_get_context sd p) (\<lambda>(ctx, tcp).
     rbind (c_assert (\<not> listening ctx)) (\<lambda>_.
       case transport_start active (ctx\<lparr>is_active := active, transport_thread_started := True\<rparr>) of (ph, ctx1, c) \<Rightarrow>
         Inr ((network_start_recv_thread (nat sd) (ctx1, tcp) p)
                \<lparr>threads := (threads p)(nat sd := Some (Handshaking ph c))\<rparr>)))"

text \<open>The end of the wait in \<open>myconnect\<close>: the value returned and \<open>errno\<close>.\<close>

definition mysock_wait_for_connection :: "mysock_context \<Rightarrow> (int \<times> int) result" where
  "mysock_wait_for_connection ctx =
     (if blocking ctx then Inl Would_Block
      else Inr (if stcp_errno ctx \<noteq> 0 then -1 else 0, stcp_errno ctx))"

definition mysock_bind_ephemeral :: "int \<Rightarrow> u16 \<Rightarrow> mysock_entry \<Rightarrow> mysock_entry result" where
  "mysock_bind_ephemeral rc port e =
     rbind (c_assert (\<not> bound (fst e))) (\<lambda>_.
     rbind (network_bind rc port (zero_sockaddr\<lparr>sa_family := AF_INET\<rparr>) e) (\<lambda>(res, (ctx, tcp)).
       if res < 0 then Inl Assertion_Failure else Inr (ctx\<lparr>bound := True\<rparr>, tcp)))"

end
