(* ===== verification/Mysock_Demux.thy ===== *)
theory Mysock_Demux
  imports Mysock_Sockets
begin

text \<open>
  Connection requests on listening mysockets, \<^verbatim>\<open>hw3/connection_demux.c\<close>: a SYN takes a slot
  of the queue of its mysocket and starts a connection, the connection joins the completed ones when its
  transport says so, and \<open>myaccept\<close> takes the first of these. \<open>listen_lock\<close> is held by a reader during
  one operation only (a waiting \<open>myaccept\<close> keeps it, which only delays the calls that write), but a
  closing mysocket holds it for writing from operation to operation.
\<close>

section \<open>The queue of a mysocket\<close>

definition get_connection_queue :: "mysock_context \<Rightarrow> process \<Rightarrow> listen_queue option result" where
  "get_connection_queue ctx p =
     rbind (c_assert (listening ctx \<and> bound ctx)) (\<lambda>_. Inr (hash_lookup_ptr (my_sd ctx) (listen_table p)))"

text \<open>Writing through the pointer to a queue, and the lock.\<close>

definition set_queue :: "int \<Rightarrow> listen_queue \<Rightarrow> process \<Rightarrow> process" where
  "set_queue key q p = p\<lparr>listen_table := hash_set_entry key q (listen_table p)\<rparr>"

definition listen_lock_free :: "process \<Rightarrow> unit result" where
  "listen_lock_free p = (if closing p = None then Inr () else Inl Would_Block)"

section \<open>Accepting\<close>

text \<open>The descriptor of the first completed connection, whose slot becomes free.\<close>

definition mysock_dequeue_connection :: "mysock_context \<Rightarrow> process \<Rightarrow> (int \<times> process) result" where
  "mysock_dequeue_connection accept_ctx p =
     rbind (c_assert (listening accept_ctx \<and> bound accept_ctx)) (\<lambda>_.
     rbind (listen_lock_free p) (\<lambda>_.
     rbind (get_connection_queue accept_ctx p) (\<lambda>found.
       case found of
         None \<Rightarrow> Inl Assertion_Failure
       | Some q \<Rightarrow>
          (case completed_queue q of
             [] \<Rightarrow> Inl Would_Block
           | (array, k) # later \<Rightarrow>
               if array \<noteq> queue_array q then Inl Use_After_Free
               else if length (connection_queue q) \<le> k then Inl Out_Of_Bounds
               else let sd = req_sd (connection_queue q ! k) in
                 rbind (mysock_get_context sd p) (\<lambda>_.
                 rbind (c_assert (0 < cur_len q)) (\<lambda>_.
                   Inr (sd, set_queue (my_sd accept_ctx)
                     (q\<lparr>completed_queue := later, connection_queue := (connection_queue q)[k := free_request],
                        cur_len := cur_len q - 1\<rparr>) p)))))))"

section \<open>Requests\<close>

text \<open>What \<open>memcmp\<close> sees of an address.\<close>

definition sockaddr_bytes :: "sockaddr \<Rightarrow> bytes" where
  "sockaddr_bytes a = rev (bytes16 (word_of_int (sa_family a))) @ bytes16 (sin_port a) @ bytes32 (sin_addr a) @ replicate 8 0"

text \<open>The search stops at the first equal address; the assertion is made at each slot up to there.\<close>

fun find_retransmission :: "sockaddr \<Rightarrow> int \<Rightarrow> connect_request list \<Rightarrow> bool result" where
  "find_retransmission peer len [] = Inr False"
| "find_retransmission peer len (r # rs) =
     rbind (c_assert (req_sd r = -1 \<or> len = req_addr_len r)) (\<lambda>_.
       if take (nat len) (sockaddr_bytes (req_addr r)) = take (nat len) (sockaddr_bytes peer) then Inr True
       else find_retransmission peer len rs)"

definition find_free_request :: "listen_queue \<Rightarrow> nat option" where
  "find_free_request q = find (\<lambda>k. req_sd (connection_queue q ! k) < 0) [0..<max_len q]"

text \<open>A new connection in slot \<open>k\<close>: its mysocket takes over the peer and the accepted socket, its transport
  starts on the passive side, and the SYN is its first packet.\<close>

definition establish :: "nat \<Rightarrow> nat \<Rightarrow> bytes \<Rightarrow> sockaddr \<Rightarrow> int \<Rightarrow> listen_queue \<Rightarrow> process \<Rightarrow> (bool \<times> process) result" where
  "establish l k packet peer len q p =
     rbind (mysock_get_context (int l) p) (\<lambda>acceptor.
     rbind (mysock_new_mysocket (is_reliable (network_state (fst acceptor))) p) (\<lambda>(sd, p1).
       if sd < 0 then
         Inr (False, set_queue (int l) (q\<lparr>connection_queue := (connection_queue q)[k := free_request],
           cur_len := cur_len q - 1\<rparr>) p1)
       else
         rbind (mysock_get_context sd p1) (\<lambda>(ctx, tcp).
           let ctx1 = ctx\<lparr>listen_sd := my_sd (fst acceptor), network_state :=
                 (network_state ctx)\<lparr>peer_addr := peer, peer_addr_len := nat len, peer_addr_valid := True\<rparr>\<rparr>;
               q1 = q\<lparr>connection_queue := (connection_queue q)
                 [k := \<lparr>req_addr = peer, req_addr_len = len, req_sd = sd\<rparr>]\<rparr>
           in rbind (network_update_passive_state (ctx1, tcp) acceptor (os p1)) (\<lambda>(new, acceptor1, s).
              let p2 = set_os s (set_entry l acceptor1 (set_entry (nat sd) new (set_queue (int l) q1 p1)))
              in rbind (mysock_transport_init sd False p2) (\<lambda>p3.
                 rbind (mysock_get_context sd p3) (\<lambda>(ctx3, tcp3).
                   Inr (True, set_entry (nat sd) (ctx3\<lparr>network_recv_queue :=
                     mysock_enqueue_buffer (network_recv_queue ctx3) packet\<rparr>, tcp3) p3)))))))"

definition mysock_enqueue_connection :: "nat \<Rightarrow> bytes \<Rightarrow> sockaddr \<Rightarrow> int \<Rightarrow> process \<Rightarrow> (bool \<times> process) result" where
  "mysock_enqueue_connection l packet peer len p =
     rbind (mysock_get_context (int l) p) (\<lambda>(ctx, tcp).
     rbind (c_assert (listening ctx \<and> bound ctx)) (\<lambda>_.
     rbind (c_assert (0 < len)) (\<lambda>_.
     rbind (listen_lock_free p) (\<lambda>_.
       if length packet < STCP_HEADER_LEN \<or> pkt_flags packet AND TH_SYN = 0 then Inr (False, p)
       else rbind (get_connection_queue ctx p) (\<lambda>found.
         case found of
           None \<Rightarrow> Inr (False, p)
         | Some q \<Rightarrow>
             if length (connection_queue q) < max_len q then Inl Out_Of_Bounds
             else rbind (find_retransmission peer len (take (max_len q) (connection_queue q))) (\<lambda>again.
               if again then Inr (False, p)
               else if cur_len q < max_len q then
                 (case find_free_request q of
                    None \<Rightarrow> Inl Assertion_Failure
                  | Some k \<Rightarrow>
                      rbind (c_assert (req_sd (connection_queue q ! k) = -1)) (\<lambda>_.
                        establish l k packet peer len (q\<lparr>cur_len := cur_len q + 1\<rparr>) p))
               else Inr (False, p)))))))"

text \<open>Called by the transport thread of \<open>ctx\<close> when its connection is set up or has failed.\<close>

definition mysock_passive_connection_complete :: "mysock_context \<Rightarrow> process \<Rightarrow> process result" where
  "mysock_passive_connection_complete ctx p =
     rbind (listen_lock_free p) (\<lambda>_.
     rbind (c_assert (0 \<le> listen_sd ctx)) (\<lambda>_.
     rbind (mysock_get_context (listen_sd ctx) p) (\<lambda>(listen_ctx, _).
     rbind (get_connection_queue listen_ctx p) (\<lambda>found.
       case found of
         None \<Rightarrow> Inr p
       | Some q \<Rightarrow>
           if length (connection_queue q) < max_len q then Inl Out_Of_Bounds
           else case find (\<lambda>k. req_sd (connection_queue q ! k) = my_sd ctx) [0..<max_len q] of
             None \<Rightarrow> Inl Assertion_Failure
           | Some k \<Rightarrow>
               Inr (set_queue (my_sd listen_ctx) (q\<lparr>completed_queue := completed_queue q @ [(queue_array q, k)]\<rparr>) p)))))"

section \<open>Listening\<close>

text \<open>A larger array is a new one: pointers into the old one dangle.\<close>

definition mysock_set_backlog :: "nat \<Rightarrow> u32 \<Rightarrow> process \<Rightarrow> process result" where
  "mysock_set_backlog l backlog p =
     rbind (mysock_get_context (int l) p) (\<lambda>e.
     rbind (c_assert (listening (fst e) \<and> bound (fst e))) (\<lambda>_.
     rbind (network_get_port e) (\<lambda>port.
     rbind (c_assert (0 < port)) (\<lambda>_.
     rbind (listen_lock_free p) (\<lambda>_.
     rbind (get_connection_queue (fst e) p) (\<lambda>found.
       let n = unat (backlog + 1);
           q = (case found of
                  None \<Rightarrow> \<lparr>queue_port = port, max_len = 0, cur_len = 0, queue_array = 0, connection_queue = [],
                           completed_queue = []\<rparr>
                | Some q \<Rightarrow> q)
       in rbind (c_assert (queue_port q = port)) (\<lambda>_.
            let q1 = (if max_len q < n
                  then q\<lparr>queue_array := next_array p, connection_queue :=
                    take (max_len q) (connection_queue q) @ replicate (n - max_len q) free_request\<rparr> else q)
            in Inr (set_queue (int l) (q1\<lparr>max_len := n\<rparr>) (p\<lparr>next_array := next_array p + 1\<rparr>)))))))))"

end
