(* ===== verification/Mysock_Api.thy ===== *)
theory Mysock_Api
  imports Mysock_Demux
begin

text \<open>
  The calls of an application (\<^verbatim>\<open>hw3/mysock_api.c\<close>) and the two threads of a mysocket: the one that
  reads packets (\<open>network_recv_thread_func\<close>) and the one that runs the transport
  (\<open>transport_thread_func\<close>). A call that waits is cut there. Calls answer a value and \<open>errno\<close>.
\<close>

definition EBADF :: int where "EBADF = 9"
definition EINVAL :: int where "EINVAL = 22"
definition EADDRNOTAVAIL :: int where "EADDRNOTAVAIL = 99"
definition EISCONN :: int where "EISCONN = 106"
definition ENOTCONN :: int where "ENOTCONN = 107"

section \<open>Set-up\<close>

definition mysocket :: "bool \<Rightarrow> process \<Rightarrow> (int \<times> process) result" where
  "mysocket reliable p = mysock_new_mysocket reliable p"

text \<open>\<open>rc\<close> and \<open>port\<close> are the answers of \<open>bind\<close>.\<close>

definition mybind :: "int \<Rightarrow> u16 \<Rightarrow> int \<Rightarrow> sockaddr \<Rightarrow> process \<Rightarrow> (int \<times> int \<times> process) result" where
  "mybind rc port sd addr p =
     rbind (mysock_get_context sd p) (\<lambda>(ctx, tcp).
       if sa_family addr \<noteq> AF_INET then Inr (-1, EADDRNOTAVAIL, p)
       else rbind (c_assert (\<not> listening ctx)) (\<lambda>_.
         rbind (network_bind rc port addr
             (ctx\<lparr>bound := True, network_state := (network_state ctx)\<lparr>local_addr := addr\<rparr>\<rparr>, tcp)) (\<lambda>(r, e).
           Inr (r, 0, set_entry (nat sd) e p))))"

text \<open>\<open>myconnect\<close> up to its wait (none: an error was returned).\<close>

definition myconnect_start ::
  "int \<Rightarrow> u16 \<Rightarrow> int \<Rightarrow> sockaddr \<Rightarrow> nat \<Rightarrow> process \<Rightarrow> (int option \<times> process) result" where
  "myconnect_start rc port sd name namelen p =
     rbind (mysock_get_context sd p) (\<lambda>(ctx, tcp).
       if peer_addr_len (network_state ctx) \<noteq> 0 then Inr (Some EISCONN, p)
       else
         let ctx1 = ctx\<lparr>network_state := (network_state ctx)
               \<lparr>peer_addr := name, peer_addr_len := namelen, peer_addr_valid := True\<rparr>\<rparr>
         in rbind (if bound ctx1 then Inr (ctx1, tcp) else mysock_bind_ephemeral rc port (ctx1, tcp)) (\<lambda>e.
            rbind (mysock_transport_init sd True (set_entry (nat sd) e p)) (\<lambda>p1. Inr (None, p1))))"

definition myconnect_wait :: "int \<Rightarrow> process \<Rightarrow> (int \<times> int) result" where
  "myconnect_wait sd p = rbind (mysock_get_context sd p) (\<lambda>e. mysock_wait_for_connection (fst e))"

text \<open>\<open>rc\<close> is what \<open>listen\<close> answers.\<close>

definition mylisten :: "int \<Rightarrow> int \<Rightarrow> u32 \<Rightarrow> process \<Rightarrow> (int \<times> process) result" where
  "mylisten rc sd backlog p =
     rbind (mysock_get_context sd p) (\<lambda>(ctx, tcp).
     rbind (c_assert (bound ctx)) (\<lambda>_.
     rbind (mysock_set_backlog (nat sd) backlog (set_entry (nat sd) (ctx\<lparr>listening := True\<rparr>, tcp) p)) (\<lambda>p1.
     rbind (verify_socket tcp) (\<lambda>_.
       if rc < 0 then Inr (-1, p1)
       else rbind (mysock_get_context sd p1) (\<lambda>e. Inr (0, network_start_recv_thread (nat sd) e p1))))))"

section \<open>Accepting\<close>

text \<open>The value, \<open>errno\<close>, and the address of the peer when the connection was set up.\<close>

definition myaccept :: "int \<Rightarrow> process \<Rightarrow> (int \<times> int \<times> sockaddr option \<times> process) result" where
  "myaccept sd p =
     rbind (mysock_get_context sd p) (\<lambda>(accept_ctx, _).
       if \<not> listening accept_ctx then Inr (-1, EINVAL, None, p)
       else rbind (mysock_dequeue_connection accept_ctx p) (\<lambda>(new, p1).
         rbind (mysock_get_context new p1) (\<lambda>(ctx, _).
         let err = stcp_errno ctx; net = network_state ctx in
         rbind (if err = 0 then c_assert (0 < peer_addr_len net) else Inr ()) (\<lambda>_.
         rbind (c_assert (listen_sd ctx = sd)) (\<lambda>_.
           Inr (if err \<noteq> 0 then -1 else my_sd ctx, err, if err = 0 then Some (peer_addr net) else None, p1))))))"

section \<open>Data\<close>

definition mywrite :: "int \<Rightarrow> bytes \<Rightarrow> process \<Rightarrow> (int \<times> int \<times> process) result" where
  "mywrite sd buf p =
     rbind (mysock_get_context sd p) (\<lambda>(ctx, tcp).
       if listening ctx then Inr (-1, EINVAL, p)
       else rbind (c_assert (\<not> close_requested ctx)) (\<lambda>_.
         Inr (int (length buf), 0, set_entry (nat sd)
           (ctx\<lparr>app_recv_queue := mysock_enqueue_buffer (app_recv_queue ctx) buf\<rparr>, tcp) p)))"

definition myread :: "int \<Rightarrow> nat \<Rightarrow> process \<Rightarrow> (int \<times> int \<times> bytes \<times> process) result" where
  "myread sd buf_len p =
     rbind (mysock_get_context sd p) (\<lambda>(ctx, tcp).
       if listening ctx then Inr (-1, EINVAL, [], p)
       else rbind (c_assert (\<not> close_requested ctx)) (\<lambda>_.
         if eof ctx then Inr (0, 0, [], p)
         else rbind (mysock_dequeue_buffer (app_send_queue ctx) buf_len True) (\<lambda>(len, dst, pq).
           Inr (int len, 0, dst, set_entry (nat sd)
             (ctx\<lparr>app_send_queue := pq, eof := (eof ctx \<or> len = 0)\<rparr>, tcp) p))))"

section \<open>Names\<close>

definition mygetsockname :: "int \<Rightarrow> process \<Rightarrow> (int \<times> sockaddr) result" where
  "mygetsockname sd p =
     rbind (mysock_get_context sd p) (\<lambda>e.
     let net = network_state (fst e) in
     rbind (c_assert (sa_family (local_addr net) = 0 \<or> sa_family (local_addr net) = AF_INET)) (\<lambda>_.
     rbind (network_get_port e) (\<lambda>port.
     let addr = (local_addr net)\<lparr>sa_family := AF_INET, sin_port := port\<rparr> in
     rbind (if peer_addr_valid net then network_get_local_addr net else Inr (sin_addr addr)) (\<lambda>ip.
       Inr (0, addr\<lparr>sin_addr := ip\<rparr>)))))"

text \<open>The bytes that are copied to \<open>name\<close>, and \<open>namelen\<close> afterwards.\<close>

definition mygetpeername :: "int \<Rightarrow> nat \<Rightarrow> process \<Rightarrow> (int \<times> int \<times> bytes \<times> nat) result" where
  "mygetpeername sd namelen p =
     rbind (mysock_get_context sd p) (\<lambda>e.
     let net = network_state (fst e); len = peer_addr_len net;
         name = take (min namelen len) (sockaddr_bytes (peer_addr net))
     in if length (sockaddr_bytes (peer_addr net)) < min namelen len then Inl Out_Of_Bounds
        else if 0 < len then Inr (0, 0, name, len) else Inr (-1, ENOTCONN, name, len))"

definition mylocalip :: "u32 \<Rightarrow> process \<Rightarrow> u32" where
  "mylocalip peer p = interface_ip (os p)"

section \<open>Closing\<close>

text \<open>\<open>myclose\<close> up to the wait for the transport thread.\<close>

definition myclose_request :: "int \<Rightarrow> process \<Rightarrow> process result" where
  "myclose_request sd p =
     rbind (mysock_get_context sd p) (\<lambda>(ctx, tcp).
       Inr (set_entry (nat sd) (ctx\<lparr>close_requested := True\<rparr>, tcp) p))"

text \<open>From there to the test for a listening mysocket.\<close>

definition myclose_join :: "int \<Rightarrow> process \<Rightarrow> process result" where
  "myclose_join sd p =
     rbind (mysock_get_context sd p) (\<lambda>(ctx, tcp).
     rbind (if transport_thread_started ctx then
              rbind (c_assert (\<not> listening ctx)) (\<lambda>_.
              rbind (c_assert (is_active ctx \<or> listen_sd ctx \<noteq> -1)) (\<lambda>_.
                if threads p (nat sd) = Some Returned
                then Inr ((set_entry (nat sd) (ctx\<lparr>transport_thread_started := False\<rparr>, tcp) p)
                            \<lparr>threads := (threads p)(nat sd := None)\<rparr>)
                else Inl Would_Block))
            else Inr p) (\<lambda>p1.
     rbind (mysock_get_context sd p1) (\<lambda>e. Inr (network_stop_recv_thread (nat sd) e p1))))"

text \<open>The rest, for a mysocket that does not listen, and the rest up to the loop over the queue for one
  that does.\<close>

definition myclose_finish :: "int \<Rightarrow> process \<Rightarrow> process result" where
  "myclose_finish sd p =
     rbind (myclose_join sd p) (\<lambda>p1.
     rbind (mysock_get_context sd p1) (\<lambda>(ctx, _).
       if listening ctx then
         rbind (c_assert (bound ctx)) (\<lambda>_.
         rbind (listen_lock_free p1) (\<lambda>_.
         rbind (get_connection_queue ctx p1) (\<lambda>found.
           case found of
             None \<Rightarrow> mysock_free_context (nat sd) p1
           | Some q \<Rightarrow> Inr (p1\<lparr>closing := Some (nat sd, 0, False)\<rparr>))))
       else mysock_free_context (nat sd) p1))"

text \<open>\<open>_mysock_close_passive_socket\<close> with \<open>listen_lock\<close> held: \<open>myclose\<close> of the connection in slot
  \<open>k\<close>, its end, or the next slot; behind the last slot the queue goes, and the mysocket with it.\<close>

definition mysock_close_passive_socket :: "process \<Rightarrow> process result" where
  "mysock_close_passive_socket p =
     (case closing p of
        None \<Rightarrow> Inl Would_Block
      | Some (l, k, waiting) \<Rightarrow>
          rbind (hash_lookup (int l) (listen_table p)) (\<lambda>q.
            if max_len q \<le> k then
              rbind (hash_delete (int l) (listen_table p)) (\<lambda>tbl.
                mysock_free_context l (p\<lparr>listen_table := tbl, closing := None\<rparr>))
            else if length (connection_queue q) \<le> k then Inl Out_Of_Bounds
            else let sd = req_sd (connection_queue q ! k) in
              if sd = -1 then Inr (p\<lparr>closing := Some (l, k + 1, False)\<rparr>)
              else if waiting then
                rbind (myclose_finish sd p) (\<lambda>p1. Inr (p1\<lparr>closing := Some (l, k + 1, False)\<rparr>))
              else rbind (myclose_request sd p) (\<lambda>p1. Inr (p1\<lparr>closing := Some (l, k, True)\<rparr>))))"

section \<open>The network thread\<close>

text \<open>What happens after \<open>poll\<close> has found the socket ready.\<close>

definition network_recv_thread :: "bool \<Rightarrow> nat \<Rightarrow> process \<Rightarrow> process result" where
  "network_recv_thread connects k p =
     (case global_ctx p ! k of
        None \<Rightarrow> Inl Use_After_Free
      | Some e \<Rightarrow>
          rbind (network_recv_packet connects MAX_IP_PAYLOAD_LEN e (os p)) (\<lambda>(rc, packet, e1, s).
            let p1 = set_os s (set_entry k e1 p); net = network_state (fst e1)
            in if rc \<le> 0 then Inr (p1\<lparr>receivers := receivers p1 - {k}\<rparr>)
               else rbind (c_assert (rc \<le> int MAX_IP_PAYLOAD_LEN)) (\<lambda>_.
                 if listening (fst e1) then
                   rbind (mysock_enqueue_connection k packet (peer_addr net) (int (peer_addr_len net)) p1)
                     (\<lambda>(_, p2). Inr p2)
                 else Inr (set_entry k ((fst e1)\<lparr>network_recv_queue :=
                        mysock_enqueue_buffer (network_recv_queue (fst e1)) packet\<rparr>, snd e1) p1))))"

section \<open>The transport thread\<close>

text \<open>\<open>stcp_unblock_application\<close> moves a passive connection to the completed ones.\<close>

definition unblocked :: "nat \<Rightarrow> mysock_context \<Rightarrow> network_context_socket_tcp \<Rightarrow> process \<Rightarrow> process result" where
  "unblocked k ctx tcp p =
     (if \<not> is_active ctx then mysock_passive_connection_complete ctx (set_entry k (ctx, tcp) p)
      else Inr (set_entry k (ctx, tcp) p))"

definition transport_thread_end :: "nat \<Rightarrow> mysock_entry \<Rightarrow> process \<Rightarrow> process result" where
  "transport_thread_end k e p =
     (case e of (ctx, tcp) \<Rightarrow>
       rbind (if blocking ctx then
                rbind (stcp_unblock_application
                    (if thread_errno ctx = 0 \<or> thread_errno ctx = EINTR
                     then ctx\<lparr>thread_errno := if is_active ctx then ECONNREFUSED else ECONNABORTED\<rparr> else ctx))
                  (\<lambda>ctx1. unblocked k ctx1 tcp p)
              else Inr p) (\<lambda>p1.
         case global_ctx p1 ! k of
           None \<Rightarrow> Inl Use_After_Free
         | Some (ctx2, tcp2) \<Rightarrow>
             Inr ((set_entry k (ctx2\<lparr>app_send_queue := mysock_enqueue_buffer (app_send_queue ctx2) []\<rparr>, tcp2) p1)
                    \<lparr>threads := (threads p1)(k := Some Returned)\<rparr>)))"

text \<open>One step of the thread of mysocket \<open>k\<close>, between two points where others may act.\<close>

definition transport_thread_func :: "nat \<Rightarrow> process \<Rightarrow> process result" where
  "transport_thread_func k p =
     (case global_ctx p ! k of
        None \<Rightarrow> Inl Use_After_Free
      | Some (ctx, tcp) \<Rightarrow>
          (case threads p k of
             None \<Rightarrow> Inl Would_Block
           | Some Returned \<Rightarrow> Inl Would_Block
           | Some Ending \<Rightarrow> transport_thread_end k (ctx, tcp) p
           | Some (Handshaking ph c) \<Rightarrow>
               if ph = Handshake_Done \<or> ph = Handshake_Failed then
                 rbind (transport_connected (ph, ctx, c)) (\<lambda>(ctx1, connection).
                 rbind (unblocked k ctx1 tcp p) (\<lambda>p1.
                   Inr (p1\<lparr>threads := (threads p1)(k :=
                     Some (case connection of None \<Rightarrow> Ending | Some c1 \<Rightarrow> Controlling c1))\<rparr>)))
               else rbind (handshake_step (ph, ctx, c)) (\<lambda>(ph1, ctx1, c1).
                 Inr ((set_entry k (ctx1, tcp) p)\<lparr>threads := (threads p)(k := Some (Handshaking ph1 c1))\<rparr>))
           | Some (Controlling c) \<Rightarrow>
               if ctx_done c then Inr (p\<lparr>threads := (threads p)(k := Some Ending)\<rparr>)
               else rbind (control_iteration (ctx, c)) (\<lambda>(ctx1, c1).
                 Inr ((set_entry k (ctx1, tcp) p)\<lparr>threads := (threads p)(k := Some (Controlling c1))\<rparr>))))"

end
