(* ===== verification/Mysock_Table.thy ===== *)
theory Mysock_Table
  imports Mysock_Api
begin

text \<open>
  The hash table of \<^verbatim>\<open>hw3/mysock_hash.h\<close> is a map from keys to entries, for any sequence of
  insertions, replacements and deletions.
\<close>

section \<open>Tables\<close>

text \<open>A history of operations (\<open>Inl\<close>: an entry is set, \<open>Inr\<close>: a key is deleted) on a table and on a map.\<close>

fun table_run :: "(int \<Rightarrow> 'a \<Rightarrow> 't \<Rightarrow> 't) \<Rightarrow> (int \<Rightarrow> 't \<Rightarrow> 't result) \<Rightarrow> ((int \<times> 'a) + int) list \<Rightarrow> 't \<Rightarrow> 't result" where
  "table_run put_key del_key [] t = Inr t"
| "table_run put_key del_key (Inl (k, a) # ops) t = table_run put_key del_key ops (put_key k a t)"
| "table_run put_key del_key (Inr k # ops) t = rbind (del_key k t) (table_run put_key del_key ops)"

fun map_run :: "((int \<times> 'a) + int) list \<Rightarrow> (int \<rightharpoonup> 'a) \<Rightarrow> (int \<rightharpoonup> 'a)" where
  "map_run [] m = m"
| "map_run (Inl (k, a) # ops) m = map_run ops (m(k \<mapsto> a))"
| "map_run (Inr k # ops) m = map_run ops (m(k := None))"

locale key_table =
  fixes ok :: "'t \<Rightarrow> bool"
    and lookup_key :: "int \<Rightarrow> 't \<Rightarrow> 'a option"
    and put_key :: "int \<Rightarrow> 'a \<Rightarrow> 't \<Rightarrow> 't"
    and del_key :: "int \<Rightarrow> 't \<Rightarrow> 't result"
  assumes put_ok: "ok t \<Longrightarrow> ok (put_key k a t)"
    and lookup_put: "ok t \<Longrightarrow> lookup_key i (put_key k a t) = (if i = k then Some a else lookup_key i t)"
    and del_ok: "ok t \<Longrightarrow> \<exists>t'. del_key k t = Inr t' \<and> ok t' \<and>
      (\<forall>i. lookup_key i t' = (if i = k then None else lookup_key i t))"
begin

lemma run_is_map:
  "ok t \<Longrightarrow> \<exists>t'. table_run put_key del_key ops t = Inr t' \<and> ok t' \<and>
     (\<forall>i. lookup_key i t' = map_run ops (\<lambda>i. lookup_key i t) i)"
proof (induction ops arbitrary: t)
  case (Cons opn ops)
  show ?case
  proof (cases opn)
    case (Inl e)
    obtain k a where e: "e = (k, a)" by (cases e)
    have "(\<lambda>i. lookup_key i (put_key k a t)) = (\<lambda>i. lookup_key i t)(k \<mapsto> a)"
      using lookup_put [OF Cons(2)] by auto
    then show ?thesis using Cons(1) [OF put_ok [OF Cons(2)], of k a] by (simp add: Inl e)
  next
    case (Inr k)
    obtain t1 where t1: "del_key k t = Inr t1" "ok t1" "\<forall>i. lookup_key i t1 = (if i = k then None else lookup_key i t)"
      using del_ok [OF Cons(2)] by blast
    then have "(\<lambda>i. lookup_key i t1) = (\<lambda>i. lookup_key i t)(k := None)" by auto
    then show ?thesis using Cons(1) [OF t1(2)] t1(1) by (simp add: Inr)
  qed
qed simp

end

section \<open>Chains\<close>

lemma find_chain_set:
  "find (\<lambda>e. fst e = key) xs \<noteq> None \<Longrightarrow>
    map_option snd (find (\<lambda>e. fst e = i) (chain_set key data xs)) =
      (if i = key then Some data else map_option snd (find (\<lambda>e. fst e = i) xs))"
  by (induction xs) auto

lemma fst_chain_set [simp]: "map fst (chain_set key data xs) = map fst xs"
  by (induction xs) auto

lemma chain_set_keys: "e \<in> set (chain_set key data xs) \<Longrightarrow> fst e \<in> fst ` set xs"
  by (induction xs) (auto split: if_splits)

lemma find_chain_delete:
  "distinct (map fst xs) \<Longrightarrow>
    find (\<lambda>e. fst e = i) (chain_delete key xs) = (if i = key then None else find (\<lambda>e. fst e = i) xs)"
  by (induction xs) (auto, force simp: find_None_iff)

lemma set_chain_delete: "set (map fst (chain_delete key xs)) \<subseteq> set (map fst xs)"
  by (induction xs) auto

lemma distinct_chain_delete: "distinct (map fst xs) \<Longrightarrow> distinct (map fst (chain_delete key xs))"
  using set_chain_delete by (induction xs) fastforce+

section \<open>The hash table\<close>

definition hash_ok :: "(int \<times> 'a) list list \<Rightarrow> bool" where
  "hash_ok tbl \<longleftrightarrow> length tbl = MAX_NUM_CONNECTIONS \<and>
     (\<forall>n < MAX_NUM_CONNECTIONS. distinct (map fst (tbl ! n)) \<and> (\<forall>e \<in> set (tbl ! n). hash_ndx (fst e) = n))"

definition empty_table :: "(int \<times> 'a) list list" where
  "empty_table = replicate MAX_NUM_CONNECTIONS []"

lemma hash_ndx_less [simp]: "hash_ndx key < MAX_NUM_CONNECTIONS"
  by (simp add: hash_ndx_def MAX_NUM_CONNECTIONS_def nat_less_iff)

lemma empty_table_ok [simp]: "hash_ok empty_table" "hash_lookup_ptr key empty_table = None"
  by (simp_all add: hash_ok_def empty_table_def hash_lookup_ptr_def hash_get_entry_def)

lemma hash_lookup_update:
  assumes "hash_ok tbl" "\<And>e. e \<in> set chain \<Longrightarrow> hash_ndx (fst e) = hash_ndx key"
    and "\<And>i. map_option snd (find (\<lambda>e. fst e = i) chain) =
      (if i = key then v else map_option snd (find (\<lambda>e. fst e = i) (tbl ! hash_ndx key)))"
  shows "hash_lookup_ptr i (tbl[hash_ndx key := chain]) = (if i = key then v else hash_lookup_ptr i tbl)"
  using assms by (auto simp: hash_lookup_ptr_def hash_get_entry_def hash_ok_def nth_list_update)

lemma hash_ok_update:
  assumes "hash_ok tbl" "\<And>e. e \<in> set chain \<Longrightarrow> hash_ndx (fst e) = hash_ndx key" "distinct (map fst chain)"
  shows "hash_ok (tbl[hash_ndx key := chain])"
  using assms by (auto simp: hash_ok_def nth_list_update)

lemma in_bucket: "hash_ok tbl \<Longrightarrow> e \<in> set (tbl ! hash_ndx key) \<Longrightarrow> hash_ndx (fst e) = hash_ndx key"
  by (auto simp: hash_ok_def)

lemma set_bucket: "hash_ok tbl \<Longrightarrow> e \<in> set (chain_set key data (tbl ! hash_ndx key)) \<Longrightarrow> hash_ndx (fst e) = hash_ndx key"
  using chain_set_keys [of e key data "tbl ! hash_ndx key"] in_bucket [of tbl _ key] by auto

lemma delete_bucket: "hash_ok tbl \<Longrightarrow> e \<in> set (chain_delete key (tbl ! hash_ndx key)) \<Longrightarrow> hash_ndx (fst e) = hash_ndx key"
  using set_chain_delete [of key "tbl ! hash_ndx key"] in_bucket [of tbl _ key] by fastforce

lemma distinct_bucket: "hash_ok tbl \<Longrightarrow> distinct (map fst (tbl ! hash_ndx key))"
  by (simp add: hash_ok_def)

lemma hash_set_ok:
  assumes "hash_ok tbl"
  shows "hash_ok (hash_set_entry key data tbl)"
proof (cases "hash_get_entry key tbl")
  case None
  then have "key \<notin> fst ` set (tbl ! hash_ndx key)" by (auto simp: hash_get_entry_def find_None_iff)
  moreover have "hash_ndx (fst e) = hash_ndx key" if "e \<in> set ((key, data) # tbl ! hash_ndx key)" for e
    using that in_bucket [OF assms, of e key] by auto
  ultimately show ?thesis using hash_ok_update [OF assms, where chain = "(key, data) # tbl ! hash_ndx key" and key = key] None
      distinct_bucket [OF assms]
    by (simp add: hash_set_entry_def hash_insert_def)
next
  case (Some e)
  then show ?thesis using hash_ok_update [OF assms set_bucket [OF assms, of _ key data]] distinct_bucket [OF assms]
    by (simp add: hash_set_entry_def)
qed

lemma hash_lookup_set:
  assumes "hash_ok tbl"
  shows "hash_lookup_ptr i (hash_set_entry key data tbl) = (if i = key then Some data else hash_lookup_ptr i tbl)"
proof (cases "hash_get_entry key tbl")
  case None
  have "hash_ndx (fst e) = hash_ndx key" if "e \<in> set ((key, data) # tbl ! hash_ndx key)" for e
    using that in_bucket [OF assms, of e key] by auto
  from hash_lookup_update [OF assms this, where chain = "(key, data) # tbl ! hash_ndx key" and v = "Some data"] None
  show ?thesis by (simp add: hash_set_entry_def hash_insert_def)
next
  case (Some e)
  then have "find (\<lambda>e. fst e = key) (tbl ! hash_ndx key) \<noteq> None" by (simp add: hash_get_entry_def)
  from hash_lookup_update [OF assms set_bucket [OF assms] find_chain_set [OF this]] Some
  show ?thesis by (simp add: hash_set_entry_def)
qed

lemma hash_delete_total:
  assumes "hash_ok tbl"
  shows "\<exists>tbl'. hash_delete key tbl = Inr tbl' \<and> hash_ok tbl' \<and>
      (\<forall>i. hash_lookup_ptr i tbl' = (if i = key then None else hash_lookup_ptr i tbl))"
proof -
  let ?t = "tbl[hash_ndx key := chain_delete key (tbl ! hash_ndx key)]"
  have "map_option snd (find (\<lambda>e. fst e = j) (chain_delete key (tbl ! hash_ndx key))) =
      (if j = key then None else map_option snd (find (\<lambda>e. fst e = j) (tbl ! hash_ndx key)))" for j
    using find_chain_delete [OF distinct_bucket [OF assms]] by simp
  note l = hash_lookup_update [OF assms delete_bucket [OF assms] this]
  from l [of key] have "hash_get_entry key ?t = None" by (simp add: hash_lookup_ptr_def)
  then have "hash_delete key tbl = Inr ?t" by (simp add: hash_delete_def Let_def)
  with l hash_ok_update [OF assms delete_bucket [OF assms] distinct_chain_delete [OF distinct_bucket [OF assms]]]
  show ?thesis by blast
qed

interpretation listen_map: key_table hash_ok hash_lookup_ptr hash_set_entry hash_delete
  by unfold_locales (simp_all add: hash_set_ok hash_lookup_set hash_delete_total)


end
