(* ===== verification/Mysock_Roles.thy ===== *)
theory Mysock_Roles
  imports Mysock_Table
begin

text \<open>
  The accept queues abstractly: what role each descriptor plays, and the invariant that ties the
  roles to the queues of the listening mysockets. Each operation of the code is one of a few
  changes of the roles and of one queue.
\<close>

section \<open>Roles\<close>

text \<open>A passive connection remembers its listening mysocket and whether its transport is still setting
  up.\<close>

datatype role = Fresh | Listener | Active | Passive nat bool

definition role :: "mysock_context \<Rightarrow> role" where
  "role c =
     (if listening c then Listener else if \<not> transport_thread_started c then Fresh
      else if is_active c then Active else Passive (nat (listen_sd c)) (blocking c))"

definition roles :: "process \<Rightarrow> nat \<Rightarrow> role option" where
  "roles p k = (if k < length (global_ctx p) then map_option (\<lambda>e. role (fst e)) (global_ctx p ! k) else None)"

definition queue_of :: "process \<Rightarrow> nat \<Rightarrow> listen_queue option" where
  "queue_of p l = hash_lookup_ptr (int l) (listen_table p)"

section \<open>One queue\<close>

text \<open>The slots that hold a request; \<open>first_slot\<close> is the first slot that a closing mysocket has not left behind.\<close>

definition used :: "listen_queue \<Rightarrow> nat \<Rightarrow> bool" where
  "used q k \<longleftrightarrow> k < max_len q \<and> req_sd (connection_queue q ! k) \<noteq> -1"

definition first_slot :: "nat \<Rightarrow> (nat \<times> nat \<times> bool) option \<Rightarrow> nat" where
  "first_slot l c = (case c of Some (l', i, _) \<Rightarrow> if l' = l then i else 0 | None \<Rightarrow> 0)"

definition is_closing :: "nat \<Rightarrow> (nat \<times> nat \<times> bool) option \<Rightarrow> bool" where
  "is_closing l c \<longleftrightarrow> (\<exists>i w. c = Some (l, i, w))"

definition slot_ok :: "(nat \<Rightarrow> role option) \<Rightarrow> nat \<Rightarrow> listen_queue \<Rightarrow> nat \<Rightarrow> bool" where
  "slot_ok R l q j \<longleftrightarrow>
     connection_queue q ! j = free_request \<or>
     (\<exists>k b. req_sd (connection_queue q ! j) = int k \<and> R k = Some (Passive l b) \<and>
        req_addr_len (connection_queue q ! j) = 16)"

definition slots_ok :: "nat \<Rightarrow> (nat \<Rightarrow> role option) \<Rightarrow> nat \<Rightarrow> listen_queue \<Rightarrow> bool" where
  "slots_ok i R l q \<longleftrightarrow> length (connection_queue q) = max_len q \<and>
     (\<forall>j. i \<le> j \<and> j < max_len q \<longrightarrow> slot_ok R l q j) \<and>
     (\<forall>j j'. i \<le> j \<and> i \<le> j' \<and> used q j \<and> used q j' \<and>
        req_sd (connection_queue q ! j) = req_sd (connection_queue q ! j') \<longrightarrow> j = j')"

text \<open>The completed connections are those that are not setting up any more.\<close>

definition completed_ok :: "(nat \<Rightarrow> role option) \<Rightarrow> nat \<Rightarrow> listen_queue \<Rightarrow> bool" where
  "completed_ok R l q \<longleftrightarrow> cur_len q = card {k. used q k} \<and> distinct (completed_queue q) \<and>
     (\<forall>e \<in> set (completed_queue q). fst e = queue_array q \<and> used q (snd e)) \<and>
     (\<forall>j. used q j \<longrightarrow>
        ((queue_array q, j) \<in> set (completed_queue q) \<longleftrightarrow>
          R (nat (req_sd (connection_queue q ! j))) = Some (Passive l False)))"

section \<open>All queues\<close>

definition queues_ok ::
  "(nat \<Rightarrow> role option) \<Rightarrow> (nat \<Rightarrow> listen_queue option) \<Rightarrow> (nat \<times> nat \<times> bool) option \<Rightarrow> bool" where
  "queues_ok R Q c \<longleftrightarrow>
     (\<forall>l. Q l \<noteq> None \<longleftrightarrow> R l = Some Listener) \<and>
     (\<forall>l q. Q l = Some q \<longrightarrow> slots_ok (first_slot l c) R l q \<and> (is_closing l c \<or> completed_ok R l q)) \<and>
     (\<forall>k l. R k = Some (Passive l True) \<longrightarrow>
        (\<exists>q j. Q l = Some q \<and> first_slot l c \<le> j \<and> used q j \<and> req_sd (connection_queue q ! j) = int k)) \<and>
     (\<forall>l i w. c = Some (l, i, w) \<longrightarrow> (\<exists>q. Q l = Some q \<and> i \<le> max_len q \<and> (w \<longrightarrow> used q i)))"

lemma queues_okD:
  assumes "queues_ok R Q c"
  shows "Q l \<noteq> None \<longleftrightarrow> R l = Some Listener"
    and "Q l = Some q \<Longrightarrow> slots_ok (first_slot l c) R l q"
    and "Q l = Some q \<Longrightarrow> \<not> is_closing l c \<Longrightarrow> completed_ok R l q"
    and "R k = Some (Passive l True) \<Longrightarrow>
      \<exists>q j. Q l = Some q \<and> first_slot l c \<le> j \<and> used q j \<and> req_sd (connection_queue q ! j) = int k"
    and "c = Some (l, i, w) \<Longrightarrow> \<exists>q. Q l = Some q \<and> i \<le> max_len q \<and> (w \<longrightarrow> used q i)"
  using assms unfolding queues_ok_def by blast+

lemma queues_okI:
  assumes "\<And>l. Q l \<noteq> None \<longleftrightarrow> R l = Some Listener"
    and "\<And>l q. Q l = Some q \<Longrightarrow> slots_ok (first_slot l c) R l q"
    and "\<And>l q. Q l = Some q \<Longrightarrow> \<not> is_closing l c \<Longrightarrow> completed_ok R l q"
    and "\<And>k l. R k = Some (Passive l True) \<Longrightarrow>
      \<exists>q j. Q l = Some q \<and> first_slot l c \<le> j \<and> used q j \<and> req_sd (connection_queue q ! j) = int k"
    and "\<And>l i w. c = Some (l, i, w) \<Longrightarrow> \<exists>q. Q l = Some q \<and> i \<le> max_len q \<and> (w \<longrightarrow> used q i)"
  shows "queues_ok R Q c"
  using assms unfolding queues_ok_def by blast

lemma completed_okI:
  assumes "cur_len q = card {k. used q k}" "distinct (completed_queue q)"
    and "\<And>a k. (a, k) \<in> set (completed_queue q) \<Longrightarrow> a = queue_array q \<and> used q k"
    and "\<And>j. used q j \<Longrightarrow> ((queue_array q, j) \<in> set (completed_queue q) \<longleftrightarrow>
        R (nat (req_sd (connection_queue q ! j))) = Some (Passive l False))"
  shows "completed_ok R l q"
  using assms unfolding completed_ok_def by auto

lemma completed_okD:
  assumes "completed_ok R l q"
  shows "cur_len q = card {k. used q k}" "distinct (completed_queue q)"
    and "(a, k) \<in> set (completed_queue q) \<Longrightarrow> a = queue_array q \<and> used q k"
    and "used q j \<Longrightarrow> ((queue_array q, j) \<in> set (completed_queue q) \<longleftrightarrow>
        R (nat (req_sd (connection_queue q ! j))) = Some (Passive l False))"
  using assms unfolding completed_ok_def by auto

lemma first_slot_None [simp]: "first_slot l None = 0" "\<not> is_closing l None"
  by (simp_all add: first_slot_def is_closing_def)

lemma not_closing_first [simp]: "\<not> is_closing l c \<Longrightarrow> first_slot l c = 0"
  by (auto simp: first_slot_def is_closing_def split: option.splits)

lemma used_free [simp]: "k < length (connection_queue q) \<Longrightarrow> connection_queue q ! k = free_request \<Longrightarrow> \<not> used q k"
  by (simp add: used_def free_request_def)

lemma finite_used [simp]: "finite {k. used q k}"
  by (rule finite_subset [of _ "{..<max_len q}"]) (auto simp: used_def)

lemma used_slot:
  assumes "slots_ok i R l q" "used q j" "i \<le> j"
  obtains k b where "req_sd (connection_queue q ! j) = int k" "R k = Some (Passive l b)"
    "req_addr_len (connection_queue q ! j) = 16"
proof -
  have "slot_ok R l q j" using assms by (simp add: slots_ok_def used_def)
  moreover have "connection_queue q ! j \<noteq> free_request" using assms(2) by (auto simp: used_def free_request_def)
  ultimately show ?thesis using that by (auto simp: slot_ok_def)
qed

lemma unused_slot:
  assumes "slots_ok i R l q" "\<not> used q j" "i \<le> j" "j < max_len q"
  shows "connection_queue q ! j = free_request"
proof -
  have "slot_ok R l q j" using assms by (simp add: slots_ok_def)
  moreover have "req_sd (connection_queue q ! j) = -1" using assms(2,4) by (simp add: used_def)
  ultimately show ?thesis by (auto simp: slot_ok_def)
qed

text \<open>A role that no live slot and no queue depends on may change into another of that kind.\<close>

definition loose :: "(nat \<Rightarrow> role option) \<Rightarrow> (nat \<Rightarrow> listen_queue option) \<Rightarrow> (nat \<times> nat \<times> bool) option \<Rightarrow> nat \<Rightarrow> bool" where
  "loose R Q c k \<longleftrightarrow> R k \<noteq> Some Listener \<and>
     (\<forall>l q j. Q l = Some q \<and> first_slot l c \<le> j \<and> used q j \<longrightarrow> req_sd (connection_queue q ! j) \<noteq> int k)"

lemma slot_ok_cong:
  assumes "slot_ok R l q j" "used q j \<Longrightarrow> R' (nat (req_sd (connection_queue q ! j))) =
    R (nat (req_sd (connection_queue q ! j)))" "j < max_len q"
  shows "slot_ok R' l q j"
proof (cases "used q j")
  case True
  then have "connection_queue q ! j \<noteq> free_request" by (auto simp: used_def free_request_def)
  then show ?thesis using assms(1) assms(2) [OF True] by (auto simp: slot_ok_def)
next
  case False
  then have "req_sd (connection_queue q ! j) = -1" using assms(3) by (simp add: used_def)
  then show ?thesis using assms(1) by (auto simp: slot_ok_def)
qed

lemma slots_ok_cong:
  assumes "slots_ok i R l q" "\<And>j. i \<le> j \<Longrightarrow> used q j \<Longrightarrow> R' (nat (req_sd (connection_queue q ! j))) =
    R (nat (req_sd (connection_queue q ! j)))"
  shows "slots_ok i R' l q"
proof -
  have "slot_ok R' l q j" if "i \<le> j" "j < max_len q" for j
    using slot_ok_cong [of R l q j R'] assms that by (simp add: slots_ok_def)
  then show ?thesis using assms(1) unfolding slots_ok_def by blast
qed

lemma completed_ok_cong:
  assumes "completed_ok R l q" "\<And>j. used q j \<Longrightarrow> R' (nat (req_sd (connection_queue q ! j))) =
    R (nat (req_sd (connection_queue q ! j)))"
  shows "completed_ok R' l q"
  using assms unfolding completed_ok_def by simp

lemma loose_slot:
  assumes "queues_ok R Q c" "loose R Q c k" "Q l = Some q" "first_slot l c \<le> j" "used q j"
  shows "(R(k := r)) (nat (req_sd (connection_queue q ! j))) = R (nat (req_sd (connection_queue q ! j)))"
proof -
  obtain k' where "req_sd (connection_queue q ! j) = int k'"
    using used_slot [OF queues_okD(2) [OF assms(1,3)] assms(5,4)] by metis
  then show ?thesis using assms by (auto simp: loose_def)
qed

lemma queues_ok_loose:
  assumes ok: "queues_ok R Q c" and k: "loose R Q c k" and r: "r \<noteq> Some Listener" "\<And>l. r \<noteq> Some (Passive l True)"
  shows "queues_ok (R(k := r)) Q c"
proof (rule queues_okI)
  show "Q l \<noteq> None \<longleftrightarrow> (R(k := r)) l = Some Listener" for l
    using queues_okD(1) [OF ok, of l] k r(1) by (auto simp: loose_def)
  show "slots_ok (first_slot l c) (R(k := r)) l q" if "Q l = Some q" for l q
    using slots_ok_cong [OF queues_okD(2) [OF ok that]] loose_slot [OF ok k that] by blast
  show "completed_ok (R(k := r)) l q" if "Q l = Some q" "\<not> is_closing l c" for l q
    using completed_ok_cong [OF queues_okD(3) [OF ok that]] loose_slot [OF ok k that(1)] that(2) by simp
  show "\<exists>q j. Q l = Some q \<and> first_slot l c \<le> j \<and> used q j \<and> req_sd (connection_queue q ! j) = int k'"
    if "(R(k := r)) k' = Some (Passive l True)" for k' l
  proof -
    have "R k' = Some (Passive l True)" using that r(2) by (cases "k' = k") auto
    from queues_okD(4) [OF ok this] show ?thesis .
  qed
  show "\<exists>q. Q l = Some q \<and> i \<le> max_len q \<and> (w \<longrightarrow> used q i)" if "c = Some (l, i, w)" for l i w
    using queues_okD(5) [OF ok that] .
qed

text \<open>A descriptor whose role is none that a slot asks for is loose.\<close>

lemma loose_role:
  assumes "queues_ok R Q c" "R k \<noteq> Some Listener" "\<And>l b. R k \<noteq> Some (Passive l b)"
  shows "loose R Q c k"
  unfolding loose_def
proof (intro conjI allI impI)
  fix l q j assume a: "Q l = Some q \<and> first_slot l c \<le> j \<and> used q j"
  obtain k' b where "req_sd (connection_queue q ! j) = int k'" "R k' = Some (Passive l b)"
    using used_slot [OF queues_okD(2) [OF assms(1)]] a by metis
  then show "req_sd (connection_queue q ! j) \<noteq> int k" using assms(3) by auto
qed (fact assms(2))

section \<open>Changes of one queue\<close>

text \<open>A change of queue \<open>l\<close>, together with the role of one of its connections.\<close>

lemma queues_ok_change:
  assumes ok: "queues_ok R Q c" and q: "Q l = Some q"
    and k: "R k = None \<or> R k = Some (Passive l True) \<or> R k = Some (Passive l False)" and r: "r = None \<or> r = Some (Passive l True) \<or> r = Some (Passive l False)"
    and others: "\<And>m. m \<noteq> l \<Longrightarrow> first_slot m c' = first_slot m c \<and> is_closing m c' = is_closing m c"
    and slots: "slots_ok (first_slot l c') (R(k := r)) l q'"
    and done_ok: "\<not> is_closing l c' \<Longrightarrow> completed_ok (R(k := r)) l q'"
    and waits: "\<And>k'. (R(k := r)) k' = Some (Passive l True) \<Longrightarrow>
      \<exists>j. first_slot l c' \<le> j \<and> used q' j \<and> req_sd (connection_queue q' ! j) = int k'"
    and closes: "\<And>m i w. c' = Some (m, i, w) \<Longrightarrow> m = l \<and> i \<le> max_len q' \<and> (w \<longrightarrow> used q' i)"
  shows "queues_ok (R(k := r)) (Q(l \<mapsto> q')) c'"
proof (rule queues_okI)
  have same: "(R(k := r)) (nat (req_sd (connection_queue q'' ! j))) = R (nat (req_sd (connection_queue q'' ! j)))"
    if t: "Q m = Some q''" "m \<noteq> l" "first_slot m c \<le> j" "used q'' j" for m q'' j
  proof -
    obtain k' b where "req_sd (connection_queue q'' ! j) = int k'" "R k' = Some (Passive m b)"
      using used_slot [OF queues_okD(2) [OF ok t(1)] t(4,3)] by metis
    then show ?thesis using k t(2) by auto
  qed
  show "(Q(l \<mapsto> q')) m \<noteq> None \<longleftrightarrow> (R(k := r)) m = Some Listener" for m
    using queues_okD(1) [OF ok, of m] q k r by auto
  show "slots_ok (first_slot m c') (R(k := r)) m q''" if "(Q(l \<mapsto> q')) m = Some q''" for m q''
  proof (cases "m = l")
    case True
    then show ?thesis using slots that by simp
  next
    case False
    then have "Q m = Some q''" using that by simp
    then show ?thesis using slots_ok_cong [OF queues_okD(2) [OF ok]] same False others by metis
  qed
  show "completed_ok (R(k := r)) m q''" if "(Q(l \<mapsto> q')) m = Some q''" "\<not> is_closing m c'" for m q''
  proof (cases "m = l")
    case True
    then show ?thesis using done_ok that by simp
  next
    case False
    then have "Q m = Some q''" "\<not> is_closing m c" using that others by auto
    then show ?thesis using completed_ok_cong [OF queues_okD(3) [OF ok]] same False by simp
  qed
  show "\<exists>q j. (Q(l \<mapsto> q')) m = Some q \<and> first_slot m c' \<le> j \<and> used q j \<and> req_sd (connection_queue q ! j) = int k'"
    if "(R(k := r)) k' = Some (Passive m True)" for k' m
  proof (cases "m = l")
    case True
    then show ?thesis using waits that by auto
  next
    case False
    then have "R k' = Some (Passive m True)" using that r by (cases "k' = k") auto
    from queues_okD(4) [OF ok this] show ?thesis using False others by auto
  qed
  show "\<exists>q. (Q(l \<mapsto> q')) m = Some q \<and> i \<le> max_len q \<and> (w \<longrightarrow> used q i)" if "c' = Some (m, i, w)" for m i w
    using closes [OF that] by auto
qed

text \<open>A request takes a free slot.\<close>

lemma queues_ok_request:
  assumes ok: "queues_ok R Q None" and q: "Q l = Some q" and k: "R k = None" and j: "j < max_len q" "\<not> used q j"
    and r: "req_sd r = int k" "req_addr_len r = 16"
  shows "queues_ok (R(k \<mapsto> Passive l True)) (Q(l \<mapsto> q\<lparr>cur_len := cur_len q + 1,
    connection_queue := (connection_queue q)[j := r]\<rparr>)) None"
proof -
  let ?q = "q\<lparr>cur_len := cur_len q + 1, connection_queue := (connection_queue q)[j := r]\<rparr>"
  let ?R = "R(k \<mapsto> Passive l True)"
  have s: "slots_ok 0 R l q" and d: "completed_ok R l q"
    using queues_okD(2,3) [OF ok q] by simp_all
  have len: "length (connection_queue q) = max_len q" using s by (simp add: slots_ok_def)
  have u: "used ?q i \<longleftrightarrow> i = j \<or> used q i" for i
    using j len r by (auto simp: used_def nth_list_update)
  have sd: "req_sd (connection_queue ?q ! i) = (if i = j then int k else req_sd (connection_queue q ! i))" if "used ?q i" for i
    using j len r by (auto simp: nth_list_update)
  have ne: "req_sd (connection_queue q ! i) \<noteq> int k" if "used q i" for i
    using used_slot [OF s that] k by (metis nat_int option.distinct(1) zero_le)
  have same: "?R (nat (req_sd (connection_queue q ! i))) = R (nat (req_sd (connection_queue q ! i)))" if "used q i" for i
    using used_slot [OF s that] ne [OF that] by (metis fun_upd_other nat_int zero_le)
  have s': "slots_ok 0 ?R l q" by (rule slots_ok_cong [OF s], rule same)
  have slots: "slots_ok 0 ?R l ?q"
    unfolding slots_ok_def
  proof (intro conjI allI impI)
    show "slot_ok ?R l ?q i" if "0 \<le> i \<and> i < max_len ?q" for i
      using s' that j len r by (cases "i = j") (auto simp: slots_ok_def slot_ok_def)
    show "i = i'" if "0 \<le> i \<and> 0 \<le> i' \<and> used ?q i \<and> used ?q i' \<and>
        req_sd (connection_queue ?q ! i) = req_sd (connection_queue ?q ! i')" for i i'
      using that sd [of i] sd [of i'] ne u s by (auto simp: slots_ok_def split: if_splits)
  qed (simp add: len)
  have "completed_ok ?R l ?q"
  proof (rule completed_okI)
    have "{i. used ?q i} = insert j {i. used q i}" using u by auto
    then show "cur_len ?q = card {i. used ?q i}" using completed_okD(1) [OF d] j(2) by simp
    show "distinct (completed_queue ?q)" using completed_okD(2) [OF d] by simp
    show "a = queue_array ?q \<and> used ?q i" if "(a, i) \<in> set (completed_queue ?q)" for a i
      using completed_okD(3) [OF d] that u by simp
    show "(queue_array ?q, i) \<in> set (completed_queue ?q) \<longleftrightarrow>
        ?R (nat (req_sd (connection_queue ?q ! i))) = Some (Passive l False)" if "used ?q i" for i
    proof (cases "i = j")
      case True
      then show ?thesis using completed_okD(3) [OF d] j(2) sd [OF that] by auto
    next
      case False
      then have "used q i" using that u by simp
      then show ?thesis using completed_okD(4) [OF d, of i] same [of i] sd [OF that] False by simp
    qed
  qed
  moreover have "\<exists>i. used ?q i \<and> req_sd (connection_queue ?q ! i) = int k'" if w: "?R k' = Some (Passive l True)" for k'
  proof (cases "k' = k")
    case True
    then show ?thesis using u sd by metis
  next
    case False
    then obtain i where "used q i" "req_sd (connection_queue q ! i) = int k'"
      using queues_okD(4) [OF ok, of k' l] w q by auto
    then show ?thesis using u sd j(2) by metis
  qed
  ultimately show ?thesis
    using queues_ok_change [OF ok q, of k "Some (Passive l True)" None ?q] k slots by simp
qed

text \<open>A connection is set up, or has failed.\<close>

lemma queues_ok_complete:
  assumes ok: "queues_ok R Q None" and q: "Q l = Some q" and k: "R k = Some (Passive l True)"
    and j: "used q j" "req_sd (connection_queue q ! j) = int k"
  shows "queues_ok (R(k \<mapsto> Passive l False))
    (Q(l \<mapsto> q\<lparr>completed_queue := completed_queue q @ [(queue_array q, j)]\<rparr>)) None"
proof -
  let ?q = "q\<lparr>completed_queue := completed_queue q @ [(queue_array q, j)]\<rparr>" and ?R = "R(k \<mapsto> Passive l False)"
  have s: "slots_ok 0 R l q" and d: "completed_ok R l q"
    using queues_okD(2,3) [OF ok q] by simp_all
  have u: "used ?q i \<longleftrightarrow> used q i" for i by (simp add: used_def)
  have at: "i = j" if "used q i" "req_sd (connection_queue q ! i) = int k" for i
    using s that j unfolding slots_ok_def by auto
  have same: "?R (nat (req_sd (connection_queue q ! i))) = R (nat (req_sd (connection_queue q ! i)))"
    if "used q i" "i \<noteq> j" for i
    using used_slot [OF s that(1)] at [OF that(1)] that(2) by (metis fun_upd_other nat_int zero_le)
  have new: "(queue_array q, j) \<notin> set (completed_queue q)"
    using completed_okD(4) [OF d j(1)] j(2) k by simp
  have "slot_ok ?R l q i" if "i < max_len q" for i
  proof (cases "i = j")
    case True
    then show ?thesis using used_slot [OF s j(1)] j(2) by (auto simp: slot_ok_def)
  next
    case False
    then show ?thesis using slot_ok_cong [of R l q i ?R] same [of i] s that by (simp add: slots_ok_def)
  qed
  then have slots: "slots_ok 0 ?R l ?q" using s by (simp add: slots_ok_def slot_ok_def u)
  moreover have "completed_ok ?R l ?q"
  proof (rule completed_okI)
    show "cur_len ?q = card {i. used ?q i}" using completed_okD(1) [OF d] u by simp
    show "distinct (completed_queue ?q)" using completed_okD(2) [OF d] new by simp
    show "a = queue_array ?q \<and> used ?q i" if "(a, i) \<in> set (completed_queue ?q)" for a i
      using completed_okD(3) [OF d, of a i] that u j(1) by auto
    show "(queue_array ?q, i) \<in> set (completed_queue ?q) \<longleftrightarrow>
        ?R (nat (req_sd (connection_queue ?q ! i))) = Some (Passive l False)" if "used ?q i" for i
      using completed_okD(4) [OF d, of i] same [of i] that u j by (cases "i = j") auto
  qed
  moreover have "\<exists>i. used ?q i \<and> req_sd (connection_queue ?q ! i) = int k'" if "?R k' = Some (Passive l True)" for k'
    using queues_okD(4) [OF ok, of k' l] that q u by (cases "k' = k") auto
  ultimately show ?thesis
    using queues_ok_change [OF ok q, of k "Some (Passive l False)" None ?q] k by simp
qed

text \<open>The first completed connection is accepted; its slot becomes free.\<close>

lemma queues_ok_accept:
  assumes ok: "queues_ok R Q None" and q: "Q l = Some q" and c: "completed_queue q = (a, j) # later"
  shows "queues_ok R (Q(l \<mapsto> q\<lparr>completed_queue := later, connection_queue := (connection_queue q)[j := free_request],
    cur_len := cur_len q - 1\<rparr>)) None"
proof -
  let ?q = "q\<lparr>completed_queue := later, connection_queue := (connection_queue q)[j := free_request], cur_len := cur_len q - 1\<rparr>"
  have s: "slots_ok 0 R l q" and d: "completed_ok R l q"
    using queues_okD(2,3) [OF ok q] by simp_all
  have len: "length (connection_queue q) = max_len q" using s by (simp add: slots_ok_def)
  have a: "a = queue_array q" "used q j" using completed_okD(3) [OF d] c by auto
  have u: "used ?q i \<longleftrightarrow> used q i \<and> i \<noteq> j" for i
    using len a(2) by (auto simp: used_def nth_list_update free_request_def)
  have same: "connection_queue ?q ! i = connection_queue q ! i" if "i \<noteq> j" for i using that by simp
  obtain k where k: "req_sd (connection_queue q ! j) = int k" using used_slot [OF s a(2)] by blast
  have finished: "R k = Some (Passive l False)" using completed_okD(4) [OF d a(2)] a(1) c k by simp
  have "slot_ok R l ?q i" if "i < max_len q" for i
    using s that len by (cases "i = j") (simp_all add: slots_ok_def slot_ok_def)
  then have slots: "slots_ok 0 R l ?q"
    using s u len by (auto simp: slots_ok_def)
  moreover have "completed_ok R l ?q"
  proof (rule completed_okI)
    have "{i. used ?q i} = {i. used q i} - {j}" using u by auto
    then show "cur_len ?q = card {i. used ?q i}" using completed_okD(1) [OF d] a(2) by simp
    show "distinct (completed_queue ?q)" using completed_okD(2) [OF d] c by simp
    show "b = queue_array ?q \<and> used ?q i" if "(b, i) \<in> set (completed_queue ?q)" for b i
      using completed_okD(2) [OF d] completed_okD(3) [OF d, of b i] that u c a(1) by auto
    show "(queue_array ?q, i) \<in> set (completed_queue ?q) \<longleftrightarrow>
        R (nat (req_sd (connection_queue ?q ! i))) = Some (Passive l False)" if "used ?q i" for i
      using completed_okD(4) [OF d, of i] that u c by auto
  qed
  moreover have "\<exists>i. used ?q i \<and> req_sd (connection_queue ?q ! i) = int k'" if w: "R k' = Some (Passive l True)" for k'
  proof -
    obtain i where i: "used q i" "req_sd (connection_queue q ! i) = int k'"
      using queues_okD(4) [OF ok w] q by auto
    moreover have "i \<noteq> j" using i(2) k finished w by auto
    ultimately show ?thesis using u by auto
  qed
  moreover have "R(k := Some (Passive l False)) = R" using finished by auto
  ultimately show ?thesis
    using queues_ok_change [OF ok q, of k "Some (Passive l False)" None ?q] finished by simp
qed

section \<open>Listening and closing\<close>

text \<open>A mysocket starts to listen.\<close>

definition new_queue :: "listen_queue \<Rightarrow> bool" where
  "new_queue q \<longleftrightarrow> cur_len q = 0 \<and> completed_queue q = [] \<and> connection_queue q = replicate (max_len q) free_request"

lemma queues_ok_listen:
  assumes ok: "queues_ok R Q c" and l: "R l = Some Fresh" and q: "new_queue q"
  shows "queues_ok (R(l \<mapsto> Listener)) (Q(l \<mapsto> q)) c"
proof (rule queues_okI)
  let ?R = "R(l \<mapsto> Listener)" and ?Q = "Q(l \<mapsto> q)"
  have none: "Q l = None" using queues_okD(1) [OF ok, of l] l by auto
  have idle: "\<not> is_closing l c" using queues_okD(5) [OF ok] none by (auto simp: is_closing_def)
  have loose: "loose R Q c l" using loose_role [OF ok] l by simp
  have unused: "\<not> used q j" for j using q by (auto simp: used_def new_queue_def free_request_def)
  show "?Q m \<noteq> None \<longleftrightarrow> ?R m = Some Listener" for m
    using queues_okD(1) [OF ok, of m] by auto
  show "slots_ok (first_slot m c) ?R m q'" if "?Q m = Some q'" for m q'
  proof (cases "m = l")
    case True
    then show ?thesis using that q unused idle by (auto simp: slots_ok_def slot_ok_def new_queue_def)
  next
    case False
    then have "Q m = Some q'" using that by simp
    then show ?thesis using slots_ok_cong [OF queues_okD(2) [OF ok]] loose_slot [OF ok loose] by blast
  qed
  show "completed_ok ?R m q'" if "?Q m = Some q'" "\<not> is_closing m c" for m q'
  proof (cases "m = l")
    case True
    then show ?thesis using that q unused by (auto simp: completed_ok_def new_queue_def)
  next
    case False
    then have "Q m = Some q'" using that by simp
    then show ?thesis using completed_ok_cong [OF queues_okD(3) [OF ok]] loose_slot [OF ok loose] that(2) by simp
  qed
  show "\<exists>q j. ?Q m = Some q \<and> first_slot m c \<le> j \<and> used q j \<and> req_sd (connection_queue q ! j) = int k"
    if "?R k = Some (Passive m True)" for k m
  proof -
    have "R k = Some (Passive m True)" using that by (cases "k = l") auto
    from queues_okD(4) [OF ok this] none show ?thesis by auto
  qed
  show "\<exists>q. ?Q m = Some q \<and> i \<le> max_len q \<and> (w \<longrightarrow> used q i)" if "c = Some (m, i, w)" for m i w
    using queues_okD(5) [OF ok that] none by auto
qed

text \<open>A closing mysocket: the lock is taken, the slots are left behind one by one, those in use when
  their connection is gone, and then the queue goes.\<close>

lemma slots_ok_mono: "slots_ok i R l q \<Longrightarrow> i \<le> i' \<Longrightarrow> slots_ok i' R l q"
  unfolding slots_ok_def by (meson le_trans)

lemma first_slot_closing [simp]: "first_slot l (Some (l, i, w)) = i" "is_closing l (Some (l, i, w))"
  by (simp_all add: first_slot_def is_closing_def)

lemma first_slot_other: "m \<noteq> l \<Longrightarrow> first_slot m (Some (l, i, w)) = 0 \<and> \<not> is_closing m (Some (l, i, w))"
  by (simp add: first_slot_def is_closing_def)

lemma queues_ok_close:
  assumes ok: "queues_ok R Q None" and q: "Q l = Some q"
  shows "queues_ok R Q (Some (l, 0, False))"
proof (rule queues_okI)
  show "slots_ok (first_slot m (Some (l, 0, False))) R m q'" if "Q m = Some q'" for m q'
    using queues_okD(2) [OF ok that] first_slot_other [of m l 0 False] by (cases "m = l") simp_all
  show "\<exists>q j. Q m = Some q \<and> first_slot m (Some (l, 0, False)) \<le> j \<and> used q j \<and> req_sd (connection_queue q ! j) = int k"
    if "R k = Some (Passive m True)" for k m
    using queues_okD(4) [OF ok that] first_slot_other [of m l 0 False] by (cases "m = l") simp_all
qed (use queues_okD [OF ok] q in \<open>auto simp: is_closing_def\<close>)

lemma queues_ok_skip:
  assumes ok: "queues_ok R Q (Some (l, i, w))" and q: "Q l = Some q" and i: "i < max_len q" "\<not> used q i"
  shows "queues_ok R Q (Some (l, Suc i, False))"
proof (rule queues_okI)
  show "slots_ok (first_slot m (Some (l, Suc i, False))) R m q'" if "Q m = Some q'" for m q'
    using queues_okD(2) [OF ok that] slots_ok_mono [of i R l q' "Suc i"] first_slot_other [of m l]
    by (cases "m = l") simp_all
  show "\<exists>q j. Q m = Some q \<and> first_slot m (Some (l, Suc i, False)) \<le> j \<and> used q j \<and> req_sd (connection_queue q ! j) = int k"
    if w: "R k = Some (Passive m True)" for k m
  proof -
    obtain q' j where j: "Q m = Some q'" "first_slot m (Some (l, i, w)) \<le> j" "used q' j"
        "req_sd (connection_queue q' ! j) = int k"
      using queues_okD(4) [OF ok w] by blast
    show ?thesis
    proof (cases "m = l")
      case True
      then have "j \<noteq> i" "i \<le> j" using j q i by auto
      then have "Suc i \<le> j" by simp
      then show ?thesis using j True by auto
    qed (use j first_slot_other [of m l] in auto)
  qed
  show "\<exists>q. Q m = Some q \<and> i' \<le> max_len q \<and> (w' \<longrightarrow> used q i')" if "Some (l, Suc i, False) = Some (m, i', w')" for m i' w'
    using that q i by auto
qed (use queues_okD(1) [OF ok] queues_okD(3) [OF ok] in \<open>auto simp: is_closing_def\<close>)

lemma queues_ok_wait:
  assumes ok: "queues_ok R Q (Some (l, i, w))" and q: "Q l = Some q" and i: "used q i"
  shows "queues_ok R Q (Some (l, i, True))"
proof (rule queues_okI)
  show "slots_ok (first_slot m (Some (l, i, True))) R m q'" if "Q m = Some q'" for m q'
    using queues_okD(2) [OF ok that] first_slot_other [of m l] by (cases "m = l") simp_all
  show "\<exists>q j. Q m = Some q \<and> first_slot m (Some (l, i, True)) \<le> j \<and> used q j \<and> req_sd (connection_queue q ! j) = int k"
    if "R k = Some (Passive m True)" for k m
    using queues_okD(4) [OF ok that] first_slot_other [of m l] by (cases "m = l") simp_all
  show "\<exists>q. Q m = Some q \<and> i' \<le> max_len q \<and> (w' \<longrightarrow> used q i')" if "Some (l, i, True) = Some (m, i', w')" for m i' w'
    using that q i by (auto simp: used_def)
qed (use queues_okD(1) [OF ok] queues_okD(3) [OF ok] in \<open>auto simp: is_closing_def\<close>)

lemma queues_ok_gone:
  assumes ok: "queues_ok R Q (Some (l, i, w))" and q: "Q l = Some q" and i: "used q i"
    and k: "req_sd (connection_queue q ! i) = int k" "R k = Some (Passive l False)"
  shows "queues_ok (R(k := None)) Q (Some (l, Suc i, False))"
proof -
  have s: "slots_ok i R l q" using queues_okD(2) [OF ok q] by simp
  have ne: "req_sd (connection_queue q ! j) \<noteq> int k" if "i < j" "used q j" for j
    using s that i k(1) unfolding slots_ok_def by (metis less_imp_le less_irrefl order_refl)
  have same: "(R(k := None)) (nat (req_sd (connection_queue q ! j))) = R (nat (req_sd (connection_queue q ! j)))"
    if "Suc i \<le> j" "used q j" for j
    using used_slot [OF s that(2)] ne [of j] that by (metis Suc_le_eq fun_upd_other less_imp_le nat_int)
  have "slots_ok (Suc i) (R(k := None)) l q"
    using slots_ok_cong [OF slots_ok_mono [OF s, of "Suc i"]] same by simp
  moreover have "\<exists>j\<ge>Suc i. used q j \<and> req_sd (connection_queue q ! j) = int k'"
    if w: "(R(k := None)) k' = Some (Passive l True)" for k'
  proof -
    have k': "k' \<noteq> k" "R k' = Some (Passive l True)" using w by (cases "k' = k"; simp)+
    obtain j where j: "i \<le> j" "used q j" "req_sd (connection_queue q ! j) = int k'"
      using queues_okD(4) [OF ok k'(2)] q by auto
    then show ?thesis using k(1) k'(1) by (metis Suc_leI le_neq_implies_less nat_int)
  qed
  moreover have "Q(l \<mapsto> q) = Q" using q by auto
  moreover have "Suc i \<le> max_len q" using i by (simp add: used_def)
  ultimately show ?thesis
    using queues_ok_change [OF ok q, of k None "Some (l, Suc i, False)" q] k(2) first_slot_other by simp
qed

lemma queues_ok_closed:
  assumes ok: "queues_ok R Q (Some (l, i, w))" and q: "Q l = Some q" and i: "max_len q \<le> i"
  shows "queues_ok (R(l := None)) (Q(l := None)) None"
proof (rule queues_okI)
  let ?R = "R(l := None)" and ?Q = "Q(l := None)"
  have l: "R l = Some Listener" using queues_okD(1) [OF ok, of l] q by simp
  have same: "?R (nat (req_sd (connection_queue q' ! j))) = R (nat (req_sd (connection_queue q' ! j)))"
    if t: "Q m = Some q'" "first_slot m (Some (l, i, w)) \<le> j" "used q' j" for m q' j
  proof -
    obtain k b where "req_sd (connection_queue q' ! j) = int k" "R k = Some (Passive m b)"
      using used_slot [OF queues_okD(2) [OF ok t(1)] t(3,2)] by metis
    then show ?thesis using l by auto
  qed
  show "?Q m \<noteq> None \<longleftrightarrow> ?R m = Some Listener" for m
    using queues_okD(1) [OF ok, of m] by simp
  show "slots_ok (first_slot m None) ?R m q'" if "?Q m = Some q'" for m q'
  proof -
    have m: "m \<noteq> l" "Q m = Some q'" using that by (auto split: if_splits)
    then show ?thesis using slots_ok_cong [OF queues_okD(2) [OF ok m(2)]] same [OF m(2)] first_slot_other [OF m(1)]
      by simp
  qed
  show "completed_ok ?R m q'" if "?Q m = Some q'" for m q'
  proof -
    have m: "m \<noteq> l" "Q m = Some q'" using that by (auto split: if_splits)
    then show ?thesis using completed_ok_cong [OF queues_okD(3) [OF ok m(2)]] same [OF m(2)] first_slot_other [OF m(1)]
      by simp
  qed
  show "\<exists>q j. ?Q m = Some q \<and> first_slot m None \<le> j \<and> used q j \<and> req_sd (connection_queue q ! j) = int k"
    if w: "?R k = Some (Passive m True)" for k m
  proof -
    have "R k = Some (Passive m True)" using w by (cases "k = l") auto
    then obtain q' j where j: "Q m = Some q'" "first_slot m (Some (l, i, w)) \<le> j" "used q' j"
        "req_sd (connection_queue q' ! j) = int k"
      using queues_okD(4) [OF ok] by blast
    moreover have "m \<noteq> l" using j q i by (auto simp: used_def)
    ultimately show ?thesis by auto
  qed
qed simp

end
