(* ===== verification/Mysock_Invariant.thy ===== *)
theory Mysock_Invariant
  imports Mysock_Roles
begin

text \<open>
  The invariant of the mysockets of a process, and that the threads of the code keep it.
\<close>

section \<open>The invariant\<close>

text \<open>What the code keeps per descriptor: a mysocket with a transport thread waits for the connection as
  long as the thread is in the handshake.\<close>

definition entry_fits :: "nat \<Rightarrow> mysock_entry option \<Rightarrow> transport_thread option \<Rightarrow> bool" where
  "entry_fits k e t \<longleftrightarrow>
     (case e of
        None \<Rightarrow> t = None
      | Some (c, _) \<Rightarrow> my_sd c = int k \<and> (listening c \<longrightarrow> bound c \<and> \<not> transport_thread_started c) \<and>
          (transport_thread_started c \<and> \<not> is_active c \<longrightarrow> 0 \<le> listen_sd c \<and> 0 < peer_addr_len (network_state c)) \<and>
          (case t of None \<Rightarrow> \<not> transport_thread_started c
           | Some (Handshaking _ _) \<Rightarrow> transport_thread_started c \<and> blocking c
           | Some _ \<Rightarrow> transport_thread_started c \<and> \<not> blocking c))"

definition process_ok :: "process \<Rightarrow> bool" where
  "process_ok p \<longleftrightarrow> length (global_ctx p) = MAX_NUM_CONNECTIONS \<and> hash_ok (listen_table p) \<and>
     (\<forall>k < MAX_NUM_CONNECTIONS. entry_fits k (global_ctx p ! k) (threads p k)) \<and>
     queues_ok (roles p) (queue_of p) (closing p)"

definition start_process :: "os \<Rightarrow> process" where
  "start_process s =
     \<lparr>global_ctx = replicate MAX_NUM_CONNECTIONS None, threads = (\<lambda>_. None), listen_table = empty_table, receivers = {},
      closing = None, next_array = 0, os = s\<rparr>"

lemma process_okD:
  assumes "process_ok p"
  shows "length (global_ctx p) = MAX_NUM_CONNECTIONS" "hash_ok (listen_table p)"
    "k < MAX_NUM_CONNECTIONS \<Longrightarrow> entry_fits k (global_ctx p ! k) (threads p k)"
    "queues_ok (roles p) (queue_of p) (closing p)"
  using assms unfolding process_ok_def by blast+

lemma start_process_ok: "process_ok (start_process s)"
proof -
  have "roles (start_process s) = (\<lambda>_. None)" "queue_of (start_process s) = (\<lambda>_. None)"
    by (auto simp: roles_def queue_of_def start_process_def)
  then have "queues_ok (roles (start_process s)) (queue_of (start_process s)) None"
    by (auto intro: queues_okI)
  then show ?thesis by (simp add: process_ok_def start_process_def entry_fits_def)
qed

section \<open>Changes\<close>

lemma roles_change:
  "global_ctx p' = (global_ctx p)[k := e] \<Longrightarrow> k < length (global_ctx p) \<Longrightarrow>
    roles p' = (roles p)(k := map_option (\<lambda>e. role (fst e)) e)"
  by (auto simp: roles_def fun_eq_iff nth_list_update)

lemma roles_same: "global_ctx p' = global_ctx p \<Longrightarrow> roles p' = roles p"
  by (simp add: roles_def fun_eq_iff)

lemma queue_of_same: "listen_table p' = listen_table p \<Longrightarrow> queue_of p' = queue_of p"
  by (simp add: queue_of_def fun_eq_iff)

lemma queue_of_set: "hash_ok (listen_table p) \<Longrightarrow> listen_table p' = hash_set_entry (int l) q (listen_table p) \<Longrightarrow>
    queue_of p' = (queue_of p)(l \<mapsto> q)"
  by (simp add: queue_of_def fun_eq_iff listen_map.lookup_put)

lemmas process_changes = set_entry_def set_queue_def set_os_def

text \<open>One entry changes and, perhaps, one queue.\<close>

lemma process_ok_change:
  assumes ok: "process_ok p" and k: "k < MAX_NUM_CONNECTIONS"
    and e: "global_ctx p' = (global_ctx p)[k := e]" "threads p' = (threads p)(k := t)" "entry_fits k e t"
    and tbl: "hash_ok (listen_table p')"
    and q: "queues_ok ((roles p)(k := map_option (\<lambda>e. role (fst e)) e)) (queue_of p') (closing p')"
  shows "process_ok p'"
proof -
  note len = process_okD(1) [OF ok]
  have "entry_fits i (global_ctx p' ! i) (threads p' i)" if "i < MAX_NUM_CONNECTIONS" for i
    using process_okD(3) [OF ok that] e k len that by (cases "i = k") auto
  then show ?thesis
    using q e(1) k len tbl roles_change [of p' p k e] by (simp add: process_ok_def)
qed

lemma process_ok_change_role:
  assumes ok: "process_ok p" and k: "k < MAX_NUM_CONNECTIONS"
    and e: "global_ctx p' = (global_ctx p)[k := e]" "threads p' = threads p" "entry_fits k e (threads p k)"
    and tbl: "hash_ok (listen_table p')"
    and q: "queues_ok ((roles p)(k := map_option (\<lambda>e. role (fst e)) e)) (queue_of p') (closing p')"
  shows "process_ok p'"
  using process_ok_change [OF ok k e(1) _ e(3) tbl q] e(2) by simp

lemma process_ok_queue:
  assumes ok: "process_ok p" and e: "global_ctx p' = global_ctx p" "threads p' = threads p"
    and tbl: "hash_ok (listen_table p')" and q: "queues_ok (roles p) (queue_of p') (closing p')"
  shows "process_ok p'"
  using process_okD [OF ok] assms roles_same [OF e(1)] by (simp add: process_ok_def)

text \<open>A change that leaves the role as it is.\<close>

definition same_role :: "mysock_context \<Rightarrow> mysock_context \<Rightarrow> bool" where
  "same_role c c' \<longleftrightarrow> my_sd c' = my_sd c \<and> listening c' = listening c \<and> (bound c \<longrightarrow> bound c') \<and>
     transport_thread_started c' = transport_thread_started c \<and> is_active c' = is_active c \<and>
     listen_sd c' = listen_sd c \<and> blocking c' = blocking c \<and>
     (0 < peer_addr_len (network_state c) \<longrightarrow> 0 < peer_addr_len (network_state c'))"

lemma same_role_refl [simp]: "same_role c c"
  by (simp add: same_role_def)

lemma same_role_updates [simp]:
  "(0 < peer_addr_len (network_state c) \<longrightarrow> 0 < peer_addr_len net) \<Longrightarrow> same_role c (c\<lparr>network_state := net\<rparr>)"
  "(0 < peer_addr_len (network_state c) \<longrightarrow> 0 < peer_addr_len net) \<Longrightarrow> same_role c (c\<lparr>bound := True, network_state := net\<rparr>)"
  "same_role c (c\<lparr>app_recv_queue := q\<rparr>)" "same_role c (c\<lparr>network_recv_queue := q\<rparr>)"
  "same_role c (c\<lparr>app_send_queue := q\<rparr>)" "same_role c (c\<lparr>app_send_queue := q, eof := b\<rparr>)"
  "same_role c (c\<lparr>close_requested := b\<rparr>)" "same_role c (c\<lparr>clock := t\<rparr>)" "same_role c (c\<lparr>thread_errno := i\<rparr>)"
  "(0 < peer_addr_len (network_state c) \<longrightarrow> 0 < peer_addr_len net) \<Longrightarrow> same_role c (c\<lparr>network_state := net, bound := True\<rparr>)"
  by (simp_all add: same_role_def)

lemma same_role_trans: "same_role a b \<Longrightarrow> same_role b c \<Longrightarrow> same_role a c"
  by (simp add: same_role_def)

lemma role_same: "same_role c c' \<Longrightarrow> role c' = role c"
  by (simp add: same_role_def role_def)

lemma process_ok_same:
  assumes ok: "process_ok p" and k: "k < MAX_NUM_CONNECTIONS" "global_ctx p ! k = Some (c, tcp)" "same_role c c'"
    and p': "global_ctx p' = (global_ctx p)[k := Some (c', tcp')]" "threads p' = (threads p)(k := t)"
      "listen_table p' = listen_table p" "closing p' = closing p"
    and t: "entry_fits k (Some (c, tcp)) t"
  shows "process_ok p'"
proof (rule process_ok_change [OF ok k(1) p'(1,2)])
  show "entry_fits k (Some (c', tcp')) t"
    using t k(3) by (auto simp: entry_fits_def same_role_def split: option.splits transport_thread.splits)
  have "(roles p)(k := Some (role c)) = roles p"
    using k(1,2) process_okD(1) [OF ok] by (auto simp: roles_def)
  then show "queues_ok ((roles p)(k := map_option (\<lambda>e. role (fst e)) (Some (c', tcp')))) (queue_of p') (closing p')"
    using process_okD(4) [OF ok] role_same [OF k(3)] queue_of_same [OF p'(3)] p'(4) by simp
qed (use process_okD(2) [OF ok] p'(3) in simp)

lemma process_ok_set_entry:
  assumes "process_ok p" "k < MAX_NUM_CONNECTIONS" "global_ctx p ! k = Some (c, tcp)" "same_role c c'"
  shows "process_ok (set_entry k (c', tcp') p)"
  using process_ok_same [OF assms, of "set_entry k (c', tcp') p" tcp' "threads p k"] process_okD(3) [OF assms(1,2)] assms(3)
  by (simp add: set_entry_def)

lemma process_ok_set_os [simp]: "process_ok (set_os s p) = process_ok p"
  using roles_same [of "set_os s p" p] queue_of_same [of "set_os s p" p] by (simp add: process_ok_def set_os_def)

lemma get_context:
  assumes "process_ok p" "mysock_get_context sd p = Inr e"
  obtains k where "sd = int k" "k < MAX_NUM_CONNECTIONS" "global_ctx p ! k = Some e" "nat sd = k"
proof -
  have "0 \<le> sd" "sd < int MAX_NUM_CONNECTIONS" "global_ctx p ! nat sd = Some e"
    using assms(2) by (auto simp: mysock_get_context_def rbind_eq_Inr_iff split: option.splits)
  then show ?thesis using that [of "nat sd"] by simp
qed

lemma get_context_entry:
  assumes "process_ok p" "k < MAX_NUM_CONNECTIONS" "global_ctx p ! k = Some e"
  shows "mysock_get_context (int k) p = Inr e"
  using process_okD(3) [OF assms(1,2)] assms by (cases e) (simp add: mysock_get_context_def entry_fits_def)

section \<open>The transport leaves the role alone\<close>

lemma same_peer_len: "same_addrs net net' \<Longrightarrow> peer_addr_len net' = peer_addr_len net"
  by (drule same_addrs_def [THEN iffD1, THEN arg_cong, of _ _ peer_addr_len]) simp

lemma send_role: "stcp_network_send sd h d = Inr sd' \<Longrightarrow> same_role sd sd'"
  by (erule stcp_network_send_frame) (auto simp: same_role_def dest: same_peer_len)

lemma control_role: "send_control sd c fl = Inr sd' \<Longrightarrow> same_role sd sd'"
  unfolding send_control_def by (rule send_role)

lemma wait_role: "stcp_wait_for_event sd fl t = Inr (ev, sd') \<Longrightarrow> same_role sd sd'"
  by (auto simp: stcp_wait_for_event_def wait_poll_def Let_def same_role_def split: if_splits option.splits)

lemma recv_role: "stcp_network_recv sd n = Inr (b, sd') \<Longrightarrow> same_role sd sd'"
  by (auto simp: stcp_network_recv_def rbind_eq_Inr_iff Let_def same_role_def split: if_splits)

lemma app_role:
  "stcp_app_recv sd n = Inr (b, sd') \<Longrightarrow> same_role sd sd'"
  "same_role sd (stcp_app_send sd b)" "same_role sd (stcp_fin_received sd)"
  by (auto simp: stcp_app_recv_def stcp_app_send_def stcp_fin_received_def rbind_eq_Inr_iff same_role_def)

lemmas transport_roles = send_role control_role wait_role recv_role app_role

lemma flush_role: "flush_loop sd c buf = (sd', c') \<Longrightarrow> same_role sd sd'"
  by (induction sd c buf rule: flush_loop.induct)
    (auto simp: Let_def same_role_def stcp_app_send_def stcp_fin_received_def split: if_splits)

lemma resend_role: "resend_send_buffer sd buf n = Inr sd' \<Longrightarrow> same_role sd sd'"
  by (induction sd buf n rule: resend_send_buffer.induct)
    (auto simp: rbind_eq_Inr_iff intro: same_role_trans send_role)

lemma send_fin_role: "send_fin (sd, c) = Inr (sd', c') \<Longrightarrow> same_role sd sd'"
  by (auto simp: send_fin_def rbind_eq_Inr_iff Let_def split: if_splits intro: control_role)

lemma ack_role: "handle_ack_from_peer sd c a = Inr (sd', c') \<Longrightarrow> same_role sd sd'"
  by (auto simp: handle_ack_from_peer_def rbind_eq_Inr_iff Let_def split: if_splits dest: send_fin_role)

lemma flush_pair_role: "same_role sd (fst (flush_loop sd c buf))"
  by (rule flush_role [of sd c buf _ "snd (flush_loop sd c buf)"]) simp

lemma incoming_role: "handle_incoming_segment sd c s d n f = Inr (sd', c') \<Longrightarrow> same_role sd sd'"
  by (auto simp: handle_incoming_segment_def flush_in_order_segments_from_receive_buffer_def rbind_eq_Inr_iff Let_def
      case_prod_beta split: if_splits dest!: control_role intro: same_role_trans [OF flush_pair_role])

lemma network_data_role: "handle_network_data sd c = Inr (sd', c') \<Longrightarrow> same_role sd sd'"
  by (auto simp: handle_network_data_def rbind_eq_Inr_iff Let_def split: if_splits
      dest!: recv_role ack_role incoming_role intro: same_role_trans)

lemma app_data_role: "handle_app_data sd c = Inr (sd', c') \<Longrightarrow> same_role sd sd'"
  by (auto simp: handle_app_data_def rbind_eq_Inr_iff Let_def split: if_splits
      dest!: app_role(1) send_role intro: same_role_trans)

lemma app_close_role: "handle_app_close sd c = Inr (sd', c') \<Longrightarrow> same_role sd sd'"
  by (auto simp: handle_app_close_def rbind_eq_Inr_iff split: if_splits dest: send_fin_role)

lemma timeout_role: "handle_timeout sd c = Inr (sd', c') \<Longrightarrow> same_role sd sd'"
  by (auto simp: handle_timeout_def rbind_eq_Inr_iff Let_def split: if_splits dest: resend_role)

lemma dispatch_role: "dispatch ev c = Inr c' \<Longrightarrow> same_role (fst c) (fst c')"
  by (cases c; cases c') (auto simp: dispatch_def rbind_eq_Inr_iff split: if_splits
      dest!: app_data_role network_data_role app_close_role timeout_role intro: same_role_trans)

lemma control_iteration_role: "control_iteration (sd, c) = Inr (sd', c') \<Longrightarrow> same_role sd sd'"
  by (auto simp: control_iteration_def rbind_eq_Inr_iff Let_def dest!: wait_role dispatch_role intro: same_role_trans)

lemma handshake_role: "handshake_step (ph, sd, c) = Inr (ph', sd', c') \<Longrightarrow> same_role sd sd'"
  by (cases ph)
    (auto simp: active_send_def active_wait_def passive_listen_def passive_send_def passive_wait_def rbind_eq_Inr_iff
      Let_def split: if_splits dest!: transport_roles(1-4) intro: same_role_trans app_role(2))

end
