(* ===== verification/Mysock_Steps.thy ===== *)
theory Mysock_Steps
  imports Mysock_Invariant
begin

text \<open>
  The calls of an application and the threads keep the invariant of the mysockets.
\<close>

section \<open>New mysockets\<close>

definition fresh_context :: "mysock_context \<Rightarrow> bool" where
  "fresh_context c \<longleftrightarrow> \<not> is_active c \<and> \<not> bound c \<and> \<not> listening c \<and> listen_sd c = -1 \<and> blocking c \<and> stcp_errno c = 0 \<and>
     \<not> transport_thread_started c \<and> \<not> close_requested c \<and> \<not> eof c \<and> network_recv_queue c = [] \<and>
     app_send_queue c = [] \<and> app_recv_queue c = [] \<and> thread_errno c = 0 \<and>
     peer_addr_len (network_state c) = 0 \<and> wire_out (network_state c) = [] \<and> \<not> copied (network_state c)"

lemma free_slot_Some:
  assumes "free_slot t = Some k"
  shows "k < length t" "t ! k = None"
  using assms by (auto simp: free_slot_def find_Some_iff)

lemma new_mysocket_cases:
  assumes "mysock_new_mysocket reliable p = Inr (sd, p')" "process_ok p"
  obtains (full) s where "sd = -1" "p' = set_os s p"
    | (new) k c tcp s where "sd = int k" "k < MAX_NUM_CONNECTIONS" "global_ctx p ! k = None" "fresh_context c"
      "p' = set_entry k (c\<lparr>my_sd := int k\<rparr>, tcp) (set_os s p)" "is_reliable (network_state c) = reliable"
      "local_ip (network_state c) = interface_ip (os p)" "interface_ip s = interface_ip (os p)"
proof -
  obtain net tcp s1 where n: "network_init (os p) = Inr (net, tcp, s1)" and net: "peer_addr_len net = 0"
      "wire_out net = []" "\<not> copied net" "local_ip net = interface_ip (os p)" "interface_ip s1 = interface_ip (os p)"
    using assms(1) by (auto simp: mysock_new_mysocket_def mysock_allocate_context_def rbind_eq_Inr_iff network_init_def
        network_init_socket_def network_alloc_context_socket_def os_new_fd_def split: prod.splits list.splits if_splits)
  show thesis
  proof (cases "free_slot (global_ctx p)")
    case None
    then show thesis using full n assms(1)
      by (auto simp: mysock_new_mysocket_def mysock_allocate_context_def Let_def)
  next
    case (Some k)
    note k = free_slot_Some [OF Some]
    have "\<exists>c. fresh_context c \<and> p' = set_entry k (c\<lparr>my_sd := int k\<rparr>, tcp) (set_os s1 p) \<and>
        is_reliable (network_state c) = reliable \<and> local_ip (network_state c) = interface_ip (os p)"
      using assms(1) n Some net
      by (intro exI [of _ "\<lparr>is_active = False, network_state = net\<lparr>is_reliable := reliable\<rparr>, bound = False, listening = False,
          my_sd = 0, listen_sd = -1, blocking = True, stcp_errno = 0, transport_thread_started = False,
          close_requested = False, eof = False, network_recv_queue = [], app_send_queue = [], app_recv_queue = [],
          clock = now s1, thread_errno = 0\<rparr>"])
        (auto simp: mysock_new_mysocket_def mysock_allocate_context_def Let_def fresh_context_def)
    moreover have "sd = int k" using assms(1) n Some
      by (auto simp: mysock_new_mysocket_def mysock_allocate_context_def Let_def)
    ultimately show thesis using new k process_okD(1) [OF assms(2)] net(5) by metis
  qed
qed

lemma new_mysocket_ok:
  assumes "mysock_new_mysocket reliable p = Inr (sd, p')" "process_ok p"
  shows "process_ok p'"
  using assms
proof (cases rule: new_mysocket_cases)
  case (new k c tcp s)
  have "roles p k = None" using new(2,3) process_okD(1) [OF assms(2)] by (simp add: roles_def)
  then have "queues_ok ((roles p)(k := Some Fresh)) (queue_of p) (closing p)"
    using queues_ok_loose [OF process_okD(4) [OF assms(2)] loose_role [OF process_okD(4) [OF assms(2)]]] by simp
  then show ?thesis
    using new process_okD(2) [OF assms(2)] process_okD(3) [OF assms(2) new(2)] queue_of_same [of p' p]
    by (intro process_ok_change_role [OF assms(2) new(2), of _ "Some (c\<lparr>my_sd := int k\<rparr>, tcp)"])
      (simp_all add: process_changes entry_fits_def fresh_context_def role_def)
qed (use assms(2) in simp)

section \<open>Calls that leave the role alone\<close>

lemma bind_ok:
  assumes "mybind rc port sd addr p = Inr (r, err, p')" "process_ok p"
  shows "process_ok p'"
proof (cases "sa_family addr = AF_INET")
  case True
  obtain c tcp where c: "mysock_get_context sd p = Inr (c, tcp)"
    using assms(1) by (auto simp: mybind_def rbind_eq_Inr_iff)
  let ?net = "(network_state c)\<lparr>local_addr := addr\<rparr>"
  let ?c = "c\<lparr>bound := True, network_state := if rc < 0 then ?net
      else ?net\<lparr>local_port := if sin_port addr = 0 then port else sin_port addr\<rparr>\<rparr>"
  have "p' = set_entry (nat sd) (?c, tcp) p"
    using assms(1) c True by (auto simp: mybind_def rbind_eq_Inr_iff network_bind_def split: if_splits)
  moreover have "same_role c ?c" by (rule same_role_updates) simp
  ultimately show ?thesis using get_context [OF assms(2) c] process_ok_set_entry [OF assms(2)] by metis
next
  case False
  then show ?thesis using assms by (auto simp: mybind_def rbind_eq_Inr_iff)
qed

lemma write_ok:
  assumes "mywrite sd buf p = Inr (r, err, p')" "process_ok p"
  shows "process_ok p'"
proof -
  obtain c tcp where c: "mysock_get_context sd p = Inr (c, tcp)"
    and p': "p' = p \<or> (\<exists>q. p' = set_entry (nat sd) (c\<lparr>app_recv_queue := q\<rparr>, tcp) p)"
    using assms(1) by (auto simp: mywrite_def rbind_eq_Inr_iff split: if_splits)
  from get_context [OF assms(2) c] p' assms(2) show ?thesis
    using process_ok_set_entry [OF assms(2) _ _ same_role_updates(3)] by metis
qed

lemma read_ok:
  assumes "myread sd n p = Inr (r, err, b, p')" "process_ok p"
  shows "process_ok p'"
proof -
  obtain c tcp where c: "mysock_get_context sd p = Inr (c, tcp)"
    and p': "p' = p \<or> (\<exists>q e. p' = set_entry (nat sd) (c\<lparr>app_send_queue := q, eof := e\<rparr>, tcp) p)"
    using assms(1) by (auto simp: myread_def rbind_eq_Inr_iff split: if_splits)
  from get_context [OF assms(2) c] p' assms(2) show ?thesis
    using process_ok_set_entry [OF assms(2) _ _ same_role_updates(6)] by metis
qed

lemma close_request_ok:
  assumes "myclose_request sd p = Inr p'" "process_ok p"
  shows "process_ok p'"
proof -
  obtain c tcp where c: "mysock_get_context sd p = Inr (c, tcp)"
    and p': "p' = set_entry (nat sd) (c\<lparr>close_requested := True\<rparr>, tcp) p"
    using assms(1) by (auto simp: myclose_request_def rbind_eq_Inr_iff)
  from get_context [OF assms(2) c] p' assms(2) show ?thesis
    using process_ok_set_entry [OF assms(2) _ _ same_role_updates(7)] by metis
qed

section \<open>Connecting\<close>

lemma start_role: "transport_start active sd = (ph, sd', c) \<Longrightarrow> sd' = sd"
  by (auto simp: transport_start_def active_start_def split: prod.splits if_splits)

lemma transport_init_cases:
  assumes "mysock_transport_init sd active p = Inr p'" "process_ok p"
  obtains k c tcp ph c' where "sd = int k" "k < MAX_NUM_CONNECTIONS" "global_ctx p ! k = Some (c, tcp)" "\<not> listening c"
    "p' = (set_entry k (c\<lparr>is_active := active, transport_thread_started := True\<rparr>, tcp\<lparr>recv_thread_started := True\<rparr>) p)
       \<lparr>receivers := insert k (receivers p), threads := (threads p)(k := Some (Handshaking ph c'))\<rparr>"
proof -
  obtain c tcp where c: "mysock_get_context sd p = Inr (c, tcp)" "\<not> listening c"
    using assms(1) by (auto simp: mysock_transport_init_def rbind_eq_Inr_iff)
  obtain k where k: "sd = int k" "k < MAX_NUM_CONNECTIONS" "global_ctx p ! k = Some (c, tcp)"
    using get_context [OF assms(2) c(1)] by metis
  obtain ph sd' c' where s: "transport_start active (c\<lparr>is_active := active, transport_thread_started := True\<rparr>) = (ph, sd', c')"
    by (metis prod_cases3)
  show thesis
    using that [OF k c(2), of ph c'] assms(1) c start_role [OF s] s k(1)
    by (auto simp: mysock_transport_init_def network_start_recv_thread_def set_entry_def)
qed

text \<open>A mysocket without a transport gets its own: an active one, or one for a request in a slot.\<close>

lemma transport_init_active:
  assumes "mysock_transport_init sd True p = Inr p'" "process_ok p"
    and fresh: "\<And>e. mysock_get_context sd p = Inr e \<Longrightarrow> role (fst e) = Fresh \<and> blocking (fst e)"
  shows "process_ok p'"
  using assms(1,2)
proof (cases rule: transport_init_cases)
  case (1 k c tcp ph c')
  have f: "role c = Fresh" "blocking c" using fresh get_context_entry [OF assms(2) 1(2,3)] 1(1) by fastforce+
  let ?c = "c\<lparr>is_active := True, transport_thread_started := True\<rparr>"
  have r: "roles p k = Some Fresh" using f 1(2,3) process_okD(1) [OF assms(2)] by (simp add: roles_def)
  have "queues_ok ((roles p)(k := Some Active)) (queue_of p) (closing p)"
    using queues_ok_loose [OF process_okD(4) [OF assms(2)] loose_role [OF process_okD(4) [OF assms(2)]]] r by simp
  then show ?thesis
    using 1 f process_okD(2) [OF assms(2)] process_okD(3) [OF assms(2) 1(2)] queue_of_same [of p' p]
    by (intro process_ok_change [OF assms(2) 1(2), of _ "Some (?c, tcp\<lparr>recv_thread_started := True\<rparr>)" "Some (Handshaking ph c')"])
      (simp_all add: process_changes entry_fits_def role_def)
qed

lemma connect_ok:
  assumes "myconnect_start rc port sd name n p = Inr (r, p')" "process_ok p"
    and fresh: "\<And>e. mysock_get_context sd p = Inr e \<Longrightarrow> role (fst e) = Fresh \<and> blocking (fst e)"
  shows "process_ok p'"
proof (cases "r = None")
  case False
  then show ?thesis using assms(1,2) by (auto simp: myconnect_start_def rbind_eq_Inr_iff Let_def split: if_splits)
next
  case True
  obtain c tcp where c: "mysock_get_context sd p = Inr (c, tcp)"
    and z: "peer_addr_len (network_state c) = 0"
    and e: "\<exists>net. mysock_transport_init sd True (set_entry (nat sd) (c\<lparr>network_state := net\<rparr>, tcp) p) = Inr p' \<or>
      mysock_transport_init sd True (set_entry (nat sd) (c\<lparr>network_state := net, bound := True\<rparr>, tcp) p) = Inr p'"
    using assms(1) True
    by (auto simp: myconnect_start_def rbind_eq_Inr_iff Let_def mysock_bind_ephemeral_def network_bind_def
        split: if_splits)
  obtain k where k: "sd = int k" "k < MAX_NUM_CONNECTIONS" "global_ctx p ! k = Some (c, tcp)"
    using get_context [OF assms(2) c] by metis
  obtain c' where c': "same_role c c'" "mysock_transport_init sd True (set_entry k (c', tcp) p) = Inr p'"
    using e k(1) same_role_updates(1,10) z by (metis less_irrefl nat_int)
  let ?p = "set_entry k (c', tcp) p"
  have ok: "process_ok ?p" by (rule process_ok_set_entry [OF assms(2) k(2,3) c'(1)])
  have "mysock_get_context sd ?p = Inr (c', tcp)"
    using get_context_entry [OF ok k(2)] k process_okD(1) [OF assms(2)] by (simp add: set_entry_def)
  moreover have "role c = Fresh" "blocking c" using fresh [OF c] by simp_all
  then have "role c' = Fresh" "blocking c'" using c'(1) role_same [OF c'(1)] by (simp_all add: same_role_def)
  ultimately show ?thesis using transport_init_active [OF c'(2) ok] by simp
qed

section \<open>Listening and accepting\<close>

lemma lock_free [simp]: "listen_lock_free p = Inr u \<longleftrightarrow> closing p = None"
  by (auto simp: listen_lock_free_def)

lemma get_connection_queue_iff:
  "get_connection_queue c p = Inr f \<longleftrightarrow> listening c \<and> bound c \<and> f = hash_lookup_ptr (my_sd c) (listen_table p)"
  by (auto simp: get_connection_queue_def rbind_eq_Inr_iff)

lemma get_set_entry:
  "k < MAX_NUM_CONNECTIONS \<Longrightarrow> length (global_ctx p) = MAX_NUM_CONNECTIONS \<Longrightarrow> my_sd (fst e) = int k \<Longrightarrow>
    mysock_get_context (int k) (set_entry k e p) = Inr e"
  by (simp add: mysock_get_context_def set_entry_def)

lemma set_backlog_new:
  assumes "mysock_set_backlog k backlog p = Inr p'" "mysock_get_context (int k) p = Inr e" "my_sd (fst e) = int k"
    and "hash_lookup_ptr (int k) (listen_table p) = None"
  obtains q where "new_queue q" "max_len q = unat (backlog + 1)"
    "p' = set_queue (int k) q (p\<lparr>next_array := next_array p + 1\<rparr>)" "closing p = None"
proof -
  obtain port where port: "network_get_port e = Inr port" "closing p = None" "listening (fst e)" "bound (fst e)"
    using assms(1,2) by (auto simp: mysock_set_backlog_def rbind_eq_Inr_iff)
  let ?q0 = "\<lparr>queue_port = port, max_len = 0, cur_len = 0, queue_array = 0, connection_queue = [], completed_queue = []\<rparr>"
  let ?n = "unat (backlog + 1)"
  let ?q = "(if 0 < ?n then ?q0\<lparr>queue_array := next_array p, connection_queue := replicate ?n free_request\<rparr> else ?q0)
    \<lparr>max_len := ?n\<rparr>"
  have "p' = set_queue (int k) ?q (p\<lparr>next_array := next_array p + 1\<rparr>)"
    using assms port by (auto simp: mysock_set_backlog_def get_connection_queue_iff rbind_eq_Inr_iff Let_def)
  moreover have "new_queue ?q" "max_len ?q = ?n" by (auto simp: new_queue_def)
  ultimately show thesis using that port(2) by blast
qed

lemma listen_ok:
  assumes "mylisten rc sd backlog p = Inr (r, p')" "process_ok p"
    and fresh: "\<And>e. mysock_get_context sd p = Inr e \<Longrightarrow> role (fst e) = Fresh"
  shows "process_ok p'"
proof -
  obtain c tcp p1 where c: "mysock_get_context sd p = Inr (c, tcp)" "bound c"
    and p1: "mysock_set_backlog (nat sd) backlog (set_entry (nat sd) (c\<lparr>listening := True\<rparr>, tcp) p) = Inr p1"
    and p': "p' = p1 \<or> (\<exists>e. mysock_get_context sd p1 = Inr e \<and> p' = network_start_recv_thread (nat sd) e p1)"
    using assms(1) by (auto simp: mylisten_def rbind_eq_Inr_iff split: if_splits)
  obtain k where k: "sd = int k" "k < MAX_NUM_CONNECTIONS" "global_ctx p ! k = Some (c, tcp)"
    using get_context [OF assms(2) c(1)] by metis
  let ?e = "(c\<lparr>listening := True\<rparr>, tcp)"
  note len = process_okD(1) [OF assms(2)] and fits = process_okD(3) [OF assms(2) k(2)]
  have f: "role c = Fresh" using fresh [OF c(1)] by simp
  then have f': "\<not> listening c" "\<not> transport_thread_started c" by (auto simp: role_def split: if_splits)
  have my: "my_sd c = int k" using fits k(3) by (simp add: entry_fits_def)
  have r: "roles p k = Some Fresh" using k(2,3) len f by (simp add: roles_def)
  then have "queue_of p k = None" using queues_okD(1) [OF process_okD(4) [OF assms(2)], of k] by auto
  then have none: "hash_lookup_ptr (int k) (listen_table (set_entry k ?e p)) = None"
    by (simp add: queue_of_def set_entry_def)
  have get: "mysock_get_context (int k) (set_entry k ?e p) = Inr ?e" by (rule get_set_entry) (simp_all add: k(2) len my)
  obtain q where q: "new_queue q" "p1 = set_queue (int k) q ((set_entry k ?e p)\<lparr>next_array := next_array (set_entry k ?e p) + 1\<rparr>)"
    using set_backlog_new [OF p1 [unfolded k(1) nat_int] get _ none] my by auto
  have "mysock_get_context (int k) p1 = Inr ?e"
    using k(2) len my q(2) by (simp add: mysock_get_context_def process_changes)
  then have shape: "global_ctx p' = (global_ctx p)[k := Some (c\<lparr>listening := True\<rparr>, tcp)] \<or>
      (\<exists>tcp'. global_ctx p' = (global_ctx p)[k := Some (c\<lparr>listening := True\<rparr>, tcp')])"
    "threads p' = threads p" "listen_table p' = hash_set_entry (int k) q (listen_table p)" "closing p' = closing p"
    using p' k(1) q(2) by (auto simp: network_start_recv_thread_def process_changes)
  then obtain tcp' where g: "global_ctx p' = (global_ctx p)[k := Some (c\<lparr>listening := True\<rparr>, tcp')]" by blast
  show ?thesis
  proof (rule process_ok_change_role [OF assms(2) k(2) g shape(2)])
    show "entry_fits k (Some (c\<lparr>listening := True\<rparr>, tcp')) (threads p k)"
      using fits k(3) f' c(2) by (auto simp: entry_fits_def split: option.splits transport_thread.splits)
    show "hash_ok (listen_table p')" using shape(3) process_okD(2) [OF assms(2)] listen_map.put_ok by simp
    show "queues_ok ((roles p)(k := map_option (\<lambda>e. role (fst e)) (Some (c\<lparr>listening := True\<rparr>, tcp')))) (queue_of p') (closing p')"
      using queues_ok_listen [OF process_okD(4) [OF assms(2)] r q(1)] shape(3,4)
        queue_of_set [OF process_okD(2) [OF assms(2)] shape(3)]
      by (simp add: role_def)
  qed
qed

text \<open>Accepting takes the first completed connection of the queue.\<close>

lemma dequeue_cases:
  assumes "mysock_dequeue_connection c p = Inr (sd, p')" "process_ok p" "my_sd c = int l"
  obtains q j later where "queue_of p l = Some q" "completed_queue q = (queue_array q, j) # later" "closing p = None"
    "sd = req_sd (connection_queue q ! j)"
    "p' = set_queue (int l) (q\<lparr>completed_queue := later, connection_queue := (connection_queue q)[j := free_request],
        cur_len := cur_len q - 1\<rparr>) p"
proof -
  obtain q where q: "queue_of p l = Some q" "closing p = None"
    using assms(1,3)
    by (auto simp: mysock_dequeue_connection_def rbind_eq_Inr_iff get_connection_queue_iff queue_of_def split: option.splits)
  then show thesis using assms(1,3) that [OF q(1)]
    by (auto simp: mysock_dequeue_connection_def rbind_eq_Inr_iff get_connection_queue_iff queue_of_def Let_def
        split: list.splits if_splits)
qed

lemma dequeue_ok:
  assumes "mysock_dequeue_connection c p = Inr (sd, p')" "process_ok p" "my_sd c = int l"
  shows "process_ok p'"
  using assms
proof (cases rule: dequeue_cases)
  case (1 q j later)
  have "queues_ok (roles p) (queue_of p) None" using process_okD(4) [OF assms(2)] 1(3) by simp
  from queues_ok_accept [OF this 1(1,2)] show ?thesis
    using 1 queue_of_set [OF process_okD(2) [OF assms(2)], of p' l] process_okD(2) [OF assms(2)]
    by (intro process_ok_queue [OF assms(2)]) (simp_all add: set_queue_def listen_map.put_ok)
qed

lemma accept_ok:
  assumes "myaccept sd p = Inr (r, err, a, p')" "process_ok p"
  shows "process_ok p'"
proof -
  obtain c tcp where c: "mysock_get_context sd p = Inr (c, tcp)"
    and p': "p' = p \<or> (\<exists>new. mysock_dequeue_connection c p = Inr (new, p'))"
    using assms(1) by (auto simp: myaccept_def rbind_eq_Inr_iff Let_def split: if_splits)
  obtain k where "k < MAX_NUM_CONNECTIONS" "global_ctx p ! k = Some (c, tcp)"
    using get_context [OF assms(2) c] by metis
  then have "my_sd c = int k" using process_okD(3) [OF assms(2)] by (fastforce simp: entry_fits_def)
  then show ?thesis using p' assms(2) dequeue_ok by blast
qed

end
