(* ===== verification/Mysock_Threads.thy ===== *)
theory Mysock_Threads
  imports Mysock_Steps
begin

text \<open>
  The transport thread and the network thread of a mysocket keep the invariant.
\<close>

section \<open>A connection is set up\<close>

lemma get_context_my_sd: "mysock_get_context sd p = Inr e \<Longrightarrow> my_sd (fst e) = sd"
  by (auto simp: mysock_get_context_def rbind_eq_Inr_iff split: option.splits)

lemma complete_cases:
  assumes "mysock_passive_connection_complete c p = Inr p'" "my_sd c = int k"
  obtains (none) "p' = p" "hash_lookup_ptr (listen_sd c) (listen_table p) = None" "0 \<le> listen_sd c"
    | (queued) q j where "hash_lookup_ptr (listen_sd c) (listen_table p) = Some q" "0 \<le> listen_sd c" "closing p = None"
      "used q j" "req_sd (connection_queue q ! j) = int k"
      "p' = set_queue (listen_sd c) (q\<lparr>completed_queue := completed_queue q @ [(queue_array q, j)]\<rparr>) p"
proof -
  obtain lc ltcp where e: "mysock_get_context (listen_sd c) p = Inr (lc, ltcp)" "listening lc" "bound lc"
    and c: "closing p = None" "0 \<le> listen_sd c"
    using assms(1) by (auto simp: mysock_passive_connection_complete_def rbind_eq_Inr_iff get_connection_queue_iff)
  have my: "my_sd lc = listen_sd c" using get_context_my_sd [OF e(1)] by simp
  show thesis
  proof (cases "hash_lookup_ptr (listen_sd c) (listen_table p)")
    case None
    then show thesis using none assms(1) e my c
      by (auto simp: mysock_passive_connection_complete_def rbind_eq_Inr_iff get_connection_queue_iff)
  next
    case (Some q)
    then obtain j where "find (\<lambda>j. req_sd (connection_queue q ! j) = my_sd c) [0..<max_len q] = Some j"
      "p' = set_queue (listen_sd c) (q\<lparr>completed_queue := completed_queue q @ [(queue_array q, j)]\<rparr>) p"
      using assms(1) e my
      by (auto simp: mysock_passive_connection_complete_def rbind_eq_Inr_iff get_connection_queue_iff
          split: if_splits option.splits)
    then show thesis using queued [OF Some c(2,1)] assms(2) by (auto simp: find_Some_iff used_def)
  qed
qed

lemma unblocked_ok:
  assumes ok: "process_ok p" and k: "k < MAX_NUM_CONNECTIONS" "global_ctx p ! k = Some (c, tcp)" "blocking c"
      "transport_thread_started c"
    and c1: "my_sd c1 = my_sd c" "listening c1 = listening c" "transport_thread_started c1" "is_active c1 = is_active c"
      "listen_sd c1 = listen_sd c" "\<not> blocking c1"
      "peer_addr_len (network_state c1) = peer_addr_len (network_state c)"
    and u: "unblocked k c1 tcp p = Inr p1" and t: "\<And>ph d. t \<noteq> Handshaking ph d"
    and p': "global_ctx p' = global_ctx p1" "listen_table p' = listen_table p1" "closing p' = closing p1"
      "threads p' = (threads p1)(k := Some t)"
  shows "process_ok p'"
proof -
  have fits: "my_sd c = int k" "\<not> listening c" "\<not> is_active c \<longrightarrow> 0 \<le> listen_sd c \<and> 0 < peer_addr_len (network_state c)"
    using process_okD(3) [OF ok k(1)] k by (auto simp: entry_fits_def)
  note len = process_okD(1) [OF ok] and hash = process_okD(2) [OF ok] and Q = process_okD(4) [OF ok]
  have r: "roles p k = Some (role c)" using k(1,2) len by (simp add: roles_def)
  have new: "entry_fits k (Some (c1, tcp)) (Some t)"
    using fits c1 t by (cases t) (auto simp: entry_fits_def)
  show ?thesis
  proof (cases "is_active c")
    case True
    then have "p1 = set_entry k (c1, tcp) p" using u c1(4) by (simp add: unblocked_def)
    then have s: "global_ctx p' = (global_ctx p)[k := Some (c1, tcp)]" "threads p' = (threads p)(k := Some t)"
      "listen_table p' = listen_table p" "closing p' = closing p" using p' by (simp_all add: set_entry_def)
    have "role c1 = role c" using True c1 k(4) by (simp add: role_def)
    then have "(roles p)(k := map_option (\<lambda>e. role (fst e)) (Some (c1, tcp))) = roles p" using r by auto
    then show ?thesis
      using process_ok_change [OF ok k(1) s(1,2) new] s(3,4) hash Q queue_of_same [OF s(3)] by simp
  next
    case False
    let ?p = "set_entry k (c1, tcp) p"
    define l where "l = nat (listen_sd c)"
    have l: "listen_sd c1 = int l" using False fits c1(5) by (simp add: l_def)
    have "roles p k = Some (Passive l True)"
      using r False fits(2) k(3,4) by (simp add: role_def l_def)
    then obtain q j where q: "queue_of p l = Some q" using queues_okD(4) [OF Q] by blast
    have "mysock_passive_connection_complete c1 ?p = Inr p1" using u False c1(4) by (simp add: unblocked_def)
    moreover have "my_sd c1 = int k" using c1(1) fits(1) by simp
    ultimately show ?thesis
    proof (cases rule: complete_cases)
      case none
      then show ?thesis using q l by (simp add: queue_of_def set_entry_def)
    next
      case (queued q' j)
      then have q': "q' = q" using q l by (simp add: queue_of_def set_entry_def)
      let ?q = "q\<lparr>completed_queue := completed_queue q @ [(queue_array q, j)]\<rparr>"
      have s: "global_ctx p' = (global_ctx p)[k := Some (c1, tcp)]" "threads p' = (threads p)(k := Some t)"
        "listen_table p' = hash_set_entry (int l) ?q (listen_table p)" "closing p' = None" "closing p = None"
        using p' queued l q' by (simp_all add: process_changes)
      have "queues_ok (roles p) (queue_of p) None" using Q s(5) by simp
      from queues_ok_complete [OF this q \<open>roles p k = Some (Passive l True)\<close> queued(4,5) [unfolded q']]
      have "queues_ok ((roles p)(k := map_option (\<lambda>e. role (fst e)) (Some (c1, tcp)))) (queue_of p') (closing p')"
        using queue_of_set [OF hash s(3)] s(4) c1 fits(2) False by (simp add: role_def l_def)
      then show ?thesis
        using process_ok_change [OF ok k(1) s(1,2) new] s(3) listen_map.put_ok [OF hash] by simp
    qed
  qed
qed

section \<open>The transport thread\<close>

lemma connected_cases:
  assumes "transport_connected (ph, c, d) = Inr (c1, res)"
  shows "my_sd c1 = my_sd c \<and> listening c1 = listening c \<and> transport_thread_started c1 = transport_thread_started c \<and>
    is_active c1 = is_active c \<and> listen_sd c1 = listen_sd c \<and> \<not> blocking c1 \<and>
    peer_addr_len (network_state c1) = peer_addr_len (network_state c)"
  using assms by (auto simp: transport_connected_def stcp_unblock_application_def rbind_eq_Inr_iff split: if_splits)

lemma transport_end_ok:
  assumes "transport_thread_end k (c, tcp) p = Inr p'" "process_ok p" "k < MAX_NUM_CONNECTIONS"
    "global_ctx p ! k = Some (c, tcp)" "\<not> blocking c" "transport_thread_started c"
  shows "process_ok p'"
proof -
  have "p' = (set_entry k (c\<lparr>app_send_queue := mysock_enqueue_buffer (app_send_queue c) []\<rparr>, tcp) p)
      \<lparr>threads := (threads p)(k := Some Returned)\<rparr>"
    using assms by (simp add: transport_thread_end_def)
  then show ?thesis
    using process_okD(3) [OF assms(2,3)] assms(4,5,6)
    by (intro process_ok_same [OF assms(2,3,4) same_role_updates(5), where t = "Some Returned"])
      (auto simp: set_entry_def entry_fits_def)
qed

lemma transport_thread_ok:
  assumes "transport_thread_func k p = Inr p'" "process_ok p" "k < MAX_NUM_CONNECTIONS"
  shows "process_ok p'"
proof -
  obtain c tcp where c: "global_ctx p ! k = Some (c, tcp)"
    using assms(1) by (auto simp: transport_thread_func_def split: option.splits)
  note fits = process_okD(3) [OF assms(2,3), unfolded c]
  consider (hs) ph d where "threads p k = Some (Handshaking ph d)" | (ctl) d where "threads p k = Some (Controlling d)"
    | (ending) "threads p k = Some Ending"
    using assms(1) c by (cases "threads p k") (auto simp: transport_thread_func_def split: transport_thread.splits)
  then show ?thesis
  proof cases
    case (hs ph d)
    show ?thesis
    proof (cases "ph = Handshake_Done \<or> ph = Handshake_Failed")
      case True
      obtain c1 res p1 where u: "transport_connected (ph, c, d) = Inr (c1, res)" "unblocked k c1 tcp p = Inr p1"
        and p': "p' = p1\<lparr>threads := (threads p1)(k := Some (case res of None \<Rightarrow> Ending | Some d \<Rightarrow> Controlling d))\<rparr>"
        using assms(1) c hs True by (auto simp: transport_thread_func_def rbind_eq_Inr_iff)
      have f: "\<not> listening c" "transport_thread_started c" "blocking c" using fits hs by (auto simp: entry_fits_def)
      show ?thesis
        using connected_cases [OF u(1)] f
        by (intro unblocked_ok [OF assms(2,3) c _ _ _ _ _ _ _ _ _ u(2),
              where p' = p' and t = "case res of None \<Rightarrow> Ending | Some d \<Rightarrow> Controlling d"])
          (auto simp: p' split: option.splits)
    next
      case False
      then obtain ph' c1 d' where s: "handshake_step (ph, c, d) = Inr (ph', c1, d')"
        and p': "p' = (set_entry k (c1, tcp) p)\<lparr>threads := (threads p)(k := Some (Handshaking ph' d'))\<rparr>"
        using assms(1) c hs by (auto simp: transport_thread_func_def rbind_eq_Inr_iff)
      show ?thesis using fits hs
        by (intro process_ok_same [OF assms(2,3) c handshake_role [OF s], where t = "Some (Handshaking ph' d')"])
          (auto simp: p' set_entry_def entry_fits_def)
    qed
  next
    case (ctl d)
    show ?thesis
    proof (cases "ctx_done d")
      case True
      then have p': "p' = p\<lparr>threads := (threads p)(k := Some Ending)\<rparr>"
        using assms(1) c ctl by (simp add: transport_thread_func_def)
      have "(global_ctx p)[k := Some (c, tcp)] = global_ctx p" using c by (metis list_update_id)
      then show ?thesis using fits ctl
        by (intro process_ok_same [OF assms(2,3) c same_role_refl, where t = "Some Ending" and tcp' = tcp])
          (auto simp: p' entry_fits_def)
    next
      case False
      then obtain c1 d' where s: "control_iteration (c, d) = Inr (c1, d')"
        and p': "p' = (set_entry k (c1, tcp) p)\<lparr>threads := (threads p)(k := Some (Controlling d'))\<rparr>"
        using assms(1) c ctl by (auto simp: transport_thread_func_def rbind_eq_Inr_iff)
      show ?thesis using fits ctl
        by (intro process_ok_same [OF assms(2,3) c control_iteration_role [OF s], where t = "Some (Controlling d')"])
          (auto simp: p' set_entry_def entry_fits_def)
    qed
  next
    case ending
    then have "transport_thread_end k (c, tcp) p = Inr p'" using assms(1) c by (simp add: transport_thread_func_def)
    then show ?thesis using transport_end_ok [OF _ assms(2,3) c] fits ending by (simp add: entry_fits_def)
  qed
qed

section \<open>A request\<close>

lemma find_free_used:
  assumes "find_free_request q = Some k" "req_sd (connection_queue q ! k) = -1"
  shows "k < max_len q" "\<not> used q k"
  using assms by (auto simp: find_free_request_def find_Some_iff used_def)

text \<open>A connection that is not established leaves everything as it is.\<close>

lemma restore_queue:
  assumes "slots_ok i R l q" "j < max_len q" "i \<le> j" "\<not> used q j"
  shows "q\<lparr>cur_len := cur_len q, connection_queue := (connection_queue q)[j := free_request]\<rparr> = q"
proof -
  have "(connection_queue q)[j := free_request] = connection_queue q"
    using unused_slot [OF assms(1,4,3,2)] by (metis list_update_id)
  then show ?thesis by simp
qed

text \<open>A new connection that gets a mysocket.\<close>

lemma establish_new:
  assumes ok: "process_ok p" and l: "l < MAX_NUM_CONNECTIONS" "global_ctx p ! l = Some (lc, ltcp)"
    and n: "mysock_new_mysocket (is_reliable (network_state lc)) p = Inr (int k, p1)"
    and p1: "p1 = set_entry k (c\<lparr>my_sd := int k\<rparr>, tcp) (set_os s p)"
    and k: "k < MAX_NUM_CONNECTIONS" "global_ctx p ! k = None" and c: "fresh_context c"
  shows "\<exists>p'. establish l j packet peer len q p = Inr (True, p') \<and>
    global_ctx p' = (global_ctx p)[l := Some (lc, ltcp\<lparr>new_socket := -1\<rparr>),
      k := Some (c\<lparr>my_sd := int k, listen_sd := int l,
        network_state := (network_state c)\<lparr>peer_addr := peer, peer_addr_len := nat len, peer_addr_valid := True,
          local_port := local_port (network_state lc)\<rparr>,
        is_active := False, transport_thread_started := True, network_recv_queue := [packet]\<rparr>,
        tcp\<lparr>socket_fd := new_socket ltcp, tcp_connected := True, recv_thread_started := True\<rparr>)] \<and>
    threads p' = (threads p)(k := Some (Handshaking Passive_Listen init_context)) \<and>
    listen_table p' = hash_set_entry (int l) (q\<lparr>connection_queue :=
      (connection_queue q)[j := \<lparr>req_addr = peer, req_addr_len = len, req_sd = int k\<rparr>]\<rparr>) (listen_table p) \<and>
    closing p' = closing p \<and> receivers p' = insert k (receivers p)"
proof -
  have lfit: "my_sd lc = int l" using process_okD(3) [OF ok l(1)] l(2) by (simp add: entry_fits_def)
  have getl: "mysock_get_context (int l) p = Inr (lc, ltcp)" by (rule get_context_entry [OF ok l])
  have kl: "k \<noteq> l" using k(2) l(2) by auto
  note len = process_okD(1) [OF ok]
  let ?c = "c\<lparr>my_sd := int k\<rparr>"
  have getk: "mysock_get_context (int k) p1 = Inr (?c, tcp)"
    unfolding p1 by (rule get_set_entry) (simp_all add: k(1) len set_os_def)
  let ?c1 = "?c\<lparr>listen_sd := int l, network_state := (network_state ?c)
    \<lparr>peer_addr := peer, peer_addr_len := nat len, peer_addr_valid := True\<rparr>\<rparr>"
  let ?new = "(?c1\<lparr>network_state := (network_state ?c1)\<lparr>local_port := local_port (network_state lc)\<rparr>\<rparr>,
    tcp\<lparr>socket_fd := new_socket ltcp, tcp_connected := True\<rparr>)"
  let ?q = "q\<lparr>connection_queue := (connection_queue q)[j := \<lparr>req_addr = peer, req_addr_len = len, req_sd = int k\<rparr>]\<rparr>"
  let ?p2 = "set_os (closesocket (socket_fd tcp) (os p1)) (set_entry l (lc, ltcp\<lparr>new_socket := -1\<rparr>)
    (set_entry k ?new (set_queue (int l) ?q p1)))"
  have up: "network_update_passive_state (?c1, tcp) (lc, ltcp) (os p1) =
      Inr (?new, (lc, ltcp\<lparr>new_socket := -1\<rparr>), closesocket (socket_fd tcp) (os p1))"
    using c by (simp add: network_update_passive_state_def fresh_context_def)
  have get2: "mysock_get_context (int k) ?p2 = Inr ?new"
    using k(1) len kl by (simp add: mysock_get_context_def process_changes p1)
  let ?p3 = "(set_entry k ((fst ?new)\<lparr>is_active := False, transport_thread_started := True\<rparr>,
      (snd ?new)\<lparr>recv_thread_started := True\<rparr>) ?p2)
    \<lparr>receivers := insert k (receivers ?p2), threads := (threads ?p2)(k := Some (Handshaking Passive_Listen init_context))\<rparr>"
  have init: "mysock_transport_init (int k) False ?p2 = Inr ?p3"
    using get2 c
    by (simp add: mysock_transport_init_def network_start_recv_thread_def transport_start_def fresh_context_def
        set_entry_def set_os_def)
  have get3: "mysock_get_context (int k) ?p3 = Inr ((fst ?new)\<lparr>is_active := False, transport_thread_started := True\<rparr>,
      (snd ?new)\<lparr>recv_thread_started := True\<rparr>)"
    using k(1) len kl by (simp add: mysock_get_context_def process_changes p1)
  have "establish l j packet peer len q p = Inr (True, set_entry k ((fst ?new)\<lparr>is_active := False,
      transport_thread_started := True, network_recv_queue := mysock_enqueue_buffer (network_recv_queue c) packet\<rparr>,
      (snd ?new)\<lparr>recv_thread_started := True\<rparr>) ?p3)"
    using getl n lfit getk up init get3 unfolding establish_def by (simp add: Let_def)
  then show ?thesis
    using c len l(1) k(1) kl unfolding p1
    by (simp add: process_changes mysock_enqueue_buffer_def fresh_context_def list_update_swap)
qed

lemma establish_cases:
  assumes "establish l j packet peer len (q\<lparr>cur_len := cur_len q + 1\<rparr>) p = Inr (b, p')" "process_ok p"
    and l: "l < MAX_NUM_CONNECTIONS" "global_ctx p ! l = Some (lc, ltcp)"
  obtains (full) s where "\<not> b" "p' = set_queue (int l) (q\<lparr>cur_len := cur_len q,
      connection_queue := (connection_queue q)[j := free_request]\<rparr>) (set_os s p)"
    | (new) k c c' tcp' where "b" "k < MAX_NUM_CONNECTIONS" "global_ctx p ! k = None" "k \<noteq> l"
      "fresh_context c"
      "c' = c\<lparr>my_sd := int k, listen_sd := int l,
        network_state := (network_state c)\<lparr>peer_addr := peer, peer_addr_len := nat len, peer_addr_valid := True,
          local_port := local_port (network_state lc)\<rparr>,
        is_active := False, transport_thread_started := True, network_recv_queue := [packet]\<rparr>"
      "socket_fd tcp' = new_socket ltcp" "tcp_connected tcp'" "recv_thread_started tcp'"
      "global_ctx p' = (global_ctx p)[l := Some (lc, ltcp\<lparr>new_socket := -1\<rparr>), k := Some (c', tcp')]"
      "threads p' = (threads p)(k := Some (Handshaking Passive_Listen init_context))"
      "listen_table p' = hash_set_entry (int l) (q\<lparr>cur_len := cur_len q + 1, connection_queue :=
        (connection_queue q)[j := \<lparr>req_addr = peer, req_addr_len = len, req_sd = int k\<rparr>]\<rparr>) (listen_table p)"
      "closing p' = closing p" "receivers p' = insert k (receivers p)"
      "is_reliable (network_state c) = is_reliable (network_state lc)" "local_ip (network_state c) = interface_ip (os p)"
proof -
  have lfit: "my_sd lc = int l" using process_okD(3) [OF assms(2) l(1)] l(2) by (simp add: entry_fits_def)
  have getl: "mysock_get_context (int l) p = Inr (lc, ltcp)" by (rule get_context_entry [OF assms(2) l])
  obtain sd p1 where n: "mysock_new_mysocket (is_reliable (network_state lc)) p = Inr (sd, p1)"
    using assms(1) getl by (auto simp: establish_def rbind_eq_Inr_iff)
  from n assms(2) show thesis
  proof (cases rule: new_mysocket_cases)
    case (full s)
    then show thesis using that(1) [of s] assms(1) getl n by (simp add: establish_def)
  next
    case (new k c tcp s)
    have kl: "k \<noteq> l" using new(3) l(2) by auto
    obtain p2 where p2: "establish l j packet peer len (q\<lparr>cur_len := cur_len q + 1\<rparr>) p = Inr (True, p2)"
      using establish_new [OF assms(2) l n [unfolded new(1)] new(5,2,3,4)] by blast
    have eq: "b" "p' = p2" using assms(1) p2 by auto
    show thesis
      by (rule that(2) [OF eq(1) new(2,3) kl new(4) refl, where tcp' = "tcp\<lparr>socket_fd := new_socket ltcp,
          tcp_connected := True, recv_thread_started := True\<rparr>"])
        (use establish_new [OF assms(2) l n [unfolded new(1)] new(5,2,3,4), of j packet peer len "q\<lparr>cur_len := cur_len q + 1\<rparr>"]
          assms(1) new in \<open>auto simp: eq(1)\<close>)
  qed
qed

lemma enqueue_cases:
  assumes "mysock_enqueue_connection l packet peer len p = Inr (b, p')" "process_ok p"
    and l: "l < MAX_NUM_CONNECTIONS" "global_ctx p ! l = Some (lc, ltcp)"
  obtains (dropped) "\<not> b" "p' = p"
    | (request) q j where "queue_of p l = Some q" "closing p = None" "j < max_len q" "\<not> used q j"
      "establish l j packet peer len (q\<lparr>cur_len := cur_len q + 1\<rparr>) p = Inr (b, p')"
proof -
  have my: "my_sd lc = int l" using process_okD(3) [OF assms(2) l(1)] l(2) by (simp add: entry_fits_def)
  have get: "mysock_get_context (int l) p = Inr (lc, ltcp)" by (rule get_context_entry [OF assms(2) l])
  show thesis
  proof (cases "b = False \<and> p' = p")
    case True
    then show thesis using dropped by simp
  next
    case False
    then obtain q j where q: "queue_of p l = Some q" "closing p = None" "find_free_request q = Some j"
      "req_sd (connection_queue q ! j) = -1" "establish l j packet peer len (q\<lparr>cur_len := cur_len q + 1\<rparr>) p = Inr (b, p')"
      using assms(1) get my
      by (auto simp: mysock_enqueue_connection_def rbind_eq_Inr_iff get_connection_queue_iff queue_of_def
          split: if_splits option.splits)
    then show thesis using request find_free_used [OF q(3,4)] by blast
  qed
qed

lemma enqueue_ok:
  assumes "mysock_enqueue_connection l packet peer 16 p = Inr (b, p')" "process_ok p"
    and l: "l < MAX_NUM_CONNECTIONS" "global_ctx p ! l = Some (lc, ltcp)"
  shows "process_ok p'"
  using assms
proof (cases rule: enqueue_cases)
  case (request q j)
  note hash = process_okD(2) [OF assms(2)]
  have Q: "queues_ok (roles p) (queue_of p) None" using process_okD(4) [OF assms(2)] request(2) by simp
  have s: "slots_ok 0 (roles p) l q" using queues_okD(2) [OF Q request(1)] by simp
  from request(5) assms(2) l show ?thesis
  proof (cases rule: establish_cases)
    case (full os')
    have p': "p' = set_queue (int l) q (set_os os' p)"
      using full(2) restore_queue [OF s request(3) _ request(4)] by simp
    have "queue_of p' = (queue_of p)(l \<mapsto> q)"
      using queue_of_set [of p p' l q] hash p' by (simp add: process_changes)
    moreover have "(queue_of p)(l \<mapsto> q) = queue_of p" using request(1) by auto
    ultimately show ?thesis using p' Q request(2) listen_map.put_ok [OF hash]
      by (intro process_ok_queue [OF assms(2)]) (simp_all add: process_changes)
  next
    case (new k c c' tcp')
    let ?p = "set_entry l (lc, ltcp\<lparr>new_socket := -1\<rparr>) p"
    have ok: "process_ok ?p" by (rule process_ok_set_entry [OF assms(2) l same_role_refl])
    have r: "roles ?p k = None"
      using new(2,3,4) process_okD(1) [OF assms(2)] by (simp add: roles_def set_entry_def)
    have "queues_ok (roles ?p) (queue_of ?p) None" "queue_of ?p l = Some q"
      using process_okD(4) [OF ok] request(1,2) queue_of_same [of ?p p] by (simp_all add: set_entry_def)
    from queues_ok_request [OF this r request(3,4), of "\<lparr>req_addr = peer, req_addr_len = 16, req_sd = int k\<rparr>"]
    have Q': "queues_ok ((roles ?p)(k := map_option (\<lambda>e. role (fst e)) (Some (c', tcp')))) (queue_of p') (closing p')"
      using queue_of_set [OF hash new(12)] new(6,5,13) request(2) queue_of_same [of ?p p]
      by (simp add: set_entry_def role_def fresh_context_def)
    show ?thesis
    proof (rule process_ok_change [OF ok new(2)])
      show "global_ctx p' = (global_ctx ?p)[k := Some (c', tcp')]" using new(10) by (simp add: set_entry_def)
      show "threads p' = (threads ?p)(k := Some (Handshaking Passive_Listen init_context))"
        using new(11) by (simp add: set_entry_def)
      show "entry_fits k (Some (c', tcp')) (Some (Handshaking Passive_Listen init_context))"
        using new(5,6) by (simp add: entry_fits_def fresh_context_def)
      show "hash_ok (listen_table p')" using new(12) listen_map.put_ok [OF hash] by simp
      show "queues_ok ((roles ?p)(k := map_option (\<lambda>e. role (fst e)) (Some (c', tcp')))) (queue_of p') (closing p')"
        by (fact Q')
    qed
  qed
qed (use assms(2) in simp)

section \<open>The network thread\<close>

lemma tcp_connect_same: "tcp_connect connects e = Inr (rc, e1) \<Longrightarrow> fst e1 = fst e"
  by (auto simp: tcp_connect_def Let_def rbind_eq_Inr_iff split: prod.splits if_splits)

lemma recv_packet_role:
  assumes "network_recv_packet connects n e s = Inr (rc, packet, e1, s1)"
  shows "same_role (fst e) (fst e1)" "0 < rc \<Longrightarrow> listening (fst e) \<Longrightarrow> peer_addr_len (network_state (fst e1)) = 16"
proof -
  obtain rc0 e0 where a: "(if is_active (fst e) then tcp_connect connects e else Inr (0, e)) = Inr (rc0, e0)"
    using assms by (cases "if is_active (fst e) then tcp_connect connects e else Inr (0, e)")
      (auto simp: network_recv_packet_def rbind_eq_Inr_iff)
  have e0: "fst e0 = fst e" using a tcp_connect_same by (auto split: if_splits)
  have rest: "(rc0 < 0 \<and> rc = -1 \<and> e1 = e0) \<or>
      (if listening (fst e0) then network_accept e0 s else Inr (socket_fd (snd e0), e0, s)) = Inr (rc, e1, s1) \<and> rc < 0 \<or>
      (\<exists>fd s2. (if listening (fst e0) then network_accept e0 s else Inr (socket_fd (snd e0), e0, s)) = Inr (fd, e1, s2) \<and> 0 \<le> fd)"
    using assms a by (auto simp: network_recv_packet_def rbind_eq_Inr_iff split: if_splits)
  have acc: "same_role (fst e0) (fst e2) \<and> (0 \<le> fd \<longrightarrow> peer_addr_len (network_state (fst e2)) = 16)"
    if "network_accept e0 s = Inr (fd, e2, s2)" for fd e2 s2
    using that by (auto simp: network_accept_def Let_def rbind_eq_Inr_iff split: prod.splits list.splits option.splits)
  show "same_role (fst e) (fst e1)"
    using rest e0 acc by (cases e1) (auto split: if_splits)
  show "peer_addr_len (network_state (fst e1)) = 16" if "0 < rc" "listening (fst e)"
    using rest e0 acc that by (cases e1) (auto split: if_splits)
qed

lemma recv_thread_ok:
  assumes "network_recv_thread connects k p = Inr p'" "process_ok p" "k < MAX_NUM_CONNECTIONS"
  shows "process_ok p'"
proof -
  obtain c tcp where c: "global_ctx p ! k = Some (c, tcp)"
    using assms(1) by (auto simp: network_recv_thread_def split: option.splits)
  obtain rc packet c1 tcp1 s where r: "network_recv_packet connects MAX_IP_PAYLOAD_LEN (c, tcp) (os p) = Inr (rc, packet, (c1, tcp1), s)"
    using assms(1) c by (auto simp: network_recv_thread_def rbind_eq_Inr_iff)
  let ?p1 = "set_os s (set_entry k (c1, tcp1) p)"
  have role: "same_role c c1" using recv_packet_role(1) [OF r] by simp
  have ok: "process_ok ?p1" using process_ok_set_entry [OF assms(2,3) c role] by simp
  have c1: "global_ctx ?p1 ! k = Some (c1, tcp1)"
    using assms(3) process_okD(1) [OF assms(2)] by (simp add: process_changes)
  consider "rc \<le> 0" "p' = ?p1\<lparr>receivers := receivers ?p1 - {k}\<rparr>"
    | b where "0 < rc" "listening c1" "mysock_enqueue_connection k packet (peer_addr (network_state c1))
        (int (peer_addr_len (network_state c1))) ?p1 = Inr (b, p')"
    | q where "p' = set_entry k (c1\<lparr>network_recv_queue := q\<rparr>, tcp1) ?p1"
    using assms(1) c r by (auto simp: network_recv_thread_def rbind_eq_Inr_iff Let_def split: if_splits)
  then show ?thesis
  proof cases
    case 1
    then show ?thesis using ok roles_same [of p' ?p1] queue_of_same [of p' ?p1] by (simp add: process_ok_def)
  next
    case 2
    then have "peer_addr_len (network_state c1) = 16" using recv_packet_role(2) [OF r] role by (simp add: same_role_def)
    then show ?thesis using enqueue_ok [OF _ ok assms(3) c1] 2(3) by simp
  next
    case 3
    then show ?thesis using process_ok_set_entry [OF ok assms(3) c1 same_role_updates(4)] by simp
  qed
qed

section \<open>Closing\<close>

lemma close_cases:
  assumes "myclose_finish sd p = Inr p'" "process_ok p"
  obtains (gone) k c tcp where "sd = int k" "k < MAX_NUM_CONNECTIONS" "global_ctx p ! k = Some (c, tcp)" "\<not> listening c"
      "transport_thread_started c \<longrightarrow> threads p k = Some Returned" "global_ctx p' = (global_ctx p)[k := None]"
      "threads p' = (threads p)(k := None)" "listen_table p' = listen_table p" "closing p' = closing p"
    | (listener) k c tcp tcp' q where "sd = int k" "k < MAX_NUM_CONNECTIONS" "global_ctx p ! k = Some (c, tcp)"
      "queue_of p k = Some q" "closing p = None" "global_ctx p' = (global_ctx p)[k := Some (c, tcp')]"
      "threads p' = threads p" "listen_table p' = listen_table p" "closing p' = Some (k, 0, False)"
proof -
  obtain p1 where join: "myclose_join sd p = Inr p1"
    using assms(1) by (auto simp: myclose_finish_def rbind_eq_Inr_iff)
  obtain c tcp where c: "mysock_get_context sd p = Inr (c, tcp)"
    using join by (auto simp: myclose_join_def rbind_eq_Inr_iff)
  obtain k where k: "sd = int k" "k < MAX_NUM_CONNECTIONS" "global_ctx p ! k = Some (c, tcp)"
    using get_context [OF assms(2) c] by metis
  note len = process_okD(1) [OF assms(2)]
  have fits: "my_sd c = int k" "listening c \<longrightarrow> \<not> transport_thread_started c"
    "\<not> transport_thread_started c \<longrightarrow> threads p k = None"
    using process_okD(3) [OF assms(2) k(2)] k(3)
    by (auto simp: entry_fits_def split: option.splits transport_thread.splits)
  let ?c = "if transport_thread_started c then c\<lparr>transport_thread_started := False\<rparr> else c"
  let ?p0 = "p\<lparr>global_ctx := (global_ctx p)[k := Some (?c, tcp)], threads := (threads p)(k := None)\<rparr>"
  have same: "?p0 = p" if "\<not> transport_thread_started c"
  proof -
    have "(global_ctx p)[k := Some (c, tcp)] = global_ctx p" using k(3) by (metis list_update_id)
    moreover have "(threads p)(k := None) = threads p" using fits(3) that by auto
    ultimately show ?thesis using that by simp
  qed
  have returned: "transport_thread_started c \<longrightarrow> threads p k = Some Returned"
    using join c k(1) by (auto simp: myclose_join_def rbind_eq_Inr_iff split: if_splits)
  have get0: "mysock_get_context sd ?p0 = Inr (?c, tcp)"
    using k(1,2) len fits(1) by (simp add: mysock_get_context_def)
  have p1: "p1 = network_stop_recv_thread k (?c, tcp) ?p0"
  proof (cases "transport_thread_started c")
    case True
    then show ?thesis using join c get0 k(1) returned
      by (auto simp: myclose_join_def rbind_eq_Inr_iff set_entry_def split: if_splits)
  next
    case False
    then show ?thesis using join c k(1) same [OF False] by (simp add: myclose_join_def)
  qed
  have "\<exists>tcp'. global_ctx p1 = (global_ctx p)[k := Some (?c, tcp')]" "threads p1 = (threads p)(k := None)"
    "listen_table p1 = listen_table p" "closing p1 = closing p"
    unfolding p1 by (auto simp: network_stop_recv_thread_def set_entry_def)
  then obtain tcp' where p1: "global_ctx p1 = (global_ctx p)[k := Some (?c, tcp')]" "threads p1 = (threads p)(k := None)"
    "listen_table p1 = listen_table p" "closing p1 = closing p" by blast
  define c1 where "c1 = ?c"
  note p1 = p1 [folded c1_def]
  have c1: "my_sd c1 = int k" "listening c1 = listening c" "bound c1 = bound c"
      "\<not> transport_thread_started c \<longrightarrow> c1 = c" "transport_thread_started c \<longrightarrow> threads p k = Some Returned"
    using fits(1) returned by (simp_all add: c1_def)
  have g1: "global_ctx p1 ! k = Some (c1, tcp')" "listen_table p1 = listen_table p" "closing p1 = closing p"
    "length (global_ctx p1) = MAX_NUM_CONNECTIONS" "global_ctx p1 = (global_ctx p)[k := Some (c1, tcp')]"
    "threads p1 = (threads p)(k := None)"
    using p1 k(2) len by simp_all
  have get: "mysock_get_context sd p1 = Inr (c1, tcp')"
    using g1(1) k(1,2) c1(1) by (simp add: mysock_get_context_def)
  have free: "mysock_free_context k p1 = Inr p'' \<Longrightarrow> global_ctx p'' = (global_ctx p)[k := None] \<and>
      threads p'' = (threads p)(k := None) \<and> listen_table p'' = listen_table p \<and> closing p'' = closing p" for p''
    using g1 c1(1) by (auto simp: mysock_free_context_def Let_def set_os_def)
  show thesis
  proof (cases "listening c")
    case False
    then have "mysock_free_context k p1 = Inr p'"
      using assms(1) join get c1(2) k(1) by (simp add: myclose_finish_def)
    from free [OF this] show thesis using gone [OF k False] c1(5) by simp
  next
    case True
    have "roles p k = Some Listener" using k(2,3) len True by (simp add: roles_def role_def)
    then obtain q where q: "queue_of p k = Some q"
      using queues_okD(1) [OF process_okD(4) [OF assms(2)], of k] by auto
    then have "hash_lookup_ptr (my_sd c1) (listen_table p1) = Some q" using c1(1) g1(2) by (simp add: queue_of_def)
    then have p': "closing p = None" "p' = p1\<lparr>closing := Some (k, 0, False)\<rparr>"
      using assms(1) join get c1(2) True k(1) g1(3)
      by (auto simp: myclose_finish_def rbind_eq_Inr_iff get_connection_queue_iff)
    have "c1 = c" "threads p k = None" using c1(4) fits True by simp_all
    moreover have "(threads p)(k := None) = threads p" using \<open>threads p k = None\<close> by auto
    ultimately show thesis using listener [OF k q p'(1)] p'(2) g1 by simp
  qed
qed

lemma close_finish_ok:
  assumes "myclose_finish sd p = Inr p'" "process_ok p"
    and own: "loose (roles p) (queue_of p) (closing p) (nat sd) \<or> roles p (nat sd) = Some Listener"
  shows "process_ok p'"
  using assms(1,2)
proof (cases rule: close_cases)
  case (gone k c tcp)
  have "roles p k = Some (role c)" using gone(2,3) process_okD(1) [OF assms(2)] by (simp add: roles_def)
  then have "loose (roles p) (queue_of p) (closing p) k"
    using own gone(1,4) by (auto simp: role_def split: if_splits)
  from queues_ok_loose [OF process_okD(4) [OF assms(2)] this, of None] show ?thesis
    using process_ok_change [OF assms(2) gone(2,6,7)] gone(8,9) process_okD(2) [OF assms(2)] queue_of_same [OF gone(8)]
    by (simp add: entry_fits_def)
next
  case (listener k c tcp tcp' q)
  have "(roles p)(k := Some (role c)) = roles p"
    using listener(2,3) process_okD(1) [OF assms(2)] by (auto simp: roles_def)
  moreover have "queues_ok (roles p) (queue_of p) None" using process_okD(4) [OF assms(2)] listener(5) by simp
  from queues_ok_close [OF this listener(4)] have "queues_ok (roles p) (queue_of p') (closing p')"
    using listener(9) queue_of_same [OF listener(8)] by simp
  ultimately show ?thesis
    using process_ok_change_role [OF assms(2) listener(2,6,7)] process_okD(3) [OF assms(2) listener(2)] listener(3,8)
      process_okD(2) [OF assms(2)]
    by (simp add: entry_fits_def)
qed

end
