(* ===== verification/Mysock_Process.thy ===== *)
theory Mysock_Process
  imports Mysock_Threads
begin

text \<open>
  A process with its mysockets: the calls of the application, the threads, the kernel and the
  clock in any order, and what holds at every moment.
\<close>

section \<open>The loop of a closing mysocket\<close>

lemma close_loop_ok:
  assumes "mysock_close_passive_socket p = Inr p'" "process_ok p"
  shows "process_ok p'"
proof -
  obtain l i w where c: "closing p = Some (l, i, w)"
    using assms(1) by (auto simp: mysock_close_passive_socket_def split: option.splits)
  note hash = process_okD(2) [OF assms(2)] and len = process_okD(1) [OF assms(2)]
  have Q: "queues_ok (roles p) (queue_of p) (Some (l, i, w))" using process_okD(4) [OF assms(2)] c by simp
  obtain q where q: "queue_of p l = Some q" "w \<longrightarrow> used q i" using queues_okD(5) [OF Q] by auto
  have s: "slots_ok i (roles p) l q" using queues_okD(2) [OF Q q(1)] by simp
  have lookup: "hash_lookup (int l) (listen_table p) = Inr q"
    using q(1) by (auto simp: hash_lookup_def queue_of_def hash_lookup_ptr_def)
  have lrole: "roles p l = Some Listener" using queues_okD(1) [OF Q, of l] q(1) by simp
  then have l: "l < MAX_NUM_CONNECTIONS" using len by (auto simp: roles_def split: if_splits)
  show ?thesis
  proof (cases "max_len q \<le> i")
    case True
    then obtain tbl where tbl: "hash_delete (int l) (listen_table p) = Inr tbl"
      and p': "mysock_free_context l (p\<lparr>listen_table := tbl, closing := None\<rparr>) = Inr p'"
      using assms(1) c lookup by (auto simp: mysock_close_passive_socket_def rbind_eq_Inr_iff)
    obtain lc ltcp where lc: "global_ctx p ! l = Some (lc, ltcp)" "role lc = Listener"
      using lrole l len by (auto simp: roles_def)
    have fits: "my_sd lc = int l" "threads p l = None"
      using process_okD(3) [OF assms(2) l] lc
      by (auto simp: entry_fits_def role_def split: option.splits transport_thread.splits if_splits)
    have p'': "global_ctx p' = (global_ctx p)[l := None]" "threads p' = threads p" "listen_table p' = tbl" "closing p' = None"
      using p' lc(1) fits(1) by (auto simp: mysock_free_context_def Let_def set_os_def)
    obtain t' where "hash_delete (int l) (listen_table p) = Inr t'" "hash_ok t'"
      "\<forall>j. hash_lookup_ptr j t' = (if j = int l then None else hash_lookup_ptr j (listen_table p))"
      using listen_map.del_ok [OF hash, of "int l"] by blast
    then have "hash_ok tbl" "queue_of p' = (queue_of p)(l := None)"
      using tbl p''(3) by (auto simp: queue_of_def)
    then show ?thesis
      using process_ok_change_role [OF assms(2) l p''(1,2)] queues_ok_closed [OF Q q(1) True] p''(3,4) fits(2)
      by (simp add: entry_fits_def)
  next
    case False
    let ?sd = "req_sd (connection_queue q ! i)"
    consider (skip) "?sd = -1" "p' = p\<lparr>closing := Some (l, i + 1, False)\<rparr>"
      | (finish) p1 where "?sd \<noteq> -1" "w" "myclose_finish ?sd p = Inr p1" "p' = p1\<lparr>closing := Some (l, i + 1, False)\<rparr>"
      | (request) p1 where "?sd \<noteq> -1" "myclose_request ?sd p = Inr p1" "p' = p1\<lparr>closing := Some (l, i, True)\<rparr>"
      using assms(1) c lookup False
      by (auto simp: mysock_close_passive_socket_def rbind_eq_Inr_iff Let_def split: if_splits)
    then show ?thesis
    proof cases
      case skip
      then show ?thesis
        using queues_ok_skip [OF Q q(1)] False roles_same [of p' p] queue_of_same [of p' p] hash
        by (intro process_ok_queue [OF assms(2)]) (simp_all add: used_def)
    next
      case (finish p1)
      have u: "used q i" using finish(1) False by (simp add: used_def)
      obtain k b where k: "?sd = int k" "roles p k = Some (Passive l b)" using used_slot [OF s u] by blast
      from finish(3) assms(2) show ?thesis
      proof (cases rule: close_cases)
        case (gone k' c' tcp')
        then have kk: "k' = k" using k(1) by simp
        have "roles p k = Some (role c')" using gone(2,3) kk len by (simp add: roles_def)
        then have r: "role c' = Passive l b" using k(2) by simp
        then have "threads p k = Some Returned" using gone(5) kk by (auto simp: role_def split: if_splits)
        then have "\<not> b" using process_okD(3) [OF assms(2) gone(2)] gone(3) kk r
          by (auto simp: entry_fits_def role_def split: if_splits)
        then have "roles p k = Some (Passive l False)" using k(2) by simp
        from queues_ok_gone [OF Q q(1) u k(1) this] show ?thesis
          using gone kk finish(4) hash queue_of_same [of p' p]
          by (intro process_ok_change [OF assms(2) gone(2), of p' None None]) (simp_all add: entry_fits_def)
      next
        case (listener k' c' tcp tcp' q')
        then show ?thesis using c by simp
      qed
    next
      case (request p1)
      have u: "used q i" using request(1) False by (simp add: used_def)
      have ok: "process_ok p1" by (rule close_request_ok [OF request(2) assms(2)])
      obtain e where k: "p1 = set_entry (nat ?sd) e p"
        using request(2) by (auto simp: myclose_request_def rbind_eq_Inr_iff)
      have "queue_of p1 = queue_of p" "closing p1 = Some (l, i, w)"
        using k c queue_of_same [of p1 p] by (simp_all add: set_entry_def)
      then have "queues_ok (roles p1) (queue_of p1) (Some (l, i, True))"
        using queues_ok_wait [of "roles p1" "queue_of p1" l i w q] process_okD(4) [OF ok] q(1) u by simp
      then show ?thesis
        using request(3) roles_same [of p' p1] queue_of_same [of p' p1] process_okD(2) [OF ok]
        by (intro process_ok_queue [OF ok]) simp_all
    qed
  qed
qed

section \<open>Steps\<close>

text \<open>An application uses the descriptors it was given: not those of connections that wait in a queue, and
  none of a mysocket that it is closing. A new mysocket is connected or set to listen, not both.\<close>

definition owned :: "process \<Rightarrow> int \<Rightarrow> bool" where
  "owned p sd \<longleftrightarrow> (\<exists>k. sd = int k \<and> \<not> is_closing k (closing p) \<and>
     (roles p k = Some Listener \<or> loose (roles p) (queue_of p) (closing p) k))"

definition unconnected :: "process \<Rightarrow> int \<Rightarrow> bool" where
  "unconnected p sd \<longleftrightarrow> (\<forall>e. mysock_get_context sd p = Inr e \<longrightarrow> role (fst e) = Fresh \<and> blocking (fst e))"

text \<open>The clock of all mysockets.\<close>

definition set_clock :: "timespec \<Rightarrow> process \<Rightarrow> process" where
  "set_clock t p = p\<lparr>global_ctx := map (map_option (\<lambda>(c, tcp). (c\<lparr>clock := t\<rparr>, tcp))) (global_ctx p)\<rparr>"

inductive proc_step :: "process \<Rightarrow> process \<Rightarrow> bool" where
  open_step: "mysocket reliable p = Inr (sd, p') \<Longrightarrow> proc_step p p'"
| bind_step: "owned p sd \<Longrightarrow> mybind rc port sd addr p = Inr (r, err, p') \<Longrightarrow> proc_step p p'"
| listen_step: "owned p sd \<Longrightarrow> unconnected p sd \<Longrightarrow> mylisten rc sd backlog p = Inr (r, p') \<Longrightarrow> proc_step p p'"
| connect_step: "owned p sd \<Longrightarrow> unconnected p sd \<Longrightarrow> myconnect_start rc port sd name n p = Inr (err, p') \<Longrightarrow> proc_step p p'"
| accept_step: "owned p sd \<Longrightarrow> myaccept sd p = Inr (r, err, a, p') \<Longrightarrow> proc_step p p'"
| write_step: "owned p sd \<Longrightarrow> mywrite sd buf p = Inr (r, err, p') \<Longrightarrow> proc_step p p'"
| read_step: "owned p sd \<Longrightarrow> myread sd n p = Inr (r, err, b, p') \<Longrightarrow> proc_step p p'"
| close_step: "owned p sd \<Longrightarrow> myclose_request sd p = Inr p' \<Longrightarrow> proc_step p p'"
| closed_step: "owned p sd \<Longrightarrow> myclose_finish sd p = Inr p' \<Longrightarrow> proc_step p p'"
| close_loop_step: "mysock_close_passive_socket p = Inr p' \<Longrightarrow> proc_step p p'"
| receive_step: "k \<in> receivers p \<Longrightarrow> k < MAX_NUM_CONNECTIONS \<Longrightarrow> network_recv_thread connects k p = Inr p' \<Longrightarrow> proc_step p p'"
| transport_step: "k < MAX_NUM_CONNECTIONS \<Longrightarrow> transport_thread_func k p = Inr p' \<Longrightarrow> proc_step p p'"
| clock_step: "proc_step p (set_clock t p)"
| kernel_step: "proc_step p (set_os s p)"

inductive_cases proc_stepE: "proc_step p p'"

inductive runs :: "process \<Rightarrow> process \<Rightarrow> bool" for p0 where
  runs_start: "runs p0 p0"
| runs_step: "runs p0 p \<Longrightarrow> proc_step p p' \<Longrightarrow> runs p0 p'"

lemma set_clock_ok:
  assumes "process_ok p"
  shows "process_ok (set_clock t p)"
proof -
  have r: "role (c\<lparr>clock := t\<rparr>) = role c" for c by (simp add: role_def)
  have "roles (set_clock t p) = roles p"
    by (auto simp: roles_def set_clock_def fun_eq_iff r option.map_comp o_def case_prod_beta)
  moreover have "queue_of (set_clock t p) = queue_of p" by (simp add: queue_of_def set_clock_def fun_eq_iff)
  moreover have "entry_fits k (map_option (\<lambda>(c, tcp). (c\<lparr>clock := t\<rparr>, tcp)) e) th = entry_fits k e th" for k e th
    by (cases e) (simp_all add: entry_fits_def case_prod_beta split: option.split transport_thread.split)
  ultimately show ?thesis using assms by (simp add: process_ok_def set_clock_def)
qed

lemma proc_step_ok:
  assumes "proc_step p p'" "process_ok p"
  shows "process_ok p'"
  using assms
proof (cases rule: proc_step.cases)
  case (closed_step sd)
  then show ?thesis using close_finish_ok [OF closed_step(2) assms(2)] by (auto simp: owned_def)
next
  case (listen_step sd rc backlog r)
  then have "role (fst e) = Fresh" if "mysock_get_context sd p = Inr e" for e using that by (simp add: unconnected_def)
  then show ?thesis using listen_ok [OF listen_step(3) assms(2)] by blast
next
  case (connect_step sd rc port name n err)
  then have "role (fst e) = Fresh \<and> blocking (fst e)" if "mysock_get_context sd p = Inr e" for e
    using that by (simp add: unconnected_def)
  then show ?thesis using connect_ok [OF connect_step(3) assms(2)] by blast
qed (auto simp: mysocket_def intro: new_mysocket_ok bind_ok accept_ok write_ok read_ok close_request_ok
    close_loop_ok recv_thread_ok transport_thread_ok set_clock_ok)

lemma runs_ok: "runs (start_process s) p \<Longrightarrow> process_ok p"
  by (induction rule: runs.induct) (auto intro: start_process_ok proc_step_ok)

end
