(* ===== verification/Network_Framing.thy ===== *)
theory Network_Framing
  imports Network_Io
begin

text \<open>
  Packets survive the trip over a TCP connection: what is written with its length is read back
  packet by packet, however the kernel cuts the writes and the reads.
\<close>

section \<open>Writing\<close>

lemma tcp_write_roomy:
  assumes "roomy (length src - k + m) c" "k \<le> length src"
  shows "\<exists>c'. tcp_write k src c = Inr (int (length src), c') \<and> outgoing c' = outgoing c @ drop k src \<and>
      incoming c' = incoming c \<and> roomy m c'"
  using assms
proof (induction k src c rule: tcp_write.induct)
  case (1 k src c)
  show ?case
  proof (cases "k < length src")
    case False
    then have "tcp_write k src c = Inr (int (length src), c)" by (simp add: tcp_write.simps [of k])
    then show ?thesis using 1(2,3) False by simp
  next
    case True
    obtain r rs where r: "room c = r # rs" using 1(2) True by (cases "room c") (auto simp: roomy_def)
    define n where "n = nat (min r (int (length src - k)))"
    define c1 where "c1 = c\<lparr>room := rs, outgoing := outgoing c @ take n (drop k src)\<rparr>"
    have n: "0 < n" "n \<le> length src - k" using 1(2) r True by (auto simp: n_def roomy_def)
    have w: "sys_write (drop k src) c = Inr (int n, c1)"
      using n by (simp add: sys_write_def r n_def c1_def Let_def)
    have "roomy (length src - (k + n) + m) c1" using 1(2) r n by (auto simp: roomy_def c1_def)
    moreover have "k + n \<le> length src" using n True by simp
    ultimately obtain c' where c': "tcp_write (k + n) src c1 = Inr (int (length src), c')"
        "outgoing c' = outgoing c1 @ drop (k + n) src" "incoming c' = incoming c1" "roomy m c'"
      using 1(1) [OF True, of "int n" c1] n by auto
    have "tcp_write k src c = Inr (int (length src), c')"
      using True w n c'(1) by (simp add: tcp_write.simps [of k])
    moreover have "outgoing c' = outgoing c @ drop k src"
      using c'(2) append_take_drop_id [of n "drop k src"] by (simp add: c1_def add.commute)
    ultimately show ?thesis using c'(3,4) by (simp add: c1_def)
  qed
qed

section \<open>Reading\<close>

lemma tcp_read_arriving:
  assumes "arriving ds later c" "length b \<le> n" "n - length b \<le> length (concat ds)"
  shows "\<exists>ds' c'. tcp_read n b c = Inr (int n, b @ take (n - length b) (concat ds), c') \<and>
      arriving ds' later c' \<and> concat ds' = drop (n - length b) (concat ds)"
  using assms
proof (induction "n - length b" arbitrary: ds b c rule: less_induct)
  case less
  show ?case
  proof (cases "length b < n")
    case False
    then show ?thesis using less(2,3) by (auto simp: tcp_read.simps [of n])
  next
    case True
    then obtain d ds1 where ds: "ds = d # ds1" using less(4) by (cases ds) auto
    define ds2 where "ds2 = (if length d \<le> n - length b then [] else [drop (n - length b) d]) @ ds1"
    define c1 where "c1 = c\<lparr>incoming := map Some ds2 @ later\<rparr>"
    let ?t = "take (n - length b) d"
    have pos: "0 < n - length b" using True by simp
    note r = sys_read_arriving [OF less(2) [unfolded ds] pos, folded ds2_def, folded c1_def]
    have "d \<noteq> []" using less(2) by (auto simp: arriving_def ds)
    then have t: "?t \<noteq> []" "0 < length ?t" "length (b @ ?t) \<le> n" using True by auto
    have cc: "concat ds = ?t @ concat ds2" using r(3) by (simp add: ds)
    have l: "length (b @ ?t) = length b + length ?t" "length (concat ds) = length ?t + length (concat ds2)"
      using cc by simp_all
    have "n - length (b @ ?t) < n - length b" "n - length (b @ ?t) \<le> length (concat ds2)"
      using t(2) True less(4) unfolding l by linarith+
    from less(1) [OF this(1) r(2) t(3) this(2)]
    obtain ds' c' where c': "tcp_read n (b @ ?t) c1 =
        Inr (int n, (b @ ?t) @ take (n - length (b @ ?t)) (concat ds2), c')"
      "arriving ds' later c'" "concat ds' = drop (n - length (b @ ?t)) (concat ds2)" by blast
    have "take (n - length b) (concat ds) = ?t @ take (n - length (b @ ?t)) (concat ds2)"
      "drop (n - length b) (concat ds) = drop (n - length (b @ ?t)) (concat ds2)"
      using cc t(3) by (simp_all add: take_append drop_append)
    moreover have "tcp_read n b c = tcp_read n (b @ ?t) c1"
      using True r(1) t by (simp add: tcp_read.simps [of n b])
    ultimately show ?thesis using c' by auto
  qed
qed

section \<open>Packets\<close>

definition tcp_frame :: "bytes \<Rightarrow> bytes" where
  "tcp_frame p = bytes16 (of_nat (length p)) @ p"

definition ip_payload :: "bytes \<Rightarrow> bool" where
  "ip_payload p \<longleftrightarrow> p \<noteq> [] \<and> length p \<le> MAX_IP_PAYLOAD_LEN"

lemma unat_payload: "ip_payload p \<Longrightarrow> unat (of_nat (length p) :: u16) = length p"
  by (simp add: ip_payload_def MAX_IP_PAYLOAD_LEN_def unsigned_of_nat take_bit_nat_eq_self)

lemma read_packet_frame:
  assumes "ip_payload p" "arriving ds later c" "concat ds = tcp_frame p @ rest"
  shows "\<exists>ds' c'. read_packet MAX_IP_PAYLOAD_LEN c = Inr (int (length p), p, c') \<and> arriving ds' later c' \<and> concat ds' = rest"
proof -
  have "2 - length ([] :: bytes) \<le> length (concat ds)" using assms(3) by (simp add: tcp_frame_def)
  from tcp_read_arriving [OF assms(2) _ this] assms(3) obtain ds1 c1 where
    hdr: "tcp_read 2 [] c = Inr (2, bytes16 (of_nat (length p)), c1)" and 1: "arriving ds1 later c1" "concat ds1 = p @ rest"
    by (auto simp: tcp_frame_def)
  have "length p - length ([] :: bytes) \<le> length (concat ds1)" using 1(2) by simp
  from tcp_read_arriving [OF 1(1) _ this] 1(2) obtain ds2 c2 where
    body: "tcp_read (length p) [] c1 = Inr (int (length p), p, c2)" and 2: "arriving ds2 later c2" "concat ds2 = rest"
    by auto
  have "get16 (bytes16 (of_nat (length p))) 0 = of_nat (length p)"
    using get16_append [of "[]" 0 "of_nat (length p)" "[]"] by simp
  then show ?thesis using hdr body 2 assms(1) unat_payload [OF assms(1)]
    by (auto simp: read_packet_def ip_payload_def min_def)
qed

lemma tcp_connect_connected [simp]: "tcp_connected (snd e) \<Longrightarrow> tcp_connect connects e = Inr (0, e)"
  by (cases e) (simp add: tcp_connect_def Let_def)

text \<open>The whole conversation: the packets that one end sends, and the next \<open>n\<close> packets that the other
  end reads.\<close>

fun tcp_send_all :: "bytes list \<Rightarrow> mysock_entry \<Rightarrow> os \<Rightarrow> (mysock_entry \<times> os) result" where
  "tcp_send_all [] e s = Inr (e, s)"
| "tcp_send_all (p # ps) e s = rbind (tcp_send_packet True p e s) (\<lambda>(_, e1, s1). tcp_send_all ps e1 s1)"

fun tcp_recv_all :: "nat \<Rightarrow> mysock_entry \<Rightarrow> os \<Rightarrow> (bytes list \<times> os) result" where
  "tcp_recv_all 0 e s = Inr ([], s)"
| "tcp_recv_all (Suc n) e s =
     rbind (network_recv_packet True MAX_IP_PAYLOAD_LEN e s) (\<lambda>(rc, p, e1, s1).
     rbind (tcp_recv_all n e1 s1) (\<lambda>(ps, s2). Inr (take (nat rc) p # ps, s2)))"

definition can_send :: "mysock_entry \<Rightarrow> bool" where
  "can_send e \<longleftrightarrow> (let net = network_state (fst e) in 0 < peer_addr_len net \<and> peer_addr_valid net \<and>
     sa_family (peer_addr net) = AF_INET \<and> 0 < sin_port (peer_addr net) \<and> 0 \<le> socket_fd (snd e))"

definition can_receive :: "mysock_entry \<Rightarrow> bool" where
  "can_receive e \<longleftrightarrow> \<not> listening (fst e) \<and> 0 \<le> socket_fd (snd e) \<and> (is_active (fst e) \<longrightarrow> tcp_connected (snd e))"

lemma tcp_connect_can_send:
  "can_send e \<Longrightarrow> \<exists>e1. tcp_connect True e = Inr (0, e1) \<and> can_send e1 \<and> socket_fd (snd e1) = socket_fd (snd e)"
  by (cases e) (simp add: tcp_connect_def can_send_def Let_def)

lemma tcp_send_packet_roomy:
  assumes "can_send e" "roomy (length p + 2 + m) (channels s (socket_fd (snd e)))"
  shows "\<exists>e' s'. tcp_send_packet True p e s = Inr (int (length p), e', s') \<and> can_send e' \<and>
     socket_fd (snd e') = socket_fd (snd e) \<and> roomy m (channels s' (socket_fd (snd e))) \<and>
     outgoing (channels s' (socket_fd (snd e))) = outgoing (channels s (socket_fd (snd e))) @ tcp_frame p"
proof -
  let ?c = "channels s (socket_fd (snd e))" and ?h = "bytes16 (of_nat (length p))"
  have "roomy (length ?h - 0 + (length p + m)) ?c" using assms(2) by (simp add: add.commute add.left_commute)
  from tcp_write_roomy [OF this] obtain c1 where 1: "tcp_write 0 ?h ?c = Inr (int (length ?h), c1)"
    "outgoing c1 = outgoing ?c @ ?h" "roomy (length p + m) c1" by auto
  from tcp_write_roomy [of p 0 m c1] 1(3) obtain c2 where 2: "tcp_write 0 p c1 = Inr (int (length p), c2)"
    "outgoing c2 = outgoing c1 @ p" "roomy m c2" by auto
  obtain e1 where e1: "tcp_connect True e = Inr (0, e1)" "can_send e1" "socket_fd (snd e1) = socket_fd (snd e)"
    using assms(1) tcp_connect_can_send by blast
  have "tcp_send_packet True p e s = Inr (int (length p), e1, s\<lparr>channels := (channels s)(socket_fd (snd e) := c2)\<rparr>)"
    using assms(1) e1 1(1) 2(1) by (simp add: tcp_send_packet_def verify_socket_def can_send_def Let_def)
  then show ?thesis using e1 1 2 by (simp add: tcp_frame_def)
qed

lemma tcp_send_all_roomy:
  assumes "can_send e" "roomy (\<Sum>p\<leftarrow>ps. length p + 2) (channels s (socket_fd (snd e)))"
  shows "\<exists>e' s'. tcp_send_all ps e s = Inr (e', s') \<and>
     outgoing (channels s' (socket_fd (snd e))) = outgoing (channels s (socket_fd (snd e))) @ concat (map tcp_frame ps)"
  using assms
proof (induction ps arbitrary: e s)
  case (Cons p ps)
  then have "roomy (length p + 2 + (\<Sum>p\<leftarrow>ps. length p + 2)) (channels s (socket_fd (snd e)))" by simp
  from tcp_send_packet_roomy [OF Cons(2) this] obtain e1 s1 where
    1: "tcp_send_packet True p e s = Inr (int (length p), e1, s1)" "can_send e1" "socket_fd (snd e1) = socket_fd (snd e)"
      "roomy (\<Sum>p\<leftarrow>ps. length p + 2) (channels s1 (socket_fd (snd e1)))"
      "outgoing (channels s1 (socket_fd (snd e))) = outgoing (channels s (socket_fd (snd e))) @ tcp_frame p"
    by auto
  from Cons(1) [OF 1(2,4)] 1 show ?case by auto
qed simp

lemma tcp_recv_all_arriving:
  assumes "can_receive e" "\<forall>p \<in> set ps. ip_payload p" "arriving ds later (channels s (socket_fd (snd e)))"
    "concat ds = concat (map tcp_frame ps) @ rest"
  shows "\<exists>s'. tcp_recv_all (length ps) e s = Inr (ps, s')"
  using assms
proof (induction ps arbitrary: ds s)
  case (Cons p ps)
  let ?c = "channels s (socket_fd (snd e))"
  have "concat ds = tcp_frame p @ concat (map tcp_frame ps) @ rest" using Cons(5) by simp
  from read_packet_frame [OF _ Cons(4) this] Cons(3) obtain ds1 c1 where
    1: "read_packet MAX_IP_PAYLOAD_LEN ?c = Inr (int (length p), p, c1)" "arriving ds1 later c1"
      "concat ds1 = concat (map tcp_frame ps) @ rest" by auto
  let ?s = "s\<lparr>channels := (channels s)(socket_fd (snd e) := c1)\<rparr>"
  have "network_recv_packet True MAX_IP_PAYLOAD_LEN e s = Inr (int (length p), p, e, ?s)"
    using Cons(2) 1(1) by (simp add: network_recv_packet_def can_receive_def verify_socket_def)
  moreover obtain s' where "tcp_recv_all (length ps) e ?s = Inr (ps, s')"
    using Cons(1) [OF Cons(2), of ds1 ?s] Cons(3) 1 by auto
  ultimately show ?case by auto
qed simp

text \<open>C27. The datagram service delivers what is sent: the packets that one end writes into its TCP
  connection, in pieces of any size, are read by the other end one by one and in order, whatever the
  pieces in which the bytes arrive.\<close>

theorem packets_cross_stream:
  assumes "can_send a" "roomy (\<Sum>p\<leftarrow>ps. length p + 2) (channels s (socket_fd (snd a)))"
    and "outgoing (channels s (socket_fd (snd a))) = []" and "\<forall>p \<in> set ps. ip_payload p"
    and "tcp_send_all ps a s = Inr (a', s')"
    and "can_receive b" "arriving ds later (channels t (socket_fd (snd b)))"
    and "concat ds = outgoing (channels s' (socket_fd (snd a)))"
  shows "\<exists>t'. tcp_recv_all (length ps) b t = Inr (ps, t')"
  using tcp_recv_all_arriving [OF assms(6,4,7), of "[]"] tcp_send_all_roomy [OF assms(1,2)] assms(3,5,8) by auto

text \<open>Two packets that leave in pieces of three bytes and arrive in two pieces.\<close>

definition framing_sender :: mysock_entry where
  "framing_sender =
     (\<lparr>is_active = True, network_state =
         \<lparr>is_reliable = True, local_addr = zero_sockaddr,
          peer_addr = \<lparr>sa_family = AF_INET, sin_addr = 2, sin_port = 80\<rparr>, peer_addr_len = 16, peer_addr_valid = True,
          copied = False, copy_buffer = [], local_ip = 1, local_port = 7, randoms = (\<lambda>_. 0), rand_calls = 0, wire_out = []\<rparr>,
       bound = True, listening = False, my_sd = 0, listen_sd = -1, blocking = True, stcp_errno = 0,
       transport_thread_started = True, close_requested = False, eof = False, network_recv_queue = [],
       app_send_queue = [], app_recv_queue = [], clock = Timespec 0 0, thread_errno = 0\<rparr>,
      \<lparr>recv_thread_started = True, socket_fd = 3, exit_pipe = (4, 5), new_socket = -1, tcp_connected = False\<rparr>)"

definition framing_receiver :: mysock_entry where
  "framing_receiver = ((fst framing_sender)\<lparr>is_active := False\<rparr>, snd framing_sender)"

definition framing_os :: "channel \<Rightarrow> os" where
  "framing_os c = \<lparr>channels = (\<lambda>_. c), accept_answers = (\<lambda>_. []), open_fds = [3, 4, 5], fd_answers = [],
     interface_ip = 1, now = Timespec 0 0, seeded_randoms = (\<lambda>_. 0)\<rparr>"

definition framing_out :: channel where
  "framing_out = \<lparr>incoming = [], room = replicate 9 3, outgoing = []\<rparr>"

definition framing_in :: channel where
  "framing_in = \<lparr>incoming = [Some [0], Some [2, 8, 9, 0, 1, 7]], room = [], outgoing = []\<rparr>"

lemma framing_ends:
  "can_send framing_sender" "can_receive framing_receiver"
  "socket_fd (snd framing_sender) = 3" "socket_fd (snd framing_receiver) = 3"
  by (simp_all add: can_send_def can_receive_def framing_sender_def framing_receiver_def)

lemma framing_streams:
  "m \<le> 9 \<Longrightarrow> roomy m framing_out" "outgoing framing_out = []" "arriving [[0], [2, 8, 9, 0, 1, 7]] [] framing_in"
  "channels (framing_os c) fd = c"
  by (simp_all add: roomy_def arriving_def framing_out_def framing_in_def framing_os_def)

lemma framing_sends:
  "\<exists>a' s'. tcp_send_all [[8, 9], [7]] framing_sender (framing_os framing_out) = Inr (a', s') \<and>
     outgoing (channels s' 3) = [0, 2, 8, 9, 0, 1, 7]"
  using tcp_send_all_roomy [of framing_sender "[[8, 9], [7]]" "framing_os framing_out"]
  by (auto simp del: tcp_send_all.simps simp: framing_ends framing_streams tcp_frame_def bytes16_def)

theorem packets_cross_stream_witness:
  "\<exists>t'. tcp_recv_all (length [[8, 9], [7 :: u8]]) framing_receiver (framing_os framing_in) = Inr ([[8, 9], [7]], t')"
proof -
  obtain a' s' where send: "tcp_send_all [[8, 9], [7]] framing_sender (framing_os framing_out) = Inr (a', s')"
    and out: "outgoing (channels s' 3) = [0, 2, 8, 9, 0, 1, 7]" using framing_sends by blast
  show ?thesis
    by (rule packets_cross_stream [OF _ _ _ _ send, of _ "[[0], [2, 8, 9, 0, 1, 7]]" "[]"])
      (simp_all add: framing_ends framing_streams out ip_payload_def MAX_IP_PAYLOAD_LEN_def)
qed

end
