(* ===== verification/Mysock_Opening.thy ===== *)
theory Mysock_Opening
  imports Mysock_Process Network_Framing Stcp_Setup
begin

text \<open>
  How connections begin: a SYN that reaches a listening mysocket gets a mysocket and a transport
  of its own, \<open>myconnect\<close> starts the other one, and both are what \<open>Stcp_Setup\<close> starts from.
\<close>

section \<open>A new mysocket\<close>

text \<open>The system gives the three descriptors of a mysocket, and the table has a place.\<close>

definition can_open :: "process \<Rightarrow> bool" where
  "can_open p \<longleftrightarrow> None \<in> set (global_ctx p) \<and>
     (\<exists>a b c fds. fd_answers (os p) = a # b # c # fds \<and> 0 \<le> a \<and> 0 \<le> b \<and> 0 \<le> c)"

lemma new_mysocket_total:
  assumes "process_ok p" "can_open p"
  obtains k c tcp s where "mysock_new_mysocket reliable p = Inr (int k, set_entry k (c\<lparr>my_sd := int k\<rparr>, tcp) (set_os s p))"
    "k < MAX_NUM_CONNECTIONS" "global_ctx p ! k = None" "fresh_context c" "is_reliable (network_state c) = reliable"
    "local_ip (network_state c) = interface_ip (os p)" "interface_ip s = interface_ip (os p)"
proof -
  have "free_slot (global_ctx p) \<noteq> None"
    using assms(2) by (auto simp: can_open_def free_slot_def find_None_iff in_set_conv_nth)
  moreover obtain net tcp s1 where "network_init (os p) = Inr (net, tcp, s1)"
    using assms(2) by (auto simp: can_open_def network_init_def network_init_socket_def network_alloc_context_socket_def
        os_new_fd_def)
  ultimately obtain sd p' where n: "mysock_new_mysocket reliable p = Inr (sd, p')" "0 \<le> sd"
    by (auto simp: mysock_new_mysocket_def mysock_allocate_context_def Let_def)
  from n(1) assms(1) show thesis
  proof (cases rule: new_mysocket_cases)
    case (full s)
    then show thesis using n(2) by simp
  next
    case (new k c tcp s)
    then show thesis using that [of k c tcp s] n(1) by simp
  qed
qed

section \<open>A request\<close>

lemma length_sockaddr_bytes [simp]: "length (sockaddr_bytes a) = 16"
  by (simp add: sockaddr_bytes_def bytes16_def)

lemma find_retransmission_total:
  assumes "\<forall>r \<in> set rs. req_sd r = -1 \<or> req_addr_len r = 16"
  shows "find_retransmission peer 16 rs = Inr (\<exists>r \<in> set rs. sockaddr_bytes (req_addr r) = sockaddr_bytes peer)"
  using assms by (induction rs) auto

lemma slot_lengths:
  assumes "slots_ok 0 R l q" "r \<in> set (connection_queue q)"
  shows "req_sd r = -1 \<or> req_addr_len r = 16"
proof -
  obtain i where "i < max_len q" "r = connection_queue q ! i"
    using assms unfolding slots_ok_def in_set_conv_nth by metis
  moreover have "slot_ok R l q i" using assms(1) calculation(1) by (simp add: slots_ok_def)
  ultimately show ?thesis by (auto simp: slot_ok_def free_request_def)
qed

text \<open>A request of a new peer finds a slot.\<close>

definition has_room :: "listen_queue \<Rightarrow> sockaddr \<Rightarrow> bool" where
  "has_room q peer \<longleftrightarrow> cur_len q < max_len q \<and>
     (\<forall>r \<in> set (connection_queue q). sockaddr_bytes (req_addr r) \<noteq> sockaddr_bytes peer)"

lemma free_slot_total:
  assumes "slots_ok 0 R l q" "completed_ok R l q" "cur_len q < max_len q"
  obtains j where "find_free_request q = Some j" "req_sd (connection_queue q ! j) = -1" "j < max_len q" "\<not> used q j"
proof -
  have "\<exists>j < max_len q. \<not> used q j"
  proof (rule ccontr)
    assume "\<not> ?thesis"
    then have "{j. used q j} = {..<max_len q}" by (auto simp: used_def)
    then show False using completed_okD(1) [OF assms(2)] assms(3) by simp
  qed
  then obtain j where j: "j < max_len q" "req_sd (connection_queue q ! j) = -1" by (auto simp: used_def)
  then obtain i where i: "find_free_request q = Some i"
    by (cases "find_free_request q") (auto simp: find_free_request_def find_None_iff)
  then have "i < max_len q" "req_sd (connection_queue q ! i) < 0"
    by (auto simp: find_free_request_def find_Some_iff)
  note i1 = this
  have "slot_ok R l q i" using assms(1) i1(1) by (simp add: slots_ok_def)
  then have "req_sd (connection_queue q ! i) = -1" using i1(2) by (auto simp: slot_ok_def free_request_def)
  then show thesis using that [OF i] i1(1) by (simp add: used_def)
qed

lemma enqueue_total:
  assumes ok: "process_ok p" and q: "queue_of p l = Some q" and "closing p = None" and room: "has_room q peer"
    and syn: "STCP_HEADER_LEN \<le> length pkt" "pkt_flags pkt AND TH_SYN \<noteq> 0"
  obtains j where "j < max_len q" "\<not> used q j"
    "mysock_enqueue_connection l pkt peer 16 p = establish l j pkt peer 16 (q\<lparr>cur_len := cur_len q + 1\<rparr>) p"
proof -
  note Q = process_okD(4) [OF ok]
  have s: "slots_ok 0 (roles p) l q" and d: "completed_ok (roles p) l q"
    using queues_okD(2,3) [OF Q q] assms(3) by simp_all
  have r: "roles p l = Some Listener" using queues_okD(1) [OF Q, of l] q by simp
  then have l: "l < MAX_NUM_CONNECTIONS" using process_okD(1) [OF ok] by (auto simp: roles_def split: if_splits)
  obtain lc ltcp where lc: "global_ctx p ! l = Some (lc, ltcp)" "listening lc"
    using r l process_okD(1) [OF ok] by (auto simp: roles_def role_def split: if_splits)
  then have my: "my_sd lc = int l" "bound lc" using process_okD(3) [OF ok l] by (auto simp: entry_fits_def)
  have "find_retransmission peer 16 (connection_queue q) = Inr False"
    using find_retransmission_total slot_lengths [OF s] room by (auto simp: has_room_def)
  moreover have len: "length (connection_queue q) = max_len q" using s by (simp add: slots_ok_def)
  moreover obtain j where j: "find_free_request q = Some j" "req_sd (connection_queue q ! j) = -1" "j < max_len q" "\<not> used q j"
    using free_slot_total [OF s d] room by (auto simp: has_room_def)
  ultimately have "mysock_enqueue_connection l pkt peer 16 p = establish l j pkt peer 16 (q\<lparr>cur_len := cur_len q + 1\<rparr>) p"
    using get_context_entry [OF ok l lc(1)] lc(2) my q assms(3) syn room
    by (simp add: mysock_enqueue_connection_def listen_lock_free_def get_connection_queue_def queue_of_def has_room_def)
  then show thesis using that j by blast
qed

section \<open>A SYN that arrives\<close>

text \<open>The system has a connection for the listening mysocket \<open>l\<close>, and the first packet on it is \<open>pkt\<close>.\<close>

definition packet_arrives :: "process \<Rightarrow> nat \<Rightarrow> int \<Rightarrow> sockaddr \<Rightarrow> bytes \<Rightarrow> bool" where
  "packet_arrives p l fd peer pkt \<longleftrightarrow>
     (\<exists>lc ltcp later ds rest more. global_ctx p ! l = Some (lc, ltcp) \<and> \<not> is_active lc \<and> new_socket ltcp = -1 \<and>
        0 \<le> socket_fd ltcp \<and> accept_answers (os p) (socket_fd ltcp) = Some (fd, peer) # later \<and> 0 \<le> fd \<and>
        Channel.arriving ds more (channels (os p) fd) \<and> concat ds = tcp_frame pkt @ rest)"

lemma recv_thread_accepts:
  assumes ok: "process_ok p" and q: "queue_of p l = Some q" and a: "packet_arrives p l fd peer pkt" "ip_payload pkt"
  obtains lc ltcp s where "l < MAX_NUM_CONNECTIONS" "listening lc" "fd_answers s = fd_answers (os p)" "interface_ip s = interface_ip (os p)"
    "peer_addr (network_state lc) = peer" "new_socket ltcp = fd"
    "\<not> is_active lc" "0 \<le> socket_fd ltcp" "0 \<le> fd"
    "process_ok (set_os s (set_entry l (lc, ltcp) p))"
    "network_recv_thread connects l p =
       rbind (mysock_enqueue_connection l pkt peer 16 (set_os s (set_entry l (lc, ltcp) p))) (\<lambda>(_, p2). Inr p2)"
proof -
  have r: "roles p l = Some Listener" using queues_okD(1) [OF process_okD(4) [OF ok], of l] q by simp
  then have l: "l < MAX_NUM_CONNECTIONS" using process_okD(1) [OF ok] by (auto simp: roles_def split: if_splits)
  obtain lc ltcp later ds rest more where lc: "global_ctx p ! l = Some (lc, ltcp)" "\<not> is_active lc" "new_socket ltcp = -1"
      "0 \<le> socket_fd ltcp" "accept_answers (os p) (socket_fd ltcp) = Some (fd, peer) # later" "0 \<le> fd"
      "Channel.arriving ds more (channels (os p) fd)" "concat ds = tcp_frame pkt @ rest"
    using a(1) unfolding packet_arrives_def by blast
  have li: "listening lc" using r l lc(1) process_okD(1) [OF ok] by (auto simp: roles_def role_def split: if_splits)
  obtain ds' ch where ch: "read_packet MAX_IP_PAYLOAD_LEN (channels (os p) fd) = Inr (int (length pkt), pkt, ch)"
    using read_packet_frame [OF a(2) lc(7,8)] by blast
  let ?lc = "lc\<lparr>network_state := (network_state lc)\<lparr>peer_addr_len := 16, peer_addr := peer\<rparr>\<rparr>"
  let ?tcp = "ltcp\<lparr>new_socket := fd\<rparr>"
  let ?s = "(os p)\<lparr>accept_answers := (accept_answers (os p))(socket_fd ltcp := later), open_fds := fd # open_fds (os p),
      channels := (channels (os p))(fd := ch)\<rparr>"
  have recv: "network_recv_packet connects MAX_IP_PAYLOAD_LEN (lc, ltcp) (os p) =
      Inr (int (length pkt), pkt, (?lc, ?tcp), ?s)"
    using lc li ch by (simp add: network_recv_packet_def verify_socket_def network_accept_def Let_def)
  have "0 < length pkt" "length pkt \<le> MAX_IP_PAYLOAD_LEN" using a(2) by (auto simp: ip_payload_def)
  then have "network_recv_thread connects l p =
      rbind (mysock_enqueue_connection l pkt peer 16 (set_os ?s (set_entry l (?lc, ?tcp) p))) (\<lambda>(_, p2). Inr p2)"
    using lc(1) li by (simp add: network_recv_thread_def recv Let_def)
  moreover have "process_ok (set_os ?s (set_entry l (?lc, ?tcp) p))"
    using process_ok_set_entry [OF ok l lc(1), of ?lc ?tcp] by (simp add: same_role_def)
  ultimately show thesis using that [of ?lc ?s ?tcp] l li lc(2,4,6) by simp
qed

lemma syn_opens:
  assumes ok: "process_ok p" and q: "queue_of p l = Some q" and "closing p = None" and room: "has_room q peer" "can_open p"
    and a: "packet_arrives p l fd peer pkt" "ip_payload pkt"
    and syn: "STCP_HEADER_LEN \<le> length pkt" "pkt_flags pkt AND TH_SYN \<noteq> 0"
  obtains k j c tcp p' where "network_recv_thread connects l p = Inr p'" "k < MAX_NUM_CONNECTIONS" "global_ctx p ! k = None"
    "global_ctx p' ! k = Some (c, tcp)" "threads p' = (threads p)(k := Some (Handshaking Passive_Listen init_context))"
    "network_recv_queue c = [pkt]" "listen_sd c = int l" "\<not> is_active c" "blocking c" "\<not> close_requested c"
    "app_send_queue c = []" "app_recv_queue c = []" "wire_out (network_state c) = []" "\<not> copied (network_state c)"
    "peer_addr (network_state c) = peer" "local_ip (network_state c) = interface_ip (os p)" "socket_fd tcp = fd"
    "j < max_len q" "\<not> used q j" "queue_of p' l = Some (q\<lparr>cur_len := cur_len q + 1,
       connection_queue := (connection_queue q)[j := \<lparr>req_addr = peer, req_addr_len = 16, req_sd = int k\<rparr>]\<rparr>)"
    "closing p' = None" "receivers p' = insert k (receivers p)"
proof -
  obtain lc ltcp s where l: "l < MAX_NUM_CONNECTIONS" "listening lc" "fd_answers s = fd_answers (os p)"
      "interface_ip s = interface_ip (os p)" "peer_addr (network_state lc) = peer" "new_socket ltcp = fd"
      "process_ok (set_os s (set_entry l (lc, ltcp) p))"
      "network_recv_thread connects l p =
         rbind (mysock_enqueue_connection l pkt peer 16 (set_os s (set_entry l (lc, ltcp) p))) (\<lambda>(_, p2). Inr p2)"
    using recv_thread_accepts [OF ok q a] by metis
  let ?p = "set_os s (set_entry l (lc, ltcp) p)"
  have open1: "can_open ?p" using room(2) l(1,3) a(1) process_okD(1) [OF ok]
    by (auto simp: can_open_def packet_arrives_def process_changes set_conv_nth nth_list_update) (metis option.distinct(1))
  have q1: "queue_of ?p l = Some q" using q queue_of_same [of ?p p] by (simp add: process_changes)
  have g1: "global_ctx ?p ! l = Some (lc, ltcp)" using l(1) process_okD(1) [OF ok] by (simp add: process_changes)
  have c1: "closing ?p = None" using assms(3) by (simp add: process_changes)
  obtain j where j: "j < max_len q" "\<not> used q j"
    "mysock_enqueue_connection l pkt peer 16 ?p = establish l j pkt peer 16 (q\<lparr>cur_len := cur_len q + 1\<rparr>) ?p"
    by (rule enqueue_total [OF l(7) q1 c1 room(1) syn])
  obtain k c tcp s1 where n: "mysock_new_mysocket (is_reliable (network_state lc)) ?p =
        Inr (int k, set_entry k (c\<lparr>my_sd := int k\<rparr>, tcp) (set_os s1 ?p))"
      and k: "k < MAX_NUM_CONNECTIONS" "global_ctx ?p ! k = None" and c: "fresh_context c"
        "local_ip (network_state c) = interface_ip (os ?p)"
    by (rule new_mysocket_total [OF l(7) open1])
  have kl: "k \<noteq> l" using k(2) g1 by auto
  from establish_new [OF l(7,1) g1 n refl k c(1), of j pkt peer 16 "q\<lparr>cur_len := cur_len q + 1\<rparr>"] obtain p' where
    p': "establish l j pkt peer 16 (q\<lparr>cur_len := cur_len q + 1\<rparr>) ?p = Inr (True, p')"
      "global_ctx p' = (global_ctx ?p)[l := Some (lc, ltcp\<lparr>new_socket := -1\<rparr>),
      k := Some (c\<lparr>my_sd := int k, listen_sd := int l,
        network_state := (network_state c)\<lparr>peer_addr := peer, peer_addr_len := nat 16, peer_addr_valid := True,
          local_port := local_port (network_state lc)\<rparr>,
        is_active := False, transport_thread_started := True, network_recv_queue := [pkt]\<rparr>,
        tcp\<lparr>socket_fd := new_socket ltcp, tcp_connected := True, recv_thread_started := True\<rparr>)]"
      "threads p' = (threads ?p)(k := Some (Handshaking Passive_Listen init_context))"
      "listen_table p' = hash_set_entry (int l) (q\<lparr>cur_len := cur_len q + 1, connection_queue :=
      (connection_queue q)[j := \<lparr>req_addr = peer, req_addr_len = 16, req_sd = int k\<rparr>]\<rparr>) (listen_table ?p)"
      "closing p' = closing ?p" "receivers p' = insert k (receivers ?p)"
    by auto
  have q2: "queue_of p' = (queue_of ?p)(l \<mapsto> q\<lparr>cur_len := cur_len q + 1, connection_queue :=
      (connection_queue q)[j := \<lparr>req_addr = peer, req_addr_len = 16, req_sd = int k\<rparr>]\<rparr>)"
    by (rule queue_of_set [OF process_okD(2) [OF l(7)] p'(4)])
  show thesis
    by (rule that [of p' k "c\<lparr>my_sd := int k, listen_sd := int l,
        network_state := (network_state c)\<lparr>peer_addr := peer, peer_addr_len := nat 16, peer_addr_valid := True,
          local_port := local_port (network_state lc)\<rparr>,
        is_active := False, transport_thread_started := True, network_recv_queue := [pkt]\<rparr>"
        "tcp\<lparr>socket_fd := new_socket ltcp, tcp_connected := True, recv_thread_started := True\<rparr>" j])
      (use p'(1,2,3,5,6) q2 j l(4,6,8) k kl c assms(3) process_okD(1) [OF ok] in
        \<open>simp_all add: process_changes fresh_context_def\<close>)
qed

section \<open>Connecting\<close>

definition valid_addr :: "sockaddr \<Rightarrow> bool" where
  "valid_addr a \<longleftrightarrow> sa_family a = AF_INET \<and> 0 < sin_port a \<and> 0 < sin_addr a"

lemma connect_opens:
  assumes ok: "process_ok p" and k: "k < MAX_NUM_CONNECTIONS" "global_ctx p ! k = Some (c, tcp)"
    and c: "fresh_context (c\<lparr>bound := False\<rparr>)" "0 \<le> socket_fd tcp" "0 \<le> rc"
  obtains p' a tcp' where "myconnect_start rc port (int k) name 16 p = Inr (None, p')" "global_ctx p' ! k = Some (a, tcp')"
    "threads p' k = Some (Handshaking (fst (active_start init_context)) (snd (active_start init_context)))"
    "network_recv_queue a = []" "is_active a" "blocking a" "\<not> close_requested a"
    "app_send_queue a = []" "app_recv_queue a = []" "wire_out (network_state a) = []" "\<not> copied (network_state a)"
    "peer_addr (network_state a) = name" "local_ip (network_state a) = local_ip (network_state c)"
proof -
  note len = process_okD(1) [OF ok]
  have get: "mysock_get_context (int k) p = Inr (c, tcp)" by (rule get_context_entry [OF ok k])
  have my: "my_sd c = int k" using process_okD(3) [OF ok k(1)] k(2) by (simp add: entry_fits_def)
  let ?c = "c\<lparr>network_state := (network_state c)\<lparr>peer_addr := name, peer_addr_len := 16, peer_addr_valid := True\<rparr>\<rparr>"
  have "\<exists>a tcp'. (if bound ?c then Inr (?c, tcp) else mysock_bind_ephemeral rc port (?c, tcp)) = Inr (a, tcp') \<and>
      my_sd a = int k \<and> \<not> listening a \<and> network_recv_queue a = [] \<and> blocking a \<and> \<not> close_requested a \<and> app_send_queue a = [] \<and>
      app_recv_queue a = [] \<and> wire_out (network_state a) = [] \<and> \<not> copied (network_state a) \<and>
      peer_addr (network_state a) = name \<and> local_ip (network_state a) = local_ip (network_state c)"
    by (cases "bound c") (use c my in \<open>simp_all add: fresh_context_def mysock_bind_ephemeral_def network_bind_def verify_socket_def\<close>)
  then obtain a tcp' where a: "(if bound ?c then Inr (?c, tcp) else mysock_bind_ephemeral rc port (?c, tcp)) = Inr (a, tcp')"
      "my_sd a = int k" "\<not> listening a" "network_recv_queue a = []" "blocking a" "\<not> close_requested a" "app_send_queue a = []"
      "app_recv_queue a = []" "wire_out (network_state a) = []" "\<not> copied (network_state a)"
      "peer_addr (network_state a) = name" "local_ip (network_state a) = local_ip (network_state c)"
    by blast
  let ?p = "set_entry k (a, tcp') p"
  have get1: "mysock_get_context (int k) ?p = Inr (a, tcp')"
    using k(1) len a(2) by (simp add: mysock_get_context_def set_entry_def)
  obtain ph ctx where st: "active_start init_context = (ph, ctx)" by (cases "active_start init_context")
  have "mysock_transport_init (int k) True ?p =
      Inr ((set_entry k (a\<lparr>is_active := True, transport_thread_started := True\<rparr>, tcp'\<lparr>recv_thread_started := True\<rparr>) p)
        \<lparr>receivers := insert k (receivers p), threads := (threads p)(k := Some (Handshaking ph ctx))\<rparr>)"
    using get1 a(3) st
    by (simp add: mysock_transport_init_def transport_start_def network_start_recv_thread_def set_entry_def)
  then have "myconnect_start rc port (int k) name 16 p =
      Inr (None, (set_entry k (a\<lparr>is_active := True, transport_thread_started := True\<rparr>, tcp'\<lparr>recv_thread_started := True\<rparr>) p)
        \<lparr>receivers := insert k (receivers p), threads := (threads p)(k := Some (Handshaking ph ctx))\<rparr>)"
    using get c(1) a(1) by (simp add: myconnect_start_def fresh_context_def Let_def)
  then show thesis
    by (rule that [where a = "a\<lparr>is_active := True, transport_thread_started := True\<rparr>" and tcp' = "tcp'\<lparr>recv_thread_started := True\<rparr>"])
      (use a st k(1) len in \<open>simp_all add: set_entry_def\<close>)
qed

text \<open>C8. A connection between two processes starts where the properties of the handshake and of the session
  start. \<open>myconnect\<close> on a new mysocket starts the transport of the active side, and a SYN that
  reaches a listening mysocket with room makes the network thread of the other process open a mysocket with a
  passive transport, with the SYN as its first packet; without that packet the two are a start of
  the handshake, so that what holds from there holds of them: they get connected or give up, and
  then each application reads what the other writes.\<close>

theorem connections_start_sessions:
  assumes "runs (start_process s) p" "k < MAX_NUM_CONNECTIONS" "global_ctx p ! k = Some (c, tcp)"
    and "fresh_context (c\<lparr>bound := False\<rparr>)" "0 \<le> socket_fd tcp" "0 \<le> rc"
    and "runs (start_process s') r" "queue_of r l = Some q" "closing r = None" "has_room q me" "can_open r"
    and "packet_arrives r l fd me pkt" "ip_payload pkt" "STCP_HEADER_LEN \<le> length pkt" "pkt_flags pkt AND TH_SYN \<noteq> 0"
    and "valid_addr me" "valid_addr you" "local_ip (network_state c) = sin_addr me" "interface_ip (os r) = sin_addr you"
  shows "\<exists>p' a tcp' ph ctx r' i b tcp''.
     myconnect_start rc port (int k) you 16 p = Inr (None, p') \<and> global_ctx p' ! k = Some (a, tcp') \<and>
     threads p' k = Some (Handshaking ph ctx) \<and>
     network_recv_thread connects l r = Inr r' \<and> global_ctx r ! i = None \<and> global_ctx r' ! i = Some (b, tcp'') \<and>
     threads r' i = Some (Handshaking Passive_Listen init_context) \<and> network_recv_queue b = [pkt] \<and>
     socket_fd tcp'' = fd \<and> i \<in> receivers r' \<and>
     setup_start ((ph, a, ctx), (Passive_Listen, b\<lparr>network_recv_queue := []\<rparr>, init_context))"
proof -
  obtain p' a tcp' where a: "myconnect_start rc port (int k) you 16 p = Inr (None, p')" "global_ctx p' ! k = Some (a, tcp')"
    "threads p' k = Some (Handshaking (fst (active_start init_context)) (snd (active_start init_context)))"
    "network_recv_queue a = []" "is_active a" "blocking a" "\<not> close_requested a"
    "app_send_queue a = []" "app_recv_queue a = []" "wire_out (network_state a) = []" "\<not> copied (network_state a)"
    "peer_addr (network_state a) = you" "local_ip (network_state a) = local_ip (network_state c)"
    by (rule connect_opens [OF runs_ok [OF assms(1)] assms(2-6)])
  obtain i j b tcp'' r' where b: "network_recv_thread connects l r = Inr r'" "global_ctx r ! i = None"
    "global_ctx r' ! i = Some (b, tcp'')" "threads r' = (threads r)(i := Some (Handshaking Passive_Listen init_context))"
    "network_recv_queue b = [pkt]" "blocking b" "\<not> close_requested b" "app_send_queue b = []" "app_recv_queue b = []"
    "wire_out (network_state b) = []" "\<not> copied (network_state b)" "peer_addr (network_state b) = me"
    "local_ip (network_state b) = interface_ip (os r)" "socket_fd tcp'' = fd" "receivers r' = insert i (receivers r)"
    by (rule syn_opens [OF runs_ok [OF assms(7)] assms(8-15)])
  have "idle a" "idle (b\<lparr>network_recv_queue := []\<rparr>)" "peers a (b\<lparr>network_recv_queue := []\<rparr>)"
    using a b assms(16-19) by (simp_all add: idle_def sock_ok_def peers_def valid_addr_def)
  then have "setup_start ((fst (active_start init_context), a, snd (active_start init_context)),
      (Passive_Listen, b\<lparr>network_recv_queue := []\<rparr>, init_context))"
    unfolding setup_start_def transport_start_def by (auto split: prod.split)
  then show ?thesis using a b by fastforce
qed

end
