(* ===== verification/Mysock_Stray.thy ===== *)
theory Mysock_Stray
  imports Mysock_Opening
begin

text \<open>
  What a request that is dropped leaves behind: the socket of its TCP connection stays in
  \<open>new_socket\<close> of the listening mysocket, where the next connection must not find it.
\<close>

text \<open>The reasons for which a packet opens no connection: it is no SYN, its peer is already queued, or the
  queue is full.\<close>

definition dropped :: "listen_queue \<Rightarrow> sockaddr \<Rightarrow> bytes \<Rightarrow> bool" where
  "dropped q peer pkt \<longleftrightarrow> length pkt < STCP_HEADER_LEN \<or> pkt_flags pkt AND TH_SYN = 0 \<or> \<not> has_room q peer"

lemma enqueue_drops:
  assumes ok: "process_ok p" and q: "queue_of p l = Some q" and "closing p = None" and "dropped q peer pkt"
  shows "mysock_enqueue_connection l pkt peer 16 p = Inr (False, p)"
proof -
  have s: "slots_ok 0 (roles p) l q" using queues_okD(2) [OF process_okD(4) [OF ok] q] assms(3) by simp
  have r: "roles p l = Some Listener" using queues_okD(1) [OF process_okD(4) [OF ok], of l] q by simp
  then have l: "l < MAX_NUM_CONNECTIONS" using process_okD(1) [OF ok] by (auto simp: roles_def split: if_splits)
  obtain lc ltcp where lc: "global_ctx p ! l = Some (lc, ltcp)" "listening lc"
    using r l process_okD(1) [OF ok] by (auto simp: roles_def role_def split: if_splits)
  then have my: "my_sd lc = int l" "bound lc" using process_okD(3) [OF ok l] by (auto simp: entry_fits_def)
  have "length (connection_queue q) = max_len q" using s by (simp add: slots_ok_def)
  then show ?thesis
    using get_context_entry [OF ok l lc(1)] lc(2) my q assms(3,4) find_retransmission_total slot_lengths [OF s]
    by (auto simp: mysock_enqueue_connection_def listen_lock_free_def get_connection_queue_def queue_of_def
        has_room_def dropped_def)
qed

text \<open>C37. A packet that a listening mysocket drops ends the process at the next connection. Its network thread takes
  the packet, be it no SYN, a second one of a queued peer or one for which the queue has no room, and goes on with the queue unchanged;
  but the accepted socket is not given up, and as soon as the system has another
  connection the thread fails an assertion.\<close>

theorem dropped_request_fatal:
  assumes "runs (start_process s) p" "queue_of p l = Some q" "closing p = None"
    and "packet_arrives p l fd peer pkt" "ip_payload pkt" "dropped q peer pkt"
  shows "\<exists>p' lc ltcp. network_recv_thread connects l p = Inr p' \<and> queue_of p' l = Some q \<and> receivers p' = receivers p \<and>
     global_ctx p' ! l = Some (lc, ltcp) \<and>
     (\<forall>s' fd' peer' later. accept_answers s' (socket_fd ltcp) = Some (fd', peer') # later \<longrightarrow>
        network_recv_thread connects l (set_os s' p') = Inl Assertion_Failure)"
proof -
  note ok = runs_ok [OF assms(1)]
  obtain lc ltcp s1 where l: "l < MAX_NUM_CONNECTIONS" "listening lc" "new_socket ltcp = fd" "\<not> is_active lc"
      "0 \<le> socket_fd ltcp" "0 \<le> fd" "process_ok (set_os s1 (set_entry l (lc, ltcp) p))"
      "network_recv_thread connects l p =
         rbind (mysock_enqueue_connection l pkt peer 16 (set_os s1 (set_entry l (lc, ltcp) p))) (\<lambda>(_, p2). Inr p2)"
    using recv_thread_accepts [OF ok assms(2,4,5)] by metis
  let ?p = "set_os s1 (set_entry l (lc, ltcp) p)"
  have q: "queue_of ?p l = Some q" using assms(2) queue_of_same [of ?p p] by (simp add: process_changes)
  have c: "closing ?p = None" using assms(3) by (simp add: process_changes)
  have g: "global_ctx ?p ! l = Some (lc, ltcp)" using l(1) process_okD(1) [OF ok] by (simp add: process_changes)
  have "network_recv_thread connects l p = Inr ?p" using l(8) enqueue_drops [OF l(7) q c assms(6)] by simp
  moreover have "network_recv_thread connects l (set_os s' ?p) = Inl Assertion_Failure"
    if "accept_answers s' (socket_fd ltcp) = Some (fd', peer') # later" for s' fd' peer' later
  proof -
    have "global_ctx (set_os s' ?p) ! l = Some (lc, ltcp)" "os (set_os s' ?p) = s'" using g by (simp_all add: set_os_def)
    then show ?thesis using l that
      by (simp add: network_recv_thread_def network_recv_packet_def verify_socket_def network_accept_def Let_def)
  qed
  moreover have "receivers ?p = receivers p" by (simp add: process_changes)
  ultimately show ?thesis using q g by blast
qed

end
