(* ===== verification/Mysock_Properties.thy ===== *)
theory Mysock_Properties
  imports Mysock_Process
begin

text \<open>
  What the mysockets of a process promise: consistent tables, an accept queue that never fails and
  answers in order, connections that start as the transport expects them, and what goes wrong
  when a request is dropped, a backlog grows, or a mysocket closes while a connection is set up.
\<close>

section \<open>Consistency\<close>

lemma role_Passive: "role c = Passive l b \<longleftrightarrow>
    \<not> listening c \<and> transport_thread_started c \<and> \<not> is_active c \<and> l = nat (listen_sd c) \<and> b = blocking c"
  by (auto simp: role_def)

lemma role_Listener: "role c = Listener \<longleftrightarrow> listening c"
  by (simp add: role_def)

lemma passive_entry:
  assumes "process_ok p" "roles p k = Some (Passive l b)"
  obtains c tcp where "k < MAX_NUM_CONNECTIONS" "global_ctx p ! k = Some (c, tcp)" "my_sd c = int k" "listen_sd c = int l"
    "\<not> is_active c" "blocking c = b" "0 < peer_addr_len (network_state c)" "transport_thread_started c" "\<not> listening c"
proof -
  have k: "k < MAX_NUM_CONNECTIONS" using assms process_okD(1) [OF assms(1)] by (auto simp: roles_def split: if_splits)
  obtain c tcp where c: "global_ctx p ! k = Some (c, tcp)" "role c = Passive l b"
    using assms(2) k process_okD(1) [OF assms(1)] by (auto simp: roles_def)
  then have "my_sd c = int k" "listen_sd c = int l" "0 < peer_addr_len (network_state c)"
    using process_okD(3) [OF assms(1) k] by (auto simp: entry_fits_def role_Passive)
  then show thesis using that [OF k c(1)] c(2) by (auto simp: role_Passive)
qed

lemma listener_entry:
  assumes "process_ok p" "queue_of p l = Some q"
  obtains c tcp where "l < MAX_NUM_CONNECTIONS" "global_ctx p ! l = Some (c, tcp)" "my_sd c = int l" "listening c" "bound c"
proof -
  have r: "roles p l = Some Listener" using queues_okD(1) [OF process_okD(4) [OF assms(1)], of l] assms(2) by simp
  then have l: "l < MAX_NUM_CONNECTIONS" using process_okD(1) [OF assms(1)] by (auto simp: roles_def split: if_splits)
  obtain c tcp where c: "global_ctx p ! l = Some (c, tcp)" "listening c"
    using r l process_okD(1) [OF assms(1)] by (auto simp: roles_def role_Listener)
  then show thesis using that [OF l c(1)] process_okD(3) [OF assms(1) l] by (auto simp: entry_fits_def)
qed

lemma queue_listens:
  assumes "process_ok p" "k < MAX_NUM_CONNECTIONS" "global_ctx p ! k = Some (c, tcp)"
  shows "listening c \<longleftrightarrow> queue_of p k \<noteq> None"
  using queues_okD(1) [OF process_okD(4) [OF assms(1)], of k] assms(2,3) process_okD(1) [OF assms(1)]
  by (simp add: roles_def role_Listener)


section \<open>Nothing fails\<close>

lemma accept_total:
  assumes ok: "process_ok p" and q: "queue_of p l = Some q" and "closing p = None" and c: "completed_queue q = (a, j) # later"
  shows "\<exists>k c err p'. req_sd (connection_queue q ! j) = int k \<and> global_ctx p ! k = Some c \<and>
    myaccept (int l) p = Inr (if err = 0 then int k else -1, err,
      if err = 0 then Some (peer_addr (network_state (fst c))) else None, p') \<and> err = stcp_errno (fst c) \<and>
    queue_of p' l = Some (q\<lparr>completed_queue := later, connection_queue := (connection_queue q)[j := free_request],
        cur_len := cur_len q - 1\<rparr>)"
proof -
  note Q = process_okD(4) [OF ok]
  have s: "slots_ok 0 (roles p) l q" and d: "completed_ok (roles p) l q"
    using queues_okD(2,3) [OF Q q] assms(3) by simp_all
  have a: "a = queue_array q" "used q j" using completed_okD(3) [OF d] c by auto
  obtain k b where k: "req_sd (connection_queue q ! j) = int k" "roles p k = Some (Passive l b)"
    using used_slot [OF s a(2)] by blast
  obtain e tcp where e: "k < MAX_NUM_CONNECTIONS" "global_ctx p ! k = Some (e, tcp)" "my_sd e = int k" "listen_sd e = int l"
      "0 < peer_addr_len (network_state e)"
    using passive_entry [OF ok k(2)] by metis
  obtain lc ltcp where l: "l < MAX_NUM_CONNECTIONS" "global_ctx p ! l = Some (lc, ltcp)" "my_sd lc = int l" "listening lc" "bound lc"
    using listener_entry [OF ok q] by metis
  let ?q = "q\<lparr>completed_queue := later, connection_queue := (connection_queue q)[j := free_request], cur_len := cur_len q - 1\<rparr>"
  let ?p = "set_queue (int l) ?q p"
  have get: "mysock_get_context (int l) p = Inr (lc, ltcp)" "mysock_get_context (int k) p = Inr (e, tcp)"
    "mysock_get_context (int k) ?p = Inr (e, tcp)"
    using get_context_entry [OF ok l(1,2)] get_context_entry [OF ok e(1,2)]
    by (simp_all add: mysock_get_context_def set_queue_def)
  have "0 < card {j. used q j}" using a(2) by (auto simp: card_gt_0_iff)
  moreover have "j < length (connection_queue q)" using a(2) s by (simp add: used_def slots_ok_def)
  ultimately have "mysock_dequeue_connection lc p = Inr (int k, ?p)"
    using l q assms(3) c a(1) k(1) get(2) completed_okD(1) [OF d]
    by (simp add: mysock_dequeue_connection_def listen_lock_free_def get_connection_queue_def queue_of_def Let_def)
  then have "myaccept (int l) p = Inr (if stcp_errno e = 0 then int k else -1, stcp_errno e,
      if stcp_errno e = 0 then Some (peer_addr (network_state e)) else None, ?p)"
    using get l(4) e by (simp add: myaccept_def Let_def)
  then show ?thesis using k(1) e(2) queue_of_set [OF process_okD(2) [OF ok], of ?p l ?q] by (auto simp: set_queue_def)
qed

lemma accept_waits:
  assumes ok: "process_ok p" and q: "queue_of p l = Some q" and "closing p \<noteq> None \<or> completed_queue q = []"
  shows "myaccept (int l) p = Inl Would_Block"
proof -
  obtain lc ltcp where l: "l < MAX_NUM_CONNECTIONS" "global_ctx p ! l = Some (lc, ltcp)" "my_sd lc = int l" "listening lc" "bound lc"
    using listener_entry [OF ok q] by metis
  show ?thesis using assms get_context_entry [OF ok l(1,2)] l
    by (cases "closing p") (auto simp: myaccept_def mysock_dequeue_connection_def get_connection_queue_def queue_of_def
        listen_lock_free_def)
qed

section \<open>The order of acceptance\<close>

text \<open>The descriptors that a listening mysocket has ready, in the order of the queue.\<close>

definition ready :: "listen_queue \<Rightarrow> nat list" where
  "ready q = map (\<lambda>(a, j). nat (req_sd (connection_queue q ! j))) (completed_queue q)"

definition accept_list :: "process \<Rightarrow> nat \<Rightarrow> nat list" where
  "accept_list p l = (case queue_of p l of None \<Rightarrow> [] | Some q \<Rightarrow> ready q)"

definition fifo_step :: "'a list \<Rightarrow> 'a list \<Rightarrow> bool" where
  "fifo_step xs ys \<longleftrightarrow> ys = xs \<or> (\<exists>k. ys = xs @ [k]) \<or> (\<exists>k. xs = k # ys)"

lemma fifo_refl [simp]: "fifo_step xs xs"
  by (simp add: fifo_step_def)

lemma ready_dequeue:
  assumes "completed_ok R l q" "completed_queue q = (a, j) # later"
  shows "ready (q\<lparr>completed_queue := later, connection_queue := (connection_queue q)[j := free_request], cur_len := n\<rparr>) =
    tl (ready q)"
proof -
  have "(connection_queue q)[j := free_request] ! i = connection_queue q ! i" if "(b, i) \<in> set later" for b i
    using completed_okD(2) [OF assms(1)] completed_okD(3) [OF assms(1), of b i] completed_okD(3) [OF assms(1), of a j]
      assms(2) that by (intro nth_list_update_neq) auto
  then have "map (\<lambda>(a, i). nat (req_sd ((connection_queue q)[j := free_request] ! i))) later =
      map (\<lambda>(a, i). nat (req_sd (connection_queue q ! i))) later" by (intro map_cong) auto
  then show ?thesis using assms(2) by (simp add: ready_def)
qed

lemma transport_init_table: "mysock_transport_init sd active p = Inr p' \<Longrightarrow> listen_table p' = listen_table p"
  by (auto simp: mysock_transport_init_def network_start_recv_thread_def set_entry_def rbind_eq_Inr_iff case_prod_beta)

lemma complete_total:
  assumes ok: "process_ok p" and k: "roles p k = Some (Passive l True)" "global_ctx p ! k = Some (c, tcp)"
    and c1: "my_sd c1 = my_sd c" "listen_sd c1 = listen_sd c" "is_active c1 = is_active c"
  shows "closing p \<noteq> None \<Longrightarrow> unblocked k c1 tcp p = Inl Would_Block"
    and "closing p = None \<Longrightarrow> \<exists>p'. unblocked k c1 tcp p = Inr p' \<and> accept_list p' l = accept_list p l @ [k] \<and>
      global_ctx p' = (global_ctx p)[k := Some (c1, tcp)] \<and> threads p' = threads p \<and> closing p' = None"
proof -
  obtain c' tcp' where "k < MAX_NUM_CONNECTIONS" "global_ctx p ! k = Some (c', tcp')" "my_sd c' = int k" "listen_sd c' = int l"
      "\<not> is_active c'" using passive_entry [OF ok k(1)] by metis
  then have e: "k < MAX_NUM_CONNECTIONS" "my_sd c1 = int k" "listen_sd c1 = int l" "\<not> is_active c1"
    using k(2) c1 by auto
  note Q = process_okD(4) [OF ok]
  obtain q j where q: "queue_of p l = Some q" "first_slot l (closing p) \<le> j" "used q j" "req_sd (connection_queue q ! j) = int k"
    using queues_okD(4) [OF Q k(1)] by blast
  have s: "slots_ok (first_slot l (closing p)) (roles p) l q" by (rule queues_okD(2) [OF Q q(1)])
  obtain lc ltcp where l: "l < MAX_NUM_CONNECTIONS" "global_ctx p ! l = Some (lc, ltcp)" "my_sd lc = int l" "listening lc" "bound lc"
    using listener_entry [OF ok q(1)] by metis
  have "l \<noteq> k" using k q(1) l queue_listens [OF ok e(1) k(2)] passive_entry [OF ok k(1)] by (metis option.inject prod.inject)
  then have get: "mysock_get_context (int l) (set_entry k (c1, tcp) p) = Inr (lc, ltcp)"
    using l by (simp add: mysock_get_context_def set_entry_def)
  show "unblocked k c1 tcp p = Inl Would_Block" if "closing p \<noteq> None"
    using e that by (auto simp: unblocked_def mysock_passive_connection_complete_def listen_lock_free_def set_entry_def)
  assume c: "closing p = None"
  obtain i where i: "find (\<lambda>j. req_sd (connection_queue q ! j) = int k) [0..<max_len q] = Some i"
    using q(3,4) by (cases "find (\<lambda>j. req_sd (connection_queue q ! j) = int k) [0..<max_len q]")
      (auto simp: find_None_iff used_def)
  let ?q = "q\<lparr>completed_queue := completed_queue q @ [(queue_array q, i)]\<rparr>"
  let ?p = "set_queue (int l) ?q (set_entry k (c1, tcp) p)"
  have "unblocked k c1 tcp p = Inr ?p"
    using e get l q(1) s i c
    by (simp add: unblocked_def mysock_passive_connection_complete_def listen_lock_free_def get_connection_queue_def
        queue_of_def slots_ok_def) (simp add: set_entry_def)
  moreover have "queue_of ?p = (queue_of p)(l \<mapsto> ?q)"
    using queue_of_set [OF process_okD(2) [OF ok], of ?p l ?q] by (simp add: process_changes)
  moreover have "ready ?q = ready q @ [k]" using i by (auto simp: ready_def find_Some_iff)
  ultimately show "\<exists>p'. unblocked k c1 tcp p = Inr p' \<and> accept_list p' l = accept_list p l @ [k] \<and>
      global_ctx p' = (global_ctx p)[k := Some (c1, tcp)] \<and> threads p' = threads p \<and> closing p' = None"
    using q(1) c by (auto simp: accept_list_def process_changes)
qed

text \<open>C10. A connection that has been set up, or has failed, gets ready to be accepted. The next step of its transport
  thread puts it behind the connections that are ready already and ends its blocking, with the error when the handshake failed;
  the thread then controls the connection, or ends. Only while a mysocket is being closed the thread waits.\<close>

theorem finished_connection_ready:
  assumes "runs (start_process s) p" "k < MAX_NUM_CONNECTIONS" "global_ctx p ! k = Some (c, tcp)" "\<not> is_active c"
    and "threads p k = Some (Handshaking ph d)" "ph = Handshake_Done \<or> ph = Handshake_Failed"
  shows "if closing p = None
    then \<exists>p' c'. transport_thread_func k p = Inr p' \<and>
      accept_list p' (nat (listen_sd c)) = accept_list p (nat (listen_sd c)) @ [k] \<and>
      global_ctx p' ! k = Some (c', tcp) \<and> \<not> blocking c' \<and>
      (if ph = Handshake_Failed then stcp_errno c' = ECONNREFUSED \<and> threads p' k = Some Ending
       else threads p' k = Some (Controlling (d\<lparr>connection_state := CSTATE_ESTABLISHED\<rparr>)))
    else transport_thread_func k p = Inl Would_Block"
proof -
  note ok = runs_ok [OF assms(1)]
  have f: "\<not> listening c" "transport_thread_started c" "blocking c"
    using process_okD(3) [OF ok assms(2)] assms(3,4,5) by (auto simp: entry_fits_def)
  then have r: "roles p k = Some (Passive (nat (listen_sd c)) True)"
    using assms(2,3,4) process_okD(1) [OF ok] by (simp add: roles_def role_def)
  obtain c1 res where u: "transport_connected (ph, c, d) = Inr (c1, res)"
    "\<not> blocking c1" "my_sd c1 = my_sd c" "listen_sd c1 = listen_sd c" "is_active c1 = is_active c"
    "if ph = Handshake_Failed then stcp_errno c1 = ECONNREFUSED \<and> res = None
     else res = Some (d\<lparr>connection_state := CSTATE_ESTABLISHED\<rparr>)"
    using assms(6) f(3) by (auto simp: transport_connected_def stcp_unblock_application_def ECONNREFUSED_def EINTR_def)
  note t = complete_total [OF ok r assms(3) u(3-5)]
  show ?thesis
  proof (cases "closing p = None")
    case True
    from t(2) [OF True] obtain p1 where "unblocked k c1 tcp p = Inr p1"
      "accept_list p1 (nat (listen_sd c)) = accept_list p (nat (listen_sd c)) @ [k]"
      "global_ctx p1 = (global_ctx p)[k := Some (c1, tcp)]" by blast
    then show ?thesis using True assms(2,3,5,6) u process_okD(1) [OF ok]
      by (auto simp: transport_thread_func_def accept_list_def queue_of_def)
  next
    case False
    then show ?thesis using t(1) assms(3,5,6) u(1) by (auto simp: transport_thread_func_def)
  qed
qed

lemma calls_table:
  "mybind rc port sd addr p = Inr (r, err, p') \<Longrightarrow> listen_table p' = listen_table p"
  "mywrite sd buf p = Inr (r, err, p') \<Longrightarrow> listen_table p' = listen_table p"
  "myread sd n p = Inr (r, err, b, p') \<Longrightarrow> listen_table p' = listen_table p"
  "myclose_request sd p = Inr p' \<Longrightarrow> listen_table p' = listen_table p"
  "myconnect_start rc port sd name n p = Inr (e, p') \<Longrightarrow> listen_table p' = listen_table p"
  by (auto simp: mybind_def mywrite_def myread_def myclose_request_def myconnect_start_def rbind_eq_Inr_iff set_entry_def
      Let_def dest!: transport_init_table split: if_splits)

lemma open_table:
  assumes "mysocket reliable p = Inr (sd, p')" "process_ok p"
  shows "listen_table p' = listen_table p"
  using assms(1) [unfolded mysocket_def] assms(2) by (cases rule: new_mysocket_cases) (simp_all add: process_changes)

lemma listen_table_other:
  assumes "mylisten rc sd backlog p = Inr (r, p')" "process_ok p" "queue_of p l = Some q"
    and fresh: "\<And>e. mysock_get_context sd p = Inr e \<Longrightarrow> role (fst e) = Fresh"
  shows "queue_of p' l = Some q"
proof -
  obtain c tcp p1 where c: "mysock_get_context sd p = Inr (c, tcp)"
    and p1: "mysock_set_backlog (nat sd) backlog (set_entry (nat sd) (c\<lparr>listening := True\<rparr>, tcp) p) = Inr p1"
    and p': "p' = p1 \<or> (\<exists>e. p' = network_start_recv_thread (nat sd) e p1)"
    using assms(1) by (auto simp: mylisten_def rbind_eq_Inr_iff split: if_splits)
  obtain k where k: "sd = int k" "k < MAX_NUM_CONNECTIONS" "global_ctx p ! k = Some (c, tcp)"
    using get_context [OF assms(2) c] by metis
  have f: "\<not> listening c" using fresh [OF c] by (auto simp: role_def split: if_splits)
  then have kl: "k \<noteq> l" using queue_listens [OF assms(2) k(2,3)] assms(3) by auto
  have "\<exists>q1. listen_table p1 = hash_set_entry (int k) q1 (listen_table p)"
    using p1 k(1) by (auto simp: mysock_set_backlog_def rbind_eq_Inr_iff Let_def set_queue_def set_entry_def)
  then obtain q1 where "listen_table p' = hash_set_entry (int k) q1 (listen_table p)"
    using p' by (auto simp: network_start_recv_thread_def set_entry_def)
  then show ?thesis using queue_of_set [OF process_okD(2) [OF assms(2)], of p' k q1] assms(3) kl by simp
qed

lemma accept_fifo:
  assumes "myaccept sd p = Inr (r, err, a, p')" "process_ok p" "queue_of p l = Some q"
  shows "\<exists>q'. queue_of p' l = Some q' \<and> fifo_step (ready q) (ready q')"
proof -
  obtain c tcp where c: "mysock_get_context sd p = Inr (c, tcp)"
    and p': "p' = p \<or> (\<exists>new. mysock_dequeue_connection c p = Inr (new, p'))"
    using assms(1) by (auto simp: myaccept_def rbind_eq_Inr_iff Let_def split: if_splits)
  obtain k where k: "k < MAX_NUM_CONNECTIONS" "global_ctx p ! k = Some (c, tcp)"
    using get_context [OF assms(2) c] by metis
  then have my: "my_sd c = int k" using process_okD(3) [OF assms(2)] by (fastforce simp: entry_fits_def)
  show ?thesis
  proof (cases "p' = p")
    case True
    then show ?thesis using assms(3) by auto
  next
    case False
    then obtain new where "mysock_dequeue_connection c p = Inr (new, p')" using p' by blast
    from this assms(2) my show ?thesis
    proof (cases rule: dequeue_cases)
      case (1 q0 j later)
      let ?q = "q0\<lparr>completed_queue := later, connection_queue := (connection_queue q0)[j := free_request], cur_len := cur_len q0 - 1\<rparr>"
      have eq: "queue_of p' = (queue_of p)(k \<mapsto> ?q)"
        using queue_of_set [OF process_okD(2) [OF assms(2)], of p' k ?q] 1(5) by (simp add: set_queue_def)
      have d: "completed_ok (roles p) k q0"
        using queues_okD(3) [OF process_okD(4) [OF assms(2)] 1(1)] 1(3) by simp
      have "ready ?q = tl (ready q0)" by (rule ready_dequeue [OF d 1(2)])
      then have "fifo_step (ready q0) (ready ?q)" using 1(2) by (simp add: fifo_step_def ready_def)
      then show ?thesis using eq 1(1) assms(3) by (cases "k = l") auto
    qed
  qed
qed

lemma enqueue_fifo:
  assumes "mysock_enqueue_connection m packet peer 16 p = Inr (b, p')" "process_ok p" "queue_of p l = Some q"
    and m: "m < MAX_NUM_CONNECTIONS" "global_ctx p ! m = Some (lc, ltcp)"
  shows "\<exists>q'. queue_of p' l = Some q' \<and> ready q' = ready q"
  using assms(1,2) m
proof (cases rule: enqueue_cases)
  case (request q0 j)
  note hash = process_okD(2) [OF assms(2)] and Q = process_okD(4) [OF assms(2)]
  have s: "slots_ok 0 (roles p) m q0" and d: "completed_ok (roles p) m q0"
    using queues_okD(2,3) [OF Q request(1)] request(2) by simp_all
  have "i \<noteq> j" if "(x, i) \<in> set (completed_queue q0)" for x i
    using completed_okD(3) [OF d that] request(4) by auto
  then have r: "ready (q0\<lparr>cur_len := n, connection_queue := (connection_queue q0)[j := v]\<rparr>) = ready q0" for n v
    by (fastforce simp: ready_def)
  have "\<exists>n v. queue_of p' = (queue_of p)(m \<mapsto> q0\<lparr>cur_len := n, connection_queue := (connection_queue q0)[j := v]\<rparr>)"
    using request(5) assms(2) m
  proof (cases rule: establish_cases)
    case (full os')
    have "queue_of p' = (queue_of p)
        (m \<mapsto> q0\<lparr>cur_len := cur_len q0, connection_queue := (connection_queue q0)[j := free_request]\<rparr>)"
      by (rule queue_of_set [OF hash]) (simp add: full process_changes)
    then show ?thesis by blast
  next
    case (new k c c' tcp')
    then show ?thesis using queue_of_set [OF hash, of p' m] by blast
  qed
  then show ?thesis using r request(1) assms(3) by (cases "m = l") auto
qed (use assms(3) in auto)

lemma unblocked_fifo:
  assumes "unblocked k c tcp p = Inr p'" "my_sd c = int k" "process_ok p" "queue_of p l = Some q"
  shows "\<exists>q'. queue_of p' l = Some q' \<and> fifo_step (ready q) (ready q')"
proof (cases "is_active c")
  case True
  then show ?thesis using assms(1,4) queue_of_same [of p' p] by (auto simp: unblocked_def set_entry_def)
next
  case False
  let ?p = "set_entry k (c, tcp) p"
  have "queue_of ?p = queue_of p" "hash_ok (listen_table ?p)"
    using queue_of_same [of ?p p] process_okD(2) [OF assms(3)] by (simp_all add: set_entry_def)
  note same = this
  have "mysock_passive_connection_complete c ?p = Inr p'" using assms(1) False by (simp add: unblocked_def)
  from this assms(2) show ?thesis
  proof (cases rule: complete_cases)
    case none
    then show ?thesis using same assms(4) by auto
  next
    case (queued q0 j)
    let ?q = "q0\<lparr>completed_queue := completed_queue q0 @ [(queue_array q0, j)]\<rparr>" and ?m = "nat (listen_sd c)"
    have "queue_of p' = (queue_of p)(?m \<mapsto> ?q)"
      using queue_of_set [OF same(2), of p' ?m ?q] queued(2,6) same(1) by (simp add: set_queue_def)
    moreover have "queue_of p ?m = Some q0" using queued(1,2) same(1) by (simp add: queue_of_def set_entry_def)
    moreover have "fifo_step (ready q0) (ready ?q)" by (simp add: fifo_step_def ready_def)
    ultimately show ?thesis using assms(4) by (cases "?m = l") auto
  qed
qed

lemma same_table_fifo:
  "listen_table p' = listen_table p \<Longrightarrow> queue_of p l = Some q \<Longrightarrow>
    \<exists>q'. queue_of p' l = Some q' \<and> fifo_step (ready q) (ready q')"
  using queue_of_same [of p' p] by simp

lemma transport_fifo:
  assumes "transport_thread_func k p = Inr p'" "process_ok p" "k < MAX_NUM_CONNECTIONS" "queue_of p l = Some q"
  shows "\<exists>q'. queue_of p' l = Some q' \<and> fifo_step (ready q) (ready q')"
proof -
  obtain c tcp where c: "global_ctx p ! k = Some (c, tcp)"
    using assms(1) by (auto simp: transport_thread_func_def split: option.splits)
  note fits = process_okD(3) [OF assms(2,3), unfolded c]
  have "listen_table p' = listen_table p \<or> (\<exists>c1 p1. unblocked k c1 tcp p = Inr p1 \<and> my_sd c1 = int k \<and> listen_table p' = listen_table p1)"
  proof (cases "threads p k = Some Ending")
    case True
    then show ?thesis using assms(1) c fits
      by (auto simp: transport_thread_func_def transport_thread_end_def entry_fits_def set_entry_def)
  next
    case False
    have my: "my_sd c = int k" using fits by (simp add: entry_fits_def)
    have u: "my_sd c1 = int k" if "transport_connected (ph, c, d) = Inr (c1, res)" for ph d c1 res
      using connected_cases [OF that] my by simp
    show ?thesis
      using assms(1) c False
      by (auto simp: transport_thread_func_def rbind_eq_Inr_iff set_entry_def
          split: option.splits transport_thread.splits if_splits) (blast dest: u)+
  qed
  then show ?thesis
  proof (elim disjE exE conjE)
    fix c1 p1 assume u: "unblocked k c1 tcp p = Inr p1" "my_sd c1 = int k" and t: "listen_table p' = listen_table p1"
    show ?thesis using unblocked_fifo [OF u assms(2,4)] queue_of_same [OF t] by simp
  qed (rule same_table_fifo [OF _ assms(4)])
qed

lemma receive_fifo:
  assumes "network_recv_thread connects k p = Inr p'" "process_ok p" "k < MAX_NUM_CONNECTIONS" "queue_of p l = Some q"
  shows "\<exists>q'. queue_of p' l = Some q' \<and> fifo_step (ready q) (ready q')"
proof -
  obtain c tcp where c: "global_ctx p ! k = Some (c, tcp)"
    using assms(1) by (auto simp: network_recv_thread_def split: option.splits)
  obtain rc packet c1 tcp1 s where r: "network_recv_packet connects MAX_IP_PAYLOAD_LEN (c, tcp) (os p) = Inr (rc, packet, (c1, tcp1), s)"
    using assms(1) c by (auto simp: network_recv_thread_def rbind_eq_Inr_iff)
  let ?p1 = "set_os s (set_entry k (c1, tcp1) p)"
  have role: "same_role c c1" using recv_packet_role(1) [OF r] by simp
  have ok: "process_ok ?p1" using process_ok_set_entry [OF assms(2,3) c role] by simp
  have c1: "global_ctx ?p1 ! k = Some (c1, tcp1)"
    using assms(3) process_okD(1) [OF assms(2)] by (simp add: process_changes)
  have q1: "queue_of ?p1 l = Some q" using assms(4) queue_of_same [of ?p1 p] by (simp add: process_changes)
  consider b where "0 < rc" "listening c1" "mysock_enqueue_connection k packet (peer_addr (network_state c1))
        (int (peer_addr_len (network_state c1))) ?p1 = Inr (b, p')"
    | "listen_table p' = listen_table p"
    using assms(1) c r by (auto simp: network_recv_thread_def rbind_eq_Inr_iff Let_def process_changes split: if_splits)
  then show ?thesis
  proof cases
    case 1
    then have "peer_addr_len (network_state c1) = 16" using recv_packet_role(2) [OF r] role by (simp add: same_role_def)
    then show ?thesis using enqueue_fifo [OF _ ok q1 assms(3) c1] 1(3) by fastforce
  qed (rule same_table_fifo [OF _ assms(4)])
qed

lemma close_loop_table:
  assumes "mysock_close_passive_socket p = Inr p'" "process_ok p" "queue_of p l = Some q"
  shows "listen_table p' = listen_table p \<or> queue_of p' l = None \<or> queue_of p' l = Some q"
proof -
  obtain m i w where c: "closing p = Some (m, i, w)"
    using assms(1) by (auto simp: mysock_close_passive_socket_def split: option.splits)
  have req: "listen_table p1 = listen_table p" if "myclose_request sd p = Inr p1" for sd p1
    using calls_table(4) [OF that] .
  have fin: "listen_table p1 = listen_table p" if "myclose_finish sd p = Inr p1" for sd p1
    using that assms(2) by (cases rule: close_cases) simp_all
  have free: "listen_table p1 = tbl" if "mysock_free_context m (p\<lparr>listen_table := tbl, closing := None\<rparr>) = Inr p1" for tbl p1
    using that by (auto simp: mysock_free_context_def Let_def set_os_def split: option.splits if_splits)
  obtain tbl where tbl: "hash_delete (int m) (listen_table p) = Inr tbl"
      "\<forall>j. hash_lookup_ptr j tbl = (if j = int m then None else hash_lookup_ptr j (listen_table p))"
    using listen_map.del_ok [OF process_okD(2) [OF assms(2)], of "int m"] by blast
  show ?thesis
  proof (cases "listen_table p' = listen_table p")
    case False
    then have "mysock_free_context m (p\<lparr>listen_table := tbl, closing := None\<rparr>) = Inr p'"
      using assms(1) c tbl(1) req fin
      by (auto simp: mysock_close_passive_socket_def rbind_eq_Inr_iff Let_def split: if_splits)
    then show ?thesis using free tbl(2) assms(3) by (auto simp: queue_of_def)
  qed simp
qed

lemma step_fifo:
  assumes "proc_step p p'" "process_ok p" "queue_of p l = Some q"
  shows "queue_of p' l = None \<or> (\<exists>q'. queue_of p' l = Some q' \<and> fifo_step (ready q) (ready q'))"
  using assms(1)
proof (cases rule: proc_step.cases)
  case (open_step reliable sd)
  then show ?thesis using same_table_fifo [OF open_table [OF _ assms(2)] assms(3)] by blast
next
  case (listen_step sd rc backlog r)
  have "role (fst e) = Fresh" if "mysock_get_context sd p = Inr e" for e using listen_step(2) that by (simp add: unconnected_def)
  then show ?thesis using listen_table_other [OF listen_step(3) assms(2,3)] by auto
next
  case (accept_step sd r err a)
  then show ?thesis using accept_fifo [OF _ assms(2,3)] by blast
next
  case (closed_step sd)
  from closed_step(2) assms(2) have "listen_table p' = listen_table p" by (cases rule: close_cases) simp_all
  then show ?thesis using same_table_fifo [OF _ assms(3)] by blast
next
  case close_loop_step
  then show ?thesis using close_loop_table [OF _ assms(2,3)] same_table_fifo [OF _ assms(3)] by fastforce
next
  case (receive_step k connects)
  then show ?thesis using receive_fifo [OF _ assms(2) _ assms(3)] by blast
next
  case (transport_step k)
  then show ?thesis using transport_fifo [OF _ assms(2) _ assms(3)] by blast
next
  case (bind_step sd rc port addr r err)
  then show ?thesis using same_table_fifo [OF calls_table(1) assms(3)] by blast
next
  case (write_step sd buf r err)
  then show ?thesis using same_table_fifo [OF calls_table(2) assms(3)] by blast
next
  case (read_step sd n r err b)
  then show ?thesis using same_table_fifo [OF calls_table(3) assms(3)] by blast
next
  case (close_step sd)
  then show ?thesis using same_table_fifo [OF calls_table(4) assms(3)] by blast
next
  case (connect_step sd rc port name n err)
  then show ?thesis using same_table_fifo [OF calls_table(5) assms(3)] by blast
qed (use same_table_fifo [OF _ assms(3)] in \<open>simp_all add: set_clock_def set_os_def\<close>)


end
