(* ===== verification/Mysock_Deadlock.thy ===== *)
theory Mysock_Deadlock
  imports Mysock_Properties
begin

text \<open>
  A listening mysocket that is closed while a connection of its queue is still being set up never
  finishes: it holds \<open>listen_lock\<close> for writing and waits for the transport of that connection,
  which waits for the lock.
\<close>

section \<open>What changes while a mysocket is being closed\<close>

definition frozen :: "nat \<Rightarrow> process \<Rightarrow> process \<Rightarrow> bool" where
  "frozen k p p' \<longleftrightarrow> listen_table p' = listen_table p \<and> closing p' = closing p \<and> threads p' k = threads p k"

lemma frozen_entry [simp]: "frozen k p (set_entry j e p)" "frozen k p (set_os s p)" "frozen k p (set_clock t p)" "frozen k p p"
  by (simp_all add: frozen_def set_entry_def set_os_def set_clock_def)

lemma calls_frozen:
  "mybind rc port sd addr p = Inr (r, err, p') \<Longrightarrow> frozen k p p'"
  "mywrite sd buf p = Inr (r, err, p') \<Longrightarrow> frozen k p p'"
  "myread sd n p = Inr (r, err, b, p') \<Longrightarrow> frozen k p p'"
  "myclose_request sd p = Inr p' \<Longrightarrow> frozen k p p'"
  by (auto simp: mybind_def mywrite_def myread_def myclose_request_def rbind_eq_Inr_iff Let_def split: if_splits)

lemma open_frozen: "mysocket reliable p = Inr (sd, p') \<Longrightarrow> process_ok p \<Longrightarrow> frozen k p p'"
  unfolding mysocket_def by (cases rule: new_mysocket_cases) (auto simp: frozen_def process_changes)

lemma connect_frozen:
  assumes "myconnect_start rc port sd name n p = Inr (err, p')" "sd \<noteq> int k"
  shows "frozen k p p'"
proof -
  have "0 \<le> sd" using assms(1) by (auto simp: myconnect_start_def mysock_get_context_def rbind_eq_Inr_iff)
  then have "nat sd \<noteq> k" using assms(2) by auto
  then show ?thesis using assms(1)
    by (auto simp: myconnect_start_def mysock_transport_init_def network_start_recv_thread_def rbind_eq_Inr_iff Let_def
        frozen_def set_entry_def case_prod_beta split: if_splits)
qed

lemma locked_calls:
  assumes "closing p \<noteq> None"
  shows "mylisten rc sd backlog p \<noteq> Inr (r, p')" "mysock_enqueue_connection l packet peer len p \<noteq> Inr (b, p')"
    "mysock_passive_connection_complete c p \<noteq> Inr p'" "myaccept sd p = Inr (r', err, a, p') \<Longrightarrow> p' = p"
  using assms
  by (auto simp: mylisten_def mysock_set_backlog_def mysock_enqueue_connection_def mysock_passive_connection_complete_def
      listen_lock_free_def myaccept_def mysock_dequeue_connection_def rbind_eq_Inr_iff set_entry_def Let_def split: if_splits)

lemma close_frozen:
  assumes "myclose_finish sd p = Inr p'" "process_ok p" "closing p \<noteq> None" "sd \<noteq> int k"
  shows "frozen k p p'"
  using assms(1,2) by (cases rule: close_cases) (use assms(3,4) in \<open>auto simp: frozen_def\<close>)

lemma receive_frozen:
  assumes "network_recv_thread connects j p = Inr p'" "closing p \<noteq> None"
  shows "frozen k p p'"
  using assms locked_calls(2) by (auto simp: network_recv_thread_def rbind_eq_Inr_iff Let_def frozen_def process_changes
      split: option.splits if_splits)

lemma unblocked_frozen:
  assumes "unblocked j c tcp p = Inr p'" "closing p \<noteq> None"
  shows "is_active c \<and> p' = set_entry j (c, tcp) p"
  using assms locked_calls(3) [of "set_entry j (c, tcp) p"] by (auto simp: unblocked_def set_entry_def split: if_splits)

lemma transport_frozen:
  assumes "transport_thread_func j p = Inr p'" "closing p \<noteq> None" "j \<noteq> k"
  shows "frozen k p p'"
  using assms
  by (auto simp: transport_thread_func_def transport_thread_end_def rbind_eq_Inr_iff frozen_def set_entry_def
      dest!: unblocked_frozen split: option.splits transport_thread.splits if_splits)

section \<open>The deadlock\<close>

text \<open>The mysocket \<open>l\<close> is being closed and has come to a connection whose transport is in the handshake.\<close>

definition closes_at :: "nat \<Rightarrow> nat \<Rightarrow> nat \<Rightarrow> listen_queue \<Rightarrow> process \<Rightarrow> bool" where
  "closes_at l i k q p \<longleftrightarrow> (\<exists>w. closing p = Some (l, i, w)) \<and> queue_of p l = Some q \<and> i < max_len q \<and>
     req_sd (connection_queue q ! i) = int k \<and> (\<exists>ph c. threads p k = Some (Handshaking ph c))"

lemma closes_at_entry:
  assumes "process_ok p" "closes_at l i k q p"
  obtains c tcp b where "k < MAX_NUM_CONNECTIONS" "global_ctx p ! k = Some (c, tcp)" "\<not> is_active c" "transport_thread_started c"
    "roles p k = Some (Passive l b)"
proof -
  obtain w where w: "closing p = Some (l, i, w)" using assms(2) by (auto simp: closes_at_def)
  have "slots_ok i (roles p) l q"
    using queues_okD(2) [OF process_okD(4) [OF assms(1)], of l q] assms(2) w by (simp add: closes_at_def)
  moreover have "used q i" using assms(2) by (simp add: closes_at_def used_def)
  ultimately obtain b where b: "roles p k = Some (Passive l b)"
    using used_slot [of i "roles p" l q i] assms(2) by (auto simp: closes_at_def)
  from passive_entry [OF assms(1) b] show thesis using that b by metis
qed

lemma closes_at_frozen: "closes_at l i k q p \<Longrightarrow> frozen k p p' \<Longrightarrow> closes_at l i k q p'"
  using queue_of_same [of p' p] by (simp add: closes_at_def frozen_def)

lemma closes_at_not_owned:
  assumes "closes_at l i k q p" "process_ok p" "owned p sd"
  shows "sd \<noteq> int k"
proof
  assume "sd = int k"
  then have "roles p k = Some Listener \<or> loose (roles p) (queue_of p) (closing p) k" using assms(3) by (auto simp: owned_def)
  moreover have "roles p k \<noteq> Some Listener" using closes_at_entry [OF assms(2,1)] by (metis option.inject role.distinct(5) role.simps)
  moreover have "\<not> loose (roles p) (queue_of p) (closing p) k"
  proof -
    have "queue_of p l = Some q" "first_slot l (closing p) \<le> i" "used q i" "req_sd (connection_queue q ! i) = int k"
      using assms(1) by (auto simp: closes_at_def used_def first_slot_def)
    then show ?thesis unfolding loose_def by blast
  qed
  ultimately show False by blast
qed

lemma closes_at_loop:
  assumes "closes_at l i k q p" "process_ok p" "mysock_close_passive_socket p = Inr p'"
  shows "closes_at l i k q p'"
proof -
  obtain w where w: "closing p = Some (l, i, w)" using assms(1) by (auto simp: closes_at_def)
  obtain c tcp b where c: "k < MAX_NUM_CONNECTIONS" "global_ctx p ! k = Some (c, tcp)" "transport_thread_started c"
    by (rule closes_at_entry [OF assms(2,1)])
  have get: "mysock_get_context (int k) p = Inr (c, tcp)" by (rule get_context_entry [OF assms(2) c(1,2)])
  have "myclose_finish (int k) p \<noteq> Inr p1" for p1
    using get c(3) assms(1) by (auto simp: myclose_finish_def myclose_join_def rbind_eq_Inr_iff closes_at_def)
  then obtain p1 where p1: "myclose_request (int k) p = Inr p1" "p' = p1\<lparr>closing := Some (l, i, True)\<rparr>"
    using assms(1,3) w
    by (auto simp: mysock_close_passive_socket_def closes_at_def hash_lookup_def queue_of_def hash_lookup_ptr_def
        rbind_eq_Inr_iff Let_def split: if_splits)
  have "closes_at l i k q p1" by (rule closes_at_frozen [OF assms(1) calls_frozen(4) [OF p1(1)]])
  then show ?thesis using queue_of_same [of p' p1] by (auto simp: closes_at_def p1(2))
qed

lemma closes_at_transport:
  assumes "closes_at l i k q p" "process_ok p" "transport_thread_func k p = Inr p'"
  shows "closes_at l i k q p'"
proof -
  obtain c tcp b where c: "k < MAX_NUM_CONNECTIONS" "global_ctx p ! k = Some (c, tcp)" "\<not> is_active c"
    by (rule closes_at_entry [OF assms(2,1)])
  obtain ph d where t: "threads p k = Some (Handshaking ph d)" using assms(1) by (auto simp: closes_at_def)
  have locked: "closing p \<noteq> None" using assms(1) by (auto simp: closes_at_def)
  have "\<not> (ph = Handshake_Done \<or> ph = Handshake_Failed)"
  proof
    assume "ph = Handshake_Done \<or> ph = Handshake_Failed"
    then obtain c1 res p1 where "transport_connected (ph, c, d) = Inr (c1, res)" "unblocked k c1 tcp p = Inr p1"
      using assms(3) c(2) t by (auto simp: transport_thread_func_def rbind_eq_Inr_iff)
    then show False using connected_cases unblocked_frozen [OF _ locked] c(3) by blast
  qed
  then obtain ph1 c1 d1 where "p' = (set_entry k (c1, tcp) p)\<lparr>threads := (threads p)(k := Some (Handshaking ph1 d1))\<rparr>"
    using assms(3) c(2) t by (auto simp: transport_thread_func_def rbind_eq_Inr_iff)
  then show ?thesis using assms(1) queue_of_same [of p' p] by (simp add: closes_at_def set_entry_def)
qed

lemma closes_at_step:
  assumes "proc_step p p'" "process_ok p" "closes_at l i k q p"
  shows "closes_at l i k q p'"
proof -
  have locked: "closing p \<noteq> None" using assms(3) by (auto simp: closes_at_def)
  note own = closes_at_not_owned [OF assms(3,2)] and frz = closes_at_frozen [OF assms(3)]
  from assms(1) show ?thesis
  proof (cases rule: proc_step.cases)
    case (open_step reliable sd)
    then show ?thesis using frz open_frozen [OF _ assms(2)] by blast
  next
    case (listen_step sd rc backlog r)
    then show ?thesis using locked_calls(1) [OF locked] by blast
  next
    case (connect_step sd rc port name n err)
    then show ?thesis using frz connect_frozen own by blast
  next
    case (accept_step sd r err a)
    then show ?thesis using locked_calls(4) [OF locked] assms(3) by blast
  next
    case (closed_step sd)
    then show ?thesis using frz close_frozen [OF _ assms(2) locked] own by blast
  next
    case close_loop_step
    then show ?thesis using closes_at_loop [OF assms(3,2)] by blast
  next
    case (receive_step j connects)
    then show ?thesis using frz receive_frozen [OF _ locked] by blast
  next
    case (transport_step j)
    then show ?thesis using frz transport_frozen [OF _ locked] closes_at_transport [OF assms(3,2)] by (cases "j = k") blast+
  next
    case (bind_step sd rc port addr r err)
    then show ?thesis using frz calls_frozen(1) by blast
  next
    case (write_step sd buf r err)
    then show ?thesis using frz calls_frozen(2) by blast
  next
    case (read_step sd n r err b)
    then show ?thesis using frz calls_frozen(3) by blast
  next
    case (close_step sd)
    then show ?thesis using frz calls_frozen(4) by blast
  qed (use frz in simp_all)
qed

text \<open>\<open>myclose\<close> on a listening mysocket begins at the first slot.\<close>

lemma close_begins:
  assumes "process_ok p" "queue_of p l = Some q" "closing p = None"
  obtains p' where "myclose_finish (int l) p = Inr p'" "closing p' = Some (l, 0, False)" "listen_table p' = listen_table p"
    "threads p' = threads p"
proof -
  obtain c tcp where c: "l < MAX_NUM_CONNECTIONS" "global_ctx p ! l = Some (c, tcp)" "my_sd c = int l" "listening c" "bound c"
    by (rule listener_entry [OF assms(1,2)])
  have "\<not> transport_thread_started c"
    using process_okD(3) [OF assms(1) c(1)] c(2,4) by (simp add: entry_fits_def)
  moreover let ?p = "network_stop_recv_thread l (c, tcp) p"
  have "\<exists>tcp'. mysock_get_context (int l) ?p = Inr (c, tcp')"
    using c process_okD(1) [OF assms(1)] by (auto simp: mysock_get_context_def network_stop_recv_thread_def set_entry_def)
  ultimately have "\<exists>p'. myclose_finish (int l) p = Inr p' \<and> closing p' = Some (l, 0, False) \<and>
      listen_table p' = listen_table p \<and> threads p' = threads p"
    using c get_context_entry [OF assms(1) c(1,2)] assms(2,3)
    by (auto simp: myclose_finish_def myclose_join_def listen_lock_free_def get_connection_queue_def queue_of_def
        network_stop_recv_thread_def set_entry_def)
  then show thesis using that by blast
qed

text \<open>C12. Closing a listening mysocket never ends when it comes to a connection that is still being set up.
  From that moment on, in whatever order the threads, the application and the clock go on, the
  mysocket stays at that slot of its queue and the connection in its handshake, and \<open>myaccept\<close> on any mysocket waits: the closing call holds
  \<open>listen_lock\<close> and joins a transport thread that needs the lock to finish.\<close>

theorem closing_deadlocks:
  assumes "runs (start_process s) p" "closing p = Some (l, i, w)" "queue_of p l = Some q" "i < max_len q"
    and "req_sd (connection_queue q ! i) = int k" "threads p k = Some (Handshaking ph c)" and "runs p p'"
  shows "(\<exists>w'. closing p' = Some (l, i, w')) \<and> (\<exists>ph' c'. threads p' k = Some (Handshaking ph' c')) \<and>
     (\<forall>m. queue_of p' m \<noteq> None \<longrightarrow> myaccept (int m) p' = Inl Would_Block)"
proof -
  have "process_ok p' \<and> closes_at l i k q p'"
    using assms(7)
  proof (induction rule: runs.induct)
    case runs_start
    show ?case using runs_ok [OF assms(1)] assms(2-6) by (simp add: closes_at_def)
  next
    case (runs_step p1 p2)
    then show ?case using proc_step_ok closes_at_step by blast
  qed
  then have ok: "process_ok p'" and c: "closes_at l i k q p'" by simp_all
  have "myaccept (int m) p' = Inl Would_Block" if "queue_of p' m \<noteq> None" for m
    using accept_waits [OF ok] that c by (auto simp: closes_at_def)
  then show ?thesis using c by (auto simp: closes_at_def)
qed

end
