(* ===== verification/Mysock_Example.thy ===== *)
theory Mysock_Example
  imports Mysock_Stray Mysock_Deadlock Stcp_Setup_Run
begin

text \<open>
  A process with a listening mysocket and the connection that a SYN opens on it: the concrete states of the
  properties of the mysockets.
\<close>

section \<open>A listening mysocket\<close>

definition any_port :: sockaddr where
  "any_port = \<lparr>sa_family = AF_INET, sin_addr = 0, sin_port = 7\<rparr>"

text \<open>The descriptors that the system gives, 3 to 5 for the first mysocket.\<close>

definition six_fds :: "os \<Rightarrow> bool" where
  "six_fds s \<longleftrightarrow> fd_answers s = [3, 4, 5, 6, 7, 8] \<and> open_fds s = []"

definition ex_context :: "os \<Rightarrow> mysock_context" where
  "ex_context s =
     \<lparr>is_active = False, network_state =
        \<lparr>is_reliable = True, local_addr = zero_sockaddr, peer_addr = zero_sockaddr, peer_addr_len = 0,
         peer_addr_valid = False, copied = False, copy_buffer = replicate MAX_IP_PAYLOAD_LEN 0,
         local_ip = interface_ip s, local_port = 0, randoms = seeded_randoms s, rand_calls = 0, wire_out = []\<rparr>,
      bound = False, listening = False, my_sd = 0, listen_sd = -1, blocking = True, stcp_errno = 0,
      transport_thread_started = False, close_requested = False, eof = False, network_recv_queue = [],
      app_send_queue = [], app_recv_queue = [], clock = now s, thread_errno = 0\<rparr>"

definition ex_tcp :: network_context_socket_tcp where
  "ex_tcp = \<lparr>recv_thread_started = False, socket_fd = 3, exit_pipe = (4, 5), new_socket = -1, tcp_connected = False\<rparr>"

definition ex_opened :: "os \<Rightarrow> process" where
  "ex_opened s = set_entry 0 (ex_context s, ex_tcp)
     (set_os (s\<lparr>fd_answers := [6, 7, 8], open_fds := [5, 4, 3]\<rparr>) (start_process s))"

definition ex_bound_context :: "os \<Rightarrow> mysock_context" where
  "ex_bound_context s = (ex_context s)\<lparr>bound := True, network_state :=
     (network_state (ex_context s))\<lparr>local_addr := any_port, local_port := 7\<rparr>\<rparr>"

definition ex_bound :: "os \<Rightarrow> process" where
  "ex_bound s = set_entry 0 (ex_bound_context s, ex_tcp) (ex_opened s)"

text \<open>The backlog 0 gives a queue of one.\<close>

definition ex_queue :: listen_queue where
  "ex_queue = \<lparr>queue_port = 7, max_len = 1, cur_len = 0, queue_array = 0,
     connection_queue = [free_request], completed_queue = []\<rparr>"

definition ex_listener :: "os \<Rightarrow> mysock_entry" where
  "ex_listener s = ((ex_bound_context s)\<lparr>listening := True\<rparr>, ex_tcp\<lparr>recv_thread_started := True\<rparr>)"

definition ex_listening :: "os \<Rightarrow> process" where
  "ex_listening s = (set_entry 0 (ex_listener s) (ex_bound s))
     \<lparr>listen_table := hash_set_entry 0 ex_queue empty_table, next_array := 1, receivers := {0}\<rparr>"

lemma first_slot_free: "free_slot (replicate MAX_NUM_CONNECTIONS None) = Some 0"
  by (simp add: free_slot_def MAX_NUM_CONNECTIONS_def upt_conv_Cons)

lemma opens: "six_fds s \<Longrightarrow> mysocket True (start_process s) = Inr (0, ex_opened s)"
  by (simp add: mysocket_def mysock_new_mysocket_def mysock_allocate_context_def network_init_def network_init_socket_def
      network_alloc_context_socket_def os_new_fd_def start_process_def first_slot_free set_entry_def set_os_def six_fds_def
      ex_opened_def ex_context_def ex_tcp_def)

lemma ex_table: "mysock_get_context 0 (set_entry 0 (c, tcp) (ex_opened s)) = (if my_sd c = 0 then Inr (c, tcp) else Inl Assertion_Failure)"
  by (simp add: mysock_get_context_def set_entry_def ex_opened_def start_process_def MAX_NUM_CONNECTIONS_def set_os_def)

lemma binds: "mybind 0 0 0 any_port (ex_opened s) = Inr (0, 0, ex_bound s)"
proof -
  have "mysock_get_context 0 (ex_opened s) = Inr (ex_context s, ex_tcp)"
    using ex_table [of "ex_context s" ex_tcp s] by (simp add: set_entry_def ex_opened_def ex_context_def)
  then show ?thesis
    by (simp add: mybind_def any_port_def ex_context_def network_bind_def verify_socket_def ex_tcp_def ex_bound_def
        ex_bound_context_def)
qed

lemma listens: "mylisten 0 0 0 (ex_bound s) = Inr (0, ex_listening s)"
proof -
  have g: "mysock_get_context 0 (set_entry 0 (c, tcp) (ex_bound s)) = (if my_sd c = 0 then Inr (c, tcp) else Inl Assertion_Failure)"
    for c tcp using ex_table by (simp add: ex_bound_def set_entry_def)
  have my: "my_sd (ex_bound_context s) = 0" by (simp add: ex_bound_context_def ex_context_def)
  let ?l = "set_entry 0 ((ex_bound_context s)\<lparr>listening := True\<rparr>, ex_tcp) (ex_bound s)"
  have e: "listen_table (ex_bound s) = empty_table" "next_array (ex_bound s) = 0" "receivers (ex_bound s) = {}" "closing (ex_bound s) = None"
    by (simp_all add: ex_bound_def ex_opened_def set_entry_def set_os_def start_process_def)
  have "mysock_set_backlog 0 0 ?l = Inr (?l\<lparr>listen_table := hash_set_entry 0 ex_queue empty_table, next_array := 1\<rparr>)"
    using g my e
    by (simp add: mysock_set_backlog_def network_get_port_def verify_socket_def listen_lock_free_def
        get_connection_queue_def ex_bound_context_def set_queue_def set_entry_def ex_queue_def ex_context_def ex_tcp_def empty_table_ok
        Let_def)
  moreover have "mysock_get_context 0 (ex_bound s) = Inr (ex_bound_context s, ex_tcp)"
    using g [of "ex_bound_context s" ex_tcp] my by (simp add: ex_bound_def set_entry_def)
  moreover have "mysock_get_context 0 (?l\<lparr>listen_table := hash_set_entry 0 ex_queue empty_table, next_array := 1\<rparr>) =
      Inr ((ex_bound_context s)\<lparr>listening := True\<rparr>, ex_tcp)"
    using g [of "(ex_bound_context s)\<lparr>listening := True\<rparr>" ex_tcp] my by (simp add: mysock_get_context_def)
  ultimately show ?thesis using e(3)
    by (simp add: mylisten_def ex_listening_def ex_listener_def network_start_recv_thread_def verify_socket_def
        set_entry_def ex_bound_context_def ex_tcp_def)
qed

text \<open>What is there then.\<close>

lemma ex_listening_simps:
  "global_ctx (ex_listening s) = (replicate MAX_NUM_CONNECTIONS None)[0 := Some (ex_listener s)]"
  "queue_of (ex_listening s) = [0 \<mapsto> ex_queue]" "closing (ex_listening s) = None" "receivers (ex_listening s) = {0}"
  "os (ex_listening s) = s\<lparr>fd_answers := [6, 7, 8], open_fds := [5, 4, 3]\<rparr>" "threads (ex_listening s) = (\<lambda>_. None)"
proof -
  show "queue_of (ex_listening s) = [0 \<mapsto> ex_queue]"
    by (auto simp: queue_of_def ex_listening_def fun_eq_iff listen_map.lookup_put)
qed (simp_all add: ex_listening_def ex_bound_def ex_opened_def set_entry_def set_os_def start_process_def)

lemma owned_first:
  assumes "global_ctx p = (replicate MAX_NUM_CONNECTIONS None)[0 := Some (c, tcp)]" "listen_table p = empty_table" "closing p = None"
    and "role c = Fresh"
  shows "owned p 0"
proof -
  have "queue_of p = (\<lambda>_. None)" using assms(2) by (simp add: queue_of_def fun_eq_iff)
  moreover have "roles p 0 = Some Fresh" using assms(1,4) by (simp add: roles_def MAX_NUM_CONNECTIONS_def)
  ultimately show ?thesis using assms(3) unfolding owned_def loose_def is_closing_def
    by (intro exI [of _ 0]) simp
qed

lemma runs_ex_listening:
  assumes "six_fds s"
  shows "runs (start_process s) (ex_listening s)"
proof -
  have 1: "runs (start_process s) (ex_opened s)"
    by (rule runs_step [OF runs_start open_step [OF opens [OF assms]]])
  have g: "global_ctx (ex_opened s) = (replicate MAX_NUM_CONNECTIONS None)[0 := Some (ex_context s, ex_tcp)]"
    "global_ctx (ex_bound s) = (replicate MAX_NUM_CONNECTIONS None)[0 := Some (ex_bound_context s, ex_tcp)]"
    "listen_table (ex_opened s) = empty_table" "listen_table (ex_bound s) = empty_table"
    "closing (ex_opened s) = None" "closing (ex_bound s) = None"
    by (simp_all add: ex_bound_def ex_opened_def set_entry_def set_os_def start_process_def)
  have r: "role (ex_context s) = Fresh" "role (ex_bound_context s) = Fresh"
    by (simp_all add: role_def ex_bound_context_def ex_context_def)
  have 2: "runs (start_process s) (ex_bound s)"
    by (rule runs_step [OF 1 bind_step [OF owned_first [OF g(1,3,5) r(1)] binds]])
  have "unconnected (ex_bound s) 0"
    using g(2) by (auto simp: unconnected_def mysock_get_context_def rbind_eq_Inr_iff role_def ex_bound_context_def
        ex_context_def MAX_NUM_CONNECTIONS_def split: option.splits)
  then show ?thesis
    by (rule runs_step [OF 2 listen_step [OF owned_first [OF g(2,4,6) r(2)] _ listens]])
qed

section \<open>A request\<close>

definition ex_peer :: sockaddr where
  "ex_peer = \<lparr>sa_family = AF_INET, sin_addr = 1, sin_port = 9\<rparr>"

definition ex_os :: "bytes list \<Rightarrow> os" where
  "ex_os ds = \<lparr>channels = (\<lambda>_. \<lparr>incoming = map Some ds, room = [], outgoing = []\<rparr>),
     accept_answers = (\<lambda>_. [Some (10, ex_peer), Some (11, ex_peer)]), open_fds = [], fd_answers = [3, 4, 5, 6, 7, 8],
     interface_ip = 2, now = Timespec 10 0, seeded_randoms = (\<lambda>_. 0)\<rparr>"

lemma ex_os_fds: "six_fds (ex_os ds)"
  by (simp add: six_fds_def ex_os_def)

lemma ex_os_arrives:
  assumes "[] \<notin> set ds" "concat ds = tcp_frame pkt @ rest"
  shows "packet_arrives (ex_listening (ex_os ds)) 0 10 ex_peer pkt"
  unfolding packet_arrives_def
  using assms by (auto simp: ex_listening_simps ex_listener_def ex_tcp_def ex_os_def Channel.arriving_def MAX_NUM_CONNECTIONS_def
      ex_bound_context_def ex_context_def)

lemma ex_queue_room: "has_room ex_queue ex_peer" "can_open (ex_listening (ex_os ds))"
proof -
  have "sockaddr_bytes zero_sockaddr \<noteq> sockaddr_bytes ex_peer" by code_simp
  then show "has_room ex_queue ex_peer" by (simp add: has_room_def ex_queue_def free_request_def)
  have "global_ctx (ex_listening (ex_os ds)) ! 1 = None" "1 < length (global_ctx (ex_listening (ex_os ds)))"
    by (simp_all add: ex_listening_simps MAX_NUM_CONNECTIONS_def)
  then have "None \<in> set (global_ctx (ex_listening (ex_os ds)))" by (metis nth_mem)
  then show "can_open (ex_listening (ex_os ds))" by (simp add: can_open_def ex_listening_simps ex_os_def)
qed

text \<open>The packets of the handshake of \<open>Stcp_Setup_Run\<close>.\<close>

lemma ex_packets: "active_packet 1 2 syn_packet" "active_packet 1 2 ack_packet"
proof -
  have "active_ok done_a" using set_up_ok [OF setup_done setup_ex] by (simp add: setup_ok_def)
  then show "active_packet 1 2 syn_packet" "active_packet 1 2 ack_packet"
    by (simp_all add: done_a_def hs_sockets_def on_wire_def Let_def ex_net_def)
qed

lemma ex_packet_fields:
  "pkt_flags syn_packet = TH_SYN" "pkt_flags ack_packet = TH_ACK" "length syn_packet = 20" "length ack_packet = 20"
  using ex_fields [OF params(1)] by (simp_all add: syn_packet_def ack_packet_def)

lemma ex_syn_packet: "ip_payload syn_packet" "STCP_HEADER_LEN \<le> length syn_packet" "pkt_flags syn_packet AND TH_SYN \<noteq> 0"
  using ex_packet_fields(1,3) flag_bits(6,10)
  by (auto simp: ip_payload_def MAX_IP_PAYLOAD_LEN_def STCP_HEADER_LEN_def)

text \<open>The process that has received the SYN.\<close>

definition ex_syn_os :: os where
  "ex_syn_os = ex_os [tcp_frame syn_packet]"

lemma ex_syn_arrives:
  "packet_arrives (ex_listening ex_syn_os) 0 10 ex_peer syn_packet" "can_open (ex_listening ex_syn_os)"
  "runs (start_process ex_syn_os) (ex_listening ex_syn_os)"
  using ex_os_arrives [of "[tcp_frame syn_packet]" syn_packet "[]"] ex_queue_room(2) runs_ex_listening [OF ex_os_fds]
  by (simp_all add: ex_syn_os_def tcp_frame_def bytes16_def)

definition ex_you :: sockaddr where
  "ex_you = \<lparr>sa_family = AF_INET, sin_addr = 2, sin_port = 7\<rparr>"

theorem connections_start_sessions_witness:
  "\<exists>p' a tcp' ph ctx r' i b tcp''.
     myconnect_start 0 7 (int 0) ex_you 16 (ex_opened ((ex_os [])\<lparr>interface_ip := 1\<rparr>)) = Inr (None, p') \<and> global_ctx p' ! 0 = Some (a, tcp') \<and>
     threads p' 0 = Some (Handshaking ph ctx) \<and>
     network_recv_thread True 0 (ex_listening ex_syn_os) = Inr r' \<and> global_ctx (ex_listening ex_syn_os) ! i = None \<and>
     global_ctx r' ! i = Some (b, tcp'') \<and>
     threads r' i = Some (Handshaking Passive_Listen init_context) \<and> network_recv_queue b = [syn_packet] \<and>
     socket_fd tcp'' = 10 \<and> i \<in> receivers r' \<and>
     setup_start ((ph, a, ctx), (Passive_Listen, b\<lparr>network_recv_queue := []\<rparr>, init_context))"
proof -
  let ?s = "(ex_os [])\<lparr>interface_ip := 1\<rparr>"
  have s: "six_fds ?s" using ex_os_fds [of "[]"] by (simp add: six_fds_def)
  have c: "runs (start_process ?s) (ex_opened ?s)" by (rule runs_step [OF runs_start open_step [OF opens [OF s]]])
  show ?thesis
    by (rule connections_start_sessions [OF c, where s' = ex_syn_os and me = ex_peer and c = "ex_context ?s" and tcp = ex_tcp and q = ex_queue])
      (use ex_syn_arrives ex_syn_packet ex_queue_room(1) in \<open>simp_all add: ex_opened_def set_entry_def set_os_def start_process_def MAX_NUM_CONNECTIONS_def
      fresh_context_def ex_context_def ex_tcp_def ex_listening_simps valid_addr_def ex_peer_def ex_you_def ex_syn_os_def ex_os_def\<close>)
qed

lemma ex_syn_received:
  obtains p q k where "runs (start_process ex_syn_os) p" "queue_of p 0 = Some q" "closing p = None" "cur_len q = 1" "max_len q = 1"
    "req_sd (connection_queue q ! 0) = int k" "threads p k = Some (Handshaking Passive_Listen init_context)"
proof -
  obtain k j c tcp p' where p': "network_recv_thread True 0 (ex_listening ex_syn_os) = Inr p'" "closing p' = None" "j < max_len ex_queue"
    "queue_of p' 0 = Some (ex_queue\<lparr>cur_len := cur_len ex_queue + 1,
       connection_queue := (connection_queue ex_queue)[j := \<lparr>req_addr = ex_peer, req_addr_len = 16, req_sd = int k\<rparr>]\<rparr>)"
    "threads p' = (threads (ex_listening ex_syn_os))(k := Some (Handshaking Passive_Listen init_context))"
    by (rule syn_opens [OF runs_ok [OF ex_syn_arrives(3)] _ _ ex_queue_room(1) ex_syn_arrives(2,1) ex_syn_packet, of True])
      (simp_all add: ex_listening_simps)
  have "runs (start_process ex_syn_os) p'"
    by (rule runs_step [OF ex_syn_arrives(3) receive_step [OF _ _ p'(1)]]) (simp_all add: ex_listening_simps MAX_NUM_CONNECTIONS_def)
  then show thesis
    by (rule that [OF _ p'(4,2), of k]) (use p'(3,5) in \<open>simp_all add: ex_queue_def\<close>)
qed


text \<open>The application closes the listening mysocket at that moment.\<close>

theorem closing_deadlocks_witness:
  "\<exists>p k. runs (start_process ex_syn_os) p \<and> closing p = Some (0, 0, False) \<and>
     (\<forall>p'. runs p p' \<longrightarrow> (\<exists>w'. closing p' = Some (0, 0, w')) \<and> (\<exists>ph' c'. threads p' k = Some (Handshaking ph' c')) \<and>
       (\<forall>m. queue_of p' m \<noteq> None \<longrightarrow> myaccept (int m) p' = Inl Would_Block))"
proof -
  obtain p q k where p: "runs (start_process ex_syn_os) p" "queue_of p 0 = Some q" "closing p = None"
    and q: "max_len q = 1" "req_sd (connection_queue q ! 0) = int k"
    and t: "threads p k = Some (Handshaking Passive_Listen init_context)" by (rule ex_syn_received)
  obtain p1 where p1: "myclose_finish (int 0) p = Inr p1" "closing p1 = Some (0, 0, False)" "listen_table p1 = listen_table p"
    "threads p1 = threads p" by (rule close_begins [OF runs_ok [OF p(1)] p(2,3)])
  have "roles p 0 = Some Listener" using queues_okD(1) [OF process_okD(4) [OF runs_ok [OF p(1)]], of 0] p(2) by simp
  then have "owned p (int 0)" using p(3) by (auto simp: owned_def is_closing_def)
  then have r: "runs (start_process ex_syn_os) p1" by (rule runs_step [OF p(1) closed_step [OF _ p1(1)]])
  have q1: "queue_of p1 0 = Some q" using queue_of_same [OF p1(3)] p(2) by simp
  have t1: "threads p1 k = Some (Handshaking Passive_Listen init_context)" using t p1(4) by simp
  have "0 < max_len q" using q(1) by simp
  then show ?thesis using r p1(2) closing_deadlocks [OF r p1(2) q1 _ q(2) t1] by blast
qed

text \<open>A client that sends a packet of one byte.\<close>

theorem dropped_request_fatal_witness:
  "\<exists>p' lc ltcp. network_recv_thread True 0 (ex_listening (ex_os [tcp_frame [7]])) = Inr p' \<and> queue_of p' 0 = Some ex_queue \<and>
     receivers p' = {0} \<and> global_ctx p' ! 0 = Some (lc, ltcp) \<and>
     (\<forall>s' fd' peer' later. accept_answers s' (socket_fd ltcp) = Some (fd', peer') # later \<longrightarrow>
        network_recv_thread True 0 (set_os s' p') = Inl Assertion_Failure)"
proof -
  have "dropped ex_queue ex_peer [7]" by (simp add: dropped_def STCP_HEADER_LEN_def)
  moreover have "packet_arrives (ex_listening (ex_os [tcp_frame [7]])) 0 10 ex_peer [7]"
    by (rule ex_os_arrives [of _ _ "[]"]) (simp_all add: tcp_frame_def bytes16_def)
  moreover have "ip_payload [7]" by (simp add: ip_payload_def MAX_IP_PAYLOAD_LEN_def)
  ultimately show ?thesis
    using dropped_request_fatal [OF runs_ex_listening [OF ex_os_fds], of "[tcp_frame [7]]" 0 ex_queue 10 ex_peer "[7]" True]
    by (simp add: ex_listening_simps)
qed

end
