(* ===== verification/Mysock_Run.thy ===== *)
theory Mysock_Run
  imports Mysock_Example
begin

text \<open>
  The connection of \<open>Mysock_Example\<close> goes on: its transport answers the SYN, the acknowledgement
  arrives, and the connection is ready to be accepted.
\<close>

section \<open>The passive handshake, packet by packet\<close>

lemma listen_result:
  assumes ok: "passive_ok (Passive_Listen, sd, c)" and q: "network_recv_queue sd = pkt # rest" and f: "pkt_flags pkt = TH_SYN"
  shows "\<exists>c'. passive_listen sd c = Inr (Passive_Send (build_header 1 2 (TH_SYN OR TH_ACK)), sd\<lparr>network_recv_queue := rest\<rparr>, c') \<and>
    passive_ok (Passive_Send (build_header 1 2 (TH_SYN OR TH_ACK)), sd\<lparr>network_recv_queue := rest\<rparr>, c') \<and> retransmission_count c' = 0"
proof -
  have s: "hs_sockets passive_packet active_packet sd" using ok by simp
  note r = recv_queued [OF s q active_control]
  have "pkt_seq pkt = 1" using r(2) f by (auto simp: active_packet_def TH_SYN_def TH_ACK_def)
  then show ?thesis
    using ok q r(1,3) f
    by (simp add: passive_listen_def wait_network [OF s] control_valid [OF active_control [OF r(2)]] flag_bits
        unused_def hs_numbers_def Let_def)
qed

lemma send_result:
  assumes "passive_ok (Passive_Send synack, sd, c)" "retransmission_count c = 0"
  shows "\<exists>sd' c'. passive_send synack sd c = Inr (Passive_Wait synack, sd', c') \<and> passive_ok (Passive_Wait synack, sd', c') \<and>
    sent_by sd sd'"
proof -
  have w: "on_wire passive_packet (network_state sd)" "sock_ok sd" "synack = build_header 1 2 (TH_SYN OR TH_ACK)"
    using assms(1) by (auto simp: hs_sockets_def)
  obtain sd' where "stcp_network_send sd synack [] = Inr sd'" "sent_by sd sd'"
    using send_header [OF w(2,1), of 2 "TH_SYN OR TH_ACK" 1] flag_bits w(3)
    by (auto simp: passive_packet_def first_byte_def)
  then show ?thesis using passive_send_ok [OF assms(1)] assms(2) by (auto simp: passive_send_def Let_def)
qed

lemma wait_result:
  assumes ok: "passive_ok (Passive_Wait synack, sd, c)" and q: "network_recv_queue sd = pkt # rest" and f: "pkt_flags pkt = TH_ACK"
  shows "\<exists>sd' c'. passive_wait synack sd c = Inr (Handshake_Done, sd', c')"
proof -
  have s: "hs_sockets passive_packet active_packet sd" using ok by simp
  note r = recv_queued [OF s q active_control]
  have a: "pkt_ack pkt = 2" "send_base c = 1" using r(2) f ok by (auto simp: active_packet_def hs_numbers_def TH_SYN_def TH_ACK_def)
  have nw: "NETWORK_DATA AND NETWORK_DATA \<noteq> 0" by (simp add: event_defs)
  have v: "is_valid_seg_len_and_flags pkt (int (length pkt)) TH_ACK"
    using control_valid [OF active_control [OF r(2)], of TH_ACK] f flag_bits(11) by simp
  show ?thesis using r(1) a nw v q
    by (simp add: passive_wait_def wait_network [OF s] Let_def)
qed

section \<open>In the process\<close>

definition at_phase :: "process \<Rightarrow> nat \<Rightarrow> hs \<Rightarrow> bool" where
  "at_phase p k h \<longleftrightarrow> runs (start_process ex_syn_os) p \<and> closing p = None \<and> k < MAX_NUM_CONNECTIONS \<and>
     (\<exists>q. queue_of p 0 = Some q \<and> ready q = []) \<and> k \<in> receivers p \<and>
     (case h of (ph, c, d) \<Rightarrow> threads p k = Some (Handshaking ph d) \<and> \<not> is_active c \<and> \<not> listening c \<and> listen_sd c = 0 \<and>
        (\<exists>tcp. global_ctx p ! k = Some (c, tcp) \<and> 0 \<le> socket_fd tcp))"

lemma first_phase:
  "\<exists>p k c. at_phase p k (Passive_Listen, c, init_context) \<and> passive_ok (Passive_Listen, c, init_context) \<and>
     network_recv_queue c = [syn_packet] \<and> sin_addr (peer_addr (network_state c)) = 1 \<and> local_ip (network_state c) = 2"
proof -
  obtain k j c tcp p' where p': "network_recv_thread True 0 (ex_listening ex_syn_os) = Inr p'" "closing p' = None" "k < MAX_NUM_CONNECTIONS"
    "queue_of p' 0 = Some (ex_queue\<lparr>cur_len := cur_len ex_queue + 1,
       connection_queue := (connection_queue ex_queue)[j := \<lparr>req_addr = ex_peer, req_addr_len = 16, req_sd = int k\<rparr>]\<rparr>)"
    "threads p' = (threads (ex_listening ex_syn_os))(k := Some (Handshaking Passive_Listen init_context))"
    "global_ctx p' ! k = Some (c, tcp)" "receivers p' = insert k (receivers (ex_listening ex_syn_os))" "socket_fd tcp = 10"
    and c: "network_recv_queue c = [syn_packet]" "listen_sd c = int 0" "\<not> is_active c" "blocking c" "\<not> close_requested c"
      "app_send_queue c = []" "app_recv_queue c = []" "wire_out (network_state c) = []" "\<not> copied (network_state c)"
      "peer_addr (network_state c) = ex_peer" "local_ip (network_state c) = interface_ip (os (ex_listening ex_syn_os))"
    by (rule syn_opens [OF runs_ok [OF ex_syn_arrives(3)] _ _ ex_queue_room(1) ex_syn_arrives(2,1) ex_syn_packet, of True])
      (simp_all add: ex_listening_simps)
  have r: "runs (start_process ex_syn_os) p'"
    by (rule runs_step [OF ex_syn_arrives(3) receive_step [OF _ _ p'(1)]]) (simp_all add: ex_listening_simps MAX_NUM_CONNECTIONS_def)
  have "\<not> listening c" using process_okD(3) [OF runs_ok [OF r] p'(3)] p'(5,6) by (auto simp: entry_fits_def)
  then have "at_phase p' k (Passive_Listen, c, init_context)"
    using r p' c(2,3) by (simp add: at_phase_def ready_def ex_queue_def)
  moreover have addr: "sin_addr (peer_addr (network_state c)) = 1" "local_ip (network_state c) = 2"
    using c(10,11) by (simp_all add: ex_peer_def ex_listening_simps ex_syn_os_def ex_os_def)
  moreover have "passive_ok (Passive_Listen, c, init_context)"
  proof -
    have "idle (c\<lparr>network_recv_queue := []\<rparr>)"
      using c addr by (simp add: idle_def sock_ok_def ex_peer_def)
    from start_ok_hs(2) [OF this] show ?thesis
      using c(1) addr ex_packets(1)
      by (simp add: transport_start_def hs_sockets_def queued_def sock_ok_def)
  qed
  ultimately show ?thesis using c(1) by blast
qed

lemma phase_step:
  assumes "at_phase p k (ph, c, d)" "handshake_step (ph, c, d) = Inr h" "ph \<noteq> Handshake_Done" "ph \<noteq> Handshake_Failed"
  shows "\<exists>p'. at_phase p' k h"
proof -
  obtain ph1 c1 d1 where h: "h = (ph1, c1, d1)" by (cases h)
  obtain tcp where p: "k < MAX_NUM_CONNECTIONS" "threads p k = Some (Handshaking ph d)" "global_ctx p ! k = Some (c, tcp)" "0 \<le> socket_fd tcp"
    using assms(1) by (auto simp: at_phase_def)
  let ?p = "(set_entry k (c1, tcp) p)\<lparr>threads := (threads p)(k := Some (Handshaking ph1 d1))\<rparr>"
  have t: "transport_thread_func k p = Inr ?p"
    using p assms(2-4) by (simp add: transport_thread_func_def h)
  have "runs (start_process ex_syn_os) ?p"
    using runs_step [OF _ transport_step [OF p(1) t]] assms(1) by (simp add: at_phase_def)
  moreover have "same_role c c1" using handshake_role assms(2) h by simp
  moreover have "queue_of ?p = queue_of p" by (rule queue_of_same) (simp add: set_entry_def)
  ultimately show ?thesis using assms(1) p process_okD(1) [OF runs_ok, of ex_syn_os p]
    by (intro exI [of _ ?p]) (auto simp: at_phase_def h set_entry_def same_role_def)
qed

lemma phase_receive:
  assumes "at_phase p k (ph, c, d)" "ip_payload pkt"
  shows "\<exists>p'. at_phase p' k (ph, c\<lparr>network_recv_queue := network_recv_queue c @ [pkt]\<rparr>, d)"
proof -
  obtain tcp where p: "k < MAX_NUM_CONNECTIONS" "threads p k = Some (Handshaking ph d)" "global_ctx p ! k = Some (c, tcp)" "0 \<le> socket_fd tcp"
    "k \<in> receivers p" "\<not> is_active c" "\<not> listening c" "runs (start_process ex_syn_os) p"
    using assms(1) by (auto simp: at_phase_def)
  define ch where "ch = \<lparr>incoming = [Some (tcp_frame pkt)], room = [], outgoing = []\<rparr>"
  let ?s = "(os p)\<lparr>channels := (\<lambda>_. ch)\<rparr>" and ?p = "set_os ((os p)\<lparr>channels := (\<lambda>_. ch)\<rparr>) p"
  have "Channel.arriving [tcp_frame pkt] [] ch" by (simp add: Channel.arriving_def ch_def tcp_frame_def bytes16_def)
  from read_packet_frame [OF assms(2) this, of "[]"] obtain ch' where
    ch': "read_packet MAX_IP_PAYLOAD_LEN ch = Inr (int (length pkt), pkt, ch')" by auto
  let ?s' = "?s\<lparr>channels := (\<lambda>_. ch)(socket_fd tcp := ch')\<rparr>"
  let ?q = "set_entry k (c\<lparr>network_recv_queue := network_recv_queue c @ [pkt]\<rparr>, tcp) (set_os ?s' ?p)"
  have "network_recv_packet True MAX_IP_PAYLOAD_LEN (c, tcp) ?s = Inr (int (length pkt), pkt, (c, tcp), ?s')"
    using p ch' by (simp add: network_recv_packet_def verify_socket_def)
  moreover have "0 < length pkt" "length pkt \<le> MAX_IP_PAYLOAD_LEN" using assms(2) by (auto simp: ip_payload_def)
  moreover have "(global_ctx p)[k := Some (c, tcp)] = global_ctx p" using p(3) by (metis list_update_id)
  ultimately have "network_recv_thread True k ?p = Inr ?q"
    using p by (simp add: network_recv_thread_def Let_def mysock_enqueue_buffer_def process_changes)
  then have "runs (start_process ex_syn_os) ?q"
    using runs_step [OF runs_step [OF p(8) kernel_step [of p ?s]] receive_step [of k ?p True ?q]] p(1,5) by (simp add: set_os_def)
  moreover have "queue_of ?q = queue_of p" by (rule queue_of_same) (simp add: process_changes)
  ultimately show ?thesis using assms(1) p process_okD(1) [OF runs_ok [OF p(8)]]
    by (intro exI [of _ ?q]) (auto simp: at_phase_def process_changes)
qed

lemma done_phase: "\<exists>p k c d. at_phase p k (Handshake_Done, c, d)"
proof -
  obtain p k c where 0: "at_phase p k (Passive_Listen, c, init_context)" "passive_ok (Passive_Listen, c, init_context)"
    "network_recv_queue c = [syn_packet]" "sin_addr (peer_addr (network_state c)) = 1" "local_ip (network_state c) = 2"
    using first_phase by blast
  let ?h = "build_header 1 2 (TH_SYN OR TH_ACK)" and ?c = "c\<lparr>network_recv_queue := []\<rparr>"
  obtain d1 where 1: "passive_listen c init_context = Inr (Passive_Send ?h, ?c, d1)" "passive_ok (Passive_Send ?h, ?c, d1)"
    "retransmission_count d1 = 0" using listen_result [OF 0(2,3) ex_packet_fields(1)] by blast
  obtain p1 where p1: "at_phase p1 k (Passive_Send ?h, ?c, d1)" using phase_step [OF 0(1)] 1(1) by auto
  obtain c2 d2 where 2: "passive_send ?h ?c d1 = Inr (Passive_Wait ?h, c2, d2)" "passive_ok (Passive_Wait ?h, c2, d2)" "sent_by ?c c2"
    using send_result [OF 1(2,3)] by blast
  obtain p2 where p2: "at_phase p2 k (Passive_Wait ?h, c2, d2)" using phase_step [OF p1] 2(1) by auto
  have "ip_payload ack_packet" using ex_packet_fields(4) by (auto simp: ip_payload_def MAX_IP_PAYLOAD_LEN_def)
  from phase_receive [OF p2 this] obtain p3 where
    p3: "at_phase p3 k (Passive_Wait ?h, c2\<lparr>network_recv_queue := network_recv_queue c2 @ [ack_packet]\<rparr>, d2)" by blast
  have q: "network_recv_queue c2 = []" "sin_addr (peer_addr (network_state c2)) = 1" "local_ip (network_state c2) = 2"
    using sent_by_fields [OF 2(3)] 0(4,5) by simp_all
  then have "passive_ok (Passive_Wait ?h, c2\<lparr>network_recv_queue := network_recv_queue c2 @ [ack_packet]\<rparr>, d2)"
    using 2(2) ex_packets(2) by (simp add: hs_sockets_def queued_def sock_ok_def)
  from wait_result [OF this _ ex_packet_fields(2), of "[]"] q(1) obtain c4 d4 where
    "passive_wait ?h (c2\<lparr>network_recv_queue := network_recv_queue c2 @ [ack_packet]\<rparr>) d2 = Inr (Handshake_Done, c4, d4)" by auto
  then show ?thesis using phase_step [OF p3] by auto
qed

section \<open>Acceptance\<close>

theorem finished_connection_ready_witness:
  "\<exists>p k p'. runs (start_process ex_syn_os) p \<and> accept_list p 0 = [] \<and> transport_thread_func k p = Inr p' \<and> accept_list p' 0 = [k]"
proof -
  obtain p k c d where a: "at_phase p k (Handshake_Done, c, d)" using done_phase by blast
  then obtain tcp where p: "runs (start_process ex_syn_os) p" "k < MAX_NUM_CONNECTIONS" "global_ctx p ! k = Some (c, tcp)" "\<not> is_active c"
    "threads p k = Some (Handshaking Handshake_Done d)" "closing p = None" "listen_sd c = 0" "accept_list p 0 = []"
    by (auto simp: at_phase_def accept_list_def)
  show ?thesis using finished_connection_ready [OF p(1-5)] p by (auto simp: at_phase_def)
qed

text \<open>The same state, from which the connection is accepted.\<close>

lemma ready_to_accept:
  "\<exists>p k q. runs (start_process ex_syn_os) p \<and> closing p = None \<and> queue_of p 0 = Some q \<and> accept_list p 0 = [k]"
proof -
  obtain p k c d where a: "at_phase p k (Handshake_Done, c, d)" using done_phase by blast
  then obtain tcp q where p: "runs (start_process ex_syn_os) p" "k < MAX_NUM_CONNECTIONS" "global_ctx p ! k = Some (c, tcp)"
    "\<not> is_active c" "\<not> listening c"
    "threads p k = Some (Handshaking Handshake_Done d)" "closing p = None" "listen_sd c = 0" "queue_of p 0 = Some q" "ready q = []"
    by (auto simp: at_phase_def)
  have f: "transport_thread_started c" "blocking c" using process_okD(3) [OF runs_ok [OF p(1)] p(2)] p(3,6) by (auto simp: entry_fits_def)
  have r: "roles p k = Some (Passive 0 True)"
    using p f process_okD(1) [OF runs_ok [OF p(1)]] by (simp add: roles_def role_def)
  obtain c1 where c1: "transport_connected (Handshake_Done, c, d) = Inr (c1, Some (d\<lparr>connection_state := CSTATE_ESTABLISHED\<rparr>))"
    using f by (simp add: transport_connected_def stcp_unblock_application_def)
  from complete_total(2) [OF runs_ok [OF p(1)] r p(3) _ _ _ p(7), of c1] connected_cases [OF c1] obtain p1 where
    p1: "unblocked k c1 tcp p = Inr p1" "accept_list p1 0 = accept_list p 0 @ [k]" "closing p1 = None" by auto
  let ?p = "p1\<lparr>threads := (threads p1)(k := Some (Controlling (d\<lparr>connection_state := CSTATE_ESTABLISHED\<rparr>)))\<rparr>"
  have t: "transport_thread_func k p = Inr ?p" using p(3,6) c1 p1(1) by (simp add: transport_thread_func_def)
  have same: "queue_of ?p = queue_of p1" by (rule queue_of_same) simp
  obtain q1 where "queue_of p1 0 = Some q1" using p1(2) by (cases "queue_of p1 0") (auto simp: accept_list_def)
  then show ?thesis using runs_step [OF p(1) transport_step [OF p(2) t]] p1(2,3) p(9,10) same
    by (intro exI [of _ ?p] exI [of _ k] exI [of _ q1]) (simp add: accept_list_def)
qed


end
