(* ===== verification/Spec2Isabelle.thy ===== *)
theory Spec2Isabelle
  imports Stcp_Setup_Run Router_Example Http_Example Vns_Example Router_Load_Properties Post_Example Post_Processes Mysock_Run
begin

text \<open>
  A verification of the C programs of a computer networks course (homeworks 1 to 4).

  \<^bold>\<open>The programs.\<close>
  \<^item> \<^verbatim>\<open>src/hw1\<close>: a line-based request/response server that forks a child per connection
    (\<^verbatim>\<open>sserver.c\<close>) and its client (\<^verbatim>\<open>sclient.c\<close>).
  \<^item> \<^verbatim>\<open>src/hw2\<close>: an HTTP server with one \<open>epoll\<close> loop over non-blocking connections
    (\<^verbatim>\<open>public/template/shttpd.c\<close> and its \<^verbatim>\<open>util.c\<close>).
  \<^item> \<^verbatim>\<open>src/hw3\<close>: STCP, a reliable transport. \<^verbatim>\<open>transport.c\<close> runs one thread per connection
    (handshake, then \<open>control_loop\<close>) on top of the mysocket layer (\<^verbatim>\<open>mysock.c\<close>, \<^verbatim>\<open>stcp_api.c\<close>),
    an unreliable packet network (\<^verbatim>\<open>network.c\<close>) and a checksum (\<^verbatim>\<open>tcp_sum.c\<close>).
  \<^item> \<^verbatim>\<open>src/hw4/SimpleRouter/router\<close>: an IP router. It authenticates with a server
    (\<^verbatim>\<open>sr_vns_comm.c\<close>, \<^verbatim>\<open>sha1.c\<close>) that sends it its interfaces (\<^verbatim>\<open>sr_if.c\<close>) and its frames; the
    routing table comes from a file (\<^verbatim>\<open>sr_rt.c\<close>); \<^verbatim>\<open>sr_router.c\<close> answers or forwards each frame,
    with the ARP cache of \<^verbatim>\<open>sr_arpcache.c\<close>, whose thread sweeps the waiting requests.

  \<^bold>\<open>Conventions.\<close> \<open>Prelude\<close>: machine integers are words (\<open>u8\<close> to \<open>u64\<close>), an \<open>int\<close>
  whose overflow plays no role is \<open>int\<close>, a buffer is a list of bytes, a pointer into a buffer
  or a list is the rest of it. A function that can fail returns a \<open>result\<close>: \<open>Inl fault\<close> for a
  failed assertion, an access outside an array, a null pointer, freed memory, or a call that
  waits for another thread (\<open>Would_Block\<close>). A multi-byte field is named by its host-order
  value. A handler takes the state of its component and gives it back; the clock is a field of
  the state that stands still while a handler runs. \<open>Request_Lines\<close> holds the string functions
  of C over byte lists and the scanning of request lines that hw1, hw2 and the routing table share.

  \<^bold>\<open>Theories of hw3.\<close>
  \<^item> \<open>Stcp_Segments\<close>: the segment lists of \<^verbatim>\<open>transport.c\<close> (nodes, insertion, the robust and the
    simple receive-buffer insertion, the send buffer) and the abstract view of a buffer as a
    partial map from positions to cells.
  \<^item> \<open>Stcp_Reassembly\<close>: robust insertion adds exactly the missing positions; the locale
    \<open>reassembly\<close> (sequences of arrivals), interpreted on the code's insertion.
  \<^item> \<open>Stcp_Wire\<close>: the STCP header, \<open>build_header\<close>, and the checksum of \<^verbatim>\<open>tcp_sum.c\<close>, with
    round trips and error detection.
  \<^item> \<open>Mysock\<close>: packet queues (\<^verbatim>\<open>mysock.c\<close>), the transport's interface (\<^verbatim>\<open>stcp_api.c\<close>) and the
    unreliable sender (\<^verbatim>\<open>network.c\<close>); the locale \<open>byte_queue\<close>, interpreted on the queues.
  \<^item> \<open>Stcp_Context\<close>: \<open>context_t\<close>, the connection state machine, the round-trip estimator and
    the timer. \<open>Stcp_Transport\<close>: the event handlers and one iteration of \<open>control_loop\<close>.
  \<^item> \<open>Stcp_Handshake\<close>, \<open>Stcp_Setup\<close>, \<open>Stcp_Setup_Run\<close>: \<open>transport_init\<close> with the two handshakes, cut
    where the thread waits, two endpoints that set up a connection over a network that loses,
    duplicates and reorders, and the run that continues with the data transfer.
  \<^item> \<open>Stcp_Invariant\<close>, \<open>Stcp_Sender\<close>, \<open>Stcp_Receiver\<close>, \<open>Stcp_Loop\<close>: the invariants of an
    endpoint and that every handler keeps them.
  \<^item> \<open>Stcp_System\<close>: two endpoints and the network (\<open>sys_step\<close>), the invariant of all reachable
    states and its consequences. \<open>Stcp_Scenario\<close>: a concrete run, for the witnesses.
  \<^item> \<open>Channel\<close>, \<open>Network_Io\<close>, \<open>Network_Framing\<close>: TCP sockets as a program sees them (hw1 uses them
    too), the packet service of \<^verbatim>\<open>network_io*.c\<close> over them, and that packets cross the byte stream.
  \<^item> \<open>Mysock_Sockets\<close>, \<open>Mysock_Demux\<close>, \<open>Mysock_Api\<close>: the descriptor table and the hash table
    (\<^verbatim>\<open>mysock.c\<close>, \<^verbatim>\<open>mysock_hash.h\<close>), the listening queues (\<^verbatim>\<open>connection_demux.c\<close>), the calls of
    \<^verbatim>\<open>mysock_api.c\<close> and the two threads of a mysocket. A call or a thread is cut where it waits.
  \<^item> \<open>Mysock_Table\<close>: the locale \<open>key_table\<close>, interpreted on the hash table. \<open>Mysock_Roles\<close>,
    \<open>Mysock_Invariant\<close>, \<open>Mysock_Steps\<close>, \<open>Mysock_Threads\<close>: the roles of the mysockets, the invariant of the
    tables and queues, and that the calls and threads keep it. \<open>Mysock_Process\<close>: a process
    as a step relation, all calls and threads in any order.
  \<^item> \<open>Mysock_Properties\<close>, \<open>Mysock_Opening\<close>: consistency, the order of acceptance, and that two
    processes that connect start where \<open>Stcp_Setup\<close> starts. \<open>Mysock_Deadlock\<close>, \<open>Mysock_Stray\<close>: a closing
    mysocket that waits for ever, and a dropped request that ends the process. \<open>Mysock_Example\<close>,
    \<open>Mysock_Run\<close>: a process that accepts a connection, for the witnesses.

  \<^bold>\<open>Theories of hw4.\<close>
  \<^item> the packet formats, the interfaces and the routing table, the ARP cache and the
    packet handling of \<^verbatim>\<open>sr_router.c\<close> are in the theories \<open>Router_*\<close>, in the order of their imports;
    the later ones hold the invariants of the ARP queue and of the heap, what one frame is answered
    with, and runs of frames and timer ticks.
  \<^item> \<open>Router_Load\<close>, \<open>Router_Load_Properties\<close>: \<open>sr_load_rt\<close>, and that it reads back what a
    table prints as.
  \<^item> \<open>Sha1\<close>, \<open>Sha1_Properties\<close>: the hash, and that it is the SHA-1 of the standard however the
    message is cut.
  \<^item> \<open>Vns_Server\<close>, \<open>Vns_Session\<close>, \<open>Vns_Properties\<close>, \<open>Vns_Example\<close>: the connection to the server, up
    to the loop that reads commands; a session is a run of the router.

  \<^bold>\<open>Theories of hw2.\<close> \<open>Http_Parser\<close> and \<open>Http_Grammar\<close>: the request parser, against a grammar of
  requests. The other \<open>Http_*\<close> theories: the connection contexts, the event handlers and the loop, the
  invariant of the tables (each open file belongs to one connection), absence of faults, and
  what a client gets for a request.

  \<^bold>\<open>Theories of hw1.\<close> \<open>Post_Server\<close>, \<open>Post_Client\<close>: the two programs. \<open>Post_Streams\<close>, \<open>Post_Grammar\<close>,
  \<open>Post_Safety\<close>, \<open>Post_Echo\<close>, \<open>Post_Properties\<close>: reading in chunks, the header against its grammar,
  memory safety of a child, the exchange of client and server. \<open>Post_Processes\<close>: the accept loop
  with its child processes.

  \<^bold>\<open>Bounds and fuel.\<close>
  \<^item> An STCP stream is at most \<open>MAX_STREAM\<close> bytes long: the code compares sequence numbers
    as plain unsigned numbers, so it is correct only as long as they do not wrap around.
  \<^item> The router's ARP handlers call each other; they take fuel, and fuel above the rank of the
    expired requests is enough. The sweep takes the number of requests it visits.
  \<^item> The server connection takes the answers of the socket as a list; fuel above its length is
    enough for a message, and rounds above the number of messages for a session.
  \<^item> The web server's kernel answers (\<open>read\<close>, \<open>write\<close>, \<open>sendfile\<close>, \<open>epoll_wait\<close>) are input; a file
    does not change while it is open. A scan for the NUL behind a full buffer is \<open>Out_Of_Bounds\<close>.
  \<^item> The reads and writes of hw1 are lists of what the socket does. An array that the code reads
    before it wrote it has arbitrary bytes, which are input.

  \<^bold>\<open>Not modelled.\<close> Threads and locks (the operations of other threads are steps of the system, and
  an operation under a lock is one step; only a closing mysocket holds \<open>listen_lock\<close> across its waits, while a
  waiting \<open>myaccept\<close> holds it for reading, which delays no step of the model), rounding of \<open>double\<close> arithmetic, logging to files and to the
  terminal, the packet log (\<^verbatim>\<open>sr_dumper.c\<close>), signal handlers, command-line options, the file transfer programs of hw3,
  the drafts and examples in \<^verbatim>\<open>src/hw2\<close>, the test programs, and the
  submission copies of the modelled files. The manifest says so per component.
\<close>

end
